(* ===== verification/CPrelude.thy ===== *)
theory CPrelude
  imports "HOL-Library.Word" "HOL-Library.Monad_Syntax"
begin

text \<open>
  Shared vocabulary of the development.  A C object is a list of cells (bytes,
  code points, array elements); a pointer into it is an index.  Every access goes through
  \<open>rd\<close>, \<open>wr\<close>, \<open>rd_block\<close> and \<open>wr_block\<close>, which return \<open>None\<close> outside the object, so
  in the whole development \<open>None\<close> is undefined behaviour of the C program (an access
  outside an object, a failed \<^verbatim>\<open>assert\<close>, \<^verbatim>\<open>abort()\<close>) or a loop that never ends, and a
  theorem \<open>f x = Some y\<close> says that \<open>f\<close> returns and touches only memory it owns.
  Return codes of the C functions (\<open>0\<close>, \<open>-1\<close>) are ordinary values.
\<close>

unbundle bit_operations_syntax

section \<open>Machine types\<close>

type_synonym u8 = "8 word"
type_synonym u16 = "16 word"
type_synonym u32 = "32 word"
type_synonym u64 = "64 word"

named_theorems mem_defs \<open>definitions of the memory access operations\<close>
named_theorems mem_simps \<open>rewrite rules for memory accesses in range\<close>

text \<open>Loops that access memory are recursive functions over the option monad; the
  termination proofs know the value a preceding access returned.\<close>

lemma bind_option_fundef_cong [fundef_cong]:
  "x = y \<Longrightarrow> (\<And>z. y = Some z \<Longrightarrow> f z = g z) \<Longrightarrow> Option.bind x f = Option.bind y g"
  by (cases y) auto

section \<open>Memory access\<close>

definition rd :: "'a list \<Rightarrow> nat \<Rightarrow> 'a option" where
  [mem_defs]: "rd m i = (if i < length m then Some (m ! i) else None)"

definition wr :: "'a list \<Rightarrow> nat \<Rightarrow> 'a \<Rightarrow> 'a list option" where
  [mem_defs]: "wr m i x = (if i < length m then Some (m[i := x]) else None)"

definition rd_block :: "'a list \<Rightarrow> nat \<Rightarrow> nat \<Rightarrow> 'a list option" where
  [mem_defs]: "rd_block m p n = (if p + n \<le> length m then Some (take n (drop p m)) else None)"

definition wr_block :: "'a list \<Rightarrow> nat \<Rightarrow> 'a list \<Rightarrow> 'a list option" where
  [mem_defs]: "wr_block m p d =
     (if p + length d \<le> length m then Some (take p m @ d @ drop (p + length d) m) else None)"

definition c_assert :: "bool \<Rightarrow> unit option" where
  [mem_defs]: "c_assert b = (if b then Some () else None)"

text \<open>The result of non-negative signed arithmetic in an \<^verbatim>\<open>int\<close> of 32 bits; overflow is
  undefined behaviour.\<close>

definition c_int :: "nat \<Rightarrow> nat option" where
  [mem_defs]: "c_int n = (if n < 2 ^ 31 then Some n else None)"

text \<open>\<open>resize m n x\<close> is the object \<^verbatim>\<open>realloc\<close> returns: the common prefix is kept and fresh
  cells hold an unspecified value \<open>x\<close>.\<close>

definition resize :: "'a list \<Rightarrow> nat \<Rightarrow> 'a \<Rightarrow> 'a list" where
  "resize m n x = take n m @ replicate (n - length m) x"

text \<open>\<^verbatim>\<open>strlen\<close>: the object must hold a terminator at or after the pointer.\<close>

definition c_strlen :: "u8 list \<Rightarrow> nat \<Rightarrow> nat option" where
  "c_strlen m p =
     (let s = takeWhile (\<lambda>c. c \<noteq> 0) (drop p m)
      in if p + length s < length m then Some (length s) else None)"

lemma rd_Some [mem_simps]: "i < length m \<Longrightarrow> rd m i = Some (m ! i)"
  by (simp add: rd_def)

lemma rd_eq_Some_iff: "rd m i = Some x \<longleftrightarrow> i < length m \<and> x = m ! i"
  by (auto simp: rd_def)

lemma rd_append_left [simp]: "i < length m \<Longrightarrow> rd (m @ m') i = Some (m ! i)"
  by (simp add: rd_def nth_append)

lemma rd_append_length [simp]: "rd (m @ x # m') (length m) = Some x"
  by (simp add: rd_def)

lemma rd_append_plus [simp]: "rd (m @ m') (length m + i) = rd m' i"
  by (simp add: rd_def)

lemma wr_Some [mem_simps]: "i < length m \<Longrightarrow> wr m i x = Some (m[i := x])"
  by (simp add: wr_def)

lemma wr_eq_Some_iff: "wr m i x = Some m' \<longleftrightarrow> i < length m \<and> m' = m[i := x]"
  by (auto simp: wr_def)

lemma rd_block_Some [mem_simps]: "p + n \<le> length m \<Longrightarrow> rd_block m p n = Some (take n (drop p m))"
  by (simp add: rd_block_def)

lemma rd_block_eq_Some_iff:
  "rd_block m p n = Some d \<longleftrightarrow> p + n \<le> length m \<and> d = take n (drop p m)"
  by (auto simp: rd_block_def)

lemma rd_block_append [simp]: "rd_block (m @ d @ m') (length m) (length d) = Some d"
  by (simp add: rd_block_def)

lemma wr_block_Some [mem_simps]:
  "p + length d \<le> length m \<Longrightarrow> wr_block m p d = Some (take p m @ d @ drop (p + length d) m)"
  by (simp add: wr_block_def)

lemma wr_block_eq_Some_iff:
  "wr_block m p d = Some m' \<longleftrightarrow>
     p + length d \<le> length m \<and> m' = take p m @ d @ drop (p + length d) m"
  by (auto simp: wr_block_def)

lemma wr_block_length: "wr_block m p d = Some m' \<Longrightarrow> length m' = length m"
  by (auto simp: wr_block_def split: if_splits)

lemma c_assert_Some [simp]: "c_assert b = Some u \<longleftrightarrow> b"
  by (simp add: c_assert_def)

lemma c_assert_True [simp]: "c_assert True = Some ()"
  by (simp add: c_assert_def)

lemma c_int_Some [simp]: "c_int n = Some m \<longleftrightarrow> m = n \<and> n < 2 ^ 31"
  by (auto simp: c_int_def)

lemma c_int_small: "n < 2 ^ 31 \<Longrightarrow> c_int n = Some n"
  by simp

lemma length_resize [simp]: "length (resize m n x) = n"
  by (simp add: resize_def)

lemma take_resize: "k \<le> n \<Longrightarrow> k \<le> length m \<Longrightarrow> take k (resize m n x) = take k m"
  by (simp add: resize_def min_absorb1)

lemma nth_resize: "i < n \<Longrightarrow> i < length m \<Longrightarrow> resize m n x ! i = m ! i"
  by (simp add: resize_def nth_append)

lemma take_wr_block:
  "wr_block m p d = Some m' \<Longrightarrow> take (p + length d) m' = take p m @ d"
  by (auto simp: wr_block_def split: if_splits)

lemma takeWhile_nul: "0 \<notin> set s \<Longrightarrow> takeWhile (\<lambda>c. c \<noteq> (0::'a::zero)) (s @ 0 # t) = s"
  by (induction s) auto

lemma c_strlen_nul [simp]:
  "0 \<notin> set s \<Longrightarrow> c_strlen (pre @ s @ 0 # post) (length pre) = Some (length s)"
  by (simp add: c_strlen_def takeWhile_nul)

lemma c_strlen_nul0 [simp]: "0 \<notin> set s \<Longrightarrow> c_strlen (s @ 0 # post) 0 = Some (length s)"
  using c_strlen_nul [of s "[]" post] by simp

section \<open>Computations that return\<close>

text \<open>\<open>returns f P\<close>: the computation \<open>f\<close> is defined (it ends and touches only its own memory) and
  its result satisfies \<open>P\<close>.  The rules follow the structure of a computation.\<close>

definition returns :: "'a option \<Rightarrow> ('a \<Rightarrow> bool) \<Rightarrow> bool" where
  "returns f P \<longleftrightarrow> (\<exists>x. f = Some x \<and> P x)"

named_theorems ret_intros \<open>introduction rules for \<open>returns\<close>\<close>

lemma returns_Some [simp]: "returns (Some x) P = P x"
  by (simp add: returns_def)

lemma returns_None [simp]: "\<not> returns None P"
  by (simp add: returns_def)

lemma returns_bind: "returns f Q \<Longrightarrow> (\<And>x. Q x \<Longrightarrow> returns (g x) P) \<Longrightarrow> returns (f \<bind> g) P"
  by (auto simp: returns_def)

lemma returns_mono: "returns f Q \<Longrightarrow> (\<And>x. Q x \<Longrightarrow> P x) \<Longrightarrow> returns f P"
  by (auto simp: returns_def)

lemma returns_conj: "returns f P \<Longrightarrow> returns f Q \<Longrightarrow> returns f (\<lambda>x. P x \<and> Q x)"
  by (auto simp: returns_def)

lemma returns_if [ret_intros]:
  "(b \<Longrightarrow> returns f P) \<Longrightarrow> (\<not> b \<Longrightarrow> returns g P) \<Longrightarrow> returns (if b then f else g) P"
  by simp

lemma returnsE: "returns f P \<Longrightarrow> (\<And>x. f = Some x \<Longrightarrow> P x \<Longrightarrow> R) \<Longrightarrow> R"
  by (auto simp: returns_def)

section \<open>Disjoint bit patterns\<close>

lemma or_add_disjoint_nat:
  assumes "x < 2 ^ k" and "2 ^ k dvd y"
  shows "x OR y = x + (y :: nat)"
proof -
  obtain z where y: "y = push_bit k z"
    using assms(2) by (auto simp: push_bit_eq_mult elim: dvdE)
  have x: "take_bit k x = x"
    using assms(1) by (simp add: take_bit_nat_eq_self)
  have "take_bit k x AND push_bit k z = 0"
    by (rule bit_eqI) (auto simp: bit_simps)
  then have "x AND y = 0" by (simp add: x y)
  then show ?thesis by (simp add: disjunctive_add_eq_or)
qed

lemma unat_or_add:
  assumes "unat x < 2 ^ k" and "2 ^ k dvd unat y"
  shows "unat (x OR y) = unat x + unat (y :: 'a::len word)"
  using or_add_disjoint_nat [OF assms] by (simp add: unsigned_or_eq)

section \<open>Counting loops\<close>

text \<open>\<^verbatim>\<open>for(i = a; i < a + n; i++)\<close> and \<^verbatim>\<open>for(i = n - 1; i >= 0; i--)\<close> over a body that may
  fault; the rules state the loop invariant.\<close>

primrec for_up :: "(nat \<Rightarrow> 's \<Rightarrow> 's option) \<Rightarrow> nat \<Rightarrow> nat \<Rightarrow> 's \<Rightarrow> 's option" where
  "for_up f 0 i s = Some s"
| "for_up f (Suc n) i s = do { s \<leftarrow> f i s; for_up f n (Suc i) s }"

primrec for_down :: "(nat \<Rightarrow> 's \<Rightarrow> 's option) \<Rightarrow> nat \<Rightarrow> 's \<Rightarrow> 's option" where
  "for_down f 0 s = Some s"
| "for_down f (Suc i) s = do { s \<leftarrow> f i s; for_down f i s }"

lemma for_up_inv_aux:
  assumes "I i s" and "\<And>j s. i \<le> j \<Longrightarrow> j < i + n \<Longrightarrow> I j s \<Longrightarrow> returns (f j s) (I (Suc j))"
  shows "returns (for_up f n i s) (I (i + n))"
  using assms
proof (induction n arbitrary: i s)
  case (Suc n)
  have "returns (f i s) (I (Suc i))" using Suc.prems by simp
  moreover have "returns (for_up f n (Suc i) s') (I (i + Suc n))" if "I (Suc i) s'" for s'
    using Suc.IH [of "Suc i" s'] that Suc.prems(2) by simp
  ultimately show ?case by (auto intro: returns_bind)
qed simp

lemma for_up_inv:
  "I 0 s \<Longrightarrow> (\<And>j s. j < n \<Longrightarrow> I j s \<Longrightarrow> returns (f j s) (I (Suc j))) \<Longrightarrow> returns (for_up f n 0 s) (I n)"
  using for_up_inv_aux [of I 0 s n f] by simp

lemma for_down_inv:
  assumes "I n s" and "\<And>j s. j < n \<Longrightarrow> I (Suc j) s \<Longrightarrow> returns (f j s) (I j)"
  shows "returns (for_down f n s) (I 0)"
  using assms
proof (induction n arbitrary: s)
  case (Suc n)
  have "returns (f n s) (I n)" using Suc.prems by simp
  moreover have "returns (for_down f n s') (I 0)" if "I n s'" for s'
    using Suc.IH [of s'] that Suc.prems(2) by simp
  ultimately show ?case by (auto intro: returns_bind)
qed simp

section \<open>Little-endian words in byte arrays\<close>

text \<open>The object representation of an unsigned integer on the little-endian targets the
  code is built for (\<^verbatim>\<open>#undef WORDS_BIGENDIAN\<close> in cutils.h).\<close>

definition le_bytes :: "nat \<Rightarrow> 'a::len word \<Rightarrow> u8 list" where
  "le_bytes n w = map (\<lambda>i. ucast (drop_bit (8 * i) w)) [0..<n]"

fun le_word :: "u8 list \<Rightarrow> 'a::len word" where
  "le_word [] = 0"
| "le_word (b # bs) = ucast b OR push_bit 8 (le_word bs)"

lemma length_le_bytes [simp]: "length (le_bytes n w) = n"
  by (simp add: le_bytes_def)

lemma bit_le_word:
  "bit (le_word bs :: 'a::len word) i \<longleftrightarrow>
     i < LENGTH('a) \<and> i div 8 < length bs \<and> bit (bs ! (i div 8)) (i mod 8)"
proof (induction bs arbitrary: i)
  case Nil
  then show ?case by simp
next
  case (Cons b bs)
  show ?case
  proof (cases "i < 8")
    case True
    then show ?thesis
      by (auto simp: bit_simps)
  next
    case False
    then obtain j where i: "i = j + 8"
      using le_Suc_ex by (metis add.commute not_less)
    have "\<not> bit b (j + 8)"
      by (rule impossible_bit) simp
    then show ?thesis
      using Cons.IH [of j] by (auto simp: bit_simps i div_add_self2)
  qed
qed

lemma le_word_le_bytes:
  assumes "LENGTH('a) \<le> 8 * n"
  shows "le_word (le_bytes n w) = (w :: 'a::len word)"
proof (rule bit_word_eqI)
  fix i
  assume "i < LENGTH('a)"
  then have "i div 8 < n" using assms by auto
  then show "bit (le_word (le_bytes n w) :: 'a word) i = bit w i"
    using \<open>i < LENGTH('a)\<close> by (simp add: bit_le_word le_bytes_def bit_simps)
qed

lemma le_bytes_le_word:
  assumes "length bs = n" and "8 * n \<le> LENGTH('a::len)"
  shows "le_bytes n (le_word bs :: 'a word) = bs"
proof (rule nth_equalityI)
  show "length (le_bytes n (le_word bs :: 'a word)) = length bs"
    using assms by simp
next
  fix k
  assume "k < length (le_bytes n (le_word bs :: 'a word))"
  then have k: "k < n" by simp
  show "le_bytes n (le_word bs :: 'a word) ! k = bs ! k"
  proof (rule bit_word_eqI)
    fix j
    assume "j < LENGTH(8)"
    then have j: "j < 8" by simp
    have "8 * k + j < LENGTH('a)"
      using k j assms(2) by linarith
    then show "bit (le_bytes n (le_word bs :: 'a word) ! k) j = bit (bs ! k) j"
      using k j assms(1) by (simp add: le_bytes_def bit_simps bit_le_word)
  qed
qed

section \<open>Sizes\<close>

text \<open>\<^verbatim>\<open>size_t\<close> is a 64-bit unsigned integer; sums and products wrap.\<close>

definition size_t_max :: nat where
  "size_t_max = 2 ^ 64 - 1"

definition szadd :: "nat \<Rightarrow> nat \<Rightarrow> nat" where
  "szadd a b = (a + b) mod 2 ^ 64"

definition szmul :: "nat \<Rightarrow> nat \<Rightarrow> nat" where
  "szmul a b = (a * b) mod 2 ^ 64"

text \<open>No object is larger than \<^verbatim>\<open>PTRDIFF_MAX\<close> bytes: allocators refuse such requests.\<close>

definition obj_max :: nat where
  "obj_max = 2 ^ 63 - 1"

lemma szadd_small: "a \<le> obj_max \<Longrightarrow> b \<le> obj_max \<Longrightarrow> szadd a b = a + b"
  by (simp add: szadd_def obj_max_def)

end
