(* ===== verification/CStrings.thy ===== *)
theory CStrings
  imports CPrelude
begin

text \<open>
  The string and integer helpers of \<^verbatim>\<open>cutils.c\<close> and \<^verbatim>\<open>cutils.h\<close>: bounded string copies,
  prefix and suffix tests, minima and maxima, bit counting, unaligned little-endian loads and
  stores, byte swaps, hexadecimal digits.  A \<^verbatim>\<open>char *\<close> is an object and an index into it.
\<close>

section \<open>Bounded copies\<close>

function pstrcpy_loop :: "u8 list \<Rightarrow> nat \<Rightarrow> nat \<Rightarrow> u8 list \<Rightarrow> nat \<Rightarrow> u8 list option" where
  "pstrcpy_loop m q lim str p =
     do { c \<leftarrow> rd str p;
          if c = 0 \<or> q \<ge> lim then wr m q 0
          else do { m' \<leftarrow> wr m q c; pstrcpy_loop m' (Suc q) lim str (Suc p) } }"
  by pat_completeness auto
termination
  by (relation "measure (\<lambda>(m, q, lim, str, p). lim - q)") auto

declare pstrcpy_loop.simps [simp del]

definition pstrcpy :: "u8 list \<Rightarrow> nat \<Rightarrow> int \<Rightarrow> u8 list \<Rightarrow> nat \<Rightarrow> u8 list option" where
  "pstrcpy m buf buf_size str p =
     (if buf_size \<le> 0 then Some m
      else pstrcpy_loop m buf (buf + nat buf_size - 1) str p)"

definition pstrcat :: "u8 list \<Rightarrow> nat \<Rightarrow> int \<Rightarrow> u8 list \<Rightarrow> nat \<Rightarrow> u8 list option" where
  "pstrcat m buf buf_size s p =
     do { len \<leftarrow> c_strlen m buf;
          if int len < buf_size then pstrcpy m (buf + len) (buf_size - int len) s p
          else Some m }"

section \<open>Prefix and suffix tests\<close>

function strstart_loop :: "u8 list \<Rightarrow> nat \<Rightarrow> u8 list \<Rightarrow> nat \<Rightarrow> nat option option" where
  "strstart_loop str p val q =
     do { b \<leftarrow> rd val q;
          if b = 0 then Some (Some p)
          else do { a \<leftarrow> rd str p;
                    if a \<noteq> b then Some None
                    else strstart_loop str (Suc p) val (Suc q) } }"
  by pat_completeness auto
termination
  by (relation "measure (\<lambda>(str, p, val, q). length val - q)") (auto simp: rd_eq_Some_iff)

declare strstart_loop.simps [simp del]

text \<open>The result is the return code and, when it is 1, the value stored through \<^verbatim>\<open>ptr\<close>.\<close>

definition strstart :: "u8 list \<Rightarrow> nat \<Rightarrow> u8 list \<Rightarrow> nat \<Rightarrow> (int \<times> nat option) option" where
  "strstart str p val q =
     do { r \<leftarrow> strstart_loop str p val q;
          Some (case r of None \<Rightarrow> (0, None) | Some p' \<Rightarrow> (1, Some p')) }"

definition has_suffix :: "u8 list \<Rightarrow> nat \<Rightarrow> u8 list \<Rightarrow> nat \<Rightarrow> bool option" where
  "has_suffix str p suffix q =
     do { len \<leftarrow> c_strlen str p;
          slen \<leftarrow> c_strlen suffix q;
          if len \<ge> slen
          then do { a \<leftarrow> rd_block str (p + len - slen) slen;
                    b \<leftarrow> rd_block suffix q slen;
                    Some (a = b) }
          else Some False }"

section \<open>Integer helpers\<close>

definition max_int :: "int \<Rightarrow> int \<Rightarrow> int" where
  "max_int a b = (if a > b then a else b)"

definition min_int :: "int \<Rightarrow> int \<Rightarrow> int" where
  "min_int a b = (if a < b then a else b)"

definition max_uint32 :: "u32 \<Rightarrow> u32 \<Rightarrow> u32" where
  "max_uint32 a b = (if a > b then a else b)"

definition min_uint32 :: "u32 \<Rightarrow> u32 \<Rightarrow> u32" where
  "min_uint32 a b = (if a < b then a else b)"

definition max_int64 :: "int \<Rightarrow> int \<Rightarrow> int" where
  "max_int64 a b = (if a > b then a else b)"

definition min_int64 :: "int \<Rightarrow> int \<Rightarrow> int" where
  "min_int64 a b = (if a < b then a else b)"

text \<open>The compiler builtins count from the top or the bottom bit and are undefined at 0.\<close>

definition clz32 :: "u32 \<Rightarrow> nat option" where
  "clz32 a = (if a = 0 then None else Some (length (takeWhile (\<lambda>i. \<not> bit a i) (rev [0..<32]))))"

definition clz64 :: "u64 \<Rightarrow> nat option" where
  "clz64 a = (if a = 0 then None else Some (length (takeWhile (\<lambda>i. \<not> bit a i) (rev [0..<64]))))"

definition ctz32 :: "u32 \<Rightarrow> nat option" where
  "ctz32 a = (if a = 0 then None else Some (length (takeWhile (\<lambda>i. \<not> bit a i) [0..<32])))"

definition ctz64 :: "u64 \<Rightarrow> nat option" where
  "ctz64 a = (if a = 0 then None else Some (length (takeWhile (\<lambda>i. \<not> bit a i) [0..<64])))"

section \<open>Unaligned loads and stores\<close>

definition get_u64 :: "u8 list \<Rightarrow> nat \<Rightarrow> u64 option" where
  "get_u64 tab p = do { b \<leftarrow> rd_block tab p 8; Some (le_word b) }"

definition get_i64 :: "u8 list \<Rightarrow> nat \<Rightarrow> int option" where
  "get_i64 tab p = do { v \<leftarrow> get_u64 tab p; Some (sint v) }"

definition put_u64 :: "u8 list \<Rightarrow> nat \<Rightarrow> u64 \<Rightarrow> u8 list option" where
  "put_u64 tab p val = wr_block tab p (le_bytes 8 val)"

definition get_u32 :: "u8 list \<Rightarrow> nat \<Rightarrow> u32 option" where
  "get_u32 tab p = do { b \<leftarrow> rd_block tab p 4; Some (le_word b) }"

definition get_i32 :: "u8 list \<Rightarrow> nat \<Rightarrow> int option" where
  "get_i32 tab p = do { v \<leftarrow> get_u32 tab p; Some (sint v) }"

definition put_u32 :: "u8 list \<Rightarrow> nat \<Rightarrow> u32 \<Rightarrow> u8 list option" where
  "put_u32 tab p val = wr_block tab p (le_bytes 4 val)"

definition get_u16 :: "u8 list \<Rightarrow> nat \<Rightarrow> u32 option" where
  "get_u16 tab p = do { b \<leftarrow> rd_block tab p 2; Some (ucast (le_word b :: u16)) }"

definition get_i16 :: "u8 list \<Rightarrow> nat \<Rightarrow> int option" where
  "get_i16 tab p = do { b \<leftarrow> rd_block tab p 2; Some (sint (le_word b :: u16)) }"

definition put_u16 :: "u8 list \<Rightarrow> nat \<Rightarrow> u16 \<Rightarrow> u8 list option" where
  "put_u16 tab p val = wr_block tab p (le_bytes 2 val)"

definition get_u8 :: "u8 list \<Rightarrow> nat \<Rightarrow> u32 option" where
  "get_u8 tab p = do { b \<leftarrow> rd tab p; Some (ucast b) }"

definition get_i8 :: "u8 list \<Rightarrow> nat \<Rightarrow> int option" where
  "get_i8 tab p = do { b \<leftarrow> rd tab p; Some (sint b) }"

definition put_u8 :: "u8 list \<Rightarrow> nat \<Rightarrow> u8 \<Rightarrow> u8 list option" where
  "put_u8 tab p val = wr tab p val"

section \<open>Byte swaps and hexadecimal digits\<close>

definition bswap16 :: "u16 \<Rightarrow> u16" where
  "bswap16 x = drop_bit 8 x OR push_bit 8 x"

definition bswap32 :: "u32 \<Rightarrow> u32" where
  "bswap32 v =
     (drop_bit 24 (v AND 0xff000000)) OR (drop_bit 8 (v AND 0x00ff0000)) OR
     (push_bit 8 (v AND 0x0000ff00)) OR (push_bit 24 (v AND 0x000000ff))"

definition bswap64 :: "u64 \<Rightarrow> u64" where
  "bswap64 v =
     drop_bit (7 * 8) (v AND push_bit (7 * 8) 0xff) OR
     drop_bit (5 * 8) (v AND push_bit (6 * 8) 0xff) OR
     drop_bit (3 * 8) (v AND push_bit (5 * 8) 0xff) OR
     drop_bit (1 * 8) (v AND push_bit (4 * 8) 0xff) OR
     push_bit (1 * 8) (v AND push_bit (3 * 8) 0xff) OR
     push_bit (3 * 8) (v AND push_bit (2 * 8) 0xff) OR
     push_bit (5 * 8) (v AND push_bit (1 * 8) 0xff) OR
     push_bit (7 * 8) (v AND push_bit (0 * 8) 0xff)"

definition from_hex :: "int \<Rightarrow> int" where
  "from_hex c =
     (if c \<ge> 48 \<and> c \<le> 57 then c - 48
      else if c \<ge> 65 \<and> c \<le> 70 then c - 65 + 10
      else if c \<ge> 97 \<and> c \<le> 102 then c - 97 + 10
      else -1)"

section \<open>Correctness of the string functions\<close>

lemma pstrcpy_loop_eq:
  assumes "0 \<notin> set s" and "q \<le> lim" and "lim < length m"
  shows "pstrcpy_loop m q lim (pre @ s @ 0 # post) (length pre) =
     Some (take q m @ take (lim - q) s @ 0 # drop (q + length (take (lim - q) s) + 1) m)"
  using assms
proof (induction s arbitrary: pre m q)
  case Nil
  then show ?case
    by (subst pstrcpy_loop.simps) (simp add: mem_simps upd_conv_take_nth_drop)
next
  case (Cons c s)
  show ?case
  proof (cases "q < lim")
    case False
    with Cons.prems show ?thesis
      by (subst pstrcpy_loop.simps) (simp add: mem_simps upd_conv_take_nth_drop)
  next
    case True
    have IH: "pstrcpy_loop (m[q := c]) (Suc q) lim ((pre @ [c]) @ s @ 0 # post) (length (pre @ [c])) =
       Some (take (Suc q) (m[q := c]) @ take (lim - Suc q) s @ 0 #
             drop (Suc q + length (take (lim - Suc q) s) + 1) (m[q := c]))"
      using Cons.prems True by (intro Cons.IH) auto
    have "take (Suc q) (m[q := c]) = take q m @ [c]"
      using True Cons.prems by (simp add: take_Suc_conv_app_nth)
    moreover have "lim - q = Suc (lim - Suc q)" using True by simp
    ultimately show ?thesis
      using IH Cons.prems True by (subst pstrcpy_loop.simps) (simp add: mem_simps)
  qed
qed

lemma pstrcpy_eq:
  assumes "0 \<notin> set s" and "0 < n" and "buf + n \<le> length m"
  shows "pstrcpy m buf (int n) (pre @ s @ 0 # post) (length pre) =
     Some (take buf m @ take (n - 1) s @ 0 # drop (buf + length (take (n - 1) s) + 1) m)"
  using assms pstrcpy_loop_eq [of s buf "buf + n - 1" m pre post]
  by (simp add: pstrcpy_def)

lemma pstrcat_eq:
  assumes "0 \<notin> set a" and "0 \<notin> set s" and "length a < n" and "n \<le> length a + 1 + length rest"
  shows "pstrcat (a @ 0 # rest) 0 (int n) (pre @ s @ 0 # post) (length pre) =
     Some (take (n - 1) (a @ s) @ 0 # drop (length (take (n - 1 - length a) s)) rest)"
proof -
  obtain k where n: "n = length a + Suc k"
    using assms(3) less_imp_Suc_add by fastforce
  have len: "c_strlen (a @ 0 # rest) 0 = Some (length a)"
    using assms(1) by simp
  have "pstrcpy (a @ 0 # rest) (length a) (int (Suc k)) (pre @ s @ 0 # post) (length pre) =
     Some (take (length a) (a @ 0 # rest) @ take (Suc k - 1) s @ 0 #
           drop (length a + length (take (Suc k - 1) s) + 1) (a @ 0 # rest))"
    using assms(2,4) by (intro pstrcpy_eq) (auto simp: n)
  then show ?thesis
    by (simp add: pstrcat_def len n)
qed

lemma strstart_loop_eq:
  assumes "0 \<notin> set s" and "0 \<notin> set v"
  shows "strstart_loop (pre @ s @ 0 # post) (length pre) (pre' @ v @ 0 # post') (length pre') =
     Some (if take (length v) s = v then Some (length pre + length v) else None)"
  using assms
proof (induction v arbitrary: s pre pre')
  case Nil
  then show ?case by (subst strstart_loop.simps) simp
next
  case (Cons b v)
  show ?case
  proof (cases s)
    case Nil
    with Cons.prems show ?thesis
      by (subst strstart_loop.simps) simp
  next
    case (Cons a s')
    with Cons.prems Cons.IH [of s' "pre @ [a]" "pre' @ [b]"] show ?thesis
      by (subst strstart_loop.simps) auto
  qed
qed

lemma strstart_eq:
  assumes "0 \<notin> set s" and "0 \<notin> set v"
  shows "strstart (pre @ s @ 0 # post) (length pre) (pre' @ v @ 0 # post') (length pre') =
     Some (if take (length v) s = v then (1, Some (length pre + length v)) else (0, None))"
  by (simp add: strstart_def strstart_loop_eq [OF assms])

lemma has_suffix_eq:
  assumes "0 \<notin> set s" and "0 \<notin> set v"
  shows "has_suffix (pre @ s @ 0 # post) (length pre) (pre' @ v @ 0 # post') (length pre') =
     Some (\<exists>t. s = t @ v)"
proof -
  have suf: "(\<exists>t. s = t @ v) \<longleftrightarrow> length v \<le> length s \<and> drop (length s - length v) s = v"
    by (metis append_eq_conv_conj append_take_drop_id diff_diff_cancel diff_le_self le_add2
        length_append length_drop add_diff_cancel_right')
  show ?thesis
    using assms by (auto simp: has_suffix_def suf rd_block_def)
qed

end
