(* ===== verification/DynBuf.thy ===== *)
theory DynBuf
  imports CStrings
begin

text \<open>
  The dynamic buffer package of \<^verbatim>\<open>cutils.c\<close>.  A buffer owns one heap block: \<open>db_ptr\<close> is its
  address (0 is \<^verbatim>\<open>NULL\<close>) and \<open>db_buf\<close> its cells.  The allocator is the function pointer
  \<open>db_realloc\<close> with the C signature (opaque state, pointer, size; the new pointer and the
  opaque state after the call); the object behind \<^verbatim>\<open>opaque\<close> is passed explicitly.  Every
  operation returns its C return code, the buffer and the allocator state; \<open>None\<close> is an access
  outside the block.
\<close>

type_synonym 'h realloc_func = "'h \<Rightarrow> nat \<Rightarrow> nat \<Rightarrow> nat \<times> 'h"

record 'h dynbuf =
  db_ptr :: nat
  db_buf :: "u8 list"
  db_size :: nat
  db_allocated_size :: nat
  db_error :: bool
  db_realloc :: "'h realloc_func"

section \<open>Operations\<close>

definition dbuf_init2 :: "'h realloc_func option \<Rightarrow> 'h realloc_func \<Rightarrow> 'h dynbuf" where
  "dbuf_init2 realloc_func dbuf_default_realloc =
     \<lparr>db_ptr = 0, db_buf = [], db_size = 0, db_allocated_size = 0, db_error = False,
      db_realloc = (case realloc_func of None \<Rightarrow> dbuf_default_realloc | Some f \<Rightarrow> f)\<rparr>"

definition dbuf_init :: "'h realloc_func \<Rightarrow> 'h dynbuf" where
  "dbuf_init dbuf_default_realloc = dbuf_init2 None dbuf_default_realloc"

definition dbuf_realloc :: "'h dynbuf \<Rightarrow> nat \<Rightarrow> 'h \<Rightarrow> int \<times> 'h dynbuf \<times> 'h" where
  "dbuf_realloc s new_size h =
     (if new_size > db_allocated_size s then
        if db_error s then (-1, s, h)
        else
          let size = szmul (db_allocated_size s) 3 div 2;
              new_size = (if size > new_size then size else new_size);
              (new_buf, h) = db_realloc s h (db_ptr s) new_size
          in if new_buf = 0 then (-1, s\<lparr>db_error := True\<rparr>, h)
             else (0, s\<lparr>db_ptr := new_buf, db_buf := resize (db_buf s) new_size (of_nat new_buf),
                        db_allocated_size := new_size\<rparr>, h)
      else (0, s, h))"

definition dbuf_write ::
  "'h dynbuf \<Rightarrow> nat \<Rightarrow> u8 list \<Rightarrow> 'h \<Rightarrow> (int \<times> 'h dynbuf \<times> 'h) option" where
  "dbuf_write s offset data h =
     (let end = szadd offset (length data);
          (r, s, h) = dbuf_realloc s end h
      in if r \<noteq> 0 then Some (-1, s, h)
         else do { b \<leftarrow> wr_block (db_buf s) offset data;
                   let s = s\<lparr>db_buf := b\<rparr>;
                   Some (0, if end > db_size s then s\<lparr>db_size := end\<rparr> else s, h) })"

definition dbuf_grow :: "'h dynbuf \<Rightarrow> nat \<Rightarrow> 'h \<Rightarrow> int \<times> 'h dynbuf \<times> 'h" where
  "dbuf_grow s len h =
     (if szadd (db_size s) len > db_allocated_size s
      then dbuf_realloc s (szadd (db_size s) len) h else (0, s, h))"

definition dbuf_put :: "'h dynbuf \<Rightarrow> u8 list \<Rightarrow> 'h \<Rightarrow> (int \<times> 'h dynbuf \<times> 'h) option" where
  "dbuf_put s data h =
     (let (r, s, h) = dbuf_grow s (length data) h
      in if r \<noteq> 0 then Some (-1, s, h)
         else do { b \<leftarrow> wr_block (db_buf s) (db_size s) data;
                   Some (0, s\<lparr>db_buf := b, db_size := szadd (db_size s) (length data)\<rparr>, h) })"

text \<open>\<^verbatim>\<open>memcpy\<close> within one object is undefined when source and destination overlap.\<close>

definition dbuf_put_self ::
  "'h dynbuf \<Rightarrow> nat \<Rightarrow> nat \<Rightarrow> 'h \<Rightarrow> (int \<times> 'h dynbuf \<times> 'h) option" where
  "dbuf_put_self s offset len h =
     (let (r, s, h) = dbuf_grow s len h
      in if r \<noteq> 0 then Some (-1, s, h)
         else do { c_assert (len = 0 \<or> offset + len \<le> db_size s \<or> db_size s + len \<le> offset);
                   data \<leftarrow> rd_block (db_buf s) offset len;
                   b \<leftarrow> wr_block (db_buf s) (db_size s) data;
                   Some (0, s\<lparr>db_buf := b, db_size := szadd (db_size s) len\<rparr>, h) })"

definition dbuf_putc :: "'h dynbuf \<Rightarrow> u8 \<Rightarrow> 'h \<Rightarrow> (int \<times> 'h dynbuf \<times> 'h) option" where
  "dbuf_putc s c h = dbuf_put s [c] h"

definition dbuf_putstr ::
  "'h dynbuf \<Rightarrow> u8 list \<Rightarrow> nat \<Rightarrow> 'h \<Rightarrow> (int \<times> 'h dynbuf \<times> 'h) option" where
  "dbuf_putstr s str p h =
     do { len \<leftarrow> c_strlen str p; data \<leftarrow> rd_block str p len; dbuf_put s data h }"

definition dbuf_put_u16 :: "'h dynbuf \<Rightarrow> u16 \<Rightarrow> 'h \<Rightarrow> (int \<times> 'h dynbuf \<times> 'h) option" where
  "dbuf_put_u16 s val h = dbuf_put s (le_bytes 2 val) h"

definition dbuf_put_u32 :: "'h dynbuf \<Rightarrow> u32 \<Rightarrow> 'h \<Rightarrow> (int \<times> 'h dynbuf \<times> 'h) option" where
  "dbuf_put_u32 s val h = dbuf_put s (le_bytes 4 val) h"

definition dbuf_put_u64 :: "'h dynbuf \<Rightarrow> u64 \<Rightarrow> 'h \<Rightarrow> (int \<times> 'h dynbuf \<times> 'h) option" where
  "dbuf_put_u64 s val h = dbuf_put s (le_bytes 8 val) h"

text \<open>\<open>out\<close> is the text the format and its arguments denote.  \<^verbatim>\<open>vsnprintf\<close> into \<open>n\<close> bytes
  stores at most \<open>n - 1\<close> of its bytes and a terminator, and returns its full length.\<close>

definition c_vsnprintf :: "u8 list \<Rightarrow> nat \<Rightarrow> nat \<Rightarrow> u8 list \<Rightarrow> u8 list option" where
  "c_vsnprintf m p n out = (if n = 0 then Some m else wr_block m p (take (n - 1) out @ [0]))"

definition dbuf_printf :: "'h dynbuf \<Rightarrow> u8 list \<Rightarrow> 'h \<Rightarrow> (int \<times> 'h dynbuf \<times> 'h) option" where
  "dbuf_printf s out h =
     (let len = length out
      in if len < 128 then dbuf_put s out h
         else let (r, s, h) = dbuf_realloc s (szadd (szadd (db_size s) len) 1) h
              in if r \<noteq> 0 then Some (-1, s, h)
                 else do { b \<leftarrow> c_vsnprintf (db_buf s) (db_size s)
                                   (db_allocated_size s - db_size s) out;
                           Some (0, s\<lparr>db_buf := b, db_size := szadd (db_size s) len\<rparr>, h) })"

definition dbuf_free :: "'h dynbuf \<Rightarrow> 'h \<Rightarrow> 'h dynbuf \<times> 'h" where
  "dbuf_free s h =
     (let h = (if db_ptr s \<noteq> 0 then snd (db_realloc s h (db_ptr s) 0) else h)
      in (s\<lparr>db_ptr := 0, db_buf := [], db_size := 0, db_allocated_size := 0, db_error := False\<rparr>, h))"

definition dbuf_error :: "'h dynbuf \<Rightarrow> bool" where
  "dbuf_error s = db_error s"

definition dbuf_set_error :: "'h dynbuf \<Rightarrow> 'h dynbuf" where
  "dbuf_set_error s = s\<lparr>db_error := True\<rparr>"

text \<open>\<^verbatim>\<open>dbuf_insert\<close> of \<^verbatim>\<open>libregexp.c\<close>: open a gap of \<open>len\<close> bytes at \<open>pos\<close>.  The bytes
  of the gap keep their old values.\<close>

definition dbuf_insert ::
  "'h dynbuf \<Rightarrow> nat \<Rightarrow> nat \<Rightarrow> 'h \<Rightarrow> (int \<times> 'h dynbuf \<times> 'h) option" where
  "dbuf_insert s pos len h =
     (let (r, s, h) = dbuf_realloc s (szadd (db_size s) len) h
      in if r \<noteq> 0 then Some (-1, s, h)
         else do { c_assert (pos \<le> db_size s);
                   d \<leftarrow> rd_block (db_buf s) pos (db_size s - pos);
                   b \<leftarrow> wr_block (db_buf s) (pos + len) d;
                   Some (0, s\<lparr>db_buf := b, db_size := szadd (db_size s) len\<rparr>, h) })"

section \<open>Contracts\<close>

text \<open>What the package relies on: an allocator never hands out a block larger than
  \<^verbatim>\<open>PTRDIFF_MAX\<close> bytes.\<close>

locale allocator =
  fixes R :: "'h realloc_func"
  assumes alloc_bound: "R h p n = (q, h') \<Longrightarrow> q \<noteq> 0 \<Longrightarrow> n \<le> obj_max"

text \<open>An allocator whose state keeps a record of refusals: \<open>seen\<close> holds after a call exactly
  when it held before or the call asked for a block and got \<^verbatim>\<open>NULL\<close>.  Every allocator can
  be watched this way, so a statement about the allocators that keep a record is a statement
  about the requests made in one run.\<close>

definition records :: "'h realloc_func \<Rightarrow> ('h \<Rightarrow> bool) \<Rightarrow> bool" where
  "records R seen \<longleftrightarrow>
     (\<forall>h p n q h'. R h p n = (q, h') \<longrightarrow> seen h' = (seen h \<or> q = 0 \<and> n \<noteq> 0))"

definition watch :: "'h realloc_func \<Rightarrow> (bool \<times> 'h) realloc_func" where
  "watch R = (\<lambda>(seen, h) p n. let (q, h') = R h p n in (q, (seen \<or> q = 0 \<and> n \<noteq> 0, h')))"

lemma records_watch: "records (watch R) fst"
  by (auto simp: records_def watch_def split: prod.splits)

lemma allocator_watch: "allocator R \<Longrightarrow> allocator (watch R)"
  by (auto simp: allocator_def watch_def split: prod.splits)

lemma recordsD: "records R seen \<Longrightarrow> R h p n = (q, h') \<Longrightarrow> seen h' = (seen h \<or> q = 0 \<and> n \<noteq> 0)"
  by (simp add: records_def)

definition db_content :: "'h dynbuf \<Rightarrow> u8 list" where
  "db_content s = take (db_size s) (db_buf s)"

definition dbuf_wf :: "'h dynbuf \<Rightarrow> bool" where
  "dbuf_wf s \<longleftrightarrow>
     db_allocated_size s = length (db_buf s) \<and> db_size s \<le> db_allocated_size s \<and>
     db_allocated_size s \<le> obj_max \<and> allocator (db_realloc s)"

text \<open>The append interface the dynamic buffers and the character ranges share: \<open>put\<close> appends
  \<open>chunk x\<close> or reports \<open>-1\<close> and leaves the contents alone.\<close>

locale growable =
  fixes inv :: "'d \<Rightarrow> bool"
    and content :: "'d \<Rightarrow> 'a list"
    and ok :: "'x \<Rightarrow> bool"
    and chunk :: "'x \<Rightarrow> 'a list"
    and put :: "'d \<Rightarrow> 'x \<Rightarrow> 'h \<Rightarrow> (int \<times> 'd \<times> 'h) option"
  assumes put_inv: "inv d \<Longrightarrow> ok x \<Longrightarrow> put d x h = Some (r, d', h') \<Longrightarrow> inv d'"
    and put_ok: "inv d \<Longrightarrow> ok x \<Longrightarrow> put d x h = Some (0, d', h') \<Longrightarrow> content d' = content d @ chunk x"
    and put_fail: "inv d \<Longrightarrow> ok x \<Longrightarrow> put d x h = Some (r, d', h') \<Longrightarrow> r \<noteq> 0 \<Longrightarrow>
        r = -1 \<and> content d' = content d"
begin

text \<open>A client that stops at the first error, as the loops over \<^verbatim>\<open>cr_add_point\<close> do.\<close>

fun put_until :: "'d \<Rightarrow> 'x list \<Rightarrow> 'h \<Rightarrow> (int \<times> 'd \<times> 'h) option" where
  "put_until d [] h = Some (0, d, h)"
| "put_until d (x # xs) h =
     do { (r, d', h') \<leftarrow> put d x h; if r \<noteq> 0 then Some (-1, d', h') else put_until d' xs h' }"

lemma put_until_spec:
  "inv d \<Longrightarrow> \<forall>x\<in>set xs. ok x \<Longrightarrow> put_until d xs h = Some (r, d', h') \<Longrightarrow>
     inv d' \<and> (r = 0 \<and> content d' = content d @ concat (map chunk xs) \<or> r = -1)"
proof (induction xs arbitrary: d h)
  case Nil
  then show ?case by simp
next
  case (Cons x xs)
  then obtain r1 d1 h1 where p: "put d x h = Some (r1, d1, h1)"
    and q: "(if r1 \<noteq> 0 then Some (-1, d1, h1) else put_until d1 xs h1) = Some (r, d', h')"
    by (auto simp: bind_eq_Some_conv)
  have i: "inv d1" using Cons.prems p put_inv by auto
  show ?case
  proof (cases "r1 = 0")
    case True
    have "content d1 = content d @ chunk x"
      using p True Cons.prems put_ok [of d x h d1 h1] by simp
    then show ?thesis
      using Cons.IH [OF i] Cons.prems q True by auto
  next
    case False
    then show ?thesis using q i by simp
  qed
qed

end

text \<open>With a sticky error flag a client may ignore the return codes and check once at the end,
  as the bytecode emitters of \<^verbatim>\<open>libregexp.c\<close> do.  Such a \<open>put\<close> never faults.\<close>

locale append_buffer = growable +
  fixes failed :: "'a \<Rightarrow> bool"
  assumes put_safe: "inv d \<Longrightarrow> ok x \<Longrightarrow> \<exists>r d' h'. put d x h = Some (r, d', h')"
    and failed_ok: "inv d \<Longrightarrow> ok x \<Longrightarrow> put d x h = Some (0, d', h') \<Longrightarrow> failed d' = failed d"
    and failed_fail: "inv d \<Longrightarrow> ok x \<Longrightarrow> put d x h = Some (r, d', h') \<Longrightarrow> r \<noteq> 0 \<Longrightarrow> failed d'"
begin

fun put_all :: "'a \<Rightarrow> 'c list \<Rightarrow> 'd \<Rightarrow> ('a \<times> 'd) option" where
  "put_all d [] h = Some (d, h)"
| "put_all d (x # xs) h = do { (r, d', h') \<leftarrow> put d x h; put_all d' xs h' }"

lemma put_failed_mono:
  "inv d \<Longrightarrow> ok x \<Longrightarrow> put d x h = Some (r, d', h') \<Longrightarrow> failed d \<Longrightarrow> failed d'"
  by (metis failed_ok failed_fail)

lemma put_all_failed_mono:
  "inv d \<Longrightarrow> \<forall>x\<in>set xs. ok x \<Longrightarrow> put_all d xs h = Some (d', h') \<Longrightarrow> failed d \<Longrightarrow> failed d'"
  by (induction xs arbitrary: d h)
    (auto simp: bind_eq_Some_conv dest: put_failed_mono put_inv)

lemma put_all_safe:
  "inv d \<Longrightarrow> \<forall>x\<in>set xs. ok x \<Longrightarrow> \<exists>d' h'. put_all d xs h = Some (d', h') \<and> inv d'"
proof (induction xs arbitrary: d h)
  case Nil
  then show ?case by simp
next
  case (Cons x xs)
  then obtain r d' h' where p: "put d x h = Some (r, d', h')"
    using put_safe by (metis list.set_intros(1))
  then have "inv d'" using Cons.prems put_inv by auto
  then show ?case using Cons.IH [of d' h'] Cons.prems p by auto
qed

lemma put_all_content:
  "inv d \<Longrightarrow> \<forall>x\<in>set xs. ok x \<Longrightarrow> put_all d xs h = Some (d', h') \<Longrightarrow>
     \<not> failed d' \<Longrightarrow> content d' = content d @ concat (map chunk xs)"
proof (induction xs arbitrary: d h)
  case Nil
  then show ?case by simp
next
  case (Cons x xs)
  then obtain r d1 h1 where p: "put d x h = Some (r, d1, h1)"
    and q: "put_all d1 xs h1 = Some (d', h')"
    by (auto simp: bind_eq_Some_conv)
  have i: "inv d1" using p Cons.prems put_inv by auto
  then have "\<not> failed d1"
    using put_all_failed_mono [OF i _ q] Cons.prems by auto
  then have "r = 0" using failed_fail [OF _ _ p] Cons.prems by auto
  then show ?case
    using Cons.IH [OF i _ q] Cons.prems p put_ok [of d x h d1 h1] by auto
qed

end

section \<open>The buffer implements the append interface\<close>

lemma dbuf_wf_init2:
  "(\<And>f. rf = Some f \<Longrightarrow> allocator f) \<Longrightarrow> allocator dflt \<Longrightarrow> dbuf_wf (dbuf_init2 rf dflt)"
  by (auto simp: dbuf_wf_def dbuf_init2_def split: option.split)

lemma dbuf_realloc_keeps:
  assumes "dbuf_wf s" and "dbuf_realloc s n h = (r, s', h')"
  shows "dbuf_wf s'" and "db_size s' = db_size s" and "db_realloc s' = db_realloc s"
    and "r = 0 \<or> r = -1"
    and "take (db_allocated_size s) (db_buf s') = db_buf s"
    and "r = 0 \<Longrightarrow> n \<le> db_allocated_size s' \<and> db_error s' = db_error s"
    and "r \<noteq> 0 \<Longrightarrow> db_error s'"
  using assms allocator.alloc_bound [of "db_realloc s"]
  by (auto simp: dbuf_realloc_def dbuf_wf_def Let_def take_resize less_imp_le_nat
      split: if_splits prod.splits)

text \<open>The error flag records a refused request: nothing else sets it.\<close>

lemma dbuf_realloc_records:
  "records (db_realloc s) seen \<Longrightarrow> dbuf_realloc s n h = (r, s', h') \<Longrightarrow> db_error s = seen h \<Longrightarrow>
     db_error s' = seen h'"
  by (auto simp: dbuf_realloc_def Let_def records_def split: if_splits prod.splits)

lemma dbuf_put_records:
  "records (db_realloc s) seen \<Longrightarrow> dbuf_put s d h = Some (r, s', h') \<Longrightarrow> db_error s = seen h \<Longrightarrow>
     db_error s' = seen h'"
  by (auto simp: dbuf_put_def dbuf_grow_def bind_eq_Some_conv split: if_splits prod.splits
      dest: dbuf_realloc_records)

lemma db_content_eqI:
  "take k (db_buf s') = take k (db_buf s) \<Longrightarrow> db_size s' = db_size s \<Longrightarrow> db_size s \<le> k \<Longrightarrow>
     db_content s' = db_content s"
  unfolding db_content_def by (metis min.absorb1 take_take)

lemma dbuf_realloc_content:
  "dbuf_wf s \<Longrightarrow> dbuf_realloc s n h = (r, s', h') \<Longrightarrow> db_content s' = db_content s"
  using dbuf_realloc_keeps(2,5) [of s n h r s' h']
  by (intro db_content_eqI [where k = "db_allocated_size s"]) (auto simp: dbuf_wf_def)

lemma dbuf_grow_keeps:
  assumes "dbuf_wf s" and "n \<le> obj_max" and "dbuf_grow s n h = (r, s', h')"
  shows "dbuf_wf s'" and "db_size s' = db_size s" and "db_realloc s' = db_realloc s"
    and "r = 0 \<or> r = -1" and "db_content s' = db_content s"
    and "take (db_allocated_size s) (db_buf s') = db_buf s"
    and "r = 0 \<Longrightarrow> db_size s' + n \<le> db_allocated_size s' \<and> db_error s' = db_error s"
    and "r \<noteq> 0 \<Longrightarrow> db_error s'"
proof -
  have sz: "szadd (db_size s) n = db_size s + n"
    using assms(1,2) by (intro szadd_small) (auto simp: dbuf_wf_def)
  have "dbuf_wf s' \<and> db_size s' = db_size s \<and> db_realloc s' = db_realloc s \<and> (r = 0 \<or> r = -1) \<and>
      db_content s' = db_content s \<and> take (db_allocated_size s) (db_buf s') = db_buf s \<and>
      (r = 0 \<longrightarrow> db_size s' + n \<le> db_allocated_size s' \<and> db_error s' = db_error s) \<and>
      (r \<noteq> 0 \<longrightarrow> db_error s')"
  proof (cases "db_size s + n > db_allocated_size s")
    case True
    then have "dbuf_realloc s (db_size s + n) h = (r, s', h')"
      using assms(3) by (simp add: dbuf_grow_def sz)
    then show ?thesis
      using dbuf_realloc_keeps [OF assms(1)] dbuf_realloc_content [OF assms(1)] by metis
  next
    case False
    then show ?thesis
      using assms by (auto simp: dbuf_grow_def sz dbuf_wf_def)
  qed
  then show "dbuf_wf s'" and "db_size s' = db_size s" and "db_realloc s' = db_realloc s"
    and "r = 0 \<or> r = -1" and "db_content s' = db_content s"
    and "take (db_allocated_size s) (db_buf s') = db_buf s"
    and "r = 0 \<Longrightarrow> db_size s' + n \<le> db_allocated_size s' \<and> db_error s' = db_error s"
    and "r \<noteq> 0 \<Longrightarrow> db_error s'"
    by blast+
qed

lemma dbuf_wf_store:
  assumes "dbuf_wf s" and "db_size s + length d \<le> db_allocated_size s"
    and "wr_block (db_buf s) (db_size s) d = Some b"
  defines "s' \<equiv> s\<lparr>db_buf := b, db_size := szadd (db_size s) (length d)\<rparr>"
  shows "dbuf_wf s'" and "db_content s' = db_content s @ d"
proof -
  have sz: "szadd (db_size s) (length d) = db_size s + length d"
    using assms(1,2) by (intro szadd_small) (auto simp: dbuf_wf_def)
  show "dbuf_wf s'"
    using assms(1,2) wr_block_length [OF assms(3)] by (auto simp: dbuf_wf_def s'_def sz)
  show "db_content s' = db_content s @ d"
    using take_wr_block [OF assms(3)] by (simp add: db_content_def s'_def sz)
qed

lemma dbuf_put_cases:
  assumes "dbuf_wf s" and "length d \<le> obj_max"
  obtains (ok) s' h' where "dbuf_put s d h = Some (0, s', h')" and "dbuf_wf s'"
      and "db_content s' = db_content s @ d" and "db_error s' = db_error s"
      and "db_realloc s' = db_realloc s"
  | (fail) s' h' where "dbuf_put s d h = Some (-1, s', h')" and "dbuf_wf s'"
      and "db_content s' = db_content s" and "db_error s'" and "db_realloc s' = db_realloc s"
proof -
  obtain r s1 h1 where g: "dbuf_grow s (length d) h = (r, s1, h1)"
    by (metis prod_cases3)
  note k = dbuf_grow_keeps [OF assms g]
  show thesis
  proof (cases "r = 0")
    case False
    then show ?thesis
      using k by (intro fail [of s1 h1]) (auto simp: dbuf_put_def g)
  next
    case True
    with k have room: "db_size s1 + length d \<le> db_allocated_size s1" by simp
    then obtain b where b: "wr_block (db_buf s1) (db_size s1) d = Some b"
      using k(1) by (auto simp: wr_block_def dbuf_wf_def)
    show ?thesis
      using k True dbuf_wf_store [OF k(1) room b]
      by (intro ok [of "s1\<lparr>db_buf := b, db_size := szadd (db_size s1) (length d)\<rparr>" h1])
        (auto simp: dbuf_put_def g b [unfolded k(2)])
  qed
qed

interpretation dbuf_append: append_buffer dbuf_wf db_content "\<lambda>d. length d \<le> obj_max" "\<lambda>d. d" dbuf_put db_error
proof
  fix d :: "'h dynbuf" and xs :: "u8 list" and h r d' h'
  assume wf: "dbuf_wf d" "length xs \<le> obj_max"
  show "\<exists>r d' h'. dbuf_put d xs h = Some (r, d', h')"
    by (rule dbuf_put_cases [OF wf, of h]) auto
  show "dbuf_put d xs h = Some (r, d', h') \<Longrightarrow> dbuf_wf d'"
    by (rule dbuf_put_cases [OF wf, of h]) auto
  show "dbuf_put d xs h = Some (0, d', h') \<Longrightarrow> db_content d' = db_content d @ xs"
    by (rule dbuf_put_cases [OF wf, of h]) auto
  show "dbuf_put d xs h = Some (r, d', h') \<Longrightarrow> r \<noteq> 0 \<Longrightarrow> r = -1 \<and> db_content d' = db_content d"
    by (rule dbuf_put_cases [OF wf, of h]) auto
  show "dbuf_put d xs h = Some (0, d', h') \<Longrightarrow> db_error d' = db_error d"
    by (rule dbuf_put_cases [OF wf, of h]) auto
  show "dbuf_put d xs h = Some (r, d', h') \<Longrightarrow> r \<noteq> 0 \<Longrightarrow> db_error d'"
    by (rule dbuf_put_cases [OF wf, of h]) auto
qed

section \<open>The other writers\<close>

lemma slice_content:
  "p + n \<le> db_size s \<Longrightarrow> take n (drop p (db_content s)) = take n (drop p (db_buf s))"
  by (simp add: db_content_def drop_take min_def)

lemma take_content: "p \<le> db_size s \<Longrightarrow> take p (db_content s) = take p (db_buf s)"
  using slice_content [of 0 p s] by simp

lemma drop_content: "drop p (db_content s) = take (db_size s - p) (drop p (db_buf s))"
  by (simp add: db_content_def drop_take)

lemma dbuf_fit_cases:
  assumes "dbuf_wf s" and "n \<le> obj_max" and "dbuf_realloc s (szadd (db_size s) n) h = (r, s', h')"
  shows "dbuf_wf s'" and "db_size s' = db_size s" and "db_realloc s' = db_realloc s"
    and "r = 0 \<or> r = -1" and "db_content s' = db_content s"
    and "r = 0 \<Longrightarrow> db_size s + n \<le> db_allocated_size s' \<and> db_error s' = db_error s"
    and "r \<noteq> 0 \<Longrightarrow> db_error s'"
proof -
  have sz: "szadd (db_size s) n = db_size s + n"
    using assms(1,2) by (intro szadd_small) (auto simp: dbuf_wf_def)
  note k = dbuf_realloc_keeps [OF assms(1) assms(3)] dbuf_realloc_content [OF assms(1) assms(3)]
  show "dbuf_wf s'" and "db_size s' = db_size s" and "db_realloc s' = db_realloc s"
    and "r = 0 \<or> r = -1" and "db_content s' = db_content s"
    and "r \<noteq> 0 \<Longrightarrow> db_error s'"
    using k by auto
  show "r = 0 \<Longrightarrow> db_size s + n \<le> db_allocated_size s' \<and> db_error s' = db_error s"
    using k(6) sz by simp
qed

lemma dbuf_insert_cases:
  assumes "dbuf_wf s" and "n \<le> obj_max" and "pos \<le> db_size s"
  obtains (ok) s' h' gap where "dbuf_insert s pos n h = Some (0, s', h')" and "dbuf_wf s'"
      and "length gap = n"
      and "db_content s' = take pos (db_content s) @ gap @ drop pos (db_content s)"
      and "db_error s' = db_error s" and "db_realloc s' = db_realloc s"
  | (fail) s' h' where "dbuf_insert s pos n h = Some (-1, s', h')" and "dbuf_wf s'"
      and "db_content s' = db_content s" and "db_error s'" and "db_realloc s' = db_realloc s"
proof -
  obtain r s1 h1 where g: "dbuf_realloc s (szadd (db_size s) n) h = (r, s1, h1)"
    by (metis prod_cases3)
  note k = dbuf_fit_cases [OF assms(1,2) g]
  show thesis
  proof (cases "r = 0")
    case False
    then show ?thesis
      using k by (intro fail [of s1 h1]) (auto simp: dbuf_insert_def g)
  next
    case True
    have sz: "szadd (db_size s) n = db_size s + n"
      using assms(1,2) by (intro szadd_small) (auto simp: dbuf_wf_def)
    have len: "db_size s + n \<le> length (db_buf s1)" "db_size s \<le> length (db_buf s1)"
      using k True by (auto simp: dbuf_wf_def)
    define d where "d = take (db_size s - pos) (drop pos (db_buf s1))"
    define b where "b = take (pos + n) (db_buf s1) @ d @ drop (pos + n + length d) (db_buf s1)"
    have ld: "length d = db_size s - pos"
      using len(2) by (simp add: d_def)
    have rdb: "rd_block (db_buf s1) pos (db_size s - pos) = Some d"
      using len assms(3) by (simp add: rd_block_def d_def)
    have wrb: "wr_block (db_buf s1) (pos + n) d = Some b"
      using len assms(3) ld by (simp add: wr_block_def b_def)
    have c: "take pos (db_content s) = take pos (db_buf s1)" "drop pos (db_content s) = d"
      using assms(3) k(2) take_content [of pos s1] drop_content [of pos s1]
      by (simp_all add: d_def flip: k(5))
    let ?s' = "s1\<lparr>db_buf := b, db_size := db_size s + n\<rparr>"
    show ?thesis
    proof (rule ok)
      show "dbuf_insert s pos n h = Some (0, ?s', h1)"
        using True assms(3) by (simp add: dbuf_insert_def g [unfolded sz] k(2) rdb wrb sz)
      show "dbuf_wf ?s'"
        using k True wr_block_length [OF wrb] by (auto simp: dbuf_wf_def)
      show "db_content ?s' = take pos (db_content s) @ take n (drop pos (db_buf s1)) @ drop pos (db_content s)"
        using len assms(3) ld unfolding c by (simp add: db_content_def b_def take_add)
      show "length (take n (drop pos (db_buf s1))) = n"
        using len assms(3) by simp
      show "db_error ?s' = db_error s" "db_realloc ?s' = db_realloc s"
        using k True by auto
    qed
  qed
qed

lemma dbuf_put_self_cases:
  assumes "dbuf_wf s" and "offset + n \<le> db_size s"
  obtains (ok) s' h' where "dbuf_put_self s offset n h = Some (0, s', h')" and "dbuf_wf s'"
      and "db_content s' = db_content s @ take n (drop offset (db_content s))"
      and "db_error s' = db_error s" and "db_realloc s' = db_realloc s"
  | (fail) s' h' where "dbuf_put_self s offset n h = Some (-1, s', h')" and "dbuf_wf s'"
      and "db_content s' = db_content s" and "db_error s'" and "db_realloc s' = db_realloc s"
proof -
  have n: "n \<le> obj_max" using assms by (auto simp: dbuf_wf_def)
  obtain r s1 h1 where g: "dbuf_grow s n h = (r, s1, h1)"
    by (metis prod_cases3)
  note k = dbuf_grow_keeps [OF assms(1) n g]
  show thesis
  proof (cases "r = 0")
    case False
    then show ?thesis
      using k by (intro fail [of s1 h1]) (auto simp: dbuf_put_self_def g)
  next
    case True
    define d where "d = take n (drop offset (db_content s))"
    have ld: "length d = n"
      using assms by (auto simp: d_def db_content_def dbuf_wf_def)
    have rdb: "rd_block (db_buf s1) offset n = Some d"
      using k(1,2) assms(2) slice_content [of offset n s1]
      by (simp add: rd_block_def d_def dbuf_wf_def flip: k(5))
    have room: "db_size s1 + length d \<le> db_allocated_size s1"
      using k(7) True ld by simp
    then obtain b where b: "wr_block (db_buf s1) (db_size s1) d = Some b"
      using k(1) by (auto simp: wr_block_def dbuf_wf_def)
    note st = dbuf_wf_store [OF k(1) room b]
    show ?thesis
    proof (rule ok)
      show "dbuf_put_self s offset n h =
          Some (0, s1\<lparr>db_buf := b, db_size := szadd (db_size s1) (length d)\<rparr>, h1)"
        using True assms(2) k(2) by (simp add: dbuf_put_self_def g rdb b [unfolded k(2)] ld)
    qed (use st k True in \<open>auto simp: d_def\<close>)
  qed
qed

lemma dbuf_printf_cases:
  assumes "dbuf_wf s" and "length out < obj_max"
  obtains (ok) s' h' where "dbuf_printf s out h = Some (0, s', h')" and "dbuf_wf s'"
      and "db_content s' = db_content s @ out" and "db_error s' = db_error s"
  | (fail) s' h' where "dbuf_printf s out h = Some (-1, s', h')" and "dbuf_wf s'"
      and "db_content s' = db_content s" and "db_error s'"
proof (cases "length out < 128")
  case True
  then show thesis
    using dbuf_put_cases [OF assms(1), of out h] assms(2) ok fail
    by (simp add: dbuf_printf_def) metis
next
  case False
  have o: "Suc (length out) \<le> obj_max" using assms(2) by simp
  have sz: "szadd (szadd (db_size s) (length out)) 1 = szadd (db_size s) (Suc (length out))"
    by (simp add: szadd_def mod_Suc_eq)
  obtain r s1 h1 where g: "dbuf_realloc s (szadd (db_size s) (Suc (length out))) h = (r, s1, h1)"
    by (metis prod_cases3)
  note k = dbuf_fit_cases [OF assms(1) o g]
  show thesis
  proof (cases "r = 0")
    case False
    with \<open>\<not> length out < 128\<close> show ?thesis
      using k by (intro fail [of s1 h1]) (auto simp: dbuf_printf_def g sz [simplified])
  next
    case True
    have sz': "szadd (db_size s) (length out) = db_size s + length out"
      using assms by (intro szadd_small) (auto simp: dbuf_wf_def)
    have room: "db_size s + Suc (length out) \<le> length (db_buf s1)"
      using k True by (auto simp: dbuf_wf_def)
    have n: "db_allocated_size s1 - db_size s = Suc (length (db_buf s1) - db_size s - 1)"
      and al: "db_allocated_size s1 = length (db_buf s1)"
      using k(1) room by (auto simp: dbuf_wf_def)
    let ?d = "out @ [0 :: u8]"
    have tk: "take (length (db_buf s1) - db_size s - 1) out = out"
      using room by simp
    obtain b where b: "wr_block (db_buf s1) (db_size s) ?d = Some b"
      using room by (auto simp: wr_block_def)
    have v: "c_vsnprintf (db_buf s1) (db_size s) (db_allocated_size s1 - db_size s) out = Some b"
      unfolding c_vsnprintf_def n using b tk by simp
    let ?s' = "s1\<lparr>db_buf := b, db_size := db_size s + length out\<rparr>"
    have "take (db_size s + length out) b = take (db_size s) (db_buf s1) @ out"
      using b by (auto simp: wr_block_def split: if_splits)
    then have "db_content ?s' = db_content s @ out"
      using k(2,5) by (auto simp: db_content_def)
    moreover have "dbuf_wf ?s'"
      using k room wr_block_length [OF b] True by (auto simp: dbuf_wf_def)
    moreover have "dbuf_printf s out h = Some (0, ?s', h1)"
      using True \<open>\<not> length out < 128\<close> v
      unfolding dbuf_printf_def Let_def sz g by (simp add: k(2) sz')
    ultimately show ?thesis
      using ok [of ?s' h1] k True by auto
  qed
qed

end
