(* ===== verification/JSMalloc.thy ===== *)
theory JSMalloc
  imports DynBuf
begin

text \<open>
  The default allocator of the runtime (\<^verbatim>\<open>js_def_malloc\<close>, \<^verbatim>\<open>js_def_free\<close>, \<^verbatim>\<open>js_def_realloc\<close>
  of \<^verbatim>\<open>quickjs.c\<close>), which counts blocks and bytes and enforces a limit, over the C library's
  allocator.  The C heap maps live addresses to usable sizes.  Whether a request succeeds, at
  which address and with how much slack is decided by \<open>hp_grant\<close>, an arbitrary function of
  the number of the request, the old pointer and the size; the C standard's promises are
  checked on its answer, and an answer that breaks them counts as a refusal: the address is
  not \<^verbatim>\<open>NULL\<close> and not that of a live block (for \<^verbatim>\<open>realloc\<close> it may be the old block's own
  address), the block has at least the requested size, and the live blocks with their
  overhead fit in \<^verbatim>\<open>PTRDIFF_MAX\<close> bytes (\<open>hp_total\<close>).  So addresses may be used again after
  \<^verbatim>\<open>free\<close>, and \<^verbatim>\<open>realloc\<close> may resize in place or move.  Alignment and the contents of blocks
  are not part of this model.
\<close>

definition malloc_overhead :: nat where
  "malloc_overhead = 8"

record c_heap =
  hp_blocks :: "nat \<rightharpoonup> nat"
  hp_total :: nat
  hp_calls :: nat
  hp_grant :: "nat \<Rightarrow> nat \<Rightarrow> nat \<Rightarrow> (nat \<times> nat) option"

section \<open>The C library\<close>

definition c_usable :: "c_heap \<Rightarrow> nat \<Rightarrow> nat" where
  "c_usable h p = (case hp_blocks h p of None \<Rightarrow> 0 | Some u \<Rightarrow> u)"

text \<open>Place a block of at least \<open>n\<close> bytes at an address that is not live in \<open>h\<close>.\<close>

definition c_place :: "c_heap \<Rightarrow> nat \<Rightarrow> nat \<Rightarrow> nat \<times> c_heap" where
  "c_place h p n =
     (let h1 = h\<lparr>hp_calls := Suc (hp_calls h)\<rparr>
      in case hp_grant h (hp_calls h) p n of
           None \<Rightarrow> (0, h1)
         | Some (q, u) \<Rightarrow>
             if q \<noteq> 0 \<and> hp_blocks h q = None \<and> n \<le> u \<and> hp_total h + u + malloc_overhead \<le> obj_max
             then (q, h1\<lparr>hp_blocks := (hp_blocks h)(q \<mapsto> u),
                         hp_total := hp_total h + u + malloc_overhead\<rparr>)
             else (0, h1))"

definition c_malloc :: "c_heap \<Rightarrow> nat \<Rightarrow> nat \<times> c_heap" where
  "c_malloc h n = c_place h 0 n"

definition c_free :: "c_heap \<Rightarrow> nat \<Rightarrow> c_heap" where
  "c_free h p =
     (case hp_blocks h p of
        None \<Rightarrow> h
      | Some u \<Rightarrow> h\<lparr>hp_blocks := (hp_blocks h)(p := None), hp_total := hp_total h - (u + malloc_overhead)\<rparr>)"

text \<open>A refused \<^verbatim>\<open>realloc\<close> leaves the old block alone, except that \<^verbatim>\<open>realloc(p, 0)\<close> frees it.\<close>

definition c_realloc :: "c_heap \<Rightarrow> nat \<Rightarrow> nat \<Rightarrow> nat \<times> c_heap" where
  "c_realloc h p n =
     (let (q, h1) = c_place (c_free h p) p n
      in if q = 0 \<and> n \<noteq> 0 then (0, h\<lparr>hp_calls := Suc (hp_calls h)\<rparr>) else (q, h1))"

section \<open>The runtime's allocator\<close>

record js_malloc_state =
  malloc_count :: nat
  malloc_size :: nat
  malloc_limit :: nat
  malloc_heap :: c_heap

definition szsub :: "nat \<Rightarrow> nat \<Rightarrow> nat" where
  "szsub a b = (a + (2 ^ 64 - b mod 2 ^ 64)) mod 2 ^ 64"

definition js_def_malloc :: "js_malloc_state \<Rightarrow> nat \<Rightarrow> (nat \<times> js_malloc_state) option" where
  "js_def_malloc s n =
     do { c_assert (n \<noteq> 0);
          if szadd (malloc_size s) n > malloc_limit s then Some (0, s)
          else
            let (ptr, h) = c_malloc (malloc_heap s) n;
                s = s\<lparr>malloc_heap := h\<rparr>
            in if ptr = 0 then Some (0, s)
               else Some (ptr, s\<lparr>malloc_count := szadd (malloc_count s) 1,
                                malloc_size := szadd (malloc_size s) (c_usable h ptr + malloc_overhead)\<rparr>) }"

definition js_def_free :: "js_malloc_state \<Rightarrow> nat \<Rightarrow> js_malloc_state" where
  "js_def_free s ptr =
     (if ptr = 0 then s
      else s\<lparr>malloc_count := szsub (malloc_count s) 1,
             malloc_size := szsub (malloc_size s) (c_usable (malloc_heap s) ptr + malloc_overhead),
             malloc_heap := c_free (malloc_heap s) ptr\<rparr>)"

definition js_def_realloc :: "js_malloc_state \<Rightarrow> nat \<Rightarrow> nat \<Rightarrow> (nat \<times> js_malloc_state) option" where
  "js_def_realloc s ptr n =
     (if ptr = 0 then (if n = 0 then Some (0, s) else js_def_malloc s n)
      else
        let old_size = c_usable (malloc_heap s) ptr
        in if n = 0 then
             Some (0, s\<lparr>malloc_count := szsub (malloc_count s) 1,
                        malloc_size := szsub (malloc_size s) (old_size + malloc_overhead),
                        malloc_heap := c_free (malloc_heap s) ptr\<rparr>)
           else if szsub (szadd (malloc_size s) n) old_size > malloc_limit s then Some (0, s)
           else
             let (q, h) = c_realloc (malloc_heap s) ptr n;
                 s = s\<lparr>malloc_heap := h\<rparr>
             in if q = 0 then Some (0, s)
                else Some (q, s\<lparr>malloc_size := szadd (malloc_size s) (szsub (c_usable h q) old_size)\<rparr>))"

text \<open>\<^verbatim>\<open>lre_realloc\<close> and \<^verbatim>\<open>js_realloc_rt\<close> are \<^verbatim>\<open>js_def_realloc\<close> on the runtime's state; it never
  calls \<^verbatim>\<open>js_def_malloc\<close> with size 0, so its assertion holds.\<close>

definition js_realloc_rt :: "js_malloc_state realloc_func" where
  "js_realloc_rt s ptr n = (case js_def_realloc s ptr n of None \<Rightarrow> (0, s) | Some r \<Rightarrow> r)"

definition lre_realloc :: "js_malloc_state realloc_func" where
  "lre_realloc s ptr n = js_realloc_rt s ptr n"

lemma js_def_realloc_total: "\<exists>r. js_def_realloc s ptr n = Some r"
  by (auto simp: js_def_realloc_def js_def_malloc_def Let_def split: prod.split)

section \<open>The heap and the counters agree\<close>

definition heap_wf :: "c_heap \<Rightarrow> bool" where
  "heap_wf h \<longleftrightarrow>
     finite (dom (hp_blocks h)) \<and> hp_blocks h 0 = None \<and>
     hp_total h = (\<Sum>p \<in> dom (hp_blocks h). the (hp_blocks h p) + malloc_overhead) \<and>
     hp_total h \<le> obj_max"

definition js_malloc_wf :: "js_malloc_state \<Rightarrow> bool" where
  "js_malloc_wf s \<longleftrightarrow>
     heap_wf (malloc_heap s) \<and> malloc_count s = card (dom (hp_blocks (malloc_heap s))) \<and>
     malloc_size s = hp_total (malloc_heap s)"

lemma heap_wf_total_ge:
  assumes "heap_wf h" and "hp_blocks h p = Some u"
  shows "u + malloc_overhead \<le> hp_total h"
proof -
  have "p \<in> dom (hp_blocks h)" using assms(2) by auto
  then have "the (hp_blocks h p) + malloc_overhead
      \<le> (\<Sum>p \<in> dom (hp_blocks h). the (hp_blocks h p) + malloc_overhead)"
    using assms(1) by (intro member_le_sum) (auto simp: heap_wf_def)
  then show ?thesis using assms by (simp add: heap_wf_def)
qed

lemma heap_wf_card: "heap_wf h \<Longrightarrow> card (dom (hp_blocks h)) * malloc_overhead \<le> obj_max"
  using sum_mono [of "dom (hp_blocks h)" "\<lambda>_. malloc_overhead"
      "\<lambda>p. the (hp_blocks h p) + malloc_overhead"]
  by (auto simp: heap_wf_def)

lemma c_free_wf:
  assumes "heap_wf h" and "hp_blocks h p = Some u"
  shows "heap_wf (c_free h p)"
    and "hp_total (c_free h p) = hp_total h - (u + malloc_overhead)"
    and "dom (hp_blocks (c_free h p)) = dom (hp_blocks h) - {p}"
proof -
  let ?g = "\<lambda>b p. the (b p) + malloc_overhead"
  have p: "p \<in> dom (hp_blocks h)" using assms(2) by auto
  have "(\<Sum>q \<in> dom (hp_blocks h) - {p}. ?g ((hp_blocks h)(p := None)) q)
      = (\<Sum>q \<in> dom (hp_blocks h) - {p}. ?g (hp_blocks h) q)"
    by (rule sum.cong) auto
  also have "\<dots> = (\<Sum>q \<in> dom (hp_blocks h). ?g (hp_blocks h) q) - (u + malloc_overhead)"
    using sum_diff1_nat [of "?g (hp_blocks h)" "dom (hp_blocks h)" p] p assms by (simp add: heap_wf_def)
  finally show "heap_wf (c_free h p)"
    using assms by (auto simp: heap_wf_def c_free_def)
qed (use assms in \<open>auto simp: c_free_def\<close>)

lemma c_place_wf:
  assumes "heap_wf h" and "c_place h p n = (q, h')" and "q \<noteq> 0"
  shows "heap_wf h'" and "n \<le> c_usable h' q"
    and "hp_total h' = hp_total h + (c_usable h' q + malloc_overhead)"
    and "hp_blocks h' = (hp_blocks h)(q \<mapsto> c_usable h' q)" and "hp_blocks h q = None"
proof -
  obtain u where u: "hp_blocks h q = None" "n \<le> u" "hp_total h + u + malloc_overhead \<le> obj_max"
    and h': "h' = h\<lparr>hp_calls := Suc (hp_calls h), hp_blocks := (hp_blocks h)(q \<mapsto> u),
                    hp_total := hp_total h + u + malloc_overhead\<rparr>"
    using assms(2,3) by (auto simp: c_place_def Let_def split: option.splits if_splits)
  have fresh: "q \<notin> dom (hp_blocks h)"
    using u(1) by auto
  have "(\<Sum>p \<in> dom (hp_blocks h). the (((hp_blocks h)(q \<mapsto> u)) p) + malloc_overhead)
      = (\<Sum>p \<in> dom (hp_blocks h). the (hp_blocks h p) + malloc_overhead)"
    using fresh by (intro sum.cong) auto
  then show "heap_wf h'"
    using assms(1,3) fresh u(3) by (auto simp: heap_wf_def h')
  show "n \<le> c_usable h' q"
    "hp_total h' = hp_total h + (c_usable h' q + malloc_overhead)"
    "hp_blocks h' = (hp_blocks h)(q \<mapsto> c_usable h' q)" "hp_blocks h q = None"
    using u by (auto simp: h' c_usable_def)
qed

lemma c_place_null_wf: "heap_wf h \<Longrightarrow> c_place h p n = (0, h') \<Longrightarrow>
    heap_wf h' \<and> hp_blocks h' = hp_blocks h \<and> hp_total h' = hp_total h"
  by (auto simp: c_place_def Let_def heap_wf_def split: option.splits if_splits)

lemmas c_malloc_wf = c_place_wf [where p = 0, folded c_malloc_def]
lemmas c_malloc_null_wf = c_place_null_wf [where p = 0, folded c_malloc_def]

lemma c_realloc_null: "heap_wf h \<Longrightarrow> n \<noteq> 0 \<Longrightarrow> c_realloc h p n = (0, h') \<Longrightarrow>
    heap_wf h' \<and> hp_blocks h' = hp_blocks h \<and> hp_total h' = hp_total h"
  by (auto simp: c_realloc_def heap_wf_def split: prod.splits if_splits)

lemma c_realloc_wf:
  assumes "heap_wf h" and "c_realloc h p n = (q, h')" and "q \<noteq> 0" and "hp_blocks h p = Some u"
  shows "heap_wf h'" and "hp_blocks h q = None \<or> q = p" and "n \<le> c_usable h' q"
    and "hp_total h' + u = hp_total h + c_usable h' q"
    and "hp_blocks h' = (hp_blocks h)(p := None, q \<mapsto> c_usable h' q)"
proof -
  have m: "c_place (c_free h p) p n = (q, h')"
    using assms(2,3) by (auto simp: c_realloc_def split: prod.splits if_splits)
  note f = c_free_wf [OF assms(1,4)]
  note c = c_place_wf [OF f(1) m assms(3)]
  have b: "hp_blocks (c_free h p) = (hp_blocks h)(p := None)"
    using assms(4) by (simp add: c_free_def)
  show "heap_wf h'" "n \<le> c_usable h' q" by (rule c)+
  show "hp_blocks h q = None \<or> q = p" using c(5) by (auto simp: b split: if_splits)
  show "hp_total h' + u = hp_total h + c_usable h' q"
    using f(2) c(3) heap_wf_total_ge [OF assms(1,4)] by simp
  show "hp_blocks h' = (hp_blocks h)(p := None, q \<mapsto> c_usable h' q)"
    using c(4) by (simp add: b)
qed

lemma obj_max_lt: "a \<le> obj_max \<Longrightarrow> a < 2 ^ 64"
  by (simp add: obj_max_def)

lemma szsub_le: "b \<le> a \<Longrightarrow> a \<le> obj_max \<Longrightarrow> szsub a b = a - b"
proof -
  assume ab: "b \<le> a" and a: "a \<le> obj_max"
  then have "b mod 2 ^ 64 = b" using obj_max_lt [of a] by simp
  then have "a + (2 ^ 64 - b mod 2 ^ 64) = (a - b) + 2 ^ 64"
    using ab obj_max_lt [OF a] by simp
  then show ?thesis
    using obj_max_lt [of "a - b"] a by (simp add: szsub_def)
qed

lemma szadd_szsub: "a \<le> obj_max \<Longrightarrow> b \<le> a \<Longrightarrow> a + c - b \<le> obj_max \<Longrightarrow> szadd a (szsub c b) = a + c - b"
proof -
  assume a: "a \<le> obj_max" and b: "b \<le> a" and r: "a + c - b \<le> obj_max"
  have bm: "b mod 2 ^ 64 = b" using obj_max_lt [of b] a b by simp
  have eq: "a + (c + (2 ^ 64 - b)) = (a + c - b) + 2 ^ 64"
    using b obj_max_lt [OF a] by simp
  show ?thesis
    unfolding szadd_def szsub_def bm mod_add_right_eq eq
    using obj_max_lt [OF r] by simp
qed

lemma js_def_malloc_wf:
  assumes "js_malloc_wf s" and "js_def_malloc s n = Some (q, s')"
  shows "js_malloc_wf s'" and "malloc_limit s' = malloc_limit s"
    and "q \<noteq> 0 \<Longrightarrow> szadd (malloc_size s) n \<le> malloc_limit s \<and> hp_blocks (malloc_heap s) q = None \<and>
      (\<exists>u\<ge>n. hp_blocks (malloc_heap s') = (hp_blocks (malloc_heap s))(q \<mapsto> u))"
proof -
  have fin: "finite (dom (hp_blocks (malloc_heap s)))" and hw: "heap_wf (malloc_heap s)"
    using assms(1) by (auto simp: js_malloc_wf_def heap_wf_def)
  have "js_malloc_wf s' \<and> malloc_limit s' = malloc_limit s \<and>
    (q \<noteq> 0 \<longrightarrow> szadd (malloc_size s) n \<le> malloc_limit s \<and> hp_blocks (malloc_heap s) q = None \<and>
      (\<exists>u\<ge>n. hp_blocks (malloc_heap s') = (hp_blocks (malloc_heap s))(q \<mapsto> u)))"
  proof (cases "q = 0")
    case True
    then show ?thesis
      using assms c_malloc_null_wf [OF hw]
      by (auto simp: js_def_malloc_def js_malloc_wf_def Let_def c_assert_def split: if_splits prod.splits)
  next
    case False
    then obtain h where m: "c_malloc (malloc_heap s) n = (q, h)"
      and lim: "szadd (malloc_size s) n \<le> malloc_limit s"
      and s': "s' = s\<lparr>malloc_heap := h, malloc_count := szadd (malloc_count s) 1,
                      malloc_size := szadd (malloc_size s) (c_usable h q + malloc_overhead)\<rparr>"
      using assms(2) by (auto simp: js_def_malloc_def Let_def c_assert_def split: if_splits prod.splits)
    note c = c_malloc_wf [OF hw m False]
    have "hp_total h \<le> obj_max" using c(1) by (simp add: heap_wf_def)
    then have sz: "szadd (malloc_size s) (c_usable h q + malloc_overhead) = hp_total h"
      using assms(1) c(3) obj_max_lt [of "hp_total h"] by (simp add: js_malloc_wf_def szadd_def)
    have "card (dom (hp_blocks (malloc_heap s))) + 1 \<le> obj_max"
      using heap_wf_card [OF c(1)] c(4,5) fin by (simp add: malloc_overhead_def domIff)
    then have cnt: "szadd (malloc_count s) 1 = card (dom (hp_blocks h))"
      using assms(1) c(4,5) fin obj_max_lt [of "card (dom (hp_blocks (malloc_heap s))) + 1"]
      by (simp add: js_malloc_wf_def szadd_def domIff)
    show ?thesis
      using False c(1,2,4,5) lim sz cnt by (auto simp: s' js_malloc_wf_def)
  qed
  then show "js_malloc_wf s'" and "malloc_limit s' = malloc_limit s"
    and "q \<noteq> 0 \<Longrightarrow> szadd (malloc_size s) n \<le> malloc_limit s \<and> hp_blocks (malloc_heap s) q = None \<and>
      (\<exists>u\<ge>n. hp_blocks (malloc_heap s') = (hp_blocks (malloc_heap s))(q \<mapsto> u))"
    by blast+
qed

lemma js_def_free_wf:
  assumes "js_malloc_wf s" and "hp_blocks (malloc_heap s) p = Some u" and "p \<noteq> 0"
  shows "js_malloc_wf (js_def_free s p)"
    and "dom (hp_blocks (malloc_heap (js_def_free s p))) = dom (hp_blocks (malloc_heap s)) - {p}"
proof -
  have hw: "heap_wf (malloc_heap s)" and sz: "malloc_size s = hp_total (malloc_heap s)"
    and cnt: "malloc_count s = card (dom (hp_blocks (malloc_heap s)))"
    using assms(1) by (auto simp: js_malloc_wf_def)
  note f = c_free_wf [OF hw assms(2)]
  have us: "c_usable (malloc_heap s) p = u" using assms(2) by (simp add: c_usable_def)
  have fin: "finite (dom (hp_blocks (malloc_heap s)))" and tot: "hp_total (malloc_heap s) \<le> obj_max"
    using hw by (auto simp: heap_wf_def)
  have "1 \<le> card (dom (hp_blocks (malloc_heap s)))"
    using assms(2) fin by (metis card_0_eq domI empty_iff less_one not_le)
  moreover have "card (dom (hp_blocks (malloc_heap s))) \<le> obj_max"
    using heap_wf_card [OF hw] by (simp add: malloc_overhead_def)
  ultimately have "szsub (malloc_count s) 1 = card (dom (hp_blocks (malloc_heap s)) - {p})"
    using szsub_le [of 1 "malloc_count s"] cnt assms(2) fin by (simp add: domIff)
  moreover have "szsub (malloc_size s) (u + malloc_overhead) = hp_total (malloc_heap s) - (u + malloc_overhead)"
    using szsub_le heap_wf_total_ge [OF hw assms(2)] tot sz by simp
  ultimately show "js_malloc_wf (js_def_free s p)"
    using f assms(3) by (simp add: js_malloc_wf_def js_def_free_def us)
  show "dom (hp_blocks (malloc_heap (js_def_free s p))) = dom (hp_blocks (malloc_heap s)) - {p}"
    using f assms(3) by (simp add: js_def_free_def)
qed

lemma js_def_malloc_bound: "js_def_malloc s n = Some (q, s') \<Longrightarrow> q \<noteq> 0 \<Longrightarrow> n \<le> obj_max"
  by (auto simp: js_def_malloc_def c_malloc_def c_place_def Let_def c_assert_def
      split: if_splits prod.splits option.splits)

lemma c_realloc_bound: "c_realloc h p n = (q, h') \<Longrightarrow> q \<noteq> 0 \<Longrightarrow> n \<le> obj_max"
  by (auto simp: c_realloc_def c_place_def Let_def split: if_splits prod.splits option.splits)

lemma js_def_realloc_bound: "js_def_realloc s p n = Some (q, s') \<Longrightarrow> q \<noteq> 0 \<Longrightarrow> n \<le> obj_max"
  by (auto simp: js_def_realloc_def Let_def dest: js_def_malloc_bound c_realloc_bound
      split: if_splits prod.splits)

interpretation lre_alloc: allocator lre_realloc
  by unfold_locales
    (auto simp: lre_realloc_def js_realloc_rt_def dest: js_def_realloc_bound split: option.splits)

interpretation libc_alloc: allocator c_realloc
  by unfold_locales (rule c_realloc_bound)

text \<open>The contract of one call of \<^verbatim>\<open>js_def_realloc\<close> on a pointer the caller owns.\<close>

definition realloc_outcome :: "js_malloc_state \<Rightarrow> nat \<Rightarrow> nat \<Rightarrow> nat \<Rightarrow> js_malloc_state \<Rightarrow> bool" where
  "realloc_outcome s p n q s' \<longleftrightarrow>
     js_malloc_wf s' \<and> malloc_limit s' = malloc_limit s \<and>
     (if n = 0 then q = 0 \<and> hp_blocks (malloc_heap s') = (hp_blocks (malloc_heap s))(p := None)
      else if q = 0 then
        hp_blocks (malloc_heap s') = hp_blocks (malloc_heap s) \<and>
        (malloc_limit s < malloc_size s + n - c_usable (malloc_heap s) p \<or>
         fst (c_realloc (malloc_heap s) p n) = 0)
      else malloc_size s + n - c_usable (malloc_heap s) p \<le> malloc_limit s \<and>
        (hp_blocks (malloc_heap s) q = None \<or> q = p) \<and>
        (\<exists>u\<ge>n. hp_blocks (malloc_heap s') = (hp_blocks (malloc_heap s))(p := None, q \<mapsto> u)))"

lemma js_def_malloc_outcome:
  assumes "js_malloc_wf s" and "js_def_malloc s n = Some (q, s')"
  shows "realloc_outcome s 0 n q s'"
proof -
  have "heap_wf (malloc_heap s)" using assms(1) by (simp add: js_malloc_wf_def)
  then have z: "hp_blocks (malloc_heap s) 0 = None" by (simp add: heap_wf_def)
  then have zz: "(hp_blocks (malloc_heap s))(0 := None) = hp_blocks (malloc_heap s)" by auto
  have n: "n \<noteq> 0" using assms(2) by (auto simp: js_def_malloc_def c_assert_def split: if_splits)
  have sz: "malloc_size s \<le> obj_max" using assms(1) by (auto simp: js_malloc_wf_def heap_wf_def)
  show ?thesis
  proof (cases "q = 0")
    case True
    have "hp_blocks (malloc_heap s') = hp_blocks (malloc_heap s)"
      using True assms c_malloc_null_wf [of "malloc_heap s" n]
      by (auto simp: js_def_malloc_def js_malloc_wf_def Let_def c_assert_def
          split: if_splits prod.splits)
    moreover have "malloc_limit s < malloc_size s + n \<or> fst (c_realloc (malloc_heap s) 0 n) = 0"
    proof (cases "n \<le> obj_max")
      case le: True
      have "c_realloc (malloc_heap s) 0 n = (r, h) \<Longrightarrow> fst (c_malloc (malloc_heap s) n) = r" for r h
        using n by (auto simp: c_realloc_def c_free_def z c_malloc_def split: prod.splits if_splits)
      then have "fst (c_malloc (malloc_heap s) n) = fst (c_realloc (malloc_heap s) 0 n)"
        by (metis prod.exhaust_sel)
      then show ?thesis
        using True assms(2) n szadd_small [OF sz le]
        by (auto simp: js_def_malloc_def Let_def split: if_splits prod.splits)
    next
      case False
      then show ?thesis using c_realloc_bound by (metis prod.exhaust_sel)
    qed
    ultimately show ?thesis
      using True n js_def_malloc_wf [OF assms] by (simp add: realloc_outcome_def c_usable_def z)
  next
    case False
    have "szadd (malloc_size s) n = malloc_size s + n"
      using sz js_def_malloc_bound [OF assms(2) False] by (rule szadd_small)
    then show ?thesis
      using False n js_def_malloc_wf [OF assms] zz by (auto simp: realloc_outcome_def c_usable_def z)
  qed
qed

lemma js_def_realloc_live_outcome:
  assumes "js_malloc_wf s" and "p \<noteq> 0" and b: "hp_blocks (malloc_heap s) p = Some u" and n: "n \<noteq> 0"
    and r: "js_def_realloc s p n = Some (q, s')"
  shows "realloc_outcome s p n q s'"
proof -
  have hw: "heap_wf (malloc_heap s)" and sz: "malloc_size s = hp_total (malloc_heap s)"
    and cnt: "malloc_count s = card (dom (hp_blocks (malloc_heap s)))"
    and fin: "finite (dom (hp_blocks (malloc_heap s)))"
    and tot: "hp_total (malloc_heap s) \<le> obj_max"
    using assms(1) by (auto simp: js_malloc_wf_def heap_wf_def)
  have us: "c_usable (malloc_heap s) p = u" using b by (simp add: c_usable_def)
  have ule: "u \<le> hp_total (malloc_heap s)" using heap_wf_total_ge [OF hw b] by simp
  have check: "szsub (szadd (malloc_size s) n) u = malloc_size s + n - u"
    if "n \<le> obj_max" "malloc_size s + n - u \<le> 2 ^ 64 - 1"
  proof -
    have add: "szadd (malloc_size s) n = malloc_size s + n"
      using that(1) tot sz by (simp add: szadd_small)
    have "u mod 2 ^ 64 = u" using obj_max_lt [of u] ule tot by simp
    then have "malloc_size s + n + (2 ^ 64 - u mod 2 ^ 64) = malloc_size s + n - u + 2 ^ 64"
      using ule sz obj_max_lt [of u] tot by simp
    then show ?thesis
      using that(2) by (simp add: add szsub_def)
  qed
  have small: "malloc_size s + n - u \<le> 2 ^ 64 - 1" if "n \<le> obj_max"
    using that tot sz by (simp add: obj_max_def)
  show ?thesis
  proof (cases "q = 0")
    case True
    have "malloc_limit s < malloc_size s + n - u \<or> fst (c_realloc (malloc_heap s) p n) = 0"
    proof (cases "n \<le> obj_max")
      case le: True
      show ?thesis
        using r True assms(2) n check [OF le small [OF le]]
        by (auto simp: js_def_realloc_def Let_def us split: if_splits prod.splits)
    next
      case False
      then show ?thesis using c_realloc_bound by (metis prod.exhaust_sel)
    qed
    then show ?thesis
      using True assms hw c_realloc_null [of "malloc_heap s" n p]
      by (auto simp: js_def_realloc_def js_malloc_wf_def realloc_outcome_def Let_def us
          split: if_splits prod.splits)
  next
    case False
    obtain h where m: "c_realloc (malloc_heap s) p n = (q, h)"
      and lim: "\<not> szsub (szadd (malloc_size s) n) u > malloc_limit s"
      and s': "s' = s\<lparr>malloc_heap := h, malloc_size := szadd (malloc_size s) (szsub (c_usable h q) u)\<rparr>"
      using r False assms(2) n by (auto simp: js_def_realloc_def Let_def us split: if_splits prod.splits)
    note c = c_realloc_wf [OF hw m False b]
    have toth: "hp_total h = hp_total (malloc_heap s) + c_usable h q - u" using c(4) by linarith
    have toth_le: "hp_total h \<le> obj_max" using c(1) by (simp add: heap_wf_def)
    have size': "szadd (malloc_size s) (szsub (c_usable h q) u) = hp_total h"
      using szadd_szsub [of "malloc_size s" u "c_usable h q"] sz tot ule toth toth_le
      by simp
    have nb: "n \<le> obj_max" using js_def_realloc_bound [OF r False] .
    have lim': "malloc_size s + n - u \<le> malloc_limit s"
      using lim check [OF nb small [OF nb]] by simp
    have "dom (hp_blocks h) = insert q (dom (hp_blocks (malloc_heap s)) - {p})"
      using c(5) by auto
    moreover have "q \<notin> dom (hp_blocks (malloc_heap s)) - {p}" using c(2) by auto
    ultimately have "card (dom (hp_blocks h)) = card (dom (hp_blocks (malloc_heap s)))"
      using b fin card_Suc_Diff1 [OF fin, of p] by (simp add: domIff)
    then have "js_malloc_wf s'"
      using c(1) size' cnt by (simp add: js_malloc_wf_def s')
    then show ?thesis
      using False n c(2,3,5) lim' by (auto simp: realloc_outcome_def s' us)
  qed
qed

text \<open>
  \<^verbatim>\<open>js_def_realloc\<close> never loses or double counts a block: on a pointer that is \<^verbatim>\<open>NULL\<close> or
  live it returns, the block and byte counters still describe exactly the live blocks, a
  pointer is handed out only when the bytes in use less the old block plus the request are
  within the limit (the block's slack and overhead are not part of that check), a failed
  request leaves every block as it was, and a successful one resizes exactly the caller's
  block, in place or at an address that was not live.
\<close>

lemma js_def_realloc_outcome:
  assumes "js_malloc_wf s" and "p = 0 \<or> p \<in> dom (hp_blocks (malloc_heap s))"
  shows "\<exists>q s'. js_def_realloc s p n = Some (q, s') \<and> realloc_outcome s p n q s'"
proof -
  obtain q s' where r: "js_def_realloc s p n = Some (q, s')"
    using js_def_realloc_total by (metis prod.exhaust)
  have z: "hp_blocks (malloc_heap s) 0 = None"
    using assms(1) by (auto simp: js_malloc_wf_def heap_wf_def)
  have "realloc_outcome s p n q s'"
  proof (cases "p = 0")
    case True
    show ?thesis
    proof (cases "n = 0")
      case n: True
      then show ?thesis using r True assms(1) z by (auto simp: js_def_realloc_def realloc_outcome_def)
    next
      case False
      then show ?thesis
        using r True js_def_malloc_outcome [OF assms(1)] by (simp add: js_def_realloc_def)
    qed
  next
    case False
    then obtain u where u: "hp_blocks (malloc_heap s) p = Some u" using assms(2) by auto
    show ?thesis
    proof (cases "n = 0")
      case True
      then have "q = 0" "s' = js_def_free s p"
        using r False by (auto simp: js_def_realloc_def js_def_free_def Let_def)
      then show ?thesis
        using True False u js_def_free_wf [OF assms(1) u False]
        by (simp add: realloc_outcome_def js_def_free_def c_free_def)
    next
      case nz: False
      show ?thesis
        by (rule js_def_realloc_live_outcome [OF assms(1) False u nz r])
    qed
  qed
  then show ?thesis using r by blast
qed

end
