(* ===== verification/Utf8.thy ===== *)
theory Utf8
  imports CStrings
begin

text \<open>
  The UTF-8 encoder and decoder of \<^verbatim>\<open>cutils.c\<close>, for code points of up to 31 bits in one to
  six bytes.  The encoder returns the bytes it stores at \<^verbatim>\<open>buf\<close>; their number is its return
  value.  The decoder reads an object at an index and returns the code point (or \<open>-1\<close>) with the
  value left in \<^verbatim>\<open>*pp\<close>.
\<close>

definition utf8_tail :: "nat \<Rightarrow> u32 \<Rightarrow> u8" where
  "utf8_tail k c = ucast ((drop_bit k c AND 0x3f) OR 0x80)"

definition unicode_to_utf8 :: "u32 \<Rightarrow> u8 list" where
  "unicode_to_utf8 c =
     (if c < 0x80 then [ucast c]
      else if c < 0x800 then [ucast (drop_bit 6 c OR 0xc0), utf8_tail 0 c]
      else if c < 0x10000 then [ucast (drop_bit 12 c OR 0xe0), utf8_tail 6 c, utf8_tail 0 c]
      else if c < 0x00200000 then
        [ucast (drop_bit 18 c OR 0xf0), utf8_tail 12 c, utf8_tail 6 c, utf8_tail 0 c]
      else if c < 0x04000000 then
        [ucast (drop_bit 24 c OR 0xf8), utf8_tail 18 c, utf8_tail 12 c, utf8_tail 6 c, utf8_tail 0 c]
      else if c < 0x80000000 then
        [ucast (drop_bit 30 c OR 0xfc), utf8_tail 24 c, utf8_tail 18 c, utf8_tail 12 c,
         utf8_tail 6 c, utf8_tail 0 c]
      else [])"

definition utf8_min_code :: "u32 list" where
  "utf8_min_code = [0x80, 0x800, 0x10000, 0x00200000, 0x04000000]"

definition utf8_first_code_mask :: "u8 list" where
  "utf8_first_code_mask = [0x1f, 0xf, 0x7, 0x3, 0x1]"

text \<open>The \<^verbatim>\<open>switch\<close> on the first byte: how many continuation bytes follow.\<close>

definition utf8_follow :: "u8 \<Rightarrow> nat option" where
  "utf8_follow c =
     (if 0xc0 \<le> c \<and> c \<le> 0xdf then Some 1
      else if 0xe0 \<le> c \<and> c \<le> 0xef then Some 2
      else if 0xf0 \<le> c \<and> c \<le> 0xf7 then Some 3
      else if 0xf8 \<le> c \<and> c \<le> 0xfb then Some 4
      else if 0xfc \<le> c \<and> c \<le> 0xfd then Some 5
      else None)"

fun utf8_cont :: "u8 list \<Rightarrow> nat \<Rightarrow> nat \<Rightarrow> u32 \<Rightarrow> u32 option option" where
  "utf8_cont m p 0 c = Some (Some c)"
| "utf8_cont m p (Suc l) c =
     do { b \<leftarrow> rd m p;
          if b < 0x80 \<or> b \<ge> 0xc0 then Some None
          else utf8_cont m (Suc p) l (push_bit 6 c OR ucast (b AND 0x3f)) }"

definition unicode_from_utf8 :: "u8 list \<Rightarrow> nat \<Rightarrow> int \<Rightarrow> (int \<times> nat) option" where
  "unicode_from_utf8 m p max_len =
     do { c \<leftarrow> rd m p;
          if c < 0x80 then Some (uint c, Suc p)
          else case utf8_follow c of
            None \<Rightarrow> Some (-1, p)
          | Some l \<Rightarrow>
              if int l > max_len - 1 then Some (-1, p)
              else do { r \<leftarrow> utf8_cont m (Suc p) l (ucast (c AND utf8_first_code_mask ! (l - 1)));
                        case r of
                          None \<Rightarrow> Some (-1, p)
                        | Some c \<Rightarrow>
                            if c < utf8_min_code ! (l - 1) then Some (-1, p)
                            else Some (uint c, Suc p + l) } }"

section \<open>The bytes as numbers\<close>

lemma unat_lead:
  assumes "unat c div 2 ^ s < 2 ^ k" and "2 ^ k dvd K" and "K + 2 ^ k \<le> 256"
  shows "unat (ucast (drop_bit s (c :: u32) OR of_nat K) :: u8) = unat c div 2 ^ s + K"
proof -
  have K: "unat (of_nat K :: u32) = K"
    using assms(3) by (simp add: unat_of_nat)
  have "unat (drop_bit s c) = unat c div 2 ^ s"
    unfolding unat_drop_bit_eq by (simp add: drop_bit_eq_div)
  then have "unat (drop_bit s c OR of_nat K) = unat c div 2 ^ s + K"
    using assms unat_or_add [of "drop_bit s c" k "of_nat K"] K by simp
  then show ?thesis
    using assms by (simp add: unsigned_ucast_eq take_bit_nat_eq_self)
qed

lemma unat_and_mask: "unat (b AND mask k) = unat (b :: 'a::len word) mod 2 ^ k"
  unfolding take_bit_eq_mask [symmetric] unsigned_take_bit_eq by (simp add: take_bit_eq_mod)

lemma unat_utf8_tail: "unat (utf8_tail k c) = (unat c div 2 ^ k) mod 64 + 128"
proof -
  have m: "(0x3f :: u32) = mask 6" by (simp add: mask_eq_exp_minus_1)
  have "unat (drop_bit k c AND 0x3f) = (unat c div 2 ^ k) mod 64"
    unfolding m unat_and_mask unat_drop_bit_eq by (simp add: drop_bit_eq_div)
  moreover have "unat ((drop_bit k c AND 0x3f) OR 0x80) = unat (drop_bit k c AND 0x3f) + unat (0x80 :: u32)"
    using calculation by (intro unat_or_add [where k = 6]) simp_all
  ultimately have "unat ((drop_bit k c AND 0x3f) OR 0x80) = (unat c div 2 ^ k) mod 64 + 128"
    by simp
  then show ?thesis
    by (simp add: utf8_tail_def unsigned_ucast_eq take_bit_nat_eq_self)
qed

lemma unat_shift_in:
  assumes "unat c < 2 ^ 26"
  shows "unat (push_bit 6 (c :: u32) OR ucast (b AND 0x3f :: u8)) = 64 * unat c + unat b mod 64"
proof -
  have "(0x3f :: u8) = mask 6" by (simp add: mask_eq_exp_minus_1)
  then have lo: "unat (ucast (b AND 0x3f) :: u32) = unat b mod 64"
    using unat_and_mask [of b 6] by (simp add: unsigned_ucast_eq take_bit_nat_eq_self)
  have hi: "unat (push_bit 6 c) = 64 * unat c"
    using assms unfolding unsigned_push_bit_eq
    by (simp add: push_bit_eq_mult take_bit_nat_eq_self mult.commute)
  have "unat (ucast (b AND 0x3f) OR push_bit 6 c :: u32) = unat (ucast (b AND 0x3f) :: u32) + unat (push_bit 6 c)"
    using lo hi by (intro unat_or_add [where k = 6]) simp_all
  then show ?thesis using lo hi by (simp add: or.commute)
qed

section \<open>What UTF-8 is\<close>

text \<open>The encoding as arithmetic: a lead byte that tells the number of continuation bytes, then
  base-64 digits, most significant first.  This is the specification the C code is compared to.\<close>

fun utf8_digits :: "nat \<Rightarrow> nat \<Rightarrow> nat list" where
  "utf8_digits 0 n = []"
| "utf8_digits (Suc k) n = utf8_digits k (n div 64) @ [128 + n mod 64]"

definition utf8_lead :: "nat \<Rightarrow> nat" where
  "utf8_lead l = [0, 192, 224, 240, 248, 252] ! l"

definition utf8_class :: "nat \<Rightarrow> nat" where
  "utf8_class n = (if n < 0x80 then 0 else if n < 0x800 then 1 else if n < 0x10000 then 2
     else if n < 0x200000 then 3 else if n < 0x4000000 then 4 else 5)"

definition utf8_spec :: "nat \<Rightarrow> nat list" where
  "utf8_spec n =
     (let l = utf8_class n in (utf8_lead l + n div 64 ^ l) # utf8_digits l n)"

definition horner64 :: "nat \<Rightarrow> nat list \<Rightarrow> nat" where
  "horner64 a bs = foldl (\<lambda>a b. 64 * a + b mod 64) a bs"

definition is_cont :: "u8 \<Rightarrow> bool" where
  "is_cont b \<longleftrightarrow> 128 \<le> unat b \<and> unat b < 192"

lemma length_utf8_digits [simp]: "length (utf8_digits k n) = k"
  by (induction k arbitrary: n) auto

lemma utf8_digits_cont: "d \<in> set (utf8_digits k n) \<Longrightarrow> 128 \<le> d \<and> d < 192"
  by (induction k arbitrary: n) auto

lemma mod64_add128 [simp]: "(128 + r) mod 64 = (r :: nat) mod 64"
  using mod_add_left_eq [of 128 64 r] by simp

lemma horner64_snoc [simp]: "horner64 a (bs @ [b]) = 64 * horner64 a bs + b mod 64"
  by (simp add: horner64_def)

lemma horner64_digits: "horner64 a (utf8_digits k n) = 64 ^ k * a + n mod 64 ^ k"
proof (induction k arbitrary: n)
  case 0
  then show ?case by (simp add: horner64_def)
next
  case (Suc k)
  have m: "n mod (64 * 64 ^ k) = 64 * (n div 64 mod 64 ^ k) + n mod 64"
    by (rule mod_mult2_eq)
  have b: "(128 + n mod 64) mod 64 = n mod 64" by simp
  have "horner64 a (utf8_digits (Suc k) n) = 64 * (64 ^ k * a + n div 64 mod 64 ^ k) + n mod 64"
    unfolding utf8_digits.simps horner64_snoc Suc b ..
  also have "\<dots> = 64 * 64 ^ k * a + n mod (64 * 64 ^ k)"
    unfolding m by (simp only: distrib_left mult.assoc add.assoc)
  finally show ?case by simp
qed

lemma horner64_div: "horner64 a bs div 64 ^ length bs = a"
proof (induction bs rule: rev_induct)
  case Nil
  then show ?case by (simp add: horner64_def)
next
  case (snoc b bs)
  have "horner64 a (bs @ [b]) div 64 ^ length (bs @ [b]) = (64 * horner64 a bs + b mod 64) div 64 div 64 ^ length bs"
    by (simp add: div_mult2_eq)
  then show ?case using snoc by simp
qed

lemma utf8_digits_horner64:
  "(\<And>b. b \<in> set bs \<Longrightarrow> 128 \<le> b \<and> b < 192) \<Longrightarrow> utf8_digits (length bs) (horner64 a bs) = bs"
proof (induction bs rule: rev_induct)
  case Nil
  then show ?case by simp
next
  case (snoc b bs)
  obtain r where "b = 128 + r" and "r < 64"
    using snoc.prems [of b] le_Suc_ex [of 128 b] by auto
  then have "128 + b mod 64 = b" by simp
  then show ?case using snoc by simp
qed

lemma horner64_less: "horner64 a bs < 64 ^ length bs * (a + 1)"
proof (induction bs rule: rev_induct)
  case Nil
  then show ?case by (simp add: horner64_def)
next
  case (snoc b bs)
  then have "64 * horner64 a bs + 64 \<le> 64 * (64 ^ length bs * (a + 1))"
    by simp
  moreover have "b mod 64 < 64" by simp
  ultimately show ?case by simp
qed

section \<open>The encoder implements the specification\<close>

lemma word_less_unat: "c < (numeral w :: u32) \<longleftrightarrow> unat c < unat (numeral w :: u32)"
  by (simp add: word_less_nat_alt)

lemma utf8_digits_numeral:
  "utf8_digits (numeral k) n = utf8_digits (pred_numeral k) (n div 64) @ [128 + n mod 64]"
  by (subst numeral_eq_Suc) (rule utf8_digits.simps(2))

lemma div_numeral_div: "n div numeral j div numeral k = (n :: nat) div numeral (j * k)"
  by (simp only: div_mult2_eq [symmetric] numeral_times_numeral)

lemmas utf8_digits_unfold = utf8_digits_numeral div_numeral_div

lemmas utf8_unfold =
  unicode_to_utf8_def word_less_unat utf8_spec_def utf8_class_def utf8_lead_def

lemma unicode_to_utf8_spec:
  assumes "unat c < 2 ^ 31"
  shows "map unat (unicode_to_utf8 c) = utf8_spec (unat c)"
proof -
  have small: "unat (ucast c :: u8) = unat c" if "unat c < 0x80"
    using that by (simp add: unsigned_ucast_eq take_bit_nat_eq_self)
  consider "unat c < 0x80" | "0x80 \<le> unat c" "unat c < 0x800" | "0x800 \<le> unat c" "unat c < 0x10000"
    | "0x10000 \<le> unat c" "unat c < 0x200000" | "0x200000 \<le> unat c" "unat c < 0x4000000"
    | "0x4000000 \<le> unat c" by linarith
  then show ?thesis
  proof cases
    case 1
    then show ?thesis by (simp add: utf8_unfold utf8_digits_unfold small)
  next
    case 2
    then show ?thesis
      using unat_lead [of c 6 5 192] by (simp add: utf8_unfold utf8_digits_unfold unat_utf8_tail)
  next
    case 3
    then show ?thesis
      using unat_lead [of c 12 4 224] by (simp add: utf8_unfold utf8_digits_unfold unat_utf8_tail)
  next
    case 4
    then show ?thesis
      using unat_lead [of c 18 3 240] by (simp add: utf8_unfold utf8_digits_unfold unat_utf8_tail)
  next
    case 5
    then show ?thesis
      using unat_lead [of c 24 2 248] by (simp add: utf8_unfold utf8_digits_unfold unat_utf8_tail)
  next
    case 6
    then show ?thesis
      using assms unat_lead [of c 30 1 252]
      by (simp add: utf8_unfold utf8_digits_unfold unat_utf8_tail)
  qed
qed

section \<open>The decoder\<close>

lemma is_cont_iff: "is_cont b \<longleftrightarrow> \<not> (b < 0x80 \<or> b \<ge> 0xc0)"
  by (auto simp: is_cont_def word_less_nat_alt word_le_nat_alt)

lemma horner64_Cons: "horner64 a (b # bs) = horner64 (64 * a + b mod 64) bs"
  by (simp add: horner64_def)

lemma shift_in_room:
  assumes "(unat c + 1) * 64 ^ Suc l \<le> 2 ^ 32"
  shows "unat (push_bit 6 (c :: u32) OR ucast (b AND 0x3f :: u8)) = 64 * unat c + unat b mod 64"
    and "(unat (push_bit 6 c OR ucast (b AND 0x3f :: u8)) + 1) * 64 ^ l \<le> 2 ^ 32"
proof -
  have "(64 :: nat) \<le> 64 ^ Suc l" by simp
  then have "(unat c + 1) * 64 \<le> (unat c + 1) * 64 ^ Suc l" by (rule mult_le_mono2)
  with assms have "unat c < 2 ^ 26" by simp
  then show eq: "unat (push_bit 6 c OR ucast (b AND 0x3f)) = 64 * unat c + unat b mod 64"
    by (rule unat_shift_in)
  have "64 * unat c + unat b mod 64 + 1 \<le> (unat c + 1) * 64" by simp
  then have "(64 * unat c + unat b mod 64 + 1) * 64 ^ l \<le> (unat c + 1) * 64 * 64 ^ l"
    by (rule mult_le_mono1)
  also have "\<dots> \<le> 2 ^ 32"
    using assms by (simp only: power_Suc mult.assoc)
  finally show "(unat (push_bit 6 c OR ucast (b AND 0x3f)) + 1) * 64 ^ l \<le> 2 ^ 32"
    unfolding eq .
qed

lemma utf8_cont_decodes:
  assumes "\<forall>b\<in>set bs. is_cont b" and "(unat c + 1) * 64 ^ length bs \<le> 2 ^ 32"
  shows "\<exists>c'. utf8_cont (pre @ bs @ post) (length pre) (length bs) c = Some (Some c') \<and>
     unat c' = horner64 (unat c) (map unat bs)"
  using assms
proof (induction bs arbitrary: pre c)
  case Nil
  then show ?case by (simp add: horner64_def)
next
  case (Cons b bs)
  let ?c = "push_bit 6 c OR ucast (b AND 0x3f)"
  have r: "(unat c + 1) * 64 ^ Suc (length bs) \<le> 2 ^ 32" using Cons.prems(2) by simp
  note s = shift_in_room [OF r, of b]
  have "\<exists>c'. utf8_cont ((pre @ [b]) @ bs @ post) (length (pre @ [b])) (length bs) ?c = Some (Some c') \<and>
     unat c' = horner64 (unat ?c) (map unat bs)"
    using Cons.prems(1) s(2) by (intro Cons.IH) auto
  then show ?case
    using Cons.prems(1) s(1) by (auto simp: horner64_Cons is_cont_iff)
qed

lemma utf8_cont_Some_Some:
  assumes "utf8_cont m p l c = Some (Some c')" and "(unat c + 1) * 64 ^ l \<le> 2 ^ 32"
    and "p \<le> length m"
  shows "p + l \<le> length m \<and> (\<forall>b\<in>set (take l (drop p m)). is_cont b) \<and>
     unat c' = horner64 (unat c) (map unat (take l (drop p m)))"
  using assms
proof (induction l arbitrary: p c)
  case 0
  then show ?case by (simp add: horner64_def)
next
  case (Suc l)
  from Suc.prems(1) have p: "p < length m" and cont: "is_cont (m ! p)"
    and step: "utf8_cont m (Suc p) l (push_bit 6 c OR ucast (m ! p AND 0x3f)) = Some (Some c')"
    by (auto simp: rd_def is_cont_iff split: if_splits)
  note s = shift_in_room [OF Suc.prems(2), of "m ! p"]
  have d: "take (Suc l) (drop p m) = m ! p # take l (drop (Suc p) m)"
    using p by (simp add: Cons_nth_drop_Suc [symmetric])
  show ?case
    using Suc.IH [OF step s(2)] cont s(1) p by (auto simp: d horner64_Cons)
qed

lemma utf8_cont_safe: "p + l \<le> length m \<Longrightarrow> \<exists>r. utf8_cont m p l c = Some r"
  by (induction l arbitrary: p c) (auto simp: rd_def)

lemma utf8_cont_stops_at_nul:
  "p \<le> i \<Longrightarrow> i < length m \<Longrightarrow> m ! i = 0 \<Longrightarrow> \<exists>r. utf8_cont m p l c = Some r"
proof (induction l arbitrary: p c)
  case 0
  then show ?case by simp
next
  case (Suc l)
  show ?case
  proof (cases "p = i")
    case True
    with Suc.prems show ?thesis by (simp add: rd_def)
  next
    case False
    with Suc show ?thesis by (simp add: rd_def)
  qed
qed

section \<open>Lead bytes\<close>

lemma utf8_follow_cases:
  assumes "utf8_follow f = Some l"
  shows "1 \<le> l \<and> l \<le> 5 \<and> utf8_lead l \<le> unat f \<and> unat f < utf8_lead l + 2 ^ (6 - l)"
  using assms
  by (auto simp: utf8_follow_def utf8_lead_def word_le_nat_alt split: if_splits)

lemma utf8_followI:
  assumes "1 \<le> l" and "l \<le> 5" and "utf8_lead l \<le> unat f" and "unat f < utf8_lead l + 2 ^ (6 - l)"
  shows "utf8_follow f = Some l"
proof -
  from assms(1,2) consider "l = 1" | "l = 2" | "l = 3" | "l = 4" | "l = 5" by linarith
  then show ?thesis
    using assms(3,4) by cases (auto simp: utf8_follow_def utf8_lead_def word_le_nat_alt)
qed

lemma utf8_payload:
  assumes "1 \<le> l" and "l \<le> 5" and "unat f = utf8_lead l + a" and "a < 2 ^ (6 - l)"
  shows "unat (ucast (f AND utf8_first_code_mask ! (l - 1)) :: u32) = a"
proof -
  have m: "utf8_first_code_mask ! (l - 1) = mask (6 - l)"
    and d: "utf8_lead l mod 2 ^ (6 - l) = 0"
  proof -
    from assms(1,2) consider "l = 1" | "l = 2" | "l = 3" | "l = 4" | "l = 5" by linarith
    then show "utf8_first_code_mask ! (l - 1) = mask (6 - l)" "utf8_lead l mod 2 ^ (6 - l) = 0"
      by (cases; simp add: utf8_first_code_mask_def mask_eq_exp_minus_1 utf8_lead_def)+
  qed
  have "unat (f AND mask (6 - l)) = (utf8_lead l + a) mod 2 ^ (6 - l)"
    unfolding unat_and_mask assms(3) ..
  also have "\<dots> = (utf8_lead l mod 2 ^ (6 - l) + a) mod 2 ^ (6 - l)"
    by (rule mod_add_left_eq [symmetric])
  also have "\<dots> = a"
    using d assms(4) by simp
  finally have "unat (f AND utf8_first_code_mask ! (l - 1)) = a"
    unfolding m .
  moreover have "a < 2 ^ 32"
    using assms(4) power_increasing [of "6 - l" 32 "2 :: nat"] by linarith
  ultimately show ?thesis
    by (simp add: unsigned_ucast_eq take_bit_nat_eq_self)
qed

lemma utf8_class_bounds:
  assumes "n < 2 ^ 31" and "0x80 \<le> n"
  shows "1 \<le> utf8_class n \<and> utf8_class n \<le> 5 \<and>
     unat (utf8_min_code ! (utf8_class n - 1)) \<le> n \<and> n div 64 ^ utf8_class n < 2 ^ (6 - utf8_class n)"
  using assms by (auto simp: utf8_class_def utf8_min_code_def less_mult_imp_div_less)

lemma utf8_classI:
  assumes "1 \<le> l" and "l \<le> 5" and "unat (utf8_min_code ! (l - 1)) \<le> n" and "n < 2 ^ (6 - l) * 64 ^ l"
  shows "utf8_class n = l \<and> n < 2 ^ 31 \<and> 0x80 \<le> n"
proof -
  from assms(1,2) consider "l = 1" | "l = 2" | "l = 3" | "l = 4" | "l = 5" by linarith
  then show ?thesis
    using assms(3,4) by cases (auto simp: utf8_class_def utf8_min_code_def)
qed

section \<open>Encoder and decoder are inverse\<close>

lemma unicode_to_utf8_shape:
  assumes "unat c < 2 ^ 31"
  obtains f bs where "unicode_to_utf8 c = f # bs" and "length bs = utf8_class (unat c)"
    and "unat f = utf8_lead (utf8_class (unat c)) + unat c div 64 ^ utf8_class (unat c)"
    and "map unat bs = utf8_digits (utf8_class (unat c)) (unat c)"
proof -
  have "map unat (unicode_to_utf8 c) = utf8_spec (unat c)"
    by (rule unicode_to_utf8_spec [OF assms])
  then obtain f bs where "unicode_to_utf8 c = f # bs"
    and "unat f = utf8_lead (utf8_class (unat c)) + unat c div 64 ^ utf8_class (unat c)"
    and "map unat bs = utf8_digits (utf8_class (unat c)) (unat c)"
    by (auto simp: utf8_spec_def Let_def map_eq_Cons_conv)
  moreover from this(3) have "length bs = utf8_class (unat c)"
    by (metis length_map length_utf8_digits)
  ultimately show thesis using that by blast
qed

lemma utf8_lead_ge: "1 \<le> l \<Longrightarrow> l \<le> 5 \<Longrightarrow> 192 \<le> utf8_lead l \<and> (2 :: nat) ^ (6 - l) * 64 ^ l \<le> 2 ^ 32"
proof -
  assume "1 \<le> l" and "l \<le> 5"
  then consider "l = 1" | "l = 2" | "l = 3" | "l = 4" | "l = 5" by linarith
  then show ?thesis by cases (simp_all add: utf8_lead_def)
qed

lemma digits_are_cont: "map unat bs = utf8_digits l n \<Longrightarrow> b \<in> set bs \<Longrightarrow> is_cont b"
  using utf8_digits_cont [of "unat b" l n] unfolding is_cont_def
  by (metis image_eqI list.set_map)

lemma utf8_roundtrip:
  assumes "unat c < 2 ^ 31" and "int (length (unicode_to_utf8 c)) \<le> max_len"
  shows "unicode_from_utf8 (pre @ unicode_to_utf8 c @ post) (length pre) max_len =
     Some (uint c, length pre + length (unicode_to_utf8 c))"
proof -
  define l where "l = utf8_class (unat c)"
  obtain f bs where e: "unicode_to_utf8 c = f # bs" and lb: "length bs = l"
    and f: "unat f = utf8_lead l + unat c div 64 ^ l" and d: "map unat bs = utf8_digits l (unat c)"
    using unicode_to_utf8_shape [OF assms(1)] unfolding l_def by metis
  show ?thesis
  proof (cases "unat c < 0x80")
    case True
    then have l0: "l = 0" by (simp add: l_def utf8_class_def)
    then have "f < 0x80" using f True by (simp add: word_less_nat_alt utf8_lead_def)
    moreover have "uint f = uint c"
      using f l0 by (simp add: utf8_lead_def uint_nat del: of_nat_unat)
    ultimately show ?thesis
      using lb l0 by (simp add: unicode_from_utf8_def e)
  next
    case False
    have l: "1 \<le> l" "l \<le> 5" "unat (utf8_min_code ! (l - 1)) \<le> unat c" "unat c div 64 ^ l < 2 ^ (6 - l)"
      using utf8_class_bounds [OF assms(1)] False by (auto simp: l_def)
    have fo: "utf8_follow f = Some l"
      using l f by (intro utf8_followI) auto
    have f80: "\<not> f < 0x80"
      using f utf8_lead_ge [OF l(1,2)] by (simp add: word_less_nat_alt)
    define a where "a = (ucast (f AND utf8_first_code_mask ! (l - 1)) :: u32)"
    have ua: "unat a = unat c div 64 ^ l"
      unfolding a_def using l f by (intro utf8_payload) auto
    have "(unat a + 1) * 64 ^ l \<le> 2 ^ (6 - l) * 64 ^ l"
      using l(4) ua by (intro mult_le_mono1) simp
    also have "\<dots> \<le> 2 ^ 32"
      using utf8_lead_ge [OF l(1,2)] by simp
    finally have room: "(unat a + 1) * 64 ^ length bs \<le> 2 ^ 32" by (simp add: lb)
    obtain c' where ct: "utf8_cont ((pre @ [f]) @ bs @ post) (length (pre @ [f])) (length bs) a = Some (Some c')"
      and uc: "unat c' = horner64 (unat a) (map unat bs)"
      using utf8_cont_decodes [OF _ room, of "pre @ [f]" post] digits_are_cont [OF d] by blast
    have "unat c' = unat c"
      unfolding uc d horner64_digits ua by (simp add: mult_div_mod_eq)
    then have "c' = c" by (simp add: word_unat_eq_iff)
    then show ?thesis
      using ct l(3) lb fo f80 assms(2) by (simp add: unicode_from_utf8_def e a_def word_less_nat_alt)
  qed
qed

lemma map_inj_on_unat: "inj_on (map (unat :: u8 \<Rightarrow> nat)) UNIV"
  by (rule injI) (metis map_injective inj_def word_unat_eq_iff)

lemma utf8_decode_inverse:
  assumes "unicode_from_utf8 m p max_len = Some (v, p')" and "0 \<le> v"
  shows "\<exists>c. v = uint c \<and> unat c < 2 ^ 31 \<and> p' = p + length (unicode_to_utf8 c) \<and>
     take (length (unicode_to_utf8 c)) (drop p m) = unicode_to_utf8 c"
proof -
  from assms have p: "p < length m"
    by (auto simp: unicode_from_utf8_def rd_def bind_eq_Some_conv split: if_splits)
  define f where "f = m ! p"
  have d: "drop p m = f # drop (Suc p) m"
    using p by (simp add: f_def Cons_nth_drop_Suc)
  show ?thesis
  proof (cases "f < 0x80")
    case True
    then have "unat f < 128" by (simp add: word_less_nat_alt)
    then have u: "unat (ucast f :: u32) = unat f" and lt: "(ucast f :: u32) < 0x80"
      by (simp_all add: word_less_nat_alt unsigned_ucast_eq take_bit_nat_eq_self)
    have e: "unicode_to_utf8 (ucast f) = [f]"
      using lt by (simp add: unicode_to_utf8_def ucast_down_ucast_id is_down)
    have "v = uint f" "p' = Suc p"
      using assms True p by (auto simp: unicode_from_utf8_def rd_def f_def)
    then show ?thesis
      using e u \<open>unat f < 128\<close> by (intro exI [of _ "ucast f"]) (simp add: d uint_nat del: of_nat_unat)
  next
    case False
    then obtain l c where fo: "utf8_follow f = Some l"
      and ct: "utf8_cont m (Suc p) l (ucast (f AND utf8_first_code_mask ! (l - 1))) = Some (Some c)"
      and mn: "\<not> c < utf8_min_code ! (l - 1)" and v: "v = uint c" and p': "p' = Suc p + l"
      using assms p
      by (auto simp: unicode_from_utf8_def rd_def f_def bind_eq_Some_conv split: if_splits option.splits)
    note fc = utf8_follow_cases [OF fo]
    define a where "a = unat f - utf8_lead l"
    have fa: "unat f = utf8_lead l + a" "a < 2 ^ (6 - l)" using fc by (auto simp: a_def)
    have ua: "unat (ucast (f AND utf8_first_code_mask ! (l - 1)) :: u32) = a"
      using fc fa by (intro utf8_payload) auto
    have top: "(a + 1) * 64 ^ l \<le> 2 ^ (6 - l) * 64 ^ l"
      using fa(2) by (intro mult_le_mono1) simp
    also have "\<dots> \<le> 2 ^ 32" using utf8_lead_ge fc by blast
    finally have room: "(unat (ucast (f AND utf8_first_code_mask ! (l - 1)) :: u32) + 1) * 64 ^ l \<le> 2 ^ 32"
      by (simp only: ua)
    define bs where "bs = take l (drop (Suc p) m)"
    have b: "Suc p + l \<le> length m" "\<forall>b\<in>set bs. is_cont b" "unat c = horner64 a (map unat bs)"
      using utf8_cont_Some_Some [OF ct room] p unfolding ua bs_def by auto
    have lb: "length bs = l" using b(1) by (simp add: bs_def)
    have "unat c < 64 ^ l * (a + 1)"
      using horner64_less [of a "map unat bs"] b(3) lb by simp
    also have "\<dots> \<le> 2 ^ (6 - l) * 64 ^ l" using top by (simp only: mult.commute)
    finally have cl: "utf8_class (unat c) = l" "unat c < 2 ^ 31"
      using utf8_classI [of l "unat c"] fc mn by (auto simp: word_less_nat_alt not_less)
    have dg: "utf8_digits l (unat c) = map unat bs"
      using utf8_digits_horner64 [of "map unat bs" a] b(2) unfolding b(3)
      by (auto simp: is_cont_def lb)
    have dv: "unat c div 64 ^ l = a"
      using horner64_div [of a "map unat bs"] unfolding b(3) by (simp add: lb)
    have "utf8_spec (unat c) = unat f # map unat bs"
      by (simp add: utf8_spec_def cl dg dv fa(1))
    then have "map unat (unicode_to_utf8 c) = map unat (f # bs)"
      using unicode_to_utf8_spec [OF cl(2)] by simp
    then have e: "unicode_to_utf8 c = f # bs"
      by (rule inj_onD [OF map_inj_on_unat]) simp_all
    show ?thesis
      using v p' e lb cl(2) by (intro exI [of _ c]) (simp add: d bs_def)
  qed
qed

text \<open>The decoder reports an error without moving \<^verbatim>\<open>*pp\<close>.\<close>

lemma utf8_error_keeps_pointer:
  "unicode_from_utf8 m p max_len = Some (v, p') \<Longrightarrow> v < 0 \<Longrightarrow> v = -1 \<and> p' = p"
  by (auto simp: unicode_from_utf8_def bind_eq_Some_conv split: if_splits option.splits)

text \<open>On a zero-terminated buffer the decoder never reads past the terminator, whatever
  \<^verbatim>\<open>max_len\<close> says: a zero byte is no continuation byte.\<close>

lemma utf8_stops_at_nul:
  assumes "p \<le> i" and "i < length m" and "m ! i = 0"
  shows "\<exists>v p'. unicode_from_utf8 m p max_len = Some (v, p') \<and> p' \<le> Suc i"
proof -
  have safe: "\<exists>r. utf8_cont m (Suc p) l c = Some r" if "p < i" for l c
    using that assms by (intro utf8_cont_stops_at_nul) auto
  show ?thesis
  proof (cases "p = i")
    case True
    then show ?thesis using assms by (simp add: unicode_from_utf8_def rd_def)
  next
    case False
    then have "p < i" using assms(1) by simp
    define r where "r = (\<lambda>l c. the (utf8_cont m (Suc p) l c))"
    have r: "utf8_cont m (Suc p) l c = Some (r l c)" for l c
      using safe [OF \<open>p < i\<close>, of l c] by (auto simp: r_def)
    have "unicode_from_utf8 m p max_len \<noteq> None"
      using \<open>p < i\<close> assms(2) by (simp add: unicode_from_utf8_def rd_def r split: option.split)
    then obtain v p' where u: "unicode_from_utf8 m p max_len = Some (v, p')" by auto
    have "p' \<le> Suc i"
    proof (rule ccontr)
      assume "\<not> p' \<le> Suc i"
      then have "\<not> v < 0" using utf8_error_keeps_pointer [OF u] assms(1) by auto
      then obtain c where c: "unat c < 2 ^ 31" "p' = p + length (unicode_to_utf8 c)"
        "take (length (unicode_to_utf8 c)) (drop p m) = unicode_to_utf8 c"
        using utf8_decode_inverse [OF u] by auto
      obtain f bs where e: "unicode_to_utf8 c = f # bs"
        and "map unat bs = utf8_digits (utf8_class (unat c)) (unat c)"
        using unicode_to_utf8_shape [OF c(1)] by metis
      then have cont: "\<forall>b\<in>set bs. is_cont b" using digits_are_cont by blast
      have k: "i - p < length (f # bs)" "0 < i - p"
        using \<open>\<not> p' \<le> Suc i\<close> c(2) e \<open>p < i\<close> by auto
      have t: "take (length (f # bs)) (drop p m) = f # bs" using c(3) e by simp
      have "take (length (f # bs)) (drop p m) ! (i - p) = m ! i"
        using k(1) assms(1,2) by (simp del: length_Cons)
      then have "(f # bs) ! (i - p) = m ! i" unfolding t .
      then have "bs ! (i - Suc p) = 0" using k(2) assms(3) by (simp add: nth_Cons')
      moreover have "i - Suc p < length bs" using k by auto
      ultimately have "0 \<in> set bs" by (metis nth_mem)
      then show False using cont by (auto simp: is_cont_def)
    qed
    then show ?thesis using u by blast
  qed
qed

section \<open>Sequences of code points\<close>

text \<open>What a client of an encoding relies on: every code word is decoded back wherever it
  stands.  Unique decodability of whole texts follows.\<close>

locale prefix_codec =
  fixes valid :: "'c \<Rightarrow> bool"
    and enc :: "'c \<Rightarrow> 'b list"
    and dec :: "'b list \<Rightarrow> nat \<Rightarrow> ('c \<times> nat) option"
  assumes dec_enc: "valid c \<Longrightarrow> dec (pre @ enc c @ post) (length pre) = Some (c, length pre + length (enc c))"
    and enc_nonempty: "valid c \<Longrightarrow> enc c \<noteq> []"
begin

lemma enc_unique: "valid c \<Longrightarrow> valid c' \<Longrightarrow> enc c @ s = enc c' @ s' \<Longrightarrow> c = c' \<and> s = s'"
  using dec_enc [of c "[]" s] dec_enc [of c' "[]" s'] by auto

lemma enc_text_unique:
  "\<forall>c\<in>set cs. valid c \<Longrightarrow> \<forall>c\<in>set cs'. valid c \<Longrightarrow>
     concat (map enc cs) = concat (map enc cs') \<Longrightarrow> cs = cs'"
proof (induction cs arbitrary: cs')
  case Nil
  then show ?case using enc_nonempty by (cases cs') auto
next
  case (Cons c cs)
  show ?case
  proof (cases cs')
    case Nil
    with Cons.prems enc_nonempty show ?thesis by auto
  next
    case (Cons c' ds)
    with Cons.prems have "c = c' \<and> concat (map enc cs) = concat (map enc ds)"
      by (intro enc_unique) auto
    with Cons Cons.prems Cons.IH [of ds] show ?thesis by auto
  qed
qed

end

definition utf8_decode_at :: "u8 list \<Rightarrow> nat \<Rightarrow> (u32 \<times> nat) option" where
  "utf8_decode_at m p =
     do { (v, p') \<leftarrow> unicode_from_utf8 m p 6; if v < 0 then None else Some (of_int v, p') }"

lemma length_unicode_to_utf8: "length (unicode_to_utf8 c) \<le> 6"
  by (simp add: unicode_to_utf8_def)

interpretation utf8: prefix_codec "\<lambda>c. unat c < 2 ^ 31" unicode_to_utf8 utf8_decode_at
proof
  fix c :: u32 and pre post
  assume c: "unat c < 2 ^ 31"
  show "utf8_decode_at (pre @ unicode_to_utf8 c @ post) (length pre) =
      Some (c, length pre + length (unicode_to_utf8 c))"
    using utf8_roundtrip [OF c, of 6 pre post] length_unicode_to_utf8 [of c]
    by (simp add: utf8_decode_at_def)
  show "unicode_to_utf8 c \<noteq> []"
    by (rule unicode_to_utf8_shape [OF c]) simp
qed

end
