(* ===== verification/CharRange.thy ===== *)
theory CharRange
  imports JSMalloc
begin

text \<open>
  The character ranges of \<^verbatim>\<open>libunicode.c\<close> and \<^verbatim>\<open>libunicode.h\<close>: a set of code points as the
  sorted array of the points where membership changes.  Unions, intersections, symmetric
  differences and complements are in-place merges of such arrays.  Lengths and sizes count
  points; they are C \<^verbatim>\<open>int\<close>s, so the sums and products the code forms of them go through
  \<open>c_int\<close>: a sum that does not fit is undefined behaviour and the result is \<open>None\<close>.  The block
  of \<open>n\<close> points has \<open>4 * n\<close> bytes.
\<close>

record 'h char_range =
  cr_len :: nat
  cr_size :: nat
  cr_ptr :: nat
  cr_points :: "u32 list"
  cr_realloc_func :: "'h realloc_func"

datatype cr_op_enum = CR_OP_UNION | CR_OP_INTER | CR_OP_XOR

section \<open>Operations\<close>

definition cr_init :: "'h realloc_func \<Rightarrow> 'h char_range" where
  "cr_init realloc_func =
     \<lparr>cr_len = 0, cr_size = 0, cr_ptr = 0, cr_points = [], cr_realloc_func = realloc_func\<rparr>"

definition cr_free :: "'h char_range \<Rightarrow> 'h \<Rightarrow> 'h" where
  "cr_free cr h = snd (cr_realloc_func cr h (cr_ptr cr) 0)"

definition cr_realloc ::
  "'h char_range \<Rightarrow> nat \<Rightarrow> 'h \<Rightarrow> (int \<times> 'h char_range \<times> 'h) option" where
  "cr_realloc cr n h =
     (if n > cr_size cr then
        do { s3 \<leftarrow> c_int (cr_size cr * 3);
             let new_size = max n (s3 div 2);
             let (new_buf, h) = cr_realloc_func cr h (cr_ptr cr) (szmul new_size 4);
             Some (if new_buf = 0 then (-1, cr, h)
                   else (0, cr\<lparr>cr_ptr := new_buf,
                               cr_points := resize (cr_points cr) new_size (of_nat new_buf),
                               cr_size := new_size\<rparr>, h)) }
      else Some (0, cr, h))"

definition cr_add_point :: "'h char_range \<Rightarrow> u32 \<Rightarrow> 'h \<Rightarrow> (int \<times> 'h char_range \<times> 'h) option" where
  "cr_add_point cr v h =
     do { (r, cr, h) \<leftarrow> (if cr_len cr \<ge> cr_size cr
                          then do { n \<leftarrow> c_int (cr_len cr + 1); cr_realloc cr n h }
                          else Some (0, cr, h));
          if r \<noteq> 0 then Some (-1, cr, h)
          else do { p \<leftarrow> wr (cr_points cr) (cr_len cr) v;
                    Some (0, cr\<lparr>cr_points := p, cr_len := cr_len cr + 1\<rparr>, h) } }"

definition cr_add_interval ::
  "'h char_range \<Rightarrow> u32 \<Rightarrow> u32 \<Rightarrow> 'h \<Rightarrow> (int \<times> 'h char_range \<times> 'h) option" where
  "cr_add_interval cr c1 c2 h =
     do { n \<leftarrow> c_int (cr_len cr + 2);
          (r, cr, h) \<leftarrow> (if n > cr_size cr then cr_realloc cr n h else Some (0, cr, h));
          if r \<noteq> 0 then Some (-1, cr, h)
          else do { p \<leftarrow> wr (cr_points cr) (cr_len cr) c1;
                    p \<leftarrow> wr p (cr_len cr + 1) c2;
                    Some (0, cr\<lparr>cr_points := p, cr_len := cr_len cr + 2\<rparr>, h) } }"

definition cr_copy ::
  "'h char_range \<Rightarrow> 'h char_range \<Rightarrow> 'h \<Rightarrow> (int \<times> 'h char_range \<times> 'h) option" where
  "cr_copy cr cr1 h =
     do { (r, cr, h) \<leftarrow> cr_realloc cr (cr_len cr1) h;
          if r \<noteq> 0 then Some (-1, cr, h)
          else do { d \<leftarrow> rd_block (cr_points cr1) 0 (cr_len cr1);
                    p \<leftarrow> wr_block (cr_points cr) 0 d;
                    Some (0, cr\<lparr>cr_points := p, cr_len := cr_len cr1\<rparr>, h) } }"

text \<open>The two nested loops of \<^verbatim>\<open>cr_compress\<close>, on the array in place.  The indices move in
  steps of two from 0 and stay below \<open>len\<close>, so \<open>j + 3\<close> is at most \<open>len + 1\<close> for an even \<open>len\<close>
  and \<open>len\<close> for an odd one: no sum here can leave the range of an \<^verbatim>\<open>int\<close>.\<close>

function cr_compress_run :: "u32 list \<Rightarrow> nat \<Rightarrow> nat \<Rightarrow> nat option" where
  "cr_compress_run pt len j =
     (if j + 3 < len then
        do { a \<leftarrow> rd pt (j + 1); b \<leftarrow> rd pt (j + 2);
             if a = b then cr_compress_run pt len (j + 2) else Some j }
      else Some j)"
  by pat_completeness auto
termination
  by (relation "measure (\<lambda>(pt, len, j). len - j)") auto

declare cr_compress_run.simps [simp del]

lemma cr_compress_run_ge: "cr_compress_run pt len j = Some j' \<Longrightarrow> j \<le> j'"
proof (induction pt len j rule: cr_compress_run.induct)
  case (1 pt len j)
  show ?case
    using "1.prems" "1.IH"
    by (subst (asm) cr_compress_run.simps) (fastforce simp: bind_eq_Some_conv split: if_splits)
qed

function cr_compress_loop :: "u32 list \<Rightarrow> nat \<Rightarrow> nat \<Rightarrow> nat \<Rightarrow> (u32 list \<times> nat) option" where
  "cr_compress_loop pt len i k =
     (if i + 1 < len then
        do { a \<leftarrow> rd pt i; b \<leftarrow> rd pt (i + 1);
             if a = b then cr_compress_loop pt len (i + 2) k
             else do { j \<leftarrow> cr_compress_run pt len i;
                       pt \<leftarrow> wr pt k a;
                       e \<leftarrow> rd pt (j + 1);
                       pt \<leftarrow> wr pt (k + 1) e;
                       cr_compress_loop pt len (j + 2) (k + 2) } }
      else Some (pt, k))"
  by pat_completeness auto
termination
  by (relation "measure (\<lambda>(pt, len, i, k). len - i)") (auto dest: cr_compress_run_ge)

declare cr_compress_loop.simps [simp del]

definition cr_compress :: "'h char_range \<Rightarrow> 'h char_range option" where
  "cr_compress cr =
     do { (pt, k) \<leftarrow> cr_compress_loop (cr_points cr) (cr_len cr) 0 0;
          Some (cr\<lparr>cr_points := pt, cr_len := k\<rparr>) }"

fun cr_is_in :: "cr_op_enum \<Rightarrow> nat \<Rightarrow> nat \<Rightarrow> bool" where
  "cr_is_in CR_OP_UNION a b = (odd a \<or> odd b)"
| "cr_is_in CR_OP_INTER a b = (odd a \<and> odd b)"
| "cr_is_in CR_OP_XOR a b = (odd a \<noteq> odd b)"

text \<open>One more point from \<open>a\<close> or \<open>b\<close> in increasing order, with the advanced indices;
  \<open>Some None\<close> when both arrays are exhausted.\<close>

definition cr_next ::
  "u32 list \<Rightarrow> nat \<Rightarrow> u32 list \<Rightarrow> nat \<Rightarrow> nat \<Rightarrow> nat \<Rightarrow> (u32 \<times> nat \<times> nat) option option" where
  "cr_next a a_len b b_len a_idx b_idx =
     (if a_idx < a_len \<and> b_idx < b_len then
        do { x \<leftarrow> rd a a_idx; y \<leftarrow> rd b b_idx;
             if x < y then Some (Some (x, a_idx + 1, b_idx))
             else if x = y then Some (Some (x, a_idx + 1, b_idx + 1))
             else Some (Some (y, a_idx, b_idx + 1)) }
      else if a_idx < a_len then do { x \<leftarrow> rd a a_idx; Some (Some (x, a_idx + 1, b_idx)) }
      else if b_idx < b_len then do { y \<leftarrow> rd b b_idx; Some (Some (y, a_idx, b_idx + 1)) }
      else Some None)"

lemma cr_next_decreases:
  "cr_next a al b bl ai bi = Some (Some (v, ai', bi')) \<Longrightarrow> (al - ai') + (bl - bi') < (al - ai) + (bl - bi)"
  by (auto simp: cr_next_def bind_eq_Some_conv split: if_splits)

function cr_op_loop ::
  "cr_op_enum \<Rightarrow> u32 list \<Rightarrow> nat \<Rightarrow> u32 list \<Rightarrow> nat \<Rightarrow> nat \<Rightarrow> nat \<Rightarrow> 'h char_range \<Rightarrow> 'h
     \<Rightarrow> (int \<times> 'h char_range \<times> 'h) option" where
  "cr_op_loop op a a_len b b_len a_idx b_idx cr h =
     do { n \<leftarrow> cr_next a a_len b b_len a_idx b_idx;
          (case n of
             None \<Rightarrow> Some (0, cr, h)
           | Some (v, a_idx, b_idx) \<Rightarrow>
               do { (r, cr, h) \<leftarrow> (if cr_is_in op a_idx b_idx \<noteq> odd (cr_len cr)
                                    then cr_add_point cr v h else Some (0, cr, h));
                    if r \<noteq> 0 then Some (-1, cr, h)
                    else cr_op_loop op a a_len b b_len a_idx b_idx cr h }) }"
  by pat_completeness auto
termination
  by (relation "measure (\<lambda>(op, a, al, b, bl, ai, bi, cr, h). (al - ai) + (bl - bi))")
    (auto dest: cr_next_decreases)

declare cr_op_loop.simps [simp del]

definition cr_op ::
  "'h char_range \<Rightarrow> u32 list \<Rightarrow> nat \<Rightarrow> u32 list \<Rightarrow> nat \<Rightarrow> cr_op_enum \<Rightarrow> 'h
     \<Rightarrow> (int \<times> 'h char_range \<times> 'h) option" where
  "cr_op cr a a_len b b_len op h =
     do { (r, cr, h) \<leftarrow> cr_op_loop op a a_len b b_len 0 0 cr h;
          if r \<noteq> 0 then Some (-1, cr, h)
          else do { cr \<leftarrow> cr_compress cr; Some (0, cr, h) } }"

definition cr_union1 ::
  "'h char_range \<Rightarrow> u32 list \<Rightarrow> nat \<Rightarrow> 'h \<Rightarrow> (int \<times> 'h char_range \<times> 'h) option" where
  "cr_union1 cr b b_len h =
     (let a = cr; cr = cr\<lparr>cr_len := 0, cr_size := 0, cr_ptr := 0, cr_points := []\<rparr>
      in do { (ret, cr, h) \<leftarrow> cr_op cr (cr_points a) (cr_len a) b b_len CR_OP_UNION h;
              Some (ret, cr, cr_free a h) })"

definition cr_union_interval ::
  "'h char_range \<Rightarrow> u32 \<Rightarrow> u32 \<Rightarrow> 'h \<Rightarrow> (int \<times> 'h char_range \<times> 'h) option" where
  "cr_union_interval cr c1 c2 h = cr_union1 cr [c1, c2 + 1] 2 h"

definition cr_invert :: "'h char_range \<Rightarrow> 'h \<Rightarrow> (int \<times> 'h char_range \<times> 'h) option" where
  "cr_invert cr h =
     do { let len = cr_len cr;
          len2 \<leftarrow> c_int (len + 2);
          (r, cr, h) \<leftarrow> cr_realloc cr len2 h;
          if r \<noteq> 0 then Some (-1, cr, h)
          else do { d \<leftarrow> rd_block (cr_points cr) 0 len;
                    p \<leftarrow> wr_block (cr_points cr) 1 d;
                    p \<leftarrow> wr p 0 0;
                    p \<leftarrow> wr p (len + 1) 0xffffffff;
                    cr \<leftarrow> cr_compress (cr\<lparr>cr_points := p, cr_len := len2\<rparr>);
                    Some (0, cr, h) } }"

section \<open>Well-formed ranges and what they denote\<close>

definition cr_pts :: "'h char_range \<Rightarrow> u32 list" where
  "cr_pts cr = take (cr_len cr) (cr_points cr)"

definition cr_wf :: "'h char_range \<Rightarrow> bool" where
  "cr_wf cr \<longleftrightarrow>
     cr_size cr = length (cr_points cr) \<and> cr_len cr \<le> cr_size cr \<and> cr_size cr < 2 ^ 31"

text \<open>A code point is in the set when an odd number of the points are at most it.\<close>

primrec in_points :: "u32 list \<Rightarrow> u32 \<Rightarrow> bool" where
  "in_points [] c = False"
| "in_points (p # ps) c = ((p \<le> c) \<noteq> in_points ps c)"

fun cr_op_bool :: "cr_op_enum \<Rightarrow> bool \<Rightarrow> bool \<Rightarrow> bool" where
  "cr_op_bool CR_OP_UNION a b = (a \<or> b)"
| "cr_op_bool CR_OP_INTER a b = (a \<and> b)"
| "cr_op_bool CR_OP_XOR a b = (a \<noteq> b)"

definition strictly_sorted :: "u32 list \<Rightarrow> bool" where
  "strictly_sorted ps = sorted_wrt (<) ps"

lemma in_points_append [simp]: "in_points (xs @ ys) c = (in_points xs c \<noteq> in_points ys c)"
  by (induction xs) auto

lemma in_points_all_le: "(\<And>p. p \<in> set ps \<Longrightarrow> p \<le> c) \<Longrightarrow> in_points ps c = odd (length ps)"
  by (induction ps) auto

lemma in_points_all_gt: "(\<And>p. p \<in> set ps \<Longrightarrow> c < p) \<Longrightarrow> \<not> in_points ps c"
  by (induction ps) (auto simp: not_le [symmetric])

lemma cr_is_in_bool: "cr_is_in op a b = cr_op_bool op (odd a) (odd b)"
  by (cases op) auto

lemma length_cr_pts: "cr_wf cr \<Longrightarrow> length (cr_pts cr) = cr_len cr"
  by (simp add: cr_pts_def cr_wf_def)

lemma cr_wf_init: "cr_wf (cr_init R) \<and> cr_pts (cr_init R) = []"
  by (simp add: cr_wf_def cr_init_def cr_pts_def)

lemma cr_realloc_keeps:
  assumes "cr_wf cr" and "n < 2 ^ 31" and "cr_realloc cr n h = Some (r, cr', h')"
  shows "cr_wf cr'" and "cr_pts cr' = cr_pts cr" and "cr_len cr' = cr_len cr"
    and "cr_realloc_func cr' = cr_realloc_func cr" and "r = 0 \<or> r = -1"
    and "r = 0 \<Longrightarrow> n \<le> cr_size cr'"
  using assms
  by (auto simp: cr_realloc_def Let_def cr_wf_def cr_pts_def take_resize bind_eq_Some_conv
      split: if_splits prod.splits)

lemma cr_realloc_total: "n \<le> 2 ^ 29 \<Longrightarrow> \<exists>r cr' h'. cr_realloc cr n h = Some (r, cr', h')"
  by (auto simp: cr_realloc_def Let_def c_int_small split: prod.split)

text \<open>A failure is a refused request: with an allocator that keeps a record, \<open>-1\<close> means that a
  request made by this call was refused, and 0 that none was.\<close>

lemma cr_realloc_records:
  assumes "records (cr_realloc_func cr) seen" and "\<not> seen h"
    and "cr_realloc cr n h = Some (r, cr', h')" and "n < 2 ^ 31"
  shows "seen h' = (r \<noteq> 0)"
proof (cases "n > cr_size cr")
  case True
  define k where "k = max n (cr_size cr * 3 div 2)"
  obtain q h1 where q: "cr_realloc_func cr h (cr_ptr cr) (szmul k 4) = (q, h1)" by fastforce
  have s3: "cr_size cr * 3 < 2 ^ 31" using assms(3) True by (auto simp: cr_realloc_def bind_eq_Some_conv)
  then have "szmul k 4 \<noteq> 0" using True assms(4) by (auto simp: szmul_def k_def max_def)
  then have "seen h1 = (q = 0)" using recordsD [OF assms(1) q] assms(2) by simp
  then show ?thesis
    using assms(3) True s3 q by (auto simp: cr_realloc_def c_int_small k_def [symmetric] split: if_splits)
next
  case False
  then show ?thesis using assms by (auto simp: cr_realloc_def)
qed

lemma cr_point_room:
  assumes "cr_wf cr"
    and "(if cr_len cr \<ge> cr_size cr then do { n \<leftarrow> c_int (cr_len cr + 1); cr_realloc cr n h }
        else Some (0, cr, h)) = Some (r, c1, h1)"
  shows "cr_wf c1" and "cr_pts c1 = cr_pts cr" and "cr_len c1 = cr_len cr"
    and "cr_realloc_func c1 = cr_realloc_func cr" and "r = 0 \<or> r = -1"
    and "r = 0 \<Longrightarrow> cr_len cr < length (cr_points c1)"
proof -
  have "cr_wf c1 \<and> cr_pts c1 = cr_pts cr \<and> cr_len c1 = cr_len cr \<and>
      cr_realloc_func c1 = cr_realloc_func cr \<and> (r = 0 \<or> r = -1) \<and> (r = 0 \<longrightarrow> cr_len cr < cr_size c1)"
  proof (cases "cr_len cr \<ge> cr_size cr")
    case True
    then have c: "cr_len cr + 1 < 2 ^ 31" "cr_realloc cr (cr_len cr + 1) h = Some (r, c1, h1)"
      using assms(2) by (simp_all add: bind_eq_Some_conv)
    note k = cr_realloc_keeps [OF assms(1) c]
    show ?thesis using k(1-5) k(6) by linarith
  next
    case False
    then show ?thesis using assms by simp
  qed
  then show "cr_wf c1" and "cr_pts c1 = cr_pts cr" and "cr_len c1 = cr_len cr"
    and "cr_realloc_func c1 = cr_realloc_func cr" and "r = 0 \<or> r = -1"
    and "r = 0 \<Longrightarrow> cr_len cr < length (cr_points c1)"
    by (simp_all add: cr_wf_def)
qed

lemma cr_add_point_cases:
  assumes "cr_wf cr" and "cr_add_point cr v h = Some (r, cr', h')"
  obtains (ok) "r = 0" and "cr_wf cr'"
      and "cr_pts cr' = cr_pts cr @ [v]" and "cr_len cr' = Suc (cr_len cr)"
      and "cr_realloc_func cr' = cr_realloc_func cr"
  | (fail) "r = -1" and "cr_wf cr'"
      and "cr_pts cr' = cr_pts cr" and "cr_realloc_func cr' = cr_realloc_func cr"
proof -
  obtain r1 c1 h1 where g: "(if cr_len cr \<ge> cr_size cr then do { n \<leftarrow> c_int (cr_len cr + 1); cr_realloc cr n h }
        else Some (0, cr, h)) = Some (r1, c1, h1)"
    and rest: "(if r1 \<noteq> 0 then Some (-1, c1, h1)
         else do { p \<leftarrow> wr (cr_points c1) (cr_len c1) v;
                   Some (0, c1\<lparr>cr_points := p, cr_len := cr_len c1 + 1\<rparr>, h1) }) = Some (r, cr', h')"
    using assms(2) unfolding cr_add_point_def by (auto simp only: bind_eq_Some_conv case_prod_conv)
  note k = cr_point_room [OF assms(1) g]
  show thesis
  proof (cases "r1 = 0")
    case False
    then show ?thesis
      using k rest by (intro fail) auto
  next
    case True
    have lt: "cr_len c1 < length (cr_points c1)"
      using k True by simp
    then have "r = 0 \<and> cr' = c1\<lparr>cr_points := (cr_points c1)[cr_len c1 := v], cr_len := cr_len c1 + 1\<rparr>"
      using rest True by (simp add: wr_def)
    then show ?thesis
      by (intro ok) (use lt k in \<open>auto simp: cr_wf_def cr_pts_def take_Suc_conv_app_nth\<close>)
  qed
qed

lemma cr_add_point_total:
  assumes "cr_wf cr" and "cr_len cr < 2 ^ 29"
  shows "\<exists>r cr' h'. cr_add_point cr v h = Some (r, cr', h')"
proof -
  have ci: "c_int (cr_len cr + 1) = Some (cr_len cr + 1)" using assms(2) by (intro c_int_small) simp
  obtain r1 c1 h1 where "cr_realloc cr (cr_len cr + 1) h = Some (r1, c1, h1)"
    using cr_realloc_total [of "cr_len cr + 1" cr h] assms(2) by auto
  then obtain r c h2 where g: "(if cr_len cr \<ge> cr_size cr then do { n \<leftarrow> c_int (cr_len cr + 1); cr_realloc cr n h }
        else Some (0, cr, h)) = Some (r, c, h2)"
    unfolding ci by (cases "cr_len cr \<ge> cr_size cr") auto
  note k = cr_point_room [OF assms(1) g]
  show ?thesis
    unfolding cr_add_point_def g using k(3,5,6) by (auto simp: wr_def)
qed

lemma cr_add_point_records:
  assumes "records (cr_realloc_func cr) seen" and "\<not> seen h" and "cr_add_point cr v h = Some (r, cr', h')"
  shows "seen h' = (r \<noteq> 0)"
  using assms cr_realloc_records [OF assms(1,2)]
  by (auto simp: cr_add_point_def bind_eq_Some_conv split: if_splits)

interpretation cr_growable: growable cr_wf cr_pts "\<lambda>v. True" "\<lambda>v. [v]" cr_add_point
proof
  fix cr :: "'h char_range" and v h r cr' h'
  assume wf: "cr_wf cr"
  show "cr_add_point cr v h = Some (r, cr', h') \<Longrightarrow> cr_wf cr'"
    by (erule cr_add_point_cases [OF wf])
  show "cr_add_point cr v h = Some (0, cr', h') \<Longrightarrow> cr_pts cr' = cr_pts cr @ [v]"
    by (erule cr_add_point_cases [OF wf]) auto
  show "cr_add_point cr v h = Some (r, cr', h') \<Longrightarrow> r \<noteq> 0 \<Longrightarrow> r = -1 \<and> cr_pts cr' = cr_pts cr"
    by (erule cr_add_point_cases [OF wf]) auto
qed

section \<open>Compression\<close>

text \<open>What \<^verbatim>\<open>cr_compress\<close> computes, on lists: adjacent intervals are merged, empty ones
  dropped.\<close>

fun absorb :: "u32 \<Rightarrow> u32 list \<Rightarrow> u32 \<times> u32 list" where
  "absorb y (z # w # zs) = (if y = z then absorb w zs else (y, z # w # zs))"
| "absorb y zs = (y, zs)"

lemma absorb_length: "length (snd (absorb y zs)) \<le> length zs"
  by (induction y zs rule: absorb.induct) auto

function compress_points :: "u32 list \<Rightarrow> u32 list" where
  "compress_points (x # y # zs) =
     (if x = y then compress_points zs
      else x # fst (absorb y zs) # compress_points (snd (absorb y zs)))"
| "compress_points [] = []"
| "compress_points [x] = []"
  by pat_completeness auto
termination
  by (relation "measure length") (auto simp: absorb_length le_imp_less_Suc le_SucI)

lemma absorb_even: "even (length (snd (absorb y zs))) = even (length zs)"
  by (induction y zs rule: absorb.induct) auto

lemma compress_even: "even (length (compress_points ps))"
  by (induction ps rule: compress_points.induct) auto

lemma absorb_in_points:
  "in_points (fst (absorb y zs) # snd (absorb y zs)) c = in_points (y # zs) c"
  by (induction y zs rule: absorb.induct) auto

lemma compress_in_points: "even (length ps) \<Longrightarrow> in_points (compress_points ps) c = in_points ps c"
proof (induction ps rule: compress_points.induct)
  case (1 x y zs)
  then show ?case
    using absorb_in_points [of y zs c] by (auto simp: absorb_even)
qed auto

lemma absorb_bounds:
  assumes "sorted (y # zs)" and "absorb y zs = (e, rest)"
  shows "y \<le> e" and "sorted rest" and "set rest \<subseteq> set zs"
  using assms by (induction y zs rule: absorb.induct) (auto split: if_splits)

lemma absorb_gap:
  "sorted (y # zs) \<Longrightarrow> even (length zs) \<Longrightarrow> r \<in> set (snd (absorb y zs)) \<Longrightarrow> fst (absorb y zs) < r"
proof (induction y zs rule: absorb.induct)
  case (1 y z w zs)
  show ?case
  proof (cases "y = z")
    case True
    then show ?thesis using 1 by auto
  next
    case False
    then have "y < z" and "z \<le> r" using "1.prems" by (auto simp: less_le)
    then show ?thesis using False by simp
  qed
qed auto

lemma compress_subset: "set (compress_points ps) \<subseteq> set ps"
proof -
  have a: "fst (absorb y zs) \<in> insert y (set zs) \<and> set (snd (absorb y zs)) \<subseteq> set zs" for y zs
    by (induction y zs rule: absorb.induct) auto
  show ?thesis
  proof (induction ps rule: compress_points.induct)
    case (1 x y zs)
    then show ?case using a [of y zs] by (cases "x = y") auto
  qed auto
qed

lemma compress_strict:
  "sorted ps \<Longrightarrow> even (length ps) \<Longrightarrow> strictly_sorted (compress_points ps)"
proof (induction ps rule: compress_points.induct)
  case (1 x y zs)
  obtain e rest where a: "absorb y zs = (e, rest)" by (metis prod.exhaust)
  have s: "sorted (y # zs)" "x \<le> y" "\<forall>z\<in>set zs. x \<le> z" "even (length zs)"
    using "1.prems" by auto
  note b = absorb_bounds [OF s(1) a]
  show ?case
  proof (cases "x = y")
    case True
    then show ?thesis using 1 by auto
  next
    case False
    then have "x < e" using s(2) b(1) by simp
    moreover have "\<forall>r\<in>set (compress_points rest). e < r"
      using absorb_gap [OF s(1,4)] compress_subset [of rest] by (auto simp: a)
    moreover have "strictly_sorted (compress_points rest)"
      using "1.IH"(2) False b(2) absorb_even [of y zs] s(4) by (simp add: a)
    ultimately show ?thesis
      using False by (auto simp: a strictly_sorted_def)
  qed
qed (auto simp: strictly_sorted_def)

lemma absorb_short: "length zs \<le> 1 \<Longrightarrow> absorb y zs = (y, zs)"
  by (cases "(y, zs)" rule: absorb.cases) auto

lemma cr_compress_run_absorb:
  assumes "len \<le> length pt" and "j + 1 < len"
  shows "\<exists>j'. cr_compress_run pt len j = Some j' \<and> j' + 1 < len \<and>
     absorb (pt ! (j + 1)) (drop (j + 2) (take len pt)) = (pt ! (j' + 1), drop (j' + 2) (take len pt))"
  using assms
proof (induction pt len j rule: cr_compress_run.induct)
  case (1 pt len j)
  show ?case
  proof (cases "j + 3 < len")
    case True
    then have d: "drop (Suc (Suc j)) (take len pt) = pt ! Suc (Suc j) # pt ! Suc (Suc (Suc j)) #
        drop (Suc (Suc (Suc (Suc j)))) (take len pt)"
      using "1.prems" by (simp add: Cons_nth_drop_Suc [symmetric])
    show ?thesis
    proof (cases "pt ! (j + 1) = pt ! (j + 2)")
      case eq: True
      have "\<exists>j'. cr_compress_run pt len (j + 2) = Some j' \<and> j' + 1 < len \<and>
          absorb (pt ! (j + 2 + 1)) (drop (j + 2 + 2) (take len pt)) =
            (pt ! (j' + 1), drop (j' + 2) (take len pt))"
        using "1.prems" True eq by (intro "1.IH") (auto simp: rd_def)
      then show ?thesis
        using True "1.prems" eq by (subst cr_compress_run.simps) (simp add: rd_def d)
    next
      case False
      then show ?thesis
        using True "1.prems" by (subst cr_compress_run.simps) (simp add: rd_def d)
    qed
  next
    case False
    then have "length (drop (j + 2) (take len pt)) \<le> 1" using "1.prems" by simp
    then have "absorb (pt ! (j + 1)) (drop (j + 2) (take len pt)) = (pt ! (j + 1), drop (j + 2) (take len pt))"
      by (rule absorb_short)
    then show ?thesis
      using False "1.prems" by (subst cr_compress_run.simps) auto
  qed
qed

lemma cr_compress_loop_eq:
  assumes "len \<le> length pt" and "k \<le> i" and "i \<le> len"
  shows "\<exists>pt' k'. cr_compress_loop pt len i k = Some (pt', k') \<and> length pt' = length pt \<and> k' \<le> len \<and>
     take k' pt' = take k pt @ compress_points (drop i (take len pt))"
  using assms
proof (induction pt len i k rule: cr_compress_loop.induct)
  case (1 pt len i k)
  show ?case
  proof (cases "i + 1 < len")
    case False
    then have "compress_points (drop i (take len pt)) = []"
      using "1.prems" by (cases "drop i (take len pt)" rule: compress_points.cases)
        (auto dest: arg_cong [of _ _ length])
    then show ?thesis
      using False "1.prems" by (subst cr_compress_loop.simps) simp
  next
    case True
    have d: "drop i (take len pt) = pt ! i # pt ! (i + 1) # drop (i + 2) (take len pt)"
      using "1.prems" True by (simp add: Cons_nth_drop_Suc [symmetric])
    have r: "rd pt i = Some (pt ! i)" "rd pt (i + 1) = Some (pt ! (i + 1))"
      using True "1.prems" by (auto simp: rd_def)
    show ?thesis
    proof (cases "pt ! i = pt ! (i + 1)")
      case eq: True
      then show ?thesis
        using "1.IH"(1) [OF True r eq] "1.prems" True r d by (subst cr_compress_loop.simps) simp
    next
      case neq: False
      obtain j where j: "cr_compress_run pt len i = Some j" "j + 1 < len" "i \<le> j"
        "absorb (pt ! (i + 1)) (drop (i + 2) (take len pt)) = (pt ! (j + 1), drop (j + 2) (take len pt))"
        using cr_compress_run_absorb [OF "1.prems"(1) True] cr_compress_run_ge by blast
      define q where "q = pt[k := pt ! i, k + 1 := pt ! (j + 1)]"
      have w: "wr pt k (pt ! i) = Some (pt[k := pt ! i])"
          "rd (pt[k := pt ! i]) (j + 1) = Some (pt ! (j + 1))"
          "wr (pt[k := pt ! i]) (k + 1) (pt ! (j + 1)) = Some q"
        using "1.prems" True j by (auto simp: wr_def rd_def q_def)
      have "\<exists>pt' k'. cr_compress_loop q len (j + 2) (k + 2) = Some (pt', k') \<and> length pt' = length q \<and>
          k' \<le> len \<and> take k' pt' = take (k + 2) q @ compress_points (drop (j + 2) (take len q))"
        using "1.IH"(2) [OF True r neq j(1) w] "1.prems" j by (simp add: q_def)
      moreover have "take (k + 2) q = take k pt @ [pt ! i, pt ! (j + 1)]"
        using "1.prems" True by (simp add: q_def take_Suc_conv_app_nth)
      moreover have "drop (j + 2) (take len q) = drop (j + 2) (take len pt)"
        using "1.prems" j by (simp add: q_def take_update_swap drop_update_cancel)
      moreover have "compress_points (drop i (take len pt)) =
          pt ! i # pt ! (j + 1) # compress_points (drop (j + 2) (take len pt))"
        using neq j(4) by (simp add: d)
      ultimately show ?thesis
        using True r neq j(1) w by (subst cr_compress_loop.simps) (auto simp: q_def)
    qed
  qed
qed

lemma cr_compress_eq:
  assumes "cr_wf cr"
  shows "\<exists>cr'. cr_compress cr = Some cr' \<and> cr_wf cr' \<and> cr_pts cr' = compress_points (cr_pts cr) \<and>
     cr_realloc_func cr' = cr_realloc_func cr"
proof -
  have "cr_len cr \<le> length (cr_points cr)" using assms by (simp add: cr_wf_def)
  from cr_compress_loop_eq [OF this order_refl le0]
  show ?thesis using assms by (auto simp: cr_compress_def cr_wf_def cr_pts_def)
qed

section \<open>The merge\<close>

lemma cr_next_cases:
  assumes "al \<le> length a" and "bl \<le> length b" and "ai \<le> al" and "bi \<le> bl"
    and "sorted (take al a)" and "sorted (take bl b)"
  obtains (finished) "ai = al" and "bi = bl" and "cr_next a al b bl ai bi = Some None"
  | (step) v ai' bi' xa xb where "cr_next a al b bl ai bi = Some (Some (v, ai', bi'))"
      and "ai' \<le> al" and "bi' \<le> bl"
      and "take ai' a = take ai a @ xa" and "xa \<in> {[], [v]}"
      and "take bi' b = take bi b @ xb" and "xb \<in> {[], [v]}"
      and "v \<in> set (drop ai (take al a)) \<union> set (drop bi (take bl b))"
      and "\<forall>x \<in> set (drop ai' (take al a)) \<union> set (drop bi' (take bl b)). v \<le> x"
proof -
  have A: "drop ai (take al a) = a ! ai # drop (Suc ai) (take al a)"
      "rd a ai = Some (a ! ai)" "take (Suc ai) a = take ai a @ [a ! ai]"
      "\<forall>x \<in> set (drop (Suc ai) (take al a)). a ! ai \<le> x" if "ai < al"
  proof -
    show d: "drop ai (take al a) = a ! ai # drop (Suc ai) (take al a)"
      using that assms by (simp add: Cons_nth_drop_Suc [symmetric])
    show "rd a ai = Some (a ! ai)" "take (Suc ai) a = take ai a @ [a ! ai]"
      using that assms by (auto simp: rd_def take_Suc_conv_app_nth)
    have "sorted (drop ai (take al a))" using assms(5) by (rule sorted_wrt_drop)
    then show "\<forall>x \<in> set (drop (Suc ai) (take al a)). a ! ai \<le> x" by (simp add: d)
  qed
  have B: "drop bi (take bl b) = b ! bi # drop (Suc bi) (take bl b)"
      "rd b bi = Some (b ! bi)" "take (Suc bi) b = take bi b @ [b ! bi]"
      "\<forall>x \<in> set (drop (Suc bi) (take bl b)). b ! bi \<le> x" if "bi < bl"
  proof -
    show d: "drop bi (take bl b) = b ! bi # drop (Suc bi) (take bl b)"
      using that assms by (simp add: Cons_nth_drop_Suc [symmetric])
    show "rd b bi = Some (b ! bi)" "take (Suc bi) b = take bi b @ [b ! bi]"
      using that assms by (auto simp: rd_def take_Suc_conv_app_nth)
    have "sorted (drop bi (take bl b))" using assms(6) by (rule sorted_wrt_drop)
    then show "\<forall>x \<in> set (drop (Suc bi) (take bl b)). b ! bi \<le> x" by (simp add: d)
  qed
  consider "ai = al" "bi = bl" | "ai < al" "bi = bl" | "ai = al" "bi < bl"
    | "ai < al" "bi < bl" "a ! ai < b ! bi" | "ai < al" "bi < bl" "a ! ai = b ! bi"
    | "ai < al" "bi < bl" "b ! bi < a ! ai"
    using assms(3,4) by (metis le_neq_implies_less linorder_neqE)
  then show thesis
  proof cases
    case 1
    then show ?thesis by (intro finished) (auto simp: cr_next_def)
  next
    case 2
    then show ?thesis
      using A by (intro step [of "a ! ai" "Suc ai" bi "[a ! ai]" "[]"]) (auto simp: cr_next_def)
  next
    case 3
    then show ?thesis
      using B by (intro step [of "b ! bi" ai "Suc bi" "[]" "[b ! bi]"]) (auto simp: cr_next_def)
  next
    case 4
    then show ?thesis
      using A B by (intro step [of "a ! ai" "Suc ai" bi "[a ! ai]" "[]"]) (auto simp: cr_next_def)
  next
    case 5
    then show ?thesis
      using A B by (intro step [of "a ! ai" "Suc ai" "Suc bi" "[a ! ai]" "[a ! ai]"]) (auto simp: cr_next_def)
  next
    case 6
    then show ?thesis
      using A B by (intro step [of "b ! bi" ai "Suc bi" "[]" "[b ! bi]"]) (auto simp: cr_next_def)
  qed
qed

text \<open>The invariant of the merge: the points produced so far denote the operation applied to
  the points consumed so far, and nothing left is below anything consumed or produced.\<close>

definition merge_inv :: "cr_op_enum \<Rightarrow> u32 list \<Rightarrow> u32 list \<Rightarrow> u32 list \<Rightarrow> u32 list \<Rightarrow> u32 list \<Rightarrow> bool" where
  "merge_inv op as bs ra rb ps \<longleftrightarrow>
     (\<forall>c. in_points ps c = cr_op_bool op (in_points as c) (in_points bs c)) \<and> sorted ps \<and>
     odd (length ps) = cr_is_in op (length as) (length bs) \<and>
     (\<forall>p \<in> set as \<union> set bs \<union> set ps. \<forall>x \<in> set ra \<union> set rb. p \<le> x)"

lemma merge_inv_step:
  assumes inv: "merge_inv op as bs ra rb ps"
    and xa: "xa \<in> {[], [v]}" and xb: "xb \<in> {[], [v]}" and v: "v \<in> set ra \<union> set rb"
    and sub: "set ra' \<subseteq> set ra" "set rb' \<subseteq> set rb" and v_le: "\<forall>x \<in> set ra' \<union> set rb'. v \<le> x"
  defines "ps' \<equiv> if cr_is_in op (length (as @ xa)) (length (bs @ xb)) \<noteq> odd (length ps) then ps @ [v] else ps"
  shows "merge_inv op (as @ xa) (bs @ xb) ra' rb' ps'"
proof -
  have low: "\<forall>p \<in> set as \<union> set bs \<union> set ps. p \<le> v"
    using inv v by (auto simp: merge_inv_def)
  have parity: "odd (length ps') = cr_is_in op (length (as @ xa)) (length (bs @ xb))"
    by (auto simp: ps'_def)
  have sorted: "sorted ps'"
    using inv low by (auto simp: ps'_def merge_inv_def sorted_append)
  have "in_points ps' c = cr_op_bool op (in_points (as @ xa) c) (in_points (bs @ xb) c)" for c
  proof (cases "v \<le> c")
    case True
    have "in_points (as @ xa) c = odd (length (as @ xa))" "in_points (bs @ xb) c = odd (length (bs @ xb))"
      "in_points ps' c = odd (length ps')"
      using True low xa xb by (intro in_points_all_le; force simp: ps'_def split: if_splits)+
    then show ?thesis using parity by (simp add: cr_is_in_bool)
  next
    case False
    then have "in_points xa c = False" "in_points xb c = False" "in_points ps' c = in_points ps c"
      using xa xb by (auto simp: ps'_def)
    then show ?thesis using inv by (simp add: merge_inv_def)
  qed
  moreover have "\<forall>p \<in> set (as @ xa) \<union> set (bs @ xb) \<union> set ps'. \<forall>x \<in> set ra' \<union> set rb'. p \<le> x"
    using low xa xb v_le by (auto simp: ps'_def split: if_splits intro: order_trans)
  ultimately show ?thesis
    using sorted parity by (simp add: merge_inv_def)
qed

lemma cr_op_loop_inv:
  assumes "al \<le> length a" and "bl \<le> length b" and "ai \<le> al" and "bi \<le> bl"
    and "sorted (take al a)" and "sorted (take bl b)" and "cr_wf cr"
    and "merge_inv op (take ai a) (take bi b) (drop ai (take al a)) (drop bi (take bl b)) (cr_pts cr)"
    and "cr_len cr + (al - ai) + (bl - bi) \<le> 2 ^ 29"
  shows "\<exists>r cr' h'. cr_op_loop op a al b bl ai bi cr h = Some (r, cr', h') \<and> cr_wf cr' \<and>
     cr_realloc_func cr' = cr_realloc_func cr \<and>
     (r = 0 \<and> merge_inv op (take al a) (take bl b) [] [] (cr_pts cr') \<or> r = -1)"
  using assms
proof (induction "(al - ai) + (bl - bi)" arbitrary: ai bi cr h rule: less_induct)
  case less
  note prems = less.prems
  show ?case
  proof (rule cr_next_cases [OF prems(1-6)])
    assume "ai = al" "bi = bl" "cr_next a al b bl ai bi = Some None"
    then show ?case
      using prems by (subst cr_op_loop.simps) simp
  next
    fix v ai' bi' xa xb
    assume n: "cr_next a al b bl ai bi = Some (Some (v, ai', bi'))"
      and le: "ai' \<le> al" "bi' \<le> bl"
      and ta: "take ai' a = take ai a @ xa" "xa \<in> {[], [v]}"
      and tb: "take bi' b = take bi b @ xb" "xb \<in> {[], [v]}"
      and v: "v \<in> set (drop ai (take al a)) \<union> set (drop bi (take bl b))"
        "\<forall>x \<in> set (drop ai' (take al a)) \<union> set (drop bi' (take bl b)). v \<le> x"
    have dec: "(al - ai') + (bl - bi') < (al - ai) + (bl - bi)"
      using cr_next_decreases [OF n] .
    have lens: "length (take ai' a) = ai'" "length (take bi' b) = bi'"
      using le prems(1,2) by auto
    have "ai \<le> ai'" "bi \<le> bi'"
      using arg_cong [OF ta(1), of length] arg_cong [OF tb(1), of length] le prems(1-4) by auto
    then have sub: "set (drop ai' (take al a)) \<subseteq> set (drop ai (take al a))"
        "set (drop bi' (take bl b)) \<subseteq> set (drop bi (take bl b))"
      by (auto intro: set_drop_subset_set_drop [THEN subsetD])
    let ?add = "cr_is_in op ai' bi' \<noteq> odd (cr_len cr)"
    have inv: "merge_inv op (take ai' a) (take bi' b) (drop ai' (take al a)) (drop bi' (take bl b))
        (if ?add then cr_pts cr @ [v] else cr_pts cr)"
      using merge_inv_step [OF prems(8) ta(2) tb(2) v(1) sub v(2)] lens
      by (simp add: length_cr_pts [OF prems(7)] flip: ta(1) tb(1))
    have room: "cr_len cr < 2 ^ 29" using prems(9) dec by linarith
    have go: ?case
      if s: "(if ?add then cr_add_point cr v h else Some (0, cr, h)) = Some (0, cr1, h1)"
        and w: "cr_wf cr1" "cr_pts cr1 = (if ?add then cr_pts cr @ [v] else cr_pts cr)"
          "cr_realloc_func cr1 = cr_realloc_func cr" for cr1 h1
    proof -
      have "cr_len cr1 \<le> Suc (cr_len cr)"
        using arg_cong [OF w(2), of length] length_cr_pts [OF w(1)] length_cr_pts [OF prems(7)]
        by (auto split: if_splits)
      then have "\<exists>r cr' h'. cr_op_loop op a al b bl ai' bi' cr1 h1 = Some (r, cr', h') \<and> cr_wf cr' \<and>
          cr_realloc_func cr' = cr_realloc_func cr1 \<and>
          (r = 0 \<and> merge_inv op (take al a) (take bl b) [] [] (cr_pts cr') \<or> r = -1)"
        using inv w dec prems(9) by (intro less.hyps [OF dec prems(1,2) le prems(5,6)]) auto
      then show ?thesis
        using s w(3) by (subst cr_op_loop.simps) (auto simp: n)
    qed
    show ?case
    proof (cases ?add)
      case False
      then show ?thesis using go [of cr h] prems(7) by simp
    next
      case True
      obtain r cr1 h1 where p: "cr_add_point cr v h = Some (r, cr1, h1)"
        using cr_add_point_total [OF prems(7) room] by blast
      show ?thesis
      proof (rule cr_add_point_cases [OF prems(7) p])
        assume "r = 0" "cr_wf cr1" "cr_pts cr1 = cr_pts cr @ [v]" "cr_realloc_func cr1 = cr_realloc_func cr"
        then show ?thesis using go [of cr1 h1] True p by simp
      next
        assume "r = -1" "cr_wf cr1" "cr_realloc_func cr1 = cr_realloc_func cr"
        then show ?thesis
          using True p by (subst cr_op_loop.simps) (auto simp: n)
      qed
    qed
  qed
qed

lemma cr_op_loop_records:
  assumes "cr_wf cr" and "records (cr_realloc_func cr) seen" and "\<not> seen h"
    and "cr_op_loop op a al b bl ai bi cr h = Some (r, cr', h')"
  shows "seen h' = (r \<noteq> 0)"
  using assms
proof (induction op a al b bl ai bi cr h rule: cr_op_loop.induct)
  case (1 op a al b bl ai bi cr h)
  obtain n where n: "cr_next a al b bl ai bi = Some n"
    using "1.prems"(4) by (subst (asm) cr_op_loop.simps) (auto simp: bind_eq_Some_conv)
  show ?case
  proof (cases n)
    case None
    then show ?thesis using n "1.prems" by (subst (asm) cr_op_loop.simps) simp
  next
    case (Some t)
    obtain v ai' bi' where t: "t = (v, ai', bi')" by (cases t)
    obtain r1 cr1 h1 where s: "(if cr_is_in op ai' bi' \<noteq> odd (cr_len cr) then cr_add_point cr v h
        else Some (0, cr, h)) = Some (r1, cr1, h1)"
      and rest: "(if r1 \<noteq> 0 then Some (-1, cr1, h1) else cr_op_loop op a al b bl ai' bi' cr1 h1) = Some (r, cr', h')"
      using "1.prems"(4) n Some t by (subst (asm) cr_op_loop.simps) (auto simp: bind_eq_Some_conv)
    have seen1: "seen h1 = (r1 \<noteq> 0)"
      using s "1.prems"(3) cr_add_point_records [OF "1.prems"(2,3)] by (auto split: if_splits)
    have keep: "cr_wf cr1 \<and> cr_realloc_func cr1 = cr_realloc_func cr"
      using s "1.prems"(1) by (auto elim: cr_add_point_cases split: if_splits)
    show ?thesis
    proof (cases "r1 = 0")
      case True
      have "cr_op_loop op a al b bl ai' bi' cr1 h1 = Some (r, cr', h')" using rest True by simp
      then show ?thesis
        using "1.IH" [OF n, unfolded Some t, OF refl refl refl s refl refl] True seen1 keep "1.prems"(2)
        by simp
    next
      case False
      then show ?thesis using rest seen1 by auto
    qed
  qed
qed

section \<open>The operations denote set operations\<close>

text \<open>A range a client may hand on: an even number of strictly increasing points.\<close>

definition cr_valid :: "'h char_range \<Rightarrow> bool" where
  "cr_valid cr \<longleftrightarrow> cr_wf cr \<and> strictly_sorted (cr_pts cr) \<and> even (cr_len cr)"

definition cr_mem :: "'h char_range \<Rightarrow> u32 \<Rightarrow> bool" where
  "cr_mem cr c = in_points (cr_pts cr) c"

lemma strictly_sorted_sorted: "strictly_sorted ps \<Longrightarrow> sorted ps"
  unfolding strictly_sorted_def by (rule sorted_wrt_mono_rel [of _ "(<)"]) auto

lemma cr_valid_init: "cr_valid (cr_init R) \<and> (\<forall>c. \<not> cr_mem (cr_init R) c)"
  using cr_wf_init [of R] by (simp add: cr_valid_def cr_mem_def strictly_sorted_def cr_init_def)

lemma compress_valid:
  assumes "cr_wf cr" and "sorted (cr_pts cr)" and "even (cr_len cr)"
  shows "\<exists>cr'. cr_compress cr = Some cr' \<and> cr_valid cr' \<and> (\<forall>c. cr_mem cr' c = cr_mem cr c) \<and>
     cr_realloc_func cr' = cr_realloc_func cr"
proof -
  obtain cr' where c: "cr_compress cr = Some cr'" "cr_wf cr'" "cr_pts cr' = compress_points (cr_pts cr)"
    "cr_realloc_func cr' = cr_realloc_func cr"
    using cr_compress_eq [OF assms(1)] by blast
  have e: "even (length (cr_pts cr))" using assms by (simp add: length_cr_pts)
  have "even (cr_len cr')"
    using compress_even [of "cr_pts cr"] length_cr_pts [OF c(2)] c(3) by simp
  then show ?thesis
    using c compress_strict [OF assms(2) e] compress_in_points [OF e]
    by (auto simp: cr_valid_def cr_mem_def)
qed

lemma cr_op_valid:
  assumes "cr_wf cr" and "cr_len cr = 0"
    and "sorted (take al a)" and "al \<le> length a" and "even al"
    and "sorted (take bl b)" and "bl \<le> length b" and "even bl" and "al + bl \<le> 2 ^ 29"
  shows "\<exists>r cr' h'. cr_op cr a al b bl op h = Some (r, cr', h') \<and> cr_wf cr' \<and>
     cr_realloc_func cr' = cr_realloc_func cr \<and>
     (r = 0 \<and> cr_valid cr' \<and>
        (\<forall>c. cr_mem cr' c = cr_op_bool op (in_points (take al a) c) (in_points (take bl b) c)) \<or> r = -1)"
proof -
  have "cr_pts cr = []" using assms(2) by (simp add: cr_pts_def)
  then have "merge_inv op (take 0 a) (take 0 b) (drop 0 (take al a)) (drop 0 (take bl b)) (cr_pts cr)"
    by (cases op) (auto simp: merge_inv_def)
  then obtain r cr1 h1 where l: "cr_op_loop op a al b bl 0 0 cr h = Some (r, cr1, h1)" "cr_wf cr1"
      "cr_realloc_func cr1 = cr_realloc_func cr"
      "r = 0 \<and> merge_inv op (take al a) (take bl b) [] [] (cr_pts cr1) \<or> r = -1"
    using cr_op_loop_inv [of al a bl b 0 0 cr op h] assms by auto
  show ?thesis
  proof (cases "r = 0")
    case False
    then show ?thesis using l by (auto simp: cr_op_def)
  next
    case True
    then have inv: "merge_inv op (take al a) (take bl b) [] [] (cr_pts cr1)" using l(4) by auto
    then have "even (cr_len cr1)"
      using assms(4,5,7,8) length_cr_pts [OF l(2)] by (cases op) (auto simp: merge_inv_def)
    moreover have "sorted (cr_pts cr1)" using inv by (simp add: merge_inv_def)
    ultimately obtain cr2 where c: "cr_compress cr1 = Some cr2" "cr_valid cr2"
      "\<forall>c. cr_mem cr2 c = cr_mem cr1 c" "cr_realloc_func cr2 = cr_realloc_func cr1"
      using compress_valid [OF l(2)] by blast
    have "cr_wf cr2" using c(2) by (simp add: cr_valid_def)
    then show ?thesis
      using True l(1,3) c inv by (auto simp: cr_op_def merge_inv_def cr_mem_def)
  qed
qed

text \<open>The other direction of the return code, as for \<open>cr_realloc\<close>.\<close>

lemma cr_op_records:
  assumes "cr_wf cr" and "records (cr_realloc_func cr) seen" and "\<not> seen h"
    and "cr_op cr a al b bl op h = Some (r, cr', h')"
  shows "seen h' = (r \<noteq> 0)"
  using assms cr_op_loop_records [OF assms(1-3)]
  by (auto simp: cr_op_def bind_eq_Some_conv split: if_splits)

lemma cr_free_records: "records (cr_realloc_func cr) seen \<Longrightarrow> seen (cr_free cr h) = seen h"
  using recordsD [of "cr_realloc_func cr" seen h "cr_ptr cr" 0 "fst (cr_realloc_func cr h (cr_ptr cr) 0)"
      "cr_free cr h"] by (simp add: cr_free_def)

lemma cr_union1_records:
  assumes "records (cr_realloc_func cr) seen" and "\<not> seen h"
    and "cr_union1 cr b bl h = Some (r, cr', h')"
  shows "seen h' = (r \<noteq> 0)"
proof -
  let ?e = "cr\<lparr>cr_len := 0, cr_size := 0, cr_ptr := 0, cr_points := []\<rparr>"
  have "cr_wf ?e" "records (cr_realloc_func ?e) seen" using assms(1) by (simp_all add: cr_wf_def)
  from cr_op_records [OF this assms(2)] show ?thesis
    using assms(3) cr_free_records [OF assms(1)] by (auto simp: cr_union1_def bind_eq_Some_conv)
qed

lemma cr_invert_records:
  assumes "records (cr_realloc_func cr) seen" and "\<not> seen h" and "cr_invert cr h = Some (r, cr', h')"
  shows "seen h' = (r \<noteq> 0)"
  using assms cr_realloc_records [OF assms(1,2)]
  by (auto simp: cr_invert_def Let_def bind_eq_Some_conv split: if_splits)

lemma cr_union1_valid:
  assumes "cr_valid cr" and "sorted (take bl b)" and "bl \<le> length b" and "even bl"
    and "cr_len cr + bl \<le> 2 ^ 29"
  shows "\<exists>r cr' h'. cr_union1 cr b bl h = Some (r, cr', h') \<and> cr_wf cr' \<and>
     cr_realloc_func cr' = cr_realloc_func cr \<and>
     (r = 0 \<and> cr_valid cr' \<and> (\<forall>c. cr_mem cr' c = (cr_mem cr c \<or> in_points (take bl b) c)) \<or> r = -1)"
proof -
  let ?e = "cr\<lparr>cr_len := 0, cr_size := 0, cr_ptr := 0, cr_points := []\<rparr>"
  have "cr_wf ?e" "cr_len ?e = 0" using assms(1) by (auto simp: cr_valid_def cr_wf_def)
  moreover have "sorted (take (cr_len cr) (cr_points cr))" "cr_len cr \<le> length (cr_points cr)" "even (cr_len cr)"
    using assms(1) strictly_sorted_sorted by (auto simp: cr_valid_def cr_pts_def cr_wf_def)
  ultimately show ?thesis
    using cr_op_valid [of ?e "cr_len cr" "cr_points cr" bl b CR_OP_UNION h] assms
    by (auto simp: cr_union1_def cr_mem_def cr_pts_def)
qed

lemma unat_succ: "c < 0xffffffff \<Longrightarrow> unat (c + 1 :: u32) = Suc (unat c)"
  by (simp add: word_less_nat_alt unat_word_ariths)

lemma unat_max: "unat (x :: u32) \<le> 4294967295"
  using unsigned_less [of x, where 'a = nat] by simp

lemma in_interval:
  "c1 \<le> c2 \<Longrightarrow> c2 < 0xffffffff \<Longrightarrow> in_points [c1, c2 + 1] (c :: u32) = (c1 \<le> c \<and> c \<le> c2)"
  by (auto simp: word_le_nat_alt unat_succ)

lemma interval_sorted: "c1 \<le> c2 \<Longrightarrow> c2 < 0xffffffff \<Longrightarrow> sorted [c1, c2 + 1 :: u32]"
  by (auto simp: word_le_nat_alt unat_succ)

lemma cr_union_interval_valid:
  assumes "cr_valid cr" and "c1 \<le> c2" and "c2 < 0xffffffff" and "cr_len cr + 2 \<le> 2 ^ 29"
  shows "\<exists>r cr' h'. cr_union_interval cr c1 c2 h = Some (r, cr', h') \<and> cr_wf cr' \<and>
     cr_realloc_func cr' = cr_realloc_func cr \<and>
     (r = 0 \<and> cr_valid cr' \<and> (\<forall>c. cr_mem cr' c = (cr_mem cr c \<or> (c1 \<le> c \<and> c \<le> c2))) \<or> r = -1)"
  using cr_union1_valid [OF assms(1), of 2 "[c1, c2 + 1]" h] interval_sorted [OF assms(2,3)] assms(4)
  unfolding cr_union_interval_def by (simp add: in_interval [OF assms(2,3)] del: in_points.simps)

lemma cr_invert_valid:
  assumes "cr_valid cr" and "cr_len cr + 2 \<le> 2 ^ 29"
  shows "\<exists>r cr' h'. cr_invert cr h = Some (r, cr', h') \<and> cr_wf cr' \<and>
     cr_realloc_func cr' = cr_realloc_func cr \<and>
     (r = 0 \<and> cr_valid cr' \<and> (\<forall>c<0xffffffff. cr_mem cr' c = (\<not> cr_mem cr c)) \<or> r = -1)"
proof -
  have wf: "cr_wf cr" "sorted (cr_pts cr)" "even (cr_len cr)"
    using assms(1) strictly_sorted_sorted by (auto simp: cr_valid_def)
  let ?len = "cr_len cr"
  obtain r c1 h1 where g: "cr_realloc cr (?len + 2) h = Some (r, c1, h1)"
    using cr_realloc_total [OF assms(2), of cr h] by auto
  have n: "?len + 2 < 2 ^ 31" using assms(2) by simp
  have ci: "c_int (?len + 2) = Some (?len + 2)" using n by (rule c_int_small)
  note k = cr_realloc_keeps [OF wf(1) n g]
  show ?thesis
  proof (cases "r = 0")
    case False
    then show ?thesis using k by (auto simp: cr_invert_def ci g simp del: One_nat_def add_2_eq_Suc')
  next
    case True
    then have len: "?len + 2 \<le> length (cr_points c1)" using k(1,6) by (simp add: cr_wf_def)
    define d where "d = cr_pts cr"
    have ld: "length d = ?len" using length_cr_pts [OF wf(1)] by (simp add: d_def)
    define p where "p = 0 # d @ 0xffffffff # drop (?len + 2) (cr_points c1)"
    have d: "rd_block (cr_points c1) 0 ?len = Some d"
      using len k(2,3) by (simp add: rd_block_def d_def cr_pts_def)
    obtain x ys where pts: "cr_points c1 = x # ys"
      using len by (cases "cr_points c1") auto
    define rest where "rest = drop (Suc ?len) (cr_points c1)"
    have "take 1 (cr_points c1) = [x]" by (simp add: pts)
    then have w: "wr_block (cr_points c1) 1 d = Some (x # d @ rest)"
      using len ld by (simp add: wr_block_def rest_def)
    have w': "wr (x # d @ rest) 0 0 = Some (0 # d @ rest)"
      by (simp add: wr_def)
    have "rest = cr_points c1 ! Suc ?len # drop (?len + 2) (cr_points c1)"
      using len by (simp add: rest_def Cons_nth_drop_Suc)
    then have w'': "wr (0 # d @ rest) (?len + 1) 0xffffffff = Some p"
      using ld by (simp add: wr_def p_def list_update_append)
    let ?c2 = "c1\<lparr>cr_points := p, cr_len := ?len + 2\<rparr>"
    have step: "cr_invert cr h = do { cr \<leftarrow> cr_compress ?c2; Some (0, cr, h1) }"
      unfolding cr_invert_def Let_def ci using True
      by (simp add: g d w w' w'' k(3) del: One_nat_def add_2_eq_Suc')
    have pts2: "cr_pts ?c2 = 0 # d @ [0xffffffff]"
      using ld by (simp add: cr_pts_def p_def)
    have lp: "length p = length (cr_points c1)" using len ld by (simp add: p_def)
    have w2: "cr_wf ?c2" using k(1) len lp by (simp add: cr_wf_def)
    have s2: "sorted (cr_pts ?c2)"
      unfolding pts2 using wf(2) by (auto simp: d_def sorted_append word_le_nat_alt unat_max)
    obtain cr' where c: "cr_compress ?c2 = Some cr'" "cr_valid cr'" "\<forall>c. cr_mem cr' c = cr_mem ?c2 c"
        "cr_realloc_func cr' = cr_realloc_func ?c2"
      using compress_valid [OF w2 s2] wf(3) by auto
    have "cr_mem cr' c = (\<not> cr_mem cr c)" if "c < 0xffffffff" for c
      using that c(3) unfolding cr_mem_def pts2 by (simp add: d_def not_le [symmetric])
    then show ?thesis
      using c k(4) by (auto simp: step cr_valid_def)
  qed
qed

end
