(* ===== verification/LinkedList.thy ===== *)
theory LinkedList
  imports CPrelude
begin

text \<open>
  The intrusive circular doubly linked lists of \<^verbatim>\<open>list.h\<close>, on a store that maps the addresses
  of allocated \<^verbatim>\<open>struct list_head\<close> objects to their fields.  The operations write one pointer
  field at a time in the order of the code, so the aliasing between \<open>prev\<close>, \<open>next\<close> and \<open>head\<close>
  (all equal in an empty list) is the code's.  \<open>None\<close> is a dereference of an address that holds
  no list node (in particular of \<^verbatim>\<open>NULL\<close>).
\<close>

record list_head =
  lh_prev :: nat
  lh_next :: nat

type_synonym list_store = "nat \<rightharpoonup> list_head"

definition get_next :: "list_store \<Rightarrow> nat \<Rightarrow> nat option" where
  "get_next h p = map_option lh_next (h p)"

definition get_prev :: "list_store \<Rightarrow> nat \<Rightarrow> nat option" where
  "get_prev h p = map_option lh_prev (h p)"

definition set_next :: "list_store \<Rightarrow> nat \<Rightarrow> nat \<Rightarrow> list_store option" where
  "set_next h p v = (case h p of None \<Rightarrow> None | Some n \<Rightarrow> Some (h(p \<mapsto> n\<lparr>lh_next := v\<rparr>)))"

definition set_prev :: "list_store \<Rightarrow> nat \<Rightarrow> nat \<Rightarrow> list_store option" where
  "set_prev h p v = (case h p of None \<Rightarrow> None | Some n \<Rightarrow> Some (h(p \<mapsto> n\<lparr>lh_prev := v\<rparr>)))"

section \<open>Operations\<close>

definition init_list_head :: "list_store \<Rightarrow> nat \<Rightarrow> list_store option" where
  "init_list_head h head = do { h \<leftarrow> set_prev h head head; set_next h head head }"

definition list_add_between :: "list_store \<Rightarrow> nat \<Rightarrow> nat \<Rightarrow> nat \<Rightarrow> list_store option" where
  "list_add_between h el prv nxt =
     do { h \<leftarrow> set_next h prv el;
          h \<leftarrow> set_prev h el prv;
          h \<leftarrow> set_next h el nxt;
          set_prev h nxt el }"

definition list_add :: "list_store \<Rightarrow> nat \<Rightarrow> nat \<Rightarrow> list_store option" where
  "list_add h el head = do { nxt \<leftarrow> get_next h head; list_add_between h el head nxt }"

definition list_add_tail :: "list_store \<Rightarrow> nat \<Rightarrow> nat \<Rightarrow> list_store option" where
  "list_add_tail h el head = do { prv \<leftarrow> get_prev h head; list_add_between h el prv head }"

definition list_del :: "list_store \<Rightarrow> nat \<Rightarrow> list_store option" where
  "list_del h el =
     do { prv \<leftarrow> get_prev h el;
          nxt \<leftarrow> get_next h el;
          h \<leftarrow> set_next h prv nxt;
          h \<leftarrow> set_prev h nxt prv;
          h \<leftarrow> set_prev h el 0;
          set_next h el 0 }"

definition list_empty :: "list_store \<Rightarrow> nat \<Rightarrow> bool option" where
  "list_empty h el = do { n \<leftarrow> get_next h el; Some (n = el) }"

text \<open>The loop macros, with a body that may change the store.  \<open>list_for_each\<close> reads the
  successor after the body has run, \<open>list_for_each_safe\<close> before.\<close>

partial_function (option) list_for_each_loop ::
  "(nat \<Rightarrow> 's \<Rightarrow> list_store \<Rightarrow> ('s \<times> list_store) option) \<Rightarrow> nat \<Rightarrow> nat \<Rightarrow> 's \<Rightarrow> list_store
     \<Rightarrow> ('s \<times> list_store) option" where
  "list_for_each_loop body el head s h =
     (if el = head then Some (s, h)
      else do { (s, h) \<leftarrow> body el s h;
                el \<leftarrow> get_next h el;
                list_for_each_loop body el head s h })"

definition list_for_each ::
  "(nat \<Rightarrow> 's \<Rightarrow> list_store \<Rightarrow> ('s \<times> list_store) option) \<Rightarrow> nat \<Rightarrow> 's \<Rightarrow> list_store
     \<Rightarrow> ('s \<times> list_store) option" where
  "list_for_each body head s h =
     do { el \<leftarrow> get_next h head; list_for_each_loop body el head s h }"

partial_function (option) list_for_each_safe_loop ::
  "(nat \<Rightarrow> 's \<Rightarrow> list_store \<Rightarrow> ('s \<times> list_store) option) \<Rightarrow> nat \<Rightarrow> nat \<Rightarrow> nat \<Rightarrow> 's \<Rightarrow> list_store
     \<Rightarrow> ('s \<times> list_store) option" where
  "list_for_each_safe_loop body el el1 head s h =
     (if el = head then Some (s, h)
      else do { (s, h) \<leftarrow> body el s h;
                el2 \<leftarrow> get_next h el1;
                list_for_each_safe_loop body el1 el2 head s h })"

definition list_for_each_safe ::
  "(nat \<Rightarrow> 's \<Rightarrow> list_store \<Rightarrow> ('s \<times> list_store) option) \<Rightarrow> nat \<Rightarrow> 's \<Rightarrow> list_store
     \<Rightarrow> ('s \<times> list_store) option" where
  "list_for_each_safe body head s h =
     do { el \<leftarrow> get_next h head;
          el1 \<leftarrow> get_next h el;
          list_for_each_safe_loop body el el1 head s h }"

partial_function (option) list_for_each_prev_loop ::
  "(nat \<Rightarrow> 's \<Rightarrow> list_store \<Rightarrow> ('s \<times> list_store) option) \<Rightarrow> nat \<Rightarrow> nat \<Rightarrow> 's \<Rightarrow> list_store
     \<Rightarrow> ('s \<times> list_store) option" where
  "list_for_each_prev_loop body el head s h =
     (if el = head then Some (s, h)
      else do { (s, h) \<leftarrow> body el s h;
                el \<leftarrow> get_prev h el;
                list_for_each_prev_loop body el head s h })"

definition list_for_each_prev ::
  "(nat \<Rightarrow> 's \<Rightarrow> list_store \<Rightarrow> ('s \<times> list_store) option) \<Rightarrow> nat \<Rightarrow> 's \<Rightarrow> list_store
     \<Rightarrow> ('s \<times> list_store) option" where
  "list_for_each_prev body head s h =
     do { el \<leftarrow> get_prev h head; list_for_each_prev_loop body el head s h }"

partial_function (option) list_for_each_prev_safe_loop ::
  "(nat \<Rightarrow> 's \<Rightarrow> list_store \<Rightarrow> ('s \<times> list_store) option) \<Rightarrow> nat \<Rightarrow> nat \<Rightarrow> nat \<Rightarrow> 's \<Rightarrow> list_store
     \<Rightarrow> ('s \<times> list_store) option" where
  "list_for_each_prev_safe_loop body el el1 head s h =
     (if el = head then Some (s, h)
      else do { (s, h) \<leftarrow> body el s h;
                el2 \<leftarrow> get_prev h el1;
                list_for_each_prev_safe_loop body el1 el2 head s h })"

definition list_for_each_prev_safe ::
  "(nat \<Rightarrow> 's \<Rightarrow> list_store \<Rightarrow> ('s \<times> list_store) option) \<Rightarrow> nat \<Rightarrow> 's \<Rightarrow> list_store
     \<Rightarrow> ('s \<times> list_store) option" where
  "list_for_each_prev_safe body head s h =
     do { el \<leftarrow> get_prev h head;
          el1 \<leftarrow> get_prev h el;
          list_for_each_prev_safe_loop body el el1 head s h }"

section \<open>Which sequence a list holds\<close>

primrec chain :: "list_store \<Rightarrow> nat \<Rightarrow> nat list \<Rightarrow> nat \<Rightarrow> bool" where
  "chain h p [] q = (get_next h p = Some q \<and> get_prev h q = Some p)"
| "chain h p (x # xs) q = (get_next h p = Some x \<and> get_prev h x = Some p \<and> chain h x xs q)"

definition is_list :: "list_store \<Rightarrow> nat \<Rightarrow> nat list \<Rightarrow> bool" where
  "is_list h head xs \<longleftrightarrow> distinct (head # xs) \<and> chain h head xs head"

lemma get_set [simp]:
  "set_next h p v = Some h' \<Longrightarrow> get_next h' q = (if q = p then Some v else get_next h q)"
  "set_next h p v = Some h' \<Longrightarrow> get_prev h' q = get_prev h q"
  "set_prev h p v = Some h' \<Longrightarrow> get_prev h' q = (if q = p then Some v else get_prev h q)"
  "set_prev h p v = Some h' \<Longrightarrow> get_next h' q = get_next h q"
  by (auto simp: set_next_def set_prev_def get_next_def get_prev_def split: option.splits)

lemma set_defined:
  "set_next h p v = None \<longleftrightarrow> get_next h p = None"
  "set_prev h p v = None \<longleftrightarrow> get_prev h p = None"
  "get_prev h p = None \<longleftrightarrow> get_next h p = None"
  by (auto simp: set_next_def set_prev_def get_next_def get_prev_def split: option.splits)

lemma chain_append: "chain h p (xs @ y # ys) q \<longleftrightarrow> chain h p xs y \<and> chain h y ys q"
  by (induction xs arbitrary: p) auto

lemma chain_cong:
  assumes "\<And>a. a \<in> set (p # xs) \<Longrightarrow> get_next h' a = get_next h a"
    and "\<And>b. b \<in> set (xs @ [q]) \<Longrightarrow> get_prev h' b = get_prev h b"
  shows "chain h' p xs q = chain h p xs q"
  using assms by (induction xs arbitrary: p) auto

lemma chain_ends: "chain h p xs q \<Longrightarrow> get_next h p = Some (hd (xs @ [q])) \<and> get_prev h q = Some (last (p # xs))"
  by (induction xs arbitrary: p) auto

section \<open>Insertion and removal\<close>

lemma chain_defined: "chain h p xs q \<Longrightarrow> x \<in> set (p # xs @ [q]) \<Longrightarrow> h x \<noteq> None"
  by (induction xs arbitrary: p) (auto simp: get_next_def get_prev_def)

lemma set_next_Some: "h p \<noteq> None \<Longrightarrow> \<exists>h'. set_next h p v = Some h' \<and> dom h' = dom h"
  by (auto simp: set_next_def)

lemma set_prev_Some: "h p \<noteq> None \<Longrightarrow> \<exists>h'. set_prev h p v = Some h' \<and> dom h' = dom h"
  by (auto simp: set_prev_def)

lemma list_add_between_effect:
  assumes "h el \<noteq> None" "h prv \<noteq> None" "h nxt \<noteq> None" "el \<noteq> prv" "el \<noteq> nxt"
  shows "\<exists>h'. list_add_between h el prv nxt = Some h' \<and> dom h' = dom h \<and>
     (\<forall>q. get_next h' q = (if q = el then Some nxt else if q = prv then Some el else get_next h q)) \<and>
     (\<forall>q. get_prev h' q = (if q = nxt then Some el else if q = el then Some prv else get_prev h q))"
proof -
  obtain h1 where 1: "set_next h prv el = Some h1" "dom h1 = dom h"
    using assms(2) set_next_Some by blast
  obtain h2 where 2: "set_prev h1 el prv = Some h2" "dom h2 = dom h"
    using assms(1) 1 set_prev_Some by (metis domIff)
  obtain h3 where 3: "set_next h2 el nxt = Some h3" "dom h3 = dom h"
    using assms(1) 2 set_next_Some by (metis domIff)
  obtain h4 where 4: "set_prev h3 nxt el = Some h4" "dom h4 = dom h"
    using assms(3) 3 set_prev_Some by (metis domIff)
  show ?thesis
    using 1 2 3 4 assms(4,5) by (auto simp: list_add_between_def)
qed

lemma list_del_effect:
  assumes p: "get_prev h el = Some prv" and n: "get_next h el = Some nxt"
    and "h prv \<noteq> None" "h nxt \<noteq> None" "el \<noteq> prv" "el \<noteq> nxt"
  shows "\<exists>h'. list_del h el = Some h' \<and> dom h' = dom h \<and>
     (\<forall>q. get_next h' q = (if q = el then Some 0 else if q = prv then Some nxt else get_next h q)) \<and>
     (\<forall>q. get_prev h' q = (if q = el then Some 0 else if q = nxt then Some prv else get_prev h q))"
proof -
  have el: "h el \<noteq> None" using p by (auto simp: get_prev_def)
  obtain h1 where 1: "set_next h prv nxt = Some h1" "dom h1 = dom h"
    using assms(3) set_next_Some by blast
  obtain h2 where 2: "set_prev h1 nxt prv = Some h2" "dom h2 = dom h"
    using assms(4) 1 set_prev_Some by (metis domIff)
  obtain h3 where 3: "set_prev h2 el 0 = Some h3" "dom h3 = dom h"
    using el 2 set_prev_Some by (metis domIff)
  obtain h4 where 4: "set_next h3 el 0 = Some h4" "dom h4 = dom h"
    using el 3 set_next_Some by (metis domIff)
  show ?thesis
    using 1 2 3 4 assms by (auto simp: list_del_def)
qed

lemma chain_insert:
  assumes "chain h p (xs @ ys) q" "distinct (p # xs @ ys)" "distinct (xs @ ys @ [q])"
    and "el \<notin> set (p # q # xs @ ys)"
    and "\<And>a. get_next h' a = (if a = el then Some (hd (ys @ [q])) else if a = last (p # xs) then Some el
                         else get_next h a)"
    and "\<And>a. get_prev h' a = (if a = hd (ys @ [q]) then Some el else if a = el then Some (last (p # xs))
                         else get_prev h a)"
  shows "chain h' p (xs @ el # ys) q"
  using assms
proof (induction xs arbitrary: p)
  case Nil
  show ?case
  proof (cases ys)
    case Nil
    then show ?thesis using Nil.prems by simp
  next
    case (Cons y ys')
    then have "chain h' y ys' q = chain h y ys' q"
      using Nil.prems by (intro chain_cong) auto
    then show ?thesis using Nil.prems Cons by auto
  qed
next
  case (Cons a xs)
  have "chain h' a (xs @ el # ys) q"
    using Cons.prems by (intro Cons.IH) auto
  moreover have "get_next h' p = get_next h p" using Cons.prems by auto
  moreover have "get_prev h' a = get_prev h a" using Cons.prems by (cases ys) auto
  ultimately show ?case using Cons.prems by simp
qed

lemma chain_delete:
  assumes "chain h p (xs @ el # ys) q" "distinct (p # xs @ el # ys)" "distinct (xs @ el # ys @ [q])"
    and "\<And>a. get_next h' a = (if a = el then Some 0 else if a = last (p # xs) then Some (hd (ys @ [q])) else get_next h a)"
    and "\<And>a. get_prev h' a = (if a = el then Some 0 else if a = hd (ys @ [q]) then Some (last (p # xs)) else get_prev h a)"
  shows "chain h' p (xs @ ys) q"
  using assms
proof (induction xs arbitrary: p)
  case Nil
  show ?case
  proof (cases ys)
    case Nil
    then show ?thesis using Nil.prems by simp
  next
    case (Cons y ys')
    then have "chain h' y ys' q = chain h y ys' q"
      using Nil.prems by (intro chain_cong) auto
    then show ?thesis using Nil.prems Cons by auto
  qed
next
  case (Cons a xs)
  have "chain h' a (xs @ ys) q"
    using Cons.prems by (intro Cons.IH) auto
  moreover have "get_next h' p = get_next h p" using Cons.prems by auto
  moreover have "get_prev h' a = get_prev h a" using Cons.prems by (cases ys) auto
  ultimately show ?case using Cons.prems by simp
qed

text \<open>What an operation on one list leaves alone: every node that is neither in the list nor
  its head.\<close>

definition same_outside :: "nat set \<Rightarrow> list_store \<Rightarrow> list_store \<Rightarrow> bool" where
  "same_outside A h h' \<longleftrightarrow>
     dom h' = dom h \<and> (\<forall>q. q \<notin> A \<longrightarrow> get_next h' q = get_next h q \<and> get_prev h' q = get_prev h q)"

lemma is_list_frame:
  assumes "is_list h head xs" "same_outside A h h'" "A \<inter> set (head # xs) = {}"
  shows "is_list h' head xs"
proof -
  have "chain h' head xs head = chain h head xs head"
    using assms(2,3) by (intro chain_cong) (auto simp: same_outside_def)
  then show ?thesis using assms(1) by (simp add: is_list_def)
qed

lemma init_list_head_is_list:
  assumes "h head \<noteq> None"
  shows "\<exists>h'. init_list_head h head = Some h' \<and> is_list h' head [] \<and> same_outside {head} h h'"
  using assms by (auto simp: init_list_head_def set_prev_def set_next_def is_list_def get_next_def
      get_prev_def same_outside_def)

lemma is_list_insert:
  assumes l: "is_list h head (xs @ ys)" and "h el \<noteq> None" and el: "el \<notin> set (head # xs @ ys)"
  shows "\<exists>h'. list_add_between h el (last (head # xs)) (hd (ys @ [head])) = Some h' \<and>
     is_list h' head (xs @ el # ys) \<and> same_outside (set (head # el # xs @ ys)) h h'"
proof -
  have ch: "chain h head (xs @ ys) head" and d: "distinct (head # xs @ ys)"
    using l by (auto simp: is_list_def)
  have mem: "last (head # xs) \<in> set (head # xs @ ys)" "hd (ys @ [head]) \<in> set (head # xs @ ys)"
    by (auto simp: hd_append)
  have "\<exists>h'. list_add_between h el (last (head # xs)) (hd (ys @ [head])) = Some h' \<and> dom h' = dom h \<and>
     (\<forall>q. get_next h' q = (if q = el then Some (hd (ys @ [head]))
            else if q = last (head # xs) then Some el else get_next h q)) \<and>
     (\<forall>q. get_prev h' q = (if q = hd (ys @ [head]) then Some el
            else if q = el then Some (last (head # xs)) else get_prev h q))"
    using chain_defined [OF ch] mem el assms(2)
    by (intro list_add_between_effect) (metis Un_iff set_append set_ConsD list.set_intros)+
  then obtain h' where h': "list_add_between h el (last (head # xs)) (hd (ys @ [head])) = Some h'"
      "dom h' = dom h"
      "\<And>q. get_next h' q = (if q = el then Some (hd (ys @ [head]))
            else if q = last (head # xs) then Some el else get_next h q)"
      "\<And>q. get_prev h' q = (if q = hd (ys @ [head]) then Some el
            else if q = el then Some (last (head # xs)) else get_prev h q)"
    by blast
  have "chain h' head (xs @ el # ys) head"
    using d el by (intro chain_insert [OF ch]) (auto simp: h'(3,4))
  moreover have "same_outside (set (head # el # xs @ ys)) h h'"
    using mem by (auto simp: same_outside_def h' split: if_splits)
  ultimately show ?thesis using h'(1) d el by (auto simp: is_list_def)
qed

lemma list_add_is_list:
  assumes "is_list h head xs" "h el \<noteq> None" "el \<notin> set (head # xs)"
  shows "\<exists>h'. list_add h el head = Some h' \<and> is_list h' head (el # xs) \<and>
     same_outside (set (head # el # xs)) h h'"
  using is_list_insert [of h head "[]" xs el] assms chain_ends [of h head xs head]
  by (auto simp: list_add_def is_list_def)

lemma list_add_tail_is_list:
  assumes "is_list h head xs" "h el \<noteq> None" "el \<notin> set (head # xs)"
  shows "\<exists>h'. list_add_tail h el head = Some h' \<and> is_list h' head (xs @ [el]) \<and>
     same_outside (set (head # el # xs)) h h'"
  using is_list_insert [of h head xs "[]" el] assms chain_ends [of h head xs head]
  by (auto simp: list_add_tail_def is_list_def)

lemma list_del_is_list:
  assumes l: "is_list h head (xs @ el # ys)"
  shows "\<exists>h'. list_del h el = Some h' \<and> is_list h' head (xs @ ys) \<and>
     same_outside (set (head # el # xs @ ys)) h h' \<and> get_next h' el = Some 0 \<and> get_prev h' el = Some 0"
proof -
  have ch: "chain h head (xs @ el # ys) head" and d: "distinct (head # xs @ el # ys)"
    using l by (auto simp: is_list_def)
  have p: "get_prev h el = Some (last (head # xs))" and n: "get_next h el = Some (hd (ys @ [head]))"
    using ch chain_ends by (fastforce simp: chain_append)+
  have mem: "last (head # xs) \<in> set (head # xs @ ys)" "hd (ys @ [head]) \<in> set (head # xs @ ys)"
    by (auto simp: hd_append)
  have "\<exists>h'. list_del h el = Some h' \<and> dom h' = dom h \<and>
     (\<forall>q. get_next h' q = (if q = el then Some 0
            else if q = last (head # xs) then Some (hd (ys @ [head])) else get_next h q)) \<and>
     (\<forall>q. get_prev h' q = (if q = el then Some 0
            else if q = hd (ys @ [head]) then Some (last (head # xs)) else get_prev h q))"
    using chain_defined [OF ch] mem d
    by (intro list_del_effect [OF p n]) (auto split: if_splits)
  then obtain h' where h': "list_del h el = Some h'" "dom h' = dom h"
      "\<And>q. get_next h' q = (if q = el then Some 0
            else if q = last (head # xs) then Some (hd (ys @ [head])) else get_next h q)"
      "\<And>q. get_prev h' q = (if q = el then Some 0
            else if q = hd (ys @ [head]) then Some (last (head # xs)) else get_prev h q)"
    by blast
  have "chain h' head (xs @ ys) head"
    using d by (intro chain_delete [OF ch]) (auto simp: h'(3,4))
  moreover have "same_outside (set (head # el # xs @ ys)) h h'"
    using mem by (auto simp: same_outside_def h' split: if_splits)
  ultimately show ?thesis using h' d by (auto simp: is_list_def)
qed

lemma list_empty_is_list: "is_list h head xs \<Longrightarrow> list_empty h head = Some (xs = [])"
  by (cases xs) (auto simp: list_empty_def is_list_def)

section \<open>Iteration\<close>

lemma chain_next: "chain h p (xs @ y # ys) q \<Longrightarrow> get_next h y = Some (hd (ys @ [q]))"
  using chain_ends by (fastforce simp: chain_append)

lemma chain_prev: "chain h p (xs @ y # ys) q \<Longrightarrow> get_prev h y = Some (last (p # xs))"
  using chain_ends by (fastforce simp: chain_append)

lemma list_for_each_loop_fold:
  assumes "is_list h head (ks @ xs)" and body: "\<And>x s. x \<in> set xs \<Longrightarrow> body x s h = Some (f x s, h)"
  shows "list_for_each_loop body (hd (xs @ [head])) head s h = Some (fold f xs s, h)"
  using assms
proof (induction xs arbitrary: ks s)
  case Nil
  then show ?case by (simp add: list_for_each_loop.simps)
next
  case (Cons x xs)
  have "get_next h x = Some (hd (xs @ [head]))" and "x \<noteq> head"
    using Cons.prems(1) chain_next by (auto simp: is_list_def)
  then show ?case
    using Cons.IH [of "ks @ [x]" "f x s"] Cons.prems
    by (simp add: list_for_each_loop.simps [of body x])
qed

lemma list_for_each_prev_loop_fold:
  assumes "is_list h head (xs @ ks)" and body: "\<And>x s. x \<in> set xs \<Longrightarrow> body x s h = Some (f x s, h)"
  shows "list_for_each_prev_loop body (last (head # xs)) head s h = Some (fold f (rev xs) s, h)"
  using assms
proof (induction xs arbitrary: ks s rule: rev_induct)
  case Nil
  then show ?case by (simp add: list_for_each_prev_loop.simps)
next
  case (snoc x xs)
  have "get_prev h x = Some (last (head # xs))" and "x \<noteq> head"
    using snoc.prems(1) chain_prev [of h head xs x ks] by (auto simp: is_list_def)
  then show ?case
    using snoc.IH [of "x # ks" "f x s"] snoc.prems
    by (simp add: list_for_each_prev_loop.simps [of body x])
qed

lemma list_for_each_fold:
  assumes "is_list h head xs" and "\<And>x s. x \<in> set xs \<Longrightarrow> body x s h = Some (f x s, h)"
  shows "list_for_each body head s h = Some (fold f xs s, h)"
  using list_for_each_loop_fold [of h head "[]" xs body f s] assms chain_ends [of h head xs head]
  by (simp add: list_for_each_def is_list_def)

lemma list_for_each_prev_fold:
  assumes "is_list h head xs" and "\<And>x s. x \<in> set xs \<Longrightarrow> body x s h = Some (f x s, h)"
  shows "list_for_each_prev body head s h = Some (fold f (rev xs) s, h)"
  using list_for_each_prev_loop_fold [of h head xs "[]" body f s] assms chain_ends [of h head xs head]
  by (simp add: list_for_each_prev_def is_list_def)

text \<open>The safe loops allow the body to remove the element it is given.  \<open>removes_at\<close> is the body
  of such a loop: it computes \<open>f el s\<close> and unlinks the element when \<open>P el\<close> holds.\<close>

definition removes_at ::
  "(nat \<Rightarrow> bool) \<Rightarrow> (nat \<Rightarrow> 's \<Rightarrow> 's) \<Rightarrow> nat \<Rightarrow> 's \<Rightarrow> list_store \<Rightarrow> ('s \<times> list_store) option" where
  "removes_at P f el s h =
     (if P el then do { h \<leftarrow> list_del h el; Some (f el s, h) } else Some (f el s, h))"

lemma is_list_neighbours:
  assumes "is_list h head (xs @ ys)"
  shows "\<exists>e. get_next h (hd (ys @ [head])) = Some e" "\<exists>e. get_prev h (last (head # xs)) = Some e"
proof -
  have c: "chain h head (xs @ ys) head" using assms by (simp add: is_list_def)
  have "hd (ys @ [head]) \<in> set (head # (xs @ ys) @ [head])"
    by (cases ys) auto
  then have "h (hd (ys @ [head])) \<noteq> None" by (rule chain_defined [OF c])
  then show "\<exists>e. get_next h (hd (ys @ [head])) = Some e" by (auto simp: get_next_def)
  have "last (head # xs) \<in> set (head # (xs @ ys) @ [head])"
    using last_in_set [of "head # xs"] by auto
  then have "h (last (head # xs)) \<noteq> None" by (rule chain_defined [OF c])
  then show "\<exists>e. get_prev h (last (head # xs)) = Some e" by (auto simp: get_prev_def)
qed

lemma removes_at_step:
  assumes "is_list h head (ks @ x # xs)"
  shows "\<exists>h'. removes_at P f x s h = Some (f x s, h') \<and>
     is_list h' head ((ks @ filter (Not \<circ> P) [x]) @ xs)"
  using list_del_is_list [OF assms] assms by (auto simp: removes_at_def)

lemma list_for_each_safe_loop_removes:
  assumes "is_list h head (ks @ xs)" and "get_next h (hd (xs @ [head])) = Some el1"
  shows "\<exists>h'. list_for_each_safe_loop (removes_at P f) (hd (xs @ [head])) el1 head s h
              = Some (fold f xs s, h') \<and> is_list h' head (ks @ filter (Not \<circ> P) xs)"
  using assms
proof (induction xs arbitrary: ks s h el1)
  case Nil
  then show ?case by (simp add: list_for_each_safe_loop.simps)
next
  case (Cons x xs)
  have el1: "el1 = hd (xs @ [head])" and x: "x \<noteq> head"
    using Cons.prems chain_next [of h head ks x xs head] by (auto simp: is_list_def)
  obtain h1 where h1: "removes_at P f x s h = Some (f x s, h1)"
      "is_list h1 head ((ks @ filter (Not \<circ> P) [x]) @ xs)"
    using removes_at_step [OF Cons.prems(1), of P f s] by blast
  obtain el2 where el2: "get_next h1 el1 = Some el2"
    using is_list_neighbours(1) [OF h1(2)] el1 by auto
  show ?case
    using Cons.IH [OF h1(2) el2 [unfolded el1], of "f x s"] h1(1) el2 x
    by (simp add: list_for_each_safe_loop.simps [of _ x] el1 split: if_splits)
qed

lemma list_for_each_prev_safe_loop_removes:
  assumes "is_list h head (xs @ ks)" and "get_prev h (last (head # xs)) = Some el1"
  shows "\<exists>h'. list_for_each_prev_safe_loop (removes_at P f) (last (head # xs)) el1 head s h
              = Some (fold f (rev xs) s, h') \<and> is_list h' head (filter (Not \<circ> P) xs @ ks)"
  using assms
proof (induction xs arbitrary: ks s h el1 rule: rev_induct)
  case Nil
  then show ?case by (simp add: list_for_each_prev_safe_loop.simps)
next
  case (snoc x xs)
  have el1: "el1 = last (head # xs)" and x: "x \<noteq> head"
    using snoc.prems chain_prev [of h head xs x ks head] by (auto simp: is_list_def)
  obtain h1 where h1: "removes_at P f x s h = Some (f x s, h1)"
      "is_list h1 head (xs @ filter (Not \<circ> P) [x] @ ks)"
    using removes_at_step [of h head xs x ks P f s] snoc.prems(1) by auto
  obtain el2 where el2: "get_prev h1 el1 = Some el2"
    using is_list_neighbours(2) [OF h1(2)] el1 by auto
  show ?case
    using snoc.IH [OF h1(2) el2 [unfolded el1], of "f x s"] h1(1) el2 x
    by (simp add: list_for_each_prev_safe_loop.simps [of _ x] el1 split: if_splits)
qed

lemma list_for_each_safe_removes:
  assumes "is_list h head xs"
  shows "\<exists>h'. list_for_each_safe (removes_at P f) head s h = Some (fold f xs s, h') \<and>
     is_list h' head (filter (Not \<circ> P) xs)"
proof -
  have hd: "get_next h head = Some (hd (xs @ [head]))"
    using assms chain_ends by (simp add: is_list_def)
  obtain el1 where el1: "get_next h (hd (xs @ [head])) = Some el1"
    using is_list_neighbours(1) [of h head "[]" xs] assms by auto
  show ?thesis
    using list_for_each_safe_loop_removes [of h head "[]" xs el1 P f s] assms hd el1
    by (simp add: list_for_each_safe_def)
qed

lemma list_for_each_prev_safe_removes:
  assumes "is_list h head xs"
  shows "\<exists>h'. list_for_each_prev_safe (removes_at P f) head s h = Some (fold f (rev xs) s, h') \<and>
     is_list h' head (filter (Not \<circ> P) xs)"
proof -
  have hd: "get_prev h head = Some (last (head # xs))"
    using assms chain_ends by (simp add: is_list_def)
  obtain el1 where el1: "get_prev h (last (head # xs)) = Some el1"
    using is_list_neighbours(2) [of h head xs "[]"] assms by auto
  show ?thesis
    using list_for_each_prev_safe_loop_removes [of h head xs "[]" el1 P f s] assms hd el1
    by (simp add: list_for_each_prev_safe_def)
qed

end
