(* ===== verification/JobQueue.thy ===== *)
theory JobQueue
  imports JSMalloc LinkedList
begin

text \<open>
  The queue of pending jobs of a runtime (\<^verbatim>\<open>JS_EnqueueJob\<close>, \<^verbatim>\<open>JS_IsJobPending\<close>,
  \<^verbatim>\<open>JS_ExecutePendingJob\<close> of \<^verbatim>\<open>quickjs.c\<close>): entries are allocated with the runtime's allocator,
  linked through \<^verbatim>\<open>list.h\<close>, and hold a counted reference to each argument.  The address of a
  block is also the address of the list node at its start.  The job functions, the destructor
  that runs when a reference count reaches zero (\<^verbatim>\<open>__JS_FreeValue\<close>) and the construction of the
  out-of-memory error are parameters (\<open>js_hooks\<close>): they may run any code of the engine,
  in particular enqueue more jobs.
\<close>

record js_value =
  jv_tag :: int
  jv_ptr :: nat

record job_entry =
  je_ctx :: nat
  je_func :: nat
  je_argv :: "js_value list"

record js_runtime =
  rt_malloc :: js_malloc_state
  rt_links :: list_store
  rt_jobs :: "nat \<rightharpoonup> job_entry"
  rt_job_list :: nat
  rt_ref :: "nat \<Rightarrow> int"

record js_hooks =
  hk_call :: "nat \<Rightarrow> nat \<Rightarrow> js_value list \<Rightarrow> js_runtime \<Rightarrow> js_value \<times> js_runtime"
  hk_free_zero :: "js_value \<Rightarrow> js_runtime \<Rightarrow> js_runtime"
  hk_throw_oom :: "js_runtime \<Rightarrow> js_runtime"

section \<open>Reference counts\<close>

definition js_tag_exception :: int where
  "js_tag_exception = 6"

definition js_value_has_ref_count :: "js_value \<Rightarrow> bool" where
  "js_value_has_ref_count v \<longleftrightarrow>
     (of_int (jv_tag v) :: u32) \<ge> of_int (- 11)"

definition js_dup_value :: "js_value \<Rightarrow> js_runtime \<Rightarrow> js_runtime" where
  "js_dup_value v rt =
     (if js_value_has_ref_count v
      then rt\<lparr>rt_ref := (rt_ref rt)(jv_ptr v := rt_ref rt (jv_ptr v) + 1)\<rparr> else rt)"

definition js_free_value :: "js_hooks \<Rightarrow> js_value \<Rightarrow> js_runtime \<Rightarrow> js_runtime" where
  "js_free_value hk v rt =
     (if js_value_has_ref_count v then
        let rt = rt\<lparr>rt_ref := (rt_ref rt)(jv_ptr v := rt_ref rt (jv_ptr v) - 1)\<rparr>
        in if rt_ref rt (jv_ptr v) \<le> 0 then hk_free_zero hk v rt else rt
      else rt)"

definition js_is_exception :: "js_value \<Rightarrow> bool" where
  "js_is_exception v \<longleftrightarrow> jv_tag v = js_tag_exception"

section \<open>Operations\<close>

text \<open>\<^verbatim>\<open>sizeof(JSJobEntry)\<close> is 40 and \<^verbatim>\<open>sizeof(JSValue)\<close> is 16 on the 64-bit targets.\<close>

definition js_malloc :: "js_hooks \<Rightarrow> js_runtime \<Rightarrow> nat \<Rightarrow> (nat \<times> js_runtime) option" where
  "js_malloc hk rt n =
     do { (ptr, ms) \<leftarrow> js_def_malloc (rt_malloc rt) n;
          let rt = rt\<lparr>rt_malloc := ms\<rparr>;
          if ptr = 0 then Some (0, hk_throw_oom hk rt) else Some (ptr, rt) }"

definition js_free_entry :: "js_runtime \<Rightarrow> nat \<Rightarrow> js_runtime" where
  "js_free_entry rt e =
     rt\<lparr>rt_malloc := js_def_free (rt_malloc rt) e, rt_jobs := (rt_jobs rt)(e := None),
        rt_links := (rt_links rt)(e := None)\<rparr>"

definition js_enqueue_job ::
  "js_hooks \<Rightarrow> nat \<Rightarrow> nat \<Rightarrow> js_value list \<Rightarrow> js_runtime \<Rightarrow> (int \<times> js_runtime) option" where
  "js_enqueue_job hk ctx job_func argv rt =
     do { (e, rt) \<leftarrow> js_malloc hk rt (szadd 40 (szmul (length argv) 16));
          if e = 0 then Some (- 1, rt)
          else do {
            let rt = rt\<lparr>rt_links := (rt_links rt)(e \<mapsto> \<lparr>lh_prev = 0, lh_next = 0\<rparr>),
                        rt_jobs := (rt_jobs rt)(e \<mapsto> \<lparr>je_ctx = ctx, je_func = job_func, je_argv = argv\<rparr>)\<rparr>;
            let rt = fold js_dup_value argv rt;
            l \<leftarrow> list_add_tail (rt_links rt) e (rt_job_list rt);
            Some (0, rt\<lparr>rt_links := l\<rparr>) } }"

definition js_is_job_pending :: "js_runtime \<Rightarrow> bool option" where
  "js_is_job_pending rt = do { b \<leftarrow> list_empty (rt_links rt) (rt_job_list rt); Some (\<not> b) }"

text \<open>The result is the return code, the context stored in \<^verbatim>\<open>*pctx\<close> and the runtime.\<close>

definition js_execute_pending_job :: "js_hooks \<Rightarrow> js_runtime \<Rightarrow> (int \<times> nat \<times> js_runtime) option" where
  "js_execute_pending_job hk rt =
     do { emp \<leftarrow> list_empty (rt_links rt) (rt_job_list rt);
          if emp then Some (0, 0, rt)
          else do {
            e \<leftarrow> get_next (rt_links rt) (rt_job_list rt);
            l \<leftarrow> list_del (rt_links rt) e;
            let rt = rt\<lparr>rt_links := l\<rparr>;
            je \<leftarrow> rt_jobs rt e;
            let ctx = je_ctx je;
            let (res, rt) = hk_call hk (je_func je) ctx (je_argv je) rt;
            je \<leftarrow> rt_jobs rt e;
            let rt = fold (js_free_value hk) (je_argv je) rt;
            let ret = (if js_is_exception res then - 1 else 1);
            let rt = js_free_value hk res rt;
            let rt = js_free_entry rt e;
            Some (ret, ctx, rt) } }"

section \<open>What a queue holds\<close>

text \<open>\<open>jobq rt held js\<close>: the runtime's list links exactly the entries of the jobs \<open>js\<close>, oldest
  first; \<open>held\<close> are further entries that are allocated but not linked (the job being run).\<close>

definition jobq_nodes :: "js_runtime \<Rightarrow> nat list \<Rightarrow> nat set \<Rightarrow> bool" where
  "jobq_nodes rt es held \<longleftrightarrow>
     is_list (rt_links rt) (rt_job_list rt) es \<and> js_malloc_wf (rt_malloc rt) \<and>
     insert (rt_job_list rt) (set es \<union> held) \<subseteq> dom (hp_blocks (malloc_heap (rt_malloc rt))) \<and>
     set es \<union> held \<subseteq> dom (rt_jobs rt) \<and> rt_job_list rt \<notin> held \<and> set es \<inter> held = {}"

definition jobq :: "js_runtime \<Rightarrow> nat set \<Rightarrow> job_entry list \<Rightarrow> bool" where
  "jobq rt held js \<longleftrightarrow> (\<exists>es. jobq_nodes rt es held \<and> map (\<lambda>e. the (rt_jobs rt e)) es = js)"

text \<open>What the surrounding engine is relied on for: a hook leaves the queue in order, at most
  adding jobs at its end, and does not free the entry of the job that is running.\<close>

definition keeps_queue :: "(js_runtime \<Rightarrow> js_runtime) \<Rightarrow> bool" where
  "keeps_queue f \<longleftrightarrow> (\<forall>rt held js. jobq rt held js \<longrightarrow>
     (\<exists>new. jobq (f rt) held (js @ new)) \<and> (\<forall>e \<in> held. rt_jobs (f rt) e = rt_jobs rt e))"

definition hooks_ok :: "js_hooks \<Rightarrow> bool" where
  "hooks_ok hk \<longleftrightarrow> keeps_queue (hk_throw_oom hk) \<and> (\<forall>v. keeps_queue (hk_free_zero hk v)) \<and>
     (\<forall>f ctx argv. keeps_queue (\<lambda>rt. snd (hk_call hk f ctx argv rt)))"

lemma keeps_queue_id: "keeps_queue (\<lambda>rt. rt)"
  by (auto simp: keeps_queue_def intro: exI [of _ "[]"])

lemma keeps_queue_comp: "keeps_queue f \<Longrightarrow> keeps_queue g \<Longrightarrow> keeps_queue (\<lambda>rt. g (f rt))"
  unfolding keeps_queue_def by (metis append.assoc)

lemma keeps_queue_fold: "(\<And>v. keeps_queue (f v)) \<Longrightarrow> keeps_queue (fold f vs)"
proof (induction vs)
  case Nil
  then show ?case using keeps_queue_id by (simp add: id_def)
next
  case (Cons v vs)
  then show ?case using keeps_queue_comp [of "f v" "fold f vs"] by (simp add: comp_def)
qed

lemma jobq_ref_update [simp]: "jobq (rt\<lparr>rt_ref := r\<rparr>) held js = jobq rt held js"
  by (simp add: jobq_def jobq_nodes_def)

lemma keeps_queue_dup: "keeps_queue (js_dup_value v)"
  by (auto simp: keeps_queue_def js_dup_value_def intro: exI [of _ "[]"])

lemma keeps_queue_free:
  assumes "hooks_ok hk"
  shows "keeps_queue (js_free_value hk v)"
proof -
  have u: "keeps_queue (\<lambda>rt. rt\<lparr>rt_ref := r rt\<rparr>)" for r
    by (auto simp: keeps_queue_def intro: exI [of _ "[]"])
  have z: "keeps_queue (hk_free_zero hk v)" using assms by (simp add: hooks_ok_def)
  have zu: "keeps_queue (\<lambda>rt. hk_free_zero hk v
      (rt\<lparr>rt_ref := (rt_ref rt)(jv_ptr v := rt_ref rt (jv_ptr v) - 1)\<rparr>))"
    by (rule keeps_queue_comp [OF u z])
  show ?thesis
    using u zu by (simp add: keeps_queue_def js_free_value_def Let_def)
qed

lemma fold_dup_fields:
  "rt_links (fold js_dup_value vs rt) = rt_links rt" "rt_jobs (fold js_dup_value vs rt) = rt_jobs rt"
  "rt_malloc (fold js_dup_value vs rt) = rt_malloc rt"
  "rt_job_list (fold js_dup_value vs rt) = rt_job_list rt"
  by (induction vs arbitrary: rt) (auto simp: js_dup_value_def)

section \<open>Enqueueing and running\<close>

lemma js_def_malloc_total: "n \<noteq> 0 \<Longrightarrow> \<exists>e ms. js_def_malloc s n = Some (e, ms)"
  by (auto simp: js_def_malloc_def Let_def split: prod.split)

lemma jobq_nodes_enqueue:
  assumes q: "jobq_nodes rt es held" and m: "js_def_malloc (rt_malloc rt) n = Some (e, ms)" and e: "e \<noteq> 0"
    and l0: "l0 = (rt_links rt)(e \<mapsto> \<lparr>lh_prev = 0, lh_next = 0\<rparr>)"
  shows "\<exists>l. list_add_tail l0 e (rt_job_list rt) = Some l \<and>
     jobq_nodes (rt\<lparr>rt_malloc := ms, rt_jobs := (rt_jobs rt)(e \<mapsto> j), rt_links := l\<rparr>) (es @ [e]) held \<and>
     e \<notin> set es \<union> held"
proof -
  let ?b = "\<lambda>m. hp_blocks (malloc_heap m)"
  have wf: "js_malloc_wf (rt_malloc rt)" using q by (simp add: jobq_nodes_def)
  obtain u where o: "js_malloc_wf ms" "?b (rt_malloc rt) e = None"
      "?b ms = (?b (rt_malloc rt))(0 := None, e \<mapsto> u)" and n: "n \<noteq> 0"
    using js_def_malloc_outcome [OF wf m] e m
    by (auto simp: realloc_outcome_def js_def_malloc_def c_assert_def split: if_splits)
  have z: "?b (rt_malloc rt) 0 = None"
    using wf by (auto simp: js_malloc_wf_def heap_wf_def)
  have fresh: "e \<notin> insert (rt_job_list rt) (set es \<union> held)"
    using q o(2) by (auto simp: jobq_nodes_def)
  have blocks: "dom (?b ms) = insert e (dom (?b (rt_malloc rt)))"
    using z o(3) e by auto
  have "chain l0 (rt_job_list rt) es (rt_job_list rt) = chain (rt_links rt) (rt_job_list rt) es (rt_job_list rt)"
    using fresh by (intro chain_cong) (auto simp: l0 get_next_def get_prev_def)
  then have il: "is_list l0 (rt_job_list rt) es"
    using q by (simp add: jobq_nodes_def is_list_def)
  have "\<exists>l. list_add_tail l0 e (rt_job_list rt) = Some l \<and> is_list l (rt_job_list rt) (es @ [e])"
    using list_add_tail_is_list [OF il, of e] fresh by (auto simp: l0)
  then show ?thesis
    using q o(1) blocks fresh by (auto simp: jobq_nodes_def)
qed

lemma js_enqueue_job_jobq:
  assumes q: "jobq rt held js" and ok: "hooks_ok hk" and argc: "length argv < 2 ^ 31"
  shows "\<exists>ret rt'. js_enqueue_job hk ctx f argv rt = Some (ret, rt') \<and>
     (\<forall>e \<in> held. rt_jobs rt' e = rt_jobs rt e) \<and>
     (ret = 0 \<and> jobq rt' held (js @ [\<lparr>je_ctx = ctx, je_func = f, je_argv = argv\<rparr>]) \<or>
      ret = - 1 \<and> (\<exists>new. jobq rt' held (js @ new)))"
proof -
  let ?n = "szadd 40 (szmul (length argv) 16)"
  let ?j = "\<lparr>je_ctx = ctx, je_func = f, je_argv = argv\<rparr>"
  have n: "?n \<noteq> 0" using argc by (simp add: szadd_def szmul_def)
  then obtain e ms where m: "js_def_malloc (rt_malloc rt) ?n = Some (e, ms)"
    using js_def_malloc_total [of ?n "rt_malloc rt"] by fastforce
  obtain es where es: "jobq_nodes rt es held" "map (\<lambda>e. the (rt_jobs rt e)) es = js"
    using q by (auto simp: jobq_def)
  show ?thesis
  proof (cases "e = 0")
    case True
    have "realloc_outcome (rt_malloc rt) 0 ?n 0 ms"
      using js_def_malloc_outcome es(1) m True by (auto simp: jobq_nodes_def)
    then have "jobq (rt\<lparr>rt_malloc := ms\<rparr>) held js"
      using es n by (auto simp: jobq_def jobq_nodes_def realloc_outcome_def)
    then show ?thesis
      using m True ok by (simp add: js_enqueue_job_def js_malloc_def hooks_ok_def keeps_queue_def)
  next
    case False
    obtain l where l: "list_add_tail ((rt_links rt)(e \<mapsto> \<lparr>lh_prev = 0, lh_next = 0\<rparr>)) e (rt_job_list rt) = Some l"
        "jobq_nodes (rt\<lparr>rt_malloc := ms, rt_jobs := (rt_jobs rt)(e \<mapsto> ?j), rt_links := l\<rparr>) (es @ [e]) held"
        "e \<notin> set es \<union> held"
      using jobq_nodes_enqueue [OF es(1) m False refl] by blast
    show ?thesis
      using l es(2) m False
      by (auto simp: js_enqueue_job_def js_malloc_def fold_dup_fields jobq_def jobq_nodes_def
          intro!: exI [of _ "es @ [e]"])
  qed
qed

lemma jobq_nodes_dequeue:
  assumes "jobq_nodes rt (e # es) held"
  shows "\<exists>l. list_del (rt_links rt) e = Some l \<and> jobq_nodes (rt\<lparr>rt_links := l\<rparr>) es (insert e held)"
proof -
  have "is_list (rt_links rt) (rt_job_list rt) ([] @ e # es)"
    using assms by (simp add: jobq_nodes_def)
  from list_del_is_list [OF this] obtain l where
    "list_del (rt_links rt) e = Some l" "is_list l (rt_job_list rt) es" by auto
  then show ?thesis
    using assms by (auto simp: jobq_nodes_def is_list_def)
qed

lemma jobq_free_entry:
  assumes "jobq rt (insert e held) js" and "e \<notin> held"
  shows "jobq (js_free_entry rt e) held js"
proof -
  let ?m = "rt_malloc rt" and ?b = "\<lambda>m. hp_blocks (malloc_heap m)"
  obtain es where es: "jobq_nodes rt es (insert e held)" "map (\<lambda>e. the (rt_jobs rt e)) es = js"
    using assms(1) by (auto simp: jobq_def)
  have wf: "js_malloc_wf ?m" and ine: "e \<in> dom (?b ?m)" using es(1) by (auto simp: jobq_nodes_def)
  then obtain u where u: "?b ?m e = Some u" by auto
  have e0: "e \<noteq> 0"
    using u wf unfolding js_malloc_wf_def heap_wf_def by (metis option.distinct(1))
  have wf': "js_malloc_wf (js_def_free ?m e)" by (rule js_def_free_wf [OF wf u e0])
  have b: "?b (js_def_free ?m e) = (?b ?m)(e := None)"
    using e0 u by (simp add: js_def_free_def c_free_def)
  have ne: "e \<notin> insert (rt_job_list rt) (set es)" using es(1) by (auto simp: jobq_nodes_def)
  have "chain ((rt_links rt)(e := None)) (rt_job_list rt) es (rt_job_list rt)
      = chain (rt_links rt) (rt_job_list rt) es (rt_job_list rt)"
    using ne by (intro chain_cong) (auto simp: get_next_def get_prev_def)
  then have "jobq_nodes (js_free_entry rt e) es held"
    using es(1) wf' b ne assms(2) by (auto simp: jobq_nodes_def js_free_entry_def is_list_def)
  moreover have "map (\<lambda>a. the (rt_jobs (js_free_entry rt e) a)) es = js"
    using es(2) ne by (auto simp: js_free_entry_def)
  ultimately show ?thesis unfolding jobq_def by blast
qed

lemma js_execute_pending_job_empty:
  "jobq rt held [] \<Longrightarrow> js_execute_pending_job hk rt = Some (0, 0, rt)"
  using list_empty_is_list by (fastforce simp: jobq_def jobq_nodes_def js_execute_pending_job_def)

lemma js_is_job_pending_jobq: "jobq rt held js \<Longrightarrow> js_is_job_pending rt = Some (js \<noteq> [])"
  using list_empty_is_list by (fastforce simp: jobq_def jobq_nodes_def js_is_job_pending_def)

text \<open>What running the job \<open>j\<close> from the runtime \<open>rt\<close> means: \<open>j\<close> is the entry at the front of the list;
  with that entry unlinked, its function is called with its context and arguments; then, on the
  runtime the call left behind, the references to the arguments and to the result are dropped,
  in this order, and the entry is freed.  The return code says whether the result is an exception.\<close>

definition job_run :: "js_hooks \<Rightarrow> js_runtime \<Rightarrow> job_entry \<Rightarrow> int \<times> nat \<Rightarrow> js_runtime \<Rightarrow> bool" where
  "job_run hk rt j r rt' \<longleftrightarrow>
     (\<exists>e l res rt1.
        get_next (rt_links rt) (rt_job_list rt) = Some e \<and> rt_jobs rt e = Some j \<and>
        list_del (rt_links rt) e = Some l \<and>
        hk_call hk (je_func j) (je_ctx j) (je_argv j) (rt\<lparr>rt_links := l\<rparr>) = (res, rt1) \<and>
        rt' = js_free_entry (js_free_value hk res (fold (js_free_value hk) (je_argv j) rt1)) e \<and>
        r = (if js_is_exception res then - 1 else 1, je_ctx j))"

lemma js_execute_pending_job_jobq:
  assumes q: "jobq rt held (j # js)" and ok: "hooks_ok hk"
  shows "\<exists>ret ctx rt'. js_execute_pending_job hk rt = Some (ret, ctx, rt') \<and>
     job_run hk rt j (ret, ctx) rt' \<and> (\<exists>new. jobq rt' held (js @ new))"
proof -
  obtain e es where es: "jobq_nodes rt (e # es) held" "the (rt_jobs rt e) = j"
      "map (\<lambda>e. the (rt_jobs rt e)) es = js"
    using q by (auto simp: jobq_def)
  obtain l where l: "list_del (rt_links rt) e = Some l"
      "jobq_nodes (rt\<lparr>rt_links := l\<rparr>) es (insert e held)"
    using jobq_nodes_dequeue [OF es(1)] by blast
  have e: "rt_jobs rt e = Some j" and eh: "e \<notin> held" using es by (auto simp: jobq_nodes_def)
  have il: "is_list (rt_links rt) (rt_job_list rt) (e # es)" using es(1) by (simp add: jobq_nodes_def)
  have ne: "list_empty (rt_links rt) (rt_job_list rt) = Some False"
    using list_empty_is_list [OF il] by simp
  have nx: "get_next (rt_links rt) (rt_job_list rt) = Some e"
    using il by (simp add: is_list_def)
  define rt0 where "rt0 = rt\<lparr>rt_links := l\<rparr>"
  have q0: "jobq rt0 (insert e held) js" using l(2) es(3) by (auto simp: jobq_def rt0_def)
  obtain res rt1 where c: "hk_call hk (je_func j) (je_ctx j) (je_argv j) rt0 = (res, rt1)" by fastforce
  have k: "keeps_queue (\<lambda>rt. snd (hk_call hk (je_func j) (je_ctx j) (je_argv j) rt))"
    using ok by (simp add: hooks_ok_def)
  have q1: "(\<exists>new. jobq rt1 (insert e held) (js @ new)) \<and> rt_jobs rt1 e = Some j"
    using k [unfolded keeps_queue_def, rule_format, OF q0] c e by (simp add: rt0_def)
  then obtain new1 where new1: "jobq rt1 (insert e held) (js @ new1)" by blast
  define rt2 where "rt2 = js_free_value hk res (fold (js_free_value hk) (je_argv j) rt1)"
  have k2: "keeps_queue (\<lambda>rt. js_free_value hk res (fold (js_free_value hk) (je_argv j) rt))"
    using keeps_queue_comp keeps_queue_fold keeps_queue_free [OF ok] by blast
  then obtain new2 where "jobq rt2 (insert e held) ((js @ new1) @ new2)"
    using k2 [unfolded keeps_queue_def, rule_format, OF new1] by (auto simp: rt2_def)
  then have q2: "jobq (js_free_entry rt2 e) held (js @ new1 @ new2)"
    using jobq_free_entry eh by simp
  have "js_execute_pending_job hk rt
      = Some (if js_is_exception res then - 1 else 1, je_ctx j, js_free_entry rt2 e)"
    using ne nx l(1) e c q1 by (simp add: js_execute_pending_job_def rt0_def rt2_def)
  moreover have "job_run hk rt j (if js_is_exception res then - 1 else 1, je_ctx j) (js_free_entry rt2 e)"
    using nx e l(1) c unfolding job_run_def rt0_def rt2_def by blast
  ultimately show ?thesis using q2 by blast
qed

section \<open>Fairness\<close>

text \<open>The contract a loop that runs jobs relies on: with a job pending, one run serves the oldest
  one and at most adds jobs behind the others.  Its consequence for the client: the jobs
  pending now are all served, in order, before any job they enqueue.\<close>

primrec repeat_run :: "('q \<Rightarrow> ('r \<times> 'q) option) \<Rightarrow> nat \<Rightarrow> 'q \<Rightarrow> ('r list \<times> 'q) option" where
  "repeat_run run 0 q = Some ([], q)"
| "repeat_run run (Suc n) q =
     do { (r, q) \<leftarrow> run q; (rs, q) \<leftarrow> repeat_run run n q; Some (r # rs, q) }"

text \<open>\<open>in_order S q js rs q'\<close>: from the state \<open>q\<close> the jobs \<open>js\<close> are served one after the other, with
  the results \<open>rs\<close>, and \<open>q'\<close> is the state after the last one; \<open>S\<close> is the service of one job.\<close>

inductive in_order :: "('q \<Rightarrow> 'j \<Rightarrow> 'r \<Rightarrow> 'q \<Rightarrow> bool) \<Rightarrow> 'q \<Rightarrow> 'j list \<Rightarrow> 'r list \<Rightarrow> 'q \<Rightarrow> bool"
  for S :: "'q \<Rightarrow> 'j \<Rightarrow> 'r \<Rightarrow> 'q \<Rightarrow> bool" where
  in_order_nil: "in_order S q [] [] q"
| in_order_cons: "S q j r q1 \<Longrightarrow> in_order S q1 js rs q' \<Longrightarrow> in_order S q (j # js) (r # rs) q'"

inductive_simps in_order_nil_simp [simp]: "in_order S q [] rs q'"
inductive_simps in_order_cons_simp: "in_order S q (j # js) rs q'"

locale work_queue =
  fixes holds :: "'q \<Rightarrow> 'j list \<Rightarrow> bool" and run :: "'q \<Rightarrow> ('r \<times> 'q) option"
    and serves :: "'q \<Rightarrow> 'j \<Rightarrow> 'r \<Rightarrow> 'q \<Rightarrow> bool"
  assumes run_first: "holds q (j # js) \<Longrightarrow>
    \<exists>r q' new. run q = Some (r, q') \<and> serves q j r q' \<and> holds q' (js @ new)"
begin

lemma runs_pending:
  "holds q (js @ rest) \<Longrightarrow> \<exists>rs q' new. repeat_run run (length js) q = Some (rs, q') \<and>
     in_order serves q js rs q' \<and> holds q' (rest @ new)"
proof (induction js arbitrary: q rest)
  case Nil
  then show ?case by (auto intro: exI [of _ "[]"])
next
  case (Cons j js)
  obtain r q1 new where 1: "run q = Some (r, q1)" "serves q j r q1" "holds q1 (js @ (rest @ new))"
    using run_first [of q j "js @ rest"] Cons.prems by auto
  obtain rs q' new' where "repeat_run run (length js) q1 = Some (rs, q')"
      "in_order serves q1 js rs q'" "holds q' ((rest @ new) @ new')"
    using Cons.IH [OF 1(3)] by blast
  then show ?case
    using 1 by (auto intro!: in_order_cons)
qed

end

definition run_pending :: "js_hooks \<Rightarrow> js_runtime \<Rightarrow> ((int \<times> nat) \<times> js_runtime) option" where
  "run_pending hk rt = do { (ret, ctx, rt) \<leftarrow> js_execute_pending_job hk rt; Some ((ret, ctx), rt) }"

interpretation jobs: work_queue "\<lambda>rt js. hooks_ok hk \<and> jobq rt {} js" "run_pending hk" "job_run hk"
  for hk :: js_hooks
proof
  fix rt :: js_runtime and j js
  assume q: "hooks_ok hk \<and> jobq rt {} (j # js)"
  then show "\<exists>r rt' new. run_pending hk rt = Some (r, rt') \<and> job_run hk rt j r rt' \<and>
      hooks_ok hk \<and> jobq rt' {} (js @ new)"
    using js_execute_pending_job_jobq [of rt "{}" j js hk] by (fastforce simp: run_pending_def)
qed

end
