(* ===== verification/RqSort.thy ===== *)
theory RqSort
  imports CPrelude "HOL-Library.Multiset"
begin

text \<open>
  The sort of \<^verbatim>\<open>cutils.c\<close>: the exchange functions on bytes and the choice between them, and
  \<^verbatim>\<open>heapsortx\<close>, \<^verbatim>\<open>med3\<close> and \<^verbatim>\<open>rqsort\<close>.  The exchange functions work on the bytes of the array,
  whose first byte has the address \<open>base\<close>: a load or store of a wide integer at a misaligned
  address is an error (\<open>None\<close>).  The sorts work on the array as a list of elements, so that
  an element pointer is an index (the code's \<^verbatim>\<open>size\<close> is one step).  The comparison
  function gets and returns the opaque state, so it may be inconsistent from call to call,
  as a comparison function written in JavaScript may be.
\<close>

section \<open>Exchanging bytes\<close>

text \<open>A value of a \<open>w\<close>-byte integer type is its object representation.\<close>

definition ld :: "nat \<Rightarrow> nat \<Rightarrow> u8 list \<Rightarrow> nat \<Rightarrow> u8 list option" where
  "ld w base m p = do { c_assert ((base + p) mod w = 0); rd_block m p w }"

definition st :: "nat \<Rightarrow> nat \<Rightarrow> u8 list \<Rightarrow> nat \<Rightarrow> u8 list \<Rightarrow> u8 list option" where
  "st w base m p v = do { c_assert ((base + p) mod w = 0); wr_block m p v }"

definition exchange_one :: "nat \<Rightarrow> nat \<Rightarrow> nat \<Rightarrow> nat \<Rightarrow> u8 list \<Rightarrow> u8 list option" where
  "exchange_one w base a b m =
     do { t \<leftarrow> ld w base m a;
          x \<leftarrow> ld w base m b;
          m \<leftarrow> st w base m a x;
          st w base m b t }"

primrec exchange_loop :: "nat \<Rightarrow> nat \<Rightarrow> nat \<Rightarrow> nat \<Rightarrow> nat \<Rightarrow> u8 list \<Rightarrow> u8 list option" where
  "exchange_loop w base 0 a b m = Some m"
| "exchange_loop w base (Suc n) a b m =
     do { m \<leftarrow> exchange_one w base a b m;
          exchange_loop w base n (a + w) (b + w) m }"

definition exchange_bytes :: "nat \<Rightarrow> nat \<Rightarrow> nat \<Rightarrow> nat \<Rightarrow> u8 list \<Rightarrow> u8 list option" where
  "exchange_bytes base a b sz m = exchange_loop 1 base sz a b m"

definition exchange_one_byte :: "nat \<Rightarrow> nat \<Rightarrow> nat \<Rightarrow> nat \<Rightarrow> u8 list \<Rightarrow> u8 list option" where
  "exchange_one_byte base a b sz m = exchange_one 1 base a b m"

definition exchange_int16s :: "nat \<Rightarrow> nat \<Rightarrow> nat \<Rightarrow> nat \<Rightarrow> u8 list \<Rightarrow> u8 list option" where
  "exchange_int16s base a b sz m = exchange_loop 2 base (sz div 2) a b m"

definition exchange_one_int16 :: "nat \<Rightarrow> nat \<Rightarrow> nat \<Rightarrow> nat \<Rightarrow> u8 list \<Rightarrow> u8 list option" where
  "exchange_one_int16 base a b sz m = exchange_one 2 base a b m"

definition exchange_int32s :: "nat \<Rightarrow> nat \<Rightarrow> nat \<Rightarrow> nat \<Rightarrow> u8 list \<Rightarrow> u8 list option" where
  "exchange_int32s base a b sz m = exchange_loop 4 base (sz div 4) a b m"

definition exchange_one_int32 :: "nat \<Rightarrow> nat \<Rightarrow> nat \<Rightarrow> nat \<Rightarrow> u8 list \<Rightarrow> u8 list option" where
  "exchange_one_int32 base a b sz m = exchange_one 4 base a b m"

definition exchange_int64s :: "nat \<Rightarrow> nat \<Rightarrow> nat \<Rightarrow> nat \<Rightarrow> u8 list \<Rightarrow> u8 list option" where
  "exchange_int64s base a b sz m = exchange_loop 8 base (sz div 8) a b m"

definition exchange_one_int64 :: "nat \<Rightarrow> nat \<Rightarrow> nat \<Rightarrow> nat \<Rightarrow> u8 list \<Rightarrow> u8 list option" where
  "exchange_one_int64 base a b sz m = exchange_one 8 base a b m"

definition exchange_one_int128 :: "nat \<Rightarrow> nat \<Rightarrow> nat \<Rightarrow> nat \<Rightarrow> u8 list \<Rightarrow> u8 list option" where
  "exchange_one_int128 base a b sz m =
     do { t \<leftarrow> ld 8 base m a;
          u \<leftarrow> ld 8 base m (a + 8);
          x \<leftarrow> ld 8 base m b;
          m \<leftarrow> st 8 base m a x;
          y \<leftarrow> ld 8 base m (b + 8);
          m \<leftarrow> st 8 base m (a + 8) y;
          m \<leftarrow> st 8 base m b t;
          st 8 base m (b + 8) u }"

primrec exchange_int128s_loop :: "nat \<Rightarrow> nat \<Rightarrow> nat \<Rightarrow> nat \<Rightarrow> u8 list \<Rightarrow> u8 list option" where
  "exchange_int128s_loop base 0 a b m = Some m"
| "exchange_int128s_loop base (Suc n) a b m =
     do { m \<leftarrow> exchange_one_int128 base a b 16 m;
          exchange_int128s_loop base n (a + 16) (b + 16) m }"

definition exchange_int128s :: "nat \<Rightarrow> nat \<Rightarrow> nat \<Rightarrow> nat \<Rightarrow> u8 list \<Rightarrow> u8 list option" where
  "exchange_int128s base a b sz m = exchange_int128s_loop base (sz div (8 * 2)) a b m"

definition exchange_func :: "u64 \<Rightarrow> u64 \<Rightarrow> nat \<Rightarrow> nat \<Rightarrow> nat \<Rightarrow> nat \<Rightarrow> u8 list \<Rightarrow> u8 list option" where
  "exchange_func base sz =
     (let k = (base OR sz) AND 15 in
      if k = 0 then (if sz = 8 * 2 then exchange_one_int128 else exchange_int128s)
      else if k = 8 then (if sz = 8 then exchange_one_int64 else exchange_int64s)
      else if k = 4 \<or> k = 12 then (if sz = 4 then exchange_one_int32 else exchange_int32s)
      else if k = 2 \<or> k = 6 \<or> k = 10 \<or> k = 14 then (if sz = 2 then exchange_one_int16 else exchange_int16s)
      else (if sz = 1 then exchange_one_byte else exchange_bytes))"

section \<open>Sorting elements\<close>

type_synonym ('a, 'o) cmp_f = "'a \<Rightarrow> 'a \<Rightarrow> 'o \<Rightarrow> int \<times> 'o"

definition swap_el :: "nat \<Rightarrow> nat \<Rightarrow> 'a list \<Rightarrow> 'a list option" where
  "swap_el a b m = do { t \<leftarrow> rd m a; x \<leftarrow> rd m b; m \<leftarrow> wr m a x; wr m b t }"

primrec swap_block :: "nat \<Rightarrow> nat \<Rightarrow> nat \<Rightarrow> 'a list \<Rightarrow> 'a list option" where
  "swap_block a b 0 m = Some m"
| "swap_block a b (Suc n) m = do { m \<leftarrow> swap_el a b m; swap_block (a + 1) (b + 1) n m }"

definition cmp_at :: "('a, 'o) cmp_f \<Rightarrow> nat \<Rightarrow> nat \<Rightarrow> 'a list \<Rightarrow> 'o \<Rightarrow> (int \<times> 'o) option" where
  "cmp_at cmp a b m s = do { x \<leftarrow> rd m a; y \<leftarrow> rd m b; Some (cmp x y s) }"

definition heapsortx_child ::
  "('a, 'o) cmp_f \<Rightarrow> nat \<Rightarrow> nat \<Rightarrow> nat \<Rightarrow> 'a list \<Rightarrow> 'o \<Rightarrow> (nat \<times> 'o) option" where
  "heapsortx_child cmp base n c m s =
     (if c < n - 1
      then do { (v, s) \<leftarrow> cmp_at cmp (base + c) (base + c + 1) m s;
                Some (if v \<le> 0 then c + 1 else c, s) }
      else Some (c, s))"

text \<open>The two inner loops of \<^verbatim>\<open>heapsortx\<close> are the same loop with the bound \<open>n\<close>; \<open>base\<close> is
  \<^verbatim>\<open>basep\<close>.\<close>

function heapsortx_sift ::
  "('a, 'o) cmp_f \<Rightarrow> nat \<Rightarrow> nat \<Rightarrow> nat \<Rightarrow> 'a list \<Rightarrow> 'o \<Rightarrow> ('a list \<times> 'o) option" where
  "heapsortx_sift cmp base n r m s =
     (let c = r * 2 + 1 in
      if c < n then
        do { (c, s) \<leftarrow> heapsortx_child cmp base n c m s;
             (v, s) \<leftarrow> cmp_at cmp (base + r) (base + c) m s;
             if v > 0 then Some (m, s)
             else do { m \<leftarrow> swap_el (base + r) (base + c) m;
                       heapsortx_sift cmp base n c m s } }
      else Some (m, s))"
  by pat_completeness auto
termination
  by (relation "measure (\<lambda>(cmp, base, n, r, m, s). n - r)") 
    (auto simp: heapsortx_child_def Option.bind_eq_Some_conv split: if_splits)

primrec heapsortx_build ::
  "('a, 'o) cmp_f \<Rightarrow> nat \<Rightarrow> nat \<Rightarrow> nat \<Rightarrow> 'a list \<Rightarrow> 'o \<Rightarrow> ('a list \<times> 'o) option" where
  "heapsortx_build cmp base n 0 m s = Some (m, s)"
| "heapsortx_build cmp base n (Suc i) m s =
     do { (m, s) \<leftarrow> heapsortx_sift cmp base n i m s;
          heapsortx_build cmp base n i m s }"

primrec heapsortx_extract ::
  "('a, 'o) cmp_f \<Rightarrow> nat \<Rightarrow> nat \<Rightarrow> 'a list \<Rightarrow> 'o \<Rightarrow> ('a list \<times> 'o) option" where
  "heapsortx_extract cmp base 0 m s = Some (m, s)"
| "heapsortx_extract cmp base (Suc i) m s =
     do { m \<leftarrow> swap_el base (base + Suc i) m;
          (m, s) \<leftarrow> heapsortx_sift cmp base (Suc i) 0 m s;
          heapsortx_extract cmp base i m s }"

definition heapsortx ::
  "('a, 'o) cmp_f \<Rightarrow> nat \<Rightarrow> nat \<Rightarrow> 'a list \<Rightarrow> 'o \<Rightarrow> ('a list \<times> 'o) option" where
  "heapsortx cmp base nmemb m s =
     (if nmemb > 1 then
        do { (m, s) \<leftarrow> heapsortx_build cmp base nmemb (nmemb div 2) m s;
             heapsortx_extract cmp base (nmemb - 1) m s }
      else Some (m, s))"

definition med3 ::
  "('a, 'o) cmp_f \<Rightarrow> nat \<Rightarrow> nat \<Rightarrow> nat \<Rightarrow> 'a list \<Rightarrow> 'o \<Rightarrow> (nat \<times> 'o) option" where
  "med3 cmp a b c m s =
     do { (v, s) \<leftarrow> cmp_at cmp a b m s;
          if v < 0 then
            do { (v, s) \<leftarrow> cmp_at cmp b c m s;
                 if v < 0 then Some (b, s)
                 else do { (v, s) \<leftarrow> cmp_at cmp a c m s; Some (if v < 0 then c else a, s) } }
          else
            do { (v, s) \<leftarrow> cmp_at cmp b c m s;
                 if v > 0 then Some (b, s)
                 else do { (v, s) \<leftarrow> cmp_at cmp a c m s; Some (if v < 0 then a else c, s) } } }"

text \<open>The partition loop.  The counters \<open>i\<close>, \<open>lt\<close>, \<open>gt\<close> and the pointers \<open>pi\<close>, \<open>plt\<close>, \<open>pgt\<close> of the
  code move together (\<open>pi = ptr + i * size\<close> and so on), so one index stands for both; \<open>j\<close> is
  \<open>pj\<close>.  All are relative to \<open>ptr\<close>.\<close>

function rqsort_scan_up ::
  "('a, 'o) cmp_f \<Rightarrow> nat \<Rightarrow> nat \<Rightarrow> nat \<Rightarrow> nat \<Rightarrow> 'a list \<Rightarrow> 'o \<Rightarrow> (nat \<times> nat \<times> 'a list \<times> 'o) option" where
  "rqsort_scan_up cmp ptr j i lt m s =
     (if i < j then
        do { (c, s) \<leftarrow> cmp_at cmp ptr (ptr + i) m s;
             if c \<ge> 0 then
               (if c = 0 then
                  do { m \<leftarrow> swap_el (ptr + lt) (ptr + i) m;
                       rqsort_scan_up cmp ptr j (i + 1) (lt + 1) m s }
                else rqsort_scan_up cmp ptr j (i + 1) lt m s)
             else Some (i, lt, m, s) }
      else Some (i, lt, m, s))"
  by pat_completeness auto
termination
  by (relation "measure (\<lambda>(cmp, ptr, j, i, lt, m, s). j - i)") auto

fun rqsort_scan_down ::
  "('a, 'o) cmp_f \<Rightarrow> nat \<Rightarrow> nat \<Rightarrow> nat \<Rightarrow> nat \<Rightarrow> 'a list \<Rightarrow> 'o \<Rightarrow> (nat \<times> nat \<times> 'a list \<times> 'o) option" where
  "rqsort_scan_down cmp ptr i 0 gt m s = None"
| "rqsort_scan_down cmp ptr i (Suc j) gt m s =
     (if i < j then
        do { (c, s) \<leftarrow> cmp_at cmp ptr (ptr + j) m s;
             if c \<le> 0 then
               (if c = 0 then
                  do { c_assert (0 < gt);
                       m \<leftarrow> swap_el (ptr + (gt - 1)) (ptr + j) m;
                       rqsort_scan_down cmp ptr i j (gt - 1) m s }
                else rqsort_scan_down cmp ptr i j gt m s)
             else Some (j, gt, m, s) }
      else Some (j, gt, m, s))"

partial_function (option) rqsort_partition ::
  "('a, 'o) cmp_f \<Rightarrow> nat \<Rightarrow> nat \<Rightarrow> nat \<Rightarrow> nat \<Rightarrow> nat \<Rightarrow> 'a list \<Rightarrow> 'o
     \<Rightarrow> (nat \<times> nat \<times> nat \<times> 'a list \<times> 'o) option" where
  "rqsort_partition cmp ptr i lt j gt m s =
     do { (i, lt, m, s) \<leftarrow> rqsort_scan_up cmp ptr j i lt m s;
          (j, gt, m, s) \<leftarrow> rqsort_scan_down cmp ptr i j gt m s;
          if i \<ge> j then Some (i, lt, gt, m, s)
          else do { m \<leftarrow> swap_el (ptr + i) (ptr + j) m;
                    rqsort_partition cmp ptr (i + 1) lt j gt m s } }"

text \<open>One round of the loop \<^verbatim>\<open>while (nmemb > 6)\<close>, from the choice of the pivot to the final
  values of \<open>lt\<close> and \<open>gt\<close>: \<open>[0, lt)\<close> and \<open>[gt, nmemb)\<close> remain to be sorted.\<close>

definition rqsort_round ::
  "('a, 'o) cmp_f \<Rightarrow> nat \<Rightarrow> nat \<Rightarrow> 'a list \<Rightarrow> 'o \<Rightarrow> (nat \<times> nat \<times> 'a list \<times> 'o) option" where
  "rqsort_round cmp ptr nmemb m s =
     do { let m4 = nmemb div 4;
          (p, s) \<leftarrow> med3 cmp (ptr + m4) (ptr + 2 * m4) (ptr + 3 * m4) m s;
          m \<leftarrow> swap_el ptr p m;
          (i, lt, gt, m, s) \<leftarrow> rqsort_partition cmp ptr 1 1 nmemb nmemb m s;
          let span = lt;
          let span2 = i - lt;
          let lt = i - lt;
          let span = (if span > span2 then span2 else span);
          m \<leftarrow> swap_block ptr (ptr + i - span) span m;
          let span = nmemb - gt;
          let span2 = gt - i;
          let gt = nmemb - (gt - i);
          let span = (if span > span2 then span2 else span);
          m \<leftarrow> swap_block (ptr + i) (ptr + nmemb - span) span m;
          Some (lt, gt, m, s) }"

type_synonym rq_stack = "(nat \<times> nat \<times> nat) list"

definition rq_push :: "nat \<times> nat \<times> nat \<Rightarrow> rq_stack \<Rightarrow> rq_stack option" where
  "rq_push e stk = do { c_assert (length stk < 50); Some (e # stk) }"

function rqsort_segment ::
  "('a, 'o) cmp_f \<Rightarrow> rq_stack \<Rightarrow> nat \<Rightarrow> nat \<Rightarrow> nat \<Rightarrow> 'a list \<Rightarrow> 'o
     \<Rightarrow> (rq_stack \<times> nat \<times> nat \<times> 'a list \<times> 'o) option" where
  "rqsort_segment cmp stk ptr nmemb depth m s =
     (if nmemb > 6 then
        let depth = depth + 1 in
        if depth > 50 then
          do { (m, s) \<leftarrow> heapsortx cmp ptr nmemb m s; Some (stk, ptr, 0, m, s) }
        else
          do { (lt, gt, m, s) \<leftarrow> rqsort_round cmp ptr nmemb m s;
               if lt > nmemb - gt then
                 do { stk \<leftarrow> rq_push (ptr, lt, depth) stk;
                      rqsort_segment cmp stk (ptr + gt) (nmemb - gt) depth m s }
               else
                 do { stk \<leftarrow> rq_push (ptr + gt, nmemb - gt, depth) stk;
                      rqsort_segment cmp stk ptr lt depth m s } }
      else Some (stk, ptr, nmemb, m, s))"
  by pat_completeness auto
termination
  by (relation "measure (\<lambda>(cmp, stk, ptr, nmemb, depth, m, s). 51 - depth)") auto

text \<open>The insertion sort of small fragments.\<close>

primrec rqsort_insert ::
  "('a, 'o) cmp_f \<Rightarrow> nat \<Rightarrow> nat \<Rightarrow> 'a list \<Rightarrow> 'o \<Rightarrow> ('a list \<times> 'o) option" where
  "rqsort_insert cmp ptr 0 m s = Some (m, s)"
| "rqsort_insert cmp ptr (Suc j) m s =
     do { (c, s) \<leftarrow> cmp_at cmp (ptr + j) (ptr + Suc j) m s;
          if c > 0 then
            do { m \<leftarrow> swap_el (ptr + Suc j) (ptr + j) m;
                 rqsort_insert cmp ptr j m s }
          else Some (m, s) }"

function rqsort_insertion ::
  "('a, 'o) cmp_f \<Rightarrow> nat \<Rightarrow> nat \<Rightarrow> nat \<Rightarrow> 'a list \<Rightarrow> 'o \<Rightarrow> ('a list \<times> 'o) option" where
  "rqsort_insertion cmp ptr nmemb i m s =
     (if i < nmemb then
        do { (m, s) \<leftarrow> rqsort_insert cmp ptr i m s;
             rqsort_insertion cmp ptr nmemb (i + 1) m s }
      else Some (m, s))"
  by pat_completeness auto
termination
  by (relation "measure (\<lambda>(cmp, ptr, nmemb, i, m, s). nmemb - i)") auto

partial_function (option) rqsort_loop ::
  "('a, 'o) cmp_f \<Rightarrow> rq_stack \<Rightarrow> 'a list \<Rightarrow> 'o \<Rightarrow> ('a list \<times> 'o) option" where
  "rqsort_loop cmp stk m s =
     (case stk of
        [] \<Rightarrow> Some (m, s)
      | (ptr, nmemb, depth) # stk \<Rightarrow>
          do { (stk, ptr, nmemb, m, s) \<leftarrow> rqsort_segment cmp stk ptr nmemb depth m s;
               (m, s) \<leftarrow> rqsort_insertion cmp ptr nmemb 1 m s;
               rqsort_loop cmp stk m s })"

definition rqsort :: "('a, 'o) cmp_f \<Rightarrow> nat \<Rightarrow> 'a list \<Rightarrow> 'o \<Rightarrow> ('a list \<times> 'o) option" where
  "rqsort cmp nmemb m s =
     (if nmemb < 2 then Some (m, s)
      else rqsort_loop cmp [(0, nmemb, 0)] m s)"

declare heapsortx_sift.simps [simp del] rqsort_scan_up.simps [simp del] rqsort_segment.simps [simp del]
  rqsort_insertion.simps [simp del]

section \<open>The array is permuted in place\<close>

definition perm_in :: "nat \<Rightarrow> nat \<Rightarrow> 'a list \<Rightarrow> 'a list \<Rightarrow> bool" where
  "perm_in lo hi m m' \<longleftrightarrow> length m' = length m \<and> mset m' = mset m \<and>
     (\<forall>k < length m. k < lo \<or> hi \<le> k \<longrightarrow> m' ! k = m ! k)"

lemma perm_in_refl [simp]: "perm_in lo hi m m"
  by (simp add: perm_in_def)

lemma perm_in_trans: "perm_in lo hi m m' \<Longrightarrow> perm_in lo hi m' m'' \<Longrightarrow> perm_in lo hi m m''"
  by (simp add: perm_in_def)

lemma perm_in_mono: "perm_in lo hi m m' \<Longrightarrow> lo' \<le> lo \<Longrightarrow> hi \<le> hi' \<Longrightarrow> perm_in lo' hi' m m'"
  by (auto simp: perm_in_def)

lemma perm_in_length: "perm_in lo hi m m' \<Longrightarrow> length m' = length m"
  by (simp add: perm_in_def)

lemma perm_in_nth: "perm_in lo hi m m' \<Longrightarrow> k < length m \<Longrightarrow> k < lo \<or> hi \<le> k \<Longrightarrow> m' ! k = m ! k"
  by (auto simp: perm_in_def)

lemma perm_in_segment:
  assumes "perm_in lo hi m m'" "lo \<le> hi" "hi \<le> length m"
  shows "mset (take (hi - lo) (drop lo m')) = mset (take (hi - lo) (drop lo m))"
proof -
  have split: "mset x = mset (take lo x) + mset (take (hi - lo) (drop lo x)) + mset (drop hi x)"
    if "length x = length m" for x :: "'a list"
  proof -
    have "x = take lo x @ take (hi - lo) (drop lo x) @ drop hi x"
      using assms(2) by (metis append_take_drop_id drop_drop le_add_diff_inverse2)
    then show ?thesis by (metis mset_append union_assoc)
  qed
  have "take lo m' = take lo m" "drop hi m' = drop hi m"
    using assms by (auto simp: perm_in_def intro!: nth_equalityI)
  then show ?thesis
    using split [of m] split [of m'] assms(1) by (simp add: perm_in_def)
qed

lemma perm_in_forall:
  assumes "perm_in lo hi m m'" "hi \<le> length m" "\<And>k. lo \<le> k \<Longrightarrow> k < hi \<Longrightarrow> P (m ! k)"
    and "lo \<le> k" "k < hi"
  shows "P (m' ! k)"
proof -
  let ?seg = "\<lambda>x. take (hi - lo) (drop lo x)"
  have len: "length m' = length m" using assms(1) by (rule perm_in_length)
  have "mset (?seg m') = mset (?seg m)"
    using assms(4,5) by (intro perm_in_segment [OF assms(1) _ assms(2)]) simp
  then have set_eq: "set (?seg m') = set (?seg m)" by (metis set_mset_mset)
  have "?seg m' ! (k - lo) \<in> set (?seg m')"
    using assms(2,4,5) len by (intro nth_mem) simp
  then have "m' ! k \<in> set (?seg m)"
    using set_eq assms(2,4,5) len by simp
  then obtain i where "i < length (?seg m)" "?seg m ! i = m' ! k"
    unfolding in_set_conv_nth by blast
  then have "i < hi - lo" "m' ! k = m ! (lo + i)"
    using assms(2) by simp_all
  then show ?thesis using assms(3) [of "lo + i"] by simp
qed

lemma swap_el_Some:
  "a < length m \<Longrightarrow> b < length m \<Longrightarrow> swap_el a b m = Some (m[a := m ! b, b := m ! a])"
  by (simp add: swap_el_def mem_simps)

lemma swap_el_perm:
  assumes "lo \<le> a" "a < hi" "lo \<le> b" "b < hi" "hi \<le> length m"
  shows "perm_in lo hi m (m[a := m ! b, b := m ! a])"
  using assms mset_swap [of b m a] by (auto simp: perm_in_def nth_list_update)

lemma returns_cmp_at:
  "a < length m \<Longrightarrow> b < length m \<Longrightarrow> returns (cmp_at cmp a b m s) (\<lambda>r. r = cmp (m ! a) (m ! b) s)"
  by (simp add: cmp_at_def mem_simps)

lemma cmp_at_Some:
  "a < length m \<Longrightarrow> b < length m \<Longrightarrow> cmp_at cmp a b m s = Some (cmp (m ! a) (m ! b) s)"
  by (simp add: cmp_at_def mem_simps)

text \<open>\<open>cmp_ok cmp le\<close>: the comparison function decides the total preorder \<open>le\<close> whatever its state.\<close>

definition cmp_ok :: "('a, 'o) cmp_f \<Rightarrow> ('a \<Rightarrow> 'a \<Rightarrow> bool) \<Rightarrow> bool" where
  "cmp_ok cmp le \<longleftrightarrow>
     (\<forall>x y s. (fst (cmp x y s) < 0 \<longleftrightarrow> \<not> le y x) \<and> (fst (cmp x y s) > 0 \<longleftrightarrow> \<not> le x y)) \<and>
     (\<forall>x y z. le x y \<longrightarrow> le y z \<longrightarrow> le x z)"

lemma cmp_ok_total: "cmp_ok cmp le \<Longrightarrow> le x y \<or> le y x"
proof -
  assume ok: "cmp_ok cmp le"
  have "fst (cmp x y undefined) < 0 \<longleftrightarrow> \<not> le y x" "fst (cmp x y undefined) > 0 \<longleftrightarrow> \<not> le x y"
    using ok unfolding cmp_ok_def by blast+
  then show ?thesis by linarith
qed

lemma cmp_ok_refl: "cmp_ok cmp le \<Longrightarrow> le x x"
  using cmp_ok_total by fast

lemma cmp_ok_trans: "cmp_ok cmp le \<Longrightarrow> le x y \<Longrightarrow> le y z \<Longrightarrow> le x z"
  unfolding cmp_ok_def by blast

lemma cmp_ok_sign:
  assumes "cmp_ok cmp le" "cmp x y s = (v, s')"
  shows "v < 0 \<longleftrightarrow> \<not> le y x" "v > 0 \<longleftrightarrow> \<not> le x y" "v = 0 \<longleftrightarrow> le x y \<and> le y x"
proof -
  show 1: "v < 0 \<longleftrightarrow> \<not> le y x" and 2: "v > 0 \<longleftrightarrow> \<not> le x y"
    using assms(1) [unfolded cmp_ok_def, THEN conjunct1, rule_format, of x y s] assms(2) by simp_all
  have "v = 0 \<longleftrightarrow> \<not> v < 0 \<and> \<not> v > 0" by auto
  then show "v = 0 \<longleftrightarrow> le x y \<and> le y x" unfolding 1 2 by blast
qed

section \<open>Partitioning\<close>

definition equiv :: "('a \<Rightarrow> 'a \<Rightarrow> bool) \<Rightarrow> 'a \<Rightarrow> 'a \<Rightarrow> bool" where
  "equiv le x y \<longleftrightarrow> le x y \<and> le y x"

definition low_part :: "('a \<Rightarrow> 'a \<Rightarrow> bool) \<Rightarrow> nat \<Rightarrow> nat \<Rightarrow> nat \<Rightarrow> 'a list \<Rightarrow> bool" where
  "low_part le ptr lt i m \<longleftrightarrow>
     (\<forall>k < lt. equiv le (m ! (ptr + k)) (m ! ptr)) \<and>
     (\<forall>k. lt \<le> k \<longrightarrow> k < i \<longrightarrow> \<not> le (m ! ptr) (m ! (ptr + k)))"

definition high_part :: "('a \<Rightarrow> 'a \<Rightarrow> bool) \<Rightarrow> nat \<Rightarrow> nat \<Rightarrow> nat \<Rightarrow> nat \<Rightarrow> 'a list \<Rightarrow> bool" where
  "high_part le ptr j gt n m \<longleftrightarrow>
     (\<forall>k. gt \<le> k \<longrightarrow> k < n \<longrightarrow> equiv le (m ! (ptr + k)) (m ! ptr)) \<and>
     (\<forall>k. j \<le> k \<longrightarrow> k < gt \<longrightarrow> \<not> le (m ! (ptr + k)) (m ! ptr))"

lemma low_part_eq:
  assumes "low_part le ptr lt i m" "1 \<le> lt" "lt \<le> i" "ptr + i < length m" "cmp_ok cmp le"
    "equiv le (m ! ptr) (m ! (ptr + i))"
  shows "low_part le ptr (lt + 1) (i + 1) (m[ptr + lt := m ! (ptr + i), ptr + i := m ! (ptr + lt)])"
  using assms unfolding low_part_def equiv_def
  by (auto simp: nth_list_update less_Suc_eq split: if_splits)

lemma rqsort_scan_up_spec:
  assumes "1 \<le> lt" "lt \<le> i" "i \<le> j" "ptr + j \<le> length m"
  shows "returns (rqsort_scan_up cmp ptr j i lt m s) (\<lambda>(i', lt', m', s').
     i \<le> i' \<and> i' \<le> j \<and> lt \<le> lt' \<and> lt' \<le> i' \<and> perm_in (ptr + 1) (ptr + j) m m' \<and>
     (cmp_ok cmp le \<longrightarrow> low_part le ptr lt i m \<longrightarrow>
       low_part le ptr lt' i' m' \<and> (i' < j \<longrightarrow> \<not> le (m' ! (ptr + i')) (m' ! ptr))))"
  using assms
proof (induction cmp ptr j i lt m s rule: rqsort_scan_up.induct)
  case (1 cmp ptr j i lt m s)
  note prems = "1.prems" and IH = "1.IH"
  show ?case
  proof (cases "i < j")
    case False
    then show ?thesis using prems by (subst rqsort_scan_up.simps) simp
  next
    case True
    obtain c s1 where c: "cmp (m ! ptr) (m ! (ptr + i)) s = (c, s1)" by (rule prod.exhaust)
    have at: "cmp_at cmp ptr (ptr + i) m s = Some (c, s1)"
      using cmp_at_Some [of ptr m "ptr + i" cmp s] True prems c by simp
    have sign: "cmp_ok cmp le \<Longrightarrow> c < 0 \<longleftrightarrow> \<not> le (m ! (ptr + i)) (m ! ptr)"
        "cmp_ok cmp le \<Longrightarrow> c > 0 \<longleftrightarrow> \<not> le (m ! ptr) (m ! (ptr + i))"
        "cmp_ok cmp le \<Longrightarrow> c = 0 \<longleftrightarrow> equiv le (m ! ptr) (m ! (ptr + i))"
      using cmp_ok_sign [of cmp le "m ! ptr" "m ! (ptr + i)" s c s1] c unfolding equiv_def by blast+
    consider (neg) "c < 0" | (zero) "c = 0" | (pos) "c > 0" by linarith
    then show ?thesis
    proof cases
      case neg
      then show ?thesis
        using True prems sign(1) by (subst rqsort_scan_up.simps) (auto simp: at)
    next
      case zero
      let ?m = "m[ptr + lt := m ! (ptr + i), ptr + i := m ! (ptr + lt)]"
      have sw: "swap_el (ptr + lt) (ptr + i) m = Some ?m"
        using prems True by (simp add: swap_el_Some)
      have pm: "perm_in (ptr + 1) (ptr + j) m ?m"
        using prems True by (intro swap_el_perm) auto
      have lp: "cmp_ok cmp le \<Longrightarrow> low_part le ptr lt i m \<Longrightarrow> low_part le ptr (lt + 1) (i + 1) ?m"
        using prems True sign(3) zero by (intro low_part_eq) (auto simp: equiv_def)
      have "returns (rqsort_scan_up cmp ptr j (i + 1) (lt + 1) ?m s1) (\<lambda>(i', lt', m', s').
         i + 1 \<le> i' \<and> i' \<le> j \<and> lt + 1 \<le> lt' \<and> lt' \<le> i' \<and> perm_in (ptr + 1) (ptr + j) ?m m' \<and>
         (cmp_ok cmp le \<longrightarrow> low_part le ptr (lt + 1) (i + 1) ?m \<longrightarrow>
           low_part le ptr lt' i' m' \<and> (i' < j \<longrightarrow> \<not> le (m' ! (ptr + i')) (m' ! ptr))))"
        using IH(1) [OF True at refl] zero sw prems True by simp
      then show ?thesis
        using True zero pm lp
        by (subst rqsort_scan_up.simps) (auto simp: at sw elim!: returns_mono intro: perm_in_trans)
    next
      case pos
      have lp: "cmp_ok cmp le \<Longrightarrow> low_part le ptr lt i m \<Longrightarrow> low_part le ptr lt (i + 1) m"
        using sign(2) pos by (auto simp: low_part_def less_Suc_eq)
      have "returns (rqsort_scan_up cmp ptr j (i + 1) lt m s1) (\<lambda>(i', lt', m', s').
         i + 1 \<le> i' \<and> i' \<le> j \<and> lt \<le> lt' \<and> lt' \<le> i' \<and> perm_in (ptr + 1) (ptr + j) m m' \<and>
         (cmp_ok cmp le \<longrightarrow> low_part le ptr lt (i + 1) m \<longrightarrow>
           low_part le ptr lt' i' m' \<and> (i' < j \<longrightarrow> \<not> le (m' ! (ptr + i')) (m' ! ptr))))"
        using IH(2) [OF True at refl] pos prems True by simp
      then show ?thesis
        using True pos lp
        by (subst rqsort_scan_up.simps) (auto simp: at elim!: returns_mono)
    qed
  qed
qed

lemma high_part_eq:
  assumes "high_part le ptr (Suc j) (Suc g) n m" "j \<le> g" "g < n" "1 \<le> j" "ptr + n \<le> length m"
    "equiv le (m ! ptr) (m ! (ptr + j))"
  shows "high_part le ptr j g n (m[ptr + g := m ! (ptr + j), ptr + j := m ! (ptr + g)])"
proof -
  let ?m = "m[ptr + g := m ! (ptr + j), ptr + j := m ! (ptr + g)]"
  have p: "?m ! ptr = m ! ptr" using assms(2,4) by simp
  have e: "equiv le (?m ! (ptr + k)) (m ! ptr)" if "g \<le> k" "k < n" for k
    using that assms by (cases "k = g") (auto simp: high_part_def nth_list_update equiv_def)
  have g: "\<not> le (?m ! (ptr + k)) (m ! ptr)" if "j \<le> k" "k < g" for k
    using that assms by (cases "k = j") (auto simp: high_part_def nth_list_update)
  show ?thesis unfolding high_part_def p using e g by blast
qed

lemma rqsort_scan_down_spec:
  assumes "1 \<le> i" "i \<le> j" "j \<le> gt" "gt \<le> n" "ptr + n \<le> length m"
  shows "returns (rqsort_scan_down cmp ptr i j gt m s) (\<lambda>(j', gt', m', s').
     (if i < j then i \<le> j' \<and> j' < j else Suc j' = i) \<and> Suc j' \<le> gt' \<and> gt' \<le> gt \<and>
     perm_in (ptr + i + 1) (ptr + n) m m' \<and>
     (cmp_ok cmp le \<longrightarrow> high_part le ptr j gt n m \<longrightarrow>
       high_part le ptr (Suc j') gt' n m' \<and> (i < j' \<longrightarrow> \<not> le (m' ! ptr) (m' ! (ptr + j')))))"
  using assms
proof (induction cmp ptr i j gt m s rule: rqsort_scan_down.induct)
  case (1 cmp ptr i gt m s)
  then show ?case by simp
next
  case (2 cmp ptr i j gt m s)
  note prems = "2.prems" and IH = "2.IH"
  show ?case
  proof (cases "i < j")
    case False
    then show ?thesis using prems by auto
  next
    case True
    obtain c s1 where c: "cmp (m ! ptr) (m ! (ptr + j)) s = (c, s1)" by (rule prod.exhaust)
    have at: "cmp_at cmp ptr (ptr + j) m s = Some (c, s1)"
      using cmp_at_Some [of ptr m "ptr + j" cmp s] True prems c by simp
    have sign: "cmp_ok cmp le \<Longrightarrow> c < 0 \<longleftrightarrow> \<not> le (m ! (ptr + j)) (m ! ptr)"
        "cmp_ok cmp le \<Longrightarrow> c > 0 \<longleftrightarrow> \<not> le (m ! ptr) (m ! (ptr + j))"
        "cmp_ok cmp le \<Longrightarrow> c = 0 \<longleftrightarrow> equiv le (m ! ptr) (m ! (ptr + j))"
      using cmp_ok_sign [of cmp le "m ! ptr" "m ! (ptr + j)" s c s1] c unfolding equiv_def by blast+
    consider (neg) "c < 0" | (zero) "c = 0" | (pos) "c > 0" by linarith
    then show ?thesis
    proof cases
      case pos
      then show ?thesis using True prems sign(2) by (auto simp: at)
    next
      case zero
      obtain g where g: "gt = Suc g" using prems by (cases gt) auto
      let ?m = "m[ptr + g := m ! (ptr + j), ptr + j := m ! (ptr + g)]"
      have sw: "swap_el (ptr + g) (ptr + j) m = Some ?m"
        using prems True by (intro swap_el_Some) (auto simp: g)
      have pm: "perm_in (ptr + i + 1) (ptr + n) m ?m"
        using prems True by (intro swap_el_perm) (auto simp: g)
      have hp: "cmp_ok cmp le \<Longrightarrow> high_part le ptr (Suc j) (Suc g) n m \<Longrightarrow> high_part le ptr j (g) n ?m"
        using prems True sign(3) zero by (intro high_part_eq) (auto simp: g)
      have "returns (rqsort_scan_down cmp ptr i j (g) ?m s1) (\<lambda>(j', gt', m', s').
         (if i < j then i \<le> j' \<and> j' < j else Suc j' = i) \<and> Suc j' \<le> gt' \<and> gt' \<le> g \<and>
         perm_in (ptr + i + 1) (ptr + n) ?m m' \<and>
         (cmp_ok cmp le \<longrightarrow> high_part le ptr j (g) n ?m \<longrightarrow>
           high_part le ptr (Suc j') gt' n m' \<and> (i < j' \<longrightarrow> \<not> le (m' ! ptr) (m' ! (ptr + j')))))"
        using IH(1) [OF True at refl] zero sw prems True by (simp add: g)
      then show ?thesis
        using True zero pm hp prems
        by (auto simp: at sw g elim!: returns_mono intro: perm_in_trans)
    next
      case neg
      have hp: "cmp_ok cmp le \<Longrightarrow> high_part le ptr (Suc j) gt n m \<Longrightarrow> high_part le ptr j gt n m"
        using sign(1) neg unfolding high_part_def by (metis Suc_leI le_neq_implies_less)
      have "returns (rqsort_scan_down cmp ptr i j gt m s1) (\<lambda>(j', gt', m', s').
         (if i < j then i \<le> j' \<and> j' < j else Suc j' = i) \<and> Suc j' \<le> gt' \<and> gt' \<le> gt \<and>
         perm_in (ptr + i + 1) (ptr + n) m m' \<and>
         (cmp_ok cmp le \<longrightarrow> high_part le ptr j gt n m \<longrightarrow>
           high_part le ptr (Suc j') gt' n m' \<and> (i < j' \<longrightarrow> \<not> le (m' ! ptr) (m' ! (ptr + j')))))"
        using IH(2) [OF True at refl] neg prems True by simp
      then show ?thesis
        using True neg hp by (auto simp: at elim!: returns_mono)
    qed
  qed
qed

lemma low_part_cong:
  "low_part le ptr lt i m \<Longrightarrow> perm_in (ptr + i) hi m m' \<Longrightarrow> 1 \<le> lt \<Longrightarrow> lt \<le> i \<Longrightarrow> ptr + i \<le> length m
     \<Longrightarrow> low_part le ptr lt i m'"
  by (auto simp: low_part_def perm_in_def)

lemma high_part_cong:
  "high_part le ptr j gt n m \<Longrightarrow> perm_in (ptr + 1) (ptr + j) m m' \<Longrightarrow> j \<le> gt \<Longrightarrow> gt \<le> n \<Longrightarrow> 0 < n
     \<Longrightarrow> ptr + n \<le> length m \<Longrightarrow> high_part le ptr j gt n m'"
  by (auto simp: high_part_def perm_in_def)

lemma partition_swap:
  assumes "low_part le ptr lt i m" "high_part le ptr (Suc j) gt n m" "1 \<le> lt" "lt \<le> i" "i < j" "j < gt"
    "gt \<le> n" "ptr + n \<le> length m" "\<not> le (m ! (ptr + i)) (m ! ptr)" "\<not> le (m ! ptr) (m ! (ptr + j))"
    and m': "m' = m[ptr + i := m ! (ptr + j), ptr + j := m ! (ptr + i)]"
  shows "low_part le ptr lt (i + 1) m'" "high_part le ptr j gt n m'"
proof -
  have p: "m' ! ptr = m ! ptr" using assms by simp
  show "low_part le ptr lt (i + 1) m'"
    using assms p by (auto simp: low_part_def less_Suc_eq nth_list_update)
  have "m' ! (ptr + j) = m ! (ptr + i)" using assms by simp
  moreover have "m' ! (ptr + k) = m ! (ptr + k)" if "j < k" for k using assms that by simp
  ultimately have nth: "m' ! (ptr + k) = (if k = j then m ! (ptr + i) else m ! (ptr + k))" if "j \<le> k" for k
    using that by (cases "k = j") auto
  show "high_part le ptr j gt n m'"
    using assms(2,6,9) by (auto simp: high_part_def p nth)
qed

lemma rqsort_partition_spec:
  assumes "1 \<le> lt" "lt \<le> i" "i \<le> j" "j \<le> gt" "gt \<le> n" "ptr + n \<le> length m"
  shows "returns (rqsort_partition cmp ptr i lt j gt m s) (\<lambda>(i', lt', gt', m', s').
     1 \<le> lt' \<and> lt' \<le> i' \<and> i' \<le> gt' \<and> gt' \<le> n \<and> perm_in (ptr + 1) (ptr + n) m m' \<and>
     (cmp_ok cmp le \<longrightarrow> low_part le ptr lt i m \<longrightarrow> high_part le ptr j gt n m \<longrightarrow>
       low_part le ptr lt' i' m' \<and> high_part le ptr i' gt' n m'))"
  using assms
proof (induction "j - i" arbitrary: i lt j gt m s rule: less_induct)
  case less
  note prems = less.prems
  obtain i1 lt1 m1 s1 where u: "rqsort_scan_up cmp ptr j i lt m s = Some (i1, lt1, m1, s1)"
    and b1: "i \<le> i1" "i1 \<le> j" "lt \<le> lt1" "lt1 \<le> i1" and p1: "perm_in (ptr + 1) (ptr + j) m m1"
    and f1: "cmp_ok cmp le \<Longrightarrow> low_part le ptr lt i m \<Longrightarrow>
       low_part le ptr lt1 i1 m1 \<and> (i1 < j \<longrightarrow> \<not> le (m1 ! (ptr + i1)) (m1 ! ptr))"
    using rqsort_scan_up_spec [of lt i j ptr m cmp s le] prems by (auto elim!: returnsE)
  have len1: "length m1 = length m" using p1 by (rule perm_in_length)
  obtain j1 gt1 m2 s2 where d: "rqsort_scan_down cmp ptr i1 j gt m1 s1 = Some (j1, gt1, m2, s2)"
    and b2: "if i1 < j then i1 \<le> j1 \<and> j1 < j else Suc j1 = i1" "Suc j1 \<le> gt1" "gt1 \<le> gt"
    and p2: "perm_in (ptr + i1 + 1) (ptr + n) m1 m2"
    and f2: "cmp_ok cmp le \<Longrightarrow> high_part le ptr j gt n m1 \<Longrightarrow>
       high_part le ptr (Suc j1) gt1 n m2 \<and> (i1 < j1 \<longrightarrow> \<not> le (m2 ! ptr) (m2 ! (ptr + j1)))"
    using rqsort_scan_down_spec [of i1 j gt n ptr m1 cmp s1 le] prems b1 len1 by (auto elim!: returnsE)
  have len2: "length m2 = length m" using p2 len1 perm_in_length by metis
  have p12: "perm_in (ptr + 1) (ptr + n) m m2"
    using perm_in_trans [OF perm_in_mono [OF p1] perm_in_mono [OF p2], of "ptr + 1" "ptr + n"] prems
    by simp
  have g12: "low_part le ptr lt1 i1 m2 \<and> (i1 < j \<longrightarrow> \<not> le (m2 ! (ptr + i1)) (m2 ! ptr)) \<and>
      high_part le ptr (Suc j1) gt1 n m2 \<and> (i1 < j1 \<longrightarrow> \<not> le (m2 ! ptr) (m2 ! (ptr + j1)))"
    if "cmp_ok cmp le" "low_part le ptr lt i m" "high_part le ptr j gt n m"
  proof -
    have p2': "perm_in (ptr + i1) (ptr + n) m1 m2" by (rule perm_in_mono [OF p2]) auto
    have "low_part le ptr lt1 i1 m2"
      using f1 [OF that(1,2)] low_part_cong [OF _ p2', of le lt1] b1 prems len1 by simp
    moreover have "high_part le ptr j gt n m1"
      using high_part_cong [OF that(3) p1] prems by linarith
    moreover have "m2 ! ptr = m1 ! ptr" "i1 < j \<longrightarrow> m2 ! (ptr + i1) = m1 ! (ptr + i1)"
      using perm_in_nth [OF p2] len1 prems by auto
    ultimately show ?thesis using f1 [OF that(1,2)] f2 [OF that(1)] by auto
  qed
  show ?case
  proof (cases "i1 \<ge> j1")
    case True
    have "j1 = i1 \<and> i1 < j \<or> Suc j1 = i1" using True b2(1) by (auto split: if_splits)
    then have hp: "high_part le ptr i1 gt1 n m2"
      if "i1 < j \<longrightarrow> \<not> le (m2 ! (ptr + i1)) (m2 ! ptr)" "high_part le ptr (Suc j1) gt1 n m2"
      using that unfolding high_part_def by (metis Suc_leI le_neq_implies_less)
    have "i1 \<le> gt1" using True b2 by (auto split: if_splits)
    moreover have "rqsort_partition cmp ptr i lt j gt m s = Some (i1, lt1, gt1, m2, s2)"
      using True by (subst rqsort_partition.simps) (simp add: u d)
    ultimately show ?thesis
      using b1 b2 prems p12 g12 hp by simp
  next
    case False
    let ?m = "m2[ptr + i1 := m2 ! (ptr + j1), ptr + j1 := m2 ! (ptr + i1)]"
    have lt: "i1 < j" "j1 < j" "j1 < gt1" using False b2 by (auto split: if_splits)
    have sw: "swap_el (ptr + i1) (ptr + j1) m2 = Some ?m"
      using False lt prems len2 by (intro swap_el_Some) auto
    have p3: "perm_in (ptr + 1) (ptr + n) m2 ?m"
      using False lt prems len2 b1 by (intro swap_el_perm) auto
    have "returns (rqsort_partition cmp ptr (i1 + 1) lt1 j1 gt1 ?m s2) (\<lambda>(i', lt', gt', m', s').
     1 \<le> lt' \<and> lt' \<le> i' \<and> i' \<le> gt' \<and> gt' \<le> n \<and> perm_in (ptr + 1) (ptr + n) ?m m' \<and>
     (cmp_ok cmp le \<longrightarrow> low_part le ptr lt1 (i1 + 1) ?m \<longrightarrow> high_part le ptr j1 gt1 n ?m \<longrightarrow>
       low_part le ptr lt' i' m' \<and> high_part le ptr i' gt' n m'))"
      using False lt b1 b2 prems len2 by (intro less.hyps) auto
    moreover have "low_part le ptr lt1 (i1 + 1) ?m \<and> high_part le ptr j1 gt1 n ?m"
      if "cmp_ok cmp le" "low_part le ptr lt i m" "high_part le ptr j gt n m"
      using g12 [OF that] partition_swap [OF _ _ _ _ _ _ _ _ _ _ refl, of le ptr lt1 i1 m2 j1 gt1 n]
        False lt b1 b2 prems len2 by simp
    moreover have "rqsort_partition cmp ptr i lt j gt m s = rqsort_partition cmp ptr (i1 + 1) lt1 j1 gt1 ?m s2"
      using False by (subst rqsort_partition.simps) (simp add: u d sw)
    moreover have "perm_in (ptr + 1) (ptr + n) m ?m"
      by (rule perm_in_trans [OF p12 p3])
    ultimately show ?thesis
      by (auto elim!: returns_mono intro: perm_in_trans)
  qed
qed

lemma swap_block_nth:
  assumes "a + n \<le> b" "b + n \<le> length m"
  shows "returns (swap_block a b n m) (\<lambda>m'. length m' = length m \<and> mset m' = mset m \<and>
     (\<forall>x < length m. m' ! x = (if a \<le> x \<and> x < a + n then m ! (b + (x - a))
        else if b \<le> x \<and> x < b + n then m ! (a + (x - b)) else m ! x)))"
  using assms
proof (induction n arbitrary: a b m)
  case 0
  then show ?case by auto
next
  case (Suc n)
  let ?m = "m[a := m ! b, b := m ! a]"
  have sw: "swap_el a b m = Some ?m" using Suc.prems by (intro swap_el_Some) auto
  have ms: "mset ?m = mset m" using Suc.prems mset_swap [of b m a] by simp
  have "returns (swap_block (a + 1) (b + 1) n ?m) (\<lambda>m'. length m' = length ?m \<and> mset m' = mset ?m \<and>
     (\<forall>x < length ?m. m' ! x = (if a + 1 \<le> x \<and> x < a + 1 + n then ?m ! (b + 1 + (x - (a + 1)))
        else if b + 1 \<le> x \<and> x < b + 1 + n then ?m ! (a + 1 + (x - (b + 1))) else ?m ! x)))"
    using Suc.prems by (intro Suc.IH) auto
  then obtain m' where m': "swap_block (a + 1) (b + 1) n ?m = Some m'" "length m' = length m" "mset m' = mset m"
    and nth: "\<And>x. x < length m \<Longrightarrow> m' ! x = (if a + 1 \<le> x \<and> x < a + 1 + n then ?m ! (b + 1 + (x - (a + 1)))
        else if b + 1 \<le> x \<and> x < b + 1 + n then ?m ! (a + 1 + (x - (b + 1))) else ?m ! x)"
    using ms by (auto elim!: returnsE)
  have "m' ! x = (if a \<le> x \<and> x < a + Suc n then m ! (b + (x - a))
        else if b \<le> x \<and> x < b + Suc n then m ! (a + (x - b)) else m ! x)" if x: "x < length m" for x
  proof -
    consider "x = a" | "x = b" | "a < x" "x < a + 1 + n" | "b < x" "x < b + 1 + n"
      | "x < a \<or> a + 1 + n \<le> x" "x < b \<or> b + 1 + n \<le> x"
      by linarith
    then show ?thesis
    proof cases
      case 3
      then have "b + 1 + (x - (a + 1)) = b + (x - a)" "x \<noteq> b" using Suc.prems by auto
      then show ?thesis using 3 nth [OF x] Suc.prems by simp
    next
      case 4
      then have "a + 1 + (x - (b + 1)) = a + (x - b)" "\<not> x < a + Suc n" "\<not> x < a + 1 + n" "a + (x - b) \<noteq> b"
        using Suc.prems by auto
      then show ?thesis using 4 nth [OF x] Suc.prems by simp
    next
      case 5
      then show ?thesis using nth [OF x] Suc.prems by (auto simp: nth_list_update)
    qed (use nth [OF x] Suc.prems in simp_all)
  qed
  then show ?case using m' sw by simp
qed

text \<open>Swapping the smaller of two adjacent spans with the end of the other exchanges their order.\<close>

lemma swap_spans:
  assumes "x \<le> y" "a + y \<le> length m" and span: "span = min x (y - x)"
    and "\<And>k. k < x \<Longrightarrow> P (m ! (a + k))" "\<And>k. x \<le> k \<Longrightarrow> k < y \<Longrightarrow> Q (m ! (a + k))"
  shows "returns (swap_block a (a + y - span) span m) (\<lambda>m'. perm_in a (a + y) m m' \<and>
     (\<forall>k < y - x. Q (m' ! (a + k))) \<and> (\<forall>k. y - x \<le> k \<longrightarrow> k < y \<longrightarrow> P (m' ! (a + k))))"
proof -
  have "returns (swap_block a (a + y - span) span m) (\<lambda>m'. length m' = length m \<and> mset m' = mset m \<and>
     (\<forall>z < length m. m' ! z = (if a \<le> z \<and> z < a + span then m ! (a + y - span + (z - a))
        else if a + y - span \<le> z \<and> z < a + y - span + span then m ! (a + (z - (a + y - span))) else m ! z)))"
    using assms(1,2) span by (intro swap_block_nth) auto
  then obtain m' where m': "swap_block a (a + y - span) span m = Some m'" "length m' = length m" "mset m' = mset m"
    and nth: "\<And>z. z < length m \<Longrightarrow> m' ! z = (if a \<le> z \<and> z < a + span then m ! (a + y - span + (z - a))
        else if a + y - span \<le> z \<and> z < a + y - span + span then m ! (a + (z - (a + y - span))) else m ! z)"
    by (auto elim!: returnsE)
  have sp: "span \<le> x" "span \<le> y - x" "span \<le> y" "span = x \<or> span = y - x" using span by auto
  have "m' ! k = m ! k" if "k < length m" "k < a \<or> a + y \<le> k" for k
    using nth [OF that(1)] that(2) sp(3) by auto
  then have "perm_in a (a + y) m m'"
    using m' by (auto simp: perm_in_def)
  moreover have "Q (m' ! (a + k))" if k: "k < y - x" for k
  proof (cases "k < span")
    case True
    then have "m' ! (a + k) = m ! (a + (y - span + k))" using nth [of "a + k"] k sp assms(1,2) by (simp add: add.assoc)
    then show ?thesis using assms(5) [of "y - span + k"] True sp assms(1) by simp
  next
    case False
    then have "x \<le> k" using sp k by linarith
    have "a + k < a + y - span" using k sp(1,3) assms(1) by linarith
    then have "m' ! (a + k) = m ! (a + k)" using nth [of "a + k"] k False assms(1,2) by auto
    then show ?thesis using assms(5) [of k] \<open>x \<le> k\<close> k by simp
  qed
  moreover have "P (m' ! (a + k))" if k: "y - x \<le> k" "k < y" for k
  proof (cases "y - span \<le> k")
    case True
    have e: "a + k - (a + y - span) = k - (y - span)" using True sp(3) by linarith
    have "\<not> k < span" "a + y - span \<le> a + k" "a + k < a + y - span + span" "a + k < length m"
      using sp k True assms(1,2) by linarith+
    then have "m' ! (a + k) = m ! (a + (k - (y - span)))"
      using nth [of "a + k"] e k by simp
    then show ?thesis using assms(4) [of "k - (y - span)"] True sp assms(1) k by simp
  next
    case False
    then have "k < x" using sp k by linarith
    have "a + k < a + y - span" "\<not> k < span" using k sp False by linarith+
    then have "m' ! (a + k) = m ! (a + k)" using nth [of "a + k"] k assms(1,2) by auto
    then show ?thesis using assms(4) [of k] \<open>k < x\<close> by simp
  qed
  ultimately show ?thesis using m'(1) by simp
qed

lemma med3_returns:
  "a < length m \<Longrightarrow> b < length m \<Longrightarrow> c < length m \<Longrightarrow> returns (med3 cmp a b c m s) (\<lambda>(p, s'). p \<in> {a, b, c})"
  by (simp add: med3_def cmp_at_Some split: prod.split)

definition three_parts :: "('a \<Rightarrow> 'a \<Rightarrow> bool) \<Rightarrow> nat \<Rightarrow> nat \<Rightarrow> nat \<Rightarrow> nat \<Rightarrow> 'a list \<Rightarrow> bool" where
  "three_parts le ptr lt gt n m \<longleftrightarrow> (\<exists>p.
     (\<forall>k < lt. \<not> le p (m ! (ptr + k))) \<and>
     (\<forall>k. lt \<le> k \<longrightarrow> k < gt \<longrightarrow> equiv le (m ! (ptr + k)) p) \<and>
     (\<forall>k. gt \<le> k \<longrightarrow> k < n \<longrightarrow> \<not> le (m ! (ptr + k)) p))"

lemma rqsort_round_spec:
  assumes "6 < n" "ptr + n \<le> length m"
  shows "returns (rqsort_round cmp ptr n m s) (\<lambda>(lt, gt, m', s').
     lt < gt \<and> gt \<le> n \<and> perm_in ptr (ptr + n) m m' \<and> (cmp_ok cmp le \<longrightarrow> three_parts le ptr lt gt n m'))"
proof -
  define m4 where "m4 = n div 4"
  have m4: "ptr + m4 < ptr + n" "ptr + 2 * m4 < ptr + n" "ptr + 3 * m4 < ptr + n"
    using assms by (auto simp: m4_def)
  obtain p s1 where md: "med3 cmp (ptr + m4) (ptr + 2 * m4) (ptr + 3 * m4) m s = Some (p, s1)"
    and p: "ptr \<le> p" "p < ptr + n"
    using med3_returns [of "ptr + m4" m "ptr + 2 * m4" "ptr + 3 * m4" cmp s] m4 assms
    by (auto elim!: returnsE)
  define m1 where "m1 = m[ptr := m ! p, p := m ! ptr]"
  have sw: "swap_el ptr p m = Some m1" using assms p by (simp add: swap_el_Some m1_def)
  have p1: "perm_in ptr (ptr + n) m m1" unfolding m1_def using assms p by (intro swap_el_perm) auto
  have len1: "length m1 = length m" by (simp add: m1_def)
  obtain i lt gt m2 s2 where pt: "rqsort_partition cmp ptr 1 1 n n m1 s1 = Some (i, lt, gt, m2, s2)"
    and b: "1 \<le> lt" "lt \<le> i" "i \<le> gt" "gt \<le> n" and p2: "perm_in (ptr + 1) (ptr + n) m1 m2"
    and f: "cmp_ok cmp le \<Longrightarrow> low_part le ptr 1 1 m1 \<Longrightarrow> high_part le ptr n n n m1 \<Longrightarrow>
      low_part le ptr lt i m2 \<and> high_part le ptr i gt n m2"
    using rqsort_partition_spec [of 1 1 n n n ptr m1 cmp s1 le] assms len1 by (auto elim!: returnsE)
  have len2: "length m2 = length m" using p2 len1 perm_in_length by metis
  define v where "v = m2 ! ptr"
  define span where "span = min lt (i - lt)"
  define span2 where "span2 = min (gt - i) ((n - i) - (gt - i))"
  let ?ok = "cmp_ok cmp le"
  have parts: "?ok \<Longrightarrow> low_part le ptr lt i m2 \<and> high_part le ptr i gt n m2"
    using f by (auto simp: low_part_def high_part_def equiv_def cmp_ok_refl)
  obtain m3 where b1: "swap_block ptr (ptr + i - span) span m2 = Some m3"
    and p3: "perm_in ptr (ptr + i) m2 m3"
    and f3: "\<forall>k < i - lt. ?ok \<longrightarrow> \<not> le v (m3 ! (ptr + k))"
      "\<forall>k. i - lt \<le> k \<longrightarrow> k < i \<longrightarrow> ?ok \<longrightarrow> equiv le (m3 ! (ptr + k)) v"
    using swap_spans [of lt i ptr m2 span "\<lambda>x. ?ok \<longrightarrow> equiv le x v" "\<lambda>x. ?ok \<longrightarrow> \<not> le v x"]
      parts b assms len2 by (auto simp: low_part_def v_def span_def elim!: returnsE)
  have len3: "length m3 = length m" using p3 len2 perm_in_length by metis
  have keep: "m3 ! (ptr + k) = m2 ! (ptr + k)" if "i \<le> k" "k < n" for k
    using that perm_in_nth [OF p3] len2 assms by auto
  have hi: "?ok \<longrightarrow> \<not> le (m3 ! (ptr + i + k)) v" if "k < gt - i" for k
    using that parts keep [of "i + k"] b by (auto simp: high_part_def v_def add.assoc)
  have eq: "?ok \<longrightarrow> equiv le (m3 ! (ptr + i + k)) v" if "gt - i \<le> k" "k < n - i" for k
    using that parts keep [of "i + k"] b by (auto simp: high_part_def v_def add.assoc)
  have le: "gt - i \<le> n - i" using b by (simp add: diff_le_mono)
  obtain m4' where b2: "swap_block (ptr + i) (ptr + i + (n - i) - span2) span2 m3 = Some m4'"
    and p4: "perm_in (ptr + i) (ptr + i + (n - i)) m3 m4'"
    and f4: "\<forall>k < (n - i) - (gt - i). ?ok \<longrightarrow> equiv le (m4' ! (ptr + i + k)) v"
      "\<forall>k. (n - i) - (gt - i) \<le> k \<longrightarrow> k < n - i \<longrightarrow> ?ok \<longrightarrow> \<not> le (m4' ! (ptr + i + k)) v"
    using swap_spans [of "gt - i" "n - i" "ptr + i" m3 span2 "\<lambda>x. ?ok \<longrightarrow> \<not> le x v" "\<lambda>x. ?ok \<longrightarrow> equiv le x v"]
      hi eq le b assms len3 by (auto simp: span2_def elim!: returnsE)
  have keep4: "m4' ! (ptr + k) = m3 ! (ptr + k)" if "k < i" for k
    using that perm_in_nth [OF p4] len3 b assms by auto
  have three: "three_parts le ptr (i - lt) (n - (gt - i)) n m4'" if ok: ?ok
    unfolding three_parts_def
  proof (intro exI [of _ v] conjI allI impI)
    fix k assume "k < i - lt"
    then show "\<not> le v (m4' ! (ptr + k))" using f3(1) ok keep4 by simp
  next
    fix k assume k: "i - lt \<le> k" "k < n - (gt - i)"
    show "equiv le (m4' ! (ptr + k)) v"
    proof (cases "k < i")
      case True
      then show ?thesis using f3(2) ok keep4 k by simp
    next
      case False
      then show ?thesis using f4(1) [rule_format, of "k - i"] ok k b by simp
    qed
  next
    fix k assume k: "n - (gt - i) \<le> k" "k < n"
    then show "\<not> le (m4' ! (ptr + k)) v"
      using f4(2) [rule_format, of "k - i"] ok b by simp
  qed
  have pall: "perm_in ptr (ptr + n) m m4'"
    using perm_in_mono [OF p2, of ptr "ptr + n"] perm_in_mono [OF p3, of ptr "ptr + n"]
      perm_in_mono [OF p4, of ptr "ptr + n"] p1 b by (simp, meson perm_in_trans)
  have "rqsort_round cmp ptr n m s = Some (i - lt, n - (gt - i), m4', s2)"
  proof -
    have "ptr + i + (n - i) - span2 = ptr + n - span2" using b by simp
    moreover have "(if lt > i - lt then i - lt else lt) = span" by (simp add: span_def)
    moreover have "(if n - gt > gt - i then gt - i else n - gt) = span2" using b by (auto simp: span2_def)
    ultimately show ?thesis
      using md sw pt b1 b2 by (simp add: rqsort_round_def Let_def m4_def [symmetric])
  qed
  then show ?thesis using b pall three by auto
qed

section \<open>Heap sort\<close>

definition kid :: "nat \<Rightarrow> nat \<Rightarrow> bool" where
  "kid k c \<longleftrightarrow> c = k * 2 + 1 \<or> c = k * 2 + 2"

definition heap_prop :: "('a \<Rightarrow> 'a \<Rightarrow> bool) \<Rightarrow> nat \<Rightarrow> nat \<Rightarrow> nat \<Rightarrow> 'a list \<Rightarrow> bool" where
  "heap_prop le base lo n m \<longleftrightarrow>
     (\<forall>k c. lo \<le> k \<longrightarrow> c < n \<longrightarrow> kid k c \<longrightarrow> le (m ! (base + c)) (m ! (base + k)))"

text \<open>The heap property except between \<open>r\<close> and its children.\<close>

definition heap_ex :: "('a \<Rightarrow> 'a \<Rightarrow> bool) \<Rightarrow> nat \<Rightarrow> nat \<Rightarrow> nat \<Rightarrow> nat \<Rightarrow> 'a list \<Rightarrow> bool" where
  "heap_ex le base lo n r m \<longleftrightarrow>
     (\<forall>k c. lo \<le> k \<longrightarrow> k \<noteq> r \<longrightarrow> c < n \<longrightarrow> kid k c \<longrightarrow> le (m ! (base + c)) (m ! (base + k))) \<and>
     (\<forall>k c. lo \<le> k \<longrightarrow> kid k r \<longrightarrow> c < n \<longrightarrow> kid r c \<longrightarrow> le (m ! (base + c)) (m ! (base + k)))"

lemma kid_less: "kid k c \<Longrightarrow> k < c"
  by (auto simp: kid_def)

lemma kid_unique: "kid k c \<Longrightarrow> kid k' c \<Longrightarrow> k = k'"
  by (auto simp: kid_def)

lemma heap_ex_close:
  "heap_ex le base lo n r m \<Longrightarrow> (\<And>c. c < n \<Longrightarrow> kid r c \<Longrightarrow> le (m ! (base + c)) (m ! (base + r)))
     \<Longrightarrow> heap_prop le base lo n m"
  unfolding heap_ex_def heap_prop_def by metis

lemma heap_ex_swap:
  assumes h: "heap_ex le base lo n r m" and c: "kid r c" "c < n" "lo \<le> r" and len: "base + n \<le> length m"
    and le: "le (m ! (base + r)) (m ! (base + c))"
    and big: "\<And>d. d < n \<Longrightarrow> kid r d \<Longrightarrow> le (m ! (base + d)) (m ! (base + c))"
    and m': "m' = m[base + r := m ! (base + c), base + c := m ! (base + r)]"
  shows "heap_ex le base lo n c m'"
proof -
  have rc: "r < c" using c kid_less by blast
  have nth: "m' ! (base + x) = (if x = r then m ! (base + c) else if x = c then m ! (base + r) else m ! (base + x))" for x
    using rc c len by (auto simp: m' nth_list_update)
  have h1: "\<And>k d. lo \<le> k \<Longrightarrow> k \<noteq> r \<Longrightarrow> d < n \<Longrightarrow> kid k d \<Longrightarrow> le (m ! (base + d)) (m ! (base + k))"
    and h2: "\<And>k d. lo \<le> k \<Longrightarrow> kid k r \<Longrightarrow> d < n \<Longrightarrow> kid r d \<Longrightarrow> le (m ! (base + d)) (m ! (base + k))"
    using h unfolding heap_ex_def by blast+
  have 1: "le (m' ! (base + d)) (m' ! (base + k))" if "lo \<le> k" "k \<noteq> c" "d < n" "kid k d" for k d
  proof (cases "k = r")
    case True
    then have "d \<noteq> r" using that kid_less by blast
    then show ?thesis using True that le big by (simp add: nth)
  next
    case False
    then have "d \<noteq> c" using that kid_unique c by blast
    then show ?thesis
      using False that h1 [of k d] h2 [of k c] c by (cases "d = r") (auto simp: nth)
  qed
  have 2: "le (m' ! (base + d)) (m' ! (base + k))" if "lo \<le> k" "kid k c" "d < n" "kid c d" for k d
  proof -
    have "k = r" using that kid_unique c by blast
    moreover have "d \<noteq> r" "d \<noteq> c" using that kid_less rc by fastforce+
    ultimately show ?thesis using h1 [of c d] that c rc by (simp add: nth)
  qed
  show ?thesis unfolding heap_ex_def using 1 2 by blast
qed

lemma heapsortx_child_spec:
  assumes "r * 2 + 1 < n" "base + n \<le> length m"
  shows "returns (heapsortx_child cmp base n (r * 2 + 1) m s)
    (\<lambda>(c, s'). kid r c \<and> c < n \<and> (cmp_ok cmp le \<longrightarrow>
       (\<forall>d. d < n \<longrightarrow> kid r d \<longrightarrow> le (m ! (base + d)) (m ! (base + c)))))"
proof (cases "r * 2 + 1 < n - 1")
  case True
  let ?a = "m ! (base + (r * 2 + 1))" and ?b = "m ! (base + (r * 2 + 1) + 1)"
  obtain v s1 where v: "cmp ?a ?b s = (v, s1)" by (rule prod.exhaust)
  have at: "cmp_at cmp (base + (r * 2 + 1)) (base + (r * 2 + 1) + 1) m s = Some (v, s1)"
    using cmp_at_Some [of "base + (r * 2 + 1)" m "base + (r * 2 + 1) + 1" cmp s] True assms v by simp
  have "le (m ! (base + d)) (m ! (base + (if v \<le> 0 then r * 2 + 1 + 1 else r * 2 + 1)))"
    if ok: "cmp_ok cmp le" and d: "kid r d" for d
  proof -
    have "v > 0 \<longleftrightarrow> \<not> le ?a ?b" by (rule cmp_ok_sign(2) [OF ok v])
    moreover have "le ?a ?b \<or> le ?b ?a" "le ?a ?a" "le ?b ?b"
      using cmp_ok_total [OF ok] by auto
    ultimately show ?thesis using d by (auto simp: kid_def add.assoc not_le)
  qed
  moreover have "kid r (r * 2 + 1)" "kid r (r * 2 + 1 + 1)" by (auto simp: kid_def)
  moreover have "heapsortx_child cmp base n (r * 2 + 1) m s
      = Some (if v \<le> 0 then r * 2 + 1 + 1 else r * 2 + 1, s1)"
    using True at by (simp add: heapsortx_child_def)
  ultimately show ?thesis using True by (simp, linarith)
next
  case False
  then have "d = r * 2 + 1" if "d < n" "kid r d" for d using that by (auto simp: kid_def)
  then show ?thesis
    using False assms by (auto simp: heapsortx_child_def kid_def intro: cmp_ok_refl)
qed

lemma heapsortx_sift_spec:
  assumes "base + n \<le> length m"
  shows "returns (heapsortx_sift cmp base n r m s) (\<lambda>(m', s'). perm_in (base + r) (base + n) m m' \<and>
     (cmp_ok cmp le \<longrightarrow> lo \<le> r \<longrightarrow> heap_ex le base lo n r m \<longrightarrow> heap_prop le base lo n m'))"
  using assms
proof (induction "n - r" arbitrary: r m s rule: less_induct)
  case less
  show ?case
  proof (cases "r * 2 + 1 < n")
    case False
    have "heap_ex le base lo n r m \<Longrightarrow> heap_prop le base lo n m"
      using False by (intro heap_ex_close) (auto simp: kid_def)
    then show ?thesis using False by (subst heapsortx_sift.simps) (simp add: Let_def)
  next
    case True
    obtain c s1 where pick: "heapsortx_child cmp base n (r * 2 + 1) m s = Some (c, s1)"
      and c: "kid r c" "c < n"
      and big: "cmp_ok cmp le \<Longrightarrow> \<forall>d. d < n \<longrightarrow> kid r d \<longrightarrow> le (m ! (base + d)) (m ! (base + c))"
      using heapsortx_child_spec [OF True less.prems, of cmp s le] by (auto elim!: returnsE)
    have rc: "r < c" using c kid_less by blast
    obtain v s2 where v: "cmp (m ! (base + r)) (m ! (base + c)) s1 = (v, s2)" by (rule prod.exhaust)
    have at: "cmp_at cmp (base + r) (base + c) m s1 = Some (v, s2)"
      using cmp_at_Some [of "base + r" m "base + c" cmp s1] c rc less.prems v by simp
    have sign: "cmp_ok cmp le \<Longrightarrow> v > 0 \<longleftrightarrow> \<not> le (m ! (base + r)) (m ! (base + c))"
      using cmp_ok_sign(2) [of cmp le "m ! (base + r)" "m ! (base + c)" s1 v s2] v by blast
    show ?thesis
    proof (cases "v > 0")
      case pos: True
      have "heap_prop le base lo n m" if ok: "cmp_ok cmp le" and h: "heap_ex le base lo n r m"
      proof (rule heap_ex_close [OF h])
        fix d assume "d < n" "kid r d"
        then have "le (m ! (base + d)) (m ! (base + c))" using big ok by blast
        moreover have "le (m ! (base + c)) (m ! (base + r))"
          using sign pos ok cmp_ok_total [OF ok] by blast
        ultimately show "le (m ! (base + d)) (m ! (base + r))" using cmp_ok_trans [OF ok] by blast
      qed
      then show ?thesis
        using pos True by (subst heapsortx_sift.simps) (simp add: Let_def pick [simplified] at)
    next
      case neg: False
      let ?m = "m[base + r := m ! (base + c), base + c := m ! (base + r)]"
      have sw: "swap_el (base + r) (base + c) m = Some ?m"
        using c rc less.prems by (intro swap_el_Some) auto
      have pm: "perm_in (base + r) (base + n) m ?m"
        using c rc less.prems by (intro swap_el_perm) auto
      have ih: "returns (heapsortx_sift cmp base n c ?m s2) (\<lambda>(m', s'). perm_in (base + c) (base + n) ?m m' \<and>
         (cmp_ok cmp le \<longrightarrow> lo \<le> c \<longrightarrow> heap_ex le base lo n c ?m \<longrightarrow> heap_prop le base lo n m'))"
        using c rc less.prems by (intro less.hyps) auto
      have hx: "heap_ex le base lo n c ?m"
        if ok: "cmp_ok cmp le" and lo: "lo \<le> r" and h: "heap_ex le base lo n r m"
      proof (rule heap_ex_swap [OF h c lo less.prems _ _ refl])
        show "le (m ! (base + r)) (m ! (base + c))" using sign [OF ok] neg by blast
        show "\<And>d. d < n \<Longrightarrow> kid r d \<Longrightarrow> le (m ! (base + d)) (m ! (base + c))" using big [OF ok] by blast
      qed
      have eq: "heapsortx_sift cmp base n r m s = heapsortx_sift cmp base n c ?m s2"
        using neg True by (subst heapsortx_sift.simps) (simp add: Let_def pick [simplified] at sw)
      have "perm_in (base + c) (base + n) ?m m' \<Longrightarrow> perm_in (base + r) (base + n) m m'" for m'
        using perm_in_trans [OF pm] perm_in_mono [of "base + c" "base + n" ?m m' "base + r" "base + n"] rc by simp
      then show ?thesis
        unfolding eq using ih hx rc by (auto intro: returns_mono [OF ih])
    qed
  qed
qed

lemma heapsortx_build_spec:
  assumes "base + n \<le> length m"
  shows "returns (heapsortx_build cmp base n i m s) (\<lambda>(m', s'). perm_in base (base + n) m m' \<and>
     (cmp_ok cmp le \<longrightarrow> heap_prop le base i n m \<longrightarrow> heap_prop le base 0 n m'))"
  using assms
proof (induction i arbitrary: m s)
  case 0
  then show ?case by simp
next
  case (Suc i)
  have ex: "heap_prop le base (Suc i) n m \<Longrightarrow> heap_ex le base i n i m"
    by (auto simp: heap_prop_def heap_ex_def Suc_le_eq dest: kid_less)
  obtain m1 s1 where sf: "heapsortx_sift cmp base n i m s = Some (m1, s1)"
    and p1: "perm_in (base + i) (base + n) m m1"
    and f1: "cmp_ok cmp le \<Longrightarrow> heap_prop le base (Suc i) n m \<Longrightarrow> heap_prop le base i n m1"
    using heapsortx_sift_spec [OF Suc.prems, of cmp i s le i] ex by (auto elim!: returnsE)
  have p1': "perm_in base (base + n) m m1" by (rule perm_in_mono [OF p1]) auto
  have len: "base + n \<le> length m1" using Suc.prems perm_in_length [OF p1] by simp
  show ?case
    using Suc.IH [OF len, of s1] sf p1' f1 by (auto elim!: returns_mono intro: perm_in_trans)
qed

lemma heap_root:
  assumes "heap_prop le base 0 n m" "cmp_ok cmp le" "k < n"
  shows "le (m ! (base + k)) (m ! base)"
  using assms(3)
proof (induction k rule: less_induct)
  case (less k)
  show ?case
  proof (cases k)
    case 0
    then show ?thesis using cmp_ok_refl assms(2) by auto
  next
    case (Suc k')
    define p where "p = k' div 2"
    have p: "kid p k" "p < k" using Suc by (auto simp: kid_def p_def)
    then have "le (m ! (base + k)) (m ! (base + p))"
      using assms(1) less.prems by (auto simp: heap_prop_def)
    moreover have "le (m ! (base + p)) (m ! base)" using less p by auto
    ultimately show ?thesis using cmp_ok_trans [OF assms(2)] by blast
  qed
qed

text \<open>Every element from \<open>i\<close> on is in its final place.\<close>

definition tail_ok :: "('a \<Rightarrow> 'a \<Rightarrow> bool) \<Rightarrow> nat \<Rightarrow> nat \<Rightarrow> nat \<Rightarrow> 'a list \<Rightarrow> bool" where
  "tail_ok le base n i m \<longleftrightarrow>
     (\<forall>a b. a < b \<longrightarrow> i \<le> b \<longrightarrow> b < n \<longrightarrow> le (m ! (base + a)) (m ! (base + b)))"

lemma extract_step:
  assumes "base + n \<le> length m" "Suc i < n"
  shows "\<exists>m1 m2 s2. swap_el base (base + Suc i) m = Some m1 \<and>
     heapsortx_sift cmp base (Suc i) 0 m1 s = Some (m2, s2) \<and> perm_in base (base + n) m m2 \<and>
     (cmp_ok cmp le \<longrightarrow> heap_prop le base 0 (Suc (Suc i)) m \<longrightarrow> tail_ok le base n (Suc (Suc i)) m \<longrightarrow>
        heap_prop le base 0 (Suc i) m2 \<and> tail_ok le base n (Suc i) m2)"
proof -
  define m1 where "m1 = m[base := m ! (base + Suc i), base + Suc i := m ! base]"
  have len: "base + Suc i < length m" using assms by simp
  have sw: "swap_el base (base + Suc i) m = Some m1"
    unfolding m1_def using len by (intro swap_el_Some) auto
  have p1: "perm_in base (base + Suc (Suc i)) m m1"
    unfolding m1_def using len by (intro swap_el_perm) auto
  have len1: "base + Suc i \<le> length m1" using len by (simp add: m1_def)
  have nth1: "m1 ! (base + k) = m ! (base + k)" if "0 < k" "k < Suc i" for k
    using that len by (simp add: m1_def)
  have ex: "heap_prop le base 0 (Suc (Suc i)) m \<Longrightarrow> heap_ex le base 0 (Suc i) 0 m1"
    unfolding heap_ex_def heap_prop_def
    by (metis kid_less less_SucI less_trans nth1 not_gr_zero not_less_zero)
  obtain m2 s2 where sf: "heapsortx_sift cmp base (Suc i) 0 m1 s = Some (m2, s2)"
    and p2: "perm_in base (base + Suc i) m1 m2"
    and f2: "cmp_ok cmp le \<Longrightarrow> heap_prop le base 0 (Suc (Suc i)) m \<Longrightarrow> heap_prop le base 0 (Suc i) m2"
    using heapsortx_sift_spec [OF len1, of cmp 0 s le 0] ex by (auto elim!: returnsE)
  have p12: "perm_in base (base + Suc (Suc i)) m m2"
    using perm_in_trans [OF p1 perm_in_mono [OF p2, of base "base + Suc (Suc i)"]] by simp
  have root: "m2 ! (base + Suc i) = m ! base"
    using perm_in_nth [OF p2, of "base + Suc i"] len by (simp add: m1_def)
  have old: "m2 ! (base + b) = m ! (base + b)" if "Suc (Suc i) \<le> b" "b < n" for b
    using perm_in_nth [OF p12, of "base + b"] that assms by simp
  have inside: "P (m2 ! (base + a))"
    if "a < Suc (Suc i)" and P: "\<And>k. k < Suc (Suc i) \<Longrightarrow> P (m ! (base + k))" for a P
    by (rule perm_in_forall [OF p12, of P])
      (use len that(1) in \<open>auto simp: dest!: le_Suc_ex intro!: P\<close>)
  have tail: "tail_ok le base n (Suc i) m2"
    if ok: "cmp_ok cmp le" and h: "heap_prop le base 0 (Suc (Suc i)) m" and t: "tail_ok le base n (Suc (Suc i)) m"
    unfolding tail_ok_def
  proof (intro allI impI)
    fix a b assume ab: "a < b" "Suc i \<le> b" "b < n"
    show "le (m2 ! (base + a)) (m2 ! (base + b))"
    proof (cases "b = Suc i")
      case True
      have "le (m2 ! (base + a)) (m ! base)"
        using ab True by (intro inside [of a "\<lambda>x. le x (m ! base)"] heap_root [OF h ok]) auto
      then show ?thesis using True root by simp
    next
      case False
      then have b: "Suc (Suc i) \<le> b" using ab by simp
      show ?thesis
      proof (cases "a < Suc (Suc i)")
        case True
        have "le (m2 ! (base + a)) (m ! (base + b))"
          using True t b ab by (intro inside [of a "\<lambda>x. le x (m ! (base + b))"]) (auto simp: tail_ok_def)
        then show ?thesis using old b ab by simp
      next
        case False
        then show ?thesis using old [of a] old [of b] t b ab by (simp add: tail_ok_def)
      qed
    qed
  qed
  have "perm_in base (base + n) m m2" by (rule perm_in_mono [OF p12]) (use assms in auto)
  then show ?thesis using sw sf f2 tail by blast
qed

lemma heapsortx_extract_spec:
  assumes "base + n \<le> length m" "i < n"
  shows "returns (heapsortx_extract cmp base i m s) (\<lambda>(m', s'). perm_in base (base + n) m m' \<and>
     (cmp_ok cmp le \<longrightarrow> heap_prop le base 0 (Suc i) m \<longrightarrow> tail_ok le base n (Suc i) m \<longrightarrow>
       tail_ok le base n 1 m'))"
  using assms
proof (induction i arbitrary: m s)
  case 0
  then show ?case by simp
next
  case (Suc i)
  obtain m1 m2 s2 where st: "swap_el base (base + Suc i) m = Some m1"
      "heapsortx_sift cmp base (Suc i) 0 m1 s = Some (m2, s2)" "perm_in base (base + n) m m2"
    and f: "cmp_ok cmp le \<Longrightarrow> heap_prop le base 0 (Suc (Suc i)) m \<Longrightarrow> tail_ok le base n (Suc (Suc i)) m \<Longrightarrow>
        heap_prop le base 0 (Suc i) m2 \<and> tail_ok le base n (Suc i) m2"
    using extract_step [OF Suc.prems, of cmp s le] by blast
  have "base + n \<le> length m2" using Suc.prems perm_in_length [OF st(3)] by simp
  from Suc.IH [OF this, of s2] show ?case
    using Suc.prems st f by (auto elim!: returns_mono intro: perm_in_trans)
qed

definition sorted_on :: "('a \<Rightarrow> 'a \<Rightarrow> bool) \<Rightarrow> nat \<Rightarrow> nat \<Rightarrow> 'a list \<Rightarrow> bool" where
  "sorted_on le base n m \<longleftrightarrow> (\<forall>a b. a < b \<longrightarrow> b < n \<longrightarrow> le (m ! (base + a)) (m ! (base + b)))"

lemma heapsortx_spec:
  assumes "base + n \<le> length m"
  shows "returns (heapsortx cmp base n m s) (\<lambda>(m', s'). perm_in base (base + n) m m' \<and>
     (cmp_ok cmp le \<longrightarrow> sorted_on le base n m'))"
proof (cases "n > 1")
  case False
  then show ?thesis by (auto simp: heapsortx_def sorted_on_def)
next
  case True
  have "heap_prop le base (n div 2) n m"
    by (auto simp: heap_prop_def kid_def)
  then obtain m1 s1 where 1: "heapsortx_build cmp base n (n div 2) m s = Some (m1, s1)"
      "perm_in base (base + n) m m1" "cmp_ok cmp le \<Longrightarrow> heap_prop le base 0 n m1"
    using heapsortx_build_spec [OF assms, of cmp "n div 2" s le] by (auto elim!: returnsE)
  have len: "base + n \<le> length m1" using assms perm_in_length [OF 1(2)] by simp
  have "tail_ok le base n (Suc (n - 1)) m1" using True by (auto simp: tail_ok_def)
  moreover have "tail_ok le base n 1 m' \<Longrightarrow> sorted_on le base n m'" for m' :: "'a list"
    by (auto simp: tail_ok_def sorted_on_def)
  ultimately show ?thesis
    using heapsortx_extract_spec [OF len, of "n - 1" cmp s1 le] True 1
    by (auto simp: heapsortx_def elim!: returns_mono intro: perm_in_trans)
qed

section \<open>Insertion sort\<close>

text \<open>The first \<open>i + 1\<close> elements are sorted but for the element at \<open>j\<close>, which may belong further left.\<close>

definition ins_inv :: "('a \<Rightarrow> 'a \<Rightarrow> bool) \<Rightarrow> nat \<Rightarrow> nat \<Rightarrow> nat \<Rightarrow> 'a list \<Rightarrow> bool" where
  "ins_inv le ptr i j m \<longleftrightarrow>
     (\<forall>a b. a < b \<longrightarrow> b \<le> i \<longrightarrow> b \<noteq> j \<longrightarrow> le (m ! (ptr + a)) (m ! (ptr + b)))"

lemma ins_inv_swap:
  assumes h: "ins_inv le ptr i (Suc j) m" and "Suc j \<le> i" "ptr + i < length m"
    and x: "le (m ! (ptr + Suc j)) (m ! (ptr + j))"
  shows "ins_inv le ptr i j (m[ptr + Suc j := m ! (ptr + j), ptr + j := m ! (ptr + Suc j)])"
proof -
  let ?m = "m[ptr + Suc j := m ! (ptr + j), ptr + j := m ! (ptr + Suc j)]"
  have nth: "?m ! (ptr + k) = (if k = j then m ! (ptr + Suc j) else if k = Suc j then m ! (ptr + j) else m ! (ptr + k))" for k
    using assms(2,3) by (auto simp: nth_list_update)
  have i: "a < b \<Longrightarrow> b \<le> i \<Longrightarrow> b \<noteq> Suc j \<Longrightarrow> le (m ! (ptr + a)) (m ! (ptr + b))" for a b
    using h by (simp add: ins_inv_def)
  have "le (?m ! (ptr + a)) (?m ! (ptr + b))" if "a < b" "b \<le> i" "b \<noteq> j" for a b
  proof (cases "b = Suc j")
    case True
    then show ?thesis using that x i [of a j] assms(2) by (auto simp only: nth less_Suc_eq split: if_splits)
  next
    case False
    then show ?thesis
      using that i [of a b] i [of j b] i [of "Suc j" b] by (auto simp only: nth split: if_splits)
  qed
  then show ?thesis by (simp only: ins_inv_def) blast
qed

lemma rqsort_insert_spec:
  assumes "j \<le> i" "ptr + i < length m"
  shows "returns (rqsort_insert cmp ptr j m s) (\<lambda>(m', s'). perm_in ptr (ptr + i + 1) m m' \<and>
     (cmp_ok cmp le \<longrightarrow> ins_inv le ptr i j m \<longrightarrow> sorted_on le ptr (i + 1) m'))"
  using assms
proof (induction j arbitrary: m s)
  case 0
  then show ?case by (auto simp: ins_inv_def sorted_on_def)
next
  case (Suc j)
  obtain c s1 where c: "cmp (m ! (ptr + j)) (m ! (ptr + Suc j)) s = (c, s1)" by (rule prod.exhaust)
  have at: "cmp_at cmp (ptr + j) (ptr + Suc j) m s = Some (c, s1)"
    using cmp_at_Some [of "ptr + j" m "ptr + Suc j" cmp s] Suc.prems c by simp
  have sign: "cmp_ok cmp le \<Longrightarrow> c > 0 \<longleftrightarrow> \<not> le (m ! (ptr + j)) (m ! (ptr + Suc j))"
    using cmp_ok_sign(2) [of cmp le "m ! (ptr + j)" "m ! (ptr + Suc j)" s c s1] c by blast
  show ?case
  proof (cases "c > 0")
    case False
    have "sorted_on le ptr (i + 1) m" if ok: "cmp_ok cmp le" and inv: "ins_inv le ptr i (Suc j) m"
      unfolding sorted_on_def
    proof (intro allI impI)
      fix a b assume ab: "a < b" "b < i + 1"
      show "le (m ! (ptr + a)) (m ! (ptr + b))"
      proof (cases "b = Suc j")
        case True
        have j: "le (m ! (ptr + j)) (m ! (ptr + b))" using sign [OF ok] False True by blast
        show ?thesis
        proof (cases "a = j")
          case a: False
          then have "le (m ! (ptr + a)) (m ! (ptr + j))"
            using inv ab True Suc.prems by (auto simp: ins_inv_def)
          then show ?thesis using j cmp_ok_trans [OF ok] by blast
        qed (use j in simp)
      next
        case False
        then show ?thesis using inv ab by (simp add: ins_inv_def)
      qed
    qed
    then show ?thesis using False by (simp add: at [simplified])
  next
    case True
    let ?m = "m[ptr + Suc j := m ! (ptr + j), ptr + j := m ! (ptr + Suc j)]"
    have sw: "swap_el (ptr + Suc j) (ptr + j) m = Some ?m"
      using Suc.prems by (intro swap_el_Some) auto
    have pm: "perm_in ptr (ptr + i + 1) m ?m"
      using Suc.prems by (intro swap_el_perm) auto
    have inv: "ins_inv le ptr i j ?m" if "cmp_ok cmp le" "ins_inv le ptr i (Suc j) m"
      using that Suc.prems sign [OF that(1)] True cmp_ok_total [OF that(1)] by (intro ins_inv_swap) auto
    have "returns (rqsort_insert cmp ptr j ?m s1) (\<lambda>(m', s'). perm_in ptr (ptr + i + 1) ?m m' \<and>
       (cmp_ok cmp le \<longrightarrow> ins_inv le ptr i j ?m \<longrightarrow> sorted_on le ptr (i + 1) m'))"
      using Suc.prems by (intro Suc.IH) auto
    then have "returns (rqsort_insert cmp ptr j ?m s1) (\<lambda>(m', s'). perm_in ptr (ptr + i + 1) m m' \<and>
       (cmp_ok cmp le \<longrightarrow> ins_inv le ptr i (Suc j) m \<longrightarrow> sorted_on le ptr (i + 1) m'))"
      using pm inv by (auto elim!: returns_mono intro: perm_in_trans)
    moreover have "rqsort_insert cmp ptr (Suc j) m s = rqsort_insert cmp ptr j ?m s1"
      using True by (simp only: rqsort_insert.simps at sw) simp
    ultimately show ?thesis by simp
  qed
qed

lemma rqsort_insertion_spec:
  assumes "ptr + n \<le> length m" "1 \<le> i"
  shows "returns (rqsort_insertion cmp ptr n i m s) (\<lambda>(m', s'). perm_in ptr (ptr + n) m m' \<and>
     (cmp_ok cmp le \<longrightarrow> sorted_on le ptr i m \<longrightarrow> sorted_on le ptr n m'))"
  using assms
proof (induction "n - i" arbitrary: i m s rule: less_induct)
  case less
  show ?case
  proof (cases "i < n")
    case False
    then show ?thesis
      using less.prems by (subst rqsort_insertion.simps) (auto simp: sorted_on_def)
  next
    case True
    obtain m1 s1 where 1: "rqsort_insert cmp ptr i m s = Some (m1, s1)"
      and p1: "perm_in ptr (ptr + i + 1) m m1"
      and f1: "cmp_ok cmp le \<Longrightarrow> ins_inv le ptr i i m \<Longrightarrow> sorted_on le ptr (i + 1) m1"
      using rqsort_insert_spec [of i i ptr m cmp s le] True less.prems by (auto elim!: returnsE)
    have p1': "perm_in ptr (ptr + n) m m1" by (rule perm_in_mono [OF p1]) (use True in auto)
    have inv: "sorted_on le ptr i m \<Longrightarrow> ins_inv le ptr i i m"
      by (auto simp: sorted_on_def ins_inv_def)
    have "returns (rqsort_insertion cmp ptr n (i + 1) m1 s1) (\<lambda>(m', s'). perm_in ptr (ptr + n) m1 m' \<and>
       (cmp_ok cmp le \<longrightarrow> sorted_on le ptr (i + 1) m1 \<longrightarrow> sorted_on le ptr n m'))"
      using True less.prems perm_in_length [OF p1] by (intro less.hyps) auto
    then show ?thesis
      using True 1 p1' f1 inv
      by (subst rqsort_insertion.simps) (auto elim!: returns_mono intro: perm_in_trans)
  qed
qed

section \<open>The stack of segments\<close>

definition seg_of :: "nat \<times> nat \<times> nat \<Rightarrow> nat set" where
  "seg_of e = (case e of (p, n, d) \<Rightarrow> {p..<p + n})"

definition seg_depth :: "nat \<times> nat \<times> nat \<Rightarrow> nat" where
  "seg_depth e = snd (snd e)"

definition segs_ok :: "nat \<Rightarrow> rq_stack \<Rightarrow> bool" where
  "segs_ok N B \<longleftrightarrow> sorted_wrt (\<lambda>e e'. seg_of e \<inter> seg_of e' = {}) B \<and> (\<forall>(p, n, d) \<in> set B. p + n \<le> N)"

definition depths_ok :: "nat \<Rightarrow> rq_stack \<Rightarrow> bool" where
  "depths_ok d B \<longleftrightarrow> sorted_wrt (\<lambda>e e'. seg_depth e > seg_depth e') B \<and>
     (\<forall>e \<in> set B. 1 \<le> seg_depth e \<and> seg_depth e \<le> d)"

text \<open>The array is sorted except inside the segments of \<open>B\<close>.\<close>

definition sorted_but :: "('a \<Rightarrow> 'a \<Rightarrow> bool) \<Rightarrow> rq_stack \<Rightarrow> 'a list \<Rightarrow> bool" where
  "sorted_but le B m \<longleftrightarrow>
     (\<forall>x y. x < y \<longrightarrow> y < length m \<longrightarrow> le (m ! x) (m ! y) \<or> (\<exists>e \<in> set B. x \<in> seg_of e \<and> y \<in> seg_of e))"

primrec rq_weight :: "rq_stack \<Rightarrow> nat" where
  "rq_weight [] = 0"
| "rq_weight (e # B) = Suc (fst (snd e)) + rq_weight B"

lemma depths_ok_length: "depths_ok d B \<Longrightarrow> length B \<le> d"
proof (induction B arbitrary: d)
  case (Cons e B)
  have "depths_ok (seg_depth e - 1) B"
    using Cons.prems by (auto simp: depths_ok_def)
  then have "length B \<le> seg_depth e - 1" by (rule Cons.IH)
  then show ?case using Cons.prems by (auto simp: depths_ok_def)
qed (simp add: depths_ok_def)

lemma depths_ok_push: "depths_ok d B \<Longrightarrow> depths_ok (Suc d) ((p, n, Suc d) # B)"
  by (auto simp: depths_ok_def seg_depth_def)

lemma rq_push_Some: "depths_ok d B \<Longrightarrow> d < 50 \<Longrightarrow> rq_push e B = Some (e # B)"
  using depths_ok_length [of d B] by (simp add: rq_push_def)

lemma sorted_but_perm:
  assumes sb: "sorted_but le ((p, n, d) # B) m" and ok: "segs_ok (length m) ((p, n, d) # B)"
    and pm: "perm_in p (p + n) m m'"
  shows "sorted_but le ((p, n, d) # B) m'"
  unfolding sorted_but_def
proof (intro allI impI)
  fix x y assume xy: "x < y" "y < length m'"
  have len: "length m' = length m" using pm by (rule perm_in_length)
  have range: "p + n \<le> length m" using ok by (simp add: segs_ok_def)
  have disj: "z \<notin> seg_of e" if "e \<in> set B" "z \<in> {p..<p + n}" for e z
    using ok that by (fastforce simp: segs_ok_def seg_of_def)
  have out: "m' ! z = m ! z" if "z \<notin> {p..<p + n}" "z < length m" for z
    using perm_in_nth [OF pm that(2)] that(1) by auto
  have pair: "le (m ! a) (m ! b) \<or> (\<exists>e \<in> set ((p, n, d) # B). a \<in> seg_of e \<and> b \<in> seg_of e)"
    if "a < b" "b < length m" for a b using sb that by (simp only: sorted_but_def)
  have inside: "P (m' ! z)" if "z \<in> {p..<p + n}" "\<And>k. k \<in> {p..<p + n} \<Longrightarrow> P (m ! k)" for z P
    by (rule perm_in_forall [OF pm range, of P]) (use that in auto)
  show "le (m' ! x) (m' ! y) \<or> (\<exists>e \<in> set ((p, n, d) # B). x \<in> seg_of e \<and> y \<in> seg_of e)"
  proof (cases "x \<in> {p..<p + n}"; cases "y \<in> {p..<p + n}")
    assume "x \<in> {p..<p + n}" "y \<in> {p..<p + n}"
    then show ?thesis by (auto simp: seg_of_def)
  next
    assume x: "x \<in> {p..<p + n}" and y: "y \<notin> {p..<p + n}"
    have "le (m ! k) (m ! y)" if "k \<in> {p..<p + n}" for k
      using pair [of k y] that x y xy len disj [of _ k] by (auto simp: seg_of_def)
    then have "le (m' ! x) (m ! y)" by (intro inside [OF x, of "\<lambda>v. le v (m ! y)"])
    then show ?thesis using out [OF y] xy len by simp
  next
    assume x: "x \<notin> {p..<p + n}" and y: "y \<in> {p..<p + n}"
    have "le (m ! x) (m ! k)" if "k \<in> {p..<p + n}" for k
      using pair [of x k] that x y xy len range disj [of _ k] by (auto simp: seg_of_def)
    then have "le (m ! x) (m' ! y)" by (intro inside [OF y, of "\<lambda>v. le (m ! x) v"])
    then show ?thesis using out [OF x] xy len by simp
  next
    assume "x \<notin> {p..<p + n}" "y \<notin> {p..<p + n}"
    then show ?thesis using pair [of x y] out xy len by auto
  qed
qed

lemma sorted_but_replace:
  assumes "sorted_but le ((p, n, d) # B) m" "p + n \<le> length m"
    and "\<And>a b. a < b \<Longrightarrow> b < n \<Longrightarrow> le (m ! (p + a)) (m ! (p + b)) \<or>
       (\<exists>e \<in> set C. p + a \<in> seg_of e \<and> p + b \<in> seg_of e)"
  shows "sorted_but le (C @ B) m"
  unfolding sorted_but_def
proof (intro allI impI)
  fix x y assume xy: "x < y" "y < length m"
  have "le (m ! x) (m ! y) \<or> (\<exists>e \<in> set ((p, n, d) # B). x \<in> seg_of e \<and> y \<in> seg_of e)"
    using assms(1) xy by (simp only: sorted_but_def)
  moreover have "le (m ! x) (m ! y) \<or> (\<exists>e \<in> set C. x \<in> seg_of e \<and> y \<in> seg_of e)"
    if "x \<in> seg_of (p, n, d)" "y \<in> seg_of (p, n, d)"
    using assms(3) [of "x - p" "y - p"] that xy by (auto simp: seg_of_def)
  ultimately show "le (m ! x) (m ! y) \<or> (\<exists>e \<in> set (C @ B). x \<in> seg_of e \<and> y \<in> seg_of e)"
    by auto
qed

lemma three_parts_pairs:
  assumes "three_parts le ptr lt gt n m" "cmp_ok cmp le" "a < b" "b < n" "gt \<le> n"
  shows "le (m ! (ptr + a)) (m ! (ptr + b)) \<or> b < lt \<or> gt \<le> a"
proof -
  obtain p where p: "\<And>k. k < lt \<Longrightarrow> \<not> le p (m ! (ptr + k))"
      "\<And>k. lt \<le> k \<Longrightarrow> k < gt \<Longrightarrow> equiv le (m ! (ptr + k)) p"
      "\<And>k. gt \<le> k \<Longrightarrow> k < n \<Longrightarrow> \<not> le (m ! (ptr + k)) p"
    using assms(1) unfolding three_parts_def by blast
  note tot = cmp_ok_total [OF assms(2)]
  have "le (m ! (ptr + a)) p" if "a < gt"
    using p(1) [of a] p(2) [of a] that tot by (cases "a < lt") (auto simp: equiv_def)
  moreover have "le p (m ! (ptr + b))" if "lt \<le> b"
    using p(2) [of b] p(3) [of b] that tot assms(4) by (cases "b < gt") (auto simp: equiv_def)
  ultimately show ?thesis using cmp_ok_trans [OF assms(2)] by (meson not_less)
qed

lemma segs_ok_split:
  assumes "segs_ok N ((p, n, d) # B)" "lt < gt" "gt \<le> n"
  shows "segs_ok N ((p, lt, d') # (p + gt, n - gt, d') # B)" "segs_ok N ((p + gt, n - gt, d') # (p, lt, d') # B)"
proof -
  have "seg_of (p, lt, d') \<inter> seg_of (p + gt, n - gt, d') = {}" using assms(2) by (auto simp: seg_of_def)
  moreover have "seg_of (p, lt, d') \<subseteq> seg_of (p, n, d)" "seg_of (p + gt, n - gt, d') \<subseteq> seg_of (p, n, d)"
    using assms(2,3) by (auto simp: seg_of_def)
  ultimately show "segs_ok N ((p, lt, d') # (p + gt, n - gt, d') # B)"
      "segs_ok N ((p + gt, n - gt, d') # (p, lt, d') # B)"
    using assms by (fastforce simp: segs_ok_def)+
qed

lemma sorted_but_round:
  assumes "sorted_but le ((ptr, n, d) # B) m" "segs_ok (length m) ((ptr, n, d) # B)" "perm_in ptr (ptr + n) m m'"
    "three_parts le ptr lt gt n m'" "cmp_ok cmp le" "gt \<le> n"
  shows "sorted_but le ((ptr, lt, d1) # (ptr + gt, n - gt, d2) # B) m'"
proof -
  have "sorted_but le ((ptr, n, d) # B) m'" by (rule sorted_but_perm [OF assms(1-3)])
  moreover have "ptr + n \<le> length m'" using assms(2) perm_in_length [OF assms(3)] by (simp add: segs_ok_def)
  ultimately have "sorted_but le ([(ptr, lt, d1), (ptr + gt, n - gt, d2)] @ B) m'"
  proof (rule sorted_but_replace)
    fix a b assume ab: "a < b" "b < n"
    show "le (m' ! (ptr + a)) (m' ! (ptr + b)) \<or>
        (\<exists>e \<in> set [(ptr, lt, d1), (ptr + gt, n - gt, d2)]. ptr + a \<in> seg_of e \<and> ptr + b \<in> seg_of e)"
      using three_parts_pairs [OF assms(4,5) ab assms(6)] ab by (auto simp: seg_of_def)
  qed
  then show ?thesis by simp
qed

lemma sorted_but_mono: "sorted_but le B m \<Longrightarrow> seg_of ` set B \<subseteq> seg_of ` set B' \<Longrightarrow> sorted_but le B' m"
  unfolding sorted_but_def by (metis (no_types, lifting) image_iff subset_iff)

lemma sorted_but_done:
  assumes "sorted_but le ((ptr, n, d) # B) m" "segs_ok (length m) ((ptr, n, d) # B)" "perm_in ptr (ptr + n) m m'"
    "sorted_on le ptr n m'"
  shows "sorted_but le B m'"
proof -
  have "sorted_but le ((ptr, n, d) # B) m'" by (rule sorted_but_perm [OF assms(1-3)])
  moreover have "ptr + n \<le> length m'" using assms(2) perm_in_length [OF assms(3)] by (simp add: segs_ok_def)
  ultimately have "sorted_but le ([] @ B) m'"
    by (rule sorted_but_replace) (use assms(4) in \<open>auto simp: sorted_on_def\<close>)
  then show ?thesis by simp
qed

definition seg_post ::
  "('a, 'o) cmp_f \<Rightarrow> ('a \<Rightarrow> 'a \<Rightarrow> bool) \<Rightarrow> 'a list \<Rightarrow> rq_stack \<Rightarrow> rq_stack \<times> nat \<times> nat \<times> 'a list \<times> 'o \<Rightarrow> bool" where
  "seg_post cmp le m B = (\<lambda>(stk', ptr', n', m', s').
     segs_ok (length m) ((ptr', n', 0) # stk') \<and> depths_ok 50 stk' \<and>
     rq_weight stk' + n' < rq_weight B \<and> perm_in 0 (length m) m m' \<and>
     (cmp_ok cmp le \<longrightarrow> sorted_but le B m \<longrightarrow> sorted_but le ((ptr', n', 0) # stk') m'))"

lemma seg_post_step:
  assumes "seg_post cmp le m1 B1 r" "perm_in 0 (length m) m m1" "rq_weight B1 \<le> rq_weight B"
    "cmp_ok cmp le \<Longrightarrow> sorted_but le B m \<Longrightarrow> sorted_but le B1 m1"
  shows "seg_post cmp le m B r"
  using assms perm_in_length [OF assms(2)]
  by (auto simp: seg_post_def intro: perm_in_trans split: prod.splits)

lemma rqsort_segment_spec:
  assumes "segs_ok (length m) ((ptr, n, depth) # stk)" "depths_ok depth stk" "depth \<le> 50"
  shows "returns (rqsort_segment cmp stk ptr n depth m s) (seg_post cmp le m ((ptr, n, depth) # stk))"
  using assms
proof (induction "51 - depth" arbitrary: stk ptr n depth m s rule: less_induct)
  case less
  note prems = less.prems
  have rng: "ptr + n \<le> length m" using prems(1) by (simp add: segs_ok_def)
  have d50: "depths_ok 50 stk" using prems(2,3) by (auto simp: depths_ok_def)
  have whole: "perm_in ptr (ptr + n) m m' \<Longrightarrow> perm_in 0 (length m) m m'" for m' :: "'a list"
    using rng by (auto intro: perm_in_mono)
  have sb0: "sorted_but le ((ptr, n, depth) # stk) m' \<Longrightarrow> sorted_but le ((ptr, n, 0) # stk) m'" for m' :: "'a list"
    by (erule sorted_but_mono) (auto simp: seg_of_def)
  show ?case
  proof (cases "n > 6")
    case False
    then show ?thesis
      using prems(1) d50 sb0
      by (subst rqsort_segment.simps) (auto simp: seg_post_def segs_ok_def seg_of_def)
  next
    case n: True
    show ?thesis
    proof (cases "depth + 1 > 50")
      case True
      obtain m1 s1 where 1: "heapsortx cmp ptr n m s = Some (m1, s1)" "perm_in ptr (ptr + n) m m1"
          "cmp_ok cmp le \<Longrightarrow> sorted_on le ptr n m1"
        using heapsortx_spec [OF rng, of cmp s le] by (auto elim!: returnsE)
      have "sorted_but le ((ptr, 0, 0) # stk) m1"
        if "cmp_ok cmp le" "sorted_but le ((ptr, n, depth) # stk) m"
        by (rule sorted_but_mono [OF sorted_but_done [OF that(2) prems(1) 1(2) 1(3) [OF that(1)]]]) auto
      then have "seg_post cmp le m ((ptr, n, depth) # stk) (stk, ptr, 0, m1, s1)"
        using prems(1) d50 1(2) whole n by (auto simp: seg_post_def segs_ok_def seg_of_def)
      moreover have "rqsort_segment cmp stk ptr n depth m s = Some (stk, ptr, 0, m1, s1)"
        using n True 1(1) by (subst rqsort_segment.simps) (simp add: Let_def)
      ultimately show ?thesis by simp
    next
      case False
      obtain lt gt m1 s1 where r: "rqsort_round cmp ptr n m s = Some (lt, gt, m1, s1)"
        and b: "lt < gt" "gt \<le> n" and p1: "perm_in ptr (ptr + n) m m1"
        and f: "cmp_ok cmp le \<Longrightarrow> three_parts le ptr lt gt n m1"
        using rqsort_round_spec [OF n rng, of cmp s le] by (auto elim!: returnsE)
      have len: "length m1 = length m" using p1 by (rule perm_in_length)
      have d: "depth < 50" using False by simp
      let ?L = "(ptr, lt, Suc depth)" and ?R = "(ptr + gt, n - gt, Suc depth)"
      have sb: "sorted_but le (?L # ?R # stk) m1"
        if "cmp_ok cmp le" "sorted_but le ((ptr, n, depth) # stk) m"
        by (rule sorted_but_round [OF that(2) prems(1) p1 f [OF that(1)] that(1) b(2)])
      have sb': "sorted_but le (?R # ?L # stk) m1"
        if "cmp_ok cmp le" "sorted_but le ((ptr, n, depth) # stk) m"
        by (rule sorted_but_mono [OF sb [OF that]]) auto
      have w: "rq_weight (?L # ?R # stk) \<le> rq_weight ((ptr, n, depth) # stk)"
        using b by simp
      show ?thesis
      proof (cases "lt > n - gt")
        case True
        have "returns (rqsort_segment cmp (?L # stk) (ptr + gt) (n - gt) (Suc depth) m1 s1)
            (seg_post cmp le m1 (?R # ?L # stk))"
          using segs_ok_split(2) [OF prems(1) b] depths_ok_push [OF prems(2)] d len
          by (intro less.hyps) auto
        moreover have "rqsort_segment cmp stk ptr n depth m s
            = rqsort_segment cmp (?L # stk) (ptr + gt) (n - gt) (Suc depth) m1 s1"
          using n False True r rq_push_Some [OF prems(2) d]
          by (subst rqsort_segment.simps) (simp add: Let_def)
        moreover have w': "rq_weight (?R # ?L # stk) \<le> rq_weight ((ptr, n, depth) # stk)"
          using w by simp
        ultimately show ?thesis
          using seg_post_step [OF _ whole [OF p1] w' sb'] by (auto elim!: returns_mono)
      next
        case le: False
        have "returns (rqsort_segment cmp (?R # stk) ptr lt (Suc depth) m1 s1)
            (seg_post cmp le m1 (?L # ?R # stk))"
          using segs_ok_split(1) [OF prems(1) b] depths_ok_push [OF prems(2)] d len
          by (intro less.hyps) auto
        moreover have "rqsort_segment cmp stk ptr n depth m s
            = rqsort_segment cmp (?R # stk) ptr lt (Suc depth) m1 s1"
          using n False le r rq_push_Some [OF prems(2) d]
          by (subst rqsort_segment.simps) (simp add: Let_def)
        ultimately show ?thesis
          using seg_post_step [OF _ whole [OF p1] w sb] by (auto elim!: returns_mono)
      qed
    qed
  qed
qed

lemma depths_ok_pop:
  "depths_ok 50 ((p, n, d) # stk) \<Longrightarrow> depths_ok d stk \<and> d \<le> 50"
  by (auto simp: depths_ok_def seg_depth_def intro: less_imp_le)

lemma rqsort_loop_spec:
  assumes "segs_ok (length m) stk" "\<And>p n d B. stk = (p, n, d) # B \<Longrightarrow> depths_ok d B \<and> d \<le> 50"
  shows "returns (rqsort_loop cmp stk m s) (\<lambda>(m', s'). perm_in 0 (length m) m m' \<and>
     (cmp_ok cmp le \<longrightarrow> sorted_but le stk m \<longrightarrow> sorted_but le [] m'))"
  using assms
proof (induction "rq_weight stk" arbitrary: stk m s rule: less_induct)
  case less
  show ?case
  proof (cases stk)
    case Nil
    then show ?thesis by (subst rqsort_loop.simps) simp
  next
    case (Cons e B)
    obtain p n d where e: "e = (p, n, d)" by (rule prod_cases3)
    have ok: "segs_ok (length m) ((p, n, d) # B)" "depths_ok d B" "d \<le> 50"
      using less.prems Cons e by auto
    obtain stk1 p1 n1 m1 s1 where g: "rqsort_segment cmp B p n d m s = Some (stk1, p1, n1, m1, s1)"
      and post: "seg_post cmp le m ((p, n, d) # B) (stk1, p1, n1, m1, s1)"
      using rqsort_segment_spec [OF ok, of cmp s le] by (auto elim!: returnsE)
    have pm1: "perm_in 0 (length m) m m1" and len1: "length m1 = length m"
      and s1: "segs_ok (length m) ((p1, n1, 0) # stk1)" and d1: "depths_ok 50 stk1"
      and w: "rq_weight stk1 < rq_weight stk"
      and f1: "cmp_ok cmp le \<Longrightarrow> sorted_but le stk m \<Longrightarrow> sorted_but le ((p1, n1, 0) # stk1) m1"
      using post Cons e by (auto simp: seg_post_def perm_in_length)
    have rng: "p1 + n1 \<le> length m1" using s1 len1 by (simp add: segs_ok_def)
    obtain m2 s2 where i: "rqsort_insertion cmp p1 n1 1 m1 s1 = Some (m2, s2)"
      and pm2: "perm_in p1 (p1 + n1) m1 m2"
      and f2: "cmp_ok cmp le \<Longrightarrow> sorted_on le p1 n1 m2"
      using rqsort_insertion_spec [OF rng, of 1 cmp s1 le] by (auto simp: sorted_on_def elim!: returnsE)
    have len2: "length m2 = length m" using pm2 len1 by (simp add: perm_in_length)
    have pm12: "perm_in 0 (length m) m m2"
      using perm_in_trans [OF pm1 perm_in_mono [OF pm2, of 0 "length m"]] rng len1 by simp
    have f12: "sorted_but le stk1 m2" if "cmp_ok cmp le" "sorted_but le stk m"
      using sorted_but_done [OF f1 [OF that] _ pm2 f2 [OF that(1)]] s1 len1 by simp
    have "returns (rqsort_loop cmp stk1 m2 s2) (\<lambda>(m', s'). perm_in 0 (length m2) m2 m' \<and>
       (cmp_ok cmp le \<longrightarrow> sorted_but le stk1 m2 \<longrightarrow> sorted_but le [] m'))"
    proof (rule less.hyps [OF w])
      show "segs_ok (length m2) stk1" using s1 len2 by (simp add: segs_ok_def)
      show "\<And>p n d B. stk1 = (p, n, d) # B \<Longrightarrow> depths_ok d B \<and> d \<le> 50"
        using d1 depths_ok_pop by blast
    qed
    moreover have "rqsort_loop cmp stk m s = rqsort_loop cmp stk1 m2 s2"
      using g i by (subst rqsort_loop.simps) (simp add: Cons e)
    ultimately show ?thesis
      using pm12 f12 len2 by (auto elim!: returns_mono intro: perm_in_trans)
  qed
qed

lemma rqsort_spec:
  "returns (rqsort cmp (length m) m s) (\<lambda>(m', s'). length m' = length m \<and> mset m' = mset m \<and>
     (cmp_ok cmp le \<longrightarrow> sorted_wrt le m'))"
proof (cases "length m < 2")
  case True
  then show ?thesis
    by (cases m) (auto simp: rqsort_def)
next
  case False
  have "returns (rqsort_loop cmp [(0, length m, 0)] m s) (\<lambda>(m', s'). perm_in 0 (length m) m m' \<and>
     (cmp_ok cmp le \<longrightarrow> sorted_but le [(0, length m, 0)] m \<longrightarrow> sorted_but le [] m'))"
    by (rule rqsort_loop_spec) (auto simp: segs_ok_def depths_ok_def)
  moreover have "sorted_but le [(0, length m, 0)] m"
    by (auto simp: sorted_but_def seg_of_def)
  moreover have "sorted_but le [] m' \<Longrightarrow> sorted_wrt le m'" for m' :: "'a list"
    by (auto simp: sorted_but_def sorted_wrt_iff_nth_less)
  ultimately show ?thesis
    using False by (auto simp: rqsort_def perm_in_def elim!: returns_mono)
qed

end
