(* ===== verification/RqExchange.thy ===== *)
theory RqExchange
  imports RqSort
begin

text \<open>
  The exchange functions of \<^verbatim>\<open>cutils.c\<close> refine the exchange of elements the sort is built on:
  whatever the alignment of the array and the size of its elements, the function that
  \<^verbatim>\<open>exchange_func\<close> selects makes only aligned accesses inside the two elements (or spans of
  elements) and swaps their bytes.
\<close>

definition block_swap :: "'a list \<Rightarrow> nat \<Rightarrow> nat \<Rightarrow> nat \<Rightarrow> 'a list" where
  "block_swap m a b n = map (\<lambda>i. if a \<le> i \<and> i < a + n then m ! (b + (i - a))
     else if b \<le> i \<and> i < b + n then m ! (a + (i - b)) else m ! i) [0..<length m]"

definition apart :: "nat \<Rightarrow> nat \<Rightarrow> nat \<Rightarrow> bool" where
  "apart a b n \<longleftrightarrow> a = b \<or> a + n \<le> b \<or> b + n \<le> a"

lemma length_block_swap [simp]: "length (block_swap m a b n) = length m"
  by (simp add: block_swap_def)

lemma nth_block_swap: "i < length m \<Longrightarrow> block_swap m a b n ! i =
    (if a \<le> i \<and> i < a + n then m ! (b + (i - a)) else if b \<le> i \<and> i < b + n then m ! (a + (i - b)) else m ! i)"
  by (simp add: block_swap_def)

lemma nth_wr_block:
  "wr_block m p d = Some m' \<Longrightarrow> i < length m \<Longrightarrow>
     m' ! i = (if p \<le> i \<and> i < p + length d then d ! (i - p) else m ! i)"
  by (auto simp: wr_block_eq_Some_iff nth_append)

lemma ld_Some: "(base + p) mod w = 0 \<Longrightarrow> p + w \<le> length m \<Longrightarrow> ld w base m p = Some (take w (drop p m))"
  by (simp add: ld_def mem_simps)

lemma st_Some:
  assumes "(base + p) mod w = 0" "p + length d \<le> length m"
  shows "\<exists>m'. st w base m p d = Some m' \<and> length m' = length m \<and>
    (\<forall>i < length m. m' ! i = (if p \<le> i \<and> i < p + length d then d ! (i - p) else m ! i))"
proof -
  obtain m' where m': "wr_block m p d = Some m'" using assms(2) by (simp add: wr_block_def)
  then show ?thesis
    using assms(1) nth_wr_block [OF m'] wr_block_length [OF m'] by (simp add: st_def)
qed

lemma exchange_one_block:
  assumes al: "(base + a) mod w = 0" "(base + b) mod w = 0" and len: "a + w \<le> length m" "b + w \<le> length m"
    and ap: "apart a b w"
  shows "exchange_one w base a b m = Some (block_swap m a b w)"
proof -
  define t x where "t = take w (drop a m)" and "x = take w (drop b m)"
  have lt: "length t = w" "length x = w" using len by (auto simp: t_def x_def)
  obtain m1 where m1: "st w base m a x = Some m1" "length m1 = length m"
      "\<And>i. i < length m \<Longrightarrow> m1 ! i = (if a \<le> i \<and> i < a + w then x ! (i - a) else m ! i)"
    using st_Some [OF al(1), of x m] len lt by auto
  obtain m2 where m2: "st w base m1 b t = Some m2" "length m2 = length m"
      "\<And>i. i < length m \<Longrightarrow> m2 ! i = (if b \<le> i \<and> i < b + w then t ! (i - b) else m1 ! i)"
    using st_Some [OF al(2), of t m1] len lt m1(2) by auto
  have "m2 = block_swap m a b w"
  proof (rule nth_equalityI)
    fix i assume "i < length m2"
    then have i: "i < length m" using m2(2) by simp
    have tx: "k < w \<Longrightarrow> t ! k = m ! (a + k)" "k < w \<Longrightarrow> x ! k = m ! (b + k)" for k
      using len by (simp_all add: t_def x_def)
    consider "b \<le> i" "i < b + w" "a = b" | "b \<le> i" "i < b + w" "\<not> (a \<le> i \<and> i < a + w)"
      | "a \<le> i" "i < a + w" "\<not> (b \<le> i \<and> i < b + w)"
      | "\<not> (b \<le> i \<and> i < b + w)" "\<not> (a \<le> i \<and> i < a + w)"
      using ap unfolding apart_def by linarith
    then show "m2 ! i = block_swap m a b w ! i"
    proof cases
      case 1
      then show ?thesis using m2(3) [OF i] i tx(1) [of "i - b"] by (simp add: nth_block_swap)
    next
      case 2
      then show ?thesis using m2(3) [OF i] i tx(1) [of "i - b"] by (auto simp: nth_block_swap)
    next
      case 3
      then show ?thesis using m2(3) [OF i] m1(3) [OF i] i tx(2) [of "i - a"]
        by (auto simp: nth_block_swap)
    next
      case 4
      then show ?thesis using m2(3) [OF i] m1(3) [OF i] i by (auto simp: nth_block_swap)
    qed
  qed (use m2 in simp)
  then show ?thesis
    using m1(1) m2(1) ld_Some [OF al(1) len(1)] ld_Some [OF al(2) len(2)]
    by (simp add: exchange_one_def t_def x_def)
qed

lemma block_swap_0 [simp]: "block_swap m a b 0 = m"
  by (rule nth_equalityI) (auto simp: nth_block_swap)

lemma block_swap_append:
  assumes "a + (w + n) \<le> length m" "b + (w + n) \<le> length m" "apart a b (w + n)"
  shows "block_swap (block_swap m a b w) (a + w) (b + w) n = block_swap m a b (w + n)"
proof (rule nth_equalityI)
  fix i assume "i < length (block_swap (block_swap m a b w) (a + w) (b + w) n)"
  then have i: "i < length m" by simp
  consider "a = b" | "a + (w + n) \<le> b" | "b + (w + n) \<le> a" using assms(3) by (auto simp: apart_def)
  then show "block_swap (block_swap m a b w) (a + w) (b + w) n ! i = block_swap m a b (w + n) ! i"
  proof cases
    case 1
    have "block_swap m' c c k = m'" for m' :: "'a list" and c k
      by (rule nth_equalityI) (auto simp: nth_block_swap)
    then show ?thesis using 1 by simp
  next
    case 2
    consider "i < a" | "a \<le> i" "i < a + w" | k where "i = a + w + k" "k < n" | "a + w + n \<le> i" "i < b"
      | "b \<le> i" "i < b + w" | k where "i = b + w + k" "k < n" | "b + w + n \<le> i"
      by (metis add_less_cancel_left le_add_diff_inverse not_less)
    then show ?thesis using 2 assms i by cases (simp_all add: nth_block_swap add.assoc)
  next
    case 3
    consider "i < b" | "b \<le> i" "i < b + w" | k where "i = b + w + k" "k < n" | "b + w + n \<le> i" "i < a"
      | "a \<le> i" "i < a + w" | k where "i = a + w + k" "k < n" | "a + w + n \<le> i"
      by (metis add_less_cancel_left le_add_diff_inverse not_less)
    then show ?thesis using 3 assms i by cases (simp_all add: nth_block_swap add.assoc)
  qed
qed simp

lemma apart_tail: "apart a b (w + n) \<Longrightarrow> apart (a + w) (b + w) n \<and> apart a b w"
  by (auto simp: apart_def)

lemma exchange_loop_block:
  assumes "(base + a) mod w = 0" "(base + b) mod w = 0" "a + n * w \<le> length m" "b + n * w \<le> length m"
    "apart a b (n * w)"
  shows "exchange_loop w base n a b m = Some (block_swap m a b (n * w))"
  using assms
proof (induction n arbitrary: a b m)
  case 0
  then show ?case by simp
next
  case (Suc n)
  have ap: "apart (a + w) (b + w) (n * w)" "apart a b w"
    using apart_tail Suc.prems(5) by (auto simp: add.commute)
  have al: "(base + (a + w)) mod w = 0" "(base + (b + w)) mod w = 0"
    using Suc.prems(1,2) by (simp_all flip: add.assoc)
  have "exchange_one w base a b m = Some (block_swap m a b w)"
    using Suc.prems ap by (intro exchange_one_block) auto
  moreover have "exchange_loop w base n (a + w) (b + w) (block_swap m a b w)
      = Some (block_swap (block_swap m a b w) (a + w) (b + w) (n * w))"
    using Suc.prems al ap by (intro Suc.IH) auto
  moreover have "block_swap (block_swap m a b w) (a + w) (b + w) (n * w) = block_swap m a b (Suc n * w)"
    using Suc.prems block_swap_append [of a w "n * w" m b] by (simp add: add.assoc)
  ultimately show ?case by simp
qed

lemma exchange_one_int128_block:
  assumes al: "(base + a) mod 8 = 0" "(base + b) mod 8 = 0" and len: "a + 16 \<le> length m" "b + 16 \<le> length m"
    and ap: "apart a b 16"
  shows "exchange_one_int128 base a b sz m = Some (block_swap m a b 16)"
proof -
  have al8: "(base + (a + 8)) mod 8 = 0" "(base + (b + 8)) mod 8 = 0"
    using al by (simp_all flip: add.assoc)
  define t u x where "t = take 8 (drop a m)" and "u = take 8 (drop (a + 8) m)" and "x = take 8 (drop b m)"
  have lens: "length t = 8" "length u = 8" "length x = 8" using len by (auto simp: t_def u_def x_def)
  obtain m1 where m1: "st 8 base m a x = Some m1" "length m1 = length m"
      "\<And>i. i < length m \<Longrightarrow> m1 ! i = (if a \<le> i \<and> i < a + 8 then x ! (i - a) else m ! i)"
    using st_Some [OF al(1), of x m] len lens by auto
  define y where "y = take 8 (drop (b + 8) m1)"
  have ly: "length y = 8" using len m1(2) by (simp add: y_def)
  obtain m2 where m2: "st 8 base m1 (a + 8) y = Some m2" "length m2 = length m"
      "\<And>i. i < length m \<Longrightarrow> m2 ! i = (if a + 8 \<le> i \<and> i < a + 8 + 8 then y ! (i - (a + 8)) else m1 ! i)"
    using st_Some [OF al8(1), of y m1] len ly m1(2) by auto
  obtain m3 where m3: "st 8 base m2 b t = Some m3" "length m3 = length m"
      "\<And>i. i < length m \<Longrightarrow> m3 ! i = (if b \<le> i \<and> i < b + 8 then t ! (i - b) else m2 ! i)"
    using st_Some [OF al(2), of t m2] len lens m2(2) by auto
  obtain m4 where m4: "st 8 base m3 (b + 8) u = Some m4" "length m4 = length m"
      "\<And>i. i < length m \<Longrightarrow> m4 ! i = (if b + 8 \<le> i \<and> i < b + 8 + 8 then u ! (i - (b + 8)) else m3 ! i)"
    using st_Some [OF al8(2), of u m3] len lens m3(2) by auto
  have tx: "k < 8 \<Longrightarrow> t ! k = m ! (a + k)" "k < 8 \<Longrightarrow> u ! k = m ! (a + 8 + k)" "k < 8 \<Longrightarrow> x ! k = m ! (b + k)"
      "k < 8 \<Longrightarrow> y ! k = m1 ! (b + 8 + k)" for k
    using len m1(2) by (simp_all add: t_def u_def x_def y_def)
  have y: "k < 8 \<Longrightarrow> a \<noteq> b \<Longrightarrow> y ! k = m ! (b + 8 + k)" for k
    using tx(4) [of k] m1(3) [of "b + 8 + k"] len ap by (auto simp: apart_def)
  have "m4 = block_swap m a b 16"
  proof (rule nth_equalityI)
    fix i assume "i < length m4"
    then have i: "i < length m" using m4(2) by simp
    note e = m4(3) [OF i] m3(3) [OF i] m2(3) [OF i] m1(3) [OF i]
    consider k where "i = b + k" "k < 8" | k where "i = b + 8 + k" "k < 8"
      | k where "i = a + k" "k < 8" "i < b \<or> b + 16 \<le> i" | k where "i = a + 8 + k" "k < 8" "i < b \<or> b + 16 \<le> i"
      | "i < a \<or> a + 16 \<le> i" "i < b \<or> b + 16 \<le> i"
    proof -
      have "(\<exists>k<8. i = c + k) \<or> (\<exists>k<8. i = c + 8 + k) \<or> i < c \<or> c + 16 \<le> i" for c
      proof (cases "c \<le> i \<and> i < c + 16")
        case True
        then obtain k where k: "i = c + k" "k < 16" using le_Suc_ex by fastforce
        show ?thesis
        proof (cases "k < 8")
          case False
          then have "i = c + 8 + (k - 8)" "k - 8 < 8" using k by auto
          then show ?thesis by blast
        qed (use k in blast)
      qed auto
      from this [of a] this [of b] show ?thesis using that by blast
    qed
    then show "m4 ! i = block_swap m a b 16 ! i"
    proof cases
      case (1 k)
      then show ?thesis using e i ap tx(1) [of k] by (auto simp: nth_block_swap apart_def)
    next
      case (2 k)
      then show ?thesis using e i ap tx(2) [of k] by (auto simp: nth_block_swap apart_def add.assoc)
    next
      case (3 k)
      then show ?thesis using e i ap tx(3) [of k] by (auto simp: nth_block_swap)
    next
      case (4 k)
      then show ?thesis using e i ap y [of k] by (auto simp: nth_block_swap add.assoc)
    next
      case 5
      then show ?thesis using e i by (auto simp: nth_block_swap)
    qed
  qed (use m4 in simp)
  then show ?thesis
    using m1(1) m2(1) m3(1) m4(1) ld_Some [OF al(1), of m] ld_Some [OF al(2), of m] ld_Some [OF al8(1), of m]
      ld_Some [OF al8(2), of m1] len m1(2)
    by (simp add: exchange_one_int128_def t_def u_def x_def y_def)
qed

lemma exchange_int128s_loop_block:
  assumes "(base + a) mod 8 = 0" "(base + b) mod 8 = 0" "a + n * 16 \<le> length m" "b + n * 16 \<le> length m"
    "apart a b (n * 16)"
  shows "exchange_int128s_loop base n a b m = Some (block_swap m a b (n * 16))"
  using assms
proof (induction n arbitrary: a b m)
  case 0
  then show ?case by simp
next
  case (Suc n)
  have ap: "apart (a + 16) (b + 16) (n * 16)" "apart a b 16"
    using apart_tail [of a b 16 "n * 16"] Suc.prems(5) by auto
  have al: "(base + (a + 16)) mod 8 = 0" "(base + (b + 16)) mod 8 = 0"
    using Suc.prems(1,2) mod_mult_self2 [of "base + a" 8 2] mod_mult_self2 [of "base + b" 8 2] by (simp_all flip: add.assoc)
  have "exchange_one_int128 base a b 16 m = Some (block_swap m a b 16)"
    using Suc.prems ap by (intro exchange_one_int128_block) auto
  moreover have "exchange_int128s_loop base n (a + 16) (b + 16) (block_swap m a b 16)
      = Some (block_swap (block_swap m a b 16) (a + 16) (b + 16) (n * 16))"
    using Suc.prems al ap by (intro Suc.IH) auto
  moreover have "block_swap (block_swap m a b 16) (a + 16) (b + 16) (n * 16) = block_swap m a b (Suc n * 16)"
    using Suc.prems block_swap_append [of a 16 "n * 16" m b] by (simp add: add.assoc)
  ultimately show ?case by simp
qed

section \<open>The choice of the exchange function\<close>

definition width_of :: "u64 \<Rightarrow> nat" where
  "width_of k =
     (if k = 0 then 16 else if k = 8 then 8 else if k = 4 \<or> k = 12 then 4
      else if k = 2 \<or> k = 6 \<or> k = 10 \<or> k = 14 then 2 else 1)"

definition exch_width :: "u64 \<Rightarrow> u64 \<Rightarrow> nat" where
  "exch_width base sz = width_of ((base OR sz) AND 15)"

lemma width_of_cases:
  obtains "k = 0" "width_of k = 16" | "k = 8" "width_of k = 8" | "k = 4 \<or> k = 12" "width_of k = 4"
  | "k = 2 \<or> k = 6 \<or> k = 10 \<or> k = 14" "width_of k = 2"
  | "k \<noteq> 0" "k \<noteq> 8" "\<not> (k = 4 \<or> k = 12)" "\<not> (k = 2 \<or> k = 6 \<or> k = 10 \<or> k = 14)" "width_of k = 1"
proof (cases "k = 0 \<or> k = 8 \<or> k = 4 \<or> k = 12 \<or> k = 2 \<or> k = 6 \<or> k = 10 \<or> k = 14")
  case True
  then show ?thesis
  proof (elim disjE)
    assume "k = 0" then show ?thesis by (intro that(1)) (auto simp: width_of_def)
  next
    assume "k = 8" then show ?thesis by (intro that(2)) (auto simp: width_of_def)
  next
    assume "k = 4" then show ?thesis by (intro that(3)) (auto simp: width_of_def)
  next
    assume "k = 12" then show ?thesis by (intro that(3)) (auto simp: width_of_def)
  next
    assume "k = 2" then show ?thesis by (intro that(4)) (auto simp: width_of_def)
  next
    assume "k = 6" then show ?thesis by (intro that(4)) (auto simp: width_of_def)
  next
    assume "k = 10" then show ?thesis by (intro that(4)) (auto simp: width_of_def)
  next
    assume "k = 14" then show ?thesis by (intro that(4)) (auto simp: width_of_def)
  qed
next
  case False
  then show ?thesis by (intro that(5)) (simp_all add: width_of_def)
qed

lemma no_low_bits_dvd:
  assumes "\<And>i. i < k \<Longrightarrow> \<not> bit (x :: u64) i"
  shows "2 ^ k dvd unat x"
proof -
  have "take_bit k x = 0"
    by (rule bit_word_eqI) (use assms in \<open>auto simp: bit_take_bit_iff\<close>)
  then have "take_bit k (unat x) = 0" by (metis unsigned_take_bit_eq unsigned_0)
  then show ?thesis by (simp only: take_bit_eq_mod mod_eq_0_iff_dvd)
qed

lemma or_and_mask_dvd:
  assumes "k \<le> 4" "((x :: u64) OR y) AND 15 = v" "v AND mask k = 0"
  shows "2 ^ k dvd unat x" "2 ^ k dvd unat y"
proof -
  have m: "(15 :: u64) = mask 4" by (simp add: mask_eq_exp_minus_1)
  have "\<not> bit x i \<and> \<not> bit y i" if i: "i < k" for i
  proof -
    have "\<not> bit (v AND mask k) i" using assms(3) by simp
    then have "\<not> bit v i" using i by (simp add: bit_and_iff bit_mask_iff assms(1)) (use assms(1) in linarith)
    then have "\<not> bit ((x OR y) AND mask 4) i" using assms(2) m by simp
    then show ?thesis using i assms(1) by (auto simp: bit_and_iff bit_or_iff bit_mask_iff)
  qed
  then show "2 ^ k dvd unat x" "2 ^ k dvd unat y" by (auto intro: no_low_bits_dvd)
qed

lemma exch_width_dvd: "exch_width base sz dvd unat base" "exch_width base sz dvd unat sz"
proof -
  define k where "k = (base OR sz) AND 15"
  note k = k_def [symmetric]
  have "width_of k dvd unat base \<and> width_of k dvd unat sz"
  proof (rule width_of_cases [of k])
    assume "k = 0" "width_of k = 16"
    then show ?thesis using or_and_mask_dvd [of 4, OF _ k] by simp
  next
    assume "k = 8" "width_of k = 8"
    then show ?thesis using or_and_mask_dvd [of 3, OF _ k] by (simp add: mask_eq_exp_minus_1)
  next
    assume "k = 4 \<or> k = 12" "width_of k = 4"
    then show ?thesis using or_and_mask_dvd [of 2, OF _ k] by (auto simp: mask_eq_exp_minus_1)
  next
    assume "k = 2 \<or> k = 6 \<or> k = 10 \<or> k = 14" "width_of k = 2"
    then show ?thesis using or_and_mask_dvd [of 1, OF _ k] by (auto simp: mask_eq_exp_minus_1)
  qed simp
  then show "exch_width base sz dvd unat base" "exch_width base sz dvd unat sz"
    by (auto simp: exch_width_def k_def)
qed

lemma exchange_func_block:
  assumes w: "exch_width base sz dvd a" "exch_width base sz dvd b" "exch_width base sz dvd n"
    and sz1: "sz \<in> {1, 2, 4, 8, 16} \<Longrightarrow> n = unat sz"
    and len: "a + n \<le> length m" "b + n \<le> length m" and ap: "apart a b n"
  shows "exchange_func base sz (unat base) a b n m = Some (block_swap m a b n)"
proof -
  define w where "w = exch_width base sz"
  have al: "(unat base + a) mod w = 0" "(unat base + b) mod w = 0"
    using w exch_width_dvd(1) [of base sz] by (auto simp: w_def mod_eq_0_iff_dvd intro: dvd_add)
  have n: "n div w * w = n" using w by (simp add: w_def)
  have loop: "exchange_loop w (unat base) (n div w) a b m = Some (block_swap m a b n)"
    using exchange_loop_block [OF al, of "n div w" m] len ap n by simp
  have one: "exchange_one w (unat base) a b m = Some (block_swap m a b n)" if "n = w"
    using exchange_one_block [OF al, of m] len ap that by simp
  have al8: "(unat base + a) mod 8 = 0" "(unat base + b) mod 8 = 0" if "w = 16"
    using dvd_trans [of 8 16 "unat base + a"] dvd_trans [of 8 16 "unat base + b"] al that
    by (simp_all add: mod_eq_0_iff_dvd)
  have loop16: "exchange_int128s_loop (unat base) (n div 16) a b m = Some (block_swap m a b n)" if "w = 16"
    using exchange_int128s_loop_block [OF al8 [OF that], of "n div 16" m] len ap n that by simp
  have one16: "exchange_one_int128 (unat base) a b n m = Some (block_swap m a b n)" if "w = 16" "n = 16"
    using exchange_one_int128_block [OF al8 [OF that(1)], of m n] len ap that by simp
  define k where "k = (base OR sz) AND 15"
  have wk: "w = width_of k" by (simp add: w_def exch_width_def k_def)
  note f = exchange_func_def [of base sz, folded k_def]
  show ?thesis
  proof (rule width_of_cases [of k])
    assume "k = 0" "width_of k = 16"
    then show ?thesis using one16 loop16 sz1 by (auto simp: f wk exchange_int128s_def)
  next
    assume "k = 8" "width_of k = 8"
    then show ?thesis
      using one loop sz1 by (auto simp: f wk exchange_int64s_def exchange_one_int64_def)
  next
    assume k: "k = 4 \<or> k = 12" "width_of k = 4"
    then have "exchange_func base sz = (if sz = 4 then exchange_one_int32 else exchange_int32s)"
      by (auto simp: f)
    then show ?thesis
      using k one loop sz1 by (auto simp: wk exchange_int32s_def exchange_one_int32_def)
  next
    assume k: "k = 2 \<or> k = 6 \<or> k = 10 \<or> k = 14" "width_of k = 2"
    then have "exchange_func base sz = (if sz = 2 then exchange_one_int16 else exchange_int16s)"
      by (auto simp: f)
    then show ?thesis
      using k one loop sz1 by (auto simp: wk exchange_int16s_def exchange_one_int16_def)
  next
    assume k: "k \<noteq> 0" "k \<noteq> 8" "\<not> (k = 4 \<or> k = 12)" "\<not> (k = 2 \<or> k = 6 \<or> k = 10 \<or> k = 14)" "width_of k = 1"
    then have "exchange_func base sz = (if sz = 1 then exchange_one_byte else exchange_bytes)"
      by (simp add: f)
    then show ?thesis
      using k(5) one loop sz1 by (auto simp: wk exchange_bytes_def exchange_one_byte_def)
  qed
qed

section \<open>Elements\<close>

lemma length_concat_uniform: "\<forall>x \<in> set xs. length x = sz \<Longrightarrow> length (concat xs) = length xs * sz"
  by (induction xs) auto

lemma concat_uniform_nth:
  "\<forall>x \<in> set xs. length x = sz \<Longrightarrow> i < length xs \<Longrightarrow> r < sz \<Longrightarrow> concat xs ! (i * sz + r) = xs ! i ! r"
proof (induction xs arbitrary: i)
  case (Cons x xs)
  then show ?case by (cases i) (auto simp: nth_append)
qed simp

lemma block_swap_concat:
  assumes un: "\<forall>x \<in> set xs. length x = sz" and sz: "0 < sz" and len: "i + k \<le> length xs" "j + k \<le> length xs"
  shows "block_swap (concat xs) (i * sz) (j * sz) (k * sz) = concat (block_swap xs i j k)"
proof (rule nth_equalityI)
  have un': "\<forall>x \<in> set (block_swap xs i j k). length x = sz"
    using un len by (auto simp: block_swap_def)
  note lc = length_concat_uniform [OF un] length_concat_uniform [OF un']
  show "length (block_swap (concat xs) (i * sz) (j * sz) (k * sz)) = length (concat (block_swap xs i j k))"
    using lc by simp
  fix q assume "q < length (block_swap (concat xs) (i * sz) (j * sz) (k * sz))"
  then have ql: "q < length xs * sz" using lc by simp
  define p r where "p = q div sz" and "r = q mod sz"
  have q: "q = p * sz + r" and r: "r < sz" using sz by (auto simp: p_def r_def)
  have p: "p < length xs" using ql by (simp add: p_def less_mult_imp_div_less)
  have in_iff: "(c * sz \<le> q \<and> q < c * sz + k * sz) \<longleftrightarrow> (c \<le> p \<and> p < c + k)" for c
  proof -
    have "c * sz \<le> q \<longleftrightarrow> c \<le> p" using sz by (simp add: p_def less_eq_div_iff_mult_less_eq)
    moreover have "q < (c + k) * sz \<longleftrightarrow> p < c + k" using sz by (simp add: p_def div_less_iff_less_mult)
    ultimately show ?thesis by (simp add: add_mult_distrib)
  qed
  have move: "concat xs ! (d * sz + (q - c * sz)) = xs ! (d + (p - c)) ! r" if "c \<le> p" "p < c + k" "d + k \<le> length xs" for c d
  proof -
    have "q - c * sz = (p - c) * sz + r" using q that by (simp add: diff_mult_distrib)
    then have "d * sz + (q - c * sz) = (d + (p - c)) * sz + r" by (simp add: add_mult_distrib)
    then show ?thesis using concat_uniform_nth [OF un _ r, of "d + (p - c)"] that by simp
  qed
  have "concat (block_swap xs i j k) ! q = block_swap xs i j k ! p ! r"
    using concat_uniform_nth [OF un' _ r, of p] p q by simp
  moreover have "concat xs ! q = xs ! p ! r" using concat_uniform_nth [OF un p r] q by simp
  ultimately show "block_swap (concat xs) (i * sz) (j * sz) (k * sz) ! q = concat (block_swap xs i j k) ! q"
    using ql lc p move len by (simp add: nth_block_swap in_iff)
qed

lemma swap_el_block: "i < length xs \<Longrightarrow> j < length xs \<Longrightarrow> swap_el i j xs = Some (block_swap xs i j 1)"
  unfolding swap_el_Some option.inject
  by (rule nth_equalityI) (auto simp: nth_block_swap nth_list_update)

lemma swap_block_block:
  assumes "i + k \<le> j" "j + k \<le> length xs"
  shows "swap_block i j k xs = Some (block_swap xs i j k)"
proof -
  obtain m' where m': "swap_block i j k xs = Some m'" "length m' = length xs"
      "\<And>x. x < length xs \<Longrightarrow> m' ! x = (if i \<le> x \<and> x < i + k then xs ! (j + (x - i))
        else if j \<le> x \<and> x < j + k then xs ! (i + (x - j)) else xs ! x)"
    using swap_block_nth [OF assms] by (auto elim!: returnsE)
  then have "m' = block_swap xs i j k" by (intro nth_equalityI) (auto simp: nth_block_swap)
  then show ?thesis using m'(1) by simp
qed

lemma apart_scale: "apart i j k \<Longrightarrow> apart (i * sz) (j * sz) (k * sz)"
  unfolding apart_def by (metis add_mult_distrib mult_le_mono1)

lemma exchange_func_swap:
  assumes un: "\<forall>x \<in> set xs. length x = unat sz" and sz: "sz \<noteq> 0" and "i < length xs" "j < length xs"
  shows "exchange_func base sz (unat base) (i * unat sz) (j * unat sz) (unat sz) (concat xs)
       = map_option concat (swap_el i j xs)"
proof -
  have s0: "0 < unat sz" using sz by (simp add: unat_gt_0)
  have le: "i * unat sz + unat sz \<le> length (concat xs)" "j * unat sz + unat sz \<le> length (concat xs)"
    using mult_le_mono1 [of "Suc i" "length xs" "unat sz"] mult_le_mono1 [of "Suc j" "length xs" "unat sz"]
      assms(3,4) length_concat_uniform [OF un] by (simp_all add: add.commute)
  have "apart (i * unat sz) (j * unat sz) (1 * unat sz)" by (rule apart_scale) (auto simp: apart_def)
  then have "exchange_func base sz (unat base) (i * unat sz) (j * unat sz) (unat sz) (concat xs)
      = Some (block_swap (concat xs) (i * unat sz) (j * unat sz) (unat sz))"
    using le exch_width_dvd(2) [of base sz] by (intro exchange_func_block) auto
  then show ?thesis
    using block_swap_concat [OF un s0, of i 1 j] swap_el_block [of i xs j] assms(3,4) by simp
qed

text \<open>\<^verbatim>\<open>rqsort\<close> swaps spans of elements with the function chosen for \<^verbatim>\<open>size | 128\<close>: the bit makes
  sure that none of the functions for exactly one unit is chosen.\<close>

lemma or_128_large: "sz OR 128 \<notin> {1, 2, 4, 8, 16 :: u64}"
proof -
  have "bit (sz OR 128 :: u64) 7" by (simp add: bit_or_iff bit_numeral_rec)
  moreover have "\<not> bit x 7" if "x \<in> {1, 2, 4, 8, 16 :: u64}" for x
    using that by (auto simp: bit_numeral_rec)
  ultimately show ?thesis by blast
qed

lemma exch_width_128: "exch_width base (sz OR 128) = exch_width base sz"
proof -
  have "(128 :: u64) AND 15 = 0" by simp
  then have "(base OR (sz OR 128)) AND 15 = (base OR sz) AND 15"
    by (simp add: bit.conj_disj_distrib2)
  then show ?thesis by (simp add: exch_width_def)
qed

lemma exchange_func_swap_block:
  assumes un: "\<forall>x \<in> set xs. length x = unat sz" and sz: "sz \<noteq> 0" and ij: "i + k \<le> j" "j + k \<le> length xs"
  shows "exchange_func base (sz OR 128) (unat base) (i * unat sz) (j * unat sz) (k * unat sz) (concat xs)
       = map_option concat (swap_block i j k xs)"
proof -
  have s0: "0 < unat sz" using sz by (simp add: unat_gt_0)
  have le: "i * unat sz + k * unat sz \<le> length (concat xs)" "j * unat sz + k * unat sz \<le> length (concat xs)"
    using mult_le_mono1 [of "i + k" "length xs" "unat sz"] mult_le_mono1 [of "j + k" "length xs" "unat sz"]
      ij length_concat_uniform [OF un] by (simp_all add: add_mult_distrib)
  have "apart (i * unat sz) (j * unat sz) (k * unat sz)" by (rule apart_scale) (use ij in \<open>auto simp: apart_def\<close>)
  then have "exchange_func base (sz OR 128) (unat base) (i * unat sz) (j * unat sz) (k * unat sz) (concat xs)
      = Some (block_swap (concat xs) (i * unat sz) (j * unat sz) (k * unat sz))"
    using le exch_width_dvd(2) [of base sz] or_128_large [of sz]
    by (intro exchange_func_block) (auto simp: exch_width_128)
  then show ?thesis
    using block_swap_concat [OF un s0, of i k j] swap_block_block [OF ij] ij by simp
qed

end
