(* ===== verification/TypedArraySort.thy ===== *)
theory TypedArraySort
  imports RqSort
begin

text \<open>
  The comparison functions \<^verbatim>\<open>TypedArray.prototype.sort\<close> passes to \<^verbatim>\<open>rqsort\<close> when the program
  gives none (\<^verbatim>\<open>js_TA_cmp_*\<close> and \<^verbatim>\<open>js_cmp_doubles\<close> of \<^verbatim>\<open>quickjs.c\<close>), on the elements as machine
  words.  The interface between the sort and its callers is the locale \<open>sort_comparator\<close>: a comparison
  function that decides a total preorder gets its array sorted.
\<close>

locale sort_comparator =
  fixes cmp :: "('a, 'o) cmp_f" and le :: "'a \<Rightarrow> 'a \<Rightarrow> bool"
  assumes decides: "cmp_ok cmp le"
begin

lemma sorts: "returns (rqsort cmp (length m) m s) (\<lambda>(m', s'). mset m' = mset m \<and> sorted_wrt le m')"
  using rqsort_spec [of cmp m s le] decides by (auto elim!: returns_mono)

end

section \<open>Integer elements\<close>

definition js_TA_cmp_int8 :: "(u8, 'o) cmp_f" where
  "js_TA_cmp_int8 a b s = (sint a - sint b, s)"

definition js_TA_cmp_uint8 :: "(u8, 'o) cmp_f" where
  "js_TA_cmp_uint8 a b s = (uint a - uint b, s)"

definition js_TA_cmp_int16 :: "(u16, 'o) cmp_f" where
  "js_TA_cmp_int16 a b s = (sint a - sint b, s)"

definition js_TA_cmp_uint16 :: "(u16, 'o) cmp_f" where
  "js_TA_cmp_uint16 a b s = (uint a - uint b, s)"

definition js_TA_cmp_int32 :: "(u32, 'o) cmp_f" where
  "js_TA_cmp_int32 a b s = (of_bool (sint b < sint a) - of_bool (sint b > sint a), s)"

definition js_TA_cmp_uint32 :: "(u32, 'o) cmp_f" where
  "js_TA_cmp_uint32 a b s = (of_bool (b < a) - of_bool (b > a), s)"

definition js_TA_cmp_int64 :: "(u64, 'o) cmp_f" where
  "js_TA_cmp_int64 a b s = (of_bool (sint b < sint a) - of_bool (sint b > sint a), s)"

definition js_TA_cmp_uint64 :: "(u64, 'o) cmp_f" where
  "js_TA_cmp_uint64 a b s = (of_bool (b < a) - of_bool (b > a), s)"

lemma cmp_ok_key:
  assumes "\<And>x y s. fst (cmp x y s) < 0 \<longleftrightarrow> key x < key y" "\<And>x y s. fst (cmp x y s) > 0 \<longleftrightarrow> key y < key x"
  shows "cmp_ok cmp (\<lambda>x y. key x \<le> (key y :: int))"
  using assms by (auto simp: cmp_ok_def)

interpretation ta_int8: sort_comparator js_TA_cmp_int8 "\<lambda>x y. sint x \<le> sint y"
  by unfold_locales (rule cmp_ok_key, simp_all add: js_TA_cmp_int8_def)

interpretation ta_uint8: sort_comparator js_TA_cmp_uint8 "\<lambda>x y. uint x \<le> uint y"
  by unfold_locales (rule cmp_ok_key, simp_all add: js_TA_cmp_uint8_def)

interpretation ta_int16: sort_comparator js_TA_cmp_int16 "\<lambda>x y. sint x \<le> sint y"
  by unfold_locales (rule cmp_ok_key, simp_all add: js_TA_cmp_int16_def)

interpretation ta_uint16: sort_comparator js_TA_cmp_uint16 "\<lambda>x y. uint x \<le> uint y"
  by unfold_locales (rule cmp_ok_key, simp_all add: js_TA_cmp_uint16_def)

interpretation ta_int32: sort_comparator js_TA_cmp_int32 "\<lambda>x y. sint x \<le> sint y"
  by unfold_locales (rule cmp_ok_key, simp_all add: js_TA_cmp_int32_def of_bool_def)

interpretation ta_uint32: sort_comparator js_TA_cmp_uint32 "\<lambda>x y. uint x \<le> uint y"
  by unfold_locales (rule cmp_ok_key, auto simp: js_TA_cmp_uint32_def of_bool_def word_less_def)

interpretation ta_int64: sort_comparator js_TA_cmp_int64 "\<lambda>x y. sint x \<le> sint y"
  by unfold_locales (rule cmp_ok_key, simp_all add: js_TA_cmp_int64_def of_bool_def)

interpretation ta_uint64: sort_comparator js_TA_cmp_uint64 "\<lambda>x y. uint x \<le> uint y"
  by unfold_locales (rule cmp_ok_key, auto simp: js_TA_cmp_uint64_def of_bool_def word_less_def)

section \<open>Floating point elements\<close>

text \<open>A \<^verbatim>\<open>double\<close> is its IEEE 754 representation: a sign bit and a magnitude, which is a NaN above
  the magnitude of infinity.  Two numbers that are not NaNs compare as their signed magnitudes.\<close>

definition dbl_mag :: "u64 \<Rightarrow> int" where
  "dbl_mag x = uint (x AND 0x7FFFFFFFFFFFFFFF)"

definition dbl_signbit :: "u64 \<Rightarrow> bool" where
  "dbl_signbit x = bit x 63"

definition dbl_isnan :: "u64 \<Rightarrow> bool" where
  "dbl_isnan x \<longleftrightarrow> dbl_mag x > 0x7FF0000000000000"

definition dbl_num :: "u64 \<Rightarrow> int" where
  "dbl_num x = (if dbl_signbit x then - dbl_mag x else dbl_mag x)"

definition js_cmp_doubles :: "u64 \<Rightarrow> u64 \<Rightarrow> int" where
  "js_cmp_doubles x y =
     (if dbl_isnan x then (if dbl_isnan y then 0 else 1)
      else if dbl_isnan y then - 1
      else if dbl_num x < dbl_num y then - 1
      else if dbl_num x > dbl_num y then 1
      else if dbl_num x \<noteq> 0 then 0
      else if dbl_signbit x then (if dbl_signbit y then 0 else - 1)
      else (if dbl_signbit y then 1 else 0))"

definition js_TA_cmp_float64 :: "(u64, 'o) cmp_f" where
  "js_TA_cmp_float64 a b s = (js_cmp_doubles a b, s)"

text \<open>The order of the specification: numbers in order, \<open>-0\<close> before \<open>+0\<close>, NaNs last.\<close>

definition dbl_rank :: "u64 \<Rightarrow> int" where
  "dbl_rank x =
     (if dbl_isnan x then 2 ^ 70
      else 2 * dbl_num x + (if dbl_num x = 0 \<and> \<not> dbl_signbit x then 1 else 0))"

lemma dbl_num_bound: "\<not> dbl_isnan x \<Longrightarrow> \<bar>dbl_num x\<bar> \<le> 0x7FF0000000000000"
  by (auto simp: dbl_num_def dbl_isnan_def dbl_mag_def)

lemma js_cmp_doubles_sign:
  "js_cmp_doubles x y < 0 \<longleftrightarrow> dbl_rank x < dbl_rank y"
  "js_cmp_doubles x y > 0 \<longleftrightarrow> dbl_rank y < dbl_rank x"
  using dbl_num_bound [of x] dbl_num_bound [of y]
  by (auto simp: js_cmp_doubles_def dbl_rank_def)

interpretation ta_float64: sort_comparator js_TA_cmp_float64 "\<lambda>x y. dbl_rank x \<le> dbl_rank y"
  by unfold_locales (rule cmp_ok_key, simp_all add: js_TA_cmp_float64_def js_cmp_doubles_sign)

end
