(* ===== verification/MpArith.thy ===== *)
theory MpArith
  imports CStrings
begin

text \<open>
  The multiple precision kernels of \<^verbatim>\<open>libbf.c\<close> on limbs of 64 bits: addition, subtraction,
  negation, shift, multiplication and comparison of numbers stored with the least significant
  limb first.  All numbers of a computation live in one memory of limbs and a pointer is an
  index into it, so results may overlap operands as the callers let them.  \<open>mp_val B m p n\<close> is the
  number the \<open>n\<close> limbs at \<open>p\<close> stand for in base \<open>B\<close>.
\<close>

type_synonym limb = u64
type_synonym dlimb = "128 word"
type_synonym limbs = "limb list"

abbreviation limb_base :: nat where
  "limb_base \<equiv> 18446744073709551616"

section \<open>Operations\<close>

definition bool_limb :: "bool \<Rightarrow> limb" where
  "bool_limb b = (if b then 1 else 0)"

definition mp_add :: "limbs \<Rightarrow> nat \<Rightarrow> nat \<Rightarrow> nat \<Rightarrow> nat \<Rightarrow> limb \<Rightarrow> (limb \<times> limbs) option" where
  "mp_add m res op1 op2 n carry =
     for_up (\<lambda>i (k, m).
       do { v \<leftarrow> rd m (op1 + i);
            w \<leftarrow> rd m (op2 + i);
            let a = v + w;
            let k1 = bool_limb (a < v);
            let a = a + k;
            let k = bool_limb (a < k) OR k1;
            m \<leftarrow> wr m (res + i) a;
            Some (k, m) }) n 0 (carry, m)"

fun mp_add_ui_loop :: "limbs \<Rightarrow> nat \<Rightarrow> limb \<Rightarrow> nat \<Rightarrow> (limb \<times> limbs) option" where
  "mp_add_ui_loop m tab k 0 = Some (k, m)"
| "mp_add_ui_loop m tab k (Suc n) =
     (if k = 0 then Some (k, m)
      else do { v \<leftarrow> rd m tab;
                let a = v + k;
                let k = bool_limb (a < k);
                m \<leftarrow> wr m tab a;
                mp_add_ui_loop m (Suc tab) k n })"

definition mp_add_ui :: "limbs \<Rightarrow> nat \<Rightarrow> limb \<Rightarrow> nat \<Rightarrow> (limb \<times> limbs) option" where
  "mp_add_ui m tab b n = mp_add_ui_loop m tab b n"

text \<open>The counters of \<^verbatim>\<open>mp_sub\<close> and \<^verbatim>\<open>mp_neg\<close> are of type \<^verbatim>\<open>int\<close>: the increment overflows when
  the numbers have \<open>2\<^sup>3\<^sup>1\<close> limbs or more.\<close>

definition mp_sub :: "limbs \<Rightarrow> nat \<Rightarrow> nat \<Rightarrow> nat \<Rightarrow> nat \<Rightarrow> limb \<Rightarrow> (limb \<times> limbs) option" where
  "mp_sub m res op1 op2 n carry =
     for_up (\<lambda>i (k, m).
       do { v \<leftarrow> rd m (op1 + i);
            w \<leftarrow> rd m (op2 + i);
            let a = v - w;
            let k1 = bool_limb (a > v);
            let v = a - k;
            let k = bool_limb (v > a) OR k1;
            m \<leftarrow> wr m (res + i) v;
            c_assert (i + 1 < 2 ^ 31);
            Some (k, m) }) n 0 (carry, m)"

definition mp_neg :: "limbs \<Rightarrow> nat \<Rightarrow> nat \<Rightarrow> nat \<Rightarrow> limb \<Rightarrow> (limb \<times> limbs) option" where
  "mp_neg m res op2 n carry =
     for_up (\<lambda>i (k, m).
       do { let v = 0;
            w \<leftarrow> rd m (op2 + i);
            let a = v - w;
            let k1 = bool_limb (a > v);
            let v = a - k;
            let k = bool_limb (v > a) OR k1;
            m \<leftarrow> wr m (res + i) v;
            c_assert (i + 1 < 2 ^ 31);
            Some (k, m) }) n 0 (carry, m)"

fun mp_sub_ui_loop :: "limbs \<Rightarrow> nat \<Rightarrow> limb \<Rightarrow> nat \<Rightarrow> (limb \<times> limbs) option" where
  "mp_sub_ui_loop m tab k 0 = Some (k, m)"
| "mp_sub_ui_loop m tab k (Suc n) =
     do { v \<leftarrow> rd m tab;
          let a = v - k;
          let k = bool_limb (a > v);
          m \<leftarrow> wr m tab a;
          if k = 0 then Some (k, m) else mp_sub_ui_loop m (Suc tab) k n }"

definition mp_sub_ui :: "limbs \<Rightarrow> nat \<Rightarrow> limb \<Rightarrow> nat \<Rightarrow> (limb \<times> limbs) option" where
  "mp_sub_ui m tab b n = mp_sub_ui_loop m tab b n"

definition mp_shr :: "limbs \<Rightarrow> nat \<Rightarrow> nat \<Rightarrow> nat \<Rightarrow> nat \<Rightarrow> limb \<Rightarrow> (limb \<times> limbs) option" where
  "mp_shr m tab_r tab n shift high =
     do { c_assert (1 \<le> shift \<and> shift < 64);
          (l, m) \<leftarrow> for_down (\<lambda>i (l, m).
            do { a \<leftarrow> rd m (tab + i);
                 m \<leftarrow> wr m (tab_r + i) (drop_bit shift a OR push_bit (64 - shift) l);
                 Some (a, m) }) n (high, m);
          Some (l AND (push_bit shift 1 - 1), m) }"

definition mp_mul1 :: "limbs \<Rightarrow> nat \<Rightarrow> nat \<Rightarrow> nat \<Rightarrow> limb \<Rightarrow> limb \<Rightarrow> (limb \<times> limbs) option" where
  "mp_mul1 m tabr taba n b l =
     for_up (\<lambda>i (l, m).
       do { a \<leftarrow> rd m (taba + i);
            let t = (ucast a :: dlimb) * ucast b + ucast l;
            m \<leftarrow> wr m (tabr + i) (ucast t);
            let l = ucast (drop_bit 64 t);
            Some (l, m) }) n 0 (l, m)"

definition mp_add_mul1 :: "limbs \<Rightarrow> nat \<Rightarrow> nat \<Rightarrow> nat \<Rightarrow> limb \<Rightarrow> (limb \<times> limbs) option" where
  "mp_add_mul1 m tabr taba n b =
     for_up (\<lambda>i (l, m).
       do { a \<leftarrow> rd m (taba + i);
            r \<leftarrow> rd m (tabr + i);
            let t = (ucast a :: dlimb) * ucast b + ucast l + ucast r;
            m \<leftarrow> wr m (tabr + i) (ucast t);
            let l = ucast (drop_bit 64 t);
            Some (l, m) }) n 0 (0, m)"

definition mp_mul_basecase :: "limbs \<Rightarrow> nat \<Rightarrow> nat \<Rightarrow> nat \<Rightarrow> nat \<Rightarrow> nat \<Rightarrow> limbs option" where
  "mp_mul_basecase m result op1 op1_size op2 op2_size =
     do { b \<leftarrow> rd m op2;
          (r, m) \<leftarrow> mp_mul1 m result op1 op1_size b 0;
          m \<leftarrow> wr m (result + op1_size) r;
          for_up (\<lambda>i m.
            do { b \<leftarrow> rd m (op2 + i);
                 (r, m) \<leftarrow> mp_add_mul1 m (result + i) op1 op1_size b;
                 wr m (result + (i + op1_size)) r }) (op2_size - 1) 1 m }"

definition mp_sub_mul1 :: "limbs \<Rightarrow> nat \<Rightarrow> nat \<Rightarrow> nat \<Rightarrow> limb \<Rightarrow> (limb \<times> limbs) option" where
  "mp_sub_mul1 m tabr taba n b =
     for_up (\<lambda>i (l, m).
       do { r \<leftarrow> rd m (tabr + i);
            a \<leftarrow> rd m (taba + i);
            let t = (ucast r :: dlimb) - ucast a * ucast b - ucast l;
            m \<leftarrow> wr m (tabr + i) (ucast t);
            let l = ucast (- drop_bit 64 t);
            Some (l, m) }) n 0 (0, m)"

fun mp_cmp :: "limbs \<Rightarrow> nat \<Rightarrow> nat \<Rightarrow> nat \<Rightarrow> int option" where
  "mp_cmp m taba tabb 0 = Some 0"
| "mp_cmp m taba tabb (Suc i) =
     do { a \<leftarrow> rd m (taba + i);
          b \<leftarrow> rd m (tabb + i);
          if a \<noteq> b then Some (if a < b then - 1 else 1) else mp_cmp m taba tabb i }"

section \<open>Values\<close>

primrec mp_val :: "nat \<Rightarrow> limbs \<Rightarrow> nat \<Rightarrow> nat \<Rightarrow> nat" where
  "mp_val B m p 0 = 0"
| "mp_val B m p (Suc n) = mp_val B m p n + unat (m ! (p + n)) * B ^ n"

text \<open>\<open>only_changes m m' p n\<close>: at most the \<open>n\<close> limbs at \<open>p\<close> differ.  \<open>reads_ok r p n\<close>: a loop that
  writes \<open>n\<close> limbs at \<open>r\<close> upwards still reads the old limbs at \<open>p\<close>.\<close>

definition only_changes :: "limbs \<Rightarrow> limbs \<Rightarrow> nat \<Rightarrow> nat \<Rightarrow> bool" where
  "only_changes m m' p n \<longleftrightarrow> length m' = length m \<and> (\<forall>j. j < p \<or> p + n \<le> j \<longrightarrow> m' ! j = m ! j)"

definition reads_ok :: "nat \<Rightarrow> nat \<Rightarrow> nat \<Rightarrow> bool" where
  "reads_ok r p n \<longleftrightarrow> r \<le> p \<or> p + n \<le> r"

definition apart_mem :: "nat \<Rightarrow> nat \<Rightarrow> nat \<Rightarrow> nat \<Rightarrow> bool" where
  "apart_mem p n q k \<longleftrightarrow> p + n \<le> q \<or> q + k \<le> p"

lemma only_changes_refl [simp]: "only_changes m m p n"
  by (simp add: only_changes_def)

lemma only_changes_trans: "only_changes m m' p n \<Longrightarrow> only_changes m' m'' p n \<Longrightarrow> only_changes m m'' p n"
  by (simp add: only_changes_def)

lemma only_changes_mono:
  "only_changes m m' p n \<Longrightarrow> q \<le> p \<Longrightarrow> p + n \<le> q + k \<Longrightarrow> only_changes m m' q k"
  by (simp add: only_changes_def)

lemma only_changes_length: "only_changes m m' p n \<Longrightarrow> length m' = length m"
  by (simp add: only_changes_def)

lemma only_changes_update: "only_changes m m' p n \<Longrightarrow> p \<le> i \<Longrightarrow> i < p + n \<Longrightarrow> only_changes m (m'[i := x]) p n"
  by (auto simp: only_changes_def)

lemma only_changes_next: "only_changes m m' p n \<Longrightarrow> only_changes m (m'[p + n := x]) p (Suc n)"
  by (auto simp: only_changes_def)

lemma mp_val_cong: "(\<And>i. i < n \<Longrightarrow> m' ! (p' + i) = m ! (p + i)) \<Longrightarrow> mp_val B m' p' n = mp_val B m p n"
  by (induction n) auto

lemma mp_val_update_after [simp]: "p + n \<le> i \<Longrightarrow> mp_val B (m[i := x]) p n = mp_val B m p n"
  by (rule mp_val_cong) simp

lemma mp_val_frame:
  "only_changes m m' p n \<Longrightarrow> apart_mem p n q k \<Longrightarrow> mp_val B m' q k = mp_val B m q k"
  by (rule mp_val_cong) (auto simp: only_changes_def apart_mem_def)

lemma mp_val_add: "mp_val B m p (n + k) = mp_val B m p n + B ^ n * mp_val B m (p + n) k"
  by (induction k) (simp_all add: algebra_simps power_add)

lemma mp_val_bound: "(\<And>i. i < n \<Longrightarrow> unat (m ! (p + i)) < B) \<Longrightarrow> mp_val B m p n < B ^ n"
proof (induction n)
  case (Suc n)
  have "unat (m ! (p + n)) < B" "mp_val B m p n < B ^ n" using Suc by auto
  then have "mp_val B m p n + unat (m ! (p + n)) * B ^ n < B ^ n + (B - 1) * B ^ n"
    by (intro add_less_le_mono mult_le_mono1) auto
  also have "\<dots> = B ^ Suc n" using \<open>unat (m ! (p + n)) < B\<close> by (cases B) auto
  finally show ?case by simp
qed simp

lemma limb_less: "unat (x :: limb) < limb_base"
  using unsigned_less [of x, where ?'a = nat] by simp

lemma mp_val_limb_bound: "mp_val limb_base m p n < limb_base ^ n"
  by (rule mp_val_bound) (rule limb_less)

section \<open>One step of each loop\<close>

lemma unat_bool_limb [simp]: "unat (bool_limb b) = of_bool b"
  by (simp add: bool_limb_def)

lemma bool_limb_or [simp]: "bool_limb a OR bool_limb b = bool_limb (a \<or> b)"
  by (simp add: bool_limb_def)

lemma bool_limb_eq_0 [simp]: "bool_limb b = 0 \<longleftrightarrow> \<not> b"
  by (simp add: bool_limb_def)

lemma unat_dlimb [simp]: "unat (ucast (x :: limb) :: dlimb) = unat x"
  by (simp add: unsigned_ucast_eq take_bit_nat_eq_self_iff less_le_trans [OF unsigned_less])

lemma unat_low: "unat (ucast (t :: dlimb) :: limb) = unat t mod limb_base"
  by (simp add: unsigned_ucast_eq take_bit_eq_mod)

lemma unat_drop64: "unat (drop_bit 64 (t :: dlimb)) = unat t div limb_base"
  unfolding unat_drop_bit_eq using drop_bit_eq_div [of 64 "unat t"] by simp

lemma unat_high: "unat (ucast (drop_bit 64 (t :: dlimb)) :: limb) = unat t div limb_base"
proof -
  have "unat t div limb_base < limb_base"
    using unsigned_less [of t, where ?'a = nat] by (simp add: less_mult_imp_div_less)
  then show ?thesis by (simp add: unat_low unat_drop64)
qed

lemma low_high: "unat (ucast (t :: dlimb) :: limb) + unat (ucast (drop_bit 64 t) :: limb) * limb_base = unat t"
  unfolding unat_high unfolding unat_low by (rule mod_div_mult_eq)

lemma limb_prod_bound: "unat (a :: limb) * unat (b :: limb) \<le> (limb_base - 1) * (limb_base - 1)"
proof -
  have "unat a \<le> limb_base - 1" "unat b \<le> limb_base - 1"
    using limb_less [of a] limb_less [of b] by simp_all
  then show ?thesis by (rule mult_le_mono)
qed

lemma unat_mul_add2:
  "unat ((ucast (a :: limb) :: dlimb) * ucast (b :: limb) + ucast (c :: limb) + ucast (d :: limb))
     = unat a * unat b + unat c + unat d"
proof -
  have "unat a * unat b + unat c + unat d < 2 ^ 128"
    using limb_prod_bound [of a b] limb_less [of c] limb_less [of d] by simp
  then show ?thesis by (simp add: unat_word_ariths)
qed

lemma unat_mul_add:
  "unat ((ucast (a :: limb) :: dlimb) * ucast (b :: limb) + ucast (c :: limb)) = unat a * unat b + unat c"
  using unat_mul_add2 [of a b c 0] by simp

lemma unat_add_small: "unat v + unat w < limb_base \<Longrightarrow> unat (v + w :: limb) = unat v + unat w"
  unfolding unat_word_ariths by simp

lemma unat_add_wrap:
  fixes v w :: limb
  assumes "limb_base \<le> unat v + unat w"
  shows "unat (v + w) = unat v + unat w - limb_base"
proof -
  have "unat v + unat w - limb_base < limb_base" using limb_less [of v] limb_less [of w] by simp
  then show ?thesis unfolding unat_word_ariths using assms by (simp add: le_mod_geq)
qed

lemma unat_add_carry:
  fixes v w :: limb
  shows "unat (v + w) + of_bool (v + w < v) * limb_base = unat v + unat w"
  using limb_less [of v] limb_less [of w]
  by (cases "unat v + unat w < limb_base") (auto simp: word_less_nat_alt unat_word_ariths mod_if)

lemma add_step:
  fixes v w k :: limb
  assumes "unat k \<le> 1"
  shows "unat (v + w + k) + of_bool (v + w + k < k \<or> v + w < v) * limb_base = unat v + unat w + unat k"
proof -
  note 1 = unat_add_carry [of v w] and 2 = unat_add_carry [of k "v + w"]
  have "\<not> (k + (v + w) < k \<and> v + w < v)"
    using 1 2 assms limb_less [of v] limb_less [of w] by auto
  then show ?thesis using 1 2 by (auto simp: add.commute [of k])
qed

lemma unat_sub_borrow:
  fixes v w :: limb
  shows "unat (v - w) + unat w = unat v + of_bool (v < v - w) * limb_base"
proof -
  have e: "unat v + of_bool (v < w) * limb_base = unat w + unat (v - w)"
    using unat_add_carry [of w "v - w"] by simp
  then have "(v < v - w) = (v < w)"
    using limb_less [of w] by (cases "v < w") (auto simp: word_less_nat_alt)
  with e show ?thesis by simp
qed

lemma sub_step:
  fixes v w k :: limb
  assumes "unat k \<le> 1"
  shows "unat (v - w - k) + unat w + unat k = unat v + of_bool (v - w < v - w - k \<or> v < v - w) * limb_base"
proof -
  note 1 = unat_sub_borrow [of v w] and 2 = unat_sub_borrow [of "v - w" k]
  have "\<not> (v - w < v - w - k \<and> v < v - w)"
    using 1 2 assms limb_less [of v] limb_less [of w] limb_less [of "v - w - k"] by auto
  then show ?thesis using 1 2 by auto
qed

lemma unat_uminus:
  assumes "x \<noteq> (0 :: 'a::len word)"
  shows "unat (- x) = 2 ^ LENGTH('a) - unat x"
proof -
  have "(unat x + unat (- x)) mod 2 ^ LENGTH('a) = unat (x + - x)"
    by (simp only: unat_word_ariths)
  then obtain k where k: "unat x + unat (- x) = 2 ^ LENGTH('a) * k"
    by (auto elim: dvdE simp flip: mod_eq_0_iff_dvd)
  have b: "unat x < 2 ^ LENGTH('a)" "unat (- x) < 2 ^ LENGTH('a)" by (rule unsigned_less)+
  have "unat x \<noteq> 0" using assms by (simp add: unsigned_eq_0_iff)
  then have "0 < k" using k by (cases k) auto
  moreover have "k < 2"
  proof (rule ccontr)
    assume "\<not> k < 2"
    then have "2 ^ LENGTH('a) * 2 \<le> (2 ^ LENGTH('a) * k :: nat)" by (intro mult_le_mono2) simp
    then show False using k b by linarith
  qed
  ultimately have "k = 1" by simp
  then show ?thesis using k by simp
qed

lemma sub_mul_step:
  fixes r a b l :: limb
  defines "t \<equiv> (ucast r :: dlimb) - ucast a * ucast b - ucast l"
  shows "unat (ucast t :: limb) + unat a * unat b + unat l = unat r + unat (ucast (- drop_bit 64 t) :: limb) * limb_base"
proof -
  define s where "s = (ucast a :: dlimb) * ucast b + ucast l"
  have s: "unat s = unat a * unat b + unat l" unfolding s_def by (rule unat_mul_add)
  have t: "t = ucast r - s" by (simp add: t_def s_def)
  have sb: "unat s \<le> (limb_base - 1) * limb_base"
    using limb_prod_bound [of a b] limb_less [of l] by (simp add: s)
  show ?thesis
  proof (cases "unat s \<le> unat r")
    case True
    then have "unat t = unat r - unat s"
      using t by (simp add: unat_sub word_le_nat_alt)
    moreover have "drop_bit 64 t = 0"
      using calculation limb_less [of r] unat_drop64 [of t] by (simp add: unsigned_eq_0_iff)
    ultimately show ?thesis using True s limb_less [of r] by (simp add: unat_low)
  next
    case False
    define y where "y = unat s - unat r"
    have y: "0 < y" "y \<le> (limb_base - 1) * limb_base" using False sb by (auto simp: y_def)
    have d: "unat (s - ucast r) = y"
      using False by (simp add: unat_sub word_le_nat_alt y_def)
    then have "s - ucast r \<noteq> 0" using y(1) by (metis less_irrefl unat_0)
    from unat_uminus [OF this] have ut: "unat t = 2 ^ 128 - y" by (simp add: t d)
    define h where "h = unat t div limb_base"
    have h: "unat t = unat t mod limb_base + h * limb_base" by (simp add: h_def mod_div_mult_eq)
    have hb: "1 \<le> h" "h < limb_base" using ut y by (auto simp: h_def)
    have dz: "drop_bit 64 t \<noteq> 0"
      using hb(1) unat_drop64 [of t, folded h_def] by (metis not_one_le_zero unat_0)
    have "unat (- drop_bit 64 t) = 2 ^ 128 - h"
      using unat_uminus [OF dz] unat_drop64 [of t, folded h_def] by simp
    moreover obtain h' where h': "h + h' = limb_base" "h' < limb_base"
      using hb le_Suc_ex [of h limb_base] by auto
    then have "2 ^ 128 - h = h' + (limb_base - 1) * limb_base" by simp
    ultimately have "unat (ucast (- drop_bit 64 t) :: limb) = h'"
      using h'(2) by (simp only: unat_low mod_mult_self1 mod_less)
    moreover have "unat (ucast t :: limb) + unat s = unat r + h' * limb_base"
      using h ut y h'(1) False by (simp add: unat_low y_def)
    ultimately show ?thesis by (simp only: s)
  qed
qed

section \<open>Loops over limbs\<close>

lemma rd_source:
  assumes "only_changes m m' r j" and "reads_ok r p n" and "j < n" and "p + n \<le> length m"
  shows "rd m' (p + j) = Some (m ! (p + j))"
  using assms by (auto simp: rd_def only_changes_def reads_ok_def)

lemma wr_result:
  assumes "only_changes m m' r j" and "j < n" and "r + n \<le> length m"
  shows "wr m' (r + j) x = Some (m'[r + j := x])"
  using assms by (auto simp: wr_def only_changes_def)

lemma mp_val_next:
  assumes "only_changes m m' r j" and "j < n" and "r + n \<le> length m"
  shows "mp_val B (m'[r + j := x]) r (Suc j) = mp_val B m' r j + unat x * B ^ j"
  using assms by (simp add: only_changes_def)

lemmas limb_loop = rd_source wr_result only_changes_next

declare of_nat_unat [simp del]

lemma mp_val_sum: "mp_val B m p n = (\<Sum>i<n. unat (m ! (p + i)) * B ^ i)"
  by (induction n) auto

lemma int_mp_val: "int (mp_val B m p n) = (\<Sum>i<n. int (unat (m ! (p + i))) * int B ^ i)"
  by (simp add: mp_val_sum)

text \<open>The shape of a loop that writes one limb per round and hands on a carry of value \<open>cv\<close>: when
  each round satisfies its equation in base \<open>B\<close>, the loop satisfies the sum of the equations.\<close>

lemma carry_loop:
  fixes s :: "nat \<Rightarrow> int" and cv :: "'k \<Rightarrow> int"
  assumes k0: "ok k0" and r: "r + n \<le> length m"
    and body: "\<And>j k m'. j < n \<Longrightarrow> ok k \<Longrightarrow> only_changes m m' r j \<Longrightarrow>
      f j (k, m') = Some (kf j k, m'[r + j := xf j k])"
    and eq: "\<And>j k. j < n \<Longrightarrow> ok k \<Longrightarrow>
      ok (kf j k) \<and> int (unat (xf j k)) + cv (kf j k) * int B = s j + cv k \<and> unat (xf j k) < B"
  shows "returns (for_up f n 0 (k0, m)) (\<lambda>(k, m'). only_changes m m' r n \<and> ok k \<and>
     (\<forall>i < n. unat (m' ! (r + i)) < B) \<and>
     int (mp_val B m' r n) + cv k * int B ^ n = (\<Sum>i<n. s i * int B ^ i) + cv k0)"
proof -
  let ?I = "\<lambda>j (k, m'). only_changes m m' r j \<and> ok k \<and> (\<forall>i < j. unat (m' ! (r + i)) < B) \<and>
     int (mp_val B m' r j) + cv k * int B ^ j = (\<Sum>i<j. s i * int B ^ i) + cv k0"
  have step: "returns (f j st) (?I (Suc j))" if j: "j < n" and I: "?I j st" for j st
  proof -
    obtain k m' where st: "st = (k, m')" by (rule prod.exhaust)
    have I': "only_changes m m' r j" "ok k" "\<forall>i < j. unat (m' ! (r + i)) < B"
        "int (mp_val B m' r j) + cv k * int B ^ j = (\<Sum>i<j. s i * int B ^ i) + cv k0"
      using I by (simp_all add: st)
    define k' x where kx: "k' = kf j k" "x = xf j k"
    have b: "f j (k, m') = Some (k', m'[r + j := x])" "ok k'"
        "int (unat x) + cv k' * int B = s j + cv k" "unat x < B"
      using body [OF j I'(2,1)] eq [OF j I'(2)] by (simp_all add: kx)
    have "int (mp_val B (m'[r + j := x]) r (Suc j)) + cv k' * int B ^ Suc j
        = int (mp_val B m' r j) + (int (unat x) + cv k' * int B) * int B ^ j"
      using mp_val_next [OF I'(1) j r, of B x] by (simp add: algebra_simps)
    also have "\<dots> = (int (mp_val B m' r j) + cv k * int B ^ j) + s j * int B ^ j"
      by (simp only: b(3)) (simp add: algebra_simps)
    finally have "int (mp_val B (m'[r + j := x]) r (Suc j)) + cv k' * int B ^ Suc j
        = (\<Sum>i<Suc j. s i * int B ^ i) + cv k0"
      by (simp add: I'(4))
    moreover have "\<forall>i < Suc j. unat (m'[r + j := x] ! (r + i)) < B"
      using I'(1,3) b(4) j r by (auto simp: less_Suc_eq nth_list_update only_changes_def)
    ultimately show ?thesis
      using b(1,2) only_changes_next [OF I'(1)] by (simp only: st returns_Some prod.case)
  qed
  show ?thesis
    using for_up_inv [where I = ?I and f = f, OF _ step] k0 by simp
qed

text \<open>The two forms of it on natural numbers: a carry that is added and a borrow that is
  subtracted.\<close>

lemma add_loop:
  assumes "ok k0" and "r + n \<le> length m"
    and "\<And>j k m'. j < n \<Longrightarrow> ok k \<Longrightarrow> only_changes m m' r j \<Longrightarrow>
      f j (k, m') = Some (kf j k, m'[r + j := xf j k])"
    and eq: "\<And>j k. j < n \<Longrightarrow> ok k \<Longrightarrow>
      ok (kf j k) \<and> unat (xf j k) + unat (kf j k) * B = s j + unat k \<and> unat (xf j k) < B"
  shows "returns (for_up f n 0 (k0 :: limb, m)) (\<lambda>(k, m'). only_changes m m' r n \<and> ok k \<and>
     (\<forall>i < n. unat (m' ! (r + i)) < B) \<and>
     mp_val B m' r n + unat k * B ^ n = (\<Sum>i<n. s i * B ^ i) + unat k0)"
proof -
  have "returns (for_up f n 0 (k0, m)) (\<lambda>(k, m'). only_changes m m' r n \<and> ok k \<and>
     (\<forall>i < n. unat (m' ! (r + i)) < B) \<and>
     int (mp_val B m' r n) + int (unat k) * int B ^ n = (\<Sum>i<n. int (s i) * int B ^ i) + int (unat k0))"
    using assms(1,2,3)
    by (rule carry_loop) (use eq in \<open>simp_all flip: of_nat_mult of_nat_add\<close>)
  then show ?thesis
    by (rule returns_mono) (auto simp flip: of_nat_mult of_nat_add of_nat_power of_nat_sum)
qed

lemma sub_loop:
  assumes "ok k0" and "r + n \<le> length m"
    and "\<And>j k m'. j < n \<Longrightarrow> ok k \<Longrightarrow> only_changes m m' r j \<Longrightarrow>
      f j (k, m') = Some (kf j k, m'[r + j := xf j k])"
    and eq: "\<And>j k. j < n \<Longrightarrow> ok k \<Longrightarrow>
      ok (kf j k) \<and> unat (xf j k) + s' j + unat k = s j + unat (kf j k) * B \<and> unat (xf j k) < B"
  shows "returns (for_up f n 0 (k0 :: limb, m)) (\<lambda>(k, m'). only_changes m m' r n \<and> ok k \<and>
     (\<forall>i < n. unat (m' ! (r + i)) < B) \<and>
     mp_val B m' r n + (\<Sum>i<n. s' i * B ^ i) + unat k0 = (\<Sum>i<n. s i * B ^ i) + unat k * B ^ n)"
proof -
  have eq': "ok (kf j k) \<and> int (unat (xf j k)) + (- int (unat (kf j k))) * int B
      = int (s j) - int (s' j) + (- int (unat k)) \<and> unat (xf j k) < B" if "j < n" "ok k" for j k
  proof -
    have "int (unat (xf j k)) + int (s' j) + int (unat k) = int (s j) + int (unat (kf j k)) * int B"
      using eq [OF that] by (simp flip: of_nat_mult of_nat_add)
    then show ?thesis using eq [OF that] by simp
  qed
  have "returns (for_up f n 0 (k0, m)) (\<lambda>(k, m'). only_changes m m' r n \<and> ok k \<and>
     (\<forall>i < n. unat (m' ! (r + i)) < B) \<and>
     int (mp_val B m' r n) + (- int (unat k)) * int B ^ n
       = (\<Sum>i<n. (int (s i) - int (s' i)) * int B ^ i) + (- int (unat k0)))"
    by (rule carry_loop [where ok = ok and kf = kf and xf = xf, OF assms(1-3) eq'])
  then show ?thesis
  proof (rule returns_mono, clarsimp)
    fix k m'
    assume "int (mp_val B m' r n) - int (unat k) * int B ^ n
      = (\<Sum>i<n. (int (s i) - int (s' i)) * int B ^ i) - int (unat k0)"
    then have "int (mp_val B m' r n) + (\<Sum>i<n. int (s' i) * int B ^ i) + int (unat k0)
      = (\<Sum>i<n. int (s i) * int B ^ i) + int (unat k) * int B ^ n"
      by (simp add: left_diff_distrib sum_subtractf)
    then show "mp_val B m' r n + (\<Sum>i<n. s' i * B ^ i) + unat k0 = (\<Sum>i<n. s i * B ^ i) + unat k * B ^ n"
      by (simp flip: of_nat_mult of_nat_add of_nat_power of_nat_sum)
  qed
qed

section \<open>Addition and subtraction\<close>

abbreviation lval :: "limbs \<Rightarrow> nat \<Rightarrow> nat \<Rightarrow> nat" where
  "lval \<equiv> mp_val limb_base"

lemma mp_add_returns:
  assumes "unat carry \<le> 1" and "res + n \<le> length m" and "op1 + n \<le> length m" and "op2 + n \<le> length m"
    and "reads_ok res op1 n" and "reads_ok res op2 n"
  shows "returns (mp_add m res op1 op2 n carry) (\<lambda>(k, m'). only_changes m m' res n \<and> unat k \<le> 1 \<and>
     lval m' res n + unat k * limb_base ^ n = lval m op1 n + lval m op2 n + unat carry)"
  unfolding mp_add_def
proof (rule returns_mono [OF add_loop [where ok = "\<lambda>k. unat k \<le> 1" and B = limb_base and r = res
      and s = "\<lambda>i. unat (m ! (op1 + i)) + unat (m ! (op2 + i))"
      and kf = "\<lambda>i k. bool_limb (m ! (op1 + i) + m ! (op2 + i) + k < k \<or> m ! (op1 + i) + m ! (op2 + i) < m ! (op1 + i))"
      and xf = "\<lambda>i k. m ! (op1 + i) + m ! (op2 + i) + k"]], goal_cases)
  case (3 j k m')
  then show ?case
    by (simp add: rd_source [OF 3(3) assms(5) 3(1) assms(3)] rd_source [OF 3(3) assms(6) 3(1) assms(4)]
        wr_result [OF 3(3,1) assms(2)] Let_def)
next
  case (4 j k)
  then show ?case
    using add_step [OF 4(2), of "m ! (op1 + j)" "m ! (op2 + j)"] by (simp add: limb_less [simplified])
qed (use assms in \<open>auto simp: mp_val_sum distrib_right sum.distrib\<close>)

lemma mp_sub_returns:
  assumes "unat carry \<le> 1" and "res + n \<le> length m" and "op1 + n \<le> length m" and "op2 + n \<le> length m"
    and "reads_ok res op1 n" and "reads_ok res op2 n" and "n < 2 ^ 31"
  shows "returns (mp_sub m res op1 op2 n carry) (\<lambda>(k, m'). only_changes m m' res n \<and> unat k \<le> 1 \<and>
     lval m' res n + lval m op2 n + unat carry = lval m op1 n + unat k * limb_base ^ n)"
  unfolding mp_sub_def
proof (rule returns_mono [OF sub_loop [where ok = "\<lambda>k. unat k \<le> 1" and B = limb_base and r = res
      and s = "\<lambda>i. unat (m ! (op1 + i))" and s' = "\<lambda>i. unat (m ! (op2 + i))"
      and kf = "\<lambda>i k. bool_limb (m ! (op1 + i) - m ! (op2 + i) < m ! (op1 + i) - m ! (op2 + i) - k \<or>
         m ! (op1 + i) < m ! (op1 + i) - m ! (op2 + i))"
      and xf = "\<lambda>i k. m ! (op1 + i) - m ! (op2 + i) - k"]], goal_cases)
  case (3 j k m')
  then show ?case
    using assms(7)
    by (simp add: rd_source [OF 3(3) assms(5) 3(1) assms(3)] rd_source [OF 3(3) assms(6) 3(1) assms(4)]
        wr_result [OF 3(3,1) assms(2)] Let_def)
next
  case (4 j k)
  then show ?case
    using sub_step [OF 4(2), of "m ! (op1 + j)" "m ! (op2 + j)"] by (simp add: limb_less [simplified])
qed (use assms in \<open>auto simp: mp_val_sum\<close>)

lemma mp_neg_returns:
  assumes "unat carry \<le> 1" and "res + n \<le> length m" and "op2 + n \<le> length m"
    and "reads_ok res op2 n" and "n < 2 ^ 31"
  shows "returns (mp_neg m res op2 n carry) (\<lambda>(k, m'). only_changes m m' res n \<and> unat k \<le> 1 \<and>
     lval m' res n + lval m op2 n + unat carry = unat k * limb_base ^ n)"
  unfolding mp_neg_def
proof (rule returns_mono [OF sub_loop [where ok = "\<lambda>k. unat k \<le> 1" and B = limb_base and r = res
      and s = "\<lambda>i. 0" and s' = "\<lambda>i. unat (m ! (op2 + i))"
      and kf = "\<lambda>i k. bool_limb (0 - m ! (op2 + i) < 0 - m ! (op2 + i) - k \<or> 0 < 0 - m ! (op2 + i))"
      and xf = "\<lambda>i k. 0 - m ! (op2 + i) - k"]], goal_cases)
  case (3 j k m')
  then show ?case
    using assms(5)
    by (simp add: rd_source [OF 3(3) assms(4) 3(1) assms(3)] wr_result [OF 3(3,1) assms(2)] Let_def)
next
  case (4 j k)
  then show ?case
    using sub_step [OF 4(2), of 0 "m ! (op2 + j)"] by (simp add: limb_less [simplified])
qed (use assms in \<open>auto simp: mp_val_sum\<close>)

lemma mp_val_front: "mp_val B m p (Suc n) = unat (m ! p) + B * mp_val B m (Suc p) n"
  using mp_val_add [of B m p 1 n] by simp

lemma mp_val_unchanged: "only_changes m m' q k \<Longrightarrow> p + n \<le> q \<Longrightarrow> mp_val B m' p n = mp_val B m p n"
  by (rule mp_val_frame) (auto simp: apart_mem_def)

lemma mp_add_ui_returns:
  assumes "tab + n \<le> length m"
  shows "returns (mp_add_ui m tab b n) (\<lambda>(k, m'). only_changes m m' tab n \<and>
     lval m' tab n + unat k * limb_base ^ n = lval m tab n + unat b \<and> (0 < n \<longrightarrow> unat k \<le> 1))"
  using assms unfolding mp_add_ui_def
proof (induction m tab b n rule: mp_add_ui_loop.induct)
  case (2 m tab k n)
  show ?case
  proof (cases "k = 0")
    case False
    define a k1 m1 where d: "a = m ! tab + k" "k1 = bool_limb (a < k)" "m1 = m[tab := a]"
    have c: "unat a + unat k1 * limb_base = unat (m ! tab) + unat k"
      using unat_add_carry [of k "m ! tab"] by (simp add: d add.commute)
    have IH: "returns (mp_add_ui_loop m1 (Suc tab) k1 n) (\<lambda>(k', m'). only_changes m1 m' (Suc tab) n \<and>
       lval m' (Suc tab) n + unat k' * limb_base ^ n = lval m1 (Suc tab) n + unat k1 \<and> (0 < n \<longrightarrow> unat k' \<le> 1))"
      using False "2.prems" by (intro "2.IH") (simp_all add: d mem_simps)
    have v1: "lval m1 (Suc tab) n = lval m (Suc tab) n"
      by (rule mp_val_cong) (simp add: d)
    have "returns (mp_add_ui_loop m1 (Suc tab) k1 n) (\<lambda>(k', m'). only_changes m m' tab (Suc n) \<and>
       lval m' tab (Suc n) + unat k' * limb_base ^ Suc n = lval m tab (Suc n) + unat k \<and> unat k' \<le> 1)"
    proof (rule returns_mono [OF IH], clarify, intro conjI)
      fix k' :: limb and m'
      assume a: "only_changes m1 m' (Suc tab) n"
        "lval m' (Suc tab) n + unat k' * limb_base ^ n = lval m1 (Suc tab) n + unat k1" "0 < n \<longrightarrow> unat k' \<le> 1"
      show "only_changes m m' tab (Suc n)"
        using a(1) by (auto simp: only_changes_def d)
      have "m' ! tab = a" using a(1) "2.prems" by (simp add: only_changes_def d)
      then have "lval m' tab (Suc n) + unat k' * limb_base ^ Suc n
          = unat a + limb_base * (lval m' (Suc tab) n + unat k' * limb_base ^ n)"
        by (simp add: mp_val_front distrib_left del: mp_val.simps)
      also have "\<dots> = lval m tab (Suc n) + unat k"
        using c by (simp only: a(2) v1 mp_val_front) (simp add: algebra_simps)
      finally show "lval m' tab (Suc n) + unat k' * limb_base ^ Suc n = lval m tab (Suc n) + unat k" .
      have "unat k1 \<le> 1" by (simp add: d)
      then show "unat k' \<le> 1" using a(2,3) v1 by (cases n) auto
    qed
    then show ?thesis
      using False "2.prems" by (simp add: mem_simps d Let_def del: mp_val.simps)
  qed simp
qed simp

lemma mp_sub_ui_returns:
  assumes "tab + n \<le> length m"
  shows "returns (mp_sub_ui m tab b n) (\<lambda>(k, m'). only_changes m m' tab n \<and>
     lval m' tab n + unat b = lval m tab n + unat k * limb_base ^ n \<and> (0 < n \<longrightarrow> unat k \<le> 1))"
  using assms unfolding mp_sub_ui_def
proof (induction m tab b n rule: mp_sub_ui_loop.induct)
  case (2 m tab k n)
  define a k1 m1 where d: "a = m ! tab - k" "k1 = bool_limb (m ! tab < a)" "m1 = m[tab := a]"
  have c: "unat a + unat k = unat (m ! tab) + unat k1 * limb_base"
    using unat_sub_borrow [of "m ! tab" k] by (simp add: d)
  have v1: "lval m1 (Suc tab) n = lval m (Suc tab) n"
    by (rule mp_val_cong) (simp add: d)
  have front: "lval m' tab (Suc n) + unat k = lval m tab (Suc n) + unat k' * limb_base ^ Suc n"
    if "m' ! tab = a" "lval m' (Suc tab) n + unat k1 = lval m1 (Suc tab) n + unat k' * limb_base ^ n" for m' and k' :: limb
  proof -
    have "lval m' tab (Suc n) + (unat k + unat k1 * limb_base)
        = unat a + unat k + limb_base * (lval m' (Suc tab) n + unat k1)"
      using that(1) by (simp add: mp_val_front algebra_simps del: mp_val.simps)
    also have "\<dots> = lval m tab (Suc n) + unat k' * limb_base ^ Suc n + unat k1 * limb_base"
      by (simp only: that(2) v1 mp_val_front c) (simp add: algebra_simps)
    finally show ?thesis by (simp del: mp_val.simps)
  qed
  show ?case
  proof (cases "k1 = 0")
    case True
    have "only_changes m m1 tab (Suc n)" by (auto simp: only_changes_def d)
    moreover have "lval m1 tab (Suc n) + unat k = lval m tab (Suc n)"
      using front [of m1 0] True "2.prems" by (simp add: d del: mp_val.simps)
    ultimately show ?thesis
      using True "2.prems" by (simp add: mem_simps d Let_def del: mp_val.simps)
  next
    case False
    have IH: "returns (mp_sub_ui_loop m1 (Suc tab) k1 n) (\<lambda>(k', m'). only_changes m1 m' (Suc tab) n \<and>
       lval m' (Suc tab) n + unat k1 = lval m1 (Suc tab) n + unat k' * limb_base ^ n \<and> (0 < n \<longrightarrow> unat k' \<le> 1))"
      using False "2.prems" by (intro "2.IH") (auto simp: d mem_simps bool_limb_def)
    have "returns (mp_sub_ui_loop m1 (Suc tab) k1 n) (\<lambda>(k', m'). only_changes m m' tab (Suc n) \<and>
       lval m' tab (Suc n) + unat k = lval m tab (Suc n) + unat k' * limb_base ^ Suc n \<and> unat k' \<le> 1)"
    proof (rule returns_mono [OF IH], clarify, intro conjI)
      fix k' :: limb and m'
      assume a: "only_changes m1 m' (Suc tab) n"
        "lval m' (Suc tab) n + unat k1 = lval m1 (Suc tab) n + unat k' * limb_base ^ n" "0 < n \<longrightarrow> unat k' \<le> 1"
      show "only_changes m m' tab (Suc n)"
        using a(1) by (auto simp: only_changes_def d)
      have "m' ! tab = a" using a(1) "2.prems" by (simp add: only_changes_def d)
      then show "lval m' tab (Suc n) + unat k = lval m tab (Suc n) + unat k' * limb_base ^ Suc n"
        using front [of m' k'] a(2) by blast
      have "unat k1 \<le> 1" by (simp add: d)
      then show "unat k' \<le> 1" using a(2,3) v1 by (cases n) auto
    qed
    then show ?thesis
      using False "2.prems" by (simp add: mem_simps d Let_def del: mp_val.simps)
  qed
qed simp

section \<open>Multiplication, shift and comparison\<close>

lemma mp_mul1_returns:
  assumes "tabr + n \<le> length m" and "taba + n \<le> length m" and "reads_ok tabr taba n"
  shows "returns (mp_mul1 m tabr taba n b l) (\<lambda>(k, m'). only_changes m m' tabr n \<and>
     lval m' tabr n + unat k * limb_base ^ n = lval m taba n * unat b + unat l)"
  unfolding mp_mul1_def
proof (rule returns_mono [OF add_loop [where ok = "\<lambda>k. True" and B = limb_base and r = tabr
      and s = "\<lambda>i. unat (m ! (taba + i)) * unat b"
      and kf = "\<lambda>i k. ucast (drop_bit 64 ((ucast (m ! (taba + i)) :: dlimb) * ucast b + ucast k))"
      and xf = "\<lambda>i k. ucast ((ucast (m ! (taba + i)) :: dlimb) * ucast b + ucast k)"]], goal_cases)
  case (3 j k m')
  then show ?case
    by (simp add: rd_source [OF 3(3) assms(3) 3(1) assms(2)] wr_result [OF 3(3,1) assms(1)] Let_def)
next
  case (4 j k)
  then show ?case by (simp only: low_high unat_mul_add limb_less simp_thms)
qed (use assms in \<open>auto simp: mp_val_sum sum_distrib_left sum_distrib_right algebra_simps\<close>)

lemma mp_add_mul1_returns:
  assumes "tabr + n \<le> length m" and "taba + n \<le> length m" and "reads_ok tabr taba n"
  shows "returns (mp_add_mul1 m tabr taba n b) (\<lambda>(k, m'). only_changes m m' tabr n \<and>
     lval m' tabr n + unat k * limb_base ^ n = lval m tabr n + lval m taba n * unat b)"
  unfolding mp_add_mul1_def
proof (rule returns_mono [OF add_loop [where ok = "\<lambda>k. True" and B = limb_base and r = tabr
      and s = "\<lambda>i. unat (m ! (taba + i)) * unat b + unat (m ! (tabr + i))"
      and kf = "\<lambda>i k. ucast (drop_bit 64 ((ucast (m ! (taba + i)) :: dlimb) * ucast b + ucast k + ucast (m ! (tabr + i))))"
      and xf = "\<lambda>i k. ucast ((ucast (m ! (taba + i)) :: dlimb) * ucast b + ucast k + ucast (m ! (tabr + i)))"]], goal_cases)
  case (3 j k m')
  have r: "reads_ok tabr tabr n" by (simp add: reads_ok_def)
  show ?case
    by (simp add: rd_source [OF 3(3) assms(3) 3(1) assms(2)] rd_source [OF 3(3) r 3(1) assms(1)]
        wr_result [OF 3(3,1) assms(1)] Let_def)
next
  case (4 j k)
  then show ?case by (simp only: low_high unat_mul_add2 limb_less simp_thms)
qed (use assms in \<open>auto simp: mp_val_sum sum_distrib_left sum_distrib_right algebra_simps sum.distrib\<close>)

lemma mp_sub_mul1_returns:
  assumes "tabr + n \<le> length m" and "taba + n \<le> length m" and "reads_ok tabr taba n"
  shows "returns (mp_sub_mul1 m tabr taba n b) (\<lambda>(k, m'). only_changes m m' tabr n \<and>
     lval m' tabr n + lval m taba n * unat b = lval m tabr n + unat k * limb_base ^ n)"
  unfolding mp_sub_mul1_def
proof (rule returns_mono [OF sub_loop [where ok = "\<lambda>k. True" and B = limb_base and r = tabr
      and s' = "\<lambda>i. unat (m ! (taba + i)) * unat b" and s = "\<lambda>i. unat (m ! (tabr + i))"
      and kf = "\<lambda>i k. ucast (- drop_bit 64 ((ucast (m ! (tabr + i)) :: dlimb) - ucast (m ! (taba + i)) * ucast b - ucast k))"
      and xf = "\<lambda>i k. ucast ((ucast (m ! (tabr + i)) :: dlimb) - ucast (m ! (taba + i)) * ucast b - ucast k)"]], goal_cases)
  case (3 j k m')
  have r: "reads_ok tabr tabr n" by (simp add: reads_ok_def)
  show ?case
    by (simp add: rd_source [OF 3(3) assms(3) 3(1) assms(2)] rd_source [OF 3(3) r 3(1) assms(1)]
        wr_result [OF 3(3,1) assms(1)] Let_def)
next
  case (4 j k)
  then show ?case by (simp only: sub_mul_step limb_less simp_thms)
qed (use assms in \<open>auto simp: mp_val_sum sum_distrib_left sum_distrib_right algebra_simps\<close>)

text \<open>Schoolbook multiplication, for every base: the interface is a multiplication by one limb that
  stores and one that accumulates.  \<^verbatim>\<open>mp_mul_basecase\<close> and its decimal counterpart are this loop
  over their own kernels.\<close>

definition digits_ok :: "nat \<Rightarrow> limbs \<Rightarrow> nat \<Rightarrow> nat \<Rightarrow> bool" where
  "digits_ok B m p n \<longleftrightarrow> (\<forall>i < n. unat (m ! (p + i)) < B)"

lemma digits_ok_limb [simp]: "digits_ok limb_base m p n"
  by (simp add: digits_ok_def limb_less)

lemma digits_ok_frame: "digits_ok B m q k \<Longrightarrow> only_changes m m' p n \<Longrightarrow> apart_mem p n q k \<Longrightarrow> digits_ok B m' q k"
  by (auto simp: digits_ok_def only_changes_def apart_mem_def)

definition mul_basecase ::
  "(limbs \<Rightarrow> nat \<Rightarrow> nat \<Rightarrow> nat \<Rightarrow> limb \<Rightarrow> limb \<Rightarrow> (limb \<times> limbs) option)
     \<Rightarrow> (limbs \<Rightarrow> nat \<Rightarrow> nat \<Rightarrow> nat \<Rightarrow> limb \<Rightarrow> (limb \<times> limbs) option)
     \<Rightarrow> limbs \<Rightarrow> nat \<Rightarrow> nat \<Rightarrow> nat \<Rightarrow> nat \<Rightarrow> nat \<Rightarrow> limbs option" where
  "mul_basecase mul1 add_mul1 m result op1 op1_size op2 op2_size =
     do { b \<leftarrow> rd m op2;
          (r, m) \<leftarrow> mul1 m result op1 op1_size b 0;
          m \<leftarrow> wr m (result + op1_size) r;
          for_up (\<lambda>i m.
            do { b \<leftarrow> rd m (op2 + i);
                 (r, m) \<leftarrow> add_mul1 m (result + i) op1 op1_size b;
                 wr m (result + (i + op1_size)) r }) (op2_size - 1) 1 m }"

locale limb_multiplier =
  fixes B :: nat
    and mul1 :: "limbs \<Rightarrow> nat \<Rightarrow> nat \<Rightarrow> nat \<Rightarrow> limb \<Rightarrow> limb \<Rightarrow> (limb \<times> limbs) option"
    and add_mul1 :: "limbs \<Rightarrow> nat \<Rightarrow> nat \<Rightarrow> nat \<Rightarrow> limb \<Rightarrow> (limb \<times> limbs) option"
  assumes mul1_returns: "r + n \<le> length m \<Longrightarrow> a + n \<le> length m \<Longrightarrow> reads_ok r a n \<Longrightarrow> digits_ok B m a n \<Longrightarrow>
      unat b < B \<Longrightarrow> unat l < B \<Longrightarrow> returns (mul1 m r a n b l) (\<lambda>(k, m'). only_changes m m' r n \<and> unat k < B \<and> digits_ok B m' r n \<and>
        mp_val B m' r n + unat k * B ^ n = mp_val B m a n * unat b + unat l)"
    and add_mul1_returns: "r + n \<le> length m \<Longrightarrow> a + n \<le> length m \<Longrightarrow> reads_ok r a n \<Longrightarrow> digits_ok B m a n \<Longrightarrow>
      digits_ok B m r n \<Longrightarrow> unat b < B \<Longrightarrow> returns (add_mul1 m r a n b) (\<lambda>(k, m'). only_changes m m' r n \<and> unat k < B \<and>
        digits_ok B m' r n \<and> mp_val B m' r n + unat k * B ^ n = mp_val B m r n + mp_val B m a n * unat b)"
    and B_pos: "0 < B"
begin

lemma round_returns:
  assumes "result + (n1 + n2) \<le> length m" and "op1 + n1 \<le> length m" and "op2 + n2 \<le> length m"
    and "apart_mem result (n1 + n2) op1 n1" and "apart_mem result (n1 + n2) op2 n2"
    and "digits_ok B m op1 n1" and "digits_ok B m op2 n2" and i: "i < n2"
    and I: "only_changes m m1 result (n1 + i)" "digits_ok B m1 result (n1 + i)" "mp_val B m1 result (n1 + i) = mp_val B m op1 n1 * mp_val B m op2 i"
  shows "returns (do { b \<leftarrow> rd m1 (op2 + i); (r, m) \<leftarrow> add_mul1 m1 (result + i) op1 n1 b; wr m (result + (i + n1)) r })
     (\<lambda>m'. only_changes m m' result (n1 + Suc i) \<and> digits_ok B m' result (n1 + Suc i) \<and>
        mp_val B m' result (n1 + Suc i) = mp_val B m op1 n1 * mp_val B m op2 (Suc i))"
proof -
  let ?b = "m ! (op2 + i)"
  have len: "length m1 = length m" using I by (simp add: only_changes_def)
  have b: "rd m1 (op2 + i) = Some ?b" using I assms(3,5) i by (auto simp: rd_def only_changes_def apart_mem_def)
  have ap: "apart_mem result (n1 + i) op1 n1" using assms(4) i by (auto simp: apart_mem_def)
  have v1: "mp_val B m1 op1 n1 = mp_val B m op1 n1" by (rule mp_val_frame [OF I(1) ap])
  have d: "digits_ok B m1 op1 n1" "digits_ok B m1 (result + i) n1" "unat ?b < B"
    using digits_ok_frame [OF assms(6) I(1) ap] I(2) assms(7) i by (auto simp: digits_ok_def add.assoc)
  have "returns (add_mul1 m1 (result + i) op1 n1 ?b) (\<lambda>(k, m'). only_changes m1 m' (result + i) n1 \<and> unat k < B \<and> digits_ok B m' (result + i) n1 \<and>
      mp_val B m' (result + i) n1 + unat k * B ^ n1 = mp_val B m1 (result + i) n1 + mp_val B m1 op1 n1 * unat ?b)"
    using assms i len d by (intro add_mul1_returns) (auto simp: reads_ok_def apart_mem_def)
  then show ?thesis
    unfolding b Option.bind.simps
  proof (rule returns_bind, clarify)
    fix k :: limb and m2
    assume oc: "only_changes m1 m2 (result + i) n1" and kd: "unat k < B" "digits_ok B m2 (result + i) n1"
      and v: "mp_val B m2 (result + i) n1 + unat k * B ^ n1 = mp_val B m1 (result + i) n1 + mp_val B m1 op1 n1 * unat ?b"
    define m3 where "m3 = m2[result + (i + n1) := k]"
    have len2: "length m2 = length m" using oc len by (simp add: only_changes_def)
    have w: "wr m2 (result + (i + n1)) k = Some m3" using assms(1) i len2 by (simp add: mem_simps m3_def)
    have oc3: "only_changes m m3 result (n1 + Suc i)" using I oc by (auto simp: only_changes_def m3_def)
    have lo: "mp_val B m2 result i = mp_val B m1 result i"
      using mp_val_unchanged [OF oc, of result i] by simp
    have "mp_val B m3 result (i + Suc n1) = mp_val B m2 result i + B ^ i * (mp_val B m2 (result + i) n1 + unat k * B ^ n1)"
      unfolding mp_val_add m3_def using assms(1) i len2 by (simp add: add.assoc)
    also have "\<dots> = mp_val B m1 result (i + n1) + B ^ i * mp_val B m op1 n1 * unat ?b"
      by (simp only: lo v v1 mp_val_add [of _ m1 result i n1]) (simp add: algebra_simps)
    also have "\<dots> = mp_val B m op1 n1 * mp_val B m op2 (Suc i)"
      using I(3) by (simp add: add.commute algebra_simps)
    finally have v3: "mp_val B m3 result (n1 + Suc i) = mp_val B m op1 n1 * mp_val B m op2 (Suc i)" by (simp add: add.commute)
    have "unat (m3 ! (result + j)) < B" if j: "j < n1 + Suc i" for j
    proof (cases "j < i")
      case True
      then show ?thesis using I(2) oc by (auto simp: digits_ok_def only_changes_def m3_def)
    next
      case False
      show ?thesis
      proof (cases "j = i + n1")
        case True
        then show ?thesis using kd len2 assms(1) i by (simp add: m3_def)
      next
        case neq: False
        then have "m3 ! (result + j) = m2 ! (result + i + (j - i))" using False by (simp add: m3_def)
        moreover have "j - i < n1" using neq False j by simp
        ultimately show ?thesis using kd(2) unfolding digits_ok_def by presburger
      qed
    qed
    then show "returns (wr m2 (result + (i + n1)) k) (\<lambda>m'. only_changes m m' result (n1 + Suc i) \<and> digits_ok B m' result (n1 + Suc i) \<and>
        mp_val B m' result (n1 + Suc i) = mp_val B m op1 n1 * mp_val B m op2 (Suc i))"
      using w oc3 v3 by (simp add: digits_ok_def)
  qed
qed

lemma product_returns:
  assumes "result + (n1 + n2) \<le> length m" and "op1 + n1 \<le> length m" and "op2 + n2 \<le> length m" and "0 < n2"
    and "apart_mem result (n1 + n2) op1 n1" and "apart_mem result (n1 + n2) op2 n2"
    and "digits_ok B m op1 n1" and "digits_ok B m op2 n2"
  shows "returns (mul_basecase mul1 add_mul1 m result op1 n1 op2 n2) (\<lambda>m'. only_changes m m' result (n1 + n2) \<and>
     digits_ok B m' result (n1 + n2) \<and> mp_val B m' result (n1 + n2) = mp_val B m op1 n1 * mp_val B m op2 n2)"
proof -
  let ?I = "\<lambda>i m'. only_changes m m' result (n1 + i) \<and> digits_ok B m' result (n1 + i) \<and>
     mp_val B m' result (n1 + i) = mp_val B m op1 n1 * mp_val B m op2 i"
  obtain b where b: "rd m op2 = Some b" "b = m ! op2" using assms(3,4) by (simp add: mem_simps)
  have bB: "unat b < B" using assms(4,8) b(2) by (auto simp: digits_ok_def)
  have first: "returns (mul1 m result op1 n1 b 0) (\<lambda>(k, m'). only_changes m m' result n1 \<and> unat k < B \<and> digits_ok B m' result n1 \<and>
      mp_val B m' result n1 + unat k * B ^ n1 = mp_val B m op1 n1 * unat b + unat (0 :: limb))"
    using assms bB B_pos by (intro mul1_returns) (auto simp: reads_ok_def apart_mem_def)
  have start: "returns (wr m' (result + n1) k) (?I 1)"
    if oc: "only_changes m m' result n1" and k: "unat k < B" "digits_ok B m' result n1"
      and v: "mp_val B m' result n1 + unat k * B ^ n1 = mp_val B m op1 n1 * unat b" for k m'
    using only_changes_next [OF oc, of k] assms(1,4) only_changes_length [OF oc] v k
    by (auto simp: mem_simps b(2) digits_ok_def less_Suc_eq nth_list_update)
  have loop: "returns (for_up (\<lambda>i m. do { b \<leftarrow> rd m (op2 + i); (r, m) \<leftarrow> add_mul1 m (result + i) op1 n1 b;
      wr m (result + (i + n1)) r }) (n2 - 1) 1 m1) (?I n2)" if "?I 1 m1" for m1
    using for_up_inv_aux [of ?I 1 m1 "n2 - 1"] that round_returns [OF assms(1-3,5-8)] assms(4) by simp
  show ?thesis
    unfolding mul_basecase_def b(1) Option.bind.simps
    by (rule returns_bind [OF first], clarify, rule returns_bind [OF start], simp, simp, simp, simp, rule loop)
qed

end

lemma mp_mul_basecase_eq: "mp_mul_basecase = mul_basecase mp_mul1 mp_add_mul1"
  by (intro ext) (simp only: mp_mul_basecase_def mul_basecase_def)

interpretation bin_mul: limb_multiplier limb_base mp_mul1 mp_add_mul1
proof
  fix r n a :: nat and m :: limbs and b l :: limb
  assume "r + n \<le> length m" "a + n \<le> length m" "reads_ok r a n"
  from mp_mul1_returns [OF this, of b l]
  show "returns (mp_mul1 m r a n b l) (\<lambda>(k, m'). only_changes m m' r n \<and> unat k < limb_base \<and> digits_ok limb_base m' r n \<and>
        lval m' r n + unat k * limb_base ^ n = lval m a n * unat b + unat l)"
    by (rule returns_mono) (auto simp: limb_less)
next
  fix r n a :: nat and m :: limbs and b :: limb
  assume "r + n \<le> length m" "a + n \<le> length m" "reads_ok r a n"
  from mp_add_mul1_returns [OF this, of b]
  show "returns (mp_add_mul1 m r a n b) (\<lambda>(k, m'). only_changes m m' r n \<and> unat k < limb_base \<and> digits_ok limb_base m' r n \<and>
        lval m' r n + unat k * limb_base ^ n = lval m r n + lval m a n * unat b)"
    by (rule returns_mono) (auto simp: limb_less)
qed simp

lemma mp_mul_basecase_returns:
  assumes "result + (n1 + n2) \<le> length m" and "op1 + n1 \<le> length m" and "op2 + n2 \<le> length m" and "0 < n2"
    and "apart_mem result (n1 + n2) op1 n1" and "apart_mem result (n1 + n2) op2 n2"
  shows "returns (mp_mul_basecase m result op1 n1 op2 n2) (\<lambda>m'. only_changes m m' result (n1 + n2) \<and>
     lval m' result (n1 + n2) = lval m op1 n1 * lval m op2 n2)"
  using bin_mul.product_returns [OF assms] unfolding mp_mul_basecase_eq by (auto simp: returns_def)

text \<open>A loop from the highest limb down that divides by \<open>D\<close>: each round hands on a remainder of
  value \<open>rv\<close>.\<close>

definition reads_down :: "nat \<Rightarrow> nat \<Rightarrow> nat \<Rightarrow> bool" where
  "reads_down r p n \<longleftrightarrow> p \<le> r \<or> r + n \<le> p"

lemma rd_source_down:
  assumes "only_changes m m' (r + Suc j) (n - Suc j)" and "reads_down r p n" and "j < n" and "p + n \<le> length m"
  shows "rd m' (p + j) = Some (m ! (p + j))"
  using assms by (auto simp: rd_def only_changes_def reads_down_def)

lemma wr_result_down:
  assumes "only_changes m m' (r + Suc j) (n - Suc j)" and "j < n" and "r + n \<le> length m"
  shows "wr m' (r + j) x = Some (m'[r + j := x])"
  using assms by (auto simp: wr_def only_changes_def)

lemma div_loop:
  fixes s :: "nat \<Rightarrow> nat" and rv :: "'k \<Rightarrow> nat"
  assumes k0: "ok k0" and r: "r + n \<le> length m"
    and body: "\<And>j k m'. j < n \<Longrightarrow> ok k \<Longrightarrow> only_changes m m' (r + Suc j) (n - Suc j) \<Longrightarrow>
      f j (k, m') = Some (kf j k, m'[r + j := xf j k])"
    and eq: "\<And>j k. j < n \<Longrightarrow> ok k \<Longrightarrow>
      ok (kf j k) \<and> unat (xf j k) * D + rv (kf j k) = s j + rv k * B \<and> unat (xf j k) < B"
  shows "returns (for_down f n (k0, m)) (\<lambda>(k, m'). only_changes m m' r n \<and> ok k \<and>
     (\<forall>i < n. unat (m' ! (r + i)) < B) \<and>
     mp_val B m' r n * D + rv k = (\<Sum>i<n. s i * B ^ i) + rv k0 * B ^ n)"
proof -
  let ?S = "\<lambda>j. \<Sum>i<n - j. s (j + i) * B ^ i"
  let ?I = "\<lambda>j (k, m'). only_changes m m' (r + j) (n - j) \<and> ok k \<and> (\<forall>i. j \<le> i \<and> i < n \<longrightarrow> unat (m' ! (r + i)) < B) \<and>
     mp_val B m' (r + j) (n - j) * D + rv k = ?S j + rv k0 * B ^ (n - j)"
  have step: "returns (f j st) (?I j)" if j: "j < n" and I: "?I (Suc j) st" for j st
  proof -
    obtain k m' where st: "st = (k, m')" by (rule prod.exhaust)
    have I': "only_changes m m' (r + Suc j) (n - Suc j)" "ok k" "\<forall>i. Suc j \<le> i \<and> i < n \<longrightarrow> unat (m' ! (r + i)) < B"
        "mp_val B m' (r + Suc j) (n - Suc j) * D + rv k = ?S (Suc j) + rv k0 * B ^ (n - Suc j)"
      using I by (simp_all add: st)
    define k' x where kx: "k' = kf j k" "x = xf j k"
    have b: "f j (k, m') = Some (k', m'[r + j := x])" "ok k'" "unat x * D + rv k' = s j + rv k * B" "unat x < B"
      using body [OF j I'(2,1)] eq [OF j I'(2)] by (simp_all add: kx)
    have nj: "n - j = Suc (n - Suc j)" using j by simp
    have len: "r + j < length m'" using I'(1) j r by (simp add: only_changes_def)
    have tail: "mp_val B (m'[r + j := x]) (Suc (r + j)) (n - Suc j) = mp_val B m' (r + Suc j) (n - Suc j)"
      by (rule mp_val_cong) simp
    have S: "?S j = s j + B * ?S (Suc j)"
      unfolding nj sum.lessThan_Suc_shift by (simp add: sum_distrib_left mult.left_commute)
    have "mp_val B (m'[r + j := x]) (r + j) (n - j) * D + rv k'
        = (unat x * D + rv k') + B * (mp_val B m' (r + Suc j) (n - Suc j) * D)"
      unfolding nj mp_val_front tail using len by (simp add: algebra_simps)
    also have "\<dots> = s j + B * (mp_val B m' (r + Suc j) (n - Suc j) * D + rv k)"
      by (simp only: b(3)) (simp add: algebra_simps)
    also have "\<dots> = ?S j + rv k0 * (B * B ^ (n - Suc j))"
      by (simp only: I'(4) S) (simp add: algebra_simps)
    finally have "mp_val B (m'[r + j := x]) (r + j) (n - j) * D + rv k' = ?S j + rv k0 * B ^ (n - j)"
      by (simp only: nj power_Suc)
    moreover have "\<forall>i. j \<le> i \<and> i < n \<longrightarrow> unat (m'[r + j := x] ! (r + i)) < B"
      using I'(3) b(4) len by (auto simp: nth_list_update Suc_le_eq)
    moreover have "only_changes m (m'[r + j := x]) (r + j) (n - j)"
      using I'(1) j by (auto simp: only_changes_def nth_list_update)
    ultimately show ?thesis
      using b(1,2) by (simp only: st returns_Some prod.case)
  qed
  show ?thesis
    using for_down_inv [where I = ?I and f = f, OF _ step] k0 by simp
qed

lemma shr_step:
  fixes a l :: limb
  assumes "1 \<le> s" and "s < 64"
  shows "unat (drop_bit s a OR push_bit (64 - s) l) * 2 ^ s + unat a mod 2 ^ s
       = unat a + (unat l mod 2 ^ s) * limb_base"
proof -
  have "(2 :: nat) ^ 64 = 2 ^ (64 - s) * 2 ^ s"
    using assms by (simp only: power_add [symmetric]) simp
  then have split: "limb_base = 2 ^ (64 - s) * 2 ^ s" by simp
  have dis: "unat a div 2 ^ s < 2 ^ (64 - s)"
    using limb_less [of a] unfolding split by (rule less_mult_imp_div_less)
  have p: "unat (push_bit (64 - s) l) = (unat l mod 2 ^ s) * 2 ^ (64 - s)"
    using assms unfolding unsigned_push_bit_eq take_bit_push_bit
    by (simp add: push_bit_eq_mult take_bit_eq_mod)
  have "unat (drop_bit s a OR push_bit (64 - s) l) = unat a div 2 ^ s OR unat (push_bit (64 - s) l)"
    unfolding unsigned_or_eq unat_drop_bit_eq by (simp only: drop_bit_eq_div)
  also have "\<dots> = unat a div 2 ^ s + (unat l mod 2 ^ s) * 2 ^ (64 - s)"
    unfolding p by (rule or_add_disjoint_nat [OF dis]) simp
  finally show ?thesis
    unfolding split by (simp add: distrib_right mult.assoc) (metis div_mult_mod_eq)
qed

lemma mp_shr_returns:
  assumes "1 \<le> s" and "s < 64" and "tab_r + n \<le> length m" and "tab + n \<le> length m" and "reads_down tab_r tab n"
  shows "returns (mp_shr m tab_r tab n s high) (\<lambda>(r, m'). only_changes m m' tab_r n \<and> unat r < 2 ^ s \<and>
     lval m' tab_r n * 2 ^ s + unat r = lval m tab n + (unat high mod 2 ^ s) * limb_base ^ n)"
proof -
  have mask: "unat ((l :: limb) AND (push_bit s 1 - 1)) = unat l mod 2 ^ s" for l
  proof -
    have "l AND (push_bit s 1 - 1) = take_bit s l"
      by (simp add: take_bit_eq_mask mask_eq_exp_minus_1)
    then show ?thesis by (simp only: unsigned_take_bit_eq) (simp only: take_bit_eq_mod)
  qed
  have "returns (for_down (\<lambda>i (l, m). do { a \<leftarrow> rd m (tab + i);
        m \<leftarrow> wr m (tab_r + i) (drop_bit s a OR push_bit (64 - s) l); Some (a, m) }) n (high, m))
      (\<lambda>(l, m'). only_changes m m' tab_r n \<and> True \<and> (\<forall>i < n. unat (m' ! (tab_r + i)) < limb_base) \<and>
        lval m' tab_r n * 2 ^ s + unat l mod 2 ^ s = (\<Sum>i<n. unat (m ! (tab + i)) * limb_base ^ i) + (unat high mod 2 ^ s) * limb_base ^ n)"
  proof (rule div_loop [where kf = "\<lambda>i l. m ! (tab + i)" and xf = "\<lambda>i l. drop_bit s (m ! (tab + i)) OR push_bit (64 - s) l"])
    fix j k m'
    assume "j < n" "only_changes m m' (tab_r + Suc j) (n - Suc j)"
    then show "(case (k, m') of (l, m) \<Rightarrow> do { a \<leftarrow> rd m (tab + j);
        m \<leftarrow> wr m (tab_r + j) (drop_bit s a OR push_bit (64 - s) l); Some (a, m) })
      = Some (m ! (tab + j), m'[tab_r + j := drop_bit s (m ! (tab + j)) OR push_bit (64 - s) k])"
      using assms by (simp add: rd_source_down wr_result_down)
  next
    fix j k
    show "True \<and> unat (drop_bit s (m ! (tab + j)) OR push_bit (64 - s) k) * 2 ^ s + unat (m ! (tab + j)) mod 2 ^ s
        = unat (m ! (tab + j)) + unat k mod 2 ^ s * limb_base \<and>
        unat (drop_bit s (m ! (tab + j)) OR push_bit (64 - s) k) < limb_base"
      using shr_step [OF assms(1,2)] limb_less by blast
  qed (use assms in simp_all)
  then show ?thesis
    unfolding mp_shr_def using assms(1,2)
    by (auto simp: returns_def mp_val_sum mask [simplified])
qed

lemma mp_cmp_returns:
  assumes "taba + n \<le> length m" and "tabb + n \<le> length m"
  shows "mp_cmp m taba tabb n = Some (if lval m taba n = lval m tabb n then 0
     else if lval m taba n < lval m tabb n then - 1 else 1)"
  using assms
proof (induction n)
  case (Suc n)
  let ?a = "m ! (taba + n)" and ?b = "m ! (tabb + n)"
  have less: "lval m p (Suc n) < lval m q (Suc n)" if "unat (m ! (p + n)) < unat (m ! (q + n))" for p q
  proof -
    have "lval m p (Suc n) < limb_base ^ n + unat (m ! (p + n)) * limb_base ^ n"
      using mp_val_limb_bound [of m p n] by simp
    also have "\<dots> = Suc (unat (m ! (p + n))) * limb_base ^ n" by simp
    also have "\<dots> \<le> unat (m ! (q + n)) * limb_base ^ n" using that by (intro mult_le_mono1) simp
    finally show ?thesis by simp
  qed
  consider "?a = ?b" | "?a < ?b" | "?b < ?a" by (rule linorder_cases)
  then show ?case
  proof cases
    case 1
    then show ?thesis using Suc by (simp add: mem_simps)
  next
    case 2
    then show ?thesis using less [of taba tabb] Suc.prems
      by (auto simp: mem_simps word_less_nat_alt simp del: mp_val.simps)
  next
    case 3
    then show ?thesis using less [of tabb taba] Suc.prems
      by (auto simp: mem_simps word_less_nat_alt simp del: mp_val.simps)
  qed
qed simp

end
