(* ===== verification/MpDiv.thy ===== *)
theory MpDiv
  imports MpArith
begin

text \<open>
  Division in \<^verbatim>\<open>libbf.c\<close>: a double limb by a normalised limb with a precomputed inverse
  (\<^verbatim>\<open>udiv1norm\<close>), a number by a limb (\<^verbatim>\<open>mp_div1norm\<close>) and schoolbook division of numbers
  (\<^verbatim>\<open>mp_divnorm\<close>).  Above 50 limbs \<^verbatim>\<open>mp_divnorm\<close> hands over to \<^verbatim>\<open>mp_divnorm_large\<close>, which
  is the argument \<open>large\<close>.
\<close>

section \<open>Operations\<close>

definition udiv1norm_init :: "limb \<Rightarrow> limb" where
  "udiv1norm_init d =
     (let a1 = - d - 1; a0 = - 1
      in ucast ((push_bit 64 (ucast a1 :: dlimb) OR ucast (a0 :: limb)) div ucast d))"

definition udiv1norm :: "limb \<Rightarrow> limb \<Rightarrow> limb \<Rightarrow> limb \<Rightarrow> limb \<times> limb" where
  "udiv1norm a1 a0 d d_inv =
     (let n1m = signed_drop_bit 63 a0;
          n_adj = a0 + (n1m AND d);
          a = (ucast d_inv :: dlimb) * ucast (a1 - n1m) + ucast n_adj;
          q = ucast (drop_bit 64 a) + a1;
          a = push_bit 64 (ucast a1 :: dlimb) OR ucast a0;
          a = a - ucast q * ucast d - ucast d;
          ah = ucast (drop_bit 64 a);
          q = q + (1 + ah);
          r = ucast a + (ah AND d)
      in (q, r))"

definition mp_div1norm :: "limbs \<Rightarrow> nat \<Rightarrow> nat \<Rightarrow> nat \<Rightarrow> limb \<Rightarrow> limb \<Rightarrow> (limb \<times> limbs) option" where
  "mp_div1norm m tabr taba n b r =
     (if n \<ge> 3 then
        let b_inv = udiv1norm_init b
        in for_down (\<lambda>i (r, m).
             do { a \<leftarrow> rd m (taba + i);
                  let (q, r) = udiv1norm r a b b_inv;
                  m \<leftarrow> wr m (tabr + i) q;
                  Some (r, m) }) n (r, m)
      else
        for_down (\<lambda>i (r, m).
          do { a \<leftarrow> rd m (taba + i);
               let a1 = push_bit 64 (ucast r :: dlimb) OR ucast a;
               m \<leftarrow> wr m (tabr + i) (ucast (a1 div ucast b));
               let r = ucast (a1 mod ucast b);
               Some (r, m) }) n (r, m))"

fun mp_divnorm_top :: "limbs \<Rightarrow> nat \<Rightarrow> nat \<Rightarrow> nat \<Rightarrow> limb option" where
  "mp_divnorm_top m a b 0 = Some 1"
| "mp_divnorm_top m a b (Suc j) =
     do { x \<leftarrow> rd m (a + j);
          y \<leftarrow> rd m (b + j);
          if x \<noteq> y then Some (if x < y then 0 else 1) else mp_divnorm_top m a b j }"

partial_function (option) mp_divnorm_fix :: "limbs \<Rightarrow> nat \<Rightarrow> nat \<Rightarrow> nat \<Rightarrow> limb \<Rightarrow> (limb \<times> limbs) option" where
  "mp_divnorm_fix m a tabb nb q =
     do { let q = q - 1;
          (c, m) \<leftarrow> mp_add m a a tabb nb 0;
          if c \<noteq> 0 then
            do { v \<leftarrow> rd m (a + nb);
                 m \<leftarrow> wr m (a + nb) (v + 1);
                 if v + 1 = 0 then Some (q, m) else mp_divnorm_fix m a tabb nb q }
          else mp_divnorm_fix m a tabb nb q }"

definition mp_divnorm_step :: "nat \<Rightarrow> nat \<Rightarrow> nat \<Rightarrow> nat \<Rightarrow> limb \<Rightarrow> limb \<Rightarrow> nat \<Rightarrow> limbs \<Rightarrow> limbs option" where
  "mp_divnorm_step tabq taba tabb nb b1 b1_inv i m =
     do { ah \<leftarrow> rd m (taba + (i + nb));
          al \<leftarrow> rd m (taba + (i + nb - 1));
          let q = (if ah \<ge> b1 then - 1
                   else if b1_inv \<noteq> 0 then fst (udiv1norm ah al b1 b1_inv)
                   else ucast ((push_bit 64 (ucast ah :: dlimb) OR ucast al) div ucast b1));
          (r, m) \<leftarrow> mp_sub_mul1 m (taba + i) tabb nb q;
          v \<leftarrow> rd m (taba + (i + nb));
          let a = v - r;
          let c = bool_limb (a > v);
          m \<leftarrow> wr m (taba + (i + nb)) a;
          (q, m) \<leftarrow> (if c \<noteq> 0 then mp_divnorm_fix m (taba + i) tabb nb q else Some (q, m));
          wr m (tabq + i) q }"

definition mp_divnorm ::
  "(limbs \<Rightarrow> nat \<Rightarrow> nat \<Rightarrow> nat \<Rightarrow> nat \<Rightarrow> nat \<Rightarrow> (int \<times> limbs) option)
     \<Rightarrow> limbs \<Rightarrow> nat \<Rightarrow> nat \<Rightarrow> nat \<Rightarrow> nat \<Rightarrow> nat \<Rightarrow> (int \<times> limbs) option" where
  "mp_divnorm large m tabq taba na tabb nb =
     do { b1 \<leftarrow> rd m (tabb + (nb - 1));
          if nb = 1 then
            do { (r, m) \<leftarrow> mp_div1norm m tabq taba na b1 0;
                 m \<leftarrow> wr m taba r;
                 Some (0, m) }
          else do {
            let n = na - nb;
            if min n nb \<ge> 50 then large m tabq taba na tabb nb
            else do {
              let b1_inv = (if n \<ge> 3 then udiv1norm_init b1 else 0);
              q \<leftarrow> mp_divnorm_top m (taba + n) tabb nb;
              m \<leftarrow> wr m (tabq + n) q;
              m \<leftarrow> (if q \<noteq> 0 then do { (_, m) \<leftarrow> mp_sub m (taba + n) (taba + n) tabb nb 0; Some m }
                    else Some m);
              m \<leftarrow> for_down (mp_divnorm_step tabq taba tabb nb b1 b1_inv) n m;
              Some (0, m) } } }"

section \<open>Division of two limbs by one\<close>

lemma unat_dlimb_pair:
  "unat (push_bit 64 (ucast (a1 :: limb) :: dlimb) OR ucast (a0 :: limb)) = unat a1 * limb_base + unat a0"
proof -
  have p: "unat (push_bit 64 (ucast a1 :: dlimb)) = unat a1 * limb_base"
    unfolding unsigned_push_bit_eq take_bit_push_bit
    using limb_less [of a1] by (simp add: push_bit_eq_mult take_bit_eq_mod)
  show ?thesis
    unfolding unsigned_or_eq p unat_dlimb
    using or_add_disjoint_nat [of "unat a0" 64 "unat a1 * limb_base"] limb_less [of a0]
    by (simp add: or.commute add.commute)
qed

lemma udiv1norm_init_value:
  assumes "2 ^ 63 \<le> unat d"
  shows "unat (udiv1norm_init d) + limb_base = (limb_base * limb_base - 1) div unat d"
proof -
  have d: "0 < unat d" "unat d < limb_base" using assms limb_less [of d] by simp_all
  then have d0: "d \<noteq> 0" by auto
  have m1: "unat (- 1 :: limb) = limb_base - 1" by (simp add: unsigned_minus_1_eq_mask mask_eq_exp_minus_1)
  have "unat (- d) = limb_base - unat d" using unat_uminus [OF d0] by simp
  moreover have "unat (- d - 1) = unat (- d) - 1"
    using d calculation by (subst unat_sub) (simp_all add: word_le_nat_alt)
  ultimately have a1: "unat (- d - 1) = limb_base - unat d - 1" by simp
  have num: "unat (push_bit 64 (ucast (- d - 1) :: dlimb) OR ucast (- 1 :: limb)) = limb_base * limb_base - 1 - unat d * limb_base"
    unfolding unat_dlimb_pair a1 m1 using d by (simp add: algebra_simps)
  define X Y where XY: "X = limb_base * limb_base - 1" "Y = (X - unat d * limb_base) div unat d"
  have "unat d * limb_base \<le> X" "X < 2 * limb_base * unat d" using d assms by (simp_all add: XY)
  moreover have "X div unat d = Y + limb_base"
    using calculation(1) d(1) div_mult_self1 [of "unat d" "X - unat d * limb_base" limb_base]
    by (simp add: XY mult.commute)
  moreover have "X div unat d < 2 * limb_base"
    using calculation(2) by (simp add: less_mult_imp_div_less)
  ultimately have Y: "X div unat d = Y + limb_base" "Y < limb_base" by simp_all
  have "unat (udiv1norm_init d) = Y mod limb_base"
    unfolding udiv1norm_init_def Let_def unat_low unat_div_distrib num unat_dlimb by (simp only: XY)
  then show ?thesis using Y by (simp add: XY)
qed

text \<open>The estimate of the quotient is exact or one too small (Granlund and Montgomery): \<open>n1\<close> is the
  top bit of the low limb.\<close>

lemma udiv_estimate:
  fixes B d v a1 a0 n1 nadj :: int
  assumes v: "(B + v) * d + k = B * B" "1 \<le> k" "k \<le> d" and d: "B \<le> 2 * d" "d < B"
    and a: "0 \<le> a1" "a1 < d" "0 \<le> a0" "a0 < B" and n1: "n1 = (if B \<le> 2 * a0 then 1 else 0)"
    and nadj: "nadj = a0 + n1 * (d - B)"
    and q: "q = a1 + (v * (a1 + n1) + nadj) div B"
  shows "0 \<le> a1 * B + a0 - q * d" and "a1 * B + a0 - q * d < 2 * d" and "0 \<le> nadj" and "nadj < d"
proof -
  have B: "0 < B" using a by linarith
  show nb: "0 \<le> nadj" "nadj < d" using nadj n1 a d by (auto split: if_splits)
  define x \<rho> where x: "x = v * (a1 + n1) + nadj" "\<rho> = x mod B"
  have r: "0 \<le> \<rho>" "\<rho> < B" using B by (simp_all add: x)
  have "x = x div B * B + \<rho>" using x by simp
  then have "q * B = a1 * B + x - \<rho>" by (simp add: q x(1) algebra_simps)
  then have "q * B * d = (a1 * B + x - \<rho>) * d" by simp
  then have "q * B * d = a1 * B * d + v * d * (a1 + n1) + nadj * d - \<rho> * d"
    by (simp add: x(1) algebra_simps)
  moreover have "v * d = B * B - k - B * d" using v(1) by (simp add: algebra_simps)
  ultimately have "q * B * d = a1 * B * d + (B * B - k - B * d) * (a1 + n1) + nadj * d - \<rho> * d" by simp
  then have main: "B * (a1 * B + a0 - q * d) = nadj * (B - d) + k * (a1 + n1) + \<rho> * d"
    by (simp add: nadj algebra_simps)
  have n1': "0 \<le> a1 + n1" "a1 + n1 \<le> d" using a n1 by auto
  have "0 \<le> B * (a1 * B + a0 - q * d)"
    unfolding main using nb d r v mult_nonneg_nonneg [OF _ n1'(1), of k] by simp
  then show "0 \<le> a1 * B + a0 - q * d" using B by (simp add: zero_le_mult_iff)
  have 1: "nadj * (B - d) \<le> (d - 1) * (B - d)" using nb d by (intro mult_right_mono) auto
  have 2: "k * (a1 + n1) \<le> d * d" using v n1' by (intro mult_mono) auto
  have 3: "\<rho> * d \<le> (B - 1) * d" using r d a by (intro mult_right_mono) auto
  have "B * (a1 * B + a0 - q * d) \<le> (d - 1) * (B - d) + d * d + (B - 1) * d"
    unfolding main using 1 2 3 by linarith
  also have "\<dots> = B * (2 * d) - B" by (simp add: algebra_simps)
  also have "\<dots> < B * (2 * d)" using B by simp
  finally show "a1 * B + a0 - q * d < 2 * d" using B by simp
qed

lemma bit_63: "bit (a :: limb) 63 \<longleftrightarrow> 2 ^ 63 \<le> unat a"
proof -
  have "bit a 63 \<longleftrightarrow> bit (unat a) 63" by (simp add: bit_unsigned_iff)
  also have "\<dots> \<longleftrightarrow> odd (unat a div 2 ^ 63)" by (rule bit_iff_odd)
  also have "unat a div 2 ^ 63 = (if 2 ^ 63 \<le> unat a then 1 else 0)"
    using limb_less [of a] by (auto intro: div_nat_eqI)
  finally show ?thesis by simp
qed

lemma limb_negative: "(a :: limb) <s 0 \<longleftrightarrow> 2 ^ 63 \<le> unat a"
proof -
  have "a <s 0 \<longleftrightarrow> bit a 63"
    by (simp add: word_sless_alt sint_uint bit_unsigned_iff)
  then show ?thesis by (simp only: bit_63)
qed

lemma signed_drop_bit_63:
  "signed_drop_bit 63 (a :: limb) = (if 2 ^ 63 \<le> unat a then - 1 else 0)"
proof (rule bit_word_eqI)
  fix n
  assume "n < LENGTH(64)"
  then show "bit (signed_drop_bit 63 a) n = bit (if 2 ^ 63 \<le> unat a then - 1 else 0 :: limb) n"
    using bit_63 [of a] by (cases "n = 0") (auto simp: bit_signed_drop_bit_iff)
qed

lemma udiv1norm_estimate:
  fixes a1 a0 d :: limb
  assumes "2 ^ 63 \<le> unat d" and "unat a1 < unat d"
  defines "n1 \<equiv> of_bool (2 ^ 63 \<le> unat a0) :: nat"
  defines "nadj \<equiv> unat a0 + n1 * unat d - n1 * limb_base"
  defines "q \<equiv> unat a1 + (unat (udiv1norm_init d) * (unat a1 + n1) + nadj) div limb_base"
  shows "q * unat d \<le> unat a1 * limb_base + unat a0" and "unat a1 * limb_base + unat a0 < q * unat d + 2 * unat d"
    and "nadj < limb_base"
proof -
  define B :: int where "B = 2 ^ 64"
  define D v where ints: "D = int (unat d)" "v = int (unat (udiv1norm_init d))"
  define k where "k = B * B - (B + v) * D"
  have D: "B \<le> 2 * D" "D < B" "0 \<le> int (unat a1)" "int (unat a1) < D" "0 \<le> int (unat a0)" "int (unat a0) < B"
    using assms(1,2) limb_less [of d] limb_less [of a0] by (simp_all add: ints B_def)
  have "int (unat (udiv1norm_init d) + limb_base) = (B * B - 1) div D"
    unfolding udiv1norm_init_value [OF assms(1)] by (simp add: zdiv_int B_def ints(1) of_nat_diff)
  then have bv: "B + v = (B * B - 1) div D" by (simp add: ints B_def)
  have "(B + v) * D + (B * B - 1) mod D = B * B - 1" unfolding bv by (rule div_mult_mod_eq)
  then have k: "(B + v) * D + k = B * B" "1 \<le> k" "k \<le> D"
    using D pos_mod_bound [of D "B * B - 1"] pos_mod_sign [of D "B * B - 1"]
    unfolding k_def by linarith+
  have n1: "int n1 = (if B \<le> 2 * int (unat a0) then 1 else 0)" by (simp add: n1_def B_def)
  have na: "int nadj = int (unat a0) + int n1 * (D - B)"
    using assms(1) limb_less [of d] by (auto simp: nadj_def n1_def ints B_def)
  have "int q = int (unat a1) + (v * (int (unat a1) + int n1) + int nadj) div B"
    by (simp add: q_def zdiv_int ints B_def)
  note est = udiv_estimate [OF k D n1 na this]
  have "int (q * unat d) \<le> int (unat a1 * limb_base + unat a0)" using est(1) by (simp add: ints B_def)
  then show "q * unat d \<le> unat a1 * limb_base + unat a0" by (simp only: of_nat_le_iff)
  have "int (unat a1 * limb_base + unat a0) < int (q * unat d + 2 * unat d)" using est(2) by (simp add: ints B_def)
  then show "unat a1 * limb_base + unat a0 < q * unat d + 2 * unat d" by (simp only: of_nat_less_iff)
  show "nadj < limb_base" using est(4) D(2) by (simp add: B_def)
qed

lemma udiv1norm_correct:
  assumes "2 ^ 63 \<le> unat d" and "unat a1 < unat d" and "udiv1norm a1 a0 d (udiv1norm_init d) = (q, r)"
  shows "unat q * unat d + unat r = unat a1 * limb_base + unat a0 \<and> unat r < unat d"
proof -
  let ?N = "unat a1 * limb_base + unat a0"
  define n1 :: nat where "n1 = of_bool (2 ^ 63 \<le> unat a0)"
  define nadj where "nadj = unat a0 + n1 * unat d - n1 * limb_base"
  define x where "x = unat (udiv1norm_init d) * (unat a1 + n1) + nadj"
  note est = udiv1norm_estimate [OF assms(1,2), of a0, folded n1_def, folded nadj_def, folded x_def]
  define n1m where "n1m = signed_drop_bit 63 a0"
  define qe where "qe = ucast (drop_bit 64 ((ucast (udiv1norm_init d) :: dlimb) * ucast (a1 - n1m) + ucast (a0 + (n1m AND d)))) + a1"
  define a where "a = (push_bit 64 (ucast a1 :: dlimb) OR ucast a0) - ucast qe * ucast d - ucast d"
  have n1m: "n1m = (if 2 ^ 63 \<le> unat a0 then - 1 else 0)" unfolding n1m_def by (rule signed_drop_bit_63)
  have "unat (a0 + (n1m AND d)) = nadj"
  proof (cases "2 ^ 63 \<le> unat a0")
    case True
    have w: "n1m AND d = d" "n1 = 1" using True by (simp_all add: n1m n1_def)
    have "limb_base \<le> unat a0 + unat d" using True assms(1) by simp
    from unat_add_wrap [OF this] show ?thesis by (simp only: w nadj_def mult_1)
  qed (simp add: n1m nadj_def n1_def)
  moreover have "unat (a1 - n1m) = unat a1 + n1"
  proof (cases "2 ^ 63 \<le> unat a0")
    case True
    have "unat (a1 + 1) = unat a1 + 1"
      using unat_add_small [of a1 1] assms(2) limb_less [of d] by simp
    with True show ?thesis by (simp add: n1m n1_def)
  qed (simp add: n1m n1_def)
  ultimately have h: "unat (ucast (drop_bit 64 ((ucast (udiv1norm_init d) :: dlimb) * ucast (a1 - n1m) + ucast (a0 + (n1m AND d)))) :: limb) = x div limb_base"
    unfolding unat_high unat_mul_add by (simp add: x_def)
  have small: "?N < unat d * limb_base"
    using assms(2) limb_less [of a0] mult_le_mono1 [of "Suc (unat a1)" "unat d" limb_base] by simp
  have qb: "unat a1 + x div limb_base < limb_base"
  proof -
    have "(unat a1 + x div limb_base) * unat d < limb_base * unat d"
      using est(1) small by (simp only: mult.commute [of limb_base])
    then show ?thesis by (simp only: mult_less_cancel2)
  qed
  have qe: "unat qe = unat a1 + x div limb_base"
    unfolding qe_def using unat_add_small [of _ a1, unfolded add.commute [of _ "unat a1"]] h qb by simp
  have res: "q = qe + (1 + ucast (drop_bit 64 a))" "r = ucast a + (ucast (drop_bit 64 a) AND d)"
    using assms(3) by (simp_all add: udiv1norm_def Let_def n1m_def qe_def a_def)
  define s where "s = (ucast qe :: dlimb) * ucast d + ucast d"
  have s: "unat s = unat qe * unat d + unat d" unfolding s_def by (rule unat_mul_add)
  have as: "a = (push_bit 64 (ucast a1) OR ucast a0) - s" by (simp add: a_def s_def)
  have aN: "unat ((push_bit 64 (ucast a1) :: dlimb) OR ucast a0) = ?N" by (rule unat_dlimb_pair)
  note e = est(1,2) [folded qe]
  show ?thesis
  proof (cases "unat s \<le> ?N")
    case True
    have ua: "unat a = ?N - unat s" using True unfolding as aN [symmetric] by (intro unat_sub) (simp add: word_le_nat_alt)
    then have al: "unat a < unat d" using e True s by simp
    then have dz: "drop_bit 64 a = 0"
      using unat_drop64 [of a] limb_less [of d] by (simp add: unsigned_eq_0_iff)
    have "(unat qe + 1) * unat d = unat s" by (simp add: s)
    then have "(unat qe + 1) * unat d < limb_base * unat d"
      using True small by (simp only: mult.commute [of limb_base])
    then have "unat qe + 1 < limb_base" by (simp only: mult_less_cancel2)
    then have "unat q = unat qe + 1" using unat_add_small [of qe 1] by (simp add: res dz)
    moreover have "unat r = unat a" using al limb_less [of d] by (simp add: res dz unat_low)
    ultimately show ?thesis using ua al True s by (simp add: algebra_simps)
  next
    case False
    define y where "y = unat s - ?N"
    have y: "0 < y" "y \<le> unat d" using False e s by (simp_all add: y_def)
    have d: "unat (s - (push_bit 64 (ucast a1) OR ucast a0)) = y"
      unfolding y_def aN [symmetric] using False by (intro unat_sub) (simp add: word_le_nat_alt aN)
    then have "s - (push_bit 64 (ucast a1) OR ucast a0) \<noteq> 0" using y(1) by (metis less_irrefl unat_0)
    from unat_uminus [OF this] have ua: "unat a = 2 ^ 128 - y" by (simp add: as d)
    have y64: "y < limb_base" using y limb_less [of d] by simp
    then have split: "2 ^ 128 - y = (limb_base - 1) * limb_base + (limb_base - y)" by simp
    have "unat (ucast (drop_bit 64 a) :: limb) = limb_base - 1"
      unfolding unat_high ua split using y(1) y64 by (subst div_mult_self3) simp_all
    then have ah: "ucast (drop_bit 64 a) = (- 1 :: limb)"
      by (intro word_unat_eq_iff [THEN iffD2]) (simp add: unsigned_minus_1_eq_mask mask_eq_exp_minus_1)
    have low: "unat (ucast a :: limb) = limb_base - y"
      unfolding unat_low ua split mod_mult_self3 using y(1) by (intro mod_less) simp
    have "unat (ucast a + d) = unat d - y"
      using unat_add_wrap [of "ucast a" d] low y y64 by simp
    then have "unat r = unat d - y" by (simp add: res ah)
    moreover have "q = qe" by (simp add: res ah)
    moreover have "?N + y = unat qe * unat d + unat d" using False s by (simp add: y_def)
    ultimately show ?thesis using y by simp
  qed
qed

lemma dlimb_div_correct:
  fixes a1 a0 b :: limb
  assumes "unat a1 < unat b"
  defines "a \<equiv> push_bit 64 (ucast a1 :: dlimb) OR ucast a0"
  shows "unat (ucast (a div ucast b) :: limb) = (unat a1 * limb_base + unat a0) div unat b"
    and "unat (ucast (a mod ucast b) :: limb) = (unat a1 * limb_base + unat a0) mod unat b"
proof -
  have a: "unat a = unat a1 * limb_base + unat a0" unfolding a_def by (rule unat_dlimb_pair)
  have "unat a1 * limb_base + unat a0 < limb_base * unat b"
    using assms(1) limb_less [of a0] mult_le_mono1 [of "Suc (unat a1)" "unat b" limb_base] by simp
  then have "(unat a1 * limb_base + unat a0) div unat b < limb_base"
    by (rule less_mult_imp_div_less)
  then show "unat (ucast (a div ucast b) :: limb) = (unat a1 * limb_base + unat a0) div unat b"
    unfolding unat_low unat_div_distrib a unat_dlimb by (rule mod_less)
  have "(unat a1 * limb_base + unat a0) mod unat b < limb_base"
    using assms(1) limb_less [of b] by (intro less_trans [OF mod_less_divisor]) simp_all
  then show "unat (ucast (a mod ucast b) :: limb) = (unat a1 * limb_base + unat a0) mod unat b"
    unfolding unat_low unat_mod_distrib a unat_dlimb by (rule mod_less)
qed

lemma mp_div1norm_returns:
  assumes "2 ^ 63 \<le> unat b" and "unat r < unat b" and "tabr + n \<le> length m" and "taba + n \<le> length m"
    and "reads_down tabr taba n"
  shows "returns (mp_div1norm m tabr taba n b r) (\<lambda>(r', m'). only_changes m m' tabr n \<and> unat r' < unat b \<and>
     lval m' tabr n * unat b + unat r' = lval m taba n + unat r * limb_base ^ n)"
proof (cases "n \<ge> 3")
  case True
  have "returns (for_down (\<lambda>i (r, m). do { a \<leftarrow> rd m (taba + i); let (q, r) = udiv1norm r a b (udiv1norm_init b);
         m \<leftarrow> wr m (tabr + i) q; Some (r, m) }) n (r, m))
      (\<lambda>(r', m'). only_changes m m' tabr n \<and> unat r' < unat b \<and> (\<forall>i < n. unat (m' ! (tabr + i)) < limb_base) \<and>
        lval m' tabr n * unat b + unat r' = (\<Sum>i<n. unat (m ! (taba + i)) * limb_base ^ i) + unat r * limb_base ^ n)"
  proof (rule div_loop [where ok = "\<lambda>r. unat r < unat b"
        and kf = "\<lambda>i r. snd (udiv1norm r (m ! (taba + i)) b (udiv1norm_init b))"
        and xf = "\<lambda>i r. fst (udiv1norm r (m ! (taba + i)) b (udiv1norm_init b))"], goal_cases)
    case (3 j k m')
    then show ?case using assms by (simp add: rd_source_down wr_result_down case_prod_beta)
  next
    case (4 j k)
    then show ?case
      using udiv1norm_correct [OF assms(1) 4(2) prod.collapse [symmetric], of "m ! (taba + j)"] limb_less
      by (metis add.commute)
  qed (use assms in simp_all)
  with True show ?thesis by (auto simp: mp_div1norm_def mp_val_sum returns_def)
next
  case False
  have "returns (for_down (\<lambda>i (r, m). do { a \<leftarrow> rd m (taba + i); let a1 = push_bit 64 (ucast r :: dlimb) OR ucast a;
         m \<leftarrow> wr m (tabr + i) (ucast (a1 div ucast b)); let r = ucast (a1 mod ucast b); Some (r, m) }) n (r, m))
      (\<lambda>(r', m'). only_changes m m' tabr n \<and> unat r' < unat b \<and> (\<forall>i < n. unat (m' ! (tabr + i)) < limb_base) \<and>
        lval m' tabr n * unat b + unat r' = (\<Sum>i<n. unat (m ! (taba + i)) * limb_base ^ i) + unat r * limb_base ^ n)"
  proof (rule div_loop [where ok = "\<lambda>r. unat r < unat b"
        and kf = "\<lambda>i r. ucast ((push_bit 64 (ucast r :: dlimb) OR ucast (m ! (taba + i))) mod ucast b)"
        and xf = "\<lambda>i r. ucast ((push_bit 64 (ucast r :: dlimb) OR ucast (m ! (taba + i))) div ucast b)"], goal_cases)
    case (3 j k m')
    then show ?case using assms by (simp add: rd_source_down wr_result_down Let_def)
  next
    case (4 j k)
    have "(unat k * limb_base + unat (m ! (taba + j))) mod unat b < unat b" using 4 by simp
    then show ?case
      unfolding dlimb_div_correct [OF 4(2)] using limb_less dlimb_div_correct(1) [OF 4(2)]
      by (metis add.commute div_mult_mod_eq)
  qed (use assms in simp_all)
  with False show ?thesis by (auto simp: mp_div1norm_def mp_val_sum returns_def)
qed

section \<open>Schoolbook division\<close>

lemma mp_divnorm_top_cmp: "mp_divnorm_top m a b n = map_option (\<lambda>c. if c < 0 then 0 else 1) (mp_cmp m a b n)"
  by (induction n) (auto simp: Let_def split: Option.bind_splits)

lemma mp_divnorm_top_returns:
  assumes "a + n \<le> length m" and "b + n \<le> length m"
  shows "mp_divnorm_top m a b n = Some (bool_limb (lval m b n \<le> lval m a n))"
  by (auto simp: mp_divnorm_top_cmp mp_cmp_returns [OF assms] bool_limb_def)

text \<open>The correction loop adds the divisor back until the number, stored as its complement, is no
  longer negative.\<close>

lemma mp_divnorm_fix_round:
  assumes "a + Suc nb \<le> length m" and "tabb + nb \<le> length m" and "apart_mem a (Suc nb) tabb nb"
  defines "V \<equiv> lval m a (Suc nb) + lval m tabb nb"
  shows "\<exists>m1. only_changes m m1 a (Suc nb) \<and>
     (if V < limb_base ^ Suc nb
      then lval m1 a (Suc nb) = V \<and> mp_divnorm_fix m a tabb nb q = mp_divnorm_fix m1 a tabb nb (q - 1)
      else m1 ! (a + nb) = 0 \<and> lval m1 a nb + limb_base ^ Suc nb = V \<and> mp_divnorm_fix m a tabb nb q = Some (q - 1, m1))"
proof -
  let ?v = "m ! (a + nb)"
  have "returns (mp_add m a a tabb nb 0) (\<lambda>(k, m'). only_changes m m' a nb \<and> unat k \<le> 1 \<and>
     lval m' a nb + unat k * limb_base ^ nb = lval m a nb + lval m tabb nb + unat (0 :: limb))"
    using assms(1-3) by (intro mp_add_returns) (auto simp: reads_ok_def apart_mem_def)
  then obtain c m1 where c: "mp_add m a a tabb nb 0 = Some (c, m1)" "only_changes m m1 a nb" "unat c \<le> 1"
      "lval m1 a nb + unat c * limb_base ^ nb = lval m a nb + lval m tabb nb"
    by (auto simp: returns_def)
  have len: "a + nb < length m1" using c(2) assms(1) by (simp add: only_changes_def)
  have top: "m1 ! (a + nb) = ?v" using c(2) by (simp add: only_changes_def)
  have V: "V = lval m1 a nb + (unat ?v + unat c) * limb_base ^ nb"
    using c(4) by (simp add: V_def algebra_simps)
  have small: "x + v * limb_base ^ nb < limb_base ^ Suc nb" if "x < limb_base ^ nb" "v < limb_base" for x v :: nat
  proof -
    have "x + v * limb_base ^ nb < Suc v * limb_base ^ nb" using that(1) by simp
    also have "\<dots> \<le> limb_base * limb_base ^ nb" using that(2) by (intro mult_le_mono1) simp
    finally show ?thesis by simp
  qed
  note b = mp_val_limb_bound [of m1 a nb]
  have oc1: "only_changes m m1 a (Suc nb)" using c(2) by (rule only_changes_mono) simp_all
  show ?thesis
  proof (cases "c = 0")
    case True
    have "V < limb_base ^ Suc nb" unfolding V using True limb_less [of ?v] by (intro small b) simp
    moreover have "mp_divnorm_fix m a tabb nb q = mp_divnorm_fix m1 a tabb nb (q - 1)"
      using c(1) True by (subst mp_divnorm_fix.simps) simp
    moreover have "lval m1 a (Suc nb) = V" using True by (simp add: V top)
    ultimately show ?thesis using oc1 by auto
  next
    case False
    then have c1: "unat c = 1" using c(3) by (metis One_nat_def le_SucE le_zero_eq unat_eq_zero)
    define m2 where "m2 = m1[a + nb := ?v + 1]"
    have oc2: "only_changes m m2 a (Suc nb)" unfolding m2_def using c(2) by (rule only_changes_next)
    have lo: "lval m2 a nb = lval m1 a nb" by (simp add: m2_def)
    have fx: "mp_divnorm_fix m a tabb nb q = (if ?v + 1 = 0 then Some (q - 1, m2) else mp_divnorm_fix m2 a tabb nb (q - 1))"
      using c(1) False len by (subst mp_divnorm_fix.simps) (simp add: mem_simps top m2_def)
    show ?thesis
    proof (cases "?v + 1 = 0")
      case True
      then have "unat ?v + 1 = limb_base"
        using unat_add_small [of ?v 1] limb_less [of ?v] by (cases "unat ?v + 1 < limb_base") auto
      then have "V = lval m1 a nb + limb_base ^ Suc nb" by (simp only: V c1 power_Suc)
      then show ?thesis using oc2 fx True len by (auto simp: lo m2_def)
    next
      case False
      have v: "unat (?v + 1) = unat ?v + 1 \<and> unat ?v + 1 < limb_base"
      proof (rule ccontr)
        assume "\<not> ?thesis"
        then have "limb_base \<le> unat ?v + unat (1 :: limb)"
          using unat_add_small [of ?v 1] by (cases "unat ?v + 1 < limb_base") auto
        from unat_add_wrap [OF this] have "unat (?v + 1) = 0" using limb_less [of ?v] by simp
        then show False using False by (simp add: unat_eq_zero)
      qed
      have "V < limb_base ^ Suc nb" unfolding V c1 using v by (intro small b) simp
      moreover have "lval m2 a (Suc nb) = V" using v len by (simp add: V c1 lo m2_def)
      ultimately show ?thesis using oc2 fx False by auto
    qed
  qed
qed

lemma unat_pred:
  assumes "0 < unat (q :: limb)"
  shows "unat (q - 1) + 1 = unat q"
proof -
  have "q \<noteq> 0" using assms by auto
  from unat_minus_one [OF this] show ?thesis using assms by simp
qed

lemma mp_divnorm_fix_returns:
  assumes "a + Suc nb \<le> length m" and "tabb + nb \<le> length m" and "apart_mem a (Suc nb) tabb nb"
    and "limb_base ^ Suc nb \<le> lval m a (Suc nb) + Suc k * lval m tabb nb"
    and "lval m a (Suc nb) + k * lval m tabb nb < limb_base ^ Suc nb" and "k < unat q"
  shows "returns (mp_divnorm_fix m a tabb nb q) (\<lambda>(q', m'). only_changes m m' a (Suc nb) \<and> unat q' + Suc k = unat q \<and>
     m' ! (a + nb) = 0 \<and> lval m' a nb + limb_base ^ Suc nb = lval m a (Suc nb) + Suc k * lval m tabb nb)"
  using assms
proof (induction k arbitrary: m q)
  case (0 m q)
  have q: "unat (q - 1) + 1 = unat q" using "0.prems"(6) by (intro unat_pred) simp
  have "\<not> lval m a (Suc nb) + lval m tabb nb < limb_base ^ Suc nb" using "0.prems"(4) by simp
  then show ?case
    using mp_divnorm_fix_round [OF "0.prems"(1-3), of q] q by (auto simp del: mp_val.simps power_Suc)
next
  case (Suc k m q)
  have q: "unat (q - 1) + 1 = unat q" using Suc.prems(6) by (intro unat_pred) simp
  have "lval m a (Suc nb) + lval m tabb nb < limb_base ^ Suc nb"
    using Suc.prems(5) by (rule le_less_trans [rotated]) simp
  then obtain m1 where m1: "only_changes m m1 a (Suc nb)" "lval m1 a (Suc nb) = lval m a (Suc nb) + lval m tabb nb"
      "mp_divnorm_fix m a tabb nb q = mp_divnorm_fix m1 a tabb nb (q - 1)"
    using mp_divnorm_fix_round [OF Suc.prems(1-3), of q] by (auto simp del: mp_val.simps power_Suc)
  have D: "lval m1 tabb nb = lval m tabb nb" by (rule mp_val_frame [OF m1(1) Suc.prems(3)])
  have len: "length m1 = length m" using m1(1) by (rule only_changes_length)
  have "returns (mp_divnorm_fix m1 a tabb nb (q - 1)) (\<lambda>(q', m'). only_changes m1 m' a (Suc nb) \<and> unat q' + Suc k = unat (q - 1) \<and>
     m' ! (a + nb) = 0 \<and> lval m' a nb + limb_base ^ Suc nb = lval m1 a (Suc nb) + Suc k * lval m1 tabb nb)"
    using Suc.prems q by (intro Suc.IH) (simp_all add: len D m1(2) algebra_simps del: mp_val.simps power_Suc)
  then show ?case
    unfolding m1(3) D m1(2) by (rule returns_mono) (use q only_changes_trans [OF m1(1)] in auto)
qed

text \<open>The trial quotient is never too small.\<close>

definition trial_quotient :: "limb \<Rightarrow> limb \<Rightarrow> limb \<Rightarrow> limb \<Rightarrow> limb" where
  "trial_quotient ah al b1 b1_inv =
     (if ah \<ge> b1 then - 1
      else if b1_inv \<noteq> 0 then fst (udiv1norm ah al b1 b1_inv)
      else ucast ((push_bit 64 (ucast ah :: dlimb) OR ucast al) div ucast b1))"

lemma trial_quotient_value:
  assumes "2 ^ 63 \<le> unat b1" and "b1_inv = 0 \<or> b1_inv = udiv1norm_init b1"
  shows "unat (trial_quotient ah al b1 b1_inv) =
     (if unat b1 \<le> unat ah then limb_base - 1 else (unat ah * limb_base + unat al) div unat b1)"
proof (cases "unat b1 \<le> unat ah")
  case True
  then show ?thesis
    by (simp add: trial_quotient_def word_le_nat_alt unsigned_minus_1_eq_mask mask_eq_exp_minus_1)
next
  case False
  then have l: "unat ah < unat b1" by simp
  obtain q r where qr: "udiv1norm ah al b1 (udiv1norm_init b1) = (q, r)" by (rule prod.exhaust)
  note u = udiv1norm_correct [OF assms(1) l qr]
  have "(unat ah * limb_base + unat al) div unat b1 = unat q"
    using u by (intro div_nat_eqI) (simp_all add: algebra_simps)
  then show ?thesis
    using False assms(2) dlimb_div_correct(1) [OF l, of al] qr by (auto simp: trial_quotient_def word_le_nat_alt)
qed

lemma trial_quotient_ge:
  assumes "2 ^ 63 \<le> unat (m ! (tabb + n))" and "b1_inv = 0 \<or> b1_inv = udiv1norm_init (m ! (tabb + n))"
    and "lval m a (Suc (Suc n)) < lval m tabb (Suc n) * limb_base"
  shows "lval m a (Suc (Suc n)) div lval m tabb (Suc n)
     \<le> unat (trial_quotient (m ! (a + Suc n)) (m ! (a + n)) (m ! (tabb + n)) b1_inv)"
proof -
  let ?W = "lval m a (Suc (Suc n))" and ?D = "lval m tabb (Suc n)" and ?b = "unat (m ! (tabb + n))"
  let ?v = "unat (m ! (a + Suc n)) * limb_base + unat (m ! (a + n))"
  define Q where "Q = ?W div ?D"
  have W: "?W < (?v + 1) * limb_base ^ n"
    using mp_val_limb_bound [of m a n] by (simp add: algebra_simps)
  have "Q * (?b * limb_base ^ n) \<le> Q * ?D" by (intro mult_le_mono2) simp
  also have "\<dots> \<le> ?W" by (simp only: Q_def div_times_less_eq_dividend)
  finally have "Q * ?b * limb_base ^ n < (?v + 1) * limb_base ^ n" using W by (simp only: mult.assoc)
  then have Qb: "Q * ?b \<le> ?v" by (simp only: mult_less_cancel2) simp
  have "Q < limb_base" unfolding Q_def using assms(3) by (intro less_mult_imp_div_less) (simp only: mult.commute)
  moreover have "Q \<le> ?v div ?b"
    using Qb assms(1) by (simp add: less_eq_div_iff_mult_less_eq)
  ultimately show ?thesis
    unfolding trial_quotient_value [OF assms(1,2)] Q_def [symmetric] by auto
qed

lemma mp_divnorm_step_returns:
  assumes "2 ^ 63 \<le> unat (m ! (tabb + n))" and "b1_inv = 0 \<or> b1_inv = udiv1norm_init (m ! (tabb + n))"
    and "taba + i + Suc (Suc n) \<le> length m" and "tabb + Suc n \<le> length m" and "tabq + i < length m"
    and "apart_mem (taba + i) (Suc (Suc n)) tabb (Suc n)"
    and W: "lval m (taba + i) (Suc (Suc n)) < lval m tabb (Suc n) * limb_base"
  shows "returns (mp_divnorm_step tabq taba tabb (Suc n) (m ! (tabb + n)) b1_inv i m)
     (\<lambda>m'. \<exists>q m2. only_changes m m2 (taba + i) (Suc (Suc n)) \<and> m' = m2[tabq + i := q] \<and>
        lval m2 (taba + i) (Suc n) + unat q * lval m tabb (Suc n) = lval m (taba + i) (Suc (Suc n)) \<and>
        lval m2 (taba + i) (Suc n) < lval m tabb (Suc n))"
proof -
  let ?a = "taba + i" and ?nb = "Suc n"
  define D where "D = lval m tabb ?nb"
  define V where "V = lval m ?a (Suc ?nb)"
  define qh where "qh = trial_quotient (m ! (?a + ?nb)) (m ! (?a + n)) (m ! (tabb + n)) b1_inv"
  define Q where "Q = V div D"
  have D0: "0 < D" using assms(1) by (simp add: D_def)
  have Qq: "Q \<le> unat qh" unfolding Q_def qh_def V_def D_def by (rule trial_quotient_ge [OF assms(1,2) W])
  have VQ: "Q * D \<le> V" "V < Q * D + D"
    using dividend_less_times_div [OF D0, of V] by (simp_all add: Q_def mult.commute add.commute)
  have "returns (mp_sub_mul1 m ?a tabb ?nb qh) (\<lambda>(k, m'). only_changes m m' ?a ?nb \<and>
     lval m' ?a ?nb + lval m tabb ?nb * unat qh = lval m ?a ?nb + unat k * limb_base ^ ?nb)"
    using assms(3,4,6) by (intro mp_sub_mul1_returns) (auto simp: reads_ok_def apart_mem_def)
  then obtain r m1 where r: "mp_sub_mul1 m ?a tabb ?nb qh = Some (r, m1)" "only_changes m m1 ?a ?nb"
      "lval m1 ?a ?nb + D * unat qh = lval m ?a ?nb + unat r * limb_base ^ ?nb"
    by (auto simp: returns_def D_def simp del: mp_val.simps power_Suc)
  define v where "v = m ! (?a + ?nb)"
  define a where "a = v - r"
  define m2 where "m2 = m1[?a + ?nb := a]"
  have len: "length m1 = length m" "length m2 = length m" using r(2) by (simp_all add: only_changes_def m2_def)
  have v1: "m1 ! (?a + ?nb) = v" using r(2) by (simp add: only_changes_def v_def)
  have oc2: "only_changes m m2 ?a (Suc ?nb)" unfolding m2_def using r(2) by (rule only_changes_next)
  have m2v: "lval m2 ?a (Suc ?nb) = lval m1 ?a ?nb + unat a * limb_base ^ ?nb"
    using assms(3) len by (simp add: m2_def)
  have Vm: "V = lval m ?a ?nb + unat v * limb_base ^ ?nb" by (simp add: V_def v_def)
  have bor: "unat a + unat r = unat v + of_bool (v < a) * limb_base"
    using unat_sub_borrow [of v r] by (simp only: a_def)
  have "lval m2 ?a (Suc ?nb) + unat qh * D = lval m ?a ?nb + (unat a + unat r) * limb_base ^ ?nb"
    unfolding m2v distrib_right using r(3) unfolding mult.commute [of "unat qh"] by linarith
  also have "\<dots> = V + of_bool (v < a) * limb_base ^ Suc ?nb"
    unfolding bor by (simp only: Vm distrib_right power_Suc mult.assoc add.assoc)
  finally have eq: "lval m2 ?a (Suc ?nb) + unat qh * D = V + of_bool (v < a) * limb_base ^ Suc ?nb" .
  have Dm2: "lval m2 tabb ?nb = D" unfolding D_def by (rule mp_val_frame [OF oc2 assms(6)])
  have body: "mp_divnorm_step tabq taba tabb ?nb (m ! (tabb + n)) b1_inv i m =
      do { (q, m) \<leftarrow> (if v < a then mp_divnorm_fix m2 ?a tabb ?nb qh else Some (qh, m2)); wr m (tabq + i) q }"
    using assms(3) len r(1) v1 unfolding mp_divnorm_step_def
    by (simp add: mem_simps Let_def m2_def qh_def trial_quotient_def a_def v_def add.assoc [symmetric])
  show ?thesis
  proof (cases "v < a")
    case False
    then have e: "lval m2 ?a (Suc ?nb) + unat qh * D = V" using eq by simp
    then have "unat qh * D < Suc Q * D" using VQ by simp
    then have "unat qh = Q" using Qq by (simp only: mult_less_cancel2) simp
    then have small: "lval m2 ?a (Suc ?nb) < D" using e VQ by simp
    have "unat a = 0"
    proof (rule ccontr)
      assume "unat a \<noteq> 0"
      then have "limb_base ^ ?nb \<le> unat a * limb_base ^ ?nb" by simp
      then show False using small m2v mp_val_limb_bound [of m tabb ?nb] unfolding D_def by linarith
    qed
    moreover have "lval m2 ?a ?nb = lval m1 ?a ?nb" unfolding m2_def by (rule mp_val_update_after) simp
    ultimately have "lval m2 ?a (Suc ?nb) = lval m2 ?a ?nb" by (simp only: m2v mult_0 add_0_right)
    then show ?thesis
      unfolding body using False e small oc2 assms(5) len
      by (auto simp: mem_simps D_def V_def simp del: mp_val.simps)
  next
    case True
    have e: "lval m2 ?a (Suc ?nb) + unat qh * D = V + limb_base ^ Suc ?nb" using eq True by simp
    then have "V < unat qh * D" using mp_val_limb_bound [of m2 ?a "Suc ?nb"] by linarith
    then have "Q * D < unat qh * D" using VQ by linarith
    then have Q: "Q < unat qh" by simp
    define k where "k = unat qh - Q - 1"
    have k: "Suc k + Q = unat qh" using Q by (simp add: k_def)
    have ek: "lval m2 ?a (Suc ?nb) + Suc k * D + Q * D = V + limb_base ^ Suc ?nb"
      using e by (simp only: k [symmetric] distrib_right add.assoc)
    have "returns (mp_divnorm_fix m2 ?a tabb ?nb qh) (\<lambda>(q', m'). only_changes m2 m' ?a (Suc ?nb) \<and>
        unat q' + Suc k = unat qh \<and> m' ! (?a + ?nb) = 0 \<and>
        lval m' ?a ?nb + limb_base ^ Suc ?nb = lval m2 ?a (Suc ?nb) + Suc k * lval m2 tabb ?nb)"
    proof (rule mp_divnorm_fix_returns)
      show "limb_base ^ Suc ?nb \<le> lval m2 ?a (Suc ?nb) + Suc k * lval m2 tabb ?nb"
        unfolding Dm2 using ek VQ by linarith
      show "lval m2 ?a (Suc ?nb) + k * lval m2 tabb ?nb < limb_base ^ Suc ?nb"
        unfolding Dm2 using ek VQ by (simp only: mult_Suc)
    qed (use assms len k in simp_all)
    then obtain q' m' where f: "mp_divnorm_fix m2 ?a tabb ?nb qh = Some (q', m')" "only_changes m2 m' ?a (Suc ?nb)"
        "unat q' + Suc k = unat qh" "lval m' ?a ?nb + limb_base ^ Suc ?nb = lval m2 ?a (Suc ?nb) + Suc k * D"
      unfolding Dm2 returns_def by auto
    have q': "unat q' = Q" using f(3) k by simp
    have "lval m' ?a ?nb + Q * D = V" using f(4) ek by linarith
    moreover from this have "lval m' ?a ?nb < D" using VQ by linarith
    moreover have "only_changes m m' ?a (Suc ?nb)" by (rule only_changes_trans [OF oc2 f(2)])
    moreover have "tabq + i < length m'" using assms(5) only_changes_length [OF f(2)] len by simp
    ultimately show ?thesis
      unfolding body using True f(1) q' by (auto simp: mem_simps D_def V_def simp del: mp_val.simps)
  qed
qed

text \<open>Before round \<open>i\<close> the limbs from \<open>i\<close> upwards hold a remainder and the quotient limbs above \<open>i\<close> are
  final.\<close>

definition divnorm_inv :: "limbs \<Rightarrow> nat \<Rightarrow> nat \<Rightarrow> nat \<Rightarrow> nat \<Rightarrow> nat \<Rightarrow> nat \<Rightarrow> limbs \<Rightarrow> bool" where
  "divnorm_inv m tabq taba tabb k nb i m' \<longleftrightarrow>
     length m' = length m \<and> (\<forall>j < nb. m' ! (tabb + j) = m ! (tabb + j)) \<and>
     lval m taba (k + nb) = lval m' taba (i + nb) + lval m tabb nb * limb_base ^ i * lval m' (tabq + i) (Suc k - i) \<and>
     lval m' (taba + i) nb < lval m tabb nb"

lemma divnorm_inv_tabb: "divnorm_inv m tabq taba tabb k nb i m' \<Longrightarrow> lval m' tabb nb = lval m tabb nb"
  unfolding divnorm_inv_def by (intro mp_val_cong) simp

lemma divnorm_inv_step:
  assumes b: "2 ^ 63 \<le> unat (m ! (tabb + n))" "b1_inv = 0 \<or> b1_inv = udiv1norm_init (m ! (tabb + n))"
    and mem: "tabq + Suc k \<le> length m" "taba + (k + Suc n) \<le> length m" "tabb + Suc n \<le> length m"
    and apart: "apart_mem tabq (Suc k) taba (k + Suc n)" "apart_mem tabq (Suc k) tabb (Suc n)" "apart_mem taba (k + Suc n) tabb (Suc n)"
    and i: "i < k" and I: "divnorm_inv m tabq taba tabb k (Suc n) (Suc i) m1"
  shows "returns (mp_divnorm_step tabq taba tabb (Suc n) (m ! (tabb + n)) b1_inv i m1) (divnorm_inv m tabq taba tabb k (Suc n) i)"
proof -
  let ?nb = "Suc n" and ?a = "taba + i"
  define D where "D = lval m tabb ?nb"
  have I': "length m1 = length m" "\<forall>j < ?nb. m1 ! (tabb + j) = m ! (tabb + j)" "lval m1 (taba + Suc i) ?nb < D"
      "lval m taba (k + ?nb) = lval m1 taba (Suc i + ?nb) + D * limb_base ^ Suc i * lval m1 (tabq + Suc i) (Suc k - Suc i)"
    using I unfolding divnorm_inv_def D_def by blast+
  have D1: "lval m1 tabb ?nb = D" using divnorm_inv_tabb [OF I] by (simp only: D_def)
  have b': "m1 ! (tabb + n) = m ! (tabb + n)" using I'(2) by simp
  have "lval m1 ?a (Suc ?nb) = unat (m1 ! ?a) + limb_base * lval m1 (taba + Suc i) ?nb"
    unfolding mp_val_front by simp
  also have "\<dots> < limb_base + limb_base * lval m1 (taba + Suc i) ?nb" using limb_less by (intro add_strict_right_mono)
  also have "\<dots> \<le> D * limb_base" using I'(3) by simp
  finally have W: "lval m1 ?a (Suc ?nb) < lval m1 tabb ?nb * limb_base" by (simp only: D1)
  have "returns (mp_divnorm_step tabq taba tabb ?nb (m1 ! (tabb + n)) b1_inv i m1)
     (\<lambda>m'. \<exists>q m2. only_changes m1 m2 ?a (Suc ?nb) \<and> m' = m2[tabq + i := q] \<and>
        lval m2 ?a ?nb + unat q * lval m1 tabb ?nb = lval m1 ?a (Suc ?nb) \<and> lval m2 ?a ?nb < lval m1 tabb ?nb)"
    using b mem apart i I'(1) by (intro mp_divnorm_step_returns W) (auto simp: b' apart_mem_def)
  then show ?thesis
    unfolding b' D1
  proof (rule returns_mono, elim exE conjE)
    fix m' q m2
    assume s: "only_changes m1 m2 ?a (Suc ?nb)" "m' = m2[tabq + i := q]"
      "lval m2 ?a ?nb + unat q * D = lval m1 ?a (Suc ?nb)" "lval m2 ?a ?nb < D"
    have len: "length m2 = length m" using s(1) I'(1) by (simp add: only_changes_def)
    have a': "lval m' p j = lval m2 p j" if "taba \<le> p" "p + j \<le> taba + (k + ?nb)" for p j
      unfolding s(2) using that apart(1) i by (intro mp_val_cong) (auto simp: apart_mem_def)
    have lo: "lval m2 taba i = lval m1 taba i" by (rule mp_val_unchanged [OF s(1)]) simp
    have tail: "lval m' (Suc (tabq + i)) (k - i) = lval m1 (Suc (tabq + i)) (k - i)"
      unfolding s(2) using s(1) apart(1) i by (intro mp_val_cong) (auto simp: apart_mem_def only_changes_def)
    have qi: "m' ! (tabq + i) = q" using s(2) len mem(1) i by simp
    have "lval m' (tabq + i) (Suc k - i) = unat q + limb_base * lval m1 (tabq + Suc i) (Suc k - Suc i)"
      using i tail qi by (simp add: Suc_diff_le mp_val_front del: mp_val.simps)
    moreover have "lval m1 taba (Suc i + ?nb) = lval m1 taba i + limb_base ^ i * (lval m2 ?a ?nb + unat q * D)"
      using mp_val_add [of limb_base m1 taba i "Suc ?nb"] unfolding s(3) by (simp only: add_Suc add_Suc_right)
    moreover have "lval m' taba (i + ?nb) = lval m1 taba i + limb_base ^ i * lval m2 ?a ?nb"
      using a' [of taba "i + ?nb"] mp_val_add [of limb_base m2 taba i ?nb] i lo by (simp del: mp_val.simps)
    ultimately have "lval m taba (k + ?nb) = lval m' taba (i + ?nb) + D * limb_base ^ i * lval m' (tabq + i) (Suc k - i)"
      unfolding I'(4) by (simp add: algebra_simps del: mp_val.simps)
    moreover have "\<forall>j < ?nb. m' ! (tabb + j) = m ! (tabb + j)"
      unfolding s(2) using s(1) I'(2) apart(2,3) i by (auto simp: apart_mem_def only_changes_def)
    moreover have "lval m' ?a ?nb < D" using a' [of ?a ?nb] i s(4) by simp
    ultimately show "divnorm_inv m tabq taba tabb k ?nb i m'"
      unfolding divnorm_inv_def D_def [symmetric] using len s(2) by simp
  qed
qed

lemma mp_divnorm_returns:
  fixes m :: limbs
  assumes na: "nb \<le> na" "1 \<le> nb" "nb < 2 ^ 31" and small: "nb = 1 \<or> na - nb < 50 \<or> nb < 50"
    and b1: "2 ^ 63 \<le> unat (m ! (tabb + (nb - 1)))"
    and mem: "tabq + (na - nb + 1) \<le> length m" "taba + na \<le> length m" "tabb + nb \<le> length m"
    and apart: "apart_mem tabq (na - nb + 1) taba na" "apart_mem tabq (na - nb + 1) tabb nb" "apart_mem taba na tabb nb"
  shows "returns (mp_divnorm large m tabq taba na tabb nb) (\<lambda>(r, m'). r = 0 \<and> length m' = length m \<and>
     lval m taba na = lval m' tabq (na - nb + 1) * lval m tabb nb + lval m' taba nb \<and>
     lval m' taba nb < lval m tabb nb \<and> lval m' tabb nb = lval m tabb nb)"
proof (cases "nb = 1")
  case True
  let ?b = "m ! tabb"
  have "returns (mp_div1norm m tabq taba na ?b 0) (\<lambda>(r', m'). only_changes m m' tabq na \<and> unat r' < unat ?b \<and>
     lval m' tabq na * unat ?b + unat r' = lval m taba na + unat (0 :: limb) * limb_base ^ na)"
    using b1 mem apart True na by (intro mp_div1norm_returns) (auto simp: reads_down_def apart_mem_def)
  then obtain r m1 where r: "mp_div1norm m tabq taba na ?b 0 = Some (r, m1)" "only_changes m m1 tabq na"
      "unat r < unat ?b" "lval m1 tabq na * unat ?b + unat r = lval m taba na"
    by (auto simp: returns_def)
  have len: "length m1 = length m" using r(2) by (rule only_changes_length)
  have "lval (m1[taba := r]) tabq na = lval m1 tabq na"
    using apart True na by (intro mp_val_cong) (auto simp: apart_mem_def)
  moreover have "m1[taba := r] ! tabb = ?b"
    using apart True na r(2) by (auto simp: apart_mem_def only_changes_def)
  ultimately show ?thesis
    using r True mem na len by (simp add: mp_divnorm_def mem_simps)
next
  case False
  then obtain n where nb: "nb = Suc n" using na by (cases nb) auto
  define k where "k = na - nb"
  have nak: "na = k + nb" using na by (simp add: k_def)
  define D b b1_inv where d: "D = lval m tabb nb" "b = m ! (tabb + n)" "b1_inv = (if k \<ge> 3 then udiv1norm_init b else 0)"
  have b0: "2 ^ 63 \<le> unat b" using b1 by (simp add: d nb)
  have "D = lval m tabb n + unat b * limb_base ^ n" by (simp add: d nb)
  moreover have "9223372036854775808 * limb_base ^ n \<le> unat b * limb_base ^ n"
    using b0 by (intro mult_le_mono1) simp
  ultimately have D2: "limb_base ^ nb \<le> 2 * D" unfolding nb power_Suc by linarith
  let ?q = "bool_limb (D \<le> lval m (taba + k) nb)"
  let ?m1 = "m[tabq + k := ?q]"
  have ap: "lval ?m1 p j = lval m p j" if "apart_mem (tabq + k) 1 p j" for p j
    using that by (intro mp_val_frame [of m _ "tabq + k" 1]) (auto simp: only_changes_def)
  have dis: "apart_mem (tabq + k) 1 (taba + k) nb" "apart_mem (tabq + k) 1 tabb nb"
    using apart by (auto simp: apart_mem_def nak)
  have top: "mp_divnorm_top m (taba + k) tabb nb = Some ?q"
    using mem by (simp add: mp_divnorm_top_returns d nak)
  have start: "returns (if ?q \<noteq> 0 then do { (_, m) \<leftarrow> mp_sub ?m1 (taba + k) (taba + k) tabb nb 0; Some m } else Some ?m1)
     (\<lambda>m'. only_changes ?m1 m' (taba + k) nb \<and> lval m' (taba + k) nb + unat ?q * D = lval m (taba + k) nb \<and>
        lval m' (taba + k) nb < D)"
  proof (cases "D \<le> lval m (taba + k) nb")
    case True
    have "returns (mp_sub ?m1 (taba + k) (taba + k) tabb nb 0) (\<lambda>(c, m'). only_changes ?m1 m' (taba + k) nb \<and> unat c \<le> 1 \<and>
       lval m' (taba + k) nb + lval ?m1 tabb nb + unat (0 :: limb) = lval ?m1 (taba + k) nb + unat c * limb_base ^ nb)"
      using mem na apart by (intro mp_sub_returns) (auto simp: reads_ok_def apart_mem_def nak)
    then obtain c m2 where c: "mp_sub ?m1 (taba + k) (taba + k) tabb nb 0 = Some (c, m2)" "only_changes ?m1 m2 (taba + k) nb"
        "unat c \<le> 1" "lval m2 (taba + k) nb + D = lval m (taba + k) nb + unat c * limb_base ^ nb"
      unfolding ap [OF dis(1)] ap [OF dis(2)] by (auto simp: returns_def d)
    have "unat c = 0"
    proof (rule ccontr)
      assume "unat c \<noteq> 0"
      then have "unat c = 1" using c(3) by simp
      then show False using c(4) True mp_val_limb_bound [of m2 "taba + k" nb] by simp
    qed
    then have "lval m2 (taba + k) nb + D = lval m (taba + k) nb" using c(4) by simp
    moreover have "lval m2 (taba + k) nb < D"
      using calculation D2 mp_val_limb_bound [of m "taba + k" nb] by linarith
    ultimately show ?thesis using True c(1,2) by simp
  next
    case False
    then show ?thesis using ap [OF dis(1)] by simp
  qed
  have inv0: "divnorm_inv m tabq taba tabb k nb k m'"
    if s: "only_changes ?m1 m' (taba + k) nb" "lval m' (taba + k) nb + unat ?q * D = lval m (taba + k) nb"
      "lval m' (taba + k) nb < D" for m'
  proof -
    have len: "length m' = length m" using s(1) by (simp add: only_changes_def)
    have lo: "lval m' taba k = lval m taba k"
      using s(1) apart(1) by (intro mp_val_cong) (auto simp: apart_mem_def only_changes_def nak)
    have "m' ! (tabq + k) = ?q" using s(1) apart(1) mem(1) by (auto simp: apart_mem_def only_changes_def nak)
    then have "lval m' (tabq + k) (Suc k - k) = unat ?q" by simp
    moreover have "lval m taba (k + nb) = lval m taba k + limb_base ^ k * (lval m' (taba + k) nb + unat ?q * D)"
      unfolding s(2) by (rule mp_val_add)
    then have "lval m taba (k + nb) = lval m' taba (k + nb) + D * limb_base ^ k * unat ?q"
      unfolding mp_val_add [of _ m'] lo by (simp add: algebra_simps)
    moreover have "\<forall>j < nb. m' ! (tabb + j) = m ! (tabb + j)"
      using s(1) apart(2,3) by (auto simp: apart_mem_def only_changes_def nak nth_list_update)
    ultimately show ?thesis
      unfolding divnorm_inv_def using len s(3) by (simp only: d simp_thms)
  qed
  have inv: "b1_inv = 0 \<or> b1_inv = udiv1norm_init b" by (simp add: d(3))
  have "returns (for_down (mp_divnorm_step tabq taba tabb nb b b1_inv) k m') (divnorm_inv m tabq taba tabb k nb 0)"
    if "divnorm_inv m tabq taba tabb k nb k m'" for m'
  proof (rule for_down_inv [where I = "divnorm_inv m tabq taba tabb k nb", OF that])
    fix i m1
    assume "i < k" "divnorm_inv m tabq taba tabb k nb (Suc i) m1"
    then show "returns (mp_divnorm_step tabq taba tabb nb b b1_inv i m1) (divnorm_inv m tabq taba tabb k nb i)"
      using b0 mem apart inv unfolding nb d(2) nak by (intro divnorm_inv_step) simp_all
  qed
  note loop = this
  have fin: "r = 0 \<and> length m' = length m \<and> lval m taba na = lval m' tabq (na - nb + 1) * lval m tabb nb + lval m' taba nb \<and>
     lval m' taba nb < lval m tabb nb \<and> lval m' tabb nb = lval m tabb nb"
    if "divnorm_inv m tabq taba tabb k nb 0 m'" "r = 0" for r :: int and m'
    using that divnorm_inv_tabb [OF that(1)] unfolding divnorm_inv_def
    by (simp add: nak mult.commute add.commute del: mp_val.simps)
  have rb: "rd m (tabb + (nb - 1)) = Some b" using mem(3) by (simp add: nb d rd_def)
  have wq: "wr m (tabq + k) ?q = Some ?m1" using mem(1) by (simp add: wr_def nak)
  have big: "\<not> 50 \<le> min k nb" using small False by (auto simp: k_def min_def)
  have "mp_divnorm large m tabq taba na tabb nb =
      do { m \<leftarrow> (if ?q \<noteq> 0 then do { (_, m) \<leftarrow> mp_sub ?m1 (taba + k) (taba + k) tabb nb 0; Some m } else Some ?m1);
           m \<leftarrow> for_down (mp_divnorm_step tabq taba tabb nb b b1_inv) k m; Some (0, m) }"
    unfolding mp_divnorm_def k_def [symmetric] rb
    using False big wq top by (auto simp: d(3) [symmetric] Let_def)
  then show ?thesis
    by (simp only:) (rule returns_bind [OF start], rule returns_bind [OF loop [OF inv0]], simp_all add: fin)
qed

end
