(* ===== verification/MpSqrt.thy ===== *)
theory MpSqrt
  imports MpDiv
begin

text \<open>
  Integer square roots of \<^verbatim>\<open>libbf.c\<close>: of a limb by a table and two steps of Zimmermann's method
  (\<^verbatim>\<open>mp_sqrtrem1\<close>, \<^verbatim>\<open>bf_isqrt\<close>), and of two limbs (\<^verbatim>\<open>mp_sqrtrem2\<close>).
\<close>

section \<open>Operations\<close>

definition sqrt_table :: "limb list" where
  "sqrt_table = [
     128, 128, 129, 130, 131, 132, 133, 134, 135, 136, 137, 138, 139, 140, 141, 142,
     143, 144, 144, 145, 146, 147, 148, 149, 150, 150, 151, 152, 153, 154, 155, 155,
     156, 157, 158, 159, 160, 160, 161, 162, 163, 163, 164, 165, 166, 167, 167, 168,
     169, 170, 170, 171, 172, 173, 173, 174, 175, 176, 176, 177, 178, 178, 179, 180,
     181, 181, 182, 183, 183, 184, 185, 185, 186, 187, 187, 188, 189, 189, 190, 191,
     192, 192, 193, 193, 194, 195, 195, 196, 197, 197, 198, 199, 199, 200, 201, 201,
     202, 203, 203, 204, 204, 205, 206, 206, 207, 208, 208, 209, 209, 210, 211, 211,
     212, 212, 213, 214, 214, 215, 215, 216, 217, 217, 218, 218, 219, 219, 220, 221,
     221, 222, 222, 223, 224, 224, 225, 225, 226, 226, 227, 227, 228, 229, 229, 230,
     230, 231, 231, 232, 232, 233, 234, 234, 235, 235, 236, 236, 237, 237, 238, 238,
     239, 240, 240, 241, 241, 242, 242, 243, 243, 244, 244, 245, 245, 246, 246, 247,
     247, 248, 248, 249, 249, 250, 250, 251, 251, 252, 252, 253, 253, 254, 254, 255]"

text \<open>One step of \<^verbatim>\<open>mp_sqrtrem1\<close>: from the root \<open>s1\<close> and the remainder \<open>r1\<close> of the leading digits and
  the next two digits of \<open>l\<close> bits.\<close>

definition sqrtrem_iter :: "nat \<Rightarrow> limb \<Rightarrow> limb \<Rightarrow> limb \<Rightarrow> limb \<Rightarrow> limb \<times> limb" where
  "sqrtrem_iter l s1 r1 h1 h0 =
     (let num = push_bit l r1 OR h1;
          q = num div (2 * s1);
          u = num mod (2 * s1);
          s = push_bit l s1 + q;
          r = push_bit l u OR h0;
          r = r - q * q
      in if r <s 0 then (let s = s - 1 in (s, r + (2 * s + 1))) else (s, r))"

definition mp_sqrtrem1 :: "limb \<Rightarrow> (limb \<times> limb) option" where
  "mp_sqrtrem1 a =
     do { s1 \<leftarrow> rd sqrt_table (unat (drop_bit 56 a - 64));
          let r1 = drop_bit 48 a - s1 * s1;
          let (s1, r1) = (if r1 > 2 * s1 then (s1 + 1, r1 - (2 * s1 + 1)) else (s1, r1));
          let (s, r) = sqrtrem_iter 8 s1 r1 (drop_bit 40 a AND 0xff) (drop_bit 32 a AND 0xff);
          Some (sqrtrem_iter 16 s r (drop_bit 16 a AND 0xffff) (drop_bit 0 a AND 0xffff)) }"

definition limb_clz :: "limb \<Rightarrow> nat option" where
  "limb_clz a = (if a = 0 then Some 64 else clz64 a)"

definition bf_isqrt :: "limb \<Rightarrow> limb option" where
  "bf_isqrt a =
     (if a = 0 then Some 0
      else do { c \<leftarrow> limb_clz a;
                let k = c - c mod 2;
                (s, r) \<leftarrow> mp_sqrtrem1 (push_bit k a);
                Some (drop_bit (k div 2) s) })"

definition mp_sqrtrem2 :: "limbs \<Rightarrow> nat \<Rightarrow> nat \<Rightarrow> (limb \<times> limbs) option" where
  "mp_sqrtrem2 m tabs taba =
     do { a0 \<leftarrow> rd m taba;
          a1 \<leftarrow> rd m (taba + 1);
          (s1, r1) \<leftarrow> mp_sqrtrem1 a1;
          let l = 32;
          let num = push_bit l (ucast r1 :: dlimb) OR ucast (drop_bit l a0);
          let q = (ucast (num div ucast (2 * s1)) :: limb);
          let u = (ucast (num mod ucast (2 * s1)) :: limb);
          let s = push_bit l s1 + q;
          let r = push_bit l (ucast u :: dlimb) OR ucast (a0 AND (push_bit l 1 - 1));
          let r = (if drop_bit l q \<noteq> 0 then r - push_bit 64 1 else r - ucast (q * q));
          let (s, r) = (if (ucast (drop_bit 64 r) :: limb) <s 0
                        then (let s = s - 1 in (s, r + (2 * ucast s + 1))) else (s, r));
          m \<leftarrow> wr m tabs s;
          m \<leftarrow> wr m taba (ucast r);
          Some (ucast (drop_bit 64 r), m) }"

section \<open>One step\<close>

lemma sqrt_step:
  fixes L s1 r1 h1 h0 q u :: int
  assumes "0 < L" and "L \<le> 2 * s1" and "0 \<le> r1" "r1 \<le> 2 * s1" and "0 \<le> h1" "h1 < L" and "0 \<le> h0" "h0 < L"
    and q: "q = (r1 * L + h1) div (2 * s1)" and u: "u = (r1 * L + h1) mod (2 * s1)"
  defines "a \<equiv> (s1 * s1 + r1) * (L * L) + h1 * L + h0"
  defines "s \<equiv> s1 * L + q" and "r \<equiv> u * L + h0 - q * q"
  shows "s * s + r = a" and "r \<le> 2 * s" and "- (2 * s - 1) \<le> r" and "0 \<le> q" and "q \<le> L" and "0 \<le> u" and "u < 2 * s1"
proof -
  have s1: "0 < 2 * s1" using assms(1,2) by linarith
  show ub: "0 \<le> u" "u < 2 * s1" using s1 by (simp_all add: u)
  have n0: "0 \<le> r1 * L + h1" using assms(1,3,5) by simp
  show q0: "0 \<le> q" unfolding q using n0 s1 by (intro pos_imp_zdiv_nonneg_iff [THEN iffD2])
  have qu: "q * (2 * s1) + u = r1 * L + h1" unfolding q u by (rule div_mult_mod_eq)
  have "r1 * L \<le> 2 * s1 * L" using assms(1,4) by (intro mult_right_mono) auto
  then have "r1 * L + h1 < (L + 1) * (2 * s1)" using assms(2,6) by (simp add: algebra_simps)
  then have "q * (2 * s1) < (L + 1) * (2 * s1)" using qu ub by linarith
  then have "q < L + 1" using s1 by (simp only: mult_less_cancel_right_pos)
  then show qL: "q \<le> L" by simp
  show "s * s + r = a"
  proof -
    have "s * s + r = s1 * s1 * (L * L) + (q * (2 * s1) + u) * L + h0"
      by (simp add: s_def r_def algebra_simps)
    then show ?thesis unfolding qu by (simp add: a_def algebra_simps)
  qed
  have "u * L \<le> (2 * s1 - 1) * L" using ub assms(1) by (intro mult_right_mono) auto
  moreover have "0 \<le> q * q" by simp
  ultimately have "r \<le> 2 * s1 * L" using assms(8) unfolding r_def left_diff_distrib by linarith
  then show "r \<le> 2 * s" using q0 by (simp add: s_def)
  have "q * q \<le> L * L" using q0 qL by (intro mult_mono) auto
  also have "\<dots> \<le> 2 * s1 * L" using assms(1,2) by (intro mult_right_mono) auto
  finally have qq: "q * q \<le> 2 * s1 * L" .
  have uL: "0 \<le> u * L" using ub(1) assms(1) by simp
  have sL: "0 < s1 * L" using s1 assms(1) by simp
  show "- (2 * s - 1) \<le> r"
  proof (cases "q = 0")
    case True
    then show ?thesis using uL assms(7) sL unfolding r_def s_def True by simp
  next
    case False
    then have "1 \<le> q" using q0 by simp
    then show ?thesis using qq uL assms(7) unfolding r_def s_def distrib_left mult.assoc by linarith
  qed
qed

text \<open>The same for the words of \<^verbatim>\<open>mp_sqrtrem1\<close>, whose intermediate values all fit.\<close>

definition is_sqrtrem :: "nat \<Rightarrow> nat \<Rightarrow> nat \<Rightarrow> bool" where
  "is_sqrtrem a s r \<longleftrightarrow> s * s + r = a \<and> r \<le> 2 * s"

lemma sqrt_step_nat:
  fixes L S R H1 H0 :: nat
  assumes L: "0 < L" "L \<le> 2 * S" and R: "R \<le> 2 * S" and H: "H1 < L" "H0 < L"
  defines "A \<equiv> (S * S + R) * (L * L) + H1 * L + H0"
  defines "Q \<equiv> (R * L + H1) div (2 * S)" and "U \<equiv> (R * L + H1) mod (2 * S)"
  defines "T \<equiv> S * L + Q" and "C \<equiv> U * L + H0"
  shows "Q \<le> L" and "U < 2 * S" and "Q * Q \<le> C \<Longrightarrow> is_sqrtrem A T (C - Q * Q)"
    and "C < Q * Q \<Longrightarrow> Q * Q - C + 1 \<le> 2 * T \<and> is_sqrtrem A (T - 1) (2 * T - 1 - (Q * Q - C))"
proof -
  have "int Q = (int R * int L + int H1) div (2 * int S)" "int U = (int R * int L + int H1) mod (2 * int S)"
    by (simp_all add: Q_def U_def zdiv_int zmod_int)
  note st = sqrt_step [of "int L" "int S" "int R" "int H1" "int H0", OF _ _ _ _ _ _ _ _ this]
  show "Q \<le> L" "U < 2 * S" using st(5,7) L R H by simp_all
  have eq: "int (T * T) + (int C - int (Q * Q)) = int A"
    using st(1) L R H by (simp add: A_def T_def C_def)
  have hi: "int C - int (Q * Q) \<le> 2 * int T" using st(2) L R H by (simp add: T_def C_def)
  have lo: "1 - 2 * int T \<le> int C - int (Q * Q)" using st(3) L R H by (simp add: T_def C_def)
  show "is_sqrtrem A T (C - Q * Q)" if "Q * Q \<le> C"
  proof -
    have d: "int (C - Q * Q) = int C - int (Q * Q)" using that by (rule of_nat_diff)
    have "int (T * T + (C - Q * Q)) = int A" "int (C - Q * Q) \<le> int (2 * T)"
      using eq hi unfolding of_nat_add [of "T * T"] d by simp_all
    then show ?thesis by (simp only: is_sqrtrem_def of_nat_eq_iff of_nat_le_iff)
  qed
  assume lt: "C < Q * Q"
  define y where "y = Q * Q - C"
  have y: "int y = int (Q * Q) - int C" "0 < y" using lt by (simp_all add: y_def of_nat_diff)
  have "int (y + 1) \<le> int (2 * T)" using lo y(1) unfolding of_nat_add [of y] of_nat_mult [of 2] by simp
  then have yT: "y + 1 \<le> 2 * T" by (simp only: of_nat_le_iff)
  then obtain k where k: "T = Suc k" by (cases T) auto
  have "int (T * T) = int (A + y)" using eq y(1) by simp
  then have "Suc k * Suc k = A + y" by (simp only: of_nat_eq_iff k)
  then have "is_sqrtrem A (T - 1) (2 * T - 1 - y)"
    unfolding is_sqrtrem_def k using yT y(2) k by simp linarith
  then show "Q * Q - C + 1 \<le> 2 * T \<and> is_sqrtrem A (T - 1) (2 * T - 1 - (Q * Q - C))"
    using yT by (simp add: y_def)
qed

lemma unat_push_or:
  fixes x y :: "'a::len word"
  assumes "unat x * 2 ^ l < 2 ^ LENGTH('a)" and "unat y < 2 ^ l"
  shows "unat (push_bit l x OR y) = unat x * 2 ^ l + unat y"
proof -
  have p: "unat (push_bit l x) = unat x * 2 ^ l"
    unfolding unsigned_push_bit_eq using assms(1) by (simp add: push_bit_eq_mult take_bit_nat_eq_self)
  show ?thesis
    unfolding unsigned_or_eq p using or_add_disjoint_nat [OF assms(2), of "unat x * 2 ^ l"]
    by (simp add: or.commute add.commute)
qed

lemma unat_sub_small: "unat w \<le> unat v \<Longrightarrow> unat (v - w :: 'a::len word) = unat v - unat w"
  by (simp add: unat_sub word_le_nat_alt)

lemma unat_add_bound: "unat v + unat w < 2 ^ LENGTH('a) \<Longrightarrow> unat (v + w :: 'a::len word) = unat v + unat w"
  unfolding unat_word_ariths by simp

lemma unat_mult_bound: "unat v * unat w < 2 ^ LENGTH('a) \<Longrightarrow> unat (v * w :: 'a::len word) = unat v * unat w"
  unfolding unat_word_ariths by simp

lemma unat_sub_neg:
  fixes v w :: "'a::len word"
  assumes "unat v < unat w"
  shows "unat (v - w) = 2 ^ LENGTH('a) - (unat w - unat v)"
proof -
  have d: "unat (w - v) = unat w - unat v" using assms by (intro unat_sub_small) simp
  then have "w - v \<noteq> 0" using assms by auto
  from unat_uminus [OF this] show ?thesis by (simp add: d)
qed

lemma unat_add_wrap_word:
  fixes v w :: "'a::len word"
  assumes "2 ^ LENGTH('a) \<le> unat v + unat w"
  shows "unat (v + w) = unat v + unat w - 2 ^ LENGTH('a)"
proof -
  have "unat v + unat w - 2 ^ LENGTH('a) < 2 ^ LENGTH('a)"
    using unsigned_less [of v, where ?'a = nat] unsigned_less [of w, where ?'a = nat] by linarith
  then show ?thesis unfolding unat_word_ariths using assms by (simp add: le_mod_geq)
qed

lemma sqrtrem_iter_correct:
  assumes l: "0 < l" "l \<le> 16" and s1: "2 ^ l \<le> 2 * unat s1" "unat s1 < 2 ^ l" and r1: "unat r1 \<le> 2 * unat s1"
    and h: "unat h1 < 2 ^ l" "unat h0 < 2 ^ l" and it: "sqrtrem_iter l s1 r1 h1 h0 = (s, r)"
  shows "is_sqrtrem ((unat s1 * unat s1 + unat r1) * (2 ^ l * 2 ^ l) + unat h1 * 2 ^ l + unat h0) (unat s) (unat r)"
proof -
  define L S where LS: "L = (2 :: nat) ^ l" "S = unat s1"
  define N where "N = unat r1 * L + unat h1"
  define Q U where QU: "Q = N div (2 * S)" "U = N mod (2 * S)"
  have L: "0 < L" "L \<le> 65536" using l power_increasing [of l 16 "2 :: nat"] by (simp_all add: LS)
  have SL: "L \<le> 2 * S" "S < L" "unat r1 \<le> 2 * S" "unat h1 < L" "unat h0 < L"
    using s1 r1 h by (simp_all add: LS)
  note st = sqrt_step_nat [OF L(1) SL(1,3,4,5), folded N_def, folded QU]
  have bounds: "unat r1 * L \<le> 131072 * 65536" "U * L \<le> 131072 * 65536" "S * L \<le> 65536 * 65536" "Q * Q \<le> 65536 * 65536"
    using SL L st(1,2) by (intro mult_le_mono; linarith)+
  let ?q = "(push_bit l r1 OR h1) div (2 * s1)" and ?u = "(push_bit l r1 OR h1) mod (2 * s1)"
  have num: "unat (push_bit l r1 OR h1) = N"
    unfolding N_def LS using bounds SL by (intro unat_push_or) (simp_all add: LS)
  have d2: "unat (2 * s1) = 2 * S" using SL L unat_mult_bound [of 2 s1] by (simp add: LS)
  have q: "unat ?q = Q" "unat ?u = U" by (simp_all add: QU unat_div_distrib unat_mod_distrib num d2)
  have qq: "unat (?q * ?q) = Q * Q" using bounds q(1) by (subst unat_mult_bound) simp_all
  have r0: "unat (push_bit l ?u OR h0) = U * L + unat h0"
    using bounds SL unat_push_or [of ?u l h0] by (simp add: LS q)
  have s0: "unat (push_bit l s1 + ?q) = S * L + Q"
    using bounds L st(1) unat_push_or [of s1 l 0] by (subst unat_add_bound) (simp_all add: LS q)
  let ?r = "(push_bit l ?u OR h0) - ?q * ?q" and ?s = "push_bit l s1 + ?q"
  show ?thesis
  proof (cases "Q * Q \<le> U * L + unat h0")
    case True
    have rr: "unat ?r = U * L + unat h0 - Q * Q" using True by (subst unat_sub_small) (simp_all add: qq r0)
    then have "\<not> ?r <s 0" using bounds SL L unfolding limb_negative by simp
    then have "s = ?s" "r = ?r" using it by (simp_all add: sqrtrem_iter_def Let_def)
    then show ?thesis using st(3) [OF True] s0 rr by (simp only: LS)
  next
    case False
    then have lt: "U * L + unat h0 < Q * Q" by simp
    define y where "y = Q * Q - (U * L + unat h0)"
    note neg = st(4) [OF lt, folded y_def]
    have y: "y \<le> 65536 * 65536" using bounds by (simp add: y_def)
    have rr: "unat ?r = 2 ^ 64 - y" using lt by (subst unat_sub_neg) (simp_all add: qq r0 y_def)
    have "?r <s 0" using y rr unfolding limb_negative by simp
    then have res: "s = ?s - 1" "r = ?r + (2 * (?s - 1) + 1)" using it by (auto simp: sqrtrem_iter_def Let_def)
    have T: "1 \<le> S * L + Q" using neg by (cases "S * L + Q = 0") simp_all
    have us: "unat (?s - 1) = S * L + Q - 1" using T s0 by (subst unat_sub_small) simp_all
    have two: "unat (2 * (?s - 1) + 1) = 2 * (S * L + Q) - 1"
      using us bounds st(1) L T unat_mult_bound [of 2 "?s - 1"] unat_add_bound [of "2 * (?s - 1)" 1] by simp
    have "limb_base \<le> 2 ^ 64 - y + (2 * t - 1)" if "y + 1 \<le> 2 * t" for t :: nat using that y by simp
    then have "limb_base \<le> unat ?r + unat (2 * (?s - 1) + 1)" unfolding rr two using neg by blast
    from unat_add_wrap [OF this] have "unat r = 2 * (S * L + Q) - 1 - y"
      unfolding res(2) rr two using neg y by simp
    then show ?thesis using neg us res(1) by (simp add: LS)
  qed
qed

section \<open>The root of a limb\<close>

text \<open>The table holds a root of the leading 8 bits, scaled to 16 bits, that is exact or one too
  small.\<close>

definition sqrt_table_ok :: "nat \<Rightarrow> bool" where
  "sqrt_table_ok i \<longleftrightarrow> (let s = uint (sqrt_table ! i); h = (int i + 64) * 256
     in s * s \<le> h \<and> h + 255 < (s + 2) * (s + 2) \<and> 128 \<le> s \<and> s < 256)"

lemma sqrt_table_all_ok: "list_all sqrt_table_ok [0..<192]"
  by code_simp

lemma is_sqrtrem_ge: "is_sqrtrem a s r \<Longrightarrow> b * b \<le> a \<Longrightarrow> b \<le> s"
proof (rule ccontr)
  assume s: "is_sqrtrem a s r" "b * b \<le> a" "\<not> b \<le> s"
  then have "Suc s * Suc s \<le> b * b" by (intro mult_le_mono) simp_all
  then show False using s by (simp add: is_sqrtrem_def)
qed

lemma is_sqrtrem_less: "is_sqrtrem a s r \<Longrightarrow> a < c * c \<Longrightarrow> s < c"
proof (rule ccontr)
  assume s: "is_sqrtrem a s r" "a < c * c" "\<not> s < c"
  then have "c * c \<le> s * s" by (intro mult_le_mono) simp_all
  then show False using s by (simp add: is_sqrtrem_def)
qed

lemma is_sqrtrem_floor: "is_sqrtrem a s r \<longleftrightarrow> s * s \<le> a \<and> a < (s + 1) * (s + 1) \<and> r = a - s * s"
  by (auto simp: is_sqrtrem_def)

lemma unat_drop_div: "unat (drop_bit k (a :: limb)) = unat a div 2 ^ k"
  unfolding unat_drop_bit_eq by (rule drop_bit_eq_div)

lemma unat_limb_and_mask: "unat ((a :: limb) AND (2 ^ k - 1)) = unat a mod 2 ^ k"
proof -
  have "a AND (2 ^ k - 1) = take_bit k a" by (simp add: take_bit_eq_mask mask_eq_exp_minus_1)
  then show ?thesis by (simp only: unsigned_take_bit_eq) (simp only: take_bit_eq_mod)
qed

lemma digits2: "(a :: nat) = a div (L * L) * (L * L) + (a div L mod L) * L + a mod L"
proof -
  have "a = a div L * L + a mod L" by simp
  also have "a div L = a div L div L * L + a div L mod L" by simp
  also have "a div L div L = a div (L * L)" by (simp add: div_mult2_eq)
  finally show ?thesis by (simp add: algebra_simps)
qed

lemma sqrt_table_start:
  fixes a :: limb
  assumes "2 ^ 62 \<le> unat a"
  shows "\<exists>s1. rd sqrt_table (unat (drop_bit 56 a - 64)) = Some s1 \<and> 128 \<le> unat s1 \<and> unat s1 < 256 \<and>
     unat s1 * unat s1 \<le> unat a div 2 ^ 48 \<and> unat a div 2 ^ 48 < (unat s1 + 2) * (unat s1 + 2)"
proof -
  define h where "h = unat a div 2 ^ 56"
  have h: "64 \<le> h" "h < 256" using assms limb_less [of a] by (simp_all add: h_def)
  have i: "unat (drop_bit 56 a - 64) = h - 64"
    using h by (subst unat_sub_small) (simp_all only: unat_drop_div h_def [symmetric], simp_all)
  define s1 where "s1 = sqrt_table ! (h - 64)"
  have "length sqrt_table = 192" by (simp add: sqrt_table_def)
  then have rd: "rd sqrt_table (unat (drop_bit 56 a - 64)) = Some s1" using h by (simp add: i rd_def s1_def)
  have "sqrt_table_ok (h - 64)" using sqrt_table_all_ok h by (simp add: list_all_iff)
  then have ok: "uint s1 * uint s1 \<le> int (h * 256)" "int (h * 256 + 255) < (uint s1 + 2) * (uint s1 + 2)" "128 \<le> uint s1" "uint s1 < 256"
    using h by (simp_all add: sqrt_table_ok_def Let_def s1_def of_nat_diff)
  have u: "uint s1 = int (unat s1)" by (simp only: of_nat_unat)
  have "int (unat s1 * unat s1) \<le> int (h * 256)" "int (h * 256 + 255) < int ((unat s1 + 2) * (unat s1 + 2))"
      "int 128 \<le> int (unat s1)" "int (unat s1) < int 256"
    using ok unfolding u by (simp_all add: algebra_simps)
  then have nat: "unat s1 * unat s1 \<le> h * 256" "h * 256 + 255 < (unat s1 + 2) * (unat s1 + 2)" "128 \<le> unat s1" "unat s1 < 256"
    by (simp_all only: of_nat_le_iff of_nat_less_iff)
  have "unat a div 2 ^ 48 div 256 = h" by (simp add: h_def flip: div_mult2_eq)
  then have "h * 256 \<le> unat a div 2 ^ 48" "unat a div 2 ^ 48 \<le> h * 256 + 255" by auto
  then show ?thesis using rd nat by (intro exI [of _ s1]) auto
qed

lemma mp_sqrtrem1_correct:
  assumes "2 ^ 62 \<le> unat a"
  shows "\<exists>s r. mp_sqrtrem1 a = Some (s, r) \<and> is_sqrtrem (unat a) (unat s) (unat r) \<and> 2 ^ 31 \<le> unat s \<and> unat s < 2 ^ 32"
proof -
  let ?A = "unat a"
  obtain s1 where s1: "rd sqrt_table (unat (drop_bit 56 a - 64)) = Some s1" "128 \<le> unat s1" "unat s1 < 256"
      "unat s1 * unat s1 \<le> ?A div 2 ^ 48" "?A div 2 ^ 48 < (unat s1 + 2) * (unat s1 + 2)"
    using sqrt_table_start [OF assms] by blast
  define r1 where "r1 = drop_bit 48 a - s1 * s1"
  obtain s2 r2 where sr2: "(if r1 > 2 * s1 then (s1 + 1, r1 - (2 * s1 + 1)) else (s1, r1)) = (s2, r2)" by (rule prod.exhaust)
  obtain s3 r3 where sr3: "sqrtrem_iter 8 s2 r2 (drop_bit 40 a AND 0xff) (drop_bit 32 a AND 0xff) = (s3, r3)" by (rule prod.exhaust)
  obtain s r where sr: "sqrtrem_iter 16 s3 r3 (drop_bit 16 a AND 0xffff) (drop_bit 0 a AND 0xffff) = (s, r)" by (rule prod.exhaust)
  have res: "mp_sqrtrem1 a = Some (s, r)"
    by (simp only: mp_sqrtrem1_def s1(1) Option.bind.simps Let_def r1_def [symmetric] sr2 prod.case sr3 sr)
  have b: "unat s1 * unat s1 \<le> 256 * 256" using s1(3) by (intro mult_le_mono) simp_all
  have u1: "unat (2 * s1) = 2 * unat s1" "unat (s1 * s1) = unat s1 * unat s1" "unat (s1 + 1) = unat s1 + 1" "unat (2 * s1 + 1) = 2 * unat s1 + 1"
    using s1(3) b unat_mult_bound [of 2 s1] unat_mult_bound [of s1 s1] unat_add_bound [of s1 1] unat_add_bound [of "2 * s1" 1] by simp_all
  have ur1: "unat r1 = ?A div 2 ^ 48 - unat s1 * unat s1"
    unfolding r1_def using s1(4) by (subst unat_sub_small) (simp_all only: unat_drop_div u1)
  have i1: "is_sqrtrem (?A div 2 ^ 48) (unat s2) (unat r2)"
  proof (cases "r1 > 2 * s1")
    case True
    then have g: "2 * unat s1 + 1 \<le> unat r1" by (simp add: word_less_nat_alt u1)
    then have "unat r2 = unat r1 - (2 * unat s1 + 1)" "unat s2 = unat s1 + 1"
      using True sr2 unat_sub_small [of "2 * s1 + 1" r1] by (auto simp: u1)
    then show ?thesis using s1(4,5) g by (simp add: is_sqrtrem_def ur1)
  next
    case False
    then have "s2 = s1" "r2 = r1" "unat r1 \<le> 2 * unat s1" using sr2 by (simp_all add: word_less_nat_alt u1)
    then show ?thesis using s1(4) by (simp add: is_sqrtrem_def ur1)
  qed
  note m8 = unat_limb_and_mask [where k = 8, simplified] and m16 = unat_limb_and_mask [where k = 16, simplified]
  have s2b: "128 \<le> unat s2" "unat s2 < 256"
    using is_sqrtrem_ge [OF i1, of 128] is_sqrtrem_less [OF i1, of 256] assms limb_less [of a] by simp_all
  have "is_sqrtrem ((unat s2 * unat s2 + unat r2) * (2 ^ 8 * 2 ^ 8) + unat (drop_bit 40 a AND 0xff) * 2 ^ 8 + unat (drop_bit 32 a AND 0xff)) (unat s3) (unat r3)"
    using s2b i1 by (intro sqrtrem_iter_correct sr3) (simp_all add: m8 is_sqrtrem_def)
  moreover have "?A div 2 ^ 32 = (unat s2 * unat s2 + unat r2) * (2 ^ 8 * 2 ^ 8) + unat (drop_bit 40 a AND 0xff) * 2 ^ 8 + unat (drop_bit 32 a AND 0xff)"
    using digits2 [of "?A div 2 ^ 32" "2 ^ 8"] i1
    by (simp add: m8 unat_drop_div is_sqrtrem_def flip: div_mult2_eq)
  ultimately have i2: "is_sqrtrem (?A div 2 ^ 32) (unat s3) (unat r3)" by simp
  have s3b: "32768 \<le> unat s3" "unat s3 < 65536"
    using is_sqrtrem_ge [OF i2, of 32768] is_sqrtrem_less [OF i2, of 65536] assms limb_less [of a] by simp_all
  have "is_sqrtrem ((unat s3 * unat s3 + unat r3) * (2 ^ 16 * 2 ^ 16) + unat (drop_bit 16 a AND 0xffff) * 2 ^ 16 + unat (drop_bit 0 a AND 0xffff)) (unat s) (unat r)"
    using s3b i2 by (intro sqrtrem_iter_correct sr) (simp_all add: m16 is_sqrtrem_def)
  moreover have "?A = (unat s3 * unat s3 + unat r3) * (2 ^ 16 * 2 ^ 16) + unat (drop_bit 16 a AND 0xffff) * 2 ^ 16 + unat (drop_bit 0 a AND 0xffff)"
    using digits2 [of ?A "2 ^ 16"] i2 by (simp add: m16 unat_drop_div is_sqrtrem_def)
  ultimately have i3: "is_sqrtrem ?A (unat s) (unat r)" by simp
  have "2 ^ 31 \<le> unat s" "unat s < 2 ^ 32"
    using is_sqrtrem_ge [OF i3, of "2 ^ 31"] is_sqrtrem_less [OF i3, of "2 ^ 32"] assms limb_less [of a] by simp_all
  then show ?thesis using res i3 by blast
qed

lemma leading_zeros:
  fixes a :: nat
  assumes "0 < a" and "a < 2 ^ n"
  defines "c \<equiv> length (takeWhile (\<lambda>i. \<not> bit a i) (rev [0..<n]))"
  shows "c < n \<and> 2 ^ n \<le> 2 * a * 2 ^ c \<and> a * 2 ^ c < 2 ^ n"
  using assms(2) unfolding c_def
proof (induction n)
  case 0
  then show ?case using assms(1) by simp
next
  case (Suc n)
  have b: "bit a n \<longleftrightarrow> 2 ^ n \<le> a"
  proof -
    have "a div 2 ^ n = (if 2 ^ n \<le> a then 1 else 0)"
      using Suc.prems by (auto intro: div_nat_eqI)
    then show ?thesis by (simp add: bit_iff_odd)
  qed
  show ?case
  proof (cases "bit a n")
    case True
    then show ?thesis using b Suc.prems by simp
  next
    case False
    then have "a < 2 ^ n" using b by simp
    from Suc.IH [OF this] show ?thesis using False by simp
  qed
qed

lemma clz64_value:
  assumes "a \<noteq> (0 :: limb)"
  shows "\<exists>c. clz64 a = Some c \<and> c < 64 \<and> 2 ^ 63 \<le> unat a * 2 ^ c \<and> unat a * 2 ^ c < 2 ^ 64"
proof -
  have "takeWhile (\<lambda>i. \<not> bit a i) (rev [0..<64]) = takeWhile (\<lambda>i. \<not> bit (unat a) i) (rev [0..<64])"
    by (rule takeWhile_cong) (auto simp: bit_unsigned_iff)
  moreover have "0 < unat a" using assms by (simp add: unat_gt_0)
  ultimately show ?thesis
    using leading_zeros [of "unat a" 64] assms limb_less [of a] by (simp add: clz64_def)
qed

lemma isqrt_shift:
  assumes "is_sqrtrem (a * (K * K)) s r" and "0 < K"
  shows "(s div K) * (s div K) \<le> a" and "a < (s div K + 1) * (s div K + 1)"
proof -
  let ?t = "s div K"
  have "(?t * ?t) * (K * K) = (?t * K) * (?t * K)" by (simp add: algebra_simps)
  also have "\<dots> \<le> s * s" by (intro mult_le_mono div_times_less_eq_dividend)
  also have "\<dots> \<le> a * (K * K)" using assms(1) by (simp add: is_sqrtrem_def)
  finally show "?t * ?t \<le> a" using assms(2) by simp
  have "s < (?t + 1) * K" using dividend_less_times_div [OF assms(2), of s] by (simp add: algebra_simps)
  then have le: "(s + 1) * (s + 1) \<le> ((?t + 1) * K) * ((?t + 1) * K)" by (intro mult_le_mono) simp_all
  have "a * (K * K) < (s + 1) * (s + 1)" using assms(1) by (simp only: is_sqrtrem_floor)
  also note le
  also have "((?t + 1) * K) * ((?t + 1) * K) = ((?t + 1) * (?t + 1)) * (K * K)" by (simp only: ac_simps)
  finally have "a * (K * K) < ((?t + 1) * (?t + 1)) * (K * K)" .
  then show "a < (?t + 1) * (?t + 1)" by (simp only: mult_less_cancel2)
qed

lemma bf_isqrt_correct:
  "\<exists>s. bf_isqrt a = Some s \<and> unat s * unat s \<le> unat a \<and> unat a < (unat s + 1) * (unat s + 1)"
proof (cases "a = 0")
  case True
  then show ?thesis by (simp add: bf_isqrt_def)
next
  case False
  obtain c where c: "clz64 a = Some c" "c < 64" "2 ^ 63 \<le> unat a * 2 ^ c" "unat a * 2 ^ c < 2 ^ 64"
    using clz64_value [OF False] by blast
  define j where "j = c div 2"
  have k: "c - c mod 2 = 2 * j" "c - c mod 2 = j + j" "c = 2 * j \<or> c = 2 * j + 1" unfolding j_def by presburger+
  let ?K = "2 ^ j :: nat"
  have sq: "unat a * 2 ^ (2 * j) = unat a * (?K * ?K)" by (simp add: power_add mult_2)
  have hi: "unat a * 2 ^ (2 * j) < 2 ^ 64" "2 ^ 62 \<le> unat a * 2 ^ (2 * j)" using c(3,4) k(3) by auto
  have p: "unat (push_bit (2 * j) a) = unat a * (?K * ?K)"
    using unat_push_or [of a "2 * j" 0] hi by (simp add: sq)
  then obtain s r where s: "mp_sqrtrem1 (push_bit (2 * j) a) = Some (s, r)" "is_sqrtrem (unat a * (?K * ?K)) (unat s) (unat r)"
    using mp_sqrtrem1_correct [of "push_bit (2 * j) a"] hi(2) sq by auto
  have "bf_isqrt a = Some (drop_bit j s)"
    using False c(1) s(1) by (simp add: bf_isqrt_def limb_clz_def k(1) Let_def)
  then show ?thesis
    using isqrt_shift [OF s(2)] by (simp add: unat_drop_div)
qed

section \<open>The root of two limbs\<close>

lemma dlimb_negative: "(ucast (drop_bit 64 (r :: dlimb)) :: limb) <s 0 \<longleftrightarrow> 2 ^ 127 \<le> unat r"
  unfolding limb_negative unat_high by (auto simp: less_eq_div_iff_mult_less_eq)

lemma mp_sqrtrem2_correct:
  assumes mem: "taba + 2 \<le> length m" "tabs < length m" and norm: "2 ^ 62 \<le> unat (m ! (taba + 1))"
  shows "\<exists>rh s r0. mp_sqrtrem2 m tabs taba = Some (rh, m[tabs := s, taba := r0]) \<and>
     is_sqrtrem (lval m taba 2) (unat s) (unat rh * limb_base + unat r0)"
proof -
  define a0 a1 where a: "a0 = m ! taba" "a1 = m ! (taba + 1)"
  obtain s1 r1 where s1: "mp_sqrtrem1 a1 = Some (s1, r1)" "is_sqrtrem (unat a1) (unat s1) (unat r1)" "2 ^ 31 \<le> unat s1" "unat s1 < 2 ^ 32"
    using mp_sqrtrem1_correct [of a1] norm by (auto simp: a)
  define L S :: nat where LS: "L = 2 ^ 32" "S = unat s1"
  define N where "N = unat r1 * L + unat a0 div L"
  define Q U where QU: "Q = N div (2 * S)" "U = N mod (2 * S)"
  have SL: "0 < L" "L \<le> 2 * S" "S < L" "unat r1 \<le> 2 * S" "unat a0 div L < L" "unat a0 mod L < L"
    using s1 limb_less [of a0] by (simp_all add: LS is_sqrtrem_def)
  note st = sqrt_step_nat [OF SL(1,2,4,5,6), folded N_def, folded QU]
  define T where "T = S * L + Q"
  note st = st [folded T_def]
  have A: "(S * S + unat r1) * (L * L) + unat a0 div L * L + unat a0 mod L = lval m taba 2"
  proof -
    have "lval m taba 2 = unat a0 + unat a1 * limb_base" unfolding numeral_2_eq_2 a by simp
    moreover have "unat a0 = unat a0 div L * L + unat a0 mod L" by simp
    moreover have "S * S + unat r1 = unat a1" "L * L = limb_base" using s1(2) by (simp_all add: LS is_sqrtrem_def)
    ultimately show ?thesis by simp
  qed
  have bounds: "unat r1 * L \<le> 8589934592 * 4294967296" "U * L \<le> 8589934592 * 4294967296" "Q * Q \<le> 4294967296 * 4294967296" "T \<le> limb_base"
  proof -
    show "unat r1 * L \<le> 8589934592 * 4294967296" "U * L \<le> 8589934592 * 4294967296" "Q * Q \<le> 4294967296 * 4294967296"
      using SL st(1,2) by (intro mult_le_mono; simp add: LS)+
    have "S * L + Q \<le> (L - 1) * L + L" using SL st(1) by (intro add_le_mono mult_le_mono1) simp_all
    then show "T \<le> limb_base" by (simp add: T_def LS)
  qed
  define num where "num = push_bit 32 (ucast r1 :: dlimb) OR ucast (drop_bit 32 a0)"
  define q u :: limb where qu: "q = ucast (num div ucast (2 * s1))" "u = ucast (num mod ucast (2 * s1))"
  have "unat num = N"
    unfolding num_def N_def using bounds SL unat_push_or [of "ucast r1 :: dlimb" 32 "ucast (drop_bit 32 a0)"]
    by (simp add: unat_drop_div LS)
  moreover have "unat (2 * s1) = 2 * S" using SL unat_mult_bound [of 2 s1] by (simp add: LS)
  ultimately have "unat q = Q mod limb_base" "unat u = U mod limb_base"
    unfolding qu unat_low unat_div_distrib unat_mod_distrib unat_dlimb QU by simp_all
  moreover have "Q < limb_base" "U < limb_base" using st(1,2) SL(3) by (simp_all add: LS)
  ultimately have q: "unat q = Q" "unat u = U" by simp_all
  define C :: dlimb where "C = push_bit 32 (ucast u) OR ucast (a0 AND (push_bit 32 1 - 1))"
  have C: "unat C = U * L + unat a0 mod L"
    unfolding C_def using bounds SL unat_push_or [of "ucast u :: dlimb" 32 "ucast (a0 AND (push_bit 32 1 - 1))"]
    by (simp add: LS q unat_limb_and_mask [where k = 32, simplified])
  define q2 :: dlimb where "q2 = (if drop_bit 32 q \<noteq> 0 then push_bit 64 1 else ucast (q * q))"
  have q2: "unat q2 = Q * Q"
  proof (cases "Q = L")
    case True
    then have "unat (drop_bit 32 q) = 1" by (simp add: unat_drop_div q LS)
    then have "drop_bit 32 q \<noteq> 0" by (metis unat_0 zero_neq_one)
    then show ?thesis using True by (simp add: q2_def LS)
  next
    case False
    then have Q: "Q < 4294967296" using st(1) by (simp add: LS)
    then have "unat (drop_bit 32 q) = 0" by (simp add: unat_drop_div q)
    moreover have "Q * Q \<le> 4294967295 * 4294967295" using Q by (intro mult_le_mono) simp_all
    then have "unat (q * q) = Q * Q" using unat_mult_bound [of q q] by (simp add: q)
    ultimately show ?thesis by (simp add: q2_def unat_eq_zero)
  qed
  define s :: limb where "s = push_bit 32 s1 + q"
  have body: "mp_sqrtrem2 m tabs taba = (let (s, r) = (if (ucast (drop_bit 64 (C - q2)) :: limb) <s 0
       then (s - 1, C - q2 + (2 * ucast (s - 1) + 1)) else (s, C - q2))
     in Some (ucast (drop_bit 64 r), m[tabs := s, taba := ucast r]))"
    using mem s1(1)
    by (simp add: mp_sqrtrem2_def mem_simps a Let_def s_def C_def q2_def qu num_def)
  have ps: "unat (push_bit 32 s1) = S * L"
    using unat_push_or [of s1 32 0] s1(4) by (simp add: LS)
  have us: "unat s = T" if "T < limb_base"
    using that unat_add_small [of "push_bit 32 s1" q] by (simp add: s_def T_def q ps)
  show ?thesis
  proof (cases "Q * Q \<le> U * L + unat a0 mod L")
    case True
    note r = st(3) [OF True, unfolded A]
    have ur: "unat (C - q2) = U * L + unat a0 mod L - Q * Q" using True by (subst unat_sub_small) (simp_all add: C q2)
    then have "\<not> (ucast (drop_bit 64 (C - q2)) :: limb) <s 0"
      unfolding dlimb_negative using bounds SL by (simp add: LS)
    moreover have "T < limb_base"
      using is_sqrtrem_less [OF r, of limb_base] mp_val_limb_bound [of m taba 2] by (simp add: power2_eq_square)
    ultimately show ?thesis
      unfolding body using r us low_high [of "C - q2"] ur
      by (intro exI [of _ "ucast (drop_bit 64 (C - q2))"] exI [of _ s] exI [of _ "ucast (C - q2)"]) (simp add: add.commute)
  next
    case False
    then have lt: "U * L + unat a0 mod L < Q * Q" by simp
    define y where "y = Q * Q - (U * L + unat a0 mod L)"
    note r = st(4) [OF lt, unfolded A, folded y_def]
    have y: "y \<le> limb_base" using bounds(3) by (simp add: y_def)
    have T: "1 \<le> T" using r by (cases "T = 0") simp_all
    have ur: "unat (C - q2) = 2 ^ 128 - y" using lt by (subst unat_sub_neg) (simp_all add: C q2 y_def)
    then have neg: "(ucast (drop_bit 64 (C - q2)) :: limb) <s 0"
      unfolding dlimb_negative using y by simp
    have us1: "unat (s - 1) = T - 1"
    proof (cases "T < limb_base")
      case True
      then show ?thesis using us T by (subst unat_sub_small) simp_all
    next
      case False
      then have TB: "T = limb_base" using bounds(4) by simp
      then have "unat s = 0" using unat_add_wrap [of "push_bit 32 s1" q] by (simp add: s_def T_def q ps)
      then have "s - 1 = - 1" by (simp add: unat_eq_zero)
      then show ?thesis using TB by (simp add: unsigned_minus_1_eq_mask mask_eq_exp_minus_1)
    qed
    have two: "unat (2 * ucast (s - 1) + 1 :: dlimb) = 2 * (T - 1) + 1"
      using unat_mul_add [of 2 "s - 1" 1] us1 by simp
    have "2 ^ 128 \<le> 2 ^ 128 - y + (2 * (t - 1) + 1)" if "y + 1 \<le> 2 * t" "1 \<le> t" for t :: nat using that y by simp
    then have w: "2 ^ LENGTH(128) \<le> unat (C - q2) + unat (2 * ucast (s - 1) + 1 :: dlimb)"
      unfolding ur two using r T by simp
    have v: "unat (C - q2 + (2 * ucast (s - 1) + 1)) = 2 * T - 1 - y"
      unfolding unat_add_wrap_word [OF w] unfolding ur two using y T by simp
    show ?thesis
      unfolding body using neg r us1 low_high [of "C - q2 + (2 * ucast (s - 1) + 1)"] v
      by (intro exI [of _ "ucast (drop_bit 64 (C - q2 + (2 * ucast (s - 1) + 1)))"] exI [of _ "s - 1"]
          exI [of _ "ucast (C - q2 + (2 * ucast (s - 1) + 1))"]) (simp add: add.commute)
  qed
qed

end
