(* ===== verification/MpDec.thy ===== *)
theory MpDec
  imports MpSqrt
begin

text \<open>
  Decimal limbs of \<^verbatim>\<open>libbf.c\<close>: a limb holds 19 decimal digits, the base is \<open>10\<^sup>1\<^sup>9\<close>.  Division by
  the base and by powers of ten is done by multiplication with precomputed inverses
  (\<^verbatim>\<open>divdq_base\<close>, \<^verbatim>\<open>fast_udiv\<close>); the lemmas show that the results are exact.
\<close>

abbreviation dec_base :: nat where
  "dec_base \<equiv> 10000000000000000000"

definition BF_DEC_BASE :: limb where
  "BF_DEC_BASE = 10000000000000000000"

section \<open>Double limbs and division by the base\<close>

definition adddq :: "limb \<times> limb \<Rightarrow> limb \<Rightarrow> limb \<Rightarrow> limb \<times> limb" where
  "adddq r a1 a0 = (case r of (r1, r0) \<Rightarrow>
     let t = r0; r0 = r0 + a0; r1 = r1 + (a1 + bool_limb (r0 < t)) in (r1, r0))"

definition subdq :: "limb \<times> limb \<Rightarrow> limb \<Rightarrow> limb \<Rightarrow> limb \<times> limb" where
  "subdq r a1 a0 = (case r of (r1, r0) \<Rightarrow>
     let t = r0; r0 = r0 - a0; r1 = r1 - (a1 + bool_limb (r0 > t)) in (r1, r0))"

definition muldq :: "limb \<Rightarrow> limb \<Rightarrow> limb \<times> limb" where
  "muldq a b = (let t = (ucast a :: dlimb) * ucast b in (ucast (drop_bit 64 t), ucast t))"

definition divdq :: "limb \<Rightarrow> limb \<Rightarrow> limb \<Rightarrow> limb \<times> limb" where
  "divdq a1 a0 b =
     (let t = push_bit 64 (ucast a1 :: dlimb) OR ucast a0
      in (ucast (t div ucast b), ucast (t mod ucast b)))"

definition shld :: "limb \<Rightarrow> limb \<Rightarrow> nat \<Rightarrow> limb" where
  "shld a1 a0 shift = (if shift \<noteq> 0 then push_bit shift a1 OR drop_bit (64 - shift) a0 else a1)"

definition divdq_base :: "limb \<Rightarrow> limb \<Rightarrow> limb \<times> limb" where
  "divdq_base a1 a0 =
     (let b = BF_DEC_BASE;
          t0 = shld a1 a0 1;
          (q, _) = muldq t0 17014118346046923173;
          (t1, t0) = muldq q b;
          (a1, a0) = subdq (a1, a0) t1 t0;
          (a1, a0) = subdq (a1, a0) 1 (b * 2);
          t0 = signed_drop_bit 1 a1;
          q = q + (2 + t0);
          (a1, a0) = adddq (a1, a0) 0 (b AND t0);
          q = q + a1;
          a0 = a0 + (b AND a1);
          r = a0
      in (q, r))"

section \<open>Division by a constant\<close>

record fast_div_data =
  m1 :: limb
  shift1 :: nat
  shift2 :: nat

text \<open>\<^verbatim>\<open>(limb_t)1 << l\<close> is undefined when \<open>l\<close> is 64.\<close>

definition fast_udiv_init :: "limb \<Rightarrow> fast_div_data option" where
  "fast_udiv_init d =
     do { l \<leftarrow> (if d = 1 then Some 0 else do { c \<leftarrow> clz64 (d - 1); Some (64 - c) });
          c_assert (l < 64);
          c_assert (d \<noteq> 0);
          let (q, r) = divdq (push_bit l 1 - d) 0 d;
          Some \<lparr>m1 = q + 1, shift1 = (if l > 1 then 1 else l), shift2 = l - 1\<rparr> }"

definition fast_udiv :: "limb \<Rightarrow> fast_div_data \<Rightarrow> limb" where
  "fast_udiv a s =
     (let (t1, t0) = muldq (m1 s) a;
          t0 = drop_bit (shift1 s) (a - t1)
      in drop_bit (shift2 s) (t1 + t0))"

definition mp_pow_dec :: "limb list" where
  "mp_pow_dec = [1, 10, 100, 1000, 10000, 100000, 1000000, 10000000, 100000000, 1000000000,
     10000000000, 100000000000, 1000000000000, 10000000000000, 100000000000000, 1000000000000000,
     10000000000000000, 100000000000000000, 1000000000000000000, 10000000000000000000]"

definition mp_pow_div :: "fast_div_data list" where
  "mp_pow_div =
     map (\<lambda>(a, b, c). \<lparr>m1 = a, shift1 = b, shift2 = c\<rparr>)
     [(0x0000000000000001, 0, 0), (0x999999999999999a, 1, 3), (0x47ae147ae147ae15, 1, 6),
      (0x0624dd2f1a9fbe77, 1, 9), (0xa36e2eb1c432ca58, 1, 13), (0x4f8b588e368f0847, 1, 16),
      (0x0c6f7a0b5ed8d36c, 1, 19), (0xad7f29abcaf48579, 1, 23), (0x5798ee2308c39dfa, 1, 26),
      (0x12e0be826d694b2f, 1, 29), (0xb7cdfd9d7bdbab7e, 1, 33), (0x5fd7fe17964955fe, 1, 36),
      (0x19799812dea11198, 1, 39), (0xc25c268497681c27, 1, 43), (0x6849b86a12b9b01f, 1, 46),
      (0x203af9ee756159b3, 1, 49), (0xcd2b297d889bc2b7, 1, 53), (0x70ef54646d496893, 1, 56),
      (0x2725dd1d243aba0f, 1, 59), (0xd83c94fb6d2ac34d, 1, 63)]"

definition fast_shr_dec :: "limb \<Rightarrow> nat \<Rightarrow> limb option" where
  "fast_shr_dec a shift = do { d \<leftarrow> rd mp_pow_div shift; Some (fast_udiv a d) }"

definition fast_shr_rem_dec :: "limb \<Rightarrow> nat \<Rightarrow> (limb \<times> limb) option" where
  "fast_shr_rem_dec a shift =
     do { q \<leftarrow> fast_shr_dec a shift;
          p \<leftarrow> rd mp_pow_dec shift;
          Some (q, a - q * p) }"

section \<open>Double limbs as words of 128 bits\<close>

definition dq :: "limb \<times> limb \<Rightarrow> dlimb" where
  "dq p = ucast (fst p) * 2 ^ 64 + ucast (snd p)"

lemma unat_dq: "unat (dq (a1, a0)) = unat a1 * limb_base + unat a0"
proof -
  have "unat a1 * limb_base + unat a0 < 2 ^ 128"
    using limb_less [of a1] limb_less [of a0] by simp
  then show ?thesis by (simp add: dq_def unat_word_ariths)
qed

lemma dq_eqD: "dq (a1, a0) = w \<Longrightarrow> a1 = ucast (drop_bit 64 w) \<and> a0 = ucast w"
proof -
  assume "dq (a1, a0) = w"
  then have w: "unat w = unat a1 * limb_base + unat a0" using unat_dq [of a1 a0] by simp
  have "unat (ucast (drop_bit 64 w) :: limb) = unat a1" "unat (ucast w :: limb) = unat a0"
    unfolding unat_high unfolding unat_low w using limb_less [of a0] by simp_all
  then show ?thesis by (simp add: word_unat_eq_iff)
qed

lemma mod_pair: "y < limb_base \<Longrightarrow> (x * limb_base + y) mod 2 ^ 128 = (x mod limb_base) * limb_base + y"
  using mod_mult2_eq [of "x * limb_base + y" limb_base limb_base] by (simp add: mult.commute)

lemma unat_limb_sum: "unat (x + (y + bool_limb c)) = (unat x + unat y + of_bool c) mod limb_base"
  unfolding unat_word_ariths unat_bool_limb by (simp add: mod_add_right_eq add.assoc)

lemma unat_dq_add: "unat (dq (r1, r0) + dq (a1, a0)) = (unat r1 * limb_base + unat r0 + (unat a1 * limb_base + unat a0)) mod 2 ^ 128"
  unfolding unat_word_ariths(1) unat_dq by simp

lemma dq_adddq: "dq (adddq r a1 a0) = dq r + dq (a1, a0)"
proof -
  obtain r1 r0 where r: "r = (r1, r0)" by (rule prod.exhaust)
  define c where "c = (r0 + a0 < r0)"
  have "unat (r0 + a0) + of_bool c * limb_base = unat r0 + unat a0" unfolding c_def by (rule unat_add_carry)
  then have e: "unat r1 * limb_base + unat r0 + (unat a1 * limb_base + unat a0)
      = (unat r1 + unat a1 + of_bool c) * limb_base + unat (r0 + a0)" by (simp add: algebra_simps)
  have "unat (dq r + dq (a1, a0)) = ((unat r1 + unat a1 + of_bool c) mod limb_base) * limb_base + unat (r0 + a0)"
    unfolding r unat_dq_add e by (rule mod_pair [OF limb_less])
  then show ?thesis
    unfolding word_unat_eq_iff by (simp add: adddq_def r Let_def unat_dq unat_limb_sum flip: c_def)
qed

lemma dq_subdq: "dq (subdq r a1 a0) = dq r - dq (a1, a0)"
proof -
  obtain r1 r0 where r: "r = (r1, r0)" by (rule prod.exhaust)
  define c where "c = (r0 < r0 - a0)"
  define s1 where "s1 = r1 - (a1 + bool_limb c)"
  have b: "unat (r0 - a0) + unat a0 = unat r0 + of_bool c * limb_base" unfolding c_def by (rule unat_sub_borrow)
  have "r1 = s1 + (a1 + bool_limb c)" by (simp add: s1_def)
  then have u1: "unat r1 = (unat s1 + unat a1 + of_bool c) mod limb_base" by (simp only: unat_limb_sum)
  have e: "unat s1 * limb_base + unat (r0 - a0) + (unat a1 * limb_base + unat a0)
      = (unat s1 + unat a1 + of_bool c) * limb_base + unat r0" using b by (simp add: algebra_simps)
  have "unat (dq (s1, r0 - a0) + dq (a1, a0)) = unat (dq r)"
    unfolding r unat_dq_add e unat_dq u1 by (rule mod_pair [OF limb_less])
  then have "dq (s1, r0 - a0) + dq (a1, a0) = dq r" by (simp only: word_unat_eq_iff)
  then show ?thesis by (simp add: subdq_def r Let_def s1_def c_def algebra_simps flip: c_def)
qed

lemma dq_muldq: "dq (muldq a b) = ucast a * ucast b"
  unfolding word_unat_eq_iff by (simp add: muldq_def Let_def unat_dq) (metis add.commute low_high)

section \<open>Division by the base\<close>

lemma base_estimate:
  fixes N x q :: nat
  assumes x: "x = N div 2 ^ 63" and "N < 2 ^ 127" and q: "q = x * 17014118346046923173 div limb_base"
  shows "q * dec_base \<le> N" and "N < q * dec_base + 3 * dec_base"
proof -
  have xN: "x * 9223372036854775808 \<le> N" "N < x * 9223372036854775808 + 9223372036854775808"
    using dividend_less_times_div [of "2 ^ 63" N] by (simp_all add: x)
  have xb: "x < limb_base" using assms(2) by (simp add: x less_mult_imp_div_less)
  have qx: "q * limb_base \<le> x * 17014118346046923173" "x * 17014118346046923173 < q * limb_base + limb_base"
    using dividend_less_times_div [of limb_base "x * 17014118346046923173"] by (simp_all add: q)
  show "q * dec_base \<le> N" using qx(1) xN(1) by simp
  show "N < q * dec_base + 3 * dec_base" using qx(2) xN(2) xb by simp
qed

lemma signed_drop_bit_1: "signed_drop_bit 1 (- 1 :: limb) = - 1" "signed_drop_bit 1 (- 2 :: limb) = - 1" "signed_drop_bit 1 (0 :: limb) = 0"
  by code_simp+

lemma dq_small:
  assumes "dq (a1, a0) = of_nat n" and "n < limb_base"
  shows "a1 = 0" and "unat a0 = n"
proof -
  have "unat (dq (a1, a0)) = n" unfolding assms(1) unat_of_nat using assms(2) by simp
  then have e: "unat a1 * limb_base + unat a0 = n" by (simp only: unat_dq)
  then have a1: "unat a1 = 0" using assms(2) by linarith
  then show "a1 = 0" by (simp only: unat_eq_zero)
  show "unat a0 = n" using e a1 by simp
qed

lemma dq_neg:
  assumes "dq (a1, a0) = - of_nat n" and "0 < n" and "n \<le> 2 * limb_base"
  shows "n \<le> limb_base \<Longrightarrow> a1 = - 1 \<and> unat a0 + n = limb_base" and "limb_base < n \<Longrightarrow> a1 = - 2"
proof -
  have n: "unat (of_nat n :: dlimb) = n" unfolding unat_of_nat using assms(3) by simp
  then have "(of_nat n :: dlimb) \<noteq> 0" using assms(2) by (metis less_irrefl unat_0)
  from unat_uminus [OF this] have "unat (dq (a1, a0)) = 2 ^ 128 - n" by (simp only: assms(1) n) simp
  then have "unat a1 * limb_base + unat a0 = 2 ^ 128 - n" by (simp only: unat_dq)
  then have e: "unat a1 * limb_base + unat a0 + n = 340282366920938463463374607431768211456" using assms(3) by simp
  have m: "unat (- 1 :: limb) = limb_base - 1" "unat (- 2 :: limb) = limb_base - 2"
    using unat_uminus [of "1 :: limb"] unat_uminus [of "2 :: limb"] by simp_all
  show "a1 = - 1 \<and> unat a0 + n = limb_base" if "n \<le> limb_base"
  proof -
    have "unat a1 = limb_base - 1" using e that assms(2) limb_less [of a0] by simp
    then show ?thesis using e m by (simp add: word_unat_eq_iff)
  qed
  show "a1 = - 2" if "limb_base < n"
  proof -
    have "unat a1 = limb_base - 2" using e that assms(3) limb_less [of a0] by simp
    then show ?thesis using m by (simp add: word_unat_eq_iff)
  qed
qed

lemma divdq_base_correct:
  assumes "unat a1 < 2 ^ 63" and "divdq_base a1 a0 = (q, r)"
  shows "unat q * dec_base + unat r = unat a1 * limb_base + unat a0 \<and> unat r < dec_base"
proof -
  define N where "N = unat a1 * limb_base + unat a0"
  obtain qe lo where mq: "muldq (shld a1 a0 1) 17014118346046923173 = (qe, lo)" by (rule prod.exhaust)
  have N: "N < 2 ^ 127" using assms(1) limb_less [of a0] by (simp add: N_def)
  have x: "unat (shld a1 a0 1) = N div 2 ^ 63"
  proof -
    have "unat (drop_bit 63 a0) < 2 ^ 1" using limb_less [of a0] by (simp add: unat_drop_div less_mult_imp_div_less)
    then have "unat (push_bit 1 a1 OR drop_bit 63 a0) = unat a1 * 2 ^ 1 + unat (drop_bit 63 a0)"
      using assms(1) by (intro unat_push_or) simp_all
    then show ?thesis by (simp add: shld_def unat_drop_div N_def)
  qed
  have qe: "unat qe = unat (shld a1 a0 1) * 17014118346046923173 div limb_base"
    using unat_high [of "(ucast (shld a1 a0 1) :: dlimb) * ucast (17014118346046923173 :: limb)"]
      unat_mul_add [of "shld a1 a0 1" 17014118346046923173 0]
    using mq by (simp add: muldq_def Let_def)
  note est = base_estimate [OF refl N qe [unfolded x]]
  define y where "y = N - unat qe * dec_base"
  have y: "N = unat qe * dec_base + y" "y < 3 * dec_base" using est by (simp_all add: y_def)
  obtain t1 t0 where t: "muldq qe BF_DEC_BASE = (t1, t0)" by (rule prod.exhaust)
  obtain b1 b0 where b: "subdq (a1, a0) t1 t0 = (b1, b0)" by (rule prod.exhaust)
  obtain c1 c0 where c: "subdq (b1, b0) 1 (BF_DEC_BASE * 2) = (c1, c0)" by (rule prod.exhaust)
  define u where "u = signed_drop_bit 1 c1"
  obtain d1 d0 where d: "adddq (c1, c0) 0 (BF_DEC_BASE AND u) = (d1, d0)" by (rule prod.exhaust)
  have "divdq_base a1 a0 = (qe + (2 + u) + d1, d0 + (BF_DEC_BASE AND d1))"
    by (simp only: divdq_base_def Let_def mq t b c prod.case d [unfolded u_def]) (simp only: u_def)
  then have qr: "q = qe + (2 + u) + d1" "r = d0 + (BF_DEC_BASE AND d1)" using assms(2) by simp_all
  have base: "unat BF_DEC_BASE = dec_base" "ucast BF_DEC_BASE = (of_nat dec_base :: dlimb)" by (simp_all add: BF_DEC_BASE_def)
  have "(ucast qe :: dlimb) = of_nat (unat qe)" by (simp add: of_nat_unat)
  then have "dq (t1, t0) = of_nat (unat qe * dec_base)"
    using dq_muldq [of qe BF_DEC_BASE] by (simp add: t base)
  moreover have "dq (a1, a0) = of_nat N" unfolding N_def unat_dq [symmetric] by (simp add: of_nat_unat)
  ultimately have "dq (b1, b0) = of_nat y" using dq_subdq [of "(a1, a0)" t1 t0] by (simp add: b y(1))
  moreover have "dq (1, BF_DEC_BASE * 2) = of_nat (2 * dec_base)" by (simp add: dq_def BF_DEC_BASE_def)
  ultimately have dc: "dq (c1, c0) = of_nat y - of_nat (2 * dec_base)"
    using dq_subdq [of "(b1, b0)" 1 "BF_DEC_BASE * 2"] by (simp only: c)
  have dd: "dq (d1, d0) = dq (c1, c0) + dq (0, BF_DEC_BASE AND u)" using dq_adddq [of "(c1, c0)" 0 "BF_DEC_BASE AND u"] by (simp only: d)
  have qB: "unat qe + 2 < limb_base"
  proof -
    have "unat qe * dec_base < 170141183460469231731687303715884105728" using y(1) N by simp
    then show ?thesis by simp
  qed
  have N': "unat a1 * limb_base + unat a0 = unat qe * dec_base + y" using y(1) by (simp only: N_def)
  show ?thesis
  proof (cases "2 * dec_base \<le> y")
    case True
    then have "dq (c1, c0) = of_nat (y - 2 * dec_base)" unfolding dc by (rule of_nat_diff [symmetric])
    from dq_small [OF this] y(2) have c': "c1 = 0" "unat c0 = y - 2 * dec_base" by simp_all
    then have u: "u = 0" by (simp add: u_def signed_drop_bit_1)
    have "dq (d1, d0) = of_nat (y - 2 * dec_base)" using dd True dc by (simp add: u dq_def of_nat_diff)
    from dq_small [OF this] y(2) have d': "d1 = 0" "unat d0 = y - 2 * dec_base" by simp_all
    have "unat q = unat qe + 2" using unat_add_small [of qe 2] qB by (simp add: qr u d')
    then show ?thesis unfolding N' using d' True y(2) by (simp add: qr)
  next
    case False
    then have "dq (c1, c0) = - of_nat (2 * dec_base - y)" unfolding dc by (simp add: of_nat_diff)
    note ng = dq_neg [OF this]
    have u: "u = - 1" using ng False by (cases "2 * dec_base - y \<le> limb_base") (simp_all add: u_def signed_drop_bit_1)
    have dd': "dq (d1, d0) = of_nat y - of_nat dec_base" unfolding dd dc u by (simp add: dq_def base)
    show ?thesis
    proof (cases "dec_base \<le> y")
      case True
      then have "dq (d1, d0) = of_nat (y - dec_base)" unfolding dd' by (rule of_nat_diff [symmetric])
      from dq_small [OF this] False have d': "d1 = 0" "unat d0 = y - dec_base" by simp_all
      have "unat q = unat qe + 1" using unat_add_small [of qe 1] qB by (simp add: qr u d')
      then show ?thesis unfolding N' using d' True False by (simp add: qr)
    next
      case lt: False
      then have "dq (d1, d0) = - of_nat (dec_base - y)" unfolding dd' by (simp add: of_nat_diff)
      note ng = dq_neg [OF this]
      have d': "d1 = - 1" "unat d0 + (dec_base - y) = limb_base" using ng lt by simp_all
      have "unat (d0 + BF_DEC_BASE) = y" using unat_add_wrap [of d0 BF_DEC_BASE] d'(2) lt base by simp
      then have "unat r = y" by (simp add: qr d')
      moreover have "unat q = unat qe" by (simp add: qr u d')
      ultimately show ?thesis unfolding N' using lt by simp
    qed
  qed
qed

section \<open>Division by a constant\<close>

lemma invariant_division:
  fixes a D P m1 :: nat
  assumes a: "a < limb_base" and D: "0 < D" "D \<le> P" and m1: "m1 = limb_base * (P - D) div D + 1"
  shows "(a + m1 * a div limb_base) div P = a div D"
proof -
  define B where "B = limb_base"
  define e where "e = m1 * D - B * (P - D)"
  have "B * (P - D) < m1 * D" "m1 * D \<le> B * (P - D) + D"
    using dividend_less_times_div [OF D(1), of "B * (P - D)"] by (simp_all add: m1 B_def algebra_simps)
  then have e: "m1 * D = B * (P - D) + e" "e \<le> D" by (simp_all add: e_def)
  have "(m1 + B) * D = B * (P - D) + B * D + e" by (simp add: e(1) distrib_right)
  then have M: "(m1 + B) * D = B * P + e" using D(2) by (simp flip: distrib_left)
  define k where "k = a div D"
  have k: "k * D \<le> a" "a < k * D + D" using dividend_less_times_div [OF D(1), of a] by (simp_all add: k_def mult.commute add.commute)
  have "k * (B * P) \<le> k * ((m1 + B) * D)" unfolding M by simp
  also have "\<dots> = (m1 + B) * (k * D)" by (simp add: ac_simps)
  also have "\<dots> \<le> (m1 + B) * a" using k(1) by (rule mult_le_mono2)
  finally have lo: "k * (B * P) \<le> (m1 + B) * a" .
  have "a * e \<le> a * P" using e(2) D(2) by simp
  also have "\<dots> < B * P" using a D by (simp add: B_def)
  finally have ae: "a * e < B * P" .
  have "(m1 + B) * a * D = a * ((m1 + B) * D)" by (simp add: ac_simps)
  also have "\<dots> = a * (B * P) + a * e" unfolding M by (simp add: distrib_left)
  also have "\<dots> < Suc a * (B * P)" using ae by simp
  also have "\<dots> \<le> (k * D + D) * (B * P)" using k(2) by (intro mult_le_mono1) simp
  also have "\<dots> = (k + 1) * (B * P) * D" by (simp add: algebra_simps)
  finally have hi: "(m1 + B) * a < (k + 1) * (B * P)" by (simp only: mult_less_cancel2)
  have "(m1 + B) * a div (B * P) = k"
    using lo hi by (intro div_nat_eqI) (simp_all add: mult.commute)
  moreover have "(m1 + B) * a div B = a + m1 * a div B" by (simp add: distrib_right B_def)
  ultimately show ?thesis by (simp add: div_mult2_eq B_def k_def)
qed

lemma fast_udiv_value:
  assumes s: "shift1 s = min l 1" "shift2 s = l - 1" "l = 0 \<Longrightarrow> m1 s = 1"
  shows "unat (fast_udiv a s) = (unat a + unat (m1 s) * unat a div limb_base) div 2 ^ l"
proof -
  define t1 where "t1 = fst (muldq (m1 s) a)"
  have t1: "unat t1 = unat (m1 s) * unat a div limb_base"
    using unat_high [of "(ucast (m1 s) :: dlimb) * ucast a"] unat_mul_add [of "m1 s" a 0]
    by (simp add: t1_def muldq_def Let_def)
  have "unat (m1 s) * unat a \<le> limb_base * unat a" using limb_less [of "m1 s"] by (intro mult_le_mono1) simp
  then have le: "unat t1 \<le> unat a" unfolding t1 using div_le_mono [of "unat (m1 s) * unat a" "limb_base * unat a" limb_base] by simp
  have sub: "unat (drop_bit (shift1 s) (a - t1)) = (unat a - unat t1) div 2 ^ shift1 s"
    using le by (simp only: unat_drop_div unat_sub_small)
  have f: "fast_udiv a s = drop_bit (shift2 s) (t1 + drop_bit (shift1 s) (a - t1))"
    by (simp add: fast_udiv_def t1_def case_prod_beta Let_def)
  show ?thesis
  proof (cases l)
    case 0
    then have "unat t1 = 0" using t1 limb_less [of a] s(3) by simp
    then show ?thesis using f s 0 t1 by (simp add: unat_eq_zero)
  next
    case (Suc j)
    then have s': "shift1 s = 1" "shift2 s = j" using s by simp_all
    have "unat t1 + (unat a - unat t1) div 2 \<le> unat a" using le by simp
    then have "unat (t1 + drop_bit (shift1 s) (a - t1)) = unat t1 + (unat a - unat t1) div 2"
      using sub s' limb_less [of a] by (subst unat_add_bound) simp_all
    also have "\<dots> = (unat a + unat t1) div 2" using le by presburger
    finally show ?thesis unfolding t1 [symmetric] by (simp add: f s' Suc unat_drop_div div_mult2_eq)
  qed
qed

text \<open>\<^verbatim>\<open>fast_udiv_init\<close> computes data for every divisor up to \<open>2\<^sup>6\<^sup>3\<close>.\<close>

lemma fast_udiv_init_correct:
  assumes "0 < unat d" and "unat d \<le> 2 ^ 63"
  shows "\<exists>s. fast_udiv_init d = Some s \<and> (\<forall>a. unat (fast_udiv a s) = unat a div unat d)"
proof -
  have d0: "d \<noteq> 0" using assms(1) by auto
  obtain l where l: "(if d = 1 then Some 0 else do { c \<leftarrow> clz64 (d - 1); Some (64 - c) }) = Some l"
      "l < 64" "unat d \<le> 2 ^ l" "2 ^ l < 2 * unat d" "l = 0 \<Longrightarrow> d = 1"
  proof (cases "d = 1")
    case True
    then show ?thesis using that [of 0] by simp
  next
    case False
    have p: "unat (d - 1) + 1 = unat d" by (rule unat_pred [OF assms(1)])
    have "d - 1 \<noteq> 0" using False by simp
    then obtain c where c: "clz64 (d - 1) = Some c" "c < 64" "2 ^ 63 \<le> unat (d - 1) * 2 ^ c" "unat (d - 1) * 2 ^ c < 2 ^ 64"
      using clz64_value by blast
    have split: "(2 :: nat) ^ 64 = 2 ^ (64 - c) * 2 ^ c" using c(2) by (simp only: power_add [symmetric]) simp
    have hi: "unat (d - 1) < 2 ^ (64 - c)" using c(4) unfolding split by simp
    have "2 ^ (64 - c) * 2 ^ c \<le> (2 * unat (d - 1)) * 2 ^ c" unfolding split [symmetric] using c(3) by simp
    then have lo: "2 ^ (64 - c) \<le> 2 * unat (d - 1)" by (simp only: mult_le_cancel2) simp
    have "c \<noteq> 0"
    proof
      assume "c = 0"
      then show False using c(3) p assms(2) by simp
    qed
    then show ?thesis using that [of "64 - c"] False c(1,2) hi lo p by simp
  qed
  define X where "X = push_bit l 1 - d"
  define s where "s = \<lparr>m1 = fst (divdq X 0 d) + 1, shift1 = (if l > 1 then 1 else l), shift2 = l - 1\<rparr>"
  have f: "fast_udiv_init d = Some s"
    using d0 l(1,2) by (simp add: fast_udiv_init_def s_def X_def Let_def case_prod_beta)
  have "unat (push_bit l (1 :: limb)) = 2 ^ l"
    using unat_push_or [of "1 :: limb" l 0] power_strict_increasing [OF l(2), of "2 :: nat"] by simp
  then have x: "unat X = 2 ^ l - unat d" unfolding X_def using l(3) by (subst unat_sub_small) simp_all
  have lt: "unat X < unat d" unfolding x using l(3,4) by simp
  have dv: "unat (fst (divdq X 0 d)) = limb_base * (2 ^ l - unat d) div unat d"
    using dlimb_div_correct(1) [OF lt, of 0] by (simp add: divdq_def Let_def x mult.commute)
  have "limb_base * (2 ^ l - unat d) \<le> limb_base * (unat d - 1)" using l(3,4) by (intro mult_le_mono2) simp
  also have "\<dots> < (limb_base - 1) * unat d" using assms by (simp add: algebra_simps)
  finally have "limb_base * (2 ^ l - unat d) div unat d < limb_base - 1" by (rule less_mult_imp_div_less)
  then have m1: "unat (m1 s) = limb_base * (2 ^ l - unat d) div unat d + 1"
    using unat_add_small [of "fst (divdq X 0 d)" 1] dv by (simp add: s_def)
  have "unat (fast_udiv a s) = unat a div unat d" for a
  proof -
    have "m1 s = 1" if "l = 0" using m1 l(5) [OF that] that by (simp add: word_unat_eq_iff)
    then have "unat (fast_udiv a s) = (unat a + unat (m1 s) * unat a div limb_base) div 2 ^ l"
      by (intro fast_udiv_value) (auto simp: s_def)
    also have "\<dots> = unat a div unat d" using limb_less [of a] assms(1) l(3) m1 by (intro invariant_division)
    finally show ?thesis .
  qed
  then show ?thesis using f by blast
qed

text \<open>The precomputed data divide by the powers of ten.  The last entry is not the one
  \<^verbatim>\<open>fast_udiv_init\<close> describes (the multiplier is 2 larger) but still divides exactly.\<close>

definition pow_div_ok :: "nat \<Rightarrow> bool" where
  "pow_div_ok i \<longleftrightarrow> (let s = mp_pow_div ! i; D = 10 ^ i :: int; l = (if i = 0 then 0 else Suc (shift2 s))
     in D \<le> 2 ^ l \<and> uint (m1 s) = 2 ^ 64 * (2 ^ l - D) div D + 1 \<and> shift1 s = min l 1)"

lemma pow_div_all_ok: "list_all pow_div_ok [0..<19]"
  by code_simp

lemma pow_div_last: "mp_pow_div ! 19 = \<lparr>m1 = 0xd83c94fb6d2ac34d, shift1 = 1, shift2 = 63\<rparr>"
  by (simp add: mp_pow_div_def)

lemma pow_div_last_multiplier: "uint (m1 (mp_pow_div ! 19)) = 2 ^ 64 * (2 ^ 64 - 10 ^ 19) div 10 ^ 19 + 3"
  unfolding pow_div_last by code_simp

lemma fast_udiv_last: "unat (fast_udiv a (mp_pow_div ! 19)) = unat a div 10 ^ 19"
proof -
  let ?M = "0xd83c94fb6d2ac34d :: nat"
  have v: "unat (fast_udiv a (mp_pow_div ! 19)) = (unat a + ?M * unat a div limb_base) div 2 ^ 64"
    using fast_udiv_value [of "mp_pow_div ! 19" 64 a] by (simp add: pow_div_last)
  have mono: "?M * x div limb_base \<le> ?M * y div limb_base" if "x \<le> y" for x y
    using that by (intro div_le_mono mult_le_mono2)
  show ?thesis
  proof (cases "unat a < 10 ^ 19")
    case True
    have "?M * (10 ^ 19 - 1) div limb_base = 8446744073709551616" by simp
    then have "unat a + ?M * unat a div limb_base < 2 ^ 64"
      using mono [of "unat a" "10 ^ 19 - 1"] True by simp
    then show ?thesis using v True by simp
  next
    case False
    have "?M * 10 ^ 19 div limb_base = 8446744073709551616 \<or> ?M * 10 ^ 19 div limb_base = 8446744073709551617" by simp
    then have lo: "2 ^ 64 \<le> unat a + ?M * unat a div limb_base" using mono [of "10 ^ 19" "unat a"] False by simp
    have "?M * unat a \<le> limb_base * unat a" by (intro mult_le_mono1) simp
    then have "?M * unat a div limb_base \<le> unat a" using div_le_mono [of "?M * unat a" "limb_base * unat a" limb_base] by simp
    then have "unat a + ?M * unat a div limb_base < 2 * 2 ^ 64" using limb_less [of a] by simp
    then have "(unat a + ?M * unat a div limb_base) div 2 ^ 64 = 1" using lo by (intro div_nat_eqI) simp_all
    moreover have "unat a div 10 ^ 19 = 1" using False limb_less [of a] by (intro div_nat_eqI) simp_all
    ultimately show ?thesis using v by simp
  qed
qed

lemma fast_shr_dec_correct:
  assumes "i \<le> 19"
  shows "\<exists>q. fast_shr_dec a i = Some q \<and> unat q = unat a div 10 ^ i"
proof -
  let ?s = "mp_pow_div ! i" and ?l = "if i = 0 then 0 else Suc (shift2 (mp_pow_div ! i))"
  have r: "rd mp_pow_div i = Some ?s" using assms by (simp add: rd_def mp_pow_div_def)
  have "unat (fast_udiv a ?s) = unat a div 10 ^ i"
  proof (cases "i = 19")
    case True
    then show ?thesis using fast_udiv_last by simp
  next
    case False
    then have ok: "pow_div_ok i" using pow_div_all_ok assms by (simp add: list_all_iff)
    have "int (10 ^ i) \<le> int (2 ^ ?l)" using ok unfolding pow_div_ok_def Let_def by simp
    then have D: "(10 :: nat) ^ i \<le> 2 ^ ?l" by (simp only: of_nat_le_iff)
    have "int (unat (m1 ?s)) = int (limb_base * (2 ^ ?l - 10 ^ i) div 10 ^ i + 1)"
      using ok D unfolding pow_div_ok_def Let_def by (simp add: zdiv_int of_nat_diff of_nat_unat)
    then have m1: "unat (m1 ?s) = limb_base * (2 ^ ?l - 10 ^ i) div 10 ^ i + 1" by (simp only: of_nat_eq_iff)
    have z: "shift2 (mp_pow_div ! 0) = 0" "m1 (mp_pow_div ! 0) = 1" by (simp_all add: mp_pow_div_def)
    have "unat (fast_udiv a ?s) = (unat a + unat (m1 ?s) * unat a div limb_base) div 2 ^ ?l"
      using ok z unfolding pow_div_ok_def Let_def by (intro fast_udiv_value) (auto split: if_splits)
    also have "\<dots> = unat a div 10 ^ i" using limb_less [of a] D m1 by (intro invariant_division) simp_all
    finally show ?thesis .
  qed
  then show ?thesis by (simp add: fast_shr_dec_def r)
qed

end
