(* ===== verification/MpDecKernels.thy ===== *)
theory MpDecKernels
  imports MpDec
begin

text \<open>
  The decimal kernels of \<^verbatim>\<open>libbf.c\<close> (\<^verbatim>\<open>mp_add_dec\<close> to \<^verbatim>\<open>mp_shl_dec\<close>): the loops over limbs of base
  \<open>10\<^sup>1\<^sup>9\<close>, with the same specifications as the binary ones of \<open>MpArith\<close>.
\<close>

section \<open>Kernels\<close>

definition mp_add_dec :: "limbs \<Rightarrow> nat \<Rightarrow> nat \<Rightarrow> nat \<Rightarrow> nat \<Rightarrow> limb \<Rightarrow> (limb \<times> limbs) option" where
  "mp_add_dec m res op1 op2 n carry =
     (let base = BF_DEC_BASE in
      for_up (\<lambda>i (k, m).
        do { v \<leftarrow> rd m (op1 + i);
             w \<leftarrow> rd m (op2 + i);
             let a = v + w + k - base;
             let k = bool_limb (a \<le> v);
             let a = (if k = 0 then a + base else a);
             m \<leftarrow> wr m (res + i) a;
             Some (k, m) }) n 0 (carry, m))"

fun mp_add_ui_dec_loop :: "limbs \<Rightarrow> nat \<Rightarrow> limb \<Rightarrow> nat \<Rightarrow> (limb \<times> limbs) option" where
  "mp_add_ui_dec_loop m tab k 0 = Some (k, m)"
| "mp_add_ui_dec_loop m tab k (Suc n) =
     do { v \<leftarrow> rd m tab;
          let a = v + k - BF_DEC_BASE;
          let k = bool_limb (a \<le> v);
          let a = (if k = 0 then a + BF_DEC_BASE else a);
          m \<leftarrow> wr m tab a;
          if k = 0 then Some (k, m) else mp_add_ui_dec_loop m (Suc tab) k n }"

definition mp_add_ui_dec :: "limbs \<Rightarrow> nat \<Rightarrow> limb \<Rightarrow> nat \<Rightarrow> (limb \<times> limbs) option" where
  "mp_add_ui_dec m tab b n = mp_add_ui_dec_loop m tab b n"

definition mp_sub_dec :: "limbs \<Rightarrow> nat \<Rightarrow> nat \<Rightarrow> nat \<Rightarrow> nat \<Rightarrow> limb \<Rightarrow> (limb \<times> limbs) option" where
  "mp_sub_dec m res op1 op2 n carry =
     (let base = BF_DEC_BASE in
      for_up (\<lambda>i (k, m).
        do { v \<leftarrow> rd m (op1 + i);
             w \<leftarrow> rd m (op2 + i);
             let a = v - w - k;
             let k = bool_limb (a > v);
             let a = (if k \<noteq> 0 then a + base else a);
             m \<leftarrow> wr m (res + i) a;
             Some (k, m) }) n 0 (carry, m))"

fun mp_sub_ui_dec_loop :: "limbs \<Rightarrow> nat \<Rightarrow> limb \<Rightarrow> nat \<Rightarrow> (limb \<times> limbs) option" where
  "mp_sub_ui_dec_loop m tab k 0 = Some (k, m)"
| "mp_sub_ui_dec_loop m tab k (Suc n) =
     do { v \<leftarrow> rd m tab;
          let a = v - k;
          let k = bool_limb (a > v);
          let a = (if k \<noteq> 0 then a + BF_DEC_BASE else a);
          m \<leftarrow> wr m tab a;
          if k = 0 then Some (k, m) else mp_sub_ui_dec_loop m (Suc tab) k n }"

definition mp_sub_ui_dec :: "limbs \<Rightarrow> nat \<Rightarrow> limb \<Rightarrow> nat \<Rightarrow> (limb \<times> limbs) option" where
  "mp_sub_ui_dec m tab b n = mp_sub_ui_dec_loop m tab b n"

definition mp_mul1_dec :: "limbs \<Rightarrow> nat \<Rightarrow> nat \<Rightarrow> nat \<Rightarrow> limb \<Rightarrow> limb \<Rightarrow> (limb \<times> limbs) option" where
  "mp_mul1_dec m tabr taba n b l =
     for_up (\<lambda>i (l, m).
       do { a \<leftarrow> rd m (taba + i);
            let (t1, t0) = adddq (muldq a b) 0 l;
            let (l, r) = divdq_base t1 t0;
            m \<leftarrow> wr m (tabr + i) r;
            Some (l, m) }) n 0 (l, m)"

definition mp_add_mul1_dec :: "limbs \<Rightarrow> nat \<Rightarrow> nat \<Rightarrow> nat \<Rightarrow> limb \<Rightarrow> (limb \<times> limbs) option" where
  "mp_add_mul1_dec m tabr taba n b =
     for_up (\<lambda>i (l, m).
       do { a \<leftarrow> rd m (taba + i);
            v \<leftarrow> rd m (tabr + i);
            let (t1, t0) = adddq (adddq (muldq a b) 0 l) 0 v;
            let (l, r) = divdq_base t1 t0;
            m \<leftarrow> wr m (tabr + i) r;
            Some (l, m) }) n 0 (0, m)"

definition mp_sub_mul1_dec :: "limbs \<Rightarrow> nat \<Rightarrow> nat \<Rightarrow> nat \<Rightarrow> limb \<Rightarrow> (limb \<times> limbs) option" where
  "mp_sub_mul1_dec m tabr taba n b =
     (let base = BF_DEC_BASE in
      for_up (\<lambda>i (l, m).
        do { a \<leftarrow> rd m (taba + i);
             let (t1, t0) = adddq (muldq a b) 0 l;
             let (l, r) = divdq_base t1 t0;
             v \<leftarrow> rd m (tabr + i);
             let a = v - r;
             let c = bool_limb (a > v);
             let a = (if c \<noteq> 0 then a + base else a);
             let l = l + c;
             m \<leftarrow> wr m (tabr + i) a;
             Some (l, m) }) n 0 (0, m))"

definition mp_mul_basecase_dec :: "limbs \<Rightarrow> nat \<Rightarrow> nat \<Rightarrow> nat \<Rightarrow> nat \<Rightarrow> nat \<Rightarrow> limbs option" where
  "mp_mul_basecase_dec m result op1 op1_size op2 op2_size =
     do { b \<leftarrow> rd m op2;
          (r, m) \<leftarrow> mp_mul1_dec m result op1 op1_size b 0;
          m \<leftarrow> wr m (result + op1_size) r;
          for_up (\<lambda>i m.
            do { b \<leftarrow> rd m (op2 + i);
                 (r, m) \<leftarrow> mp_add_mul1_dec m (result + i) op1 op1_size b;
                 wr m (result + (i + op1_size)) r }) (op2_size - 1) 1 m }"

text \<open>The three loops of \<^verbatim>\<open>mp_div1_dec\<close> that divide by a general \<open>b\<close> differ in one round:
  normalised divisor, shifted divisor, short numbers.\<close>

definition mp_div1_dec :: "limbs \<Rightarrow> nat \<Rightarrow> nat \<Rightarrow> nat \<Rightarrow> limb \<Rightarrow> limb \<Rightarrow> (limb \<times> limbs) option" where
  "mp_div1_dec m tabr taba na b r =
     (let base = BF_DEC_BASE in
      if b = 2 then
        let base_div2 = drop_bit 1 base;
            r = (if r \<noteq> 0 then base_div2 else r)
        in do { (r, m) \<leftarrow> for_down (\<lambda>i (r, m).
                  do { t0 \<leftarrow> rd m (taba + i);
                       m \<leftarrow> wr m (tabr + i) (drop_bit 1 t0 + r);
                       let r = (if t0 AND 1 \<noteq> 0 then base_div2 else 0);
                       Some (r, m) }) na (r, m);
                Some (if r \<noteq> 0 then 1 else r, m) }
      else if na \<ge> 3 then
        do { shift \<leftarrow> limb_clz b;
             if shift = 0 then
               let b_inv = udiv1norm_init b
               in for_down (\<lambda>i (r, m).
                    do { a \<leftarrow> rd m (taba + i);
                         let (t1, t0) = adddq (muldq r base) 0 a;
                         let (q, r) = udiv1norm t1 t0 b b_inv;
                         m \<leftarrow> wr m (tabr + i) q;
                         Some (r, m) }) na (r, m)
             else
               let b = push_bit shift b;
                   b_inv = udiv1norm_init b
               in for_down (\<lambda>i (r, m).
                    do { a \<leftarrow> rd m (taba + i);
                         let (t1, t0) = adddq (muldq r base) 0 a;
                         let t1 = push_bit shift t1 OR drop_bit (64 - shift) t0;
                         let t0 = push_bit shift t0;
                         let (q, r) = udiv1norm t1 t0 b b_inv;
                         let r = drop_bit shift r;
                         m \<leftarrow> wr m (tabr + i) q;
                         Some (r, m) }) na (r, m) }
      else
        for_down (\<lambda>i (r, m).
          do { a \<leftarrow> rd m (taba + i);
               let (t1, t0) = adddq (muldq r base) 0 a;
               let (q, r) = divdq t1 t0 b;
               m \<leftarrow> wr m (tabr + i) q;
               Some (r, m) }) na (r, m))"

definition mp_shr_dec :: "limbs \<Rightarrow> nat \<Rightarrow> nat \<Rightarrow> nat \<Rightarrow> nat \<Rightarrow> limb \<Rightarrow> (limb \<times> limbs) option" where
  "mp_shr_dec m tab_r tab n shift high =
     do { c_assert (1 \<le> shift \<and> shift < 19);
          for_down (\<lambda>i (l, m).
            do { a \<leftarrow> rd m (tab + i);
                 (q, r) \<leftarrow> fast_shr_rem_dec a shift;
                 p \<leftarrow> rd mp_pow_dec (19 - shift);
                 m \<leftarrow> wr m (tab_r + i) (q + l * p);
                 Some (r, m) }) n (high, m) }"

definition mp_shl_dec :: "limbs \<Rightarrow> nat \<Rightarrow> nat \<Rightarrow> nat \<Rightarrow> nat \<Rightarrow> limb \<Rightarrow> (limb \<times> limbs) option" where
  "mp_shl_dec m tab_r tab n shift low =
     do { c_assert (1 \<le> shift \<and> shift < 19);
          for_up (\<lambda>i (l, m).
            do { a \<leftarrow> rd m (tab + i);
                 (q, r) \<leftarrow> fast_shr_rem_dec a (19 - shift);
                 p \<leftarrow> rd mp_pow_dec shift;
                 m \<leftarrow> wr m (tab_r + i) (r * p + l);
                 Some (q, m) }) n 0 (low, m) }"

section \<open>Addition and subtraction\<close>

abbreviation dval :: "limbs \<Rightarrow> nat \<Rightarrow> nat \<Rightarrow> nat" where
  "dval \<equiv> mp_val dec_base"

lemma unat_BF_DEC_BASE [simp]: "unat BF_DEC_BASE = dec_base"
  by (simp add: BF_DEC_BASE_def)

lemma digits_okD: "digits_ok B m p n \<Longrightarrow> j < n \<Longrightarrow> unat (m ! (p + j)) < B"
  by (simp add: digits_ok_def)

text \<open>One round of the additions: the sum is reduced by the base first and corrected when that
  wraps around.\<close>

definition dec_add_digit :: "limb \<Rightarrow> limb \<Rightarrow> limb \<Rightarrow> limb" where
  "dec_add_digit v w k = (let a = v + w + k - BF_DEC_BASE in if a \<le> v then a else a + BF_DEC_BASE)"

lemma dec_add_step:
  assumes "unat v < dec_base" and "unat w + unat k \<le> dec_base"
  shows "unat (dec_add_digit v w k) + of_bool (v + w + k - BF_DEC_BASE \<le> v) * dec_base = unat v + unat w + unat k"
    and "unat (dec_add_digit v w k) < dec_base"
proof -
  define t where "t = w + k"
  define a where "a = v + t - BF_DEC_BASE"
  have a_eq: "v + w + k - BF_DEC_BASE = a" by (simp add: a_def t_def add.assoc)
  have t: "unat t = unat w + unat k" using unat_add_small [of w k] assms by (simp add: t_def)
  have "unat (dec_add_digit v w k) + of_bool (a \<le> v) * dec_base = unat v + unat t \<and> unat (dec_add_digit v w k) < dec_base"
  proof (cases "dec_base \<le> unat v + unat t")
    case True
    have "unat a = unat v + unat t - dec_base"
    proof (cases "unat v + unat t < limb_base")
      case small: True
      then have "unat (v + t) = unat v + unat t" by (rule unat_add_small)
      then show ?thesis unfolding a_def using True by (subst unat_sub_small) simp_all
    next
      case False
      then have "unat (v + t) + limb_base = unat v + unat t" using unat_add_wrap [of v t] by simp
      moreover have "unat a + dec_base = unat (v + t) + of_bool (v + t < a) * limb_base"
        using unat_sub_borrow [of "v + t" BF_DEC_BASE] by (simp add: a_def)
      ultimately show ?thesis using True assms t limb_less [of a] limb_less [of "v + t"] by (cases "v + t < a") simp_all
    qed
    moreover from this have "a \<le> v" using assms t by (simp add: word_le_nat_alt)
    ultimately show ?thesis using True assms t by (simp add: dec_add_digit_def a_eq Let_def)
  next
    case False
    then have vt: "unat (v + t) = unat v + unat t" by (intro unat_add_small) simp
    have b: "unat a + dec_base = unat (v + t) + of_bool (v + t < a) * limb_base"
      using unat_sub_borrow [of "v + t" BF_DEC_BASE] by (simp add: a_def)
    then have c: "unat a + dec_base = unat v + unat t + limb_base" using vt False by (cases "v + t < a") simp_all
    then have "\<not> a \<le> v" using assms by (simp add: word_le_nat_alt)
    moreover have "unat (a + BF_DEC_BASE) = unat v + unat t" using vt by (simp add: a_def)
    ultimately show ?thesis using False by (simp add: dec_add_digit_def a_eq Let_def)
  qed
  then show "unat (dec_add_digit v w k) + of_bool (v + w + k - BF_DEC_BASE \<le> v) * dec_base = unat v + unat w + unat k"
      "unat (dec_add_digit v w k) < dec_base" using t by (simp_all add: a_eq)
qed

definition dec_sub_digit :: "limb \<Rightarrow> limb \<Rightarrow> limb" where
  "dec_sub_digit v t = (let a = v - t in if a > v then a + BF_DEC_BASE else a)"

lemma dec_sub_step:
  assumes "unat v < dec_base" and "unat t \<le> dec_base"
  shows "unat (dec_sub_digit v t) + unat t = unat v + of_bool (v - t > v) * dec_base"
    and "unat (dec_sub_digit v t) < dec_base"
proof -
  note b = unat_sub_borrow [of v t]
  have "unat (dec_sub_digit v t) + unat t = unat v + of_bool (v - t > v) * dec_base \<and> unat (dec_sub_digit v t) < dec_base"
  proof (cases "v < v - t")
    case True
    then have c: "unat (v - t) + unat t = unat v + limb_base" using b by simp
    have "unat v < unat t" using c limb_less [of "v - t"] by simp
    moreover have "unat (v - t + BF_DEC_BASE) = unat (v - t) + dec_base - limb_base"
      using c assms by (subst unat_add_wrap) simp_all
    ultimately show ?thesis using True c assms by (simp add: dec_sub_digit_def Let_def)
  next
    case False
    then show ?thesis using b assms by (simp add: dec_sub_digit_def Let_def)
  qed
  then show "unat (dec_sub_digit v t) + unat t = unat v + of_bool (v - t > v) * dec_base" "unat (dec_sub_digit v t) < dec_base"
    by simp_all
qed

lemma mp_add_dec_returns:
  assumes "unat carry \<le> 1" and "res + n \<le> length m" and "op1 + n \<le> length m" and "op2 + n \<le> length m"
    and "reads_ok res op1 n" and "reads_ok res op2 n" and "digits_ok dec_base m op1 n" and "digits_ok dec_base m op2 n"
  shows "returns (mp_add_dec m res op1 op2 n carry) (\<lambda>(k, m'). only_changes m m' res n \<and> unat k \<le> 1 \<and>
     digits_ok dec_base m' res n \<and>
     dval m' res n + unat k * dec_base ^ n = dval m op1 n + dval m op2 n + unat carry)"
  unfolding mp_add_dec_def Let_def
proof (rule returns_mono [OF add_loop [where ok = "\<lambda>k. unat k \<le> 1" and B = dec_base and r = res
      and s = "\<lambda>i. unat (m ! (op1 + i)) + unat (m ! (op2 + i))"
      and kf = "\<lambda>i k. bool_limb (m ! (op1 + i) + m ! (op2 + i) + k - BF_DEC_BASE \<le> m ! (op1 + i))"
      and xf = "\<lambda>i k. dec_add_digit (m ! (op1 + i)) (m ! (op2 + i)) k"]], goal_cases)
  case (3 j k m')
  then show ?case
    by (simp add: rd_source [OF 3(3) assms(5) 3(1) assms(3)] rd_source [OF 3(3) assms(6) 3(1) assms(4)]
        wr_result [OF 3(3,1) assms(2)] dec_add_digit_def Let_def)
next
  case (4 j k)
  then show ?case
    using dec_add_step [of "m ! (op1 + j)" "m ! (op2 + j)" k] assms(7,8) [THEN digits_okD, OF 4(1)] by simp
qed (use assms in \<open>auto simp: mp_val_sum distrib_right sum.distrib digits_ok_def\<close>)

lemma mp_sub_dec_returns:
  assumes "unat carry \<le> 1" and "res + n \<le> length m" and "op1 + n \<le> length m" and "op2 + n \<le> length m"
    and "reads_ok res op1 n" and "reads_ok res op2 n" and "digits_ok dec_base m op1 n" and "digits_ok dec_base m op2 n"
  shows "returns (mp_sub_dec m res op1 op2 n carry) (\<lambda>(k, m'). only_changes m m' res n \<and> unat k \<le> 1 \<and>
     digits_ok dec_base m' res n \<and>
     dval m' res n + dval m op2 n + unat carry = dval m op1 n + unat k * dec_base ^ n)"
  unfolding mp_sub_dec_def Let_def
proof (rule returns_mono [OF sub_loop [where ok = "\<lambda>k. unat k \<le> 1" and B = dec_base and r = res
      and s = "\<lambda>i. unat (m ! (op1 + i))" and s' = "\<lambda>i. unat (m ! (op2 + i))"
      and kf = "\<lambda>i k. bool_limb (m ! (op1 + i) - (m ! (op2 + i) + k) > m ! (op1 + i))"
      and xf = "\<lambda>i k. dec_sub_digit (m ! (op1 + i)) (m ! (op2 + i) + k)"]], goal_cases)
  case (3 j k m')
  then show ?case
    by (simp add: rd_source [OF 3(3) assms(5) 3(1) assms(3)] rd_source [OF 3(3) assms(6) 3(1) assms(4)]
        wr_result [OF 3(3,1) assms(2)] dec_sub_digit_def Let_def diff_diff_eq)
next
  case (4 j k)
  have d: "unat (m ! (op1 + j)) < dec_base" "unat (m ! (op2 + j)) < dec_base"
    using assms(7,8) 4(1) by (simp_all add: digits_ok_def)
  have "unat (m ! (op2 + j) + k) = unat (m ! (op2 + j)) + unat k" using d 4(2) by (intro unat_add_small) simp
  then show ?case
    using dec_sub_step [OF d(1), of "m ! (op2 + j) + k"] d 4(2) by simp
qed (use assms in \<open>auto simp: mp_val_sum digits_ok_def\<close>)

text \<open>The loops that add or subtract one limb stop as soon as nothing is left to carry.  Their rounds
  combine in the same way: the carry is counted positive for the sum, negative for the difference.\<close>

lemma carry_front:
  assumes "m' ! tab = a" and "int (unat a) + c1 * int B = int (unat (m ! tab)) + c"
    and "int (mp_val B m' (Suc tab) n) + c' * int B ^ n = int (mp_val B m (Suc tab) n) + c1"
  shows "int (mp_val B m' tab (Suc n)) + c' * int B ^ Suc n = int (mp_val B m tab (Suc n)) + c"
proof -
  have "int (mp_val B m' tab (Suc n)) + c' * int B ^ Suc n
      = int (unat a) + int B * (int (mp_val B m' (Suc tab) n) + c' * int B ^ n)"
    unfolding mp_val_front by (simp add: assms(1) algebra_simps)
  also have "\<dots> = (int (unat a) + c1 * int B) + int B * int (mp_val B m (Suc tab) n)"
    by (simp only: assms(3)) (simp add: algebra_simps)
  also have "\<dots> = int (mp_val B m tab (Suc n)) + c"
    unfolding mp_val_front by (simp add: assms(2))
  finally show ?thesis .
qed

lemma digits_ok_front:
  assumes "digits_ok B m' (Suc tab) n" and "unat (m' ! tab) < B"
  shows "digits_ok B m' tab (Suc n)"
  using assms by (auto simp: digits_ok_def less_Suc_eq_0_disj)

lemma digits_ok_tail: "digits_ok B m tab (Suc n) \<Longrightarrow> digits_ok B (m[tab := x]) (Suc tab) n"
  by (auto simp: digits_ok_def dest: spec [where x = "Suc _"])

lemma mp_val_tail: "mp_val B (m[tab := x]) (Suc tab) n = mp_val B m (Suc tab) n"
  by (rule mp_val_cong) simp

lemma mp_add_ui_dec_returns:
  assumes "tab + n \<le> length m" and "digits_ok dec_base m tab n" and "unat b \<le> dec_base"
  shows "returns (mp_add_ui_dec m tab b n) (\<lambda>(k, m'). only_changes m m' tab n \<and> digits_ok dec_base m' tab n \<and>
     int (dval m' tab n) + int (unat k) * int dec_base ^ n = int (dval m tab n) + int (unat b))"
  using assms unfolding mp_add_ui_dec_def
proof (induction m tab b n rule: mp_add_ui_dec_loop.induct)
  case (2 m tab k n)
  define a k1 m1 where d: "a = dec_add_digit (m ! tab) k 0" "k1 = bool_limb (m ! tab + k - BF_DEC_BASE \<le> m ! tab)" "m1 = m[tab := a]"
  have v: "unat (m ! tab) < dec_base" using digits_okD [OF "2.prems"(2), of 0] by simp
  have st: "unat a + unat k1 * dec_base = unat (m ! tab) + unat k" "unat a < dec_base"
    using dec_add_step [OF v, of k 0] "2.prems"(3) by (simp_all add: d)
  then have c: "int (unat a) + int (unat k1) * int dec_base = int (unat (m ! tab)) + int (unat k)"
    by (simp flip: of_nat_mult of_nat_add)
  have P: "only_changes m m' tab (Suc n) \<and> digits_ok dec_base m' tab (Suc n) \<and>
      int (dval m' tab (Suc n)) + int (unat k') * int dec_base ^ Suc n = int (dval m tab (Suc n)) + int (unat k)"
    if "only_changes m1 m' (Suc tab) n" "digits_ok dec_base m' (Suc tab) n"
      "int (dval m' (Suc tab) n) + int (unat k') * int dec_base ^ n = int (dval m1 (Suc tab) n) + int (unat k1)"
    for k' :: limb and m'
  proof -
    have a: "m' ! tab = a" using that(1) "2.prems"(1) by (simp add: only_changes_def d)
    then have "digits_ok dec_base m' tab (Suc n)" using that(2) st(2) by (intro digits_ok_front) simp_all
    moreover have "only_changes m m' tab (Suc n)" using that(1) by (auto simp: only_changes_def d)
    ultimately show ?thesis using carry_front [OF a c] that(3) by (simp add: d mp_val_tail del: mp_val.simps)
  qed
  have eq: "mp_add_ui_dec_loop m tab k (Suc n) = (if k1 = 0 then Some (k1, m1) else mp_add_ui_dec_loop m1 (Suc tab) k1 n)"
    using "2.prems"(1) by (simp add: mem_simps d dec_add_digit_def Let_def)
  have ok: "digits_ok dec_base m1 (Suc tab) n" using "2.prems"(2) by (simp add: d digits_ok_tail)
  show ?case
  proof (cases "k1 = 0")
    case True
    then show ?thesis unfolding eq using P [of m1 k1] ok by (simp del: mp_val.simps)
  next
    case False
    have "returns (mp_add_ui_dec_loop m1 (Suc tab) k1 n) (\<lambda>(k', m'). only_changes m1 m' (Suc tab) n \<and> digits_ok dec_base m' (Suc tab) n \<and>
       int (dval m' (Suc tab) n) + int (unat k') * int dec_base ^ n = int (dval m1 (Suc tab) n) + int (unat k1))"
      using False "2.prems" ok by (intro "2.IH") (auto simp: d mem_simps dec_add_digit_def Let_def bool_limb_def split: if_splits)
    then show ?thesis unfolding eq using False P by (auto simp: returns_def simp del: mp_val.simps)
  qed
qed simp

lemma mp_sub_ui_dec_returns:
  assumes "tab + n \<le> length m" and "digits_ok dec_base m tab n" and "unat b \<le> dec_base"
  shows "returns (mp_sub_ui_dec m tab b n) (\<lambda>(k, m'). only_changes m m' tab n \<and> digits_ok dec_base m' tab n \<and>
     int (dval m' tab n) - int (unat k) * int dec_base ^ n = int (dval m tab n) - int (unat b))"
  using assms unfolding mp_sub_ui_dec_def
proof (induction m tab b n rule: mp_sub_ui_dec_loop.induct)
  case (2 m tab k n)
  define a k1 m1 where d: "a = dec_sub_digit (m ! tab) k" "k1 = bool_limb (m ! tab - k > m ! tab)" "m1 = m[tab := a]"
  have v: "unat (m ! tab) < dec_base" using digits_okD [OF "2.prems"(2), of 0] by simp
  have st: "unat a + unat k = unat (m ! tab) + unat k1 * dec_base" "unat a < dec_base"
    using dec_sub_step [OF v "2.prems"(3)] by (simp_all add: d)
  then have "int (unat a) + int (unat k) = int (unat (m ! tab)) + int (unat k1) * int dec_base"
    by (simp flip: of_nat_mult of_nat_add)
  then have c: "int (unat a) + (- int (unat k1)) * int dec_base = int (unat (m ! tab)) + (- int (unat k))" by simp
  have P: "only_changes m m' tab (Suc n) \<and> digits_ok dec_base m' tab (Suc n) \<and>
      int (dval m' tab (Suc n)) - int (unat k') * int dec_base ^ Suc n = int (dval m tab (Suc n)) - int (unat k)"
    if "only_changes m1 m' (Suc tab) n" "digits_ok dec_base m' (Suc tab) n"
      "int (dval m' (Suc tab) n) - int (unat k') * int dec_base ^ n = int (dval m1 (Suc tab) n) - int (unat k1)"
    for k' :: limb and m'
  proof -
    have a: "m' ! tab = a" using that(1) "2.prems"(1) by (simp add: only_changes_def d)
    then have "digits_ok dec_base m' tab (Suc n)" using that(2) st(2) by (intro digits_ok_front) simp_all
    moreover have "only_changes m m' tab (Suc n)" using that(1) by (auto simp: only_changes_def d)
    ultimately show ?thesis
      using carry_front [OF a c, of n "- int (unat k')"] that(3) by (simp add: d mp_val_tail del: mp_val.simps)
  qed
  have eq: "mp_sub_ui_dec_loop m tab k (Suc n) = (if k1 = 0 then Some (k1, m1) else mp_sub_ui_dec_loop m1 (Suc tab) k1 n)"
    using "2.prems"(1) by (simp add: mem_simps d dec_sub_digit_def Let_def)
  have ok: "digits_ok dec_base m1 (Suc tab) n" using "2.prems"(2) by (simp add: d digits_ok_tail)
  show ?case
  proof (cases "k1 = 0")
    case True
    then show ?thesis unfolding eq using P [of m1 k1] ok by (simp del: mp_val.simps)
  next
    case False
    have "returns (mp_sub_ui_dec_loop m1 (Suc tab) k1 n) (\<lambda>(k', m'). only_changes m1 m' (Suc tab) n \<and> digits_ok dec_base m' (Suc tab) n \<and>
       int (dval m' (Suc tab) n) - int (unat k') * int dec_base ^ n = int (dval m1 (Suc tab) n) - int (unat k1))"
      using False "2.prems" ok by (intro "2.IH") (auto simp: d mem_simps dec_sub_digit_def Let_def bool_limb_def)
    then show ?thesis unfolding eq using False P by (auto simp: returns_def simp del: mp_val.simps)
  qed
qed simp

section \<open>Multiplication\<close>

text \<open>A product of two limbs plus one or two limbs fits a double limb; the quotient and the remainder
  of its division by the base are the carry and the digit.\<close>

definition dec_mul_add :: "limb \<Rightarrow> limb \<Rightarrow> limb \<Rightarrow> limb \<Rightarrow> limb \<times> limb" where
  "dec_mul_add a b l v = (case adddq (adddq (muldq a b) 0 l) 0 v of (t1, t0) \<Rightarrow> divdq_base t1 t0)"

lemma adddq_0 [simp]: "adddq p 0 0 = p"
  by (cases p) (simp add: adddq_def)

lemma dq_limb: "dq (0, l) = ucast l"
  by (simp add: dq_def)

lemma mul_add_value:
  assumes "adddq (adddq (muldq a b) 0 l) 0 v = (t1, t0)"
  shows "unat t1 * limb_base + unat t0 = unat a * unat b + unat l + unat v"
proof -
  have "dq (t1, t0) = ucast a * ucast b + ucast l + ucast v"
    unfolding assms [symmetric] dq_adddq dq_muldq dq_limb ..
  then show ?thesis unfolding unat_dq [symmetric] by (simp only: unat_mul_add2)
qed

lemma dec_product_bound:
  fixes a b l v :: nat
  assumes "a < dec_base" and "b < dec_base" and "l < dec_base" and "v < dec_base"
  shows "a * b + l + v < dec_base * dec_base"
  using mult_le_mono [of a "dec_base - 1" b "dec_base - 1"] assms by simp

lemma dec_mul_add_correct:
  assumes d: "unat a < dec_base" "unat b < dec_base" "unat l < dec_base" "unat v < dec_base"
    and "dec_mul_add a b l v = (q, r)"
  shows "unat q * dec_base + unat r = unat a * unat b + unat l + unat v \<and> unat r < dec_base \<and> unat q < dec_base"
proof -
  obtain t1 t0 where t: "adddq (adddq (muldq a b) 0 l) 0 v = (t1, t0)" by (rule prod.exhaust)
  note e = mul_add_value [OF t]
  have bnd: "unat a * unat b + unat l + unat v < dec_base * dec_base" using d by (rule dec_product_bound)
  then have "unat t1 * limb_base < dec_base * dec_base" unfolding e [symmetric] by simp
  then have "unat t1 < 2 ^ 63" by simp
  moreover have "divdq_base t1 t0 = (q, r)" using assms(5) by (simp add: dec_mul_add_def t)
  ultimately have "unat q * dec_base + unat r = unat a * unat b + unat l + unat v" "unat r < dec_base"
    using divdq_base_correct [of t1 t0 q r] e by simp_all
  then show ?thesis using bnd by simp
qed

lemma mp_mul1_dec_returns:
  assumes "tabr + n \<le> length m" and "taba + n \<le> length m" and "reads_ok tabr taba n"
    and "digits_ok dec_base m taba n" and "unat b < dec_base" and "unat l < dec_base"
  shows "returns (mp_mul1_dec m tabr taba n b l) (\<lambda>(k, m'). only_changes m m' tabr n \<and> unat k < dec_base \<and>
     digits_ok dec_base m' tabr n \<and> dval m' tabr n + unat k * dec_base ^ n = dval m taba n * unat b + unat l)"
  unfolding mp_mul1_dec_def
proof (rule returns_mono [OF add_loop [where ok = "\<lambda>k. unat k < dec_base" and B = dec_base and r = tabr
      and s = "\<lambda>i. unat (m ! (taba + i)) * unat b"
      and kf = "\<lambda>i k. fst (dec_mul_add (m ! (taba + i)) b k 0)"
      and xf = "\<lambda>i k. snd (dec_mul_add (m ! (taba + i)) b k 0)"]], goal_cases)
  case (3 j k m')
  then show ?case
    by (simp add: rd_source [OF 3(3) assms(3) 3(1) assms(2)] wr_result [OF 3(3,1) assms(1)] dec_mul_add_def
        case_prod_beta Let_def)
next
  case (4 j k)
  then show ?case
    using dec_mul_add_correct [OF digits_okD [OF assms(4) 4(1)] assms(5) 4(2), of 0] by (auto simp: prod_eq_iff)
qed (use assms in \<open>auto simp: mp_val_sum sum_distrib_left sum_distrib_right digits_ok_def algebra_simps\<close>)

lemma mp_add_mul1_dec_returns:
  assumes "tabr + n \<le> length m" and "taba + n \<le> length m" and "reads_ok tabr taba n"
    and "digits_ok dec_base m taba n" and "digits_ok dec_base m tabr n" and "unat b < dec_base"
  shows "returns (mp_add_mul1_dec m tabr taba n b) (\<lambda>(k, m'). only_changes m m' tabr n \<and> unat k < dec_base \<and>
     digits_ok dec_base m' tabr n \<and> dval m' tabr n + unat k * dec_base ^ n = dval m tabr n + dval m taba n * unat b)"
  unfolding mp_add_mul1_dec_def
proof (rule returns_mono [OF add_loop [where ok = "\<lambda>k. unat k < dec_base" and B = dec_base and r = tabr
      and s = "\<lambda>i. unat (m ! (taba + i)) * unat b + unat (m ! (tabr + i))"
      and kf = "\<lambda>i k. fst (dec_mul_add (m ! (taba + i)) b k (m ! (tabr + i)))"
      and xf = "\<lambda>i k. snd (dec_mul_add (m ! (taba + i)) b k (m ! (tabr + i)))"]], goal_cases)
  case (3 j k m')
  have r: "reads_ok tabr tabr n" by (simp add: reads_ok_def)
  show ?case
    by (simp add: rd_source [OF 3(3) assms(3) 3(1) assms(2)] rd_source [OF 3(3) r 3(1) assms(1)]
        wr_result [OF 3(3,1) assms(1)] dec_mul_add_def case_prod_beta Let_def)
next
  case (4 j k)
  then show ?case
    using dec_mul_add_correct [OF digits_okD [OF assms(4) 4(1)] assms(6) 4(2) digits_okD [OF assms(5) 4(1)]]
    by (auto simp: prod_eq_iff)
qed (use assms in \<open>auto simp: mp_val_sum sum_distrib_left sum_distrib_right sum.distrib digits_ok_def algebra_simps\<close>)

lemma mp_sub_mul1_dec_returns:
  assumes "tabr + n \<le> length m" and "taba + n \<le> length m" and "reads_ok tabr taba n"
    and "digits_ok dec_base m taba n" and "digits_ok dec_base m tabr n" and "unat b < dec_base"
  shows "returns (mp_sub_mul1_dec m tabr taba n b) (\<lambda>(k, m'). only_changes m m' tabr n \<and> unat k < dec_base \<and>
     digits_ok dec_base m' tabr n \<and> dval m' tabr n + dval m taba n * unat b = dval m tabr n + unat k * dec_base ^ n)"
  unfolding mp_sub_mul1_dec_def Let_def
proof (rule returns_mono [OF sub_loop [where ok = "\<lambda>k. unat k < dec_base" and B = dec_base and r = tabr
      and s' = "\<lambda>i. unat (m ! (taba + i)) * unat b" and s = "\<lambda>i. unat (m ! (tabr + i))"
      and kf = "\<lambda>i k. case dec_mul_add (m ! (taba + i)) b k 0 of (l, r) \<Rightarrow> l + bool_limb (m ! (tabr + i) - r > m ! (tabr + i))"
      and xf = "\<lambda>i k. dec_sub_digit (m ! (tabr + i)) (snd (dec_mul_add (m ! (taba + i)) b k 0))"]], goal_cases)
  case (3 j k m')
  have r: "reads_ok tabr tabr n" by (simp add: reads_ok_def)
  show ?case
    by (simp add: rd_source [OF 3(3) assms(3) 3(1) assms(2)] rd_source [OF 3(3) r 3(1) assms(1)]
        wr_result [OF 3(3,1) assms(1)] dec_mul_add_def dec_sub_digit_def case_prod_beta Let_def)
next
  case (4 j k)
  let ?a = "m ! (taba + j)" and ?v = "m ! (tabr + j)"
  obtain l r where lr: "dec_mul_add ?a b k 0 = (l, r)" by (rule prod.exhaust)
  have e: "unat l * dec_base + unat r = unat ?a * unat b + unat k" "unat r < dec_base" "unat l < dec_base"
    using dec_mul_add_correct [OF digits_okD [OF assms(4) 4(1)] assms(6) 4(2) _ lr] by simp_all
  note s = dec_sub_step [OF digits_okD [OF assms(5) 4(1)], of r]
  have "unat ?a * unat b \<le> (dec_base - 1) * (dec_base - 1)"
    using digits_okD [OF assms(4) 4(1)] assms(6) by (intro mult_le_mono) simp_all
  then have le: "unat l * dec_base + unat r \<le> (dec_base - 1) * dec_base" using e(1) 4(2) by simp
  have "unat l + of_bool (?v - r > ?v) < dec_base"
  proof (cases "unat l = dec_base - 1")
    case True
    then have "r = 0" using le by (simp add: unat_eq_zero)
    then show ?thesis using e(3) by simp
  next
    case False
    then show ?thesis using e(3) by simp
  qed
  moreover from this have "unat (l + bool_limb (?v - r > ?v)) = unat l + of_bool (?v - r > ?v)"
    using unat_add_small [of l "bool_limb (?v - r > ?v)"] by simp
  ultimately show ?case using s e by (simp add: lr)
qed (use assms in \<open>auto simp: mp_val_sum sum_distrib_left sum_distrib_right digits_ok_def algebra_simps\<close>)

lemma mp_mul_basecase_dec_eq: "mp_mul_basecase_dec = mul_basecase mp_mul1_dec mp_add_mul1_dec"
  by (intro ext) (simp only: mp_mul_basecase_dec_def mul_basecase_def)

interpretation dec_mul: limb_multiplier dec_base mp_mul1_dec mp_add_mul1_dec
  by unfold_locales (rule mp_mul1_dec_returns, assumption+, rule mp_add_mul1_dec_returns, assumption+, simp)

lemma mp_mul_basecase_dec_returns:
  assumes "result + (n1 + n2) \<le> length m" and "op1 + n1 \<le> length m" and "op2 + n2 \<le> length m" and "0 < n2"
    and "apart_mem result (n1 + n2) op1 n1" and "apart_mem result (n1 + n2) op2 n2"
    and "digits_ok dec_base m op1 n1" and "digits_ok dec_base m op2 n2"
  shows "returns (mp_mul_basecase_dec m result op1 n1 op2 n2) (\<lambda>m'. only_changes m m' result (n1 + n2) \<and>
     digits_ok dec_base m' result (n1 + n2) \<and> dval m' result (n1 + n2) = dval m op1 n1 * dval m op2 n2)"
  unfolding mp_mul_basecase_dec_eq by (rule dec_mul.product_returns [OF assms])

section \<open>Decimal shifts\<close>

lemma pow_dec_value:
  assumes "i < 20"
  shows "\<exists>p. rd mp_pow_dec i = Some p \<and> unat p = 10 ^ i"
proof -
  have "\<forall>i \<in> set [0..<20]. unat (mp_pow_dec ! i) = 10 ^ i" by (simp add: mp_pow_dec_def upt_rec)
  then show ?thesis using assms by (simp add: rd_def mp_pow_dec_def)
qed

lemma fast_shr_rem_dec_correct:
  assumes "i \<le> 19"
  shows "\<exists>q r. fast_shr_rem_dec a i = Some (q, r) \<and> unat q = unat a div 10 ^ i \<and> unat r = unat a mod 10 ^ i"
proof -
  obtain q where q: "fast_shr_dec a i = Some q" "unat q = unat a div 10 ^ i"
    using fast_shr_dec_correct [OF assms] by blast
  obtain p where p: "rd mp_pow_dec i = Some p" "unat p = 10 ^ i" using pow_dec_value [of i] assms by auto
  have le: "unat q * unat p \<le> unat a" unfolding q p by simp
  then have "unat (q * p) = unat q * unat p" using limb_less [of a] by (simp add: unat_word_ariths)
  then have "unat (a - q * p) = unat a mod 10 ^ i"
    using le by (simp add: unat_sub_small q p minus_div_mult_eq_mod)
  then show ?thesis using q p by (simp add: fast_shr_rem_dec_def)
qed

text \<open>The two halves of a limb that moves by \<open>i\<close> digits recombine without carry.\<close>

lemma dec_combine:
  fixes x l p :: limb
  assumes "i \<le> 19" and "unat x < 10 ^ (19 - i)" and "unat l < 10 ^ i" and "unat p = 10 ^ (19 - i)"
  shows "unat (x + l * p) = unat x + unat l * 10 ^ (19 - i)" and "unat (x + l * p) < dec_base"
proof -
  have "(10 :: nat) ^ 19 = 10 ^ i * 10 ^ (19 - i)" using assms(1) by (simp flip: power_add)
  then have split: "dec_base = 10 ^ i * 10 ^ (19 - i)" by simp
  have "Suc (unat l) * 10 ^ (19 - i) \<le> 10 ^ i * 10 ^ (19 - i)" using assms(3) by (intro mult_le_mono1) simp
  then have b: "unat x + unat l * 10 ^ (19 - i) < dec_base" using assms(2) unfolding split by simp
  then have m: "unat (l * p) = unat l * 10 ^ (19 - i)" using assms(4) by (simp add: unat_word_ariths)
  show "unat (x + l * p) = unat x + unat l * 10 ^ (19 - i)" using unat_add_small [of x "l * p"] m b by simp
  then show "unat (x + l * p) < dec_base" using b by simp
qed

lemma mp_shr_dec_returns:
  assumes "1 \<le> s" and "s < 19" and "tab_r + n \<le> length m" and "tab + n \<le> length m" and "reads_down tab_r tab n"
    and "digits_ok dec_base m tab n" and "unat high < 10 ^ s"
  shows "returns (mp_shr_dec m tab_r tab n s high) (\<lambda>(r, m'). only_changes m m' tab_r n \<and> unat r < 10 ^ s \<and>
     digits_ok dec_base m' tab_r n \<and> dval m' tab_r n * 10 ^ s + unat r = dval m tab n + unat high * dec_base ^ n)"
proof -
  obtain p where p: "rd mp_pow_dec (19 - s) = Some p" "unat p = 10 ^ (19 - s)"
    using pow_dec_value [of "19 - s"] less_imp_diff_less [of 19 20 s] by auto
  define qr where "qr a = the (fast_shr_rem_dec a s)" for a
  have qr: "fast_shr_rem_dec a s = Some (fst (qr a), snd (qr a))" "unat (fst (qr a)) = unat a div 10 ^ s"
      "unat (snd (qr a)) = unat a mod 10 ^ s" for a
    using fast_shr_rem_dec_correct [of s a] assms(2) by (auto simp: qr_def)
  have "(10 :: nat) ^ 19 = 10 ^ (19 - s) * 10 ^ s" using assms(2) by (simp flip: power_add)
  then have split: "dec_base = 10 ^ (19 - s) * 10 ^ s" by simp
  have "returns (for_down (\<lambda>i (l, m). do { a \<leftarrow> rd m (tab + i); (q, r) \<leftarrow> fast_shr_rem_dec a s;
         p \<leftarrow> rd mp_pow_dec (19 - s); m \<leftarrow> wr m (tab_r + i) (q + l * p); Some (r, m) }) n (high, m))
      (\<lambda>(l, m'). only_changes m m' tab_r n \<and> unat l < 10 ^ s \<and> (\<forall>i < n. unat (m' ! (tab_r + i)) < dec_base) \<and>
        dval m' tab_r n * 10 ^ s + unat l = (\<Sum>i<n. unat (m ! (tab + i)) * dec_base ^ i) + unat high * dec_base ^ n)"
  proof (rule div_loop [where kf = "\<lambda>i l. snd (qr (m ! (tab + i)))" and xf = "\<lambda>i l. fst (qr (m ! (tab + i))) + l * p"])
    fix j l m'
    assume "j < n" "only_changes m m' (tab_r + Suc j) (n - Suc j)"
    then show "(case (l, m') of (l, m) \<Rightarrow> do { a \<leftarrow> rd m (tab + j); (q, r) \<leftarrow> fast_shr_rem_dec a s;
         p \<leftarrow> rd mp_pow_dec (19 - s); m \<leftarrow> wr m (tab_r + j) (q + l * p); Some (r, m) })
      = Some (snd (qr (m ! (tab + j))), m'[tab_r + j := fst (qr (m ! (tab + j))) + l * p])"
      using assms by (simp add: rd_source_down wr_result_down qr(1) p case_prod_beta)
  next
    fix j l
    assume j: "j < n" and l: "unat (l :: limb) < 10 ^ s"
    let ?a = "m ! (tab + j)"
    have "unat ?a div 10 ^ s < 10 ^ (19 - s)"
      using digits_okD [OF assms(6) j] unfolding split by (rule less_mult_imp_div_less)
    then have x: "unat (fst (qr ?a)) < 10 ^ (19 - s)" by (simp only: qr)
    note c = dec_combine [OF _ x l p(2)]
    have "unat (fst (qr ?a) + l * p) * 10 ^ s + unat ?a mod 10 ^ s = (unat ?a div 10 ^ s * 10 ^ s + unat ?a mod 10 ^ s) + unat l * (10 ^ (19 - s) * 10 ^ s)"
      using c assms(2) by (simp add: qr distrib_right mult.assoc)
    also have "\<dots> = unat ?a + unat l * dec_base" unfolding split [symmetric] by (simp only: div_mult_mod_eq)
    finally show "unat (snd (qr ?a)) < 10 ^ s \<and> unat (fst (qr ?a) + l * p) * 10 ^ s + unat (snd (qr ?a)) = unat ?a + unat l * dec_base \<and>
        unat (fst (qr ?a) + l * p) < dec_base" using c assms(2) by (simp add: qr)
  qed (use assms in simp_all)
  then show ?thesis
    unfolding mp_shr_dec_def using assms(1,2) by (auto simp: returns_def mp_val_sum digits_ok_def)
qed

lemma mp_shl_dec_returns:
  assumes "1 \<le> s" and "s < 19" and "tab_r + n \<le> length m" and "tab + n \<le> length m" and "reads_ok tab_r tab n"
    and "digits_ok dec_base m tab n" and "unat low < 10 ^ s"
  shows "returns (mp_shl_dec m tab_r tab n s low) (\<lambda>(h, m'). only_changes m m' tab_r n \<and> unat h < 10 ^ s \<and>
     digits_ok dec_base m' tab_r n \<and> dval m' tab_r n + unat h * dec_base ^ n = dval m tab n * 10 ^ s + unat low)"
proof -
  obtain p where p: "rd mp_pow_dec s = Some p" "unat p = 10 ^ s" using pow_dec_value [of s] assms(2) by auto
  define qr where "qr a = the (fast_shr_rem_dec a (19 - s))" for a
  have qr: "fast_shr_rem_dec a (19 - s) = Some (fst (qr a), snd (qr a))" "unat (fst (qr a)) = unat a div 10 ^ (19 - s)"
      "unat (snd (qr a)) = unat a mod 10 ^ (19 - s)" for a
    using fast_shr_rem_dec_correct [of "19 - s" a] by (auto simp: qr_def)
  have "(10 :: nat) ^ 19 = 10 ^ s * 10 ^ (19 - s)" using assms(2) by (simp flip: power_add)
  then have split: "dec_base = 10 ^ s * 10 ^ (19 - s)" by simp
  show ?thesis
    unfolding mp_shl_dec_def using assms(1,2)
  proof (simp, intro returns_mono [OF add_loop [where ok = "\<lambda>k. unat k < 10 ^ s" and B = dec_base and r = tab_r
        and s = "\<lambda>i. unat (m ! (tab + i)) * 10 ^ s" and kf = "\<lambda>i k. fst (qr (m ! (tab + i)))"
        and xf = "\<lambda>i k. snd (qr (m ! (tab + i))) * p + k"]], goal_cases)
    case (3 j k m')
    show ?case
      by (simp add: rd_source [OF 3(7) assms(5) 3(5) assms(4)] wr_result [OF 3(7,5) assms(3)] qr(1) p case_prod_beta)
  next
    case (4 j k)
    let ?a = "m ! (tab + j)"
    have "unat ?a div 10 ^ (19 - s) < 10 ^ s"
      using digits_okD [OF assms(6) 4(5)] unfolding split by (rule less_mult_imp_div_less)
    moreover have r: "unat (snd (qr ?a)) < 10 ^ (19 - s)" by (simp add: qr)
    have c: "unat (k + snd (qr ?a) * p) = unat k + unat (snd (qr ?a)) * 10 ^ s" "unat (k + snd (qr ?a) * p) < dec_base"
      using dec_combine [of "19 - s" k "snd (qr ?a)" p] r 4(6) p assms(2) by simp_all
    have "unat (snd (qr ?a) * p + k) + unat (fst (qr ?a)) * dec_base
        = (unat ?a div 10 ^ (19 - s) * 10 ^ (19 - s) + unat ?a mod 10 ^ (19 - s)) * 10 ^ s + unat k"
      unfolding add.commute [of _ k] c qr split by (simp only: distrib_right mult.assoc mult.commute [of "10 ^ s"])
    then have "unat (snd (qr ?a) * p + k) + unat (fst (qr ?a)) * dec_base = unat ?a * 10 ^ s + unat k"
      by (simp only: div_mult_mod_eq)
    ultimately show ?case using c by (simp add: qr add.commute)
  qed (use assms in \<open>auto simp: mp_val_sum sum_distrib_left sum_distrib_right digits_ok_def algebra_simps\<close>)
qed

section \<open>Division by one limb\<close>

text \<open>The three ways \<^verbatim>\<open>mp_div1_dec\<close> divides \<open>r * base + a\<close> by \<open>b\<close>: with the precomputed inverse of a
  normalised divisor, the same after a shift, and with the double limb division.\<close>

lemma dec_dividend:
  assumes "adddq (muldq r BF_DEC_BASE) 0 a = (t1, t0)" and "unat r < unat b" and "unat a < dec_base"
  shows "unat t1 * limb_base + unat t0 = unat r * dec_base + unat a" and "unat t1 < unat b"
    and "unat r * dec_base + unat a < unat b * dec_base"
proof -
  show e: "unat t1 * limb_base + unat t0 = unat r * dec_base + unat a"
    using mul_add_value [of r BF_DEC_BASE a 0 t1 t0] assms(1) by simp
  have "Suc (unat r) * dec_base \<le> unat b * dec_base" using assms(2) by (intro mult_le_mono1) simp
  then show lt: "unat r * dec_base + unat a < unat b * dec_base" using assms(3) by simp
  show "unat t1 < unat b" using e lt by simp
qed

lemma dec_quotient:
  assumes "q * b + r = N" and "N < b * dec_base"
  shows "q < (dec_base :: nat)"
proof -
  have "q * b < dec_base * b" unfolding mult.commute [of dec_base] using assms by linarith
  then show ?thesis by (simp only: mult_less_cancel2)
qed

lemma shifted_pair:
  fixes t1 t0 :: limb
  assumes "0 < s" and "s < 64" and "unat t1 * 2 ^ s < limb_base"
  shows "unat (push_bit s t1 OR drop_bit (64 - s) t0) * limb_base + unat (push_bit s t0)
    = (unat t1 * limb_base + unat t0) * 2 ^ s"
proof -
  have "(2 :: nat) ^ 64 = 2 ^ (64 - s) * 2 ^ s" using assms(2) by (simp flip: power_add)
  then have split: "limb_base = 2 ^ (64 - s) * 2 ^ s" "limb_base = 2 ^ s * 2 ^ (64 - s)" by (simp_all add: mult.commute)
  have d: "unat (drop_bit (64 - s) t0) = unat t0 div 2 ^ (64 - s)" by (rule unat_drop_div)
  have "unat (drop_bit (64 - s) t0) < 2 ^ s"
    unfolding d using limb_less [of t0] unfolding split(2) by (rule less_mult_imp_div_less)
  then have hi: "unat (push_bit s t1 OR drop_bit (64 - s) t0) = unat t1 * 2 ^ s + unat t0 div 2 ^ (64 - s)"
    using assms(3) d by (subst unat_push_or) simp_all
  have lo: "unat (push_bit s t0) = (unat t0 mod 2 ^ (64 - s)) * 2 ^ s"
    using assms(2) unfolding unsigned_push_bit_eq take_bit_push_bit by (simp add: push_bit_eq_mult take_bit_eq_mod)
  have "unat t0 div 2 ^ (64 - s) * limb_base + (unat t0 mod 2 ^ (64 - s)) * 2 ^ s
      = (unat t0 div 2 ^ (64 - s) * 2 ^ (64 - s) + unat t0 mod 2 ^ (64 - s)) * 2 ^ s"
    unfolding split(1) by (simp add: distrib_right mult.assoc)
  then have "unat t0 div 2 ^ (64 - s) * limb_base + (unat t0 mod 2 ^ (64 - s)) * 2 ^ s = unat t0 * 2 ^ s"
    by (simp only: div_mult_mod_eq)
  then show ?thesis unfolding hi lo by (simp add: distrib_right)
qed

lemma udiv_shifted:
  fixes t1 t0 :: limb
  assumes s: "0 < s" "s < 64" "2 ^ 63 \<le> unat b * 2 ^ s" "unat b * 2 ^ s < limb_base" and "unat t1 < unat b"
    and "udiv1norm (push_bit s t1 OR drop_bit (64 - s) t0) (push_bit s t0) (push_bit s b) (udiv1norm_init (push_bit s b)) = (q, r)"
  shows "unat q * unat b + unat (drop_bit s r) = unat t1 * limb_base + unat t0 \<and> unat (drop_bit s r) < unat b"
proof -
  let ?t1 = "push_bit s t1 OR drop_bit (64 - s) t0" and ?N = "unat t1 * limb_base + unat t0"
  have b: "unat (push_bit s b) = unat b * 2 ^ s"
    using unat_push_or [of b s 0] s(4) by simp
  have "unat t1 * 2 ^ s < unat b * 2 ^ s" using assms(5) by simp
  then have "unat t1 * 2 ^ s < limb_base" using s(4) by (rule less_trans)
  note p = shifted_pair [OF s(1,2) this, of t0]
  have "?N < unat b * limb_base"
    using assms(5) mult_le_mono1 [of "Suc (unat t1)" "unat b" limb_base] limb_less [of t0] by simp
  then have "?N * 2 ^ s < unat b * limb_base * 2 ^ s" by simp
  then have "unat ?t1 * limb_base < unat b * 2 ^ s * limb_base" unfolding p [symmetric] by (simp add: ac_simps)
  then have t1: "unat ?t1 < unat (push_bit s b)" unfolding b by (simp only: mult_less_cancel2)
  have qr: "unat q * (unat b * 2 ^ s) + unat r = ?N * 2 ^ s" "unat r < unat b * 2 ^ s"
    using udiv1norm_correct [OF _ t1 assms(6)] s(3) by (simp_all add: b p)
  have "2 ^ s dvd unat q * (unat b * 2 ^ s) + unat r" unfolding qr(1) by simp
  then have "2 ^ s dvd unat r" by (simp add: dvd_add_right_iff)
  then have r: "unat r = unat (drop_bit s r) * 2 ^ s" unfolding unat_drop_div by simp
  have "(unat q * unat b + unat (drop_bit s r)) * 2 ^ s = ?N * 2 ^ s" using qr(1) r by (simp add: algebra_simps)
  moreover have "unat (drop_bit s r) * 2 ^ s < unat b * 2 ^ s" using qr(2) r by simp
  ultimately show ?thesis by simp
qed

definition div1_step :: "(limb \<Rightarrow> limb \<Rightarrow> limb \<times> limb) \<Rightarrow> limb \<Rightarrow> bool" where
  "div1_step dv b \<longleftrightarrow> (\<forall>t1 t0 q r. unat t1 < unat b \<longrightarrow> dv t1 t0 = (q, r) \<longrightarrow>
     unat q * unat b + unat r = unat t1 * limb_base + unat t0 \<and> unat r < unat b)"

lemma div1_dec_loop:
  assumes dv: "div1_step dv b" and "unat r < unat b"
    and "tabr + n \<le> length m" and "taba + n \<le> length m" and "reads_down tabr taba n" and "digits_ok dec_base m taba n"
  shows "returns (for_down (\<lambda>i (r, m). do { a \<leftarrow> rd m (taba + i);
        let (t1, t0) = adddq (muldq r BF_DEC_BASE) 0 a; let (q, r) = dv t1 t0; m \<leftarrow> wr m (tabr + i) q; Some (r, m) }) n (r, m))
     (\<lambda>(r', m'). only_changes m m' tabr n \<and> unat r' < unat b \<and> digits_ok dec_base m' tabr n \<and>
       dval m' tabr n * unat b + unat r' = dval m taba n + unat r * dec_base ^ n)"
proof -
  define g where "g i r = (case adddq (muldq r BF_DEC_BASE) 0 (m ! (taba + i)) of (t1, t0) \<Rightarrow> dv t1 t0)" for i r
  have step: "unat (snd (g j k)) < unat b \<and> unat (fst (g j k)) * unat b + unat (snd (g j k)) = unat (m ! (taba + j)) + unat k * dec_base \<and>
      unat (fst (g j k)) < dec_base" if j: "j < n" and k: "unat k < unat b" for j k
  proof -
    obtain t1 t0 where t: "adddq (muldq k BF_DEC_BASE) 0 (m ! (taba + j)) = (t1, t0)" by (rule prod.exhaust)
    obtain q r where qr: "dv t1 t0 = (q, r)" by (rule prod.exhaust)
    note d = dec_dividend [OF t k digits_okD [OF assms(6) j]]
    have "unat q * unat b + unat r = unat k * dec_base + unat (m ! (taba + j))" "unat r < unat b"
      using dv d(1,2) qr by (auto simp: div1_step_def)
    moreover from this(1) d(3) have "unat q < dec_base" by (rule dec_quotient)
    ultimately show ?thesis by (simp add: g_def t qr)
  qed
  show ?thesis
  proof (rule returns_mono [OF div_loop [where ok = "\<lambda>r. unat r < unat b" and rv = unat and B = dec_base and r = tabr
      and s = "\<lambda>i. unat (m ! (taba + i))" and D = "unat b"
      and kf = "\<lambda>i r. snd (g i r)" and xf = "\<lambda>i r. fst (g i r)"]], goal_cases)
    case (3 j k m')
    then show ?case using assms by (simp add: rd_source_down wr_result_down g_def case_prod_beta)
  next
    case (4 j k)
    then show ?case by (rule step)
  qed (use assms in \<open>auto simp: mp_val_sum digits_ok_def\<close>)
qed

lemma mp_div1_dec_returns:
  assumes "b \<noteq> 0" and "unat r < unat b" and "tabr + n \<le> length m" and "taba + n \<le> length m"
    and "reads_down tabr taba n" and "digits_ok dec_base m taba n"
  shows "returns (mp_div1_dec m tabr taba n b r) (\<lambda>(r', m'). only_changes m m' tabr n \<and> unat r' < unat b \<and>
     digits_ok dec_base m' tabr n \<and> dval m' tabr n * unat b + unat r' = dval m taba n + unat r * dec_base ^ n)"
proof (cases "b = 2")
  case True
  have "unat r = 0 \<or> unat r = 1" using assms(2) True by auto
  then have r1: "r = 0 \<or> r = 1" by (simp add: word_unat_eq_iff)
  define h where "h = drop_bit 1 BF_DEC_BASE"
  have h: "unat h = 5000000000000000000" by (simp add: h_def unat_drop_div)
  then have h0: "h \<noteq> 0" by auto
  let ?rv = "\<lambda>k :: limb. of_bool (k \<noteq> 0) :: nat"
  have "returns (for_down (\<lambda>i (r, m). do { t0 \<leftarrow> rd m (taba + i); m \<leftarrow> wr m (tabr + i) (drop_bit 1 t0 + r);
         let r = (if t0 AND 1 \<noteq> 0 then h else 0); Some (r, m) }) n (if r \<noteq> 0 then h else r, m))
      (\<lambda>(k, m'). only_changes m m' tabr n \<and> (k = 0 \<or> k = h) \<and> (\<forall>i < n. unat (m' ! (tabr + i)) < dec_base) \<and>
        dval m' tabr n * 2 + ?rv k = (\<Sum>i<n. unat (m ! (taba + i)) * dec_base ^ i) + ?rv (if r \<noteq> 0 then h else r) * dec_base ^ n)"
  proof (rule div_loop [where kf = "\<lambda>i k. if m ! (taba + i) AND 1 \<noteq> 0 then h else 0" and xf = "\<lambda>i k. drop_bit 1 (m ! (taba + i)) + k"])
    fix j k m'
    assume "j < n" "only_changes m m' (tabr + Suc j) (n - Suc j)"
    then show "(case (k, m') of (r, m) \<Rightarrow> do { t0 \<leftarrow> rd m (taba + j); m \<leftarrow> wr m (tabr + j) (drop_bit 1 t0 + r);
         let r = (if t0 AND 1 \<noteq> 0 then h else 0); Some (r, m) })
      = Some (if m ! (taba + j) AND 1 \<noteq> 0 then h else 0, m'[tabr + j := drop_bit 1 (m ! (taba + j)) + k])"
      using assms by (simp add: rd_source_down wr_result_down)
  next
    fix j k
    assume j: "j < n" and k: "k = 0 \<or> k = h"
    let ?a = "m ! (taba + j)"
    note d = digits_okD [OF assms(6) j]
    have odd: "(?a AND 1 \<noteq> 0) = (unat ?a mod 2 = 1)"
      by (simp add: and_one_eq word_unat_eq_iff unat_mod)
    have x: "unat (drop_bit 1 ?a + k) = unat ?a div 2 + unat k"
      using k h d by (subst unat_add_small) (auto simp: unat_drop_div)
    show "((if ?a AND 1 \<noteq> 0 then h else 0) = 0 \<or> (if ?a AND 1 \<noteq> 0 then h else 0) = h) \<and>
        unat (drop_bit 1 ?a + k) * 2 + ?rv (if ?a AND 1 \<noteq> 0 then h else 0) = unat ?a + ?rv k * dec_base \<and>
        unat (drop_bit 1 ?a + k) < dec_base"
      unfolding odd x using k h h0 d by (auto, presburger+)
  qed (use assms in auto)
  then show ?thesis
    unfolding mp_div1_dec_def h_def [symmetric] Let_def using True r1 h0
    by (auto simp: returns_def mp_val_sum digits_ok_def split: if_splits)
next
  case False
  obtain s where s: "limb_clz b = Some s" "s < 64" "2 ^ 63 \<le> unat b * 2 ^ s" "unat b * 2 ^ s < limb_base"
    using clz64_value [OF assms(1)] assms(1) by (auto simp: limb_clz_def)
  note loop = div1_dec_loop [OF _ assms(2-6)]
  have norm: "div1_step (\<lambda>t1 t0. udiv1norm t1 t0 b (udiv1norm_init b)) b" if "s = 0"
    using udiv1norm_correct [of b] s(3) that by (simp add: div1_step_def)
  have shifted: "div1_step (\<lambda>t1 t0. map_prod id (drop_bit s) (udiv1norm (push_bit s t1 OR drop_bit (64 - s) t0) (push_bit s t0)
      (push_bit s b) (udiv1norm_init (push_bit s b)))) b" if "s \<noteq> 0"
    using udiv_shifted [of s b] s that by (auto simp: div1_step_def map_prod_def split: prod.splits)
  have plain: "div1_step (\<lambda>t1 t0. divdq t1 t0 b) b"
    using dlimb_div_correct [of _ b] assms(1) by (auto simp: div1_step_def divdq_def Let_def)
  show ?thesis
    using loop [OF norm] loop [OF shifted] loop [OF plain] False s(1)
    by (cases "s = 0") (simp_all add: mp_div1_dec_def Let_def case_prod_beta map_prod_def)
qed

end
