(* ===== verification/RunSearch.thy ===== *)
theory RunSearch
  imports CPrelude
begin

text \<open>
  The binary searches of \<^verbatim>\<open>libunicode.c\<close> over tables of runs of code points.  Every table packs the
  first code point and the length of a run into a 32-bit entry in its own way; the loops are the
  same.  The locale \<open>run_search\<close> states the loop by its equation.
\<close>

definition in_span :: "(u32 \<Rightarrow> 'c::{linorder,plus}) \<Rightarrow> (u32 \<Rightarrow> 'c) \<Rightarrow> u32 \<Rightarrow> 'c \<Rightarrow> bool" where
  "in_span code len v c \<longleftrightarrow> code v \<le> c \<and> c < code v + len v"

fun spans_sorted :: "(u32 \<Rightarrow> 'c::{linorder,plus}) \<Rightarrow> (u32 \<Rightarrow> 'c) \<Rightarrow> u32 list \<Rightarrow> bool" where
  "spans_sorted code len (v # w # vs) \<longleftrightarrow> code v + len v \<le> code w \<and> spans_sorted code len (w # vs)"
| "spans_sorted code len _ = True"

locale run_search =
  fixes code len :: "u32 \<Rightarrow> 'c::{linorder,plus}"
    and find :: "u32 list \<Rightarrow> 'c \<Rightarrow> int \<Rightarrow> int \<Rightarrow> nat option option"
  assumes span_fits: "code v \<le> code v + len v"
    and find_eq: "find tab c idx_min idx_max =
     (if idx_min \<le> idx_max then
        do { let idx = (idx_max + idx_min) div 2;
             v \<leftarrow> (if idx < 0 then None else rd tab (nat idx));
             let first = code v;
             let n = len v;
             if c < first then find tab c idx_min (idx - 1)
             else if c \<ge> first + n then find tab c (idx + 1) idx_max
             else Some (Some (nat idx)) }
      else Some None)"
begin

lemma spans_sorted_nth:
  assumes "spans_sorted code len vs" "i < j" "j < length vs"
  shows "code (vs ! i) + len (vs ! i) \<le> code (vs ! j)"
  using assms
proof (induction vs arbitrary: i j rule: induct_list012)
  case (3 v w vs)
  obtain j' where j: "j = Suc j'" using "3.prems"(2) by (cases j) auto
  have step: "code w \<le> code ((w # vs) ! j')"
  proof (cases j')
    case (Suc k)
    have "code w + len w \<le> code ((w # vs) ! j')"
      using "3.IH"(2) [of 0 j'] "3.prems" Suc j by simp
    then show ?thesis by (rule order_trans [OF span_fits])
  qed simp
  show ?case
  proof (cases i)
    case 0
    then show ?thesis using "3.prems" order_trans [OF _ step] j by simp
  next
    case (Suc i')
    then show ?thesis using "3.IH"(2) [of i' j'] "3.prems" j by simp
  qed
qed auto

lemma find_spec:
  assumes "0 \<le> lo" "hi < int (length tab)" "spans_sorted code len tab"
  shows "\<exists>r. find tab c lo hi = Some r \<and>
     (case r of None \<Rightarrow> \<forall>j. lo \<le> int j \<and> int j \<le> hi \<longrightarrow> \<not> in_span code len (tab ! j) c
              | Some i \<Rightarrow> i < length tab \<and> in_span code len (tab ! i) c)"
  using assms
proof (induction "nat (hi - lo + 1)" arbitrary: lo hi rule: less_induct)
  case less
  note prems = less.prems
  show ?case
  proof (cases "lo \<le> hi")
    case False
    then show ?thesis by (subst find_eq) auto
  next
    case True
    define idx where "idx = (hi + lo) div 2"
    have idx: "lo \<le> idx" "idx \<le> hi" "0 \<le> idx" "nat idx < length tab"
      using True prems by (auto simp: idx_def)
    define v where "v = tab ! nat idx"
    have rd: "(if idx < 0 then None else rd tab (nat idx)) = Some v"
      using idx by (simp add: rd_Some v_def)
    consider (below) "c < code v" | (above) "\<not> c < code v" "code v + len v \<le> c"
      | (here) "in_span code len v c" by (metis in_span_def not_less)
    then show ?thesis
    proof cases
      case below
      have out: "\<not> in_span code len (tab ! j) c" if "idx \<le> int j" "int j \<le> hi" for j
      proof (cases "int j = idx")
        case True
        then show ?thesis using below by (auto simp: in_span_def v_def)
      next
        case False
        then have "code v + len v \<le> code (tab ! j)"
          using that idx prems spans_sorted_nth [OF prems(3), of "nat idx" j] by (auto simp: v_def)
        then have "code v \<le> code (tab ! j)"
          by (rule order_trans [OF span_fits])
        then show ?thesis using below by (auto simp: in_span_def)
      qed
      have eq: "find tab c lo hi = find tab c lo (idx - 1)"
        using True rd below by (subst find_eq) (simp add: Let_def idx_def [symmetric])
      have "\<exists>r. find tab c lo (idx - 1) = Some r \<and>
         (case r of None \<Rightarrow> \<forall>j. lo \<le> int j \<and> int j \<le> idx - 1 \<longrightarrow> \<not> in_span code len (tab ! j) c
              | Some i \<Rightarrow> i < length tab \<and> in_span code len (tab ! i) c)"
        using less.hyps [of "idx - 1" lo] prems idx by simp
      then obtain r where r: "find tab c lo (idx - 1) = Some r"
          "case r of None \<Rightarrow> \<forall>j. lo \<le> int j \<and> int j \<le> idx - 1 \<longrightarrow> \<not> in_span code len (tab ! j) c
              | Some i \<Rightarrow> i < length tab \<and> in_span code len (tab ! i) c" by blast
      have "\<not> in_span code len (tab ! j) c" if "r = None" "lo \<le> int j" "int j \<le> hi" for j
        using r(2) that out [of j] by (cases "idx \<le> int j") auto
      then show ?thesis unfolding eq using r by (cases r) auto
    next
      case above
      have out: "\<not> in_span code len (tab ! j) c" if "int j \<le> idx" for j
      proof (cases "int j = idx")
        case True
        then show ?thesis using above by (auto simp: in_span_def v_def)
      next
        case False
        then have "code (tab ! j) + len (tab ! j) \<le> code v"
          using that idx prems spans_sorted_nth [OF prems(3), of j "nat idx"] by (auto simp: v_def)
        then show ?thesis using above by (auto simp: in_span_def)
      qed
      have eq: "find tab c lo hi = find tab c (idx + 1) hi"
        using True rd above by (subst find_eq) (simp add: Let_def idx_def [symmetric])
      have "\<exists>r. find tab c (idx + 1) hi = Some r \<and>
         (case r of None \<Rightarrow> \<forall>j. idx + 1 \<le> int j \<and> int j \<le> hi \<longrightarrow> \<not> in_span code len (tab ! j) c
              | Some i \<Rightarrow> i < length tab \<and> in_span code len (tab ! i) c)"
        using less.hyps [of hi "idx + 1"] prems idx by simp
      then obtain r where r: "find tab c (idx + 1) hi = Some r"
          "case r of None \<Rightarrow> \<forall>j. idx + 1 \<le> int j \<and> int j \<le> hi \<longrightarrow> \<not> in_span code len (tab ! j) c
              | Some i \<Rightarrow> i < length tab \<and> in_span code len (tab ! i) c" by blast
      have "\<not> in_span code len (tab ! j) c" if "r = None" "lo \<le> int j" "int j \<le> hi" for j
        using r(2) that out [of j] by (cases "int j \<le> idx") auto
      then show ?thesis unfolding eq using r by (cases r) auto
    next
      case here
      then have "find tab c lo hi = Some (Some (nat idx))"
        using True rd by (subst find_eq) (auto simp: Let_def idx_def [symmetric] in_span_def)
      then show ?thesis using here idx by (simp add: v_def)
    qed
  qed
qed

lemma table_find:
  assumes "spans_sorted code len tab"
  shows "\<exists>r. find tab c 0 (int (length tab) - 1) = Some r \<and>
     (case r of None \<Rightarrow> \<forall>v \<in> set tab. \<not> in_span code len v c
              | Some i \<Rightarrow> i < length tab \<and> in_span code len (tab ! i) c)"
proof -
  obtain r where r: "find tab c 0 (int (length tab) - 1) = Some r"
    and c: "case r of None \<Rightarrow> \<forall>j. 0 \<le> int j \<and> int j \<le> int (length tab) - 1 \<longrightarrow> \<not> in_span code len (tab ! j) c
              | Some i \<Rightarrow> i < length tab \<and> in_span code len (tab ! i) c"
    using find_spec [of 0 "int (length tab) - 1" tab c] assms by auto
  have "case r of None \<Rightarrow> \<forall>v \<in> set tab. \<not> in_span code len v c
              | Some i \<Rightarrow> i < length tab \<and> in_span code len (tab ! i) c"
    using c by (cases r) (auto simp: in_set_conv_nth)
  then show ?thesis using r by blast
qed

end

end
