(* ===== verification/UnicodeCase.thy ===== *)
theory UnicodeCase
  imports UnicodeTable RunSearch
begin

text \<open>
  Case conversion and the table driven character tests of \<^verbatim>\<open>libunicode.c\<close>: \<^verbatim>\<open>lre_case_conv\<close>,
  \<^verbatim>\<open>get_index_pos\<close>, \<^verbatim>\<open>lre_is_in_table\<close>, \<^verbatim>\<open>lre_is_cased\<close>, \<^verbatim>\<open>lre_is_case_ignorable\<close>,
  \<^verbatim>\<open>lre_is_id_start\<close> and \<^verbatim>\<open>lre_is_id_continue\<close>.
\<close>

section \<open>Run types\<close>

definition RUN_TYPE_U :: u32 where "RUN_TYPE_U = 0"
definition RUN_TYPE_L :: u32 where "RUN_TYPE_L = 1"
definition RUN_TYPE_UF :: u32 where "RUN_TYPE_UF = 2"
definition RUN_TYPE_LF :: u32 where "RUN_TYPE_LF = 3"
definition RUN_TYPE_UL :: u32 where "RUN_TYPE_UL = 4"
definition RUN_TYPE_LSU :: u32 where "RUN_TYPE_LSU = 5"
definition RUN_TYPE_U2L_399_EXT2 :: u32 where "RUN_TYPE_U2L_399_EXT2 = 6"
definition RUN_TYPE_UF_D20 :: u32 where "RUN_TYPE_UF_D20 = 7"
definition RUN_TYPE_UF_D1_EXT :: u32 where "RUN_TYPE_UF_D1_EXT = 8"
definition RUN_TYPE_U_EXT :: u32 where "RUN_TYPE_U_EXT = 9"
definition RUN_TYPE_LF_EXT :: u32 where "RUN_TYPE_LF_EXT = 10"
definition RUN_TYPE_U_EXT2 :: u32 where "RUN_TYPE_U_EXT2 = 11"
definition RUN_TYPE_L_EXT2 :: u32 where "RUN_TYPE_L_EXT2 = 12"
definition RUN_TYPE_U_EXT3 :: u32 where "RUN_TYPE_U_EXT3 = 13"

lemmas run_type_defs = RUN_TYPE_U_def RUN_TYPE_L_def RUN_TYPE_UF_def RUN_TYPE_LF_def RUN_TYPE_UL_def
  RUN_TYPE_LSU_def RUN_TYPE_U2L_399_EXT2_def RUN_TYPE_UF_D20_def RUN_TYPE_UF_D1_EXT_def
  RUN_TYPE_U_EXT_def RUN_TYPE_LF_EXT_def RUN_TYPE_U_EXT2_def RUN_TYPE_L_EXT2_def RUN_TYPE_U_EXT3_def

section \<open>Case conversion\<close>

definition run_code :: "u32 \<Rightarrow> u32" where
  "run_code v = drop_bit (32 - 17) v"

definition run_len :: "u32 \<Rightarrow> u32" where
  "run_len v = drop_bit (32 - 17 - 7) v AND 0x7f"

definition run_type :: "u32 \<Rightarrow> u32" where
  "run_type v = drop_bit (32 - 17 - 7 - 4) v AND 0xf"

text \<open>The binary search of \<^verbatim>\<open>lre_case_conv\<close> and \<^verbatim>\<open>lre_is_cased\<close>: \<open>Some None\<close> when no run contains
  \<open>c\<close>, otherwise the index of the run.\<close>

function case_conv_find :: "u32 list \<Rightarrow> u32 \<Rightarrow> int \<Rightarrow> int \<Rightarrow> nat option option" where
  "case_conv_find tab c idx_min idx_max =
     (if idx_min \<le> idx_max then
        do { let idx = (idx_max + idx_min) div 2;
             v \<leftarrow> (if idx < 0 then None else rd tab (nat idx));
             let code = run_code v;
             let len = run_len v;
             if c < code then case_conv_find tab c idx_min (idx - 1)
             else if c \<ge> code + len then case_conv_find tab c (idx + 1) idx_max
             else Some (Some (nat idx)) }
      else Some None)"
  by pat_completeness auto
termination
  by (relation "measure (\<lambda>(tab, c, idx_min, idx_max). nat (idx_max - idx_min + 1))") auto

declare case_conv_find.simps [simp del]

definition ext :: "u32 \<Rightarrow> u32 option" where
  "ext i = map_option ucast (rd case_conv_ext (unat i))"

text \<open>The \<^verbatim>\<open>switch\<close> on the type of the run that contains \<open>c\<close>; \<^verbatim>\<open>break\<close> leaves it with the one
  code point \<open>c\<close>.\<close>

definition case_conv_run :: "u32 \<Rightarrow> int \<Rightarrow> u32 \<Rightarrow> u32 \<Rightarrow> u32 list option" where
  "case_conv_run c conv_type v data =
     (let code = run_code v;
          ty = run_type v;
          is_lower = (of_bool (conv_type \<noteq> 0) :: u32)
      in
      if ty = RUN_TYPE_U \<or> ty = RUN_TYPE_L \<or> ty = RUN_TYPE_UF \<or> ty = RUN_TYPE_LF then
        (if conv_type = uint (ty AND 1) \<or> (ty \<ge> RUN_TYPE_UF \<and> conv_type = 2)
         then do { w \<leftarrow> rd case_conv_table1 (unat data); Some [c - code + run_code w] }
         else Some [c])
      else if ty = RUN_TYPE_UL then
        (let a = c - code in
         if (a AND 1) \<noteq> 1 - is_lower then Some [c] else Some [(a XOR 1) + code])
      else if ty = RUN_TYPE_LSU then
        (let a = c - code in
         if a = 1 then Some [c + (2 * is_lower - 1)]
         else if a = (1 - is_lower) * 2 then Some [c + (2 * is_lower - 1) * 2]
         else Some [c])
      else if ty = RUN_TYPE_U2L_399_EXT2 then
        (if is_lower = 0
         then do { e \<leftarrow> ext (drop_bit 6 data); Some [c - code + e, 0x399] }
         else do { e \<leftarrow> ext (data AND 0x3f); Some [c - code + e] })
      else if ty = RUN_TYPE_UF_D20 then
        (if conv_type = 1 then Some [c] else Some [data + of_bool (conv_type = 2) * 0x20])
      else if ty = RUN_TYPE_UF_D1_EXT then
        (if conv_type = 1 then Some [c]
         else do { e \<leftarrow> ext data; Some [e + of_bool (conv_type = 2)] })
      else if ty = RUN_TYPE_U_EXT \<or> ty = RUN_TYPE_LF_EXT then
        (if is_lower \<noteq> ty - RUN_TYPE_U_EXT then Some [c]
         else do { e \<leftarrow> ext data; Some [e] })
      else if ty = RUN_TYPE_U_EXT2 \<or> ty = RUN_TYPE_L_EXT2 then
        (if conv_type \<noteq> uint (ty - RUN_TYPE_U_EXT2) then Some [c]
         else do { e0 \<leftarrow> ext (drop_bit 6 data);
                   e1 \<leftarrow> ext (data AND 0x3f);
                   Some [c - code + e0, e1] })
      else
        (if conv_type \<noteq> 0 then Some [c]
         else do { e0 \<leftarrow> ext (drop_bit 8 data);
                   e1 \<leftarrow> ext (drop_bit 4 data AND 0xf);
                   e2 \<leftarrow> ext (data AND 0xf);
                   Some [e0, e1, e2] }))"

text \<open>The result is the list of the code points stored in \<^verbatim>\<open>res\<close>; its length is the value
  returned.\<close>

definition lre_case_conv :: "u32 \<Rightarrow> int \<Rightarrow> u32 list option" where
  "lre_case_conv c conv_type =
     (if c < 128 then
        if conv_type \<noteq> 0
        then Some [if 65 \<le> c \<and> c \<le> 90 then c - 65 + 97 else c]
        else Some [if 97 \<le> c \<and> c \<le> 122 then c - 97 + 65 else c]
      else
        do { r \<leftarrow> case_conv_find case_conv_table1 c 0 (int (length case_conv_table1) - 1);
             case r of
               None \<Rightarrow> Some [c]
             | Some idx \<Rightarrow>
                 do { v \<leftarrow> rd case_conv_table1 idx;
                      d \<leftarrow> rd case_conv_table2 idx;
                      case_conv_run c conv_type v (push_bit 8 (v AND 0xf) OR ucast d) } })"

section \<open>Indexed character sets\<close>

definition get_le24 :: "u8 list \<Rightarrow> nat \<Rightarrow> u32 option" where
  "get_le24 m p =
     do { a \<leftarrow> rd m p; b \<leftarrow> rd m (p + 1); c \<leftarrow> rd m (p + 2);
          Some (ucast a OR push_bit 8 (ucast b) OR push_bit 16 (ucast c)) }"

function get_index_pos_loop :: "u8 list \<Rightarrow> u32 \<Rightarrow> nat \<Rightarrow> nat \<Rightarrow> nat option" where
  "get_index_pos_loop index_table c idx_min idx_max =
     (if idx_max - idx_min > 1 then
        do { let idx = (idx_max + idx_min) div 2;
             v \<leftarrow> get_le24 index_table (idx * 3);
             let code = v AND (push_bit 21 1 - 1);
             if c < code then get_index_pos_loop index_table c idx_min idx
             else get_index_pos_loop index_table c idx idx_max }
      else Some idx_min)"
  by pat_completeness auto
termination
  by (relation "measure (\<lambda>(index_table, c, idx_min, idx_max). idx_max - idx_min)") auto

declare get_index_pos_loop.simps [simp del]

text \<open>The result is \<open>Some None\<close> for \<^verbatim>\<open>-1\<close>, otherwise the offset in the table and \<^verbatim>\<open>*pcode\<close>.\<close>

definition get_index_pos :: "u32 \<Rightarrow> u8 list \<Rightarrow> nat \<Rightarrow> (nat \<times> u32) option option" where
  "get_index_pos c index_table index_table_len =
     do { v \<leftarrow> get_le24 index_table 0;
          let code = v AND (push_bit 21 1 - 1);
          if c < code then Some (Some (0, 0))
          else do {
            c_assert (0 < index_table_len);
            let idx_max = index_table_len - 1;
            code \<leftarrow> get_le24 index_table (idx_max * 3);
            if c \<ge> code then Some None
            else do {
              idx_min \<leftarrow> get_index_pos_loop index_table c 0 idx_max;
              v \<leftarrow> get_le24 index_table (idx_min * 3);
              Some (Some ((idx_min + 1) * 32 + unat (drop_bit 21 v), v AND (push_bit 21 1 - 1))) } } }"

function lre_is_in_table_loop :: "u32 \<Rightarrow> u8 list \<Rightarrow> nat \<Rightarrow> u32 \<Rightarrow> bool \<Rightarrow> bool option" where
  "lre_is_in_table_loop c tab p code b0 =
     do { b8 \<leftarrow> rd tab p;
          let b = (ucast b8 :: u32);
          if b < 64 then
            do { let code = code + (drop_bit 3 b + 1);
                 if c < code then Some b0
                 else do {
                   let b0 = (\<not> b0);
                   let code = code + ((b AND 7) + 1);
                   if c < code then Some b0 else lre_is_in_table_loop c tab (p + 1) code (\<not> b0) } }
          else if b \<ge> 0x80 then
            do { let code = code + (b - 0x80 + 1);
                 if c < code then Some b0 else lre_is_in_table_loop c tab (p + 1) code (\<not> b0) }
          else if b < 0x60 then
            do { p0 \<leftarrow> rd tab (p + 1);
                 let code = code + ((push_bit 8 (b - 0x40) OR ucast p0) + 1);
                 if c < code then Some b0 else lre_is_in_table_loop c tab (p + 2) code (\<not> b0) }
          else
            do { p0 \<leftarrow> rd tab (p + 1);
                 p1 \<leftarrow> rd tab (p + 2);
                 let code = code + ((push_bit 16 (b - 0x60) OR push_bit 8 (ucast p0) OR ucast p1) + 1);
                 if c < code then Some b0 else lre_is_in_table_loop c tab (p + 3) code (\<not> b0) } }"
  by pat_completeness auto
termination
  by (relation "measure (\<lambda>(c, tab, p, code, b0). length tab - p)") (auto simp: rd_eq_Some_iff)

declare lre_is_in_table_loop.simps [simp del]

definition lre_is_in_table :: "u32 \<Rightarrow> u8 list \<Rightarrow> u8 list \<Rightarrow> nat \<Rightarrow> bool option" where
  "lre_is_in_table c tab index_table index_table_len =
     do { r \<leftarrow> get_index_pos c index_table index_table_len;
          case r of
            None \<Rightarrow> Some False
          | Some (pos, code) \<Rightarrow> lre_is_in_table_loop c tab pos code False }"

definition lre_is_cased :: "u32 \<Rightarrow> bool option" where
  "lre_is_cased c =
     do { r \<leftarrow> case_conv_find case_conv_table1 c 0 (int (length case_conv_table1) - 1);
          if r \<noteq> None then Some True
          else lre_is_in_table c unicode_prop_Cased1_table unicode_prop_Cased1_index
                 (length unicode_prop_Cased1_index div 3) }"

definition lre_is_case_ignorable :: "u32 \<Rightarrow> bool option" where
  "lre_is_case_ignorable c =
     lre_is_in_table c unicode_prop_Case_Ignorable_table unicode_prop_Case_Ignorable_index
       (length unicode_prop_Case_Ignorable_index div 3)"

definition lre_is_id_start :: "u32 \<Rightarrow> bool option" where
  "lre_is_id_start c =
     lre_is_in_table c unicode_prop_ID_Start_table unicode_prop_ID_Start_index
       (length unicode_prop_ID_Start_index div 3)"

definition lre_is_id_continue :: "u32 \<Rightarrow> bool option" where
  "lre_is_id_continue c =
     do { r \<leftarrow> lre_is_id_start c;
          if r then Some True
          else lre_is_in_table c unicode_prop_ID_Continue1_table unicode_prop_ID_Continue1_index
                 (length unicode_prop_ID_Continue1_index div 3) }"

section \<open>The binary search finds the run\<close>

definition in_run :: "u32 \<Rightarrow> u32 \<Rightarrow> bool" where
  "in_run v c \<longleftrightarrow> run_code v \<le> c \<and> c < run_code v + run_len v"

lemma run_code_bound: "uint (run_code v) < 2 ^ 17"
proof -
  have "uint (run_code v) = uint v div 2 ^ 15"
    by (simp add: run_code_def drop_bit_eq_div uint_div)
  then show ?thesis using uint_lt2p [of v] by simp
qed

lemma run_len_bound: "uint (run_len v) < 2 ^ 7"
proof -
  have "run_len v = take_bit 7 (drop_bit (32 - 17 - 7) v)"
    by (simp add: run_len_def take_bit_eq_mask mask_eq_exp_minus_1)
  then show ?thesis by (simp add: take_bit_eq_mod uint_mod)
qed

lemma run_end: "uint (run_code v + run_len v) = uint (run_code v) + uint (run_len v)"
  using run_code_bound [of v] run_len_bound [of v] by (simp add: uint_word_ariths)

lemma run_code_le_end: "run_code v \<le> run_code v + run_len v"
proof -
  have "0 \<le> uint (run_len v)" by simp
  then show ?thesis unfolding word_le_def run_end by linarith
qed

interpretation case_runs: run_search run_code run_len case_conv_find
proof
  show "run_code v \<le> run_code v + run_len v" for v by (rule run_code_le_end)
qed (subst case_conv_find.simps, rule refl)

section \<open>The case conversion tables\<close>

definition run_ok :: "u32 \<Rightarrow> u8 \<Rightarrow> bool" where
  "run_ok v d \<longleftrightarrow>
     (let data = push_bit 8 (v AND 0xf) OR ucast d; ty = run_type v in
      if ty < 4 then data < 370
      else if ty = 6 \<or> ty = 11 \<or> ty = 12 then drop_bit 6 data < 58 \<and> data AND 0x3f < 58
      else if ty = 8 \<or> ty = 9 \<or> ty = 10 then data < 58
      else if ty = 4 \<or> ty = 5 \<or> ty = 7 then True
      else drop_bit 8 data < 58 \<and> drop_bit 4 data AND 0xf < 58 \<and> data AND 0xf < 58)"

lemma case_conv_lengths:
  "length case_conv_table1 = 370" "length case_conv_table2 = 370" "length case_conv_ext = 58"
  by code_simp+

lemma case_conv_table1_sorted: "spans_sorted run_code run_len case_conv_table1"
  by code_simp

lemma case_conv_runs_ok: "list_all2 run_ok case_conv_table1 case_conv_table2"
  by code_simp

lemma ext_defined: "i < 58 \<Longrightarrow> \<exists>e. ext i = Some e"
  using unat_mono [of i 58] by (simp add: ext_def rd_def case_conv_lengths)

lemma case_conv_run_defined:
  assumes "run_ok v d" and data: "data = push_bit 8 (v AND 0xf) OR ucast d"
  shows "\<exists>res. case_conv_run c conv_type v data = Some res \<and> 1 \<le> length res \<and> length res \<le> 3"
proof -
  define ty where "ty = run_type v"
  have ok: "if ty < 4 then data < 370
      else if ty = 6 \<or> ty = 11 \<or> ty = 12 then drop_bit 6 data < 58 \<and> data AND 0x3f < 58
      else if ty = 8 \<or> ty = 9 \<or> ty = 10 then data < 58
      else if ty = 4 \<or> ty = 5 \<or> ty = 7 then True
      else drop_bit 8 data < 58 \<and> drop_bit 4 data AND 0xf < 58 \<and> data AND 0xf < 58"
    using assms(1) unfolding run_ok_def Let_def data [symmetric] ty_def [symmetric] .
  have small: "ty < 4 \<longleftrightarrow> ty = 0 \<or> ty = 1 \<or> ty = 2 \<or> ty = 3"
  proof
    assume "ty < 4"
    then have "unat ty < 4" by (simp add: word_less_nat_alt)
    then consider "unat ty = 0" | "unat ty = 1" | "unat ty = 2" | "unat ty = 3" by linarith
    then show "ty = 0 \<or> ty = 1 \<or> ty = 2 \<or> ty = 3"
      unfolding word_unat_eq_iff by cases simp_all
  qed auto
  consider (copy) "ty < 4" | (pair) "ty = 6 \<or> ty = 11 \<or> ty = 12" | (one) "ty = 8 \<or> ty = 9 \<or> ty = 10"
    | (calc) "ty = 4 \<or> ty = 5 \<or> ty = 7"
    | (three) "\<not> ty < 4" "\<not> (ty = 6 \<or> ty = 11 \<or> ty = 12)" "\<not> (ty = 8 \<or> ty = 9 \<or> ty = 10)"
        "\<not> (ty = 4 \<or> ty = 5 \<or> ty = 7)" by argo
  then show ?thesis
  proof cases
    case copy
    then have "data < 370" using ok by simp
    then have "unat data < 370" by (simp add: word_less_nat_alt)
    then obtain w where "rd case_conv_table1 (unat data) = Some w"
      by (simp add: rd_Some case_conv_lengths)
    then show ?thesis
      using copy small by (simp add: case_conv_run_def ty_def [symmetric] Let_def run_type_defs)
  next
    case pair
    have nlt: "\<not> ty < 4" using pair by (elim disjE) simp_all
    have "drop_bit 6 data < 58 \<and> data AND 0x3f < 58"
      using ok by (simp only: pair nlt if_True if_False)
    then obtain e e' where "ext (drop_bit 6 data) = Some e" "ext (data AND 0x3f) = Some e'"
      by (elim conjE) (drule ext_defined, drule ext_defined, elim exE, rule that)
    then show ?thesis
      using pair by (auto simp: case_conv_run_def ty_def [symmetric] Let_def run_type_defs)
  next
    case one
    have nlt: "\<not> ty < 4" "\<not> (ty = 6 \<or> ty = 11 \<or> ty = 12)" using one by (elim disjE; simp)+
    have "data < 58" using ok by (simp only: one nlt if_True if_False)
    then obtain e where "ext data = Some e" by (blast dest: ext_defined)
    then show ?thesis
      using one by (auto simp: case_conv_run_def ty_def [symmetric] Let_def run_type_defs)
  next
    case calc
    then show ?thesis
      by (auto simp: case_conv_run_def ty_def [symmetric] Let_def run_type_defs)
  next
    case three
    have "drop_bit 8 data < 58 \<and> drop_bit 4 data AND 0xf < 58 \<and> data AND 0xf < 58"
      using ok by (simp only: three if_True if_False)
    then obtain e e' e'' where "ext (drop_bit 8 data) = Some e" "ext (drop_bit 4 data AND 0xf) = Some e'"
        "ext (data AND 0xf) = Some e''"
      by (elim conjE) (drule ext_defined, drule ext_defined, drule ext_defined, elim exE, rule that)
    then show ?thesis
      using three small by (simp add: case_conv_run_def ty_def [symmetric] Let_def run_type_defs)
  qed
qed

lemma case_conv_table_find:
  "\<exists>r. case_conv_find case_conv_table1 c 0 (int (length case_conv_table1) - 1) = Some r \<and>
     (case r of None \<Rightarrow> \<forall>v \<in> set case_conv_table1. \<not> in_run v c
              | Some i \<Rightarrow> i < 370 \<and> in_run (case_conv_table1 ! i) c)"
  using case_runs.table_find [OF case_conv_table1_sorted, of c]
  unfolding in_run_def in_span_def case_conv_lengths .

lemma lre_case_conv_defined:
  "\<exists>res. lre_case_conv c conv_type = Some res \<and> 1 \<le> length res \<and> length res \<le> 3"
proof (cases "c < 128")
  case True
  then show ?thesis by (simp add: lre_case_conv_def)
next
  case False
  obtain r where r: "case_conv_find case_conv_table1 c 0 (int (length case_conv_table1) - 1) = Some r"
    "case r of None \<Rightarrow> \<forall>v \<in> set case_conv_table1. \<not> in_run v c
              | Some i \<Rightarrow> i < 370 \<and> in_run (case_conv_table1 ! i) c"
    using case_conv_table_find by blast
  show ?thesis
  proof (cases r)
    case None
    then show ?thesis using False r by (simp add: lre_case_conv_def)
  next
    case (Some i)
    have i: "i < 370" using r Some by simp
    have "run_ok (case_conv_table1 ! i) (case_conv_table2 ! i)"
      using case_conv_runs_ok i by (simp add: list_all2_conv_all_nth case_conv_lengths)
    from case_conv_run_defined [OF this refl, of c conv_type] show ?thesis
      using False r(1) Some i by (simp add: lre_case_conv_def rd_Some case_conv_lengths)
  qed
qed

end
