(* ===== verification/RleIndex.thy ===== *)
theory RleIndex
  imports UnicodeCase
begin

text \<open>
  The block indexes of the run-length encoded tables of \<^verbatim>\<open>libunicode-table.h\<close>.  \<^verbatim>\<open>get_index_pos\<close> jumps
  into a table; that the jump is only a shortcut, and that the scan that follows never runs off the
  end, depends on the contents of table and index.  The locale \<open>rle_scan\<close> reduces both to a check
  that walks the table once.
\<close>

section \<open>What the index names\<close>

definition le24 :: "u8 list \<Rightarrow> nat \<Rightarrow> int" where
  "le24 m p = uint (m ! p) + 256 * uint (m ! (p + 1)) + 65536 * uint (m ! (p + 2))"

text \<open>The pairs of a position and a code point named by all entries but the last, which holds
  only the end.\<close>

fun index_entries :: "u8 list \<Rightarrow> int \<Rightarrow> (int \<times> int) list" where
  "index_entries (a # b # c # d # rest) k =
     (let v = uint a + 256 * uint b + 65536 * uint c
      in ((k + 1) * 32 + v div 2 ^ 21, v mod 2 ^ 21) # index_entries (d # rest) (k + 1))"
| "index_entries _ k = []"

fun index_end :: "u8 list \<Rightarrow> int" where
  "index_end (a # b # c # d # rest) = index_end (d # rest)"
| "index_end [a, b, c] = uint a + 256 * uint b + 65536 * uint c"
| "index_end _ = 0"

lemma unat_byte: "unat (ucast (a :: u8) :: u32) = unat a"
  using unsigned_less [of a, where 'a = nat] by (simp add: unsigned_ucast_eq take_bit_nat_eq_self)

lemma unat_byte_shift: "k \<le> 24 \<Longrightarrow> unat (push_bit k (ucast (b :: u8)) :: u32) = unat b * 2 ^ k"
proof -
  assume k: "k \<le> 24"
  have "unat b * 2 ^ k < 2 ^ 8 * 2 ^ k" using unsigned_less [of b, where 'a = nat] by simp
  also have "\<dots> \<le> 2 ^ 32" using power_increasing [of "8 + k" 32 "2 :: nat"] k by (simp add: power_add)
  finally have "unat b * 2 ^ k < 2 ^ 32" .
  moreover have "unat (ucast b :: u32) < 2 ^ (32 - k)"
  proof -
    have "(2 :: nat) ^ 8 \<le> 2 ^ (32 - k)" using k by (intro power_increasing) simp_all
    then show ?thesis using unsigned_less [of b, where 'a = nat] by (simp add: unat_byte)
  qed
  ultimately show ?thesis
    using k unfolding unsigned_push_bit_eq take_bit_push_bit by (simp add: push_bit_eq_mult take_bit_nat_eq_self unat_byte)
qed

lemma uint_bytes3:
  "uint (ucast (a :: u8) OR push_bit 8 (ucast (b :: u8)) OR push_bit 16 (ucast (c :: u8)) :: u32) =
     uint a + 256 * uint b + 65536 * uint c"
proof -
  note sh = unat_byte unat_byte_shift [of 8 b] unat_byte_shift [of 16 c]
  have ab: "unat a < 2 ^ 8" "unat b < 2 ^ 8" using unsigned_less [of a, where 'a = nat] unsigned_less [of b, where 'a = nat] by simp_all
  have lo: "unat (ucast a OR push_bit 8 (ucast b) :: u32) = unat a + unat b * 2 ^ 8"
    using unat_or_add [of "ucast a :: u32" 8 "push_bit 8 (ucast b)"] sh ab by simp
  have "unat (ucast a OR push_bit 8 (ucast b) OR push_bit 16 (ucast c) :: u32) = unat a + unat b * 2 ^ 8 + unat c * 2 ^ 16"
    using unat_or_add [of "ucast a OR push_bit 8 (ucast b) :: u32" 16 "push_bit 16 (ucast c)"] sh lo ab by (simp add: or.assoc)
  then have "int (unat (ucast a OR push_bit 8 (ucast b) OR push_bit 16 (ucast c) :: u32)) = int (unat a) + int (unat b) * 2 ^ 8 + int (unat c) * 2 ^ 16"
    by (simp only: of_nat_add of_nat_mult of_nat_power of_nat_numeral)
  then show ?thesis by simp
qed

lemma le24_bounds: "0 \<le> le24 m p" "le24 m p < 2 ^ 24"
  using uint_lt2p [of "m ! p"] uint_lt2p [of "m ! (p + 1)"] uint_lt2p [of "m ! (p + 2)"] by (simp_all add: le24_def)

lemma get_le24_Some:
  assumes "p + 2 < length m"
  obtains v where "get_le24 m p = Some v" "uint v = le24 m p"
  using assms uint_bytes3 [of "m ! p" "m ! (p + 1)" "m ! (p + 2)"] by (simp add: get_le24_def rd_Some le24_def)

lemma index_code: "uint ((v :: u32) AND (push_bit 21 1 - 1)) = uint v mod 2 ^ 21"
proof -
  have "v AND (push_bit 21 1 - 1) = take_bit 21 v"
    by (simp add: take_bit_eq_mask mask_eq_exp_minus_1)
  then show ?thesis by (simp add: take_bit_eq_mod uint_mod)
qed

definition index_at :: "u8 list \<Rightarrow> nat \<Rightarrow> int" where
  "index_at idx i = le24 idx (3 * i) mod 2 ^ 21"

lemma get_index_pos_loop_spec:
  assumes "3 * hi + 2 < length idx" and "lo < hi" and "index_at idx lo \<le> uint c"
  shows "\<exists>j. get_index_pos_loop idx c lo hi = Some j \<and> lo \<le> j \<and> j < hi \<and> index_at idx j \<le> uint c"
  using assms
proof (induction idx c lo hi rule: get_index_pos_loop.induct)
  case (1 idx c lo hi)
  show ?case
  proof (cases "hi - lo > 1")
    case False
    then show ?thesis using "1.prems" by (subst get_index_pos_loop.simps) auto
  next
    case True
    define mid where "mid = (hi + lo) div 2"
    have mid: "lo < mid" "mid < hi" "mid * 3 + 2 < length idx" using True "1.prems" by (auto simp: mid_def)
    obtain v where v: "get_le24 idx (mid * 3) = Some v" "uint v = le24 idx (mid * 3)"
      using mid get_le24_Some by blast
    define code where "code = v AND (push_bit 21 1 - 1)"
    have code: "uint code = index_at idx mid" unfolding code_def index_code v by (simp add: index_at_def mult.commute)
    have eq: "get_index_pos_loop idx c lo hi = (if c < code then get_index_pos_loop idx c lo mid else get_index_pos_loop idx c mid hi)"
      using True v(1) by (subst get_index_pos_loop.simps) (simp add: Let_def mid_def [symmetric] code_def)
    show ?thesis
    proof (cases "c < code")
      case lt: True
      have "\<exists>j. get_index_pos_loop idx c lo mid = Some j \<and> lo \<le> j \<and> j < mid \<and> index_at idx j \<le> uint c"
        using "1.IH"(1) [OF True mid_def v(1) code_def lt] "1.prems" mid by simp
      then show ?thesis unfolding eq using lt mid by auto
    next
      case ge: False
      then have "index_at idx mid \<le> uint c" using code by (simp add: word_less_def)
      then have "\<exists>j. get_index_pos_loop idx c mid hi = Some j \<and> mid \<le> j \<and> j < hi \<and> index_at idx j \<le> uint c"
        using "1.IH"(2) [OF True mid_def v(1) code_def ge] "1.prems" mid by simp
      then show ?thesis unfolding eq using ge mid by auto
    qed
  qed
qed

lemma index_entries_nth:
  "3 * (i + 1) < length idx \<Longrightarrow> i < length (index_entries idx k) \<and>
     index_entries idx k ! i = ((k + int i + 1) * 32 + le24 idx (3 * i) div 2 ^ 21, index_at idx i)"
proof (induction idx k arbitrary: i rule: index_entries.induct)
  case (1 a b c d rest k)
  show ?case
  proof (cases i)
    case 0
    then show ?thesis by (simp add: Let_def le24_def index_at_def)
  next
    case (Suc j)
    have sh: "le24 (a # b # c # d # rest) (3 * Suc j) = le24 (d # rest) (3 * j)" by (simp add: le24_def)
    show ?thesis using "1.IH" [OF refl, of j] "1.prems" Suc sh by (simp add: index_at_def add.assoc Let_def)
  qed
qed auto

lemma index_end_le24: "length idx = 3 * n \<Longrightarrow> 0 < n \<Longrightarrow> index_end idx = le24 idx (3 * (n - 1))"
proof (induction idx arbitrary: n rule: index_end.induct)
  case (1 a b c d rest)
  obtain n' where n: "n = Suc (Suc n')" using "1.prems" by (cases n; cases "n - 1") auto
  then have "index_end (d # rest) = le24 (d # rest) (3 * n')" using "1.IH" [of "Suc n'"] "1.prems" by simp
  then show ?case using n by (simp add: le24_def)
qed (auto simp: le24_def)

lemma get_index_pos_cases:
  assumes len: "length idx = 3 * n" and n: "2 \<le> n"
  obtains (start) "get_index_pos c idx n = Some (Some (0, 0))" "uint c < snd (hd (index_entries idx 0))" "index_entries idx 0 \<noteq> []"
  | (beyond) "get_index_pos c idx n = Some None" "index_end idx \<le> uint c"
  | (here) pos code where "get_index_pos c idx n = Some (Some (pos, code))" "(int pos, uint code) \<in> set (index_entries idx 0)"
      "uint code \<le> uint c" "uint c < index_end idx"
proof -
  obtain v where v: "get_le24 idx 0 = Some v" "uint v = le24 idx 0" using get_le24_Some [of 0 idx] len n by auto
  define code where "code = v AND (push_bit 21 1 - 1)"
  have code: "uint code = index_at idx 0" unfolding code_def index_code v by (simp add: index_at_def)
  obtain w where w: "get_le24 idx ((n - 1) * 3) = Some w" "uint w = index_end idx"
  proof -
    have "(n - 1) * 3 + 2 < length idx" using len n by simp
    then obtain w where "get_le24 idx ((n - 1) * 3) = Some w" "uint w = le24 idx ((n - 1) * 3)" by (rule get_le24_Some)
    then show ?thesis using that index_end_le24 [OF len] n by (simp add: mult.commute)
  qed
  have e0: "index_entries idx 0 \<noteq> []" "snd (hd (index_entries idx 0)) = index_at idx 0"
    using index_entries_nth [of 0 idx 0] len n by (auto simp: hd_conv_nth)
  show thesis
  proof (cases "c < code")
    case True
    then show ?thesis using v(1) code e0 by (intro start) (simp_all add: get_index_pos_def code_def word_less_def)
  next
    case False
    then have ge: "index_at idx 0 \<le> uint c" using code by (simp add: word_less_def)
    show ?thesis
    proof (cases "c \<ge> w")
      case True
      then show ?thesis using False v(1) w n by (intro beyond) (simp_all add: get_index_pos_def code_def word_le_def Let_def)
    next
      case lt: False
      obtain j where j: "get_index_pos_loop idx c 0 (n - 1) = Some j" "j < n - 1" "index_at idx j \<le> uint c"
      proof -
        have "3 * (n - 1) + 2 < length idx" "0 < n - 1" using len n by simp_all
        from get_index_pos_loop_spec [OF this ge] show ?thesis using that by blast
      qed
      obtain u where u: "get_le24 idx (j * 3) = Some u" "uint u = le24 idx (j * 3)"
      proof -
        have "j * 3 + 2 < length idx" using j(2) len by simp
        then show ?thesis using that by (rule get_le24_Some)
      qed
      define code' where "code' = u AND (push_bit 21 1 - 1)"
      have code': "uint code' = index_at idx j" unfolding code'_def index_code u by (simp add: index_at_def mult.commute)
      define pos where "pos = (j + 1) * 32 + unat (drop_bit 21 u)"
      have "int (unat (drop_bit 21 u)) = le24 idx (3 * j) div 2 ^ 21"
        by (simp add: drop_bit_eq_div uint_div u(2) mult.commute)
      moreover have "3 * (j + 1) < length idx" using j(2) len by simp
      from index_entries_nth [OF this, of 0] have "j < length (index_entries idx 0)"
        "index_entries idx 0 ! j = ((int j + 1) * 32 + le24 idx (3 * j) div 2 ^ 21, index_at idx j)" by simp_all
      ultimately have "(int pos, uint code') = index_entries idx 0 ! j" "j < length (index_entries idx 0)"
        using code' by (simp_all add: pos_def)
      then have "(int pos, uint code') \<in> set (index_entries idx 0)" by (simp only: nth_mem)
      moreover have "get_index_pos c idx n = Some (Some (pos, code'))"
        using False lt v(1) w(1) n j(1) u(1) by (simp add: get_index_pos_def code_def code'_def pos_def Let_def)
      ultimately show ?thesis using j(3) code' lt w(2) by (intro here [of pos code']) (simp_all add: word_le_def)
    qed
  qed
qed

section \<open>Walking a table\<close>

text \<open>\<open>dec\<close> decodes one item: the number of code points it covers, the number of bytes and the new
  state of the scan.  The walk passes every position the index names, in state \<open>s0\<close> and at the
  code point the index names, and returns the last state and the code point after the last item.\<close>

function rle_walk :: "('s \<Rightarrow> u8 list \<Rightarrow> (int \<times> nat \<times> 's) option) \<Rightarrow> 's \<Rightarrow> 's \<Rightarrow> u8 list \<Rightarrow> int \<Rightarrow> int
    \<Rightarrow> (int \<times> int) list \<Rightarrow> ('s \<times> int) option" where
  "rle_walk dec s0 s bs p code ix =
     (if ix \<noteq> [] \<and> fst (hd ix) = p then
        if snd (hd ix) = code \<and> s = s0 then rle_walk dec s0 s bs p code (tl ix) else None
      else if ix \<noteq> [] \<and> fst (hd ix) < p then None
      else if bs = [] then if ix = [] then Some (s, code) else None
      else case dec s bs of
             None \<Rightarrow> None
           | Some (n, k, s') \<Rightarrow>
               if k = 0 \<or> n < 0 then None else rle_walk dec s0 s' (drop k bs) (p + int k) (code + n) ix)"
  by pat_completeness auto
termination
  by (relation "measure (\<lambda>(dec, s0, s, bs, p, code, ix). length bs + length ix)") (auto simp: neq_Nil_conv)

declare rle_walk.simps [simp del]

lemma rle_walk_code_le: "rle_walk dec s0 s bs p code ix = Some (sf, tot) \<Longrightarrow> code \<le> tot"
proof (induction dec s0 s bs p code ix rule: rle_walk.induct)
  case (1 dec s0 s bs p code ix)
  note eq = "1.prems" [unfolded rle_walk.simps [of dec s0 s bs p code ix]]
  show ?case
  proof (cases "ix \<noteq> [] \<and> fst (hd ix) = p")
    case True
    then show ?thesis using eq "1.IH"(1) by (simp split: if_splits)
  next
    case False
    show ?thesis
    proof (cases "bs = []")
      case True
      then show ?thesis using eq False by (simp split: if_splits)
    next
      case ne: False
      obtain n k s' where d: "dec s bs = Some (n, k, s')" "k \<noteq> 0" "0 \<le> n" "\<not> (ix \<noteq> [] \<and> fst (hd ix) < p)"
          "rle_walk dec s0 s' (drop k bs) (p + int k) (code + n) ix = Some (sf, tot)"
        using eq False ne by (auto split: if_splits option.splits)
      have "code + n \<le> tot" using "1.IH"(2) [OF False d(4) ne d(1) refl refl _ d(5)] d(2,3) by simp
      then show ?thesis using d(3) by simp
    qed
  qed
qed

text \<open>A table is walked block by block.\<close>

definition stable_item :: "('s \<Rightarrow> u8 list \<Rightarrow> (int \<times> nat \<times> 's) option) \<Rightarrow> bool" where
  "stable_item dec \<longleftrightarrow> (\<forall>s bs n k s'. dec s bs = Some (n, k, s') \<longrightarrow> k \<le> length bs \<and> (\<forall>bs'. dec s (bs @ bs') = Some (n, k, s')))"

lemma rle_walk_append:
  "stable_item dec \<Longrightarrow> rle_walk dec s0 s bs p code ix = Some (s1, code1) \<Longrightarrow>
    rle_walk dec s0 s1 bs' (p + int (length bs)) code1 ix' = Some r \<Longrightarrow>
    list_all (\<lambda>e. p + int (length bs) \<le> fst e) ix' \<Longrightarrow> rle_walk dec s0 s (bs @ bs') p code (ix @ ix') = Some r"
proof (induction dec s0 s bs p code ix rule: rle_walk.induct)
  case (1 dec s0 s bs p code ix)
  note eq = "1.prems"(2) [unfolded rle_walk.simps [of dec s0 s bs p code ix]]
  show ?case
  proof (cases "ix \<noteq> [] \<and> fst (hd ix) = p")
    case True
    then show ?thesis
      using eq "1.IH"(1) "1.prems"(1,3,4) by (subst rle_walk.simps) (auto split: if_splits)
  next
    case False
    note nhd = this
    show ?thesis
    proof (cases "bs = []")
      case True
      then have "ix = []" "s1 = s" "code1 = code" using eq False by (simp_all split: if_splits)
      then show ?thesis using True "1.prems"(3) by simp
    next
      case ne: False
      obtain n k s' where d: "dec s bs = Some (n, k, s')" "k \<noteq> 0" "0 \<le> n" "\<not> (ix \<noteq> [] \<and> fst (hd ix) < p)"
          "rle_walk dec s0 s' (drop k bs) (p + int k) (code + n) ix = Some (s1, code1)"
        using eq False ne by (auto split: if_splits option.splits)
      have k: "k \<le> length bs" "dec s (bs @ bs') = Some (n, k, s')"
        using "1.prems"(1) d(1) unfolding stable_item_def by blast+
      have p': "p + int k + int (length (drop k bs)) = p + int (length bs)" using k by simp
      have IH: "rle_walk dec s0 s' (drop k bs @ bs') (p + int k) (code + n) (ix @ ix') = Some r"
        using "1.IH"(2) [OF False d(4) ne d(1) refl refl _ "1.prems"(1) d(5)] "1.prems"(1,3,4) d(2,3) unfolding p' by simp
      have ixh: "\<not> (ix @ ix' \<noteq> [] \<and> fst (hd (ix @ ix')) = p)" "\<not> (ix @ ix' \<noteq> [] \<and> fst (hd (ix @ ix')) < p)"
        using nhd d(4) "1.prems"(4) ne by (cases ix; cases ix'; auto)+
      show ?thesis unfolding rle_walk.simps [of dec s0 s "bs @ bs'" p code "ix @ ix'"]
        if_not_P [OF ixh(1)] if_not_P [OF ixh(2)] using IH ne d(2,3) k by simp
    qed
  qed
qed

text \<open>The blocks of a table with the index entries that fall into each.\<close>

fun rle_walks :: "('s \<Rightarrow> u8 list \<Rightarrow> (int \<times> nat \<times> 's) option) \<Rightarrow> 's \<Rightarrow> 's \<Rightarrow> (u8 list \<times> (int \<times> int) list) list
    \<Rightarrow> int \<Rightarrow> int \<Rightarrow> ('s \<times> int) option" where
  "rle_walks dec s0 s [] p code = Some (s, code)"
| "rle_walks dec s0 s ((bs, ix) # bls) p code =
     do { (s', code') \<leftarrow> rle_walk dec s0 s bs p code ix;
          c_assert (\<forall>b \<in> set bls. \<forall>e \<in> set (snd b). p + int (length bs) \<le> fst e);
          rle_walks dec s0 s' bls (p + int (length bs)) code' }"

lemma rle_walk_Nil [simp]: "rle_walk dec s0 s [] p code [] = Some (s, code)"
  by (subst rle_walk.simps) simp

lemma rle_walks_concat:
  "stable_item dec \<Longrightarrow> rle_walks dec s0 s bls p code = Some r \<Longrightarrow>
    rle_walk dec s0 s (concat (map fst bls)) p code (concat (map snd bls)) = Some r"
proof (induction dec s0 s bls p code rule: rle_walks.induct)
  case (2 dec s0 s bs ix bls p code)
  obtain s' code' where w: "rle_walk dec s0 s bs p code ix = Some (s', code')"
      and le: "\<forall>b \<in> set bls. \<forall>e \<in> set (snd b). p + int (length bs) \<le> fst e"
      and r: "rle_walks dec s0 s' bls (p + int (length bs)) code' = Some r"
    using "2.prems"(2) by (auto simp: bind_eq_Some_conv)
  have "list_all (\<lambda>e. p + int (length bs) \<le> fst e) (concat (map snd bls))" using le by (auto simp: list_all_iff)
  with "2.IH" [OF w refl _ "2.prems"(1) r] show ?case
    using rle_walk_append [OF "2.prems"(1) w] le by simp
qed simp

definition index_ok :: "('s \<Rightarrow> u8 list \<Rightarrow> (int \<times> nat \<times> 's) option) \<Rightarrow> 's \<Rightarrow> u8 list \<Rightarrow> u8 list \<Rightarrow> bool" where
  "index_ok dec s0 tab idx \<longleftrightarrow>
     (case rle_walk dec s0 s0 tab 0 0 (index_entries idx 0) of
        None \<Rightarrow> False
      | Some (sf, tot) \<Rightarrow> index_end idx \<le> tot \<and> tot < 2 ^ 31)"

locale rle_scan =
  fixes dec :: "'s \<Rightarrow> u8 list \<Rightarrow> (int \<times> nat \<times> 's) option"
    and s0 :: 's
    and tab idx :: "u8 list"
    and scan :: "int \<Rightarrow> nat \<Rightarrow> int \<Rightarrow> 's \<Rightarrow> 'r option"
    and good :: "'r \<Rightarrow> bool"
  assumes scan_on: "dec s (drop p tab) = Some (n, k, s') \<Longrightarrow> 0 \<le> code \<Longrightarrow> 0 \<le> n \<Longrightarrow> code + n < 2 ^ 31 \<Longrightarrow>
      code + n \<le> c \<Longrightarrow> c < 2 ^ 32 \<Longrightarrow> scan c p code s = scan c (p + k) (code + n) s'"
    and scan_stop: "dec s (drop p tab) = Some (n, k, s') \<Longrightarrow> 0 \<le> code \<Longrightarrow> 0 \<le> n \<Longrightarrow> code + n < 2 ^ 31 \<Longrightarrow>
      code \<le> c \<Longrightarrow> c < code + n \<Longrightarrow> \<exists>r. scan c p code s = Some r \<and> good r"
    and index_checked: "index_ok dec s0 tab idx"
begin

lemma walk_scan:
  assumes "rle_walk dec s0 s (drop p tab) (int p) code ix = Some (sf, tot)" and "tot < 2 ^ 31" and "0 \<le> code" and "code \<le> c" and "c < tot"
  shows "\<exists>r. scan c p code s = Some r \<and> good r"
  using assms
proof (induction "length tab - p + length ix" arbitrary: s p code ix rule: less_induct)
  case less
  note w = less.prems(1)
  show ?case
  proof (cases "ix \<noteq> [] \<and> fst (hd ix) = int p")
    case True
    then have "rle_walk dec s0 s (drop p tab) (int p) code (tl ix) = Some (sf, tot)"
      using w by (subst (asm) rle_walk.simps) (simp split: if_splits)
    then show ?thesis using less.hyps [of p "tl ix"] True less.prems by simp
  next
    case False
    then have ne: "drop p tab \<noteq> []"
      using w less.prems(4,5) by (subst (asm) rle_walk.simps) (auto split: if_splits)
    then obtain n k s' where d: "dec s (drop p tab) = Some (n, k, s')" "0 < k" "0 \<le> n"
        "rle_walk dec s0 s' (drop k (drop p tab)) (int p + int k) (code + n) ix = Some (sf, tot)"
      using w False by (subst (asm) rle_walk.simps) (auto split: if_splits option.splits)
    have le: "code + n \<le> tot" by (rule rle_walk_code_le [OF d(4)])
    show ?thesis
    proof (cases "code + n \<le> c")
      case True
      have "rle_walk dec s0 s' (drop (p + k) tab) (int (p + k)) (code + n) ix = Some (sf, tot)" using d(4) by (simp add: add.commute)
      from less.hyps [OF _ this] have "\<exists>r. scan c (p + k) (code + n) s' = Some r \<and> good r"
        using ne d less.prems True by simp
      then show ?thesis using scan_on [OF d(1)] d less.prems True le by simp
    next
      case False
      then show ?thesis using scan_stop [OF d(1)] d less.prems le by simp
    qed
  qed
qed

text \<open>Every entry of the index lies on the walk: the rest of the walk starts there, and a scan that
  starts at the beginning of the table reaches it.\<close>

lemma walk_entry:
  assumes "rle_walk dec s0 s (drop p tab) (int p) code ix = Some (sf, tot)" and "tot < 2 ^ 31" and "0 \<le> code" and "(q, d) \<in> set ix"
  shows "code \<le> d \<and> (\<exists>p' ix'. q = int p' \<and> rle_walk dec s0 s0 (drop p' tab) q d ix' = Some (sf, tot) \<and>
     (\<forall>c. d \<le> c \<longrightarrow> c < 2 ^ 32 \<longrightarrow> scan c p code s = scan c p' d s0))"
  using assms
proof (induction "length tab - p + length ix" arbitrary: s p code ix rule: less_induct)
  case less
  note w = less.prems(1)
  show ?case
  proof (cases "ix \<noteq> [] \<and> fst (hd ix) = int p")
    case True
    then have rest: "rle_walk dec s0 s (drop p tab) (int p) code (tl ix) = Some (sf, tot)" and hd: "snd (hd ix) = code" "s = s0"
      using w by (subst (asm) rle_walk.simps; simp split: if_splits)+
    show ?thesis
    proof (cases "(q, d) = hd ix")
      case eq: True
      then have "q = int p" "d = code" using True hd by (cases "hd ix"; simp)+
      then show ?thesis using w hd by auto
    next
      case False
      then have "(q, d) \<in> set (tl ix)" using less.prems(4) by (cases ix) auto
      then show ?thesis using less.hyps [OF _ rest] True less.prems by simp
    qed
  next
    case False
    have ne: "drop p tab \<noteq> []"
      using w False less.prems(4) by (subst (asm) rle_walk.simps) (auto split: if_splits)
    then obtain n k s' where dk: "dec s (drop p tab) = Some (n, k, s')" "0 < k" "0 \<le> n"
        "rle_walk dec s0 s' (drop k (drop p tab)) (int p + int k) (code + n) ix = Some (sf, tot)"
      using w False by (subst (asm) rle_walk.simps) (auto split: if_splits option.splits)
    have le: "code + n \<le> tot" by (rule rle_walk_code_le [OF dk(4)])
    have "rle_walk dec s0 s' (drop (p + k) tab) (int (p + k)) (code + n) ix = Some (sf, tot)" using dk(4) by (simp add: add.commute)
    note IH' = less.hyps [OF _ this]
    have "length tab - (p + k) + length ix < length tab - p + length ix" using ne dk(2) by simp
    from IH' [OF this less.prems(2) _ less.prems(4)] obtain p' ix' where IH: "code + n \<le> d" "q = int p'" "rle_walk dec s0 s0 (drop p' tab) q d ix' = Some (sf, tot)"
        "\<forall>c. d \<le> c \<longrightarrow> c < 2 ^ 32 \<longrightarrow> scan c (p + k) (code + n) s' = scan c p' d s0"
      using less.prems(3) dk(3) by auto
    have "scan c p code s = scan c p' d s0" if "d \<le> c" "c < 2 ^ 32" for c
      using scan_on [OF dk(1), of code c] dk(3) IH(1,4) less.prems(2,3) le that by simp
    then show ?thesis using IH dk(3) by auto
  qed
qed

lemma table_walk:
  obtains sf tot where "rle_walk dec s0 s0 (drop 0 tab) (int 0) 0 (index_entries idx 0) = Some (sf, tot)" "index_end idx \<le> tot" "tot < 2 ^ 31"
  using index_checked by (auto simp: index_ok_def split: option.splits)

text \<open>Starting at the entry the index gives is the same as starting at the beginning, and the scan
  ends inside the table.\<close>

lemma indexed_scan:
  assumes "length idx = 3 * n" and "2 \<le> n" and "get_index_pos c idx n = Some (Some (pos, code))"
  shows "scan (uint c) pos (uint code) s0 = scan (uint c) 0 0 s0 \<and> (\<exists>r. scan (uint c) pos (uint code) s0 = Some r \<and> good r)"
proof -
  obtain sf tot where tot: "rle_walk dec s0 s0 (drop 0 tab) (int 0) 0 (index_entries idx 0) = Some (sf, tot)" "index_end idx \<le> tot" "tot < 2 ^ 31"
    by (rule table_walk)
  have c: "uint c < 2 ^ 32" using uint_lt2p [of c] by simp
  show ?thesis
  proof (cases rule: get_index_pos_cases [OF assms(1,2), where c = c, case_names start beyond here])
    case start
    obtain q d ix where ix: "index_entries idx 0 = (q, d) # ix" using start(3) by (cases "index_entries idx 0") auto
    have "uint c < d" using start(2) ix by simp
    moreover obtain p' ix' where "rle_walk dec s0 s0 (drop p' tab) q d ix' = Some (sf, tot)"
      using walk_entry [OF tot(1,3), of q d] ix by auto
    then have "d \<le> tot" by (rule rle_walk_code_le)
    ultimately show ?thesis using walk_scan [OF tot(1,3), of "uint c"] assms(3) start(1) by simp
  next
    case beyond
    then show ?thesis using assms(3) by simp
  next
    case (here pos' code')
    have e: "pos' = pos" "code' = code" using assms(3) here(1) by simp_all
    obtain p' ix' where p': "int pos = int p'" "rle_walk dec s0 s0 (drop p' tab) (int pos) (uint code) ix' = Some (sf, tot)"
        "\<forall>c. uint code \<le> c \<longrightarrow> c < 2 ^ 32 \<longrightarrow> scan c 0 0 s0 = scan c p' (uint code) s0"
      using walk_entry [OF tot(1,3), of "int pos" "uint code"] here(2) e by auto
    have "\<exists>r. scan (uint c) pos (uint code) s0 = Some r \<and> good r"
      using walk_scan [of s0 pos "uint code" ix' sf tot "uint c"] p' here(3,4) e tot(2,3) by simp
    then show ?thesis using p' here(3) e c by simp
  qed
qed

end

end
