(* ===== verification/CharSets.thy ===== *)
theory CharSets
  imports RleIndex
begin

text \<open>
  The character tests of \<^verbatim>\<open>libunicode.c\<close> through the index are linear scans of their tables:
  \<^verbatim>\<open>lre_is_in_table\<close> on the four indexed character sets.
\<close>

section \<open>One item of a character set\<close>

text \<open>An item stands for one run of code points, a byte below 64 for two.  Runs are alternately
  outside and inside the set.\<close>

definition item_runs :: "u8 list \<Rightarrow> (int list \<times> nat) option" where
  "item_runs bs =
     (case bs of
        [] \<Rightarrow> None
      | b8 # bs1 \<Rightarrow>
          (let b = uint b8 in
           if b < 64 then Some ([b div 8 + 1, b mod 8 + 1], 1)
           else if b \<ge> 128 then Some ([b - 128 + 1], 1)
           else case bs1 of
                  [] \<Rightarrow> None
                | p0 # bs2 \<Rightarrow>
                    if b < 96 then Some ([(b - 64) * 256 + uint p0 + 1], 2)
                    else case bs2 of
                           [] \<Rightarrow> None
                         | p1 # bs3 \<Rightarrow> Some ([(b - 96) * 65536 + uint p0 * 256 + uint p1 + 1], 3)))"

definition set_item :: "bool \<Rightarrow> u8 list \<Rightarrow> (int \<times> nat \<times> bool) option" where
  "set_item b0 bs =
     (case item_runs bs of
        None \<Rightarrow> None
      | Some (ns, k) \<Rightarrow> Some (sum_list ns, k, if length ns = 2 then b0 else \<not> b0))"

text \<open>The runs of a whole table, and membership of the set they stand for.\<close>

lemma item_runs_k: "item_runs bs = Some (ns, k) \<Longrightarrow> 0 < k \<and> k \<le> length bs \<and> bs \<noteq> []"
  by (auto simp: item_runs_def Let_def split: list.splits if_splits)

function rle_runs :: "u8 list \<Rightarrow> int list" where
  "rle_runs bs = (case item_runs bs of None \<Rightarrow> [] | Some (ns, k) \<Rightarrow> ns @ rle_runs (drop k bs))"
  by pat_completeness auto
termination
  by (relation "measure length") (auto dest: item_runs_k)

declare rle_runs.simps [simp del]

fun in_runs :: "bool \<Rightarrow> int list \<Rightarrow> int \<Rightarrow> bool" where
  "in_runs b [] c = False"
| "in_runs b (n # ns) c = (if c < n then b else in_runs (\<not> b) ns (c - n))"

lemma byte_bound: "0 \<le> uint (b :: u8)" "uint (b :: u8) < 256"
  using uint_lt2p [of b] by simp_all

lemma uint_byte [simp]: "uint (ucast (b :: u8) :: u32) = uint b"
  using byte_bound [of b] by (simp add: unsigned_ucast_eq take_bit_int_eq_self)

lemma uint_item_fields:
  fixes b8 p0 p1 :: u8
  defines "b \<equiv> ucast b8 :: u32"
  shows "uint (drop_bit 3 b) = uint b8 div 8" and "uint (b AND 7) = uint b8 mod 8"
    and "128 \<le> uint b8 \<Longrightarrow> uint (b - 0x80) = uint b8 - 128"
    and "64 \<le> uint b8 \<Longrightarrow> uint b8 < 96 \<Longrightarrow> uint (push_bit 8 (b - 0x40) OR ucast p0) = (uint b8 - 64) * 256 + uint p0"
    and "96 \<le> uint b8 \<Longrightarrow> uint b8 < 128 \<Longrightarrow>
      uint (push_bit 16 (b - 0x60) OR push_bit 8 (ucast p0) OR ucast p1) = (uint b8 - 96) * 65536 + uint p0 * 256 + uint p1"
proof -
  have b: "uint b = uint b8" by (simp add: b_def)
  have sub: "uint (b - word_of_int x) = uint b8 - x" if "0 \<le> x" "x \<le> uint b8" for x
  proof -
    have "uint (word_of_int x :: u32) = x" using that byte_bound [of b8] by (simp add: uint_word_of_int_eq take_bit_int_eq_self)
    then show ?thesis using that byte_bound [of b8] b by (simp add: uint_word_ariths)
  qed
  have sub8: "uint (b8 - word_of_int x) = uint b8 - x" if "0 \<le> x" "x \<le> uint b8" for x
  proof -
    have "uint (word_of_int x :: u8) = x" using that byte_bound [of b8] by (simp add: uint_word_of_int_eq take_bit_int_eq_self)
    then show ?thesis using that byte_bound [of b8] by (simp add: uint_word_ariths)
  qed
  show "uint (drop_bit 3 b) = uint b8 div 8" using b by (simp add: drop_bit_eq_div uint_div)
  have "b AND 7 = take_bit 3 b" by (simp add: take_bit_eq_mask mask_eq_exp_minus_1)
  then show "uint (b AND 7) = uint b8 mod 8" using b by (simp add: take_bit_eq_mod uint_mod)
  show "uint (b - 0x80) = uint b8 - 128" if "128 \<le> uint b8" using sub [of 128] that by simp
  have or2: "uint (push_bit 8 (ucast y) OR ucast p0 :: u32) = uint y * 256 + uint p0" for y :: u8
    using uint_bytes3 [of p0 y 0] by (simp add: or.commute)
  have or3: "uint (push_bit 16 (ucast y) OR push_bit 8 (ucast p0) OR ucast p1 :: u32) = uint y * 65536 + uint p0 * 256 + uint p1" for y :: u8
    using uint_bytes3 [of p1 p0 y] by (simp add: or.commute or.left_commute)
  show "uint (push_bit 8 (b - 0x40) OR ucast p0) = (uint b8 - 64) * 256 + uint p0" if "64 \<le> uint b8" "uint b8 < 96"
  proof -
    have u: "uint (b8 - 64) = uint b8 - 64" using sub8 [of 64] that by simp
    then have "b - 0x40 = ucast (b8 - 64)" using sub [of 64] that by (simp add: word_uint_eq_iff)
    then show ?thesis using or2 [of "b8 - 64"] u by simp
  qed
  show "uint (push_bit 16 (b - 0x60) OR push_bit 8 (ucast p0) OR ucast p1) = (uint b8 - 96) * 65536 + uint p0 * 256 + uint p1"
    if "96 \<le> uint b8" "uint b8 < 128"
  proof -
    have u: "uint (b8 - 96) = uint b8 - 96" using sub8 [of 96] that by simp
    then have "b - 0x60 = ucast (b8 - 96)" using sub [of 96] that by (simp add: word_uint_eq_iff)
    then show ?thesis using or3 [of "b8 - 96"] u by simp
  qed
qed

lemma word_of_int_add_uint: "word_of_int code + (w + 1) = (word_of_int (code + uint w + 1) :: u32)"
  by (simp add: wi_hom_add [symmetric] add.assoc)

lemma word_of_int_less:
  "0 \<le> c \<Longrightarrow> c < 2 ^ 32 \<Longrightarrow> 0 \<le> d \<Longrightarrow> d < 2 ^ 32 \<Longrightarrow> (word_of_int c :: u32) < word_of_int d \<longleftrightarrow> c < d"
  by (simp add: word_less_def uint_word_of_int_eq take_bit_int_eq_self)

section \<open>The scan\<close>

lemma drop_Cons: "drop p tab = x # xs \<Longrightarrow> rd tab p = Some x \<and> drop (Suc p) tab = xs"
  by (metis Cons_nth_drop_Suc drop_all linorder_not_le list.distinct(1) list.inject rd_Some)

lemma in_table_loop_item:
  assumes it: "item_runs (drop p tab) = Some (ns, k)" and nn: "n = sum_list ns" and bb: "b' = (if length ns = 2 then b0 else \<not> b0)"
    and code: "0 \<le> code" "code + n < 2 ^ 31" and c: "0 \<le> c" "c < 2 ^ 32"
  shows "lre_is_in_table_loop (word_of_int c) tab p (word_of_int code) b0 =
     (if c < code + n then Some (in_runs b0 ns (c - code)) else lre_is_in_table_loop (word_of_int c) tab (p + k) (word_of_int (code + n)) b')"
proof -
  obtain b8 bs1 where d: "drop p tab = b8 # bs1" using it by (auto simp: item_runs_def split: list.splits)
  note r0 = drop_Cons [OF d]
  have less: "(word_of_int c < (word_of_int x :: u32)) = (c < x)" if "0 \<le> x" "x \<le> code + n" for x
    using word_of_int_less [OF c, of x] that code by simp
  have add: "word_of_int x + (w + 1) = (word_of_int (x + (uint w + 1)) :: u32)" for x w
    using word_of_int_add_uint [of x w] by (simp add: add.assoc)
  have cmp: "(ucast b8 < (64 :: u32)) = (uint b8 < 64)" "(ucast b8 \<ge> (0x80 :: u32)) = (uint b8 \<ge> 128)" "(ucast b8 < (0x60 :: u32)) = (uint b8 < 96)"
    by (simp_all add: word_less_def word_le_def)
  note unfold = lre_is_in_table_loop.simps [of "word_of_int c" tab p] and f = uint_item_fields [of b8]
  consider (pair) "uint b8 < 64" | (one) "128 \<le> uint b8" | (two) "64 \<le> uint b8" "uint b8 < 96" | (three) "96 \<le> uint b8" "uint b8 < 128" by linarith
  then show ?thesis
  proof cases
    case pair
    then have ns: "ns = [uint b8 div 8 + 1, uint b8 mod 8 + 1]" "k = 1" using it by (simp_all add: d item_runs_def Let_def)
    have n: "n = uint b8 div 8 + 1 + (uint b8 mod 8 + 1)" "k = 1" "b' = b0" by (simp_all add: nn bb ns)
    have "0 \<le> uint b8 div 8" "0 \<le> uint b8 mod 8" by (simp_all add: pos_imp_zdiv_nonneg_iff)
    then have l1: "(word_of_int c < (word_of_int (code + (uint b8 div 8 + 1)) :: u32)) = (c < code + (uint b8 div 8 + 1))"
      and l2: "(word_of_int c < (word_of_int (code + (uint b8 div 8 + 1) + (uint b8 mod 8 + 1)) :: u32)) = (c < code + n)"
      using less [of "code + (uint b8 div 8 + 1)"] less [of "code + n"] code n(1) by (simp_all add: add.assoc)
    have "lre_is_in_table_loop (word_of_int c) tab p (word_of_int code) b0 =
      (if c < code + (uint b8 div 8 + 1) then Some b0 else if c < code + n then Some (\<not> b0)
       else lre_is_in_table_loop (word_of_int c) tab (p + k) (word_of_int (code + n)) b0)"
      using r0 pair cmp(1) by (subst unfold) (simp only: Let_def bind.bind_lunit add f l1 l2 [unfolded add.assoc n] n if_True add.assoc not_not)
    then show ?thesis using n(3) \<open>0 \<le> uint b8 mod 8\<close> n(1) ns(1) by (cases "c < code + (uint b8 div 8 + 1)") auto
  next
    case one
    then have ns: "ns = [uint b8 - 128 + 1]" "k = 1" using it by (simp_all add: d item_runs_def Let_def)
    have n: "n = uint b8 - 128 + 1" "k = 1" "b' = (\<not> b0)" by (simp_all add: nn bb ns)
    have ne: "\<not> uint b8 < 64" using one by simp
    have l: "(word_of_int c < (word_of_int (code + (uint b8 - 128 + 1)) :: u32)) = (c < code + n)"
      using less [of "code + n"] code one n by simp
    have "lre_is_in_table_loop (word_of_int c) tab p (word_of_int code) b0 =
      (if c < code + n then Some b0 else lre_is_in_table_loop (word_of_int c) tab (p + k) (word_of_int (code + n)) (\<not> b0))"
      using r0 one cmp ne by (subst unfold) (simp only: Let_def bind.bind_lunit add f l if_True if_False n)
    then show ?thesis using n(1,3) ns(1) by auto
  next
    case two
    then obtain p0 bs2 where d1: "bs1 = p0 # bs2" using it by (auto simp: d item_runs_def Let_def split: list.splits)
    have r1: "rd tab (Suc p) = Some p0" using drop_Cons [of "Suc p" tab] r0 d1 by simp
    have ns: "ns = [(uint b8 - 64) * 256 + uint p0 + 1]" "k = 2" using it two by (simp_all add: d d1 item_runs_def Let_def)
    have n: "n = (uint b8 - 64) * 256 + uint p0 + 1" "k = 2" "b' = (\<not> b0)" by (simp_all add: nn bb ns)
    have ne: "\<not> uint b8 < 64" "\<not> 128 \<le> uint b8" and r1': "rd tab (p + 1) = Some p0" using two r1 by simp_all
    have "0 \<le> n" unfolding n(1) using two by (intro add_nonneg_nonneg mult_nonneg_nonneg) simp_all
    then have l: "(word_of_int c < (word_of_int (code + ((uint b8 - 64) * 256 + uint p0 + 1)) :: u32)) = (c < code + n)"
      using less [of "code + n"] code n(1) by simp
    have "lre_is_in_table_loop (word_of_int c) tab p (word_of_int code) b0 =
      (if c < code + n then Some b0 else lre_is_in_table_loop (word_of_int c) tab (p + k) (word_of_int (code + n)) (\<not> b0))"
      using r0 two cmp ne r1' by (subst unfold) (simp only: Let_def bind.bind_lunit add f l if_True if_False n)
    then show ?thesis using n(1,3) ns(1) by auto
  next
    case three
    then obtain p0 p1 bs3 where d1: "bs1 = p0 # p1 # bs3" using it by (auto simp: d item_runs_def Let_def split: list.splits)
    have r1: "rd tab (Suc p) = Some p0" "drop (Suc (Suc p)) tab = p1 # bs3" using drop_Cons [of "Suc p" tab] r0 d1 by simp_all
    have r2: "rd tab (Suc (Suc p)) = Some p1" using drop_Cons [OF r1(2)] by simp
    have ns: "ns = [(uint b8 - 96) * 65536 + uint p0 * 256 + uint p1 + 1]" "k = 3" using it three by (simp_all add: d d1 item_runs_def Let_def)
    have n: "n = (uint b8 - 96) * 65536 + uint p0 * 256 + uint p1 + 1" "k = 3" "b' = (\<not> b0)" by (simp_all add: nn bb ns)
    have ne: "\<not> uint b8 < 64" "\<not> 128 \<le> uint b8" "\<not> uint b8 < 96" and r1': "rd tab (p + 1) = Some p0" "rd tab (p + 2) = Some p1"
      using three r1 r2 by simp_all
    have "0 \<le> n" unfolding n(1) using three by (intro add_nonneg_nonneg mult_nonneg_nonneg) simp_all
    then have l: "(word_of_int c < (word_of_int (code + ((uint b8 - 96) * 65536 + uint p0 * 256 + uint p1 + 1)) :: u32)) = (c < code + n)"
      using less [of "code + n"] code n(1) by simp
    have "lre_is_in_table_loop (word_of_int c) tab p (word_of_int code) b0 =
      (if c < code + n then Some b0 else lre_is_in_table_loop (word_of_int c) tab (p + k) (word_of_int (code + n)) (\<not> b0))"
      using r0 three cmp ne r1' by (subst unfold) (simp only: Let_def bind.bind_lunit add f l if_True if_False n)
    then show ?thesis using n(1,3) ns(1) by auto
  qed
qed

lemma rle_scan_set:
  assumes "index_ok set_item False tab idx"
  shows "rle_scan set_item False tab idx (\<lambda>c p code b0. lre_is_in_table_loop (word_of_int c) tab p (word_of_int code) b0) (\<lambda>r. True)"
proof
  fix s p n k s' code c
  assume a: "set_item s (drop p tab) = Some (n, k, s')" "0 \<le> code" "0 \<le> n" "code + n < 2 ^ 31"
  then obtain ns where "item_runs (drop p tab) = Some (ns, k)" "n = sum_list ns" "s' = (if length ns = 2 then s else \<not> s)"
    by (auto simp: set_item_def split: option.splits)
  note item = in_table_loop_item [OF this a(2,4), of c]
  show "lre_is_in_table_loop (word_of_int c) tab p (word_of_int code) s = lre_is_in_table_loop (word_of_int c) tab (p + k) (word_of_int (code + n)) s'"
    if "code + n \<le> c" "c < 2 ^ 32" using item a that by simp
  show "\<exists>r. lre_is_in_table_loop (word_of_int c) tab p (word_of_int code) s = Some r \<and> True" if "code \<le> c" "c < code + n"
    using item a that by simp
qed (rule assms)

text \<open>A linear scan decides membership of the set.\<close>

lemma item_runs_cases:
  assumes "item_runs bs = Some (ns, k)"
  shows "\<forall>n \<in> set ns. 0 \<le> n" and "length ns = 1 \<or> length ns = 2"
proof -
  have nn: "0 \<le> a * 256 + uint p0 + 1" "0 \<le> a * 65536 + uint p0 * 256 + uint p1 + 1" if "0 \<le> a" for a and p0 p1 :: u8
    using that byte_bound [of p0] byte_bound [of p1] by simp_all
  have dm: "0 \<le> uint b div 8 + 1" "0 \<le> uint b mod 8 + 1" for b :: u8 by (simp_all add: pos_imp_zdiv_nonneg_iff)
  have "\<exists>b a p0 p1. 0 \<le> a \<and> (ns = [uint (b :: u8) div 8 + 1, uint b mod 8 + 1] \<or> ns = [a + 1] \<or>
      ns = [a * 256 + uint (p0 :: u8) + 1] \<or> ns = [a * 65536 + uint p0 * 256 + uint (p1 :: u8) + 1])"
  proof -
    obtain b8 bs1 where bs: "bs = b8 # bs1" using assms by (auto simp: item_runs_def split: list.splits)
    consider "uint b8 < 64" | "128 \<le> uint b8" | "64 \<le> uint b8" "uint b8 < 96" | "96 \<le> uint b8" "uint b8 < 128" by linarith
    then show ?thesis
    proof cases
      case 1
      then show ?thesis using assms by (intro exI [of _ b8] exI [of _ 0]) (simp add: bs item_runs_def Let_def)
    next
      case 2
      then show ?thesis using assms by (intro exI [of _ b8] exI [of _ "uint b8 - 128"]) (simp add: bs item_runs_def Let_def)
    next
      case 3
      then obtain p0 bs2 where "bs1 = p0 # bs2" using assms by (auto simp: bs item_runs_def Let_def split: list.splits)
      then show ?thesis using assms 3 by (intro exI [of _ b8] exI [of _ "uint b8 - 64"] exI [of _ p0]) (simp add: bs item_runs_def Let_def)
    next
      case 4
      then obtain p0 p1 bs3 where "bs1 = p0 # p1 # bs3" using assms by (auto simp: bs item_runs_def Let_def split: list.splits)
      then show ?thesis using assms 4 by (intro exI [of _ b8] exI [of _ "uint b8 - 96"] exI [of _ p0] exI [of _ p1]) (simp add: bs item_runs_def Let_def)
    qed
  qed
  then show "\<forall>n \<in> set ns. 0 \<le> n" by (elim exE conjE disjE) (auto intro: nn dm)
  show "length ns = 1 \<or> length ns = 2"
    using assms by (auto simp: item_runs_def Let_def split: list.splits if_splits)
qed

lemma in_runs_append:
  "\<forall>n \<in> set ns. 0 \<le> n \<Longrightarrow> 0 \<le> c \<Longrightarrow> in_runs b (ns @ ns') c =
     (if c < sum_list ns then in_runs b ns c else in_runs (if even (length ns) then b else \<not> b) ns' (c - sum_list ns))"
proof (induction ns arbitrary: b c)
  case (Cons n ns)
  have "0 \<le> sum_list ns" using Cons.prems(1) by (intro sum_list_nonneg) simp
  then show ?case using Cons.IH [of "c - n" "\<not> b"] Cons.prems by (auto simp: diff_diff_eq)
qed simp

lemma rle_runs_nonneg: "n \<in> set (rle_runs bs) \<Longrightarrow> 0 \<le> n"
proof (induction bs rule: rle_runs.induct)
  case (1 bs)
  show ?case
  proof (cases "item_runs bs")
    case None
    then show ?thesis using "1.prems" by (simp add: rle_runs.simps [of bs])
  next
    case (Some it)
    obtain ns k where "item_runs bs = Some (ns, k)" using Some by (cases it) simp
    with "1.prems" "1.IH" [OF this refl] item_runs_cases(1) [OF this] show ?thesis by (auto simp: rle_runs.simps [of bs])
  qed
qed

lemma in_runs_beyond: "\<forall>n \<in> set ns. 0 \<le> n \<Longrightarrow> sum_list ns \<le> c \<Longrightarrow> \<not> in_runs b ns c"
proof (induction ns arbitrary: b c)
  case (Cons n ns)
  have "0 \<le> sum_list ns" using Cons.prems(1) by (intro sum_list_nonneg) simp
  then show ?case using Cons.IH [of "c - n" "\<not> b"] Cons.prems by auto
qed simp

lemma in_table_loop_runs:
  assumes "0 \<le> code" and "code \<le> c" and "c < code + sum_list (rle_runs (drop p tab))" and "code + sum_list (rle_runs (drop p tab)) < 2 ^ 31"
  shows "lre_is_in_table_loop (word_of_int c) tab p (word_of_int code) b0 = Some (in_runs b0 (rle_runs (drop p tab)) (c - code))"
  using assms
proof (induction "length tab - p" arbitrary: p code b0 rule: less_induct)
  case less
  obtain ns k where it: "item_runs (drop p tab) = Some (ns, k)"
    using less.prems by (subst (asm) (1 2) rle_runs.simps) (auto split: option.splits)
  note k = item_runs_k [OF it] and ns = item_runs_cases [OF it]
  define rest where "rest = rle_runs (drop (p + k) tab)"
  have runs: "rle_runs (drop p tab) = ns @ rest"
    using it by (subst rle_runs.simps) (simp add: rest_def add.commute)
  have pos: "0 \<le> sum_list ns" "0 \<le> sum_list rest"
    using ns(1) rle_runs_nonneg by (auto intro!: sum_list_nonneg simp: rest_def)
  define b' where "b' = (if length ns = 2 then b0 else \<not> b0)"
  have b'_even: "b' = (if even (length ns) then b0 else \<not> b0)" using ns(2) by (auto simp: b'_def)
  have item: "lre_is_in_table_loop (word_of_int c) tab p (word_of_int code) b0 =
     (if c < code + sum_list ns then Some (in_runs b0 ns (c - code))
      else lre_is_in_table_loop (word_of_int c) tab (p + k) (word_of_int (code + sum_list ns)) b')"
    using less.prems pos unfolding runs by (intro in_table_loop_item [OF it refl b'_def]) simp_all
  have split: "in_runs b0 (ns @ rest) (c - code) =
     (if c - code < sum_list ns then in_runs b0 ns (c - code) else in_runs b' rest (c - code - sum_list ns))"
    using in_runs_append [OF ns(1), of "c - code" b0 rest] less.prems(2) b'_even by simp
  show ?case
  proof (cases "c < code + sum_list ns")
    case True
    then show ?thesis using item split runs by simp
  next
    case False
    have "length tab - (p + k) < length tab - p" using k by (auto intro: diff_less_mono2)
    from less.hyps [OF this, of "code + sum_list ns" b'] show ?thesis
      using False item split less.prems pos unfolding runs rest_def [symmetric] by (simp add: diff_diff_eq)
  qed
qed

lemma walk_runs: "rle_walk set_item s0 s bs p code ix = Some (sf, tot) \<Longrightarrow> sum_list (rle_runs bs) = tot - code"
proof (induction "set_item" s0 s bs p code ix rule: rle_walk.induct)
  case (1 s0 s bs p code ix)
  note eq = "1.prems" [unfolded rle_walk.simps [of set_item s0 s bs p code ix]]
  show ?case
  proof (cases "ix \<noteq> [] \<and> fst (hd ix) = p")
    case True
    then show ?thesis using eq "1.hyps"(1) by (simp split: if_splits)
  next
    case False
    show ?thesis
    proof (cases "bs = []")
      case True
      then show ?thesis using eq False by (subst rle_runs.simps) (simp add: item_runs_def split: if_splits)
    next
      case ne: False
      obtain n k s' where d: "set_item s bs = Some (n, k, s')" "k \<noteq> 0" "0 \<le> n" "\<not> (ix \<noteq> [] \<and> fst (hd ix) < p)"
          "rle_walk set_item s0 s' (drop k bs) (p + int k) (code + n) ix = Some (sf, tot)"
        using eq False ne by (auto split: if_splits option.splits)
      have IH: "sum_list (rle_runs (drop k bs)) = tot - (code + n)" using "1.hyps"(2) [OF False d(4) ne d(1) refl refl _ d(5)] d(2,3) by simp
      obtain ns where "item_runs bs = Some (ns, k)" "n = sum_list ns"
        using d(1) by (auto simp: set_item_def split: option.splits)
      then show ?thesis using IH by (subst rle_runs.simps) simp
    qed
  qed
qed

text \<open>For a table that passes the check of its index, and whose index ends where the table does, the
  test decides the set.\<close>

lemma in_table_runs:
  assumes ok: "index_ok set_item False tab idx" and end_eq: "index_end idx = sum_list (rle_runs tab)"
    and len: "length idx = 3 * n" "2 \<le> n"
  shows "lre_is_in_table c tab idx n = Some (in_runs False (rle_runs tab) (uint c))"
proof -
  note ind = rle_scan.indexed_scan [OF rle_scan_set [OF ok] len, of c]
  obtain sf tot where w: "rle_walk set_item False False (drop 0 tab) (int 0) 0 (index_entries idx 0) = Some (sf, tot)" "tot < 2 ^ 31"
    using rle_scan.table_walk [OF rle_scan_set [OF ok]] by blast
  have tot: "sum_list (rle_runs tab) = tot" using walk_runs [OF w(1)] by simp
  have linear: "uint c < sum_list (rle_runs tab) \<Longrightarrow> lre_is_in_table_loop c tab 0 0 False = Some (in_runs False (rle_runs tab) (uint c))"
    using in_table_loop_runs [of 0 "uint c" 0 tab False] tot w(2) by simp
  have scan: "lre_is_in_table_loop c tab pos code False = lre_is_in_table_loop c tab 0 0 False"
    if "get_index_pos c idx n = Some (Some (pos, code))" for pos code
    using ind [OF that] by simp
  have entry: "d \<le> tot" if "(q, d) \<in> set (index_entries idx 0)" for q d
    using rle_scan.walk_entry [OF rle_scan_set [OF ok] w _ that] rle_walk_code_le by fastforce
  show ?thesis
  proof (cases rule: get_index_pos_cases [OF len, where c = c, case_names start beyond here])
    case start
    have "(fst (hd (index_entries idx 0)), snd (hd (index_entries idx 0))) \<in> set (index_entries idx 0)" using start(3) by simp
    then have "uint c < tot" using entry start(2) by fastforce
    then show ?thesis using scan [OF start(1)] linear start(1) tot by (simp add: lre_is_in_table_def)
  next
    case beyond
    have "\<not> in_runs False (rle_runs tab) (uint c)"
      using beyond(2) rle_runs_nonneg end_eq by (intro in_runs_beyond) auto
    then show ?thesis using beyond(1) by (simp add: lre_is_in_table_def)
  next
    case (here pos code)
    then show ?thesis using scan [OF here(1)] linear end_eq by (simp add: lre_is_in_table_def)
  qed
qed

section \<open>The tables\<close>

lemma item_runs_append: "item_runs bs = Some r \<Longrightarrow> item_runs (bs @ bs') = Some r"
  unfolding item_runs_def by (auto simp: Let_def split: list.splits if_splits)

lemma stable_set_item: "stable_item set_item"
  unfolding stable_item_def
proof (intro allI impI)
  fix s bs n k s'
  assume "set_item s bs = Some (n, k, s')"
  then obtain ns where it: "item_runs bs = Some (ns, k)" "n = sum_list ns" "s' = (if length ns = 2 then s else \<not> s)"
    by (auto simp: set_item_def split: option.splits)
  then show "k \<le> length bs \<and> (\<forall>bs'. set_item s (bs @ bs') = Some (n, k, s'))"
    using item_runs_k [OF it(1)] item_runs_append [OF it(1)] by (simp add: set_item_def)
qed

subsection \<open>\<^verbatim>\<open>unicode_prop_Cased1_table\<close>\<close>

lemma Cased1_blocks:
  "rle_walk set_item False False unicode_prop_Cased1_table_0 0 0 [(39, 697)] = Some (True, 7836)"
  "rle_walk set_item False True unicode_prop_Cased1_table_1 64 7836 [(66, 7840), (98, 42654)] = Some (False, 67515)"
  "rle_walk set_item False False unicode_prop_Cased1_table_2 127 67515 [(131, 119893), (161, 120571)] = Some (False, 127370)"
  by code_simp+

lemma Cased1_lengths:
  "length unicode_prop_Cased1_table_0 = 64"
  "length unicode_prop_Cased1_table_1 = 63"
  "length unicode_prop_Cased1_table_2 = 61"
  by code_simp+

lemma Cased1_index:
  "index_entries unicode_prop_Cased1_index 0 = concat [[(39, 697)],
     [(66, 7840), (98, 42654)],
     [(131, 119893), (161, 120571)]]"
  "index_end unicode_prop_Cased1_index = 127370" "length unicode_prop_Cased1_index = 18"
  by code_simp+

lemma Cased1_walk:
  "rle_walk set_item False False unicode_prop_Cased1_table 0 0 (index_entries unicode_prop_Cased1_index 0) = Some (False, 127370)"
proof -
  have "rle_walks set_item False False [
    (unicode_prop_Cased1_table_0, [(39, 697)]),
    (unicode_prop_Cased1_table_1, [(66, 7840), (98, 42654)]),
    (unicode_prop_Cased1_table_2, [(131, 119893), (161, 120571)])] 0 0 = Some (False, 127370)"
    by (simp add: Cased1_blocks Cased1_lengths)
  from rle_walks_concat [OF stable_set_item this] show ?thesis
    by (simp only: unicode_prop_Cased1_table_def Cased1_index list.map fst_conv snd_conv)
qed

lemma Cased1_index_ok: "index_ok set_item False unicode_prop_Cased1_table unicode_prop_Cased1_index"
  unfolding index_ok_def Cased1_walk by (simp add: Cased1_index)

subsection \<open>\<^verbatim>\<open>unicode_prop_Case_Ignorable_table\<close>\<close>

lemma Case_Ignorable_blocks:
  "rle_walk set_item False False unicode_prop_Case_Ignorable_table_0 0 0 [(32, 1470)] = Some (False, 2046)"
  "rle_walk set_item False False unicode_prop_Case_Ignorable_table_1 64 2046 [(64, 2046), (101, 2642)] = Some (False, 3009)"
  "rle_walk set_item False False unicode_prop_Case_Ignorable_table_2 128 3009 [(128, 3009), (160, 3458)] = Some (True, 4141)"
  "rle_walk set_item False True unicode_prop_Case_Ignorable_table_3 192 4141 [(196, 4159), (226, 6100)] = Some (True, 6832)"
  "rle_walk set_item False True unicode_prop_Case_Ignorable_table_4 256 6832 [(257, 6863), (288, 7413)] = Some (False, 8320)"
  "rle_walk set_item False False unicode_prop_Case_Ignorable_table_5 320 8320 [(320, 8320), (352, 40982)] = Some (False, 43206)"
  "rle_walk set_item False False unicode_prop_Case_Ignorable_table_6 384 43206 [(384, 43206), (419, 43714)] = Some (True, 65109)"
  "rle_walk set_item False True unicode_prop_Case_Ignorable_table_7 448 65109 [(449, 65110), (480, 67505)] = Some (True, 69759)"
  "rle_walk set_item False True unicode_prop_Case_Ignorable_table_8 512 69759 [(513, 69762), (545, 70402)] = Some (True, 71341)"
  "rle_walk set_item False True unicode_prop_Case_Ignorable_table_9 576 71341 [(579, 71352), (608, 72343)] = Some (True, 92976)"
  "rle_walk set_item False True unicode_prop_Case_Ignorable_table_10 640 92976 [(641, 92983), (672, 119180)] = Some (False, 123632)"
  "rle_walk set_item False False unicode_prop_Case_Ignorable_table_11 703 123632 [(706, 125143)] = Some (False, 918000)"
  by code_simp+

lemma Case_Ignorable_lengths:
  "length unicode_prop_Case_Ignorable_table_0 = 64"
  "length unicode_prop_Case_Ignorable_table_1 = 64"
  "length unicode_prop_Case_Ignorable_table_2 = 64"
  "length unicode_prop_Case_Ignorable_table_3 = 64"
  "length unicode_prop_Case_Ignorable_table_4 = 64"
  "length unicode_prop_Case_Ignorable_table_5 = 64"
  "length unicode_prop_Case_Ignorable_table_6 = 64"
  "length unicode_prop_Case_Ignorable_table_7 = 64"
  "length unicode_prop_Case_Ignorable_table_8 = 64"
  "length unicode_prop_Case_Ignorable_table_9 = 64"
  "length unicode_prop_Case_Ignorable_table_10 = 63"
  "length unicode_prop_Case_Ignorable_table_11 = 17"
  by code_simp+

lemma Case_Ignorable_index:
  "index_entries unicode_prop_Case_Ignorable_index 0 = concat [[(32, 1470)],
     [(64, 2046), (101, 2642)],
     [(128, 3009), (160, 3458)],
     [(196, 4159), (226, 6100)],
     [(257, 6863), (288, 7413)],
     [(320, 8320), (352, 40982)],
     [(384, 43206), (419, 43714)],
     [(449, 65110), (480, 67505)],
     [(513, 69762), (545, 70402)],
     [(579, 71352), (608, 72343)],
     [(641, 92983), (672, 119180)],
     [(706, 125143)]]"
  "index_end unicode_prop_Case_Ignorable_index = 918000" "length unicode_prop_Case_Ignorable_index = 69"
  by code_simp+

lemma Case_Ignorable_walk:
  "rle_walk set_item False False unicode_prop_Case_Ignorable_table 0 0 (index_entries unicode_prop_Case_Ignorable_index 0) = Some (False, 918000)"
proof -
  have "rle_walks set_item False False [
    (unicode_prop_Case_Ignorable_table_0, [(32, 1470)]),
    (unicode_prop_Case_Ignorable_table_1, [(64, 2046), (101, 2642)]),
    (unicode_prop_Case_Ignorable_table_2, [(128, 3009), (160, 3458)]),
    (unicode_prop_Case_Ignorable_table_3, [(196, 4159), (226, 6100)]),
    (unicode_prop_Case_Ignorable_table_4, [(257, 6863), (288, 7413)]),
    (unicode_prop_Case_Ignorable_table_5, [(320, 8320), (352, 40982)]),
    (unicode_prop_Case_Ignorable_table_6, [(384, 43206), (419, 43714)]),
    (unicode_prop_Case_Ignorable_table_7, [(449, 65110), (480, 67505)]),
    (unicode_prop_Case_Ignorable_table_8, [(513, 69762), (545, 70402)]),
    (unicode_prop_Case_Ignorable_table_9, [(579, 71352), (608, 72343)]),
    (unicode_prop_Case_Ignorable_table_10, [(641, 92983), (672, 119180)]),
    (unicode_prop_Case_Ignorable_table_11, [(706, 125143)])] 0 0 = Some (False, 918000)"
    by (simp add: Case_Ignorable_blocks Case_Ignorable_lengths)
  from rle_walks_concat [OF stable_set_item this] show ?thesis
    by (simp only: unicode_prop_Case_Ignorable_table_def Case_Ignorable_index list.map fst_conv snd_conv)
qed

lemma Case_Ignorable_index_ok: "index_ok set_item False unicode_prop_Case_Ignorable_table unicode_prop_Case_Ignorable_index"
  unfolding index_ok_def Case_Ignorable_walk by (simp add: Case_Ignorable_index)

subsection \<open>\<^verbatim>\<open>unicode_prop_ID_Start_table\<close>\<close>

lemma ID_Start_blocks:
  "rle_walk set_item False False unicode_prop_ID_Start_table_0 0 0 [(33, 1014)] = Some (False, 1958)"
  "rle_walk set_item False False unicode_prop_ID_Start_table_1 64 1958 [(64, 1958), (97, 2473)] = Some (False, 2737)"
  "rle_walk set_item False False unicode_prop_ID_Start_table_2 128 2737 [(128, 2737), (161, 3002)] = Some (True, 3346)"
  "rle_walk set_item False True unicode_prop_ID_Start_table_3 192 3346 [(193, 3387), (225, 3783)] = Some (False, 4681)"
  "rle_walk set_item False False unicode_prop_ID_Start_table_4 256 4681 [(256, 4681), (288, 5787)] = Some (False, 6572)"
  "rle_walk set_item False False unicode_prop_ID_Start_table_5 320 6572 [(320, 6572), (356, 7616)] = Some (True, 8319)"
  "rle_walk set_item False True unicode_prop_ID_Start_table_6 384 8319 [(385, 8320), (416, 11632)] = Some (False, 12800)"
  "rle_walk set_item False False unicode_prop_ID_Start_table_7 448 12800 [(448, 12800), (480, 42970)] = Some (True, 43588)"
  "rle_walk set_item False True unicode_prop_ID_Start_table_8 512 43588 [(513, 43596), (545, 55239)] = Some (True, 65008)"
  "rle_walk set_item False True unicode_prop_ID_Start_table_9 576 65008 [(577, 65020), (609, 66205)] = Some (False, 66966)"
  "rle_walk set_item False False unicode_prop_ID_Start_table_10 640 66966 [(640, 66966), (672, 67827)] = Some (True, 68736)"
  "rle_walk set_item False True unicode_prop_ID_Start_table_11 704 68736 [(705, 68787), (739, 70003)] = Some (False, 70462)"
  "rle_walk set_item False False unicode_prop_ID_Start_table_12 768 70462 [(768, 70462), (801, 71495)] = Some (False, 72350)"
  "rle_walk set_item False False unicode_prop_ID_Start_table_13 832 72350 [(832, 72350), (864, 74650)] = Some (False, 93048)"
  "rle_walk set_item False False unicode_prop_ID_Start_table_14 896 93048 [(896, 93048), (931, 111356)] = Some (False, 120122)"
  "rle_walk set_item False False unicode_prop_ID_Start_table_15 960 120122 [(960, 120122), (994, 123181)] = Some (False, 126515)"
  "rle_walk set_item False False unicode_prop_ID_Start_table_16 1024 126515 [(1024, 126515), (1059, 173792)] = Some (False, 201547)"
  by code_simp+

lemma ID_Start_lengths:
  "length unicode_prop_ID_Start_table_0 = 64"
  "length unicode_prop_ID_Start_table_1 = 64"
  "length unicode_prop_ID_Start_table_2 = 64"
  "length unicode_prop_ID_Start_table_3 = 64"
  "length unicode_prop_ID_Start_table_4 = 64"
  "length unicode_prop_ID_Start_table_5 = 64"
  "length unicode_prop_ID_Start_table_6 = 64"
  "length unicode_prop_ID_Start_table_7 = 64"
  "length unicode_prop_ID_Start_table_8 = 64"
  "length unicode_prop_ID_Start_table_9 = 64"
  "length unicode_prop_ID_Start_table_10 = 64"
  "length unicode_prop_ID_Start_table_11 = 64"
  "length unicode_prop_ID_Start_table_12 = 64"
  "length unicode_prop_ID_Start_table_13 = 64"
  "length unicode_prop_ID_Start_table_14 = 64"
  "length unicode_prop_ID_Start_table_15 = 64"
  "length unicode_prop_ID_Start_table_16 = 55"
  by code_simp+

lemma ID_Start_index:
  "index_entries unicode_prop_ID_Start_index 0 = concat [[(33, 1014)],
     [(64, 1958), (97, 2473)],
     [(128, 2737), (161, 3002)],
     [(193, 3387), (225, 3783)],
     [(256, 4681), (288, 5787)],
     [(320, 6572), (356, 7616)],
     [(385, 8320), (416, 11632)],
     [(448, 12800), (480, 42970)],
     [(513, 43596), (545, 55239)],
     [(577, 65020), (609, 66205)],
     [(640, 66966), (672, 67827)],
     [(705, 68787), (739, 70003)],
     [(768, 70462), (801, 71495)],
     [(832, 72350), (864, 74650)],
     [(896, 93048), (931, 111356)],
     [(960, 120122), (994, 123181)],
     [(1024, 126515), (1059, 173792)]]"
  "index_end unicode_prop_ID_Start_index = 201547" "length unicode_prop_ID_Start_index = 102"
  by code_simp+

lemma ID_Start_walk:
  "rle_walk set_item False False unicode_prop_ID_Start_table 0 0 (index_entries unicode_prop_ID_Start_index 0) = Some (False, 201547)"
proof -
  have "rle_walks set_item False False [
    (unicode_prop_ID_Start_table_0, [(33, 1014)]),
    (unicode_prop_ID_Start_table_1, [(64, 1958), (97, 2473)]),
    (unicode_prop_ID_Start_table_2, [(128, 2737), (161, 3002)]),
    (unicode_prop_ID_Start_table_3, [(193, 3387), (225, 3783)]),
    (unicode_prop_ID_Start_table_4, [(256, 4681), (288, 5787)]),
    (unicode_prop_ID_Start_table_5, [(320, 6572), (356, 7616)]),
    (unicode_prop_ID_Start_table_6, [(385, 8320), (416, 11632)]),
    (unicode_prop_ID_Start_table_7, [(448, 12800), (480, 42970)]),
    (unicode_prop_ID_Start_table_8, [(513, 43596), (545, 55239)]),
    (unicode_prop_ID_Start_table_9, [(577, 65020), (609, 66205)]),
    (unicode_prop_ID_Start_table_10, [(640, 66966), (672, 67827)]),
    (unicode_prop_ID_Start_table_11, [(705, 68787), (739, 70003)]),
    (unicode_prop_ID_Start_table_12, [(768, 70462), (801, 71495)]),
    (unicode_prop_ID_Start_table_13, [(832, 72350), (864, 74650)]),
    (unicode_prop_ID_Start_table_14, [(896, 93048), (931, 111356)]),
    (unicode_prop_ID_Start_table_15, [(960, 120122), (994, 123181)]),
    (unicode_prop_ID_Start_table_16, [(1024, 126515), (1059, 173792)])] 0 0 = Some (False, 201547)"
    by (simp add: ID_Start_blocks ID_Start_lengths)
  from rle_walks_concat [OF stable_set_item this] show ?thesis
    by (simp only: unicode_prop_ID_Start_table_def ID_Start_index list.map fst_conv snd_conv)
qed

lemma ID_Start_index_ok: "index_ok set_item False unicode_prop_ID_Start_table unicode_prop_ID_Start_index"
  unfolding index_ok_def ID_Start_walk by (simp add: ID_Start_index)

subsection \<open>\<^verbatim>\<open>unicode_prop_ID_Continue1_table\<close>\<close>

lemma ID_Continue1_blocks:
  "rle_walk set_item False False unicode_prop_ID_Continue1_table_0 0 0 [(32, 1786)] = Some (False, 2416)"
  "rle_walk set_item False False unicode_prop_ID_Continue1_table_1 64 2416 [(64, 2416), (98, 2800)] = Some (False, 3159)"
  "rle_walk set_item False False unicode_prop_ID_Continue1_table_2 128 3159 [(128, 3159), (162, 3568)] = Some (False, 4039)"
  "rle_walk set_item False False unicode_prop_ID_Continue1_table_3 192 4039 [(192, 4039), (225, 6122)] = Some (True, 6964)"
  "rle_walk set_item False True unicode_prop_ID_Continue1_table_4 256 6964 [(257, 6981), (289, 8277)] = Some (True, 43010)"
  "rle_walk set_item False True unicode_prop_ID_Continue1_table_5 320 43010 [(323, 43020), (352, 43575)] = Some (False, 65104)"
  "rle_walk set_item False False unicode_prop_ID_Continue1_table_6 384 65104 [(384, 65104), (416, 68922)] = Some (False, 70019)"
  "rle_walk set_item False False unicode_prop_ID_Continue1_table_7 448 70019 [(448, 70019), (481, 70852)] = Some (True, 72002)"
  "rle_walk set_item False True unicode_prop_ID_Continue1_table_8 512 72002 [(513, 72004), (546, 73050)] = Some (False, 94194)"
  "rle_walk set_item False False unicode_prop_ID_Continue1_table_9 575 94194 [(579, 113823), (609, 121520)] = Some (True, 917760)"
  "rle_walk set_item False True unicode_prop_ID_Continue1_table_10 638 917760 [] = Some (False, 918000)"
  by code_simp+

lemma ID_Continue1_lengths:
  "length unicode_prop_ID_Continue1_table_0 = 64"
  "length unicode_prop_ID_Continue1_table_1 = 64"
  "length unicode_prop_ID_Continue1_table_2 = 64"
  "length unicode_prop_ID_Continue1_table_3 = 64"
  "length unicode_prop_ID_Continue1_table_4 = 64"
  "length unicode_prop_ID_Continue1_table_5 = 64"
  "length unicode_prop_ID_Continue1_table_6 = 64"
  "length unicode_prop_ID_Continue1_table_7 = 64"
  "length unicode_prop_ID_Continue1_table_8 = 63"
  "length unicode_prop_ID_Continue1_table_9 = 63"
  "length unicode_prop_ID_Continue1_table_10 = 2"
  by code_simp+

lemma ID_Continue1_index:
  "index_entries unicode_prop_ID_Continue1_index 0 = concat [[(32, 1786)],
     [(64, 2416), (98, 2800)],
     [(128, 3159), (162, 3568)],
     [(192, 4039), (225, 6122)],
     [(257, 6981), (289, 8277)],
     [(323, 43020), (352, 43575)],
     [(384, 65104), (416, 68922)],
     [(448, 70019), (481, 70852)],
     [(513, 72004), (546, 73050)],
     [(579, 113823), (609, 121520)],
     []]"
  "index_end unicode_prop_ID_Continue1_index = 918000" "length unicode_prop_ID_Continue1_index = 60"
  by code_simp+

lemma ID_Continue1_walk:
  "rle_walk set_item False False unicode_prop_ID_Continue1_table 0 0 (index_entries unicode_prop_ID_Continue1_index 0) = Some (False, 918000)"
proof -
  have "rle_walks set_item False False [
    (unicode_prop_ID_Continue1_table_0, [(32, 1786)]),
    (unicode_prop_ID_Continue1_table_1, [(64, 2416), (98, 2800)]),
    (unicode_prop_ID_Continue1_table_2, [(128, 3159), (162, 3568)]),
    (unicode_prop_ID_Continue1_table_3, [(192, 4039), (225, 6122)]),
    (unicode_prop_ID_Continue1_table_4, [(257, 6981), (289, 8277)]),
    (unicode_prop_ID_Continue1_table_5, [(323, 43020), (352, 43575)]),
    (unicode_prop_ID_Continue1_table_6, [(384, 65104), (416, 68922)]),
    (unicode_prop_ID_Continue1_table_7, [(448, 70019), (481, 70852)]),
    (unicode_prop_ID_Continue1_table_8, [(513, 72004), (546, 73050)]),
    (unicode_prop_ID_Continue1_table_9, [(579, 113823), (609, 121520)]),
    (unicode_prop_ID_Continue1_table_10, [])] 0 0 = Some (False, 918000)"
    by (simp add: ID_Continue1_blocks ID_Continue1_lengths)
  from rle_walks_concat [OF stable_set_item this] show ?thesis
    by (simp only: unicode_prop_ID_Continue1_table_def ID_Continue1_index list.map fst_conv snd_conv)
qed

lemma ID_Continue1_index_ok: "index_ok set_item False unicode_prop_ID_Continue1_table unicode_prop_ID_Continue1_index"
  unfolding index_ok_def ID_Continue1_walk by (simp add: ID_Continue1_index)

section \<open>The scans through the indexes\<close>

interpretation cased1: rle_scan set_item False unicode_prop_Cased1_table unicode_prop_Cased1_index
  "\<lambda>c p code b0. lre_is_in_table_loop (word_of_int c) unicode_prop_Cased1_table p (word_of_int code) b0" "\<lambda>r. True"
  by (rule rle_scan_set [OF Cased1_index_ok])

interpretation case_ignorable: rle_scan set_item False unicode_prop_Case_Ignorable_table unicode_prop_Case_Ignorable_index
  "\<lambda>c p code b0. lre_is_in_table_loop (word_of_int c) unicode_prop_Case_Ignorable_table p (word_of_int code) b0" "\<lambda>r. True"
  by (rule rle_scan_set [OF Case_Ignorable_index_ok])

interpretation id_start: rle_scan set_item False unicode_prop_ID_Start_table unicode_prop_ID_Start_index
  "\<lambda>c p code b0. lre_is_in_table_loop (word_of_int c) unicode_prop_ID_Start_table p (word_of_int code) b0" "\<lambda>r. True"
  by (rule rle_scan_set [OF ID_Start_index_ok])

interpretation id_continue1: rle_scan set_item False unicode_prop_ID_Continue1_table unicode_prop_ID_Continue1_index
  "\<lambda>c p code b0. lre_is_in_table_loop (word_of_int c) unicode_prop_ID_Continue1_table p (word_of_int code) b0" "\<lambda>r. True"
  by (rule rle_scan_set [OF ID_Continue1_index_ok])

section \<open>The character tests\<close>

definition in_set_table :: "u8 list \<Rightarrow> u32 \<Rightarrow> bool" where
  "in_set_table tab c \<longleftrightarrow> in_runs False (rle_runs tab) (uint c)"

lemmas index_lengths = Cased1_index Case_Ignorable_index ID_Start_index ID_Continue1_index

lemma in_table_sets:
  "lre_is_in_table c unicode_prop_Cased1_table unicode_prop_Cased1_index (length unicode_prop_Cased1_index div 3) =
     Some (in_set_table unicode_prop_Cased1_table c)"
  "lre_is_in_table c unicode_prop_Case_Ignorable_table unicode_prop_Case_Ignorable_index (length unicode_prop_Case_Ignorable_index div 3) =
     Some (in_set_table unicode_prop_Case_Ignorable_table c)"
  "lre_is_in_table c unicode_prop_ID_Start_table unicode_prop_ID_Start_index (length unicode_prop_ID_Start_index div 3) =
     Some (in_set_table unicode_prop_ID_Start_table c)"
  "lre_is_in_table c unicode_prop_ID_Continue1_table unicode_prop_ID_Continue1_index (length unicode_prop_ID_Continue1_index div 3) =
     Some (in_set_table unicode_prop_ID_Continue1_table c)"
  unfolding in_set_table_def
  by (rule in_table_runs [OF Cased1_index_ok] in_table_runs [OF Case_Ignorable_index_ok]
        in_table_runs [OF ID_Start_index_ok] in_table_runs [OF ID_Continue1_index_ok];
      simp add: index_lengths walk_runs [OF Cased1_walk] walk_runs [OF Case_Ignorable_walk]
        walk_runs [OF ID_Start_walk] walk_runs [OF ID_Continue1_walk])+

lemma lre_is_cased_set:
  "lre_is_cased c = Some ((\<exists>v \<in> set case_conv_table1. in_run v c) \<or> in_set_table unicode_prop_Cased1_table c)"
proof -
  obtain r where r: "case_conv_find case_conv_table1 c 0 (int (length case_conv_table1) - 1) = Some r"
      "case r of None \<Rightarrow> \<forall>v \<in> set case_conv_table1. \<not> in_run v c | Some i \<Rightarrow> i < 370 \<and> in_run (case_conv_table1 ! i) c"
    using case_conv_table_find by blast
  show ?thesis
  proof (cases r)
    case None
    then show ?thesis using r in_table_sets(1) [of c] by (simp add: lre_is_cased_def)
  next
    case (Some i)
    then have "case_conv_table1 ! i \<in> set case_conv_table1" using r(2) case_conv_lengths(1) by simp
    then show ?thesis using r Some by (auto simp: lre_is_cased_def)
  qed
qed

end
