(* ===== verification/CombiningClass.thy ===== *)
theory CombiningClass
  imports RleIndex
begin

text \<open>
  Canonical combining classes (\<^verbatim>\<open>unicode_get_cc\<close> of \<^verbatim>\<open>libunicode.c\<close>) and the canonical ordering of a
  buffer of code points (\<^verbatim>\<open>sort_cc\<close>).  Code points are integers between 0 and \<^verbatim>\<open>UINT32_MAX\<close>, with
  the wrap-around of \<^verbatim>\<open>uint32_t\<close> written out.
\<close>

section \<open>Combining classes\<close>

text \<open>The number of code points of an item less one, and the position after its length bytes.
  The three byte form combines its two upper bytes with a bitwise or.\<close>

definition cc_item_len :: "u8 list \<Rightarrow> nat \<Rightarrow> int \<Rightarrow> (int \<times> nat) option" where
  "cc_item_len tab p n =
     (if n < 48 then Some (n, p)
      else if n < 56 then
        do { x \<leftarrow> rd tab p; Some ((n - 48) * 256 + uint x + 48, p + 1) }
      else
        do { x \<leftarrow> rd tab p; y \<leftarrow> rd tab (p + 1);
             Some (((n - 56) * 256 OR uint x * 256) + uint y + (48 + 2048), p + 2) })"

lemma cc_item_len_pos: "cc_item_len tab p n = Some (m, q) \<Longrightarrow> p \<le> q"
  by (auto simp: cc_item_len_def bind_eq_Some_conv split: if_splits)

function unicode_get_cc_loop :: "int \<Rightarrow> u8 list \<Rightarrow> nat \<Rightarrow> int \<Rightarrow> int option" where
  "unicode_get_cc_loop c tab p code =
     do { b8 \<leftarrow> rd tab p;
          let b = uint b8;
          let ty = b div 64;
          (n, p') \<leftarrow> cc_item_len tab (p + 1) (b mod 64);
          let p' = (if ty \<le> 1 then p' + 1 else p');
          let c1 = (code + n + 1) mod 2 ^ 32;
          if c < c1 then
            if ty = 0 then do { x \<leftarrow> rd tab (p' - 1); Some (uint x) }
            else if ty = 1 then do { x \<leftarrow> rd tab (p' - 1); Some ((uint x + c - code) mod 2 ^ 32) }
            else if ty = 2 then Some 0
            else Some 230
          else unicode_get_cc_loop c tab p' c1 }"
  by pat_completeness auto
termination
  by (relation "measure (\<lambda>(c, tab, p, code). length tab - p)") (auto simp: rd_eq_Some_iff dest!: cc_item_len_pos split: if_splits)

declare unicode_get_cc_loop.simps [simp del]

definition unicode_get_cc :: "int \<Rightarrow> int option" where
  "unicode_get_cc c =
     do { r \<leftarrow> get_index_pos (word_of_int c) unicode_cc_index (length unicode_cc_index div 3);
          case r of
            None \<Rightarrow> Some 0
          | Some (pos, code) \<Rightarrow> unicode_get_cc_loop c unicode_cc_table pos (uint code) }"

section \<open>The table\<close>

text \<open>One item, with the bound of its classes: the class of the last character of an item whose
  classes increase must still be a class.\<close>

definition cc_item :: "unit \<Rightarrow> u8 list \<Rightarrow> (int \<times> nat \<times> unit) option" where
  "cc_item s bs =
     (case bs of
        [] \<Rightarrow> None
      | b8 # _ \<Rightarrow>
          (let b = uint b8; ty = b div 64 in
           case cc_item_len bs 1 (b mod 64) of
             None \<Rightarrow> None
           | Some (n, k) \<Rightarrow>
               if n < 0 then None
               else if ty > 1 then Some (n + 1, k, ())
               else case rd bs k of
                      None \<Rightarrow> None
                    | Some x \<Rightarrow> if ty = 1 \<and> uint x + n > 255 then None else Some (n + 1, k + 1, ())))"

lemma cc_item_len_drop:
  "cc_item_len (drop p tab) 1 n = Some (m, k) \<Longrightarrow> p < length tab \<Longrightarrow> cc_item_len tab (p + 1) n = Some (m, p + k)"
  by (auto simp: cc_item_len_def bind_eq_Some_conv rd_eq_Some_iff add.commute split: if_splits)

lemma cc_item_len_append:
  "cc_item_len bs p n = Some (m, k) \<Longrightarrow> cc_item_len (bs @ bs') p n = Some (m, k)"
  by (auto simp: cc_item_len_def bind_eq_Some_conv rd_eq_Some_iff nth_append split: if_splits)

lemma cc_item_cases:
  assumes "cc_item s bs = Some (n, k, s')"
  obtains b8 bs1 l j x where "bs = b8 # bs1" "cc_item_len bs 1 (uint b8 mod 64) = Some (l, j)" "0 \<le> l" "n = l + 1"
    "if uint b8 div 64 > 1 then k = j \<and> k \<le> length bs
     else k = j + 1 \<and> rd bs j = Some x \<and> (uint b8 div 64 = 1 \<longrightarrow> uint x + l \<le> 255)"
proof -
  obtain b8 bs1 where bs: "bs = b8 # bs1" using assms by (auto simp: cc_item_def split: list.splits)
  obtain l j where l: "cc_item_len bs 1 (uint b8 mod 64) = Some (l, j)"
    using assms by (auto simp: cc_item_def bs Let_def split: option.splits)
  have j: "j \<le> length bs"
    using l by (cases bs1; cases "tl bs1") (auto simp: cc_item_len_def bind_eq_Some_conv rd_eq_Some_iff bs split: if_splits)
  show thesis
  proof (cases "uint b8 div 64 > 1")
    case True
    then show ?thesis
      using assms l j by (intro that [OF bs l, of "hd bs"]) (auto simp: cc_item_def bs Let_def split: if_splits)
  next
    case False
    then obtain x where x: "rd bs j = Some x"
      using assms l by (auto simp: cc_item_def bs Let_def split: if_splits option.splits)
    show ?thesis
      using assms l j False x by (intro that [OF bs l, of x]) (auto simp: cc_item_def bs Let_def split: if_splits)
  qed
qed

lemma stable_cc_item: "stable_item cc_item"
  unfolding stable_item_def
proof (intro allI impI)
  fix s bs n k s'
  assume "cc_item s bs = Some (n, k, s')"
  then obtain b8 bs1 l j x where c: "bs = b8 # bs1" "cc_item_len bs 1 (uint b8 mod 64) = Some (l, j)" "0 \<le> l" "n = l + 1"
    "if uint b8 div 64 > 1 then k = j \<and> k \<le> length bs
     else k = j + 1 \<and> rd bs j = Some x \<and> (uint b8 div 64 = 1 \<longrightarrow> uint x + l \<le> 255)"
    by (rule cc_item_cases)
  have rd': "rd (bs @ bs') j = rd bs j" if "j < length bs" for bs' using that by (simp add: rd_def nth_append)
  have "cc_item s (bs @ bs') = Some (n, k, s')" for bs'
  proof (cases "uint b8 div 64 > 1")
    case True
    then show ?thesis using c cc_item_len_append [OF c(2), of bs'] by (simp add: cc_item_def Let_def)
  next
    case False
    then have x: "rd (bs @ bs') j = Some x" using c(5) rd' [of bs'] by (simp add: rd_eq_Some_iff)
    show ?thesis using c False cc_item_len_append [OF c(2), of bs'] x by (auto simp: cc_item_def Let_def)
  qed
  then show "k \<le> length bs \<and> (\<forall>bs'. cc_item s (bs @ bs') = Some (n, k, s'))"
    using c by (auto simp: rd_eq_Some_iff split: if_splits)
qed

lemma byte_range: "0 \<le> uint (b :: u8)" "uint (b :: u8) < 256"
  using uint_lt2p [of b] by simp_all

lemma rd_drop: "rd (drop p m) i = rd m (p + i)"
  by (auto simp: rd_def)

lemma cc_loop_item:
  assumes it: "cc_item s (drop p tab) = Some (n, k, s')" and code: "0 \<le> code" "code + n < 2 ^ 31"
  shows "code + n \<le> c \<Longrightarrow> unicode_get_cc_loop c tab p code = unicode_get_cc_loop c tab (p + k) (code + n)"
    and "code \<le> c \<Longrightarrow> c < code + n \<Longrightarrow> \<exists>r. unicode_get_cc_loop c tab p code = Some r \<and> 0 \<le> r \<and> r \<le> 255"
    and "uint (hd (drop p tab)) div 64 = 2 \<Longrightarrow> c < code + n \<Longrightarrow> unicode_get_cc_loop c tab p code = Some 0"
proof -
  obtain b8 bs1 l j x where i: "drop p tab = b8 # bs1" "cc_item_len (drop p tab) 1 (uint b8 mod 64) = Some (l, j)" "0 \<le> l" "n = l + 1"
    "if uint b8 div 64 > 1 then k = j \<and> k \<le> length (drop p tab)
     else k = j + 1 \<and> rd (drop p tab) j = Some x \<and> (uint b8 div 64 = 1 \<longrightarrow> uint x + l \<le> 255)"
    using it by (rule cc_item_cases)
  have p: "p < length tab" using i(1) by (cases "p < length tab") auto
  then have b: "rd tab p = Some b8" using i(1) by (metis Cons_nth_drop_Suc list.inject rd_Some)
  have len: "cc_item_len tab (p + 1) (uint b8 mod 64) = Some (l, p + j)" using cc_item_len_drop [OF i(2) p] .
  have c1: "(code + l + 1) mod 2 ^ 32 = code + n" using code i(3,4) by simp
  define ty where "ty = uint b8 div 64"
  have ty: "0 \<le> ty" using byte_range [of b8] by (simp add: ty_def pos_imp_zdiv_nonneg_iff)
  have pk: "(if ty \<le> 1 then p + j + 1 else p + j) = p + k" using i(5) by (auto simp: ty_def)
  have x: "ty \<le> 1 \<Longrightarrow> rd tab (p + k - 1) = Some x \<and> (ty = 1 \<longrightarrow> uint x + l \<le> 255)"
    using i(5) by (auto simp: ty_def rd_drop)
  have eq: "unicode_get_cc_loop c tab p code =
      (if c < code + n then
         if ty = 0 then do { x \<leftarrow> rd tab (p + k - 1); Some (uint x) }
         else if ty = 1 then do { x \<leftarrow> rd tab (p + k - 1); Some ((uint x + c - code) mod 2 ^ 32) }
         else if ty = 2 then Some 0 else Some 230
       else unicode_get_cc_loop c tab (p + k) (code + n))"
    by (subst unicode_get_cc_loop.simps) (simp only: b len Let_def bind.bind_lunit case_prod_conv pk ty_def [symmetric] c1)
  show "code + n \<le> c \<Longrightarrow> unicode_get_cc_loop c tab p code = unicode_get_cc_loop c tab (p + k) (code + n)"
    unfolding eq by simp
  show "uint (hd (drop p tab)) div 64 = 2 \<Longrightarrow> c < code + n \<Longrightarrow> unicode_get_cc_loop c tab p code = Some 0"
    unfolding eq using i(1) by (simp add: ty_def)
  assume c: "code \<le> c" "c < code + n"
  have "(uint x + c - code) mod 2 ^ 32 = uint x + c - code \<and> uint x + c - code \<le> 255 \<and> 0 \<le> uint x + c - code" if "ty = 1"
  proof -
    have "uint x + l \<le> 255" using x that by simp
    then have "0 \<le> uint x + c - code" "uint x + c - code \<le> 255" using c i(4) byte_range(1) [of x] by linarith+
    then show ?thesis by simp
  qed
  then show "\<exists>r. unicode_get_cc_loop c tab p code = Some r \<and> 0 \<le> r \<and> r \<le> 255"
    unfolding eq using c x ty byte_range [of x] by auto
qed

section \<open>The blocks of \<^verbatim>\<open>unicode_cc_table\<close>\<close>

lemma cc_blocks:
  "rle_walk cc_item () () unicode_cc_table_0 0 0 [(32, 845)] = Some ((), 1430)"
  "rle_walk cc_item () () unicode_cc_table_1 63 1430 [(65, 1431), (96, 1478)] = Some ((), 1765)"
  "rle_walk cc_item () () unicode_cc_table_2 127 1765 [(128, 1767), (160, 1861)] = Some ((), 2201)"
  "rle_walk cc_item () () unicode_cc_table_3 190 2201 [(192, 2204), (224, 2381)] = Some ((), 2766)"
  "rle_walk cc_item () () unicode_cc_table_4 254 2766 [(256, 2876), (288, 3389)] = Some ((), 3893)"
  "rle_walk cc_item () () unicode_cc_table_5 318 3893 [(320, 3894), (353, 4152)] = Some ((), 6457)"
  "rle_walk cc_item () () unicode_cc_table_6 382 6457 [(384, 6458), (417, 6859)] = Some ((), 7224)"
  "rle_walk cc_item () () unicode_cc_table_7 445 7224 [(448, 7379), (480, 7631)] = Some ((), 8411)"
  "rle_walk cc_item () () unicode_cc_table_8 509 8411 [(512, 8418), (545, 12334)] = Some ((), 43205)"
  "rle_walk cc_item () () unicode_cc_table_9 573 43205 [(577, 43307), (608, 44013)] = Some ((), 68111)"
  "rle_walk cc_item () () unicode_cc_table_10 637 68111 [(640, 68153), (673, 69508)] = Some ((), 70003)"
  "rle_walk cc_item () () unicode_cc_table_11 700 70003 [(704, 70080), (736, 70723)] = Some ((), 71352)"
  "rle_walk cc_item () () unicode_cc_table_12 763 71352 [(769, 71737), (801, 73026)] = Some ((), 113823)"
  "rle_walk cc_item () () unicode_cc_table_13 827 113823 [(832, 119143), (865, 123184)] = Some ((), 125259)"
  by code_simp+

lemma cc_lengths:
  "length unicode_cc_table_0 = 63"
  "length unicode_cc_table_1 = 64"
  "length unicode_cc_table_2 = 63"
  "length unicode_cc_table_3 = 64"
  "length unicode_cc_table_4 = 64"
  "length unicode_cc_table_5 = 64"
  "length unicode_cc_table_6 = 63"
  "length unicode_cc_table_7 = 64"
  "length unicode_cc_table_8 = 64"
  "length unicode_cc_table_9 = 64"
  "length unicode_cc_table_10 = 63"
  "length unicode_cc_table_11 = 63"
  "length unicode_cc_table_12 = 64"
  "length unicode_cc_table_13 = 54"
  by code_simp+

lemma cc_index:
  "index_entries unicode_cc_index 0 = concat [[(32, 845)],
     [(65, 1431), (96, 1478)],
     [(128, 1767), (160, 1861)],
     [(192, 2204), (224, 2381)],
     [(256, 2876), (288, 3389)],
     [(320, 3894), (353, 4152)],
     [(384, 6458), (417, 6859)],
     [(448, 7379), (480, 7631)],
     [(512, 8418), (545, 12334)],
     [(577, 43307), (608, 44013)],
     [(640, 68153), (673, 69508)],
     [(704, 70080), (736, 70723)],
     [(769, 71737), (801, 73026)],
     [(832, 119143), (865, 123184)]]"
  "index_end unicode_cc_index = 125259" "length unicode_cc_index = 84"
  by code_simp+

lemma cc_walk:
  "rle_walk cc_item () () unicode_cc_table 0 0 (index_entries unicode_cc_index 0) = Some ((), 125259)"
proof -
  have "rle_walks cc_item () () [
    (unicode_cc_table_0, [(32, 845)]),
    (unicode_cc_table_1, [(65, 1431), (96, 1478)]),
    (unicode_cc_table_2, [(128, 1767), (160, 1861)]),
    (unicode_cc_table_3, [(192, 2204), (224, 2381)]),
    (unicode_cc_table_4, [(256, 2876), (288, 3389)]),
    (unicode_cc_table_5, [(320, 3894), (353, 4152)]),
    (unicode_cc_table_6, [(384, 6458), (417, 6859)]),
    (unicode_cc_table_7, [(448, 7379), (480, 7631)]),
    (unicode_cc_table_8, [(512, 8418), (545, 12334)]),
    (unicode_cc_table_9, [(577, 43307), (608, 44013)]),
    (unicode_cc_table_10, [(640, 68153), (673, 69508)]),
    (unicode_cc_table_11, [(704, 70080), (736, 70723)]),
    (unicode_cc_table_12, [(769, 71737), (801, 73026)]),
    (unicode_cc_table_13, [(832, 119143), (865, 123184)])] 0 0 = Some ((), 125259)"
    by (simp add: cc_blocks cc_lengths)
  from rle_walks_concat [OF stable_cc_item this] show ?thesis
    by (simp only: unicode_cc_table_def cc_index list.map fst_conv snd_conv)
qed

lemma cc_index_ok: "index_ok cc_item () unicode_cc_table unicode_cc_index"
  unfolding index_ok_def cc_walk by (simp add: cc_index)

interpretation cc_scan: rle_scan cc_item "()" unicode_cc_table unicode_cc_index
  "\<lambda>c p code s. unicode_get_cc_loop c unicode_cc_table p code" "\<lambda>r. 0 \<le> r \<and> r \<le> 255"
proof
  fix s p n k s' code c
  assume a: "cc_item s (drop p unicode_cc_table) = Some (n, k, s')" "0 \<le> code" "0 \<le> n" "code + n < 2 ^ 31"
  show "unicode_get_cc_loop c unicode_cc_table p code = unicode_get_cc_loop c unicode_cc_table (p + k) (code + n)"
    if "code + n \<le> c" by (rule cc_loop_item(1) [OF a(1,2,4) that])
  show "\<exists>r. unicode_get_cc_loop c unicode_cc_table p code = Some r \<and> 0 \<le> r \<and> r \<le> 255" if "code \<le> c" "c < code + n"
    by (rule cc_loop_item(2) [OF a(1,2,4) that])
qed (rule cc_index_ok)

lemma unicode_get_cc_defined:
  assumes "0 \<le> c" and "c < 2 ^ 32"
  shows "\<exists>r. unicode_get_cc c = Some r \<and> 0 \<le> r \<and> r \<le> 255"
proof -
  have u: "uint (word_of_int c :: u32) = c" using assms by (simp add: uint_word_of_int_eq take_bit_int_eq_self)
  have len: "length unicode_cc_index = 3 * (length unicode_cc_index div 3)" "2 \<le> length unicode_cc_index div 3"
    by (simp_all add: cc_index)
  show ?thesis
  proof (cases rule: get_index_pos_cases [OF len, where c = "word_of_int c", case_names start beyond here])
    case start
    then show ?thesis using cc_scan.indexed_scan [OF len start(1)] u by (simp add: unicode_get_cc_def)
  next
    case beyond
    then show ?thesis by (simp add: unicode_get_cc_def)
  next
    case (here pos code)
    obtain r where "unicode_get_cc_loop c unicode_cc_table pos (uint code) = Some r" "0 \<le> r" "r \<le> 255"
      using cc_scan.indexed_scan [OF len here(1)] unfolding u by blast
    then show ?thesis using here(1) by (simp add: unicode_get_cc_def)
  qed
qed

text \<open>The class as a total function, for the statements about ordering.\<close>

definition ccc :: "int \<Rightarrow> int" where
  "ccc c = (case unicode_get_cc c of None \<Rightarrow> 0 | Some r \<Rightarrow> r)"

definition code_point :: "int \<Rightarrow> bool" where
  "code_point c \<longleftrightarrow> 0 \<le> c \<and> c < 2 ^ 32"

lemma unicode_get_cc_ccc: "code_point c \<Longrightarrow> unicode_get_cc c = Some (ccc c)"
  using unicode_get_cc_defined [of c] by (auto simp: ccc_def code_point_def)

lemma ccc_range: "code_point c \<Longrightarrow> 0 \<le> ccc c \<and> ccc c \<le> 255"
  using unicode_get_cc_defined [of c] by (auto simp: ccc_def code_point_def)

end
