(* ===== verification/CanonOrder.thy ===== *)
theory CanonOrder
  imports CombiningClass "HOL-Library.Multiset"
begin

text \<open>
  Canonical ordering of a buffer of code points (\<^verbatim>\<open>sort_cc\<close> of \<^verbatim>\<open>libunicode.c\<close>) and the
  specification it meets: every maximal run of characters with a non-zero combining class is
  sorted by class, stably.
\<close>

section \<open>Operations\<close>

text \<open>The loop that moves the characters of a higher class up; \<open>k\<close> may become \<open>-1\<close>.\<close>

function sort_cc_shift :: "int list \<Rightarrow> int \<Rightarrow> int \<Rightarrow> int \<Rightarrow> (int \<times> int list) option" where
  "sort_cc_shift buf start cc1 k =
     (if k \<ge> start \<and> k \<ge> 0 then
        do { x \<leftarrow> rd buf (nat k);
             cc \<leftarrow> unicode_get_cc x;
             if cc \<le> cc1 then Some (k, buf)
             else do { buf \<leftarrow> wr buf (nat (k + 1)) x;
                       sort_cc_shift buf start cc1 (k - 1) } }
      else Some (k, buf))"
  by pat_completeness auto
termination
  by (relation "measure (\<lambda>(buf, start, cc1, k). nat (k + 1))") auto

text \<open>The loop over a run; returns the position after it.\<close>

function sort_cc_run :: "int list \<Rightarrow> nat \<Rightarrow> nat \<Rightarrow> nat \<Rightarrow> (nat \<times> int list) option" where
  "sort_cc_run buf len start j =
     (if j < len then
        do { ch1 \<leftarrow> rd buf j;
             cc1 \<leftarrow> unicode_get_cc ch1;
             if cc1 = 0 then Some (j, buf)
             else do { (k, buf) \<leftarrow> sort_cc_shift buf (int start) cc1 (int j - 1);
                       buf \<leftarrow> wr buf (nat (k + 1)) ch1;
                       sort_cc_run buf len start (j + 1) } }
      else Some (j, buf))"
  by pat_completeness auto
termination
  by (relation "measure (\<lambda>(buf, len, start, j). len - j)") auto

declare sort_cc_shift.simps [simp del] sort_cc_run.simps [simp del]

lemma sort_cc_run_ge: "sort_cc_run buf len start j = Some (j', buf') \<Longrightarrow> j \<le> j'"
proof (induction buf len start j rule: sort_cc_run.induct)
  case (1 buf len start j)
  note eq = "1.prems" [unfolded sort_cc_run.simps [of buf len start j]]
  show ?case
  proof (cases "j < len")
    case False
    then show ?thesis using eq by simp
  next
    case True
    then obtain ch1 cc1 where r: "rd buf j = Some ch1" "unicode_get_cc ch1 = Some cc1" using eq by (auto simp: bind_eq_Some_conv)
    show ?thesis
    proof (cases "cc1 = 0")
      case True
      then show ?thesis using eq r \<open>j < len\<close> by simp
    next
      case False
      then obtain k b1 b2 where s: "sort_cc_shift buf (int start) cc1 (int j - 1) = Some (k, b1)" "wr b1 (nat (k + 1)) ch1 = Some b2"
          "sort_cc_run b2 len start (j + 1) = Some (j', buf')"
        using eq r \<open>j < len\<close> by (auto simp: bind_eq_Some_conv)
      have "j + 1 \<le> j'" using "1.IH" [OF \<open>j < len\<close> r False s(1) refl s(2,3)] .
      then show ?thesis by simp
    qed
  qed
qed

text \<open>The outer loop: after a run the loop goes on behind the character that ended it.\<close>

function sort_cc_loop :: "int list \<Rightarrow> nat \<Rightarrow> nat \<Rightarrow> int list option" where
  "sort_cc_loop buf len i =
     (if i < len then
        do { x \<leftarrow> rd buf i;
             cc \<leftarrow> unicode_get_cc x;
             if cc \<noteq> 0 then do { (j, buf) \<leftarrow> sort_cc_run buf len i (i + 1); sort_cc_loop buf len (j + 1) }
             else sort_cc_loop buf len (i + 1) }
      else Some buf)"
  by pat_completeness auto
termination
  by (relation "measure (\<lambda>(buf, len, i). len - i)") (auto dest: sort_cc_run_ge)

declare sort_cc_loop.simps [simp del]

definition sort_cc :: "int list \<Rightarrow> nat \<Rightarrow> int list option" where
  "sort_cc buf len = sort_cc_loop buf len 0"

section \<open>Canonical order\<close>

function canon_order :: "('a \<Rightarrow> int) \<Rightarrow> 'a list \<Rightarrow> 'a list" where
  "canon_order f [] = []"
| "canon_order f (x # xs) =
     (if f x = 0 then x # canon_order f xs
      else sort_key f (x # takeWhile (\<lambda>y. f y \<noteq> 0) xs) @ canon_order f (dropWhile (\<lambda>y. f y \<noteq> 0) xs))"
  by pat_completeness auto
termination
  by (relation "measure (\<lambda>(f, xs). length xs)") (auto intro: le_imp_less_Suc length_dropWhile_le)

lemma canon_order_run: "\<forall>y \<in> set u. f y \<noteq> 0 \<Longrightarrow> canon_order f u = sort_key f u"
  by (cases u) (auto simp: takeWhile_eq_all_conv [THEN iffD2] dropWhile_eq_Nil_conv [THEN iffD2])

lemma canon_order_starter:
  "\<forall>y \<in> set u. f y \<noteq> 0 \<Longrightarrow> f s = 0 \<Longrightarrow> canon_order f (u @ s # v) = sort_key f u @ s # canon_order f v"
  by (cases u) (auto simp: takeWhile_append2 dropWhile_append2)

lemma canon_order_append_starter:
  "f s = 0 \<Longrightarrow> canon_order f (u @ s # v) = canon_order f u @ s # canon_order f v"
proof (induction "length u" arbitrary: u rule: less_induct)
  case less
  show ?case
  proof (cases "\<forall>y \<in> set u. f y \<noteq> 0")
    case True
    then show ?thesis using less.prems by (simp add: canon_order_starter canon_order_run)
  next
    case False
    then obtain u1 s1 v1 where u: "u = u1 @ s1 # v1" "f s1 = 0" "\<forall>y \<in> set u1. f y \<noteq> 0"
      using split_list_first_prop [of u "\<lambda>y. f y = 0"] by auto
    then show ?thesis using less.hyps [of v1] less.prems by (simp add: canon_order_starter)
  qed
qed

lemma canon_order_Nil_starter: "f s = 0 \<Longrightarrow> canon_order f (s # v) = s # canon_order f v"
  by simp

lemma sort_key_swap:
  "f a \<noteq> f b \<Longrightarrow> sort_key f (u @ a # b # v) = sort_key f (u @ b # a # v)"
proof (induction u)
  case Nil
  then show ?case using insort_key_left_comm [of f a b] by simp
qed simp

text \<open>Two adjacent characters of different non-zero classes may be exchanged.\<close>

lemma canon_order_swap:
  assumes "f a \<noteq> 0" and "f b \<noteq> 0" and "f a \<noteq> f b"
  shows "canon_order f (u @ a # b # v) = canon_order f (u @ b # a # v)"
proof -
  have run: "canon_order f (u @ a # b # v) = canon_order f (u @ b # a # v)" if u: "\<forall>y \<in> set u. f y \<noteq> 0" for u
  proof (cases "\<forall>y \<in> set v. f y \<noteq> 0")
    case True
    then have "\<forall>y \<in> set (u @ a # b # v). f y \<noteq> 0" "\<forall>y \<in> set (u @ b # a # v). f y \<noteq> 0" using u assms by auto
    then show ?thesis using sort_key_swap [of f a b u v, OF assms(3)] by (simp only: canon_order_run)
  next
    case False
    then obtain v1 s v2 where v: "v = v1 @ s # v2" "f s = 0" "\<forall>y \<in> set v1. f y \<noteq> 0"
      using split_list_first_prop [of v "\<lambda>y. f y = 0"] by auto
    have "canon_order f ((u @ a # b # v1) @ s # v2) = canon_order f ((u @ b # a # v1) @ s # v2)"
      using u v assms sort_key_swap [of f a b u v1, OF assms(3)] by (subst (1 2) canon_order_starter) auto
    then show ?thesis using v(1) by simp
  qed
  show ?thesis
  proof (cases "\<forall>y \<in> set u. f y \<noteq> 0")
    case True
    then show ?thesis by (rule run)
  next
    case False
    then obtain u1 s u2 where "u = u1 @ s # u2" "f s = 0" "\<forall>y \<in> set u2. f y \<noteq> 0"
      using split_list_last_prop [of u "\<lambda>y. f y = 0"] by auto
    then show ?thesis using run [of u2] by (simp add: canon_order_append_starter)
  qed
qed

lemma mset_canon_order: "mset (canon_order f xs) = mset xs"
proof (induction f xs rule: canon_order.induct)
  case (2 f x xs)
  have "mset (takeWhile (\<lambda>y. f y \<noteq> 0) xs) + mset (dropWhile (\<lambda>y. f y \<noteq> 0) xs) = mset xs"
    by (metis mset_append takeWhile_dropWhile_id)
  then show ?case using "2.IH" by auto
qed simp

lemma set_canon_order [simp]: "set (canon_order f xs) = set xs"
  by (metis mset_canon_order set_mset_mset)

lemma length_canon_order [simp]: "length (canon_order f xs) = length xs"
  by (metis mset_canon_order size_mset)

section \<open>\<^verbatim>\<open>sort_cc\<close> puts a buffer into canonical order\<close>

definition ins_after :: "('a \<Rightarrow> int) \<Rightarrow> 'a \<Rightarrow> 'a list \<Rightarrow> 'a list" where
  "ins_after f x ys = takeWhile (\<lambda>y. f y \<le> f x) ys @ x # dropWhile (\<lambda>y. f y \<le> f x) ys"

lemma sorted_upto_last: "sorted (map f (ys @ [y])) \<Longrightarrow> z \<in> set ys \<Longrightarrow> (f z :: int) \<le> f y"
  by (auto simp: sorted_append)

lemma ins_after_snoc:
  assumes "sorted (map f (ys @ [y]))"
  shows "ins_after f x (ys @ [y]) = (if f y \<le> f x then ys @ [y, x] else ins_after f x ys @ [y])"
proof (cases "f y \<le> f x")
  case True
  then have "\<forall>z \<in> set ys. f z \<le> f x" using sorted_upto_last [OF assms] by fastforce
  then show ?thesis
    using True by (simp add: ins_after_def takeWhile_append2 dropWhile_append2)
next
  case False
  then show ?thesis
    by (cases "\<forall>z \<in> set ys. f z \<le> f x")
      (auto simp: ins_after_def takeWhile_append2 dropWhile_append2 takeWhile_append1 dropWhile_append1 dropWhile_eq_Nil_conv [THEN iffD2] takeWhile_eq_all_conv [THEN iffD2])
qed

lemma sort_key_ins_after: "sort_key f (xs @ [x]) = ins_after f x (sort_key f xs)"
proof (rule properties_for_sort_key)
  let ?ys = "sort_key f xs"
  have id: "takeWhile P ys @ dropWhile P ys = ys" for P and ys :: "'a list" by simp
  show "mset (ins_after f x ?ys) = mset (xs @ [x])"
    using arg_cong [OF id [of "\<lambda>y. f y \<le> f x" ?ys], of mset] unfolding mset_append by (simp add: ins_after_def)
  have flt: "filter P ?ys = filter P (takeWhile Q ?ys) @ filter P (dropWhile Q ?ys)" for P Q
    by (simp only: filter_append [symmetric] id)
  have hi: "f x < f y" if y: "y \<in> set (dropWhile (\<lambda>y. f y \<le> f x) ?ys)" for y
  proof -
    obtain d ds where d: "dropWhile (\<lambda>y. f y \<le> f x) ?ys = d # ds" using y by (cases "dropWhile (\<lambda>y. f y \<le> f x) ?ys") auto
    have "sorted (map f (takeWhile (\<lambda>y. f y \<le> f x) ?ys @ d # ds))" using id [of "\<lambda>y. f y \<le> f x" ?ys] d by simp
    then have "f d \<le> f y" using y d by (auto simp: sorted_append)
    moreover have "f x < f d" using hd_dropWhile [of "\<lambda>y. f y \<le> f x" ?ys] d by simp
    ultimately show ?thesis by simp
  qed
  have none: "filter (\<lambda>y. f x = f y) (dropWhile (\<lambda>y. f y \<le> f x) ?ys) = []"
    using hi by (fastforce simp: filter_empty_conv)
  show "filter (\<lambda>y. f k = f y) (ins_after f x ?ys) = filter (\<lambda>y. f k = f y) (xs @ [x])" for k
    using flt [of "\<lambda>y. f k = f y" "\<lambda>y. f y \<le> f x"] none sort_key_stable [of f "f k" xs]
    by (cases "f k = f x") (auto simp: ins_after_def eq_commute)
  have "sorted (map f (takeWhile (\<lambda>y. f y \<le> f x) ?ys))" "sorted (map f (dropWhile (\<lambda>y. f y \<le> f x) ?ys))"
    using sorted_sort_key [of f xs] id [of "\<lambda>y. f y \<le> f x" ?ys] by (metis map_append sorted_append)+
  then show "sorted (map f (ins_after f x ?ys))"
    using hi by (fastforce simp: ins_after_def sorted_append dest: set_takeWhileD)
qed

lemma sort_cc_shift_spec:
  assumes "sorted (map ccc ys)" and "\<forall>y \<in> set ys. code_point y"
  shows "\<exists>k b. sort_cc_shift (pre @ ys @ g # post) (int (length pre)) (ccc x) (int (length pre + length ys) - 1) = Some (k, b) \<and>
     wr b (nat (k + 1)) x = Some (pre @ ins_after ccc x ys @ post)"
  using assms
proof (induction ys arbitrary: g post rule: rev_induct)
  case Nil
  then show ?case by (subst sort_cc_shift.simps) (simp add: ins_after_def wr_Some)
next
  case (snoc y ys)
  define n where "n = length pre + length ys"
  have k: "int (length pre + length (ys @ [y])) - 1 = int n" by (simp add: n_def)
  have rd: "rd (pre @ (ys @ [y]) @ g # post) (nat (int n)) = Some y" unfolding nat_int by (simp add: n_def rd_def nth_append)
  have y: "unicode_get_cc y = Some (ccc y)" using snoc.prems unicode_get_cc_ccc by simp
  show ?case
  proof (cases "ccc y \<le> ccc x")
    case True
    then have "sort_cc_shift (pre @ (ys @ [y]) @ g # post) (int (length pre)) (ccc x) (int n) = Some (int n, pre @ (ys @ [y]) @ g # post)"
      using rd y by (subst sort_cc_shift.simps) (simp add: n_def)
    moreover have "wr (pre @ (ys @ [y]) @ g # post) (nat (int n + 1)) x = Some (pre @ (ys @ [y, x]) @ post)"
      by (simp add: n_def wr_def nat_add_distrib list_update_append)
    ultimately show ?thesis unfolding k ins_after_snoc [OF snoc.prems(1)] using True by auto
  next
    case False
    have "wr (pre @ (ys @ [y]) @ g # post) (nat (int n + 1)) y = Some (pre @ ys @ y # y # post)"
      by (simp add: n_def wr_def nat_add_distrib list_update_append)
    then have "sort_cc_shift (pre @ (ys @ [y]) @ g # post) (int (length pre)) (ccc x) (int n) =
        sort_cc_shift (pre @ ys @ y # y # post) (int (length pre)) (ccc x) (int n - 1)"
      using rd y False by (subst sort_cc_shift.simps) (simp add: n_def)
    moreover have "sorted (map ccc ys)" "\<forall>y \<in> set ys. code_point y" using snoc.prems by (simp_all add: sorted_append)
    ultimately show ?thesis
      using snoc.IH [of y "y # post"] False unfolding k ins_after_snoc [OF snoc.prems(1)] n_def by simp
  qed
qed

lemma sort_cc_run_spec:
  assumes "\<forall>y \<in> set (zs @ rest). code_point y"
  shows "sort_cc_run (pre @ sort_key ccc zs @ rest) (length (pre @ zs @ rest)) (length pre) (length pre + length zs) =
     Some (length pre + length (zs @ takeWhile (\<lambda>y. ccc y \<noteq> 0) rest),
       pre @ sort_key ccc (zs @ takeWhile (\<lambda>y. ccc y \<noteq> 0) rest) @ dropWhile (\<lambda>y. ccc y \<noteq> 0) rest)"
  using assms
proof (induction rest arbitrary: zs)
  case Nil
  then show ?case by (subst sort_cc_run.simps) simp
next
  case (Cons x rest)
  have rd: "rd (pre @ sort_key ccc zs @ x # rest) (length pre + length zs) = Some x" by (simp add: rd_def nth_append)
  have x: "unicode_get_cc x = Some (ccc x)" using Cons.prems unicode_get_cc_ccc by simp
  show ?case
  proof (cases "ccc x = 0")
    case True
    then show ?thesis using rd x by (subst sort_cc_run.simps) simp
  next
    case False
    obtain k b where s: "sort_cc_shift (pre @ sort_key ccc zs @ x # rest) (int (length pre)) (ccc x) (int (length pre + length zs) - 1) = Some (k, b)"
        "wr b (nat (k + 1)) x = Some (pre @ sort_key ccc (zs @ [x]) @ rest)"
      using sort_cc_shift_spec [of "sort_key ccc zs" pre x rest x] Cons.prems unfolding sort_key_ins_after by auto
    have "sort_cc_run (pre @ sort_key ccc zs @ x # rest) (length (pre @ zs @ x # rest)) (length pre) (length pre + length zs) =
        sort_cc_run (pre @ sort_key ccc (zs @ [x]) @ rest) (length (pre @ (zs @ [x]) @ rest)) (length pre) (length pre + length (zs @ [x]))"
      using rd x False s by (subst sort_cc_run.simps) simp
    then show ?thesis using Cons.IH [of "zs @ [x]"] Cons.prems False by simp
  qed
qed

lemma sort_cc_loop_spec:
  "\<forall>y \<in> set rest. code_point y \<Longrightarrow> sort_cc_loop (pre @ rest) (length (pre @ rest)) (length pre) = Some (pre @ canon_order ccc rest)"
proof (induction "length rest" arbitrary: pre rest rule: less_induct)
  case less
  show ?case
  proof (cases rest)
    case Nil
    then show ?thesis by (subst sort_cc_loop.simps) simp
  next
    case (Cons x xs)
    have rd: "rd (pre @ rest) (length pre) = Some x" by (simp add: Cons)
    have x: "unicode_get_cc x = Some (ccc x)" using less.prems Cons unicode_get_cc_ccc by simp
    show ?thesis
    proof (cases "ccc x = 0")
      case True
      then show ?thesis
        using rd x less.hyps [of xs "pre @ [x]"] less.prems Cons by (subst sort_cc_loop.simps) simp
    next
      case False
      define u where "u = x # takeWhile (\<lambda>y. ccc y \<noteq> 0) xs"
      define v where "v = dropWhile (\<lambda>y. ccc y \<noteq> 0) xs"
      have uv: "rest = u @ v" by (simp add: u_def v_def Cons)
      have run: "sort_cc_run (pre @ rest) (length (pre @ rest)) (length pre) (length pre + 1) = Some (length pre + length u, pre @ sort_key ccc u @ v)"
        using sort_cc_run_spec [of "[x]" xs pre] less.prems Cons by (simp add: u_def v_def)
      have step: "sort_cc_loop (pre @ rest) (length (pre @ rest)) (length pre) =
          sort_cc_loop (pre @ sort_key ccc u @ v) (length (pre @ rest)) (length pre + length u + 1)"
        using rd x False run Cons by (subst sort_cc_loop.simps) simp
      have goal: "canon_order ccc rest = sort_key ccc u @ canon_order ccc v" using False Cons by (simp add: u_def v_def)
      show ?thesis
      proof (cases v)
        case Nil
        then show ?thesis unfolding step goal using uv by (subst sort_cc_loop.simps) simp
      next
        case v: (Cons s w)
        have s0: "ccc s = 0" using hd_dropWhile [of "\<lambda>y. ccc y \<noteq> 0" xs] v unfolding v_def by (metis list.distinct(1) list.sel(1))
        have "sort_cc_loop ((pre @ sort_key ccc u @ [s]) @ w) (length ((pre @ sort_key ccc u @ [s]) @ w)) (length (pre @ sort_key ccc u @ [s])) =
            Some ((pre @ sort_key ccc u @ [s]) @ canon_order ccc w)"
          using less.hyps [of w "pre @ sort_key ccc u @ [s]"] less.prems uv v by simp
        then show ?thesis unfolding step goal using uv v s0 by (simp add: add.assoc)
      qed
    qed
  qed
qed

lemma sort_cc_canonical: "\<forall>y \<in> set buf. code_point y \<Longrightarrow> sort_cc buf (length buf) = Some (canon_order ccc buf)"
  using sort_cc_loop_spec [of buf "[]"] by (simp add: sort_cc_def)

end
