(* ===== verification/UnicodeDecompTable.thy ===== *)
theory UnicodeDecompTable
  imports CPrelude
begin

text \<open>
  The decomposition and composition tables of \<^verbatim>\<open>libunicode-table.h\<close>, byte for byte.  The long tables
  are written in blocks: block \<open>j\<close> of \<^verbatim>\<open>unicode_decomp_data\<close> holds the bytes block \<open>j\<close> of
  \<^verbatim>\<open>unicode_decomp_table1\<close> and \<^verbatim>\<open>unicode_decomp_table2\<close> refers to.
\<close>

definition unicode_decomp_table1_0 :: "u32 list" where
  "unicode_decomp_table1_0 = concat [
    [0x280081, 0x2a0097, 0x2a8081, 0x2bc097, 0x2c8115, 0x2d0097, 0x2d4081, 0x2e0097, 0x2e4115, 0x2f0199, 0x302016, 0x400842, 0x448a42, 0x4a0442, 0x4c0096, 0x4c8117],
    [0x4d0242, 0x4e4342, 0x4fc12f, 0x50c342, 0x5240bf, 0x530342, 0x550942, 0x5a0842]]"

definition unicode_decomp_table1_1 :: "u32 list" where
  "unicode_decomp_table1_1 = concat [
    [0x5e0096, 0x5e4342, 0x5fc081, 0x680142, 0x6bc142, 0x710185, 0x71c317, 0x734844, 0x778344, 0x798342, 0x7b02be, 0x7c4197, 0x7d0142, 0x7e0444, 0x800e42, 0x878142],
    [0x898744, 0xac0483, 0xb60317, 0xb80283, 0xd00214, 0xd10096, 0xdd0080, 0xde8097, 0xdf8080, 0xe10097, 0xe1413e, 0xe1c080, 0xe204be, 0xea83ae]]"

definition unicode_decomp_table1_2 :: "u32 list" where
  "unicode_decomp_table1_2 = concat [
    [0xf282ae, 0xf401ad, 0xf4c12e, 0xf54103, 0xfc0303, 0xfe4081, 0x100023e, 0x101c0be, 0x10301be, 0x10640be, 0x10e40be, 0x114023e, 0x115c0be, 0x11701be, 0x11d8144, 0x1304144],
    [0x1340244, 0x1358144, 0x1368344, 0x1388344, 0x13a8644, 0x13e0144, 0x161c085, 0x18882ae, 0x19d422f, 0x1b00184, 0x1b4c084, 0x24a4084, 0x24c4084, 0x24d0084, 0x256042e, 0x272c12e],
    [0x2770120, 0x277c084, 0x28cc084, 0x28d8084]]"

definition unicode_decomp_table1_3 :: "u32 list" where
  "unicode_decomp_table1_3 = concat [
    [0x29641ae, 0x2978084, 0x2d20084, 0x2d2c12e, 0x2d70120, 0x2e50084, 0x2f281ae, 0x3120084, 0x3300084, 0x331c122, 0x332812e, 0x35281ae, 0x3768084, 0x37701ae, 0x38cc085, 0x3acc085],
    [0x3b7012f, 0x3c30081, 0x3d0c084, 0x3d34084, 0x3d48084, 0x3d5c084, 0x3d70084, 0x3da4084, 0x3dcc084, 0x3dd412e, 0x3ddc085, 0x3de0084, 0x3de4085, 0x3e04084, 0x3e4c084, 0x3e74084],
    [0x3e88084, 0x3e9c084, 0x3eb0084, 0x3ee4084]]"

definition unicode_decomp_table1_4 :: "u32 list" where
  "unicode_decomp_table1_4 = concat [
    [0x4098084, 0x43f0081, 0x6c18484, 0x6c48084, 0x6cec184, 0x6d00120, 0x6d0c084, 0x74b0383, 0x74cc41f, 0x74f1783, 0x75e0081, 0x766d283, 0x7801d44]]"

definition unicode_decomp_table1_5 :: "u32 list" where
  "unicode_decomp_table1_5 = concat [
    [0x78e8942, 0x7931844, 0x79f0d42, 0x7a58216, 0x7a68085, 0x7a6c0be, 0x7a80d44, 0x7aea044]]"

definition unicode_decomp_table1_6 :: "u32 list" where
  "unicode_decomp_table1_6 = concat [
    [0x7c00122, 0x7c08344, 0x7c20122, 0x7c28344, 0x7c40122, 0x7c48244, 0x7c60122, 0x7c68244, 0x7c8113e, 0x7d08244, 0x7d20122, 0x7d28244, 0x7d40122, 0x7d48344, 0x7d64c3e, 0x7dc4080],
    [0x7dc80be]]"

definition unicode_decomp_table1_7 :: "u32 list" where
  "unicode_decomp_table1_7 = concat [
    [0x7dcc080, 0x7dd00be, 0x7dd4080, 0x7dd80be, 0x7ddc080, 0x7de00be, 0x7de4080, 0x7de80be, 0x7dec080, 0x7df00be, 0x7df4080, 0x7e00820, 0x7e40820, 0x7e80820, 0x7ec05be, 0x7eec080],
    [0x7ef00be, 0x7ef4097, 0x7ef8080, 0x7efc117, 0x7f0443e, 0x7f24080, 0x7f280be, 0x7f2c080, 0x7f303be, 0x7f4c080, 0x7f582ae, 0x7f6c080, 0x7f7433e, 0x7f8c080, 0x7f903ae, 0x7fac080],
    [0x7fb013e, 0x7fb8102, 0x7fc83be, 0x7fe4080]]"

definition unicode_decomp_table1_8 :: "u32 list" where
  "unicode_decomp_table1_8 = concat [
    [0x7fe80be, 0x7fec080, 0x7ff00be, 0x7ff4080, 0x7ff8097, 0x800011e, 0x8008495, 0x8044081, 0x805c097, 0x8090081, 0x8094097, 0x8098099, 0x80bc081, 0x80cc085, 0x80d00b1, 0x80d8085],
    [0x80dc0b1, 0x80f0197, 0x811c197, 0x815c0b3, 0x817c081, 0x81c0595, 0x81ec081, 0x81f0215, 0x820051f, 0x8228583, 0x8254415, 0x82a0097, 0x8400119, 0x8408081, 0x840c0bf, 0x8414119],
    [0x841c081, 0x84240bf, 0x842852d, 0x8454081]]"

definition unicode_decomp_table1_9 :: "u32 list" where
  "unicode_decomp_table1_9 = concat [
    [0x8458097, 0x8464295, 0x8480097, 0x8484099, 0x8488097, 0x8490081, 0x8498080, 0x84a0081, 0x84a8102, 0x84b0495, 0x84d421f, 0x84e4081, 0x84ec099, 0x84f0283, 0x8514295, 0x8540119],
    [0x854809b, 0x854c619, 0x857c097, 0x8580081, 0x8584097, 0x8588099, 0x858c097, 0x8590081, 0x8594097, 0x8598099, 0x859c09b, 0x85a0097, 0x85a4081, 0x85a8097, 0x85ac099, 0x85b0295],
    [0x85c4097, 0x85c8099, 0x85cc097, 0x85d0081]]"

definition unicode_decomp_table1_10 :: "u32 list" where
  "unicode_decomp_table1_10 = concat [
    [0x85d4097, 0x85d8099, 0x85dc09b, 0x85e0097, 0x85e4081, 0x85e8097, 0x85ec099, 0x85f0215, 0x8624099, 0x866813e, 0x86b80be, 0x87341be, 0x88100be, 0x88240be, 0x88300be, 0x88901be],
    [0x88b0085, 0x88b40b1, 0x88bc085, 0x88c00b1, 0x89040be, 0x89100be, 0x891c1be, 0x89801be, 0x89b42be, 0x89d0144, 0x89e0144, 0x8a00144, 0x8a10144, 0x8a20144, 0x8ab023e, 0x8b80244],
    [0x8ba8220, 0x8ca411e, 0x918049f, 0x91a4523]]"

definition unicode_decomp_table1_11 :: "u32 list" where
  "unicode_decomp_table1_11 = concat [
    [0x91cc097, 0x91d04a5, 0x91f452b, 0x921c09b, 0x92204a1, 0x9244525, 0x926c099, 0x9270d25, 0x92d8d1f, 0x9340d1f, 0x93a8081, 0xa8300b3, 0xa9d0099, 0xa9d4097, 0xa9d8099, 0xab700be],
    [0xb1f0115, 0xb5bc081, 0xba7c081, 0xbbcc081, 0xbc004ad, 0xbc244ad, 0xbc484ad, 0xbc6f383]]"

definition unicode_decomp_table1_12 :: "u32 list" where
  "unicode_decomp_table1_12 = concat [
    [0xbe0852d, 0xbe31d03, 0xbf1882d, 0xc000081, 0xc0d8283, 0xc130b84, 0xc194284]]"

definition unicode_decomp_table1_13 :: "u32 list" where
  "unicode_decomp_table1_13 = concat [
    [0xc1c0122, 0xc1cc122, 0xc1d8122, 0xc1e4122, 0xc1f0122, 0xc250084, 0xc26c123, 0xc278084, 0xc27c085, 0xc2b0b84, 0xc314284, 0xc340122, 0xc34c122, 0xc358122, 0xc364122, 0xc370122],
    [0xc3d0084, 0xc3dc220, 0xc3f8084, 0xc3fc085, 0xc4c4a2d, 0xc51451f, 0xc53ca9f, 0xc5915ad]]"

definition unicode_decomp_table1_14 :: "u32 list" where
  "unicode_decomp_table1_14 = concat [
    [0xc648703, 0xc800741, 0xc838089, 0xc83c129, 0xc8441a9, 0xc850089, 0xc854129, 0xc85c2a9, 0xc870089, 0xc87408f, 0xc87808d, 0xc881241, 0xc910203, 0xc940099, 0xc9444a3, 0xc968323],
    [0xc98072d]]"

definition unicode_decomp_table1_15 :: "u32 list" where
  "unicode_decomp_table1_15 = concat [
    [0xc9b84af, 0xc9dc2a1, 0xc9f00b5, 0xc9f40b3, 0xc9f8085, 0xca01883, 0xcac4223, 0xcad4523, 0xcafc097, 0xcb004a1, 0xcb241a5, 0xcb30097, 0xcb34099, 0xcb38097, 0xcb3c099, 0xcb417ad],
    [0xcbfc085, 0xcc001b3, 0xcc0c0b1, 0xcc100b3, 0xcc14131]]"

definition unicode_decomp_table1_16 :: "u32 list" where
  "unicode_decomp_table1_16 = concat [
    [0xcc1c0b5, 0xcc200b3, 0xcc241b1, 0xcc30133, 0xcc38131, 0xcc40085, 0xcc440b1, 0xcc48133, 0xcc50085, 0xcc540b5, 0xcc580b7, 0xcc5c0b5, 0xcc600b1, 0xcc64135, 0xcc6c0b3, 0xcc701b1],
    [0xcc7c0b3, 0xcc800b5, 0xcc840b3, 0xcc881b1, 0xcc9422f, 0xcca4131, 0xccac0b5, 0xccb00b1, 0xccb40b3, 0xccb80b5, 0xccbc0b1, 0xccc012f, 0xccc80b5, 0xcccc0b3, 0xccd00b5, 0xccd40b1],
    [0xccd80b5, 0xccdc085, 0xcce02b1]]"

definition unicode_decomp_table1_17 :: "u32 list" where
  "unicode_decomp_table1_17 = concat [
    [0xccf40b3, 0xccf80b1, 0xccfc085, 0xcd001b1, 0xcd0c0b3, 0xcd101b1, 0xcd1c0b5, 0xcd200b3, 0xcd24085, 0xcd280b5, 0xcd2c085, 0xcd30133, 0xcd381b1, 0xcd440b3, 0xcd48085, 0xcd4c0b1],
    [0xcd500b3, 0xcd54085, 0xcd580b5, 0xcd5c0b1, 0xcd60521, 0xcd88525, 0xcdb02a5, 0xcdc4099, 0xcdc8117, 0xcdd0099, 0xcdd4197, 0xcde0127, 0xcde8285, 0xcdfc089, 0xce0043f, 0xce20099],
    [0xce2409b, 0xce283bf, 0xce44219]]"

definition unicode_decomp_table1_18 :: "u32 list" where
  "unicode_decomp_table1_18 = concat [
    [0xce54205, 0xce6433f, 0xce7c131, 0xce84085, 0xce881b1, 0xce94085, 0xce98107, 0xcea0089, 0xcea4097, 0xcea8219, 0xceb809d, 0xcebc08d, 0xcec083f, 0xcf00105, 0xcf0809b, 0xcf0c197],
    [0xcf1809b, 0xcf1c099, 0xcf20517, 0xcf48099, 0xcf4c117, 0xcf54119, 0xcf5c097, 0xcf6009b, 0xcf64099, 0xcf68217, 0xcf78119, 0xcf804a1, 0xcfa4525]]"

definition unicode_decomp_table1_19 :: "u32 list" where
  "unicode_decomp_table1_19 = concat [
    [0xcfcc525, 0xcff4125, 0xcffc099, 0x29a70103, 0x29dc0081, 0x29fc8195, 0x29fe0103, 0x2ad70203, 0x2ada4081, 0x3e401482, 0x3e4a7f82]]"

definition unicode_decomp_table1_20 :: "u32 list" where
  "unicode_decomp_table1_20 = concat [
    [0x3e6a3f82]]"

definition unicode_decomp_table1_21 :: "u32 list" where
  "unicode_decomp_table1_21 = concat [
    [0x3e8aa102, 0x3e9b0110, 0x3e9c2f82]]"

definition unicode_decomp_table1_22 :: "u32 list" where
  "unicode_decomp_table1_22 = concat [
    [0x3eb3c590, 0x3ec00197, 0x3ec0c119, 0x3ec1413f, 0x3ec4c2af, 0x3ec74184, 0x3ec804ad, 0x3eca4081, 0x3eca8304, 0x3ecc03a0, 0x3ece02a0, 0x3ecf8084, 0x3ed00120, 0x3ed0c120, 0x3ed184ae, 0x3ed3c085],
    [0x3ed4312d, 0x3ef4cbad]]"

definition unicode_decomp_table1_23 :: "u32 list" where
  "unicode_decomp_table1_23 = concat [
    [0x3efa892f, 0x3eff022d, 0x3f002f2f, 0x3f1782a5, 0x3f18c0b1, 0x3f1907af]]"

definition unicode_decomp_table1_24 :: "u32 list" where
  "unicode_decomp_table1_24 = concat [
    [0x3f1cffaf]]"

definition unicode_decomp_table1_25 :: "u32 list" where
  "unicode_decomp_table1_25 = concat [
    [0x3f3c81a5, 0x3f3d64af, 0x3f542031]]"

definition unicode_decomp_table1_26 :: "u32 list" where
  "unicode_decomp_table1_26 = concat [
    [0x3f649b31, 0x3f7c0131, 0x3f7c83b3, 0x3f7e40b1, 0x3f7e80bd, 0x3f7ec0bb, 0x3f7f00b3, 0x3f840503]]"

definition unicode_decomp_table1_27 :: "u32 list" where
  "unicode_decomp_table1_27 = concat [
    [0x3f8c01ad, 0x3f8cc315, 0x3f8e462d, 0x3f91cc03, 0x3f97c695, 0x3f9c01af, 0x3f9d0085, 0x3f9d852f, 0x3fa03aad, 0x3fbd442f]]"

definition unicode_decomp_table1_28 :: "u32 list" where
  "unicode_decomp_table1_28 = concat [
    [0x3fc06f1f, 0x3fd7c11f, 0x3fd85fad, 0x3fe80081, 0x3fe84f1f, 0x3ff0831f, 0x3ff2831f, 0x3ff4831f, 0x3ff6819f, 0x3ff80783, 0x41e04d83, 0x41e70f91, 0x44268192, 0x442ac092]]"

definition unicode_decomp_table1_29 :: "u32 list" where
  "unicode_decomp_table1_29 = concat [
    [0x444b8112, 0x44d2c112, 0x452ec212, 0x456e8112, 0x464e0092, 0x74578392, 0x746ec312, 0x75000d1f, 0x75068d1f, 0x750d0d1f, 0x7513839f, 0x7515891f, 0x751a0d1f, 0x75208d1f, 0x75271015, 0x752f439f],
    [0x7531459f, 0x75340d1f, 0x753a8d1f, 0x75410395, 0x7543441f, 0x7545839f, 0x75478d1f, 0x754e0795, 0x7552839f, 0x75548d1f, 0x755b0d1f, 0x75618d1f, 0x75680d1f, 0x756e8d1f, 0x75750d1f, 0x757b8d1f],
    [0x75820d1f, 0x75888d1f, 0x758f0d1f, 0x75958d1f]]"

definition unicode_decomp_table1_30 :: "u32 list" where
  "unicode_decomp_table1_30 = concat [
    [0x759c0d1f, 0x75a28d1f, 0x75a90103, 0x75aa089f, 0x75ae4081, 0x75ae839f, 0x75b04081, 0x75b08c9f, 0x75b6c081, 0x75b7032d, 0x75b8889f, 0x75bcc081, 0x75bd039f, 0x75bec081, 0x75bf0c9f, 0x75c54081],
    [0x75c5832d, 0x75c7089f, 0x75cb4081, 0x75cb839f, 0x75cd4081, 0x75cd8c9f, 0x75d3c081, 0x75d4032d, 0x75d5889f, 0x75d9c081, 0x75da039f, 0x75dbc081, 0x75dc0c9f, 0x75e24081, 0x75e2832d, 0x75e4089f],
    [0x75e84081, 0x75e8839f, 0x75ea4081, 0x75ea8c9f]]"

definition unicode_decomp_table1_31 :: "u32 list" where
  "unicode_decomp_table1_31 = concat [
    [0x75f0c081, 0x75f1042d, 0x75f3851f, 0x75f6051f, 0x75f8851f, 0x75fb051f, 0x75fd851f, 0x7b80022d, 0x7b814dad, 0x7b884203, 0x7b89c081, 0x7b8a452d, 0x7b8d0403, 0x7b908081, 0x7b91dc03, 0x7ba0052d],
    [0x7ba2c8ad, 0x7ba84483]]"

definition unicode_decomp_table1_32 :: "u32 list" where
  "unicode_decomp_table1_32 = concat [
    [0x7baac8ad, 0x7c400097, 0x7c404521, 0x7c440d25, 0x7c4a8087, 0x7c4ac115, 0x7c4b4117, 0x7c4c0d1f, 0x7c528217, 0x7c538099, 0x7c53c097, 0x7c5a8197, 0x7c640097, 0x7c80012f, 0x7c808081, 0x7c841603],
    [0x7c9004c1, 0x7c940103, 0x7efc051f, 0xbe0001ac, 0xbe00d110]]"

definition unicode_decomp_table1_33 :: "u32 list" where
  "unicode_decomp_table1_33 = concat [
    [0xbe0947ac, 0xbe0d3910]]"

definition unicode_decomp_table1_34 :: "u32 list" where
  "unicode_decomp_table1_34 = concat [
    [0xbe29872c, 0xbe2d022c, 0xbe2e3790]]"

definition unicode_decomp_table1_35 :: "u32 list" where
  "unicode_decomp_table1_35 = concat [
    [0xbe49ff90]]"

definition unicode_decomp_table1_36 :: "u32 list" where
  "unicode_decomp_table1_36 = concat [
    [0xbe69bc10]]"

definition unicode_decomp_table1 :: "u32 list" where
  "unicode_decomp_table1 = concat [
    unicode_decomp_table1_0, unicode_decomp_table1_1, unicode_decomp_table1_2, unicode_decomp_table1_3,
    unicode_decomp_table1_4, unicode_decomp_table1_5, unicode_decomp_table1_6, unicode_decomp_table1_7,
    unicode_decomp_table1_8, unicode_decomp_table1_9, unicode_decomp_table1_10, unicode_decomp_table1_11,
    unicode_decomp_table1_12, unicode_decomp_table1_13, unicode_decomp_table1_14, unicode_decomp_table1_15,
    unicode_decomp_table1_16, unicode_decomp_table1_17, unicode_decomp_table1_18, unicode_decomp_table1_19,
    unicode_decomp_table1_20, unicode_decomp_table1_21, unicode_decomp_table1_22, unicode_decomp_table1_23,
    unicode_decomp_table1_24, unicode_decomp_table1_25, unicode_decomp_table1_26, unicode_decomp_table1_27,
    unicode_decomp_table1_28, unicode_decomp_table1_29, unicode_decomp_table1_30, unicode_decomp_table1_31,
    unicode_decomp_table1_32, unicode_decomp_table1_33, unicode_decomp_table1_34, unicode_decomp_table1_35,
    unicode_decomp_table1_36]"

definition unicode_decomp_table2_0 :: "u16 list" where
  "unicode_decomp_table2_0 = concat [
    [0x20, 0, 0x61, 2, 4, 6, 0x3bc, 8, 0xa, 0xc, 0x15, 0x95, 0xa5, 0xb9, 0xc1, 0xc3],
    [0xc7, 0xcb, 0xd1, 0xd7, 0xdd, 0xe0, 0xe6, 0xf8]]"

definition unicode_decomp_table2_1 :: "u16 list" where
  "unicode_decomp_table2_1 = concat [
    [0x108, 0x10a, 0x73, 0x110, 0x112, 0x114, 0x120, 0x12c, 0x144, 0x14d, 0x153, 0x162, 0x168, 0x16a, 0x176, 0x192],
    [0x194, 0x1a9, 0x1bb, 0x1c7, 0x1d1, 0x1d5, 0x2b9, 0x1d7, 0x3b, 0x1d9, 0x1db, 0xb7, 0x1e1, 0x1fc]]"

definition unicode_decomp_table2_2 :: "u16 list" where
  "unicode_decomp_table2_2 = concat [
    [0x20c, 0x218, 0x21d, 0x223, 0x227, 0x3a3, 0x233, 0x23f, 0x242, 0x24b, 0x24e, 0x251, 0x25d, 0x260, 0x269, 0x26c],
    [0x26f, 0x275, 0x278, 0x281, 0x28a, 0x29c, 0x29f, 0x2a3, 0x2af, 0x2b9, 0x2c5, 0x2c9, 0x2cd, 0x2d1, 0x2d5, 0x2e7],
    [0x2ed, 0x2f1, 0x2f5, 0x2f9]]"

definition unicode_decomp_table2_3 :: "u16 list" where
  "unicode_decomp_table2_3 = concat [
    [0x2fd, 0x305, 0x309, 0x30d, 0x313, 0x317, 0x31b, 0x323, 0x327, 0x32b, 0x32f, 0x335, 0x33d, 0x341, 0x349, 0x34d],
    [0x351, 0xf0b, 0x357, 0x35b, 0x35f, 0x363, 0x367, 0x36b, 0x36f, 0x373, 0x379, 0x37d, 0x381, 0x385, 0x389, 0x38d],
    [0x391, 0x395, 0x399, 0x39d]]"

definition unicode_decomp_table2_4 :: "u16 list" where
  "unicode_decomp_table2_4 = concat [
    [0x3a1, 0x10dc, 0x3a5, 0x3c9, 0x3cd, 0x3d9, 0x3dd, 0x3e1, 0x3ef, 0x3f1, 0x43d, 0x44f, 0x499]]"

definition unicode_decomp_table2_5 :: "u16 list" where
  "unicode_decomp_table2_5 = concat [
    [0x4f0, 0x502, 0x54a, 0x564, 0x56c, 0x570, 0x573, 0x59a]]"

definition unicode_decomp_table2_6 :: "u16 list" where
  "unicode_decomp_table2_6 = concat [
    [0x5fa, 0x5fe, 0x607, 0x60b, 0x614, 0x618, 0x61e, 0x622, 0x628, 0x68e, 0x694, 0x698, 0x69e, 0x6a2, 0x6ab, 0x3ac],
    [0x6f3]]"

definition unicode_decomp_table2_7 :: "u16 list" where
  "unicode_decomp_table2_7 = concat [
    [0x3ad, 0x6f6, 0x3ae, 0x6f9, 0x3af, 0x6fc, 0x3cc, 0x6ff, 0x3cd, 0x702, 0x3ce, 0x705, 0x709, 0x70d, 0x711, 0x386],
    [0x732, 0x735, 0x3b9, 0x737, 0x73b, 0x388, 0x753, 0x389, 0x756, 0x390, 0x76b, 0x38a, 0x777, 0x3b0, 0x789, 0x38e],
    [0x799, 0x79f, 0x7a3, 0x38c]]"

definition unicode_decomp_table2_8 :: "u16 list" where
  "unicode_decomp_table2_8 = concat [
    [0x7b8, 0x38f, 0x7bb, 0xb4, 0x7be, 0x7c0, 0x7c2, 0x2010, 0x7cb, 0x2e, 0x7cd, 0x7cf, 0x20, 0x7d2, 0x7d6, 0x7db],
    [0x7df, 0x7e4, 0x7ea, 0x7f0, 0x20, 0x7f6, 0x2212, 0x801, 0x805, 0x807, 0x81d, 0x825, 0x827, 0x43, 0x82d, 0x830],
    [0x190, 0x836, 0x839, 0x4e]]"

definition unicode_decomp_table2_9 :: "u16 list" where
  "unicode_decomp_table2_9 = concat [
    [0x845, 0x847, 0x84c, 0x84e, 0x851, 0x5a, 0x3a9, 0x5a, 0x853, 0x857, 0x860, 0x69, 0x862, 0x865, 0x86f, 0x874],
    [0x87a, 0x87e, 0x8a2, 0x49, 0x8a4, 0x8a6, 0x8a9, 0x56, 0x8ab, 0x8ad, 0x8b0, 0x8b4, 0x58, 0x8b6, 0x8b8, 0x8bb],
    [0x8c0, 0x8c2, 0x8c5, 0x76]]"

definition unicode_decomp_table2_10 :: "u16 list" where
  "unicode_decomp_table2_10 = concat [
    [0x8c7, 0x8c9, 0x8cc, 0x8d0, 0x78, 0x8d2, 0x8d4, 0x8d7, 0x8db, 0x8de, 0x8e4, 0x8e7, 0x8f0, 0x8f3, 0x8f6, 0x8f9],
    [0x902, 0x906, 0x90b, 0x90f, 0x914, 0x917, 0x91a, 0x923, 0x92c, 0x93b, 0x93e, 0x941, 0x944, 0x947, 0x94a, 0x956],
    [0x95c, 0x960, 0x962, 0x964]]"

definition unicode_decomp_table2_11 :: "u16 list" where
  "unicode_decomp_table2_11 = concat [
    [0x968, 0x96a, 0x970, 0x978, 0x97c, 0x980, 0x986, 0x989, 0x98f, 0x991, 0x30, 0x993, 0x999, 0x99c, 0x99e, 0x9a1],
    [0x9a4, 0x2d61, 0x6bcd, 0x9f9f, 0x9a6, 0x9b1, 0x9bc, 0x9c7]]"

definition unicode_decomp_table2_12 :: "u16 list" where
  "unicode_decomp_table2_12 = concat [
    [0xa95, 0xaa1, 0xb15, 0x20, 0xb27, 0xb31, 0xb8d]]"

definition unicode_decomp_table2_13 :: "u16 list" where
  "unicode_decomp_table2_13 = concat [
    [0xba1, 0xba5, 0xba9, 0xbad, 0xbb1, 0xbb5, 0xbb9, 0xbbd, 0xbc1, 0xbc5, 0xc21, 0xc35, 0xc39, 0xc3d, 0xc41, 0xc45],
    [0xc49, 0xc4d, 0xc51, 0xc55, 0xc59, 0xc6f, 0xc71, 0xc73]]"

definition unicode_decomp_table2_14 :: "u16 list" where
  "unicode_decomp_table2_14 = concat [
    [0xca0, 0xcbc, 0xcdc, 0xce4, 0xcec, 0xcf4, 0xcfc, 0xd04, 0xd0c, 0xd14, 0xd22, 0xd2e, 0xd7a, 0xd82, 0xd85, 0xd89],
    [0xd8d]]"

definition unicode_decomp_table2_15 :: "u16 list" where
  "unicode_decomp_table2_15 = concat [
    [0xd9d, 0xdb1, 0xdb5, 0xdbc, 0xdc2, 0xdc6, 0xe28, 0xe2c, 0xe30, 0xe32, 0xe36, 0xe3c, 0xe3e, 0xe41, 0xe43, 0xe46],
    [0xe77, 0xe7b, 0xe89, 0xe8e, 0xe94]]"

definition unicode_decomp_table2_16 :: "u16 list" where
  "unicode_decomp_table2_16 = concat [
    [0xe9c, 0xea3, 0xea9, 0xeb4, 0xebe, 0xec6, 0xeca, 0xecf, 0xed9, 0xedd, 0xee4, 0xeec, 0xef3, 0xef8, 0xf04, 0xf0a],
    [0xf15, 0xf1b, 0xf22, 0xf28, 0xf33, 0xf3d, 0xf45, 0xf4c, 0xf51, 0xf57, 0xf5e, 0xf63, 0xf69, 0xf70, 0xf76, 0xf7d],
    [0xf82, 0xf89, 0xf8d]]"

definition unicode_decomp_table2_17 :: "u16 list" where
  "unicode_decomp_table2_17 = concat [
    [0xf9e, 0xfa4, 0xfa9, 0xfad, 0xfb8, 0xfbe, 0xfc9, 0xfd0, 0xfd6, 0xfda, 0xfe1, 0xfe5, 0xfef, 0xffa, 0x1000, 0x1004],
    [0x1009, 0x100f, 0x1013, 0x101a, 0x101f, 0x1023, 0x1029, 0x102f, 0x1032, 0x1036, 0x1039, 0x103f, 0x1045, 0x1059, 0x1061, 0x1079],
    [0x107c, 0x1080, 0x1095]]"

definition unicode_decomp_table2_18 :: "u16 list" where
  "unicode_decomp_table2_18 = concat [
    [0x10a1, 0x10b1, 0x10c3, 0x10cb, 0x10cf, 0x10da, 0x10de, 0x10ea, 0x10f2, 0x10f4, 0x1100, 0x1105, 0x1111, 0x1141, 0x1149, 0x114d],
    [0x1153, 0x1157, 0x115a, 0x116e, 0x1171, 0x1175, 0x117b, 0x117d, 0x1181, 0x1184, 0x118c, 0x1192, 0x1196]]"

definition unicode_decomp_table2_19 :: "u16 list" where
  "unicode_decomp_table2_19 = concat [
    [0x119c, 0x11a2, 0x11a8, 0x11ab, 0xa76f, 0x11af, 0x11b2, 0x11b6, 0x28d, 0x11be, 0x1210]]"

definition unicode_decomp_table2_20 :: "u16 list" where
  "unicode_decomp_table2_20 = concat [
    [0x130e]]"

definition unicode_decomp_table2_21 :: "u16 list" where
  "unicode_decomp_table2_21 = concat [
    [0x140c, 0x1490, 0x1495]]"

definition unicode_decomp_table2_22 :: "u16 list" where
  "unicode_decomp_table2_22 = concat [
    [0x1553, 0x156c, 0x1572, 0x1578, 0x157e, 0x158a, 0x1596, 0x2b, 0x15a1, 0x15b9, 0x15bd, 0x15c1, 0x15c5, 0x15c9, 0x15cd, 0x15e1],
    [0x15e5, 0x1649]]"

definition unicode_decomp_table2_23 :: "u16 list" where
  "unicode_decomp_table2_23 = concat [
    [0x1662, 0x1688, 0x168e, 0x174c, 0x1752, 0x1757]]"

definition unicode_decomp_table2_24 :: "u16 list" where
  "unicode_decomp_table2_24 = concat [
    [0x1777]]"

definition unicode_decomp_table2_25 :: "u16 list" where
  "unicode_decomp_table2_25 = concat [
    [0x1877, 0x187d, 0x1911]]"

definition unicode_decomp_table2_26 :: "u16 list" where
  "unicode_decomp_table2_26 = concat [
    [0x19d3, 0x1a77, 0x1a7f, 0x1a9d, 0x1aa2, 0x1ab6, 0x1ac0, 0x1ac6]]"

definition unicode_decomp_table2_27 :: "u16 list" where
  "unicode_decomp_table2_27 = concat [
    [0x1ada, 0x1adf, 0x1ae5, 0x1af3, 0x1b23, 0x1b30, 0x1b38, 0x1b3c, 0x1b52, 0x1bc9]]"

definition unicode_decomp_table2_28 :: "u16 list" where
  "unicode_decomp_table2_28 = concat [
    [0x1bdb, 0x1bdd, 0x1bdf, 0x3164, 0x1c20, 0x1c22, 0x1c24, 0x1c26, 0x1c28, 0x1c2a, 0x1c48, 0x1c7e, 0x1cc4, 0x1cd2]]"

definition unicode_decomp_table2_29 :: "u16 list" where
  "unicode_decomp_table2_29 = concat [
    [0x1cd7, 0x1ce0, 0x1ce9, 0x1cfb, 0x1d04, 0x1d09, 0x1d29, 0x1d44, 0x1d46, 0x1d48, 0x1d4a, 0x1d4c, 0x1d4e, 0x1d50, 0x1d52, 0x1d72],
    [0x1d74, 0x1d76, 0x1d78, 0x1d7a, 0x1d81, 0x1d83, 0x1d85, 0x1d87, 0x1d96, 0x1d98, 0x1d9a, 0x1d9c, 0x1d9e, 0x1da0, 0x1da2, 0x1da4],
    [0x1da6, 0x1da8, 0x1daa, 0x1dac]]"

definition unicode_decomp_table2_30 :: "u16 list" where
  "unicode_decomp_table2_30 = concat [
    [0x1dae, 0x1db0, 0x1db2, 0x1db6, 0x3f4, 0x1db8, 0x2207, 0x1dba, 0x2202, 0x1dbc, 0x1dc4, 0x3f4, 0x1dc6, 0x2207, 0x1dc8, 0x2202],
    [0x1dca, 0x1dd2, 0x3f4, 0x1dd4, 0x2207, 0x1dd6, 0x2202, 0x1dd8, 0x1de0, 0x3f4, 0x1de2, 0x2207, 0x1de4, 0x2202, 0x1de6, 0x1dee],
    [0x3f4, 0x1df0, 0x2207, 0x1df2]]"

definition unicode_decomp_table2_31 :: "u16 list" where
  "unicode_decomp_table2_31 = concat [
    [0x2202, 0x1df4, 0x1dfe, 0x1e00, 0x1e02, 0x1e04, 0x1e06, 0x1e08, 0x1e0e, 0x1e2b, 0x62d, 0x1e33, 0x1e3f, 0x62c, 0x1e4f, 0x1ebf],
    [0x1ecb, 0x1ede]]"

definition unicode_decomp_table2_32 :: "u16 list" where
  "unicode_decomp_table2_32 = concat [
    [0x1ef0, 0x1f03, 0x1f05, 0x1f09, 0x1f0f, 0x1f15, 0x1f17, 0x1f1b, 0x1f1d, 0x1f25, 0x1f28, 0x1f2a, 0x1f30, 0x1f32, 0x30b5, 0x1f38],
    [0x1f90, 0x1fa6, 0x1faa, 0x1fac, 0x1fb1]]"

definition unicode_decomp_table2_33 :: "u16 list" where
  "unicode_decomp_table2_33 = concat [
    [0x1ffe, 0x200f]]"

definition unicode_decomp_table2_34 :: "u16 list" where
  "unicode_decomp_table2_34 = concat [
    [0x2110, 0x2120, 0x2126]]"

definition unicode_decomp_table2_35 :: "u16 list" where
  "unicode_decomp_table2_35 = concat [
    [0x2220]]"

definition unicode_decomp_table2_36 :: "u16 list" where
  "unicode_decomp_table2_36 = concat [
    [0x233e]]"

definition unicode_decomp_table2 :: "u16 list" where
  "unicode_decomp_table2 = concat [
    unicode_decomp_table2_0, unicode_decomp_table2_1, unicode_decomp_table2_2, unicode_decomp_table2_3,
    unicode_decomp_table2_4, unicode_decomp_table2_5, unicode_decomp_table2_6, unicode_decomp_table2_7,
    unicode_decomp_table2_8, unicode_decomp_table2_9, unicode_decomp_table2_10, unicode_decomp_table2_11,
    unicode_decomp_table2_12, unicode_decomp_table2_13, unicode_decomp_table2_14, unicode_decomp_table2_15,
    unicode_decomp_table2_16, unicode_decomp_table2_17, unicode_decomp_table2_18, unicode_decomp_table2_19,
    unicode_decomp_table2_20, unicode_decomp_table2_21, unicode_decomp_table2_22, unicode_decomp_table2_23,
    unicode_decomp_table2_24, unicode_decomp_table2_25, unicode_decomp_table2_26, unicode_decomp_table2_27,
    unicode_decomp_table2_28, unicode_decomp_table2_29, unicode_decomp_table2_30, unicode_decomp_table2_31,
    unicode_decomp_table2_32, unicode_decomp_table2_33, unicode_decomp_table2_34, unicode_decomp_table2_35,
    unicode_decomp_table2_36]"

definition unicode_decomp_data_0 :: "u8 list" where
  "unicode_decomp_data_0 = concat [
    [0x20, 0x88, 0x20, 0x84, 0x32, 0x33, 0x20, 0x81, 0x20, 0xa7, 0x31, 0x6f, 0x31, 0xd0, 0x34, 0x31],
    [0xd0, 0x32, 0x33, 0xd0, 0x34, 0x41, 0x80, 0x41, 0x81, 0x41, 0x82, 0x41, 0x83, 0x41, 0x88, 0x41],
    [0x8a, 0, 0, 0x43, 0xa7, 0x45, 0x80, 0x45, 0x81, 0x45, 0x82, 0x45, 0x88, 0x49, 0x80, 0x49],
    [0x81, 0x49, 0x82, 0x49, 0x88, 0, 0, 0x4e, 0x83, 0x4f, 0x80, 0x4f, 0x81, 0x4f, 0x82, 0x4f],
    [0x83, 0x4f, 0x88, 0, 0, 0, 0, 0x55, 0x80, 0x55, 0x81, 0x55, 0x82, 0x55, 0x88, 0x59],
    [0x81, 0, 0, 0, 0, 0x61, 0x80, 0x61, 0x81, 0x61, 0x82, 0x61, 0x83, 0x61, 0x88, 0x61],
    [0x8a, 0, 0, 0x63, 0xa7, 0x65, 0x80, 0x65, 0x81, 0x65, 0x82, 0x65, 0x88, 0x69, 0x80, 0x69],
    [0x81, 0x69, 0x82, 0x69, 0x88, 0, 0, 0x6e, 0x83, 0x6f, 0x80, 0x6f, 0x81, 0x6f, 0x82, 0x6f],
    [0x83, 0x6f, 0x88, 0, 0, 0, 0, 0x75, 0x80, 0x75, 0x81, 0x75, 0x82, 0x75, 0x88, 0x79],
    [0x81, 0, 0, 0x79, 0x88, 0x41, 0x84, 0x41, 0x86, 0x41, 0xa8, 0x43, 0x81, 0x43, 0x82, 0x43],
    [0x87, 0x43, 0x8c, 0x44, 0x8c, 0x45, 0x84, 0x45, 0x86, 0x45, 0x87, 0x45, 0xa8, 0x45, 0x8c, 0x47],
    [0x82, 0x47, 0x86, 0x47, 0x87, 0x47, 0xa7, 0x48, 0x82, 0x49, 0x83, 0x49, 0x84, 0x49, 0x86, 0x49],
    [0xa8, 0x49, 0x87, 0x49, 0x4a, 0x69, 0x6a, 0x4a, 0x82, 0x4b, 0xa7, 0x4c, 0x81, 0x4c, 0xa7, 0x4c],
    [0x8c, 0x4c, 0, 0, 0x6b, 0x20, 0x6b, 0x4e, 0x81, 0x4e, 0xa7, 0x4e, 0x8c, 0xbc, 2, 0x6e],
    [0x4f, 0x84, 0x4f, 0x86, 0x4f, 0x8b, 0x52, 0x81, 0x52, 0xa7, 0x52, 0x8c, 0x53, 0x81, 0x53, 0x82],
    [0x53, 0xa7, 0x53, 0x8c, 0x54, 0xa7, 0x54, 0x8c, 0x55, 0x83, 0x55, 0x84, 0x55, 0x86, 0x55, 0x8a],
    [0x55, 0x8b, 0x55, 0xa8, 0x57, 0x82, 0x59, 0x82]]"

definition unicode_decomp_data_1 :: "u8 list" where
  "unicode_decomp_data_1 = concat [
    [0x59, 0x88, 0x5a, 0x81, 0x5a, 0x87, 0x5a, 0x8c, 0x4f, 0x9b, 0x55, 0x9b, 0x44, 0, 0x7d, 1],
    [0x44, 0, 0x7e, 1, 0x64, 0, 0x7e, 1, 0x4c, 0x4a, 0x4c, 0x6a, 0x6c, 0x6a, 0x4e, 0x4a],
    [0x4e, 0x6a, 0x6e, 0x6a, 0x41, 0, 0x8c, 0x49, 0, 0x8c, 0x4f, 0, 0x8c, 0x55, 0, 0x8c],
    [0xdc, 0, 0x84, 0xdc, 0, 0x81, 0xdc, 0, 0x8c, 0xdc, 0, 0x80, 0xc4, 0, 0x84, 0x26],
    [2, 0x84, 0xc6, 0, 0x84, 0x47, 0x8c, 0x4b, 0x8c, 0x4f, 0xa8, 0xea, 1, 0x84, 0xeb, 1],
    [0x84, 0xb7, 1, 0x8c, 0x92, 2, 0x8c, 0x6a, 0, 0x8c, 0x44, 0x5a, 0x44, 0x7a, 0x64, 0x7a],
    [0x47, 0x81, 0x4e, 0, 0x80, 0xc5, 0, 0x81, 0xc6, 0, 0x81, 0xd8, 0, 0x81, 0x41, 0x8f],
    [0x41, 0x91, 0x45, 0x8f, 0x45, 0x91, 0x49, 0x8f, 0x49, 0x91, 0x4f, 0x8f, 0x4f, 0x91, 0x52, 0x8f],
    [0x52, 0x91, 0x55, 0x8f, 0x55, 0x91, 0x53, 0xa6, 0x54, 0xa6, 0x48, 0x8c, 0x41, 0, 0x87, 0x45],
    [0, 0xa7, 0xd6, 0, 0x84, 0xd5, 0, 0x84, 0x4f, 0, 0x87, 0x2e, 2, 0x84, 0x59, 0],
    [0x84, 0x68, 0, 0x66, 2, 0x6a, 0, 0x72, 0, 0x79, 2, 0x7b, 2, 0x81, 2, 0x77],
    [0, 0x79, 0, 0x20, 0x86, 0x20, 0x87, 0x20, 0x8a, 0x20, 0xa8, 0x20, 0x83, 0x20, 0x8b, 0x63],
    [2, 0x6c, 0, 0x73, 0, 0x78, 0, 0x95, 2, 0x80, 0x81, 0, 0x93, 0x88, 0x81, 0x20],
    [0xc5, 0x20, 0x81, 0xa8, 0, 0x81, 0x91, 3, 0x81, 0x95, 3, 0x81, 0x97, 3, 0x81, 0x99],
    [3, 0x81, 0, 0, 0, 0x9f, 3, 0x81, 0, 0, 0, 0xa5, 3, 0x81, 0xa9, 3],
    [0x81, 0xca, 3, 0x81, 1, 3, 0x98, 7, 0xa4, 7, 0xb0, 0, 0xb4, 0, 0xb6, 0],
    [0xb8, 0, 0xca, 0]]"

definition unicode_decomp_data_2 :: "u8 list" where
  "unicode_decomp_data_2 = concat [
    [1, 3, 0xb8, 7, 0xc4, 7, 0xbe, 0, 0xc4, 0, 0xc8, 0, 0xa5, 3, 0xd, 0x13],
    [0, 1, 3, 0xd1, 0, 0xd1, 7, 0xc6, 3, 0xc0, 3, 0xba, 3, 0xc1, 3, 0xc2],
    [3, 0, 0, 0x98, 3, 0xb5, 3, 0x15, 4, 0x80, 0x15, 4, 0x88, 0, 0, 0],
    [0x13, 4, 0x81, 6, 4, 0x88, 0x1a, 4, 0x81, 0x18, 4, 0x80, 0x23, 4, 0x86, 0x18],
    [4, 0x86, 0x38, 4, 0x86, 0x35, 4, 0x80, 0x35, 4, 0x88, 0, 0, 0, 0x33, 4],
    [0x81, 0x56, 4, 0x88, 0x3a, 4, 0x81, 0x38, 4, 0x80, 0x43, 4, 0x86, 0x74, 4, 0x8f],
    [0x16, 4, 0x86, 0x10, 4, 0x86, 0x10, 4, 0x88, 0x15, 4, 0x86, 0xd8, 4, 0x88, 0x16],
    [4, 0x88, 0x17, 4, 0x88, 0x18, 4, 0x84, 0x18, 4, 0x88, 0x1e, 4, 0x88, 0xe8, 4],
    [0x88, 0x2d, 4, 0x88, 0x23, 4, 0x84, 0x23, 4, 0x88, 0x23, 4, 0x8b, 0x27, 4, 0x88],
    [0x2b, 4, 0x88, 0x65, 5, 0x82, 5, 0x27, 6, 0, 0x2c, 0, 0x2d, 0x21, 0x2d, 0],
    [0x2e, 0x23, 0x2d, 0x27, 6, 0, 0x4d, 0x21, 0x4d, 0xa0, 0x4d, 0x23, 0x4d, 0xd5, 6, 0x54],
    [6, 0, 0, 0, 0, 0xc1, 6, 0x54, 6, 0xd2, 6, 0x54, 6, 0x28, 9, 0x3c],
    [9, 0x30, 9, 0x3c, 9, 0x33, 9, 0x3c, 9, 0x15, 9, 0, 0x27, 1, 0x27, 2],
    [0x27, 7, 0x27, 0xc, 0x27, 0xd, 0x27, 0x16, 0x27, 0x1a, 0x27, 0xbe, 9, 9, 0, 9],
    [0x19, 0xa1, 9, 0xbc, 9, 0xaf, 9, 0xbc, 9, 0x32, 0xa, 0x3c, 0xa, 0x38, 0xa, 0x3c],
    [0xa]]"

definition unicode_decomp_data_3 :: "u8 list" where
  "unicode_decomp_data_3 = concat [
    [0x16, 0xa, 0, 0x26, 1, 0x26, 6, 0x26, 0x2b, 0xa, 0x3c, 0xa, 0x47, 0xb, 0x56, 0xb],
    [0x3e, 0xb, 9, 0, 9, 0x19, 0x21, 0xb, 0x3c, 0xb, 0x92, 0xb, 0xd7, 0xb, 0xbe, 0xb],
    [8, 0, 9, 0, 8, 0x19, 0x46, 0xc, 0x56, 0xc, 0xbf, 0xc, 0xd5, 0xc, 0xc6, 0xc],
    [0xd5, 0xc, 0xc2, 0xc, 4, 0, 8, 0x13, 0x3e, 0xd, 8, 0, 9, 0, 8, 0x19],
    [0xd9, 0xd, 0xca, 0xd, 0xca, 0xd, 0xf, 5, 0x12, 0, 0xf, 0x15, 0x4d, 0xe, 0x32, 0xe],
    [0xcd, 0xe, 0xb2, 0xe, 0x99, 0xe, 0x12, 0, 0x12, 8, 0x42, 0xf, 0xb7, 0xf, 0x4c, 0xf],
    [0xb7, 0xf, 0x51, 0xf, 0xb7, 0xf, 0x56, 0xf, 0xb7, 0xf, 0x5b, 0xf, 0xb7, 0xf, 0x40, 0xf],
    [0xb5, 0xf, 0x71, 0xf, 0x72, 0xf, 0x71, 0xf, 0, 3, 0x41, 0xf, 0xb2, 0xf, 0x81, 0xf],
    [0xb3, 0xf, 0x80, 0xf, 0xb3, 0xf, 0x81, 0xf, 0x71, 0xf, 0x80, 0xf, 0x92, 0xf, 0xb7, 0xf],
    [0x9c, 0xf, 0xb7, 0xf, 0xa1, 0xf, 0xb7, 0xf, 0xa6, 0xf, 0xb7, 0xf, 0xab, 0xf, 0xb7, 0xf],
    [0x90, 0xf, 0xb5, 0xf]]"

definition unicode_decomp_data_4 :: "u8 list" where
  "unicode_decomp_data_4 = concat [
    [0x25, 0x10, 0x2e, 0x10, 5, 0x1b, 0x35, 0x1b, 0, 0, 0, 0, 7, 0x1b, 0x35, 0x1b],
    [0, 0, 0, 0, 9, 0x1b, 0x35, 0x1b, 0, 0, 0, 0, 0xb, 0x1b, 0x35, 0x1b],
    [0, 0, 0, 0, 0xd, 0x1b, 0x35, 0x1b, 0x11, 0x1b, 0x35, 0x1b, 0x3a, 0x1b, 0x35, 0x1b],
    [0, 0, 0, 0, 0x3c, 0x1b, 0x35, 0x1b, 0x3e, 0x1b, 0x35, 0x1b, 0x42, 0x1b, 0x35, 0x1b],
    [0x41, 0, 0xc6, 0, 0x42, 0, 0, 0, 0x44, 0, 0x45, 0, 0x8e, 1, 0x47, 0],
    [0x4f, 0, 0x22, 2, 0x50, 0, 0x52, 0, 0x54, 0, 0x55, 0, 0x57, 0, 0x61, 0],
    [0x50, 2, 0x51, 2, 2, 0x1d, 0x62, 0, 0x64, 0, 0x65, 0, 0x59, 2, 0x5b, 2],
    [0x5c, 2, 0x67, 0, 0, 0, 0x6b, 0, 0x6d, 0, 0x4b, 1, 0x6f, 0, 0x54, 2],
    [0x16, 0x1d, 0x17, 0x1d, 0x70, 0, 0x74, 0, 0x75, 0, 0x1d, 0x1d, 0x6f, 2, 0x76, 0],
    [0x25, 0x1d, 0xb2, 3, 0xb3, 3, 0xb4, 3, 0xc6, 3, 0xc7, 3, 0x69, 0, 0x72, 0],
    [0x75, 0, 0x76, 0, 0xb2, 3, 0xb3, 3, 0xc1, 3, 0xc6, 3, 0xc7, 3, 0x52, 2],
    [0x63, 0, 0x55, 2, 0xf0, 0, 0x5c, 2, 0x66, 0, 0x5f, 2, 0x61, 2, 0x65, 2],
    [0x68, 2, 0x69, 2, 0x6a, 2, 0x7b, 0x1d, 0x9d, 2, 0x6d, 2, 0x85, 0x1d, 0x9f, 2],
    [0x71, 2, 0x70, 2, 0x72, 2, 0x73, 2, 0x74, 2, 0x75, 2, 0x78, 2, 0x82, 2],
    [0x83, 2, 0xab, 1, 0x89, 2, 0x8a, 2, 0x1c, 0x1d, 0x8b, 2, 0x8c, 2, 0x7a, 0],
    [0x90, 2, 0x91, 2, 0x92, 2, 0xb8, 3, 0x41, 0, 0xa5, 0x42, 0, 0x87, 0x42, 0],
    [0xa3, 0x42, 0, 0xb1, 0xc7, 0, 0x81, 0x44, 0, 0x87, 0x44, 0, 0xa3, 0x44, 0, 0xb1],
    [0x44, 0, 0xa7, 0x44, 0, 0xad, 0x12, 1, 0x80, 0x12, 1, 0x81, 0x45, 0, 0xad, 0x45],
    [0, 0xb0, 0x28, 2, 0x86, 0x46, 0, 0x87, 0x47, 0, 0x84, 0x48, 0, 0x87, 0x48, 0],
    [0xa3, 0x48, 0, 0x88, 0x48, 0, 0xa7, 0x48, 0, 0xae, 0x49, 0, 0xb0, 0xcf, 0, 0x81],
    [0x4b, 0, 0x81, 0x4b, 0, 0xa3, 0x4b, 0, 0xb1, 0x4c, 0, 0xa3, 0x36, 0x1e, 0x84]]"

definition unicode_decomp_data_5 :: "u8 list" where
  "unicode_decomp_data_5 = concat [
    [0x4c, 0xb1, 0x4c, 0xad, 0x4d, 0x81, 0x4d, 0x87, 0x4d, 0xa3, 0x4e, 0x87, 0x4e, 0xa3, 0x4e, 0xb1],
    [0x4e, 0xad, 0xd5, 0, 0x81, 0xd5, 0, 0x88, 0x4c, 1, 0x80, 0x4c, 1, 0x81, 0x50, 0],
    [0x81, 0x50, 0, 0x87, 0x52, 0, 0x87, 0x52, 0, 0xa3, 0x5a, 0x1e, 0x84, 0x52, 0, 0xb1],
    [0x53, 0, 0x87, 0x53, 0, 0xa3, 0x5a, 1, 0x87, 0x60, 1, 0x87, 0x62, 0x1e, 0x87, 0x54],
    [0, 0x87, 0x54, 0, 0xa3, 0x54, 0, 0xb1, 0x54, 0, 0xad, 0x55, 0, 0xa4, 0x55, 0],
    [0xb0, 0x55, 0, 0xad, 0x68, 1, 0x81, 0x6a, 1, 0x88, 0x56, 0x83, 0x56, 0xa3, 0x57, 0x80],
    [0x57, 0x81, 0x57, 0x88, 0x57, 0x87, 0x57, 0xa3, 0x58, 0x87, 0x58, 0x88, 0x59, 0x87, 0x5a, 0x82],
    [0x5a, 0xa3, 0x5a, 0xb1, 0x68, 0xb1, 0x74, 0x88, 0x77, 0x8a, 0x79, 0x8a, 0x61, 0, 0xbe, 2],
    [0x7f, 1, 0x87, 0x41, 0, 0xa3, 0x41, 0, 0x89, 0xc2, 0, 0x81, 0xc2, 0, 0x80, 0xc2],
    [0, 0x89, 0xc2, 0, 0x83, 0xa0, 0x1e, 0x82, 2, 1, 0x81, 2, 1, 0x80, 2, 1],
    [0x89, 2, 1, 0x83, 0xa0, 0x1e, 0x86, 0x45, 0, 0xa3, 0x45, 0, 0x89, 0x45, 0, 0x83],
    [0xca, 0, 0x81, 0xca, 0, 0x80, 0xca, 0, 0x89, 0xca, 0, 0x83, 0xb8, 0x1e, 0x82, 0x49],
    [0, 0x89, 0x49, 0, 0xa3, 0x4f, 0, 0xa3, 0x4f, 0, 0x89, 0xd4, 0, 0x81, 0xd4, 0],
    [0x80, 0xd4, 0, 0x89, 0xd4, 0, 0x83, 0xcc, 0x1e, 0x82, 0xa0, 1, 0x81, 0xa0, 1, 0x80],
    [0xa0, 1, 0x89, 0xa0, 1, 0x83, 0xa0, 1, 0xa3, 0x55, 0, 0xa3, 0x55, 0, 0x89, 0xaf],
    [1, 0x81, 0xaf, 1, 0x80, 0xaf, 1, 0x89, 0xaf, 1, 0x83, 0xaf, 1, 0xa3, 0x59, 0],
    [0x80, 0x59, 0, 0xa3, 0x59, 0, 0x89, 0x59, 0, 0x83]]"

definition unicode_decomp_data_6 :: "u8 list" where
  "unicode_decomp_data_6 = concat [
    [0xb1, 3, 0x13, 3, 0, 0x1f, 0x80, 0, 0x1f, 0x81, 0, 0x1f, 0xc2, 0x91, 3, 0x13],
    [3, 8, 0x1f, 0x80, 8, 0x1f, 0x81, 8, 0x1f, 0xc2, 0xb5, 3, 0x13, 3, 0x10, 0x1f],
    [0x80, 0x10, 0x1f, 0x81, 0x95, 3, 0x13, 3, 0x18, 0x1f, 0x80, 0x18, 0x1f, 0x81, 0xb7, 3],
    [0x93, 0xb7, 3, 0x94, 0x20, 0x1f, 0x80, 0x21, 0x1f, 0x80, 0x20, 0x1f, 0x81, 0x21, 0x1f, 0x81],
    [0x20, 0x1f, 0xc2, 0x21, 0x1f, 0xc2, 0x97, 3, 0x93, 0x97, 3, 0x94, 0x28, 0x1f, 0x80, 0x29],
    [0x1f, 0x80, 0x28, 0x1f, 0x81, 0x29, 0x1f, 0x81, 0x28, 0x1f, 0xc2, 0x29, 0x1f, 0xc2, 0xb9, 3],
    [0x93, 0xb9, 3, 0x94, 0x30, 0x1f, 0x80, 0x31, 0x1f, 0x80, 0x30, 0x1f, 0x81, 0x31, 0x1f, 0x81],
    [0x30, 0x1f, 0xc2, 0x31, 0x1f, 0xc2, 0x99, 3, 0x93, 0x99, 3, 0x94, 0x38, 0x1f, 0x80, 0x39],
    [0x1f, 0x80, 0x38, 0x1f, 0x81, 0x39, 0x1f, 0x81, 0x38, 0x1f, 0xc2, 0x39, 0x1f, 0xc2, 0xbf, 3],
    [0x93, 0xbf, 3, 0x94, 0x40, 0x1f, 0x80, 0x40, 0x1f, 0x81, 0x9f, 3, 0x13, 3, 0x48, 0x1f],
    [0x80, 0x48, 0x1f, 0x81, 0xc5, 3, 0x13, 3, 0x50, 0x1f, 0x80, 0x50, 0x1f, 0x81, 0x50, 0x1f],
    [0xc2, 0xa5, 3, 0x94, 0, 0, 0, 0x59, 0x1f, 0x80, 0, 0, 0, 0x59, 0x1f, 0x81],
    [0, 0, 0, 0x59, 0x1f, 0xc2, 0xc9, 3, 0x93, 0xc9, 3, 0x94, 0x60, 0x1f, 0x80, 0x61],
    [0x1f, 0x80, 0x60, 0x1f, 0x81, 0x61, 0x1f, 0x81, 0x60, 0x1f, 0xc2, 0x61, 0x1f, 0xc2, 0xa9, 3],
    [0x93, 0xa9, 3, 0x94, 0x68, 0x1f, 0x80, 0x69, 0x1f, 0x80, 0x68, 0x1f, 0x81, 0x69, 0x1f, 0x81],
    [0x68, 0x1f, 0xc2, 0x69, 0x1f, 0xc2, 0xb1, 3, 0x80, 0xb5, 3, 0x80]]"

definition unicode_decomp_data_7 :: "u8 list" where
  "unicode_decomp_data_7 = concat [
    [0xb7, 3, 0x80, 0xb9, 3, 0x80, 0xbf, 3, 0x80, 0xc5, 3, 0x80, 0xc9, 3, 0x80, 0],
    [0x1f, 0x45, 3, 0x20, 0x1f, 0x45, 3, 0x60, 0x1f, 0x45, 3, 0xb1, 3, 0x86, 0xb1, 3],
    [0x84, 0x70, 0x1f, 0xc5, 0xb1, 3, 0xc5, 0xac, 3, 0xc5, 0, 0, 0, 0xb1, 3, 0xc2],
    [0xb6, 0x1f, 0xc5, 0x91, 3, 0x86, 0x91, 3, 0x84, 0x91, 3, 0x80, 0x91, 3, 0xc5, 0x20],
    [0x93, 0x20, 0x93, 0x20, 0xc2, 0xa8, 0, 0xc2, 0x74, 0x1f, 0xc5, 0xb7, 3, 0xc5, 0xae, 3],
    [0xc5, 0, 0, 0, 0xb7, 3, 0xc2, 0xc6, 0x1f, 0xc5, 0x95, 3, 0x80, 0x97, 3, 0x80],
    [0x97, 3, 0xc5, 0xbf, 0x1f, 0x80, 0xbf, 0x1f, 0x81, 0xbf, 0x1f, 0xc2, 0xb9, 3, 0x86, 0xb9],
    [3, 0x84, 0xca, 3, 0x80, 0, 3, 0xb9, 0x42, 0xca, 0x42, 0x99, 6, 0x99, 4, 0x99],
    [0, 0xfe, 0x1f, 0x80, 0xfe, 0x1f, 0x81, 0xfe, 0x1f, 0xc2, 0xc5, 3, 0x86, 0xc5, 3, 0x84],
    [0xcb, 3, 0x80, 0, 3, 0xc1, 0x13, 0xc1, 0x14, 0xc5, 0x42, 0xcb, 0x42, 0xa5, 6, 0xa5],
    [4, 0xa5, 0, 0xa1, 3, 0x94, 0xa8, 0, 0x80, 0x85, 3, 0x60, 0, 0x7c, 0x1f, 0xc5],
    [0xc9, 3, 0xc5, 0xce, 3, 0xc5, 0, 0, 0, 0xc9, 3, 0xc2, 0xf6, 0x1f, 0xc5, 0x9f],
    [3, 0x80]]"

definition unicode_decomp_data_8 :: "u8 list" where
  "unicode_decomp_data_8 = concat [
    [0xa9, 3, 0x80, 0xa9, 3, 0xc5, 0x20, 0x94, 2, 0x20, 0x20, 0x20, 0x20, 0x20, 0x20, 0x20],
    [0x20, 0x20, 0x20, 0x20, 0xb3, 0x2e, 0x2e, 0x2e, 0x2e, 0x2e, 0x32, 0x20, 0x32, 0x20, 0x32, 0x20],
    [0, 0, 0, 0x35, 0x20, 0x35, 0x20, 0x35, 0x20, 0, 0, 0, 0x21, 0x21, 0, 0],
    [0x20, 0x85, 0x3f, 0x3f, 0x3f, 0x21, 0x21, 0x3f, 0x32, 0x20, 0, 0, 0, 0, 0x30, 0x69],
    [0, 0, 0x34, 0x35, 0x36, 0x37, 0x38, 0x39, 0x2b, 0x3d, 0x28, 0x29, 0x6e, 0x30, 0, 0x2b],
    [0, 0x12, 0x22, 0x3d, 0, 0x28, 0, 0x29, 0, 0, 0, 0x61, 0, 0x65, 0, 0x6f],
    [0, 0x78, 0, 0x59, 2, 0x68, 0x6b, 0x6c, 0x6d, 0x6e, 0x70, 0x73, 0x74, 0x52, 0x73, 0x61],
    [0x2f, 0x63, 0x61, 0x2f, 0x73, 0xb0, 0, 0x43, 0x63, 0x2f, 0x6f, 0x63, 0x2f, 0x75, 0xb0, 0],
    [0x46, 0x48, 0, 0x1f, 0, 0, 0, 0x20, 0xdf, 1, 1, 4, 0x24]]"

definition unicode_decomp_data_9 :: "u8 list" where
  "unicode_decomp_data_9 = concat [
    [0x4e, 0x6f, 0x50, 0x51, 0x52, 0x52, 0x52, 0x53, 0x4d, 0x54, 0x45, 0x4c, 0x54, 0x4d, 0x4b, 0],
    [0xc5, 0, 0x42, 0x43, 0, 0x65, 0x45, 0x46, 0, 0x4d, 0x6f, 0xd0, 5, 0x46, 0x41, 0x58],
    [0xc0, 3, 0xb3, 3, 0x93, 3, 0xa0, 3, 0x11, 0x22, 0x44, 0x64, 0x65, 0x69, 0x6a, 0x31],
    [0xd0, 0x37, 0x31, 0xd0, 0x39, 0x31, 0xd0, 0x31, 0x30, 0x31, 0xd0, 0x33, 0x32, 0xd0, 0x33, 0x31],
    [0xd0, 0x35, 0x32, 0xd0, 0x35, 0x33, 0xd0, 0x35, 0x34, 0xd0, 0x35, 0x31, 0xd0, 0x36, 0x35, 0xd0],
    [0x36, 0x31, 0xd0, 0x38, 0x33, 0xd0, 0x38, 0x35, 0xd0, 0x38, 0x37, 0xd0, 0x38, 0x31, 0xd0, 0x49],
    [0x49, 0x49, 0x49, 0x49, 0x49, 0x56, 0x56, 0x49, 0x56, 0x49, 0x49, 0x56, 0x49, 0x49, 0x49, 0x49],
    [0x58, 0x58, 0x49, 0x58, 0x49, 0x49, 0x4c, 0x43, 0x44, 0x4d, 0x69, 0x69, 0x69, 0x69, 0x69, 0x69],
    [0x69, 0x76]]"

definition unicode_decomp_data_10 :: "u8 list" where
  "unicode_decomp_data_10 = concat [
    [0x76, 0x69, 0x76, 0x69, 0x69, 0x76, 0x69, 0x69, 0x69, 0x69, 0x78, 0x78, 0x69, 0x78, 0x69, 0x69],
    [0x6c, 0x63, 0x64, 0x6d, 0x30, 0xd0, 0x33, 0x90, 0x21, 0xb8, 0x92, 0x21, 0xb8, 0x94, 0x21, 0xb8],
    [0xd0, 0x21, 0xb8, 0xd4, 0x21, 0xb8, 0xd2, 0x21, 0xb8, 3, 0x22, 0xb8, 8, 0x22, 0xb8, 0xb],
    [0x22, 0xb8, 0x23, 0x22, 0xb8, 0, 0, 0, 0x25, 0x22, 0xb8, 0x2b, 0x22, 0x2b, 0x22, 0x2b],
    [0x22, 0, 0, 0, 0x2e, 0x22, 0x2e, 0x22, 0x2e, 0x22, 0, 0, 0, 0x3c, 0x22, 0xb8],
    [0x43, 0x22, 0xb8, 0x45, 0x22, 0xb8, 0, 0, 0, 0x48, 0x22, 0xb8, 0x3d, 0, 0xb8, 0],
    [0, 0, 0x61, 0x22, 0xb8, 0x4d, 0x22, 0xb8, 0x3c, 0, 0xb8, 0x3e, 0, 0xb8, 0x64, 0x22],
    [0xb8, 0x65, 0x22, 0xb8, 0x72, 0x22, 0xb8, 0x76, 0x22, 0xb8, 0x7a, 0x22, 0xb8, 0x82, 0x22, 0xb8],
    [0x86, 0x22, 0xb8, 0xa2, 0x22, 0xb8, 0xa8, 0x22, 0xb8, 0xa9, 0x22, 0xb8, 0xab, 0x22, 0xb8, 0x7c],
    [0x22, 0xb8, 0x91, 0x22, 0xb8, 0xb2, 0x22, 0x38, 3, 8, 0x30, 0x31, 0, 0x31, 0, 0x30],
    [0]]"

definition unicode_decomp_data_11 :: "u8 list" where
  "unicode_decomp_data_11 = concat [
    [0x32, 0x30, 0x28, 0, 0x31, 0, 0x29, 0, 0x28, 0, 0x31, 0, 0x30, 0, 0x29, 0],
    [0x28, 0x32, 0x30, 0x29, 0x31, 0, 0x2e, 0, 0x31, 0, 0x30, 0, 0x2e, 0, 0x32, 0x30],
    [0x2e, 0x28, 0, 0x61, 0, 0x29, 0, 0x41, 0, 0x61, 0, 0x2b, 0x22, 0, 0, 0],
    [0, 0x3a, 0x3a, 0x3d, 0x3d, 0x3d, 0x3d, 0x3d, 0x3d, 0xdd, 0x2a, 0xb8, 0x6a, 0x56, 0, 0x4e],
    [0, 0x28, 0x36, 0x3f, 0x59, 0x85, 0x8c, 0xa0, 0xba, 0x3f, 0x51, 0, 0x26, 0x2c, 0x43, 0x57],
    [0x6c, 0xa1, 0xb6, 0xc1, 0x9b, 0x52, 0, 0x5e, 0x7a, 0x7f, 0x9d, 0xa6, 0xc1, 0xce, 0xe7, 0xb6],
    [0x53, 0xc8, 0x53, 0xe3, 0x53, 0xd7, 0x56, 0x1f, 0x57, 0xeb, 0x58, 2, 0x59, 0xa, 0x59, 0x15],
    [0x59, 0x27, 0x59, 0x73, 0x59, 0x50, 0x5b, 0x80, 0x5b, 0xf8, 0x5b, 0xf, 0x5c, 0x22, 0x5c, 0x38],
    [0x5c, 0x6e, 0x5c, 0x71, 0x5c, 0xdb, 0x5d, 0xe5, 0x5d, 0xf1, 0x5d, 0xfe, 0x5d, 0x72, 0x5e, 0x7a],
    [0x5e, 0x7f, 0x5e, 0xf4, 0x5e, 0xfe, 0x5e, 0xb, 0x5f, 0x13, 0x5f, 0x50, 0x5f, 0x61, 0x5f, 0x73],
    [0x5f, 0xc3, 0x5f, 8, 0x62, 0x36, 0x62, 0x4b, 0x62, 0x2f, 0x65, 0x34, 0x65, 0x87, 0x65, 0x97],
    [0x65, 0xa4, 0x65, 0xb9, 0x65, 0xe0, 0x65, 0xe5, 0x65, 0xf0, 0x66, 8, 0x67, 0x28, 0x67, 0x20],
    [0x6b, 0x62, 0x6b, 0x79, 0x6b, 0xb3, 0x6b, 0xcb, 0x6b, 0xd4, 0x6b, 0xdb, 0x6b, 0xf, 0x6c, 0x14],
    [0x6c, 0x34, 0x6c, 0x6b, 0x70, 0x2a, 0x72, 0x36, 0x72, 0x3b, 0x72, 0x3f, 0x72, 0x47, 0x72, 0x59],
    [0x72, 0x5b, 0x72, 0xac, 0x72, 0x84, 0x73, 0x89, 0x73, 0xdc, 0x74, 0xe6, 0x74, 0x18, 0x75, 0x1f],
    [0x75, 0x28, 0x75, 0x30, 0x75, 0x8b, 0x75, 0x92, 0x75, 0x76, 0x76, 0x7d, 0x76, 0xae, 0x76, 0xbf],
    [0x76, 0xee, 0x76, 0xdb, 0x77, 0xe2, 0x77, 0xf3, 0x77, 0x3a, 0x79, 0xb8, 0x79, 0xbe, 0x79, 0x74],
    [0x7a, 0xcb, 0x7a, 0xf9, 0x7a, 0x73, 0x7c, 0xf8, 0x7c, 0x36, 0x7f, 0x51, 0x7f, 0x8a, 0x7f, 0xbd],
    [0x7f, 1, 0x80, 0xc, 0x80, 0x12, 0x80, 0x33, 0x80, 0x7f, 0x80, 0x89, 0x80]]"

definition unicode_decomp_data_12 :: "u8 list" where
  "unicode_decomp_data_12 = concat [
    [0xe3, 0x81, 0, 7, 0x10, 0x19, 0x29, 0x38, 0x3c, 0x8b, 0x8f, 0x95, 0x4d, 0x86, 0x6b, 0x86],
    [0x40, 0x88, 0x4c, 0x88, 0x63, 0x88, 0x7e, 0x89, 0x8b, 0x89, 0xd2, 0x89, 0, 0x8a, 0x37, 0x8c],
    [0x46, 0x8c, 0x55, 0x8c, 0x78, 0x8c, 0x9d, 0x8c, 0x64, 0x8d, 0x70, 0x8d, 0xb3, 0x8d, 0xab, 0x8e],
    [0xca, 0x8e, 0x9b, 0x8f, 0xb0, 0x8f, 0xb5, 0x8f, 0x91, 0x90, 0x49, 0x91, 0xc6, 0x91, 0xcc, 0x91],
    [0xd1, 0x91, 0x77, 0x95, 0x80, 0x95, 0x1c, 0x96, 0xb6, 0x96, 0xb9, 0x96, 0xe8, 0x96, 0x51, 0x97],
    [0x5e, 0x97, 0x62, 0x97, 0x69, 0x97, 0xcb, 0x97, 0xed, 0x97, 0xf3, 0x97, 1, 0x98, 0xa8, 0x98],
    [0xdb, 0x98, 0xdf, 0x98, 0x96, 0x99, 0x99, 0x99, 0xac, 0x99, 0xa8, 0x9a, 0xd8, 0x9a, 0xdf, 0x9a],
    [0x25, 0x9b, 0x2f, 0x9b, 0x32, 0x9b, 0x3c, 0x9b, 0x5a, 0x9b, 0xe5, 0x9c, 0x75, 0x9e, 0x7f, 0x9e],
    [0xa5, 0x9e, 0, 0x16, 0x1e, 0x28, 0x2c, 0x54, 0x58, 0x69, 0x6e, 0x7b, 0x96, 0xa5, 0xad, 0xe8],
    [0xf7, 0xfb, 0x12, 0x30, 0, 0, 0x41, 0x53, 0x44, 0x53, 0x45, 0x53, 0x4b, 0x30, 0x99, 0x30],
    [0, 0, 0, 0, 0x4d, 0x30, 0x99, 0x30, 0, 0, 0, 0, 0x4f, 0x30, 0x99, 0x30],
    [0, 0, 0, 0, 0x51, 0x30, 0x99, 0x30, 0, 0, 0, 0, 0x53, 0x30, 0x99, 0x30],
    [0, 0, 0, 0, 0x55, 0x30, 0x99, 0x30, 0, 0, 0, 0, 0x57, 0x30, 0x99, 0x30],
    [0, 0, 0, 0, 0x59, 0x30, 0x99, 0x30, 0, 0, 0, 0, 0x5b, 0x30, 0x99, 0x30],
    [0, 0, 0, 0, 0x5d, 0x30, 0x99, 0x30, 0, 0, 0, 0, 0x5f, 0x30, 0x99, 0x30],
    [0, 0, 0, 0, 0x61, 0x30, 0x99, 0x30, 0x64, 0x30, 0x99, 0x30, 0, 0, 0, 0],
    [0x66, 0x30, 0x99, 0x30, 0, 0, 0, 0, 0x68, 0x30, 0x99, 0x30]]"

definition unicode_decomp_data_13 :: "u8 list" where
  "unicode_decomp_data_13 = concat [
    [0x6f, 0x30, 0x99, 0x30, 0x72, 0x30, 0x99, 0x30, 0x75, 0x30, 0x99, 0x30, 0x78, 0x30, 0x99, 0x30],
    [0x7b, 0x30, 0x99, 0x30, 0x46, 0x30, 0x99, 0x30, 0x20, 0, 0x99, 0x30, 0x9d, 0x30, 0x99, 0x30],
    [0x88, 0x30, 0x8a, 0x30, 0xab, 0x30, 0x99, 0x30, 0, 0, 0, 0, 0xad, 0x30, 0x99, 0x30],
    [0, 0, 0, 0, 0xaf, 0x30, 0x99, 0x30, 0, 0, 0, 0, 0xb1, 0x30, 0x99, 0x30],
    [0, 0, 0, 0, 0xb3, 0x30, 0x99, 0x30, 0, 0, 0, 0, 0xb5, 0x30, 0x99, 0x30],
    [0, 0, 0, 0, 0xb7, 0x30, 0x99, 0x30, 0, 0, 0, 0, 0xb9, 0x30, 0x99, 0x30],
    [0, 0, 0, 0, 0xbb, 0x30, 0x99, 0x30, 0, 0, 0, 0, 0xbd, 0x30, 0x99, 0x30],
    [0, 0, 0, 0, 0xbf, 0x30, 0x99, 0x30, 0, 0, 0, 0, 0xc1, 0x30, 0x99, 0x30],
    [0xc4, 0x30, 0x99, 0x30, 0, 0, 0, 0, 0xc6, 0x30, 0x99, 0x30, 0, 0, 0, 0],
    [0xc8, 0x30, 0x99, 0x30, 0xcf, 0x30, 0x99, 0x30, 0xd2, 0x30, 0x99, 0x30, 0xd5, 0x30, 0x99, 0x30],
    [0xd8, 0x30, 0x99, 0x30, 0xdb, 0x30, 0x99, 0x30, 0xa6, 0x30, 0x99, 0x30, 0xef, 0x30, 0x99, 0x30],
    [0xfd, 0x30, 0x99, 0x30, 0xb3, 0x30, 0xc8, 0x30, 0, 0x11, 0, 1, 0xaa, 2, 0xac, 0xad],
    [3, 4, 5, 0xb0, 0xb1, 0xb2, 0xb3, 0xb4, 0xb5, 0x1a, 6, 7, 8, 0x21, 9, 0x11],
    [0x61, 0x11, 0x14, 0x11, 0x4c, 0, 1, 0xb3, 0xb4, 0xb8, 0xba, 0xbf, 0xc3, 0xc5, 8, 0xc9],
    [0xcb, 9, 0xa, 0xc, 0xe, 0xf, 0x13, 0x15, 0x17, 0x18, 0x19, 0x1a, 0x1b, 0x1e, 0x22, 0x2c],
    [0x33, 0x38, 0xdd, 0xde, 0x43, 0x44, 0x45, 0x70, 0x71, 0x74, 0x7d, 0x7e, 0x80, 0x8a, 0x8d]]"

definition unicode_decomp_data_14 :: "u8 list" where
  "unicode_decomp_data_14 = concat [
    [0, 0x4e, 0x8c, 0x4e, 9, 0x4e, 0xdb, 0x56, 0xa, 0x4e, 0x2d, 0x4e, 0xb, 0x4e, 0x32, 0x75],
    [0x59, 0x4e, 0x19, 0x4e, 1, 0x4e, 0x29, 0x59, 0x30, 0x57, 0xba, 0x4e, 0x28, 0, 0x29, 0],
    [0, 0x11, 2, 0x11, 3, 0x11, 5, 0x11, 6, 0x11, 7, 0x11, 9, 0x11, 0xb, 0x11],
    [0xc, 0x11, 0xe, 0x11, 0xf, 0x11, 0x10, 0x11, 0x11, 0x11, 0x12, 0x11, 0x28, 0, 0, 0x11],
    [0x61, 0x11, 0x29, 0, 0x28, 0, 2, 0x11, 0x61, 0x11, 0x29, 0, 0x28, 0, 5, 0x11],
    [0x61, 0x11, 0x29, 0, 0x28, 0, 9, 0x11, 0x61, 0x11, 0x29, 0, 0x28, 0, 0xb, 0x11],
    [0x61, 0x11, 0x29, 0, 0x28, 0, 0xe, 0x11, 0x61, 0x11, 0x29, 0, 0x28, 0, 0xc, 0x11],
    [0x6e, 0x11, 0x29, 0, 0x28, 0, 0xb, 0x11, 0x69, 0x11, 0xc, 0x11, 0x65, 0x11, 0xab, 0x11],
    [0x29, 0, 0x28, 0, 0xb, 0x11, 0x69, 0x11, 0x12, 0x11, 0x6e, 0x11, 0x29, 0, 0x28, 0],
    [0x29, 0, 0, 0x4e, 0x8c, 0x4e, 9, 0x4e, 0xdb, 0x56, 0x94, 0x4e, 0x6d, 0x51, 3, 0x4e],
    [0x6b, 0x51, 0x5d, 0x4e, 0x41, 0x53, 8, 0x67, 0x6b, 0x70, 0x34, 0x6c, 0x28, 0x67, 0xd1, 0x91],
    [0x1f, 0x57, 0xe5, 0x65, 0x2a, 0x68, 9, 0x67, 0x3e, 0x79, 0xd, 0x54, 0x79, 0x72, 0xa1, 0x8c],
    [0x5d, 0x79, 0xb4, 0x52, 0xe3, 0x4e, 0x7c, 0x54, 0x66, 0x5b, 0xe3, 0x76, 1, 0x4f, 0xc7, 0x8c],
    [0x54, 0x53, 0x6d, 0x79, 0x11, 0x4f, 0xea, 0x81, 0xf3, 0x81, 0x4f, 0x55, 0x7c, 0x5e, 0x87, 0x65],
    [0x8f, 0x7b, 0x50, 0x54, 0x45, 0x32, 0, 0x31, 0, 0x33, 0, 0x30, 0, 0, 0x11, 0],
    [2, 3, 5, 6, 7, 9, 0xb, 0xc, 0xe, 0xf, 0x10, 0x11, 0x12]]"

definition unicode_decomp_data_15 :: "u8 list" where
  "unicode_decomp_data_15 = concat [
    [0, 0x11, 0, 0x61, 2, 0x61, 3, 0x61, 5, 0x61, 6, 0x61, 7, 0x61, 9, 0x61],
    [0xb, 0x61, 0xc, 0x61, 0xe, 0x11, 0x61, 0x11, 0, 0x11, 0xe, 0x61, 0xb7, 0, 0x69, 0xb],
    [0x11, 1, 0x63, 0, 0x69, 0xb, 0x11, 0x6e, 0x11, 0, 0x4e, 0x8c, 0x4e, 9, 0x4e, 0xdb],
    [0x56, 0x94, 0x4e, 0x6d, 0x51, 3, 0x4e, 0x6b, 0x51, 0x5d, 0x4e, 0x41, 0x53, 8, 0x67, 0x6b],
    [0x70, 0x34, 0x6c, 0x28, 0x67, 0xd1, 0x91, 0x1f, 0x57, 0xe5, 0x65, 0x2a, 0x68, 9, 0x67, 0x3e],
    [0x79, 0xd, 0x54, 0x79, 0x72, 0xa1, 0x8c, 0x5d, 0x79, 0xb4, 0x52, 0xd8, 0x79, 0x37, 0x75, 0x73],
    [0x59, 0x69, 0x90, 0x2a, 0x51, 0x70, 0x53, 0xe8, 0x6c, 5, 0x98, 0x11, 0x4f, 0x99, 0x51, 0x63],
    [0x6b, 0xa, 0x4e, 0x2d, 0x4e, 0xb, 0x4e, 0xe6, 0x5d, 0xf3, 0x53, 0x3b, 0x53, 0x97, 0x5b, 0x66],
    [0x5b, 0xe3, 0x76, 1, 0x4f, 0xc7, 0x8c, 0x54, 0x53, 0x1c, 0x59, 0x33, 0, 0x36, 0, 0x34],
    [0, 0x30, 0, 0x35, 0x30, 0x31, 0, 8, 0x67, 0x31, 0, 0x30, 0, 8, 0x67, 0x48],
    [0x67, 0x65, 0x72, 0x67, 0x65, 0x56, 0x4c, 0x54, 0x44, 0xa2, 0x30, 0, 2, 4, 6, 8],
    [9, 0xb, 0xd, 0xf, 0x11, 0x13, 0x15, 0x17, 0x19, 0x1b, 0x1d, 0x1f, 0x22, 0x24, 0x26, 0x28],
    [0x29, 0x2a, 0x2b, 0x2c, 0x2d, 0x30, 0x33, 0x36, 0x39, 0x3c, 0x3d, 0x3e, 0x3f, 0x40, 0x42, 0x44],
    [0x46, 0x47, 0x48, 0x49, 0x4a, 0x4b, 0x4d, 0x4e, 0x4f, 0x50, 0xe4, 0x4e, 0x8c, 0x54, 0xa1, 0x30],
    [1, 0x30, 0x5b, 0x27, 1, 0x4a, 0x34, 0, 1, 0x52, 0x39, 1, 0xa2, 0x30, 0, 0x5a],
    [0x49, 0xa4, 0x30, 0, 0x27, 0x4f, 0xc, 0xa4, 0x30, 0, 0x4f, 0x1d, 2, 5, 0x4f]]"

definition unicode_decomp_data_16 :: "u8 list" where
  "unicode_decomp_data_16 = concat [
    [0xa8, 0x30, 0, 0x11, 7, 0x54, 0x21, 0xa8, 0x30, 0, 0x54, 3, 0x54, 0xa4, 0x30, 6],
    [0x4f, 0x15, 6, 0x58, 0x3c, 7, 0, 0x46, 0xab, 0x30, 0, 0x3e, 0x18, 0x1d, 0, 0x42],
    [0x3f, 0x51, 0xac, 0x30, 0, 0x41, 0x47, 0, 0x47, 0x32, 0xae, 0x30, 0xac, 0x30, 0xae, 0x30],
    [0, 0x1d, 0x4e, 0xad, 0x30, 0, 0x38, 0x3d, 0x4f, 1, 0x3e, 0x13, 0x4f, 0xad, 0x30, 0xed],
    [0x30, 0xad, 0x30, 0, 0x40, 3, 0x3c, 0x33, 0xad, 0x30, 0, 0x40, 0x34, 0x4f, 0x1b, 0x3e],
    [0xad, 0x30, 0, 0x40, 0x42, 0x16, 0x1b, 0xb0, 0x30, 0, 0x39, 0x30, 0xa4, 0x30, 0xc, 0x45],
    [0x3c, 0x24, 0x4f, 0xb, 0x47, 0x18, 0, 0x49, 0xaf, 0x30, 0, 0x3e, 0x4d, 0x1e, 0xb1, 0x30],
    [0, 0x4b, 8, 2, 0x3a, 0x19, 2, 0x4b, 0x2c, 0xa4, 0x30, 0x11, 0, 0xb, 0x47, 0xb5],
    [0x30, 0, 0x3e, 0xc, 0x47, 0x2b, 0xb0, 0x30, 7, 0x3a, 0x43, 0, 0xb9, 0x30, 2, 0x3a],
    [8, 2, 0x3a, 0xf, 7, 0x43, 0, 0xb7, 0x30, 0x10, 0, 0x12, 0x34, 0x11, 0x3c, 0x13],
    [0x17, 0xa4, 0x30, 0x2a, 0x1f, 0x24, 0x2b, 0, 0x20, 0xbb, 0x30, 0x16, 0x41, 0, 0x38, 0xd],
    [0xc4, 0x30, 0xd, 0x38, 0, 0xd0, 0x30, 0, 0x2c, 0x1c, 0x1b, 0xa2, 0x30, 0x32, 0, 0x17],
    [0x26, 0x49, 0xaf, 0x30, 0x25, 0, 0x3c, 0xb3, 0x30, 0x21, 0, 0x20, 0x38, 0xa1, 0x30, 0x34],
    [0, 0x48, 0x22, 0x28, 0xa3, 0x30, 0x32, 0, 0x59, 0x25, 0xa7, 0x30, 0x2f, 0x1c, 0x10, 0],
    [0x44, 0xd5, 0x30, 0, 0x14, 0x1e, 0xaf, 0x30, 0x29, 0, 0x10, 0x4d, 0x3c, 0xda, 0x30, 0xbd],
    [0x30, 0xb8, 0x30, 0x22, 0x13, 0x1a, 0x20, 0x33, 0xc, 0x22, 0x3b, 1, 0x22, 0x44, 0, 0x21],
    [0x44, 7]]"

definition unicode_decomp_data_17 :: "u8 list" where
  "unicode_decomp_data_17 = concat [
    [0xa4, 0x30, 0x39, 0, 0x4f, 0x24, 0xc8, 0x30, 0x14, 0x23, 0, 0xdb, 0x30, 0xf3, 0x30, 0xc9],
    [0x30, 0x14, 0x2a, 0, 0x12, 0x33, 0x22, 0x12, 0x33, 0x2a, 0xa4, 0x30, 0x3a, 0, 0xb, 0x49],
    [0xa4, 0x30, 0x3a, 0, 0x47, 0x3a, 0x1f, 0x2b, 0x3a, 0x47, 0xb, 0xb7, 0x30, 0x27, 0x3c, 0],
    [0x30, 0x3c, 0xaf, 0x30, 0x30, 0, 0x3e, 0x44, 0xdf, 0x30, 0xea, 0x30, 0xd0, 0x30, 0xf, 0x1a],
    [0, 0x2c, 0x1b, 0xe1, 0x30, 0xac, 0x30, 0xac, 0x30, 0x35, 0, 0x1c, 0x47, 0x35, 0x50, 0x1c],
    [0x3f, 0xa2, 0x30, 0x42, 0x5a, 0x27, 0x42, 0x5a, 0x49, 0x44, 0, 0x51, 0xc3, 0x30, 0x27, 0],
    [5, 0x28, 0xea, 0x30, 0xe9, 0x30, 0xd4, 0x30, 0x17, 0, 0x28, 0xd6, 0x30, 0x15, 0x26, 0],
    [0x15, 0xec, 0x30, 0xe0, 0x30, 0xb2, 0x30, 0x3a, 0x41, 0x16, 0, 0x41, 0xc3, 0x30, 0x2c, 0],
    [5, 0x30, 0, 0xb9, 0x70, 0x31, 0, 0x30, 0, 0xb9, 0x70, 0x32, 0, 0x30, 0, 0xb9],
    [0x70, 0x68, 0x50, 0x61, 0x64, 0x61, 0x41, 0x55, 0x62, 0x61, 0x72, 0x6f, 0x56, 0x70, 0x63, 0x64],
    [0x6d, 0x64, 0, 0x6d, 0, 0xb2, 0, 0x49, 0, 0x55, 0, 0x73, 0x5e, 0x10, 0x62, 0x2d],
    [0x66, 0x8c, 0x54, 0x27, 0x59, 0x63, 0x6b, 0xe, 0x66, 0xbb, 0x6c, 0x2a, 0x68, 0xf, 0x5f, 0x1a],
    [0x4f, 0x3e, 0x79, 0x70, 0, 0x41, 0x6e, 0, 0x41, 0xbc, 3, 0x41, 0x6d, 0, 0x41, 0x6b],
    [0, 0x41, 0x4b, 0, 0x42, 0x4d, 0, 0x42, 0x47, 0, 0x42, 0x63, 0x61, 0x6c, 0x6b, 0x63],
    [0x61, 0x6c, 0x70, 0, 0x46, 0x6e, 0, 0x46, 0xbc, 3, 0x46, 0xbc, 3, 0x67, 0x6d, 0],
    [0x67, 0x6b, 0, 0x67, 0x48, 0, 0x7a, 0x6b, 0x48, 0x7a, 0x4d, 0x48, 0x7a, 0x47, 0x48, 0x7a],
    [0x54, 0x48, 0x7a]]"

definition unicode_decomp_data_18 :: "u8 list" where
  "unicode_decomp_data_18 = concat [
    [0xbc, 3, 0x13, 0x21, 0x6d, 0, 0x13, 0x21, 0x64, 0, 0x13, 0x21, 0x6b, 0, 0x13, 0x21],
    [0x66, 0, 0x6d, 0x6e, 0, 0x6d, 0xbc, 3, 0x6d, 0x6d, 0, 0x6d, 0x63, 0, 0x6d, 0x6b],
    [0, 0x6d, 0x63, 0, 0xa, 0xa, 0x4f, 0, 0xa, 0x4f, 0x6d, 0, 0xb2, 0, 0x63, 0],
    [8, 0xa, 0x4f, 0xa, 0xa, 0x50, 0, 0xa, 0x50, 0x6d, 0, 0xb3, 0, 0x6b, 0, 0x6d],
    [0, 0xb3, 0, 0x6d, 0, 0x15, 0x22, 0x73, 0, 0x6d, 0, 0x15, 0x22, 0x73, 0, 0xb2],
    [0, 0x50, 0x61, 0x6b, 0x50, 0x61, 0x4d, 0x50, 0x61, 0x47, 0x50, 0x61, 0x72, 0x61, 0x64, 0x72],
    [0x61, 0x64, 0xd1, 0x73, 0x72, 0, 0x61, 0, 0x64, 0, 0x15, 0x22, 0x73, 0, 0xb2, 0],
    [0x70, 0, 0x73, 0x6e, 0, 0x73, 0xbc, 3, 0x73, 0x6d, 0, 0x73, 0x70, 0, 0x56, 0x6e],
    [0, 0x56, 0xbc, 3, 0x56, 0x6d, 0, 0x56, 0x6b, 0, 0x56, 0x4d, 0, 0x56, 0x70, 0],
    [0x57, 0x6e, 0, 0x57, 0xbc, 3, 0x57, 0x6d, 0, 0x57, 0x6b, 0, 0x57, 0x4d, 0, 0x57],
    [0x6b, 0, 0xa9, 3, 0x4d, 0, 0xa9, 3, 0x61, 0x2e, 0x6d, 0x2e, 0x42, 0x71, 0x63, 0x63],
    [0x63, 0x64, 0x43, 0xd1, 0x6b, 0x67, 0x43, 0x6f, 0x2e, 0x64, 0x42, 0x47, 0x79, 0x68, 0x61, 0x48],
    [0x50, 0x69, 0x6e, 0x4b, 0x4b, 0x4b, 0x4d, 0x6b, 0x74, 0x6c, 0x6d, 0x6c, 0x6e, 0x6c, 0x6f, 0x67],
    [0x6c, 0x78, 0x6d, 0x62, 0x6d, 0x69, 0x6c, 0x6d, 0x6f, 0x6c, 0x50, 0x48, 0x70, 0x2e, 0x6d, 0x2e],
    [0x50, 0x50, 0x4d, 0x50, 0x52, 0x73, 0x72, 0x53, 0x76, 0x57, 0x62, 0x56, 0xd1, 0x6d, 0x41, 0xd1],
    [0x6d, 0x31, 0, 0xe5, 0x65, 0x31, 0, 0x30, 0, 0xe5, 0x65]]"

definition unicode_decomp_data_19 :: "u8 list" where
  "unicode_decomp_data_19 = concat [
    [0x32, 0, 0x30, 0, 0xe5, 0x65, 0x33, 0, 0x30, 0, 0xe5, 0x65, 0x67, 0x61, 0x6c, 0x4a],
    [4, 0x4c, 4, 0x43, 0x46, 0x51, 0x26, 1, 0x53, 1, 0x27, 0xa7, 0x37, 0xab, 0x6b, 2],
    [0x52, 0xab, 0x48, 0x8c, 0xf4, 0x66, 0xca, 0x8e, 0xc8, 0x8c, 0xd1, 0x6e, 0x32, 0x4e, 0xe5, 0x53],
    [0x9c, 0x9f, 0x9c, 0x9f, 0x51, 0x59, 0xd1, 0x91, 0x87, 0x55, 0x48, 0x59, 0xf6, 0x61, 0x69, 0x76],
    [0x85, 0x7f, 0x3f, 0x86, 0xba, 0x87, 0xf8, 0x88, 0x8f, 0x90, 2, 0x6a, 0x1b, 0x6d, 0xd9, 0x70],
    [0xde, 0x73, 0x3d, 0x84, 0x6a, 0x91, 0xf1, 0x99, 0x82, 0x4e, 0x75, 0x53, 4, 0x6b, 0x1b, 0x72],
    [0x2d, 0x86, 0x1e, 0x9e, 0x50, 0x5d, 0xeb, 0x6f, 0xcd, 0x85, 0x64, 0x89, 0xc9, 0x62, 0xd8, 0x81],
    [0x1f, 0x88, 0xca, 0x5e, 0x17, 0x67, 0x6a, 0x6d, 0xfc, 0x72, 0xce, 0x90, 0x86, 0x4f, 0xb7, 0x51],
    [0xde, 0x52, 0xc4, 0x64, 0xd3, 0x6a, 0x10, 0x72, 0xe7, 0x76, 1, 0x80, 6, 0x86, 0x5c, 0x86],
    [0xef, 0x8d, 0x32, 0x97, 0x6f, 0x9b, 0xfa, 0x9d, 0x8c, 0x78, 0x7f, 0x79, 0xa0, 0x7d, 0xc9, 0x83],
    [4, 0x93, 0x7f, 0x9e, 0xd6, 0x8a, 0xdf, 0x58, 4, 0x5f, 0x60, 0x7c, 0x7e, 0x80, 0x62, 0x72],
    [0xca, 0x78, 0xc2, 0x8c, 0xf7, 0x96, 0xd8, 0x58, 0x62, 0x5c, 0x13, 0x6a, 0xda, 0x6d, 0xf, 0x6f],
    [0x2f, 0x7d, 0x37, 0x7e, 0x4b, 0x96, 0xd2, 0x52, 0x8b, 0x80, 0xdc, 0x51, 0xcc, 0x51, 0x1c, 0x7a],
    [0xbe, 0x7d, 0xf1, 0x83, 0x75, 0x96, 0x80, 0x8b, 0xcf, 0x62, 2, 0x6a, 0xfe, 0x8a, 0x39, 0x4e],
    [0xe7, 0x5b, 0x12, 0x60, 0x87, 0x73, 0x70, 0x75, 0x17, 0x53, 0xfb, 0x78, 0xbf, 0x4f, 0xa9, 0x5f],
    [0xd, 0x4e, 0xcc, 0x6c, 0x78, 0x65, 0x22, 0x7d, 0xc3, 0x53, 0x5e, 0x58, 1, 0x77, 0x49, 0x84],
    [0xaa, 0x8a, 0xba, 0x6b, 0xb0, 0x8f, 0x88, 0x6c, 0xfe, 0x62, 0xe5, 0x82, 0xa0, 0x63, 0x65, 0x75],
    [0xae, 0x4e, 0x69, 0x51, 0xc9, 0x51, 0x81, 0x68, 0xe7, 0x7c, 0x6f, 0x82, 0xd2, 0x8a, 0xcf, 0x91],
    [0xf5, 0x52, 0x42, 0x54, 0x73, 0x59, 0xec, 0x5e, 0xc5, 0x65, 0xfe, 0x6f, 0x2a, 0x79, 0xad, 0x95],
    [0x6a, 0x9a, 0x97, 0x9e, 0xce, 0x9e, 0x9b, 0x52, 0xc6, 0x66, 0x77, 0x6b, 0x62, 0x8f, 0x74, 0x5e],
    [0x90, 0x61, 0, 0x62, 0x9a, 0x64, 0x23, 0x6f, 0x49, 0x71, 0x89, 0x74, 0xca, 0x79, 0xf4, 0x7d],
    [0x6f, 0x80, 0x26, 0x8f, 0xee, 0x84, 0x23, 0x90, 0x4a, 0x93, 0x17, 0x52, 0xa3, 0x52, 0xbd, 0x54],
    [0xc8, 0x70, 0xc2, 0x88, 0xaa, 0x8a, 0xc9, 0x5e, 0xf5, 0x5f, 0x7b, 0x63, 0xae, 0x6b, 0x3e, 0x7c],
    [0x75, 0x73]]"

definition unicode_decomp_data_20 :: "u8 list" where
  "unicode_decomp_data_20 = concat [
    [0xe4, 0x4e, 0xf9, 0x56, 0xe7, 0x5b, 0xba, 0x5d, 0x1c, 0x60, 0xb2, 0x73, 0x69, 0x74, 0x9a, 0x7f],
    [0x46, 0x80, 0x34, 0x92, 0xf6, 0x96, 0x48, 0x97, 0x18, 0x98, 0x8b, 0x4f, 0xae, 0x79, 0xb4, 0x91],
    [0xb8, 0x96, 0xe1, 0x60, 0x86, 0x4e, 0xda, 0x50, 0xee, 0x5b, 0x3f, 0x5c, 0x99, 0x65, 2, 0x6a],
    [0xce, 0x71, 0x42, 0x76, 0xfc, 0x84, 0x7c, 0x90, 0x8d, 0x9f, 0x88, 0x66, 0x2e, 0x96, 0x89, 0x52],
    [0x7b, 0x67, 0xf3, 0x67, 0x41, 0x6d, 0x9c, 0x6e, 9, 0x74, 0x59, 0x75, 0x6b, 0x78, 0x10, 0x7d],
    [0x5e, 0x98, 0x6d, 0x51, 0x2e, 0x62, 0x78, 0x96, 0x2b, 0x50, 0x19, 0x5d, 0xea, 0x6d, 0x2a, 0x8f],
    [0x8b, 0x5f, 0x44, 0x61, 0x17, 0x68, 0x87, 0x73, 0x86, 0x96, 0x29, 0x52, 0xf, 0x54, 0x65, 0x5c],
    [0x13, 0x66, 0x4e, 0x67, 0xa8, 0x68, 0xe5, 0x6c, 6, 0x74, 0xe2, 0x75, 0x79, 0x7f, 0xcf, 0x88],
    [0xe1, 0x88, 0xcc, 0x91, 0xe2, 0x96, 0x3f, 0x53, 0xba, 0x6e, 0x1d, 0x54, 0xd0, 0x71, 0x98, 0x74],
    [0xfa, 0x85, 0xa3, 0x96, 0x57, 0x9c, 0x9f, 0x9e, 0x97, 0x67, 0xcb, 0x6d, 0xe8, 0x81, 0xcb, 0x7a],
    [0x20, 0x7b, 0x92, 0x7c, 0xc0, 0x72, 0x99, 0x70, 0x58, 0x8b, 0xc0, 0x4e, 0x36, 0x83, 0x3a, 0x52],
    [7, 0x52, 0xa6, 0x5e, 0xd3, 0x62, 0xd6, 0x7c, 0x85, 0x5b, 0x1e, 0x6d, 0xb4, 0x66, 0x3b, 0x8f],
    [0x4c, 0x88, 0x4d, 0x96, 0x8b, 0x89, 0xd3, 0x5e, 0x40, 0x51, 0xc0, 0x55, 0, 0, 0, 0],
    [0x5a, 0x58, 0, 0, 0x74, 0x66, 0, 0, 0, 0, 0xde, 0x51, 0x2a, 0x73, 0xca, 0x76],
    [0x3c, 0x79, 0x5e, 0x79, 0x65, 0x79, 0x8f, 0x79, 0x56, 0x97, 0xbe, 0x7c, 0xbd, 0x7f, 0, 0],
    [0x12, 0x86, 0, 0, 0xf8, 0x8a, 0, 0, 0, 0, 0x38, 0x90, 0xfd, 0x90]]"

definition unicode_decomp_data_21 :: "u8 list" where
  "unicode_decomp_data_21 = concat [
    [0xef, 0x98, 0xfc, 0x98, 0x28, 0x99, 0xb4, 0x9d, 0xde, 0x90, 0xb7, 0x96, 0xae, 0x4f, 0xe7, 0x50],
    [0x4d, 0x51, 0xc9, 0x52, 0xe4, 0x52, 0x51, 0x53, 0x9d, 0x55, 6, 0x56, 0x68, 0x56, 0x40, 0x58],
    [0xa8, 0x58, 0x64, 0x5c, 0x6e, 0x5c, 0x94, 0x60, 0x68, 0x61, 0x8e, 0x61, 0xf2, 0x61, 0x4f, 0x65],
    [0xe2, 0x65, 0x91, 0x66, 0x85, 0x68, 0x77, 0x6d, 0x1a, 0x6e, 0x22, 0x6f, 0x6e, 0x71, 0x2b, 0x72],
    [0x22, 0x74, 0x91, 0x78, 0x3e, 0x79, 0x49, 0x79, 0x48, 0x79, 0x50, 0x79, 0x56, 0x79, 0x5d, 0x79],
    [0x8d, 0x79, 0x8e, 0x79, 0x40, 0x7a, 0x81, 0x7a, 0xc0, 0x7b, 0xf4, 0x7d, 9, 0x7e, 0x41, 0x7e],
    [0x72, 0x7f, 5, 0x80, 0xed, 0x81, 0x79, 0x82, 0x79, 0x82, 0x57, 0x84, 0x10, 0x89, 0x96, 0x89],
    [1, 0x8b, 0x39, 0x8b, 0xd3, 0x8c, 8, 0x8d, 0xb6, 0x8f, 0x38, 0x90, 0xe3, 0x96, 0xff, 0x97],
    [0x3b, 0x98, 0x75, 0x60, 0xee, 0x42, 0x18, 0x82, 2, 0x26, 0x4e, 0xb5, 0x51, 0x68, 0x51, 0x80],
    [0x4f, 0x45, 0x51, 0x80, 0x51, 0xc7, 0x52, 0xfa, 0x52, 0x9d, 0x55, 0x55, 0x55, 0x99, 0x55, 0xe2],
    [0x55, 0x5a, 0x58, 0xb3, 0x58, 0x44, 0x59, 0x54, 0x59, 0x62, 0x5a, 0x28, 0x5b, 0xd2, 0x5e, 0xd9],
    [0x5e, 0x69, 0x5f, 0xad, 0x5f, 0xd8, 0x60, 0x4e, 0x61, 8, 0x61, 0x8e, 0x61, 0x60, 0x61, 0xf2],
    [0x61, 0x34, 0x62, 0xc4, 0x63, 0x1c, 0x64, 0x52, 0x64, 0x56, 0x65, 0x74, 0x66, 0x17, 0x67, 0x1b],
    [0x67, 0x56, 0x67, 0x79, 0x6b, 0xba, 0x6b, 0x41, 0x6d, 0xdb, 0x6e, 0xcb, 0x6e, 0x22, 0x6f, 0x1e],
    [0x70, 0x6e, 0x71, 0xa7, 0x77, 0x35, 0x72, 0xaf, 0x72, 0x2a, 0x73, 0x71, 0x74, 6, 0x75, 0x3b],
    [0x75, 0x1d, 0x76, 0x1f, 0x76, 0xca, 0x76, 0xdb, 0x76, 0xf4, 0x76, 0x4a, 0x77, 0x40, 0x77, 0xcc],
    [0x78, 0xb1, 0x7a, 0xc0, 0x7b, 0x7b, 0x7c, 0x5b, 0x7d, 0xf4, 0x7d, 0x3e, 0x7f, 5, 0x80, 0x52],
    [0x83, 0xef, 0x83, 0x79, 0x87, 0x41, 0x89, 0x86, 0x89, 0x96, 0x89, 0xbf, 0x8a, 0xf8, 0x8a, 0xcb],
    [0x8a, 1, 0x8b, 0xfe, 0x8a, 0xed, 0x8a, 0x39, 0x8b, 0x8a, 0x8b, 8, 0x8d, 0x38, 0x8f, 0x72],
    [0x90, 0x99, 0x91, 0x76, 0x92, 0x7c, 0x96, 0xe3, 0x96, 0x56, 0x97, 0xdb, 0x97, 0xff, 0x97, 0xb],
    [0x98, 0x3b, 0x98, 0x12, 0x9b, 0x9c, 0x9f]]"

definition unicode_decomp_data_22 :: "u8 list" where
  "unicode_decomp_data_22 = concat [
    [0x4a, 0x28, 0x44, 0x28, 0xd5, 0x33, 0x9d, 0x3b, 0x18, 0x40, 0x39, 0x40, 0x49, 0x52, 0xd0, 0x5c],
    [0xd3, 0x7e, 0x43, 0x9f, 0x8e, 0x9f, 0x2a, 0xa0, 2, 0x66, 0x66, 0x66, 0x69, 0x66, 0x6c, 0x66],
    [0x66, 0x69, 0x66, 0x66, 0x6c, 0x7f, 1, 0x74, 0x73, 0, 0x74, 0x65, 5, 0xf, 0x11, 0xf],
    [0, 0xf, 6, 0x19, 0x11, 0xf, 8, 0xd9, 5, 0xb4, 5, 0, 0, 0, 0, 0xf2],
    [5, 0xb7, 5, 0xd0, 5, 0x12, 0, 3, 4, 0xb, 0xc, 0xd, 0x18, 0x1a, 0xe9, 5],
    [0xc1, 5, 0xe9, 5, 0xc2, 5, 0x49, 0xfb, 0xc1, 5, 0x49, 0xfb, 0xc2, 5, 0xd0, 5],
    [0xb7, 5, 0xd0, 5, 0xb8, 5, 0xd0, 5, 0xbc, 5, 0xd8, 5, 0xbc, 5, 0xde, 5],
    [0xbc, 5, 0xe0, 5, 0xbc, 5, 0xe3, 5, 0xbc, 5, 0xb9, 5, 0x2d, 3, 0x2e, 3],
    [0x2f, 3, 0x30, 3, 0x31, 3, 0x1c, 0, 0x18, 6, 0x22, 6, 0x2b, 6, 0xd0, 5],
    [0xdc, 5, 0x71, 6, 0, 0, 0xa, 0xa, 0xa, 0xa, 0xd, 0xd, 0xd, 0xd, 0xf, 0xf],
    [0xf, 0xf, 9, 9, 9, 9, 0xe, 0xe, 0xe, 0xe, 8, 8, 8, 8, 0x33, 0x33],
    [0x33, 0x33, 0x35, 0x35, 0x35, 0x35, 0x13, 0x13, 0x13, 0x13, 0x12, 0x12, 0x12, 0x12, 0x15, 0x15],
    [0x15, 0x15, 0x16, 0x16, 0x16, 0x16, 0x1c, 0x1c, 0x1b, 0x1b, 0x1d, 0x1d, 0x17, 0x17, 0x27, 0x27],
    [0x20, 0x20, 0x38, 0x38, 0x38, 0x38, 0x3e, 0x3e, 0x3e, 0x3e, 0x42, 0x42, 0x42, 0x42, 0x40, 0x40],
    [0x40, 0x40, 0x49, 0x49, 0x4a, 0x4a, 0x4a, 0x4a, 0x4f, 0x4f, 0x50, 0x50, 0x50, 0x50, 0x4d, 0x4d],
    [0x4d, 0x4d, 0x61, 0x61, 0x62, 0x62, 0x49, 6, 0x64, 0x64, 0x64, 0x64, 0x7e, 0x7e, 0x7d, 0x7d],
    [0x7f, 0x7f, 0x2e, 0x82, 0x82, 0x7c, 0x7c, 0x80, 0x80, 0x87, 0x87, 0x87, 0x87, 0, 0]]"

definition unicode_decomp_data_23 :: "u8 list" where
  "unicode_decomp_data_23 = concat [
    [0x26, 6, 0, 1, 0, 1, 0, 0xaf, 0, 0xaf, 0, 0x22, 0, 0x22, 0, 0xa1],
    [0, 0xa1, 0, 0xa0, 0, 0xa0, 0, 0xa2, 0, 0xa2, 0, 0xaa, 0, 0xaa, 0, 0xaa],
    [0, 0x23, 0, 0x23, 0, 0x23, 0xcc, 6, 0, 0, 0, 0, 0x26, 6, 0, 6],
    [0, 7, 0, 0x1f, 0, 0x23, 0, 0x24, 2, 6, 2, 7, 2, 8, 2, 0x1f],
    [2, 0x23, 2, 0x24, 4, 6, 4, 7, 4, 8, 4, 0x1f, 4, 0x23, 4, 0x24],
    [5, 6, 5, 0x1f, 5, 0x23, 5, 0x24, 6, 7, 6, 0x1f, 7, 6, 7, 0x1f],
    [8, 6, 8, 7, 8, 0x1f, 0xd, 6, 0xd, 7, 0xd, 8, 0xd, 0x1f, 0xf, 7],
    [0xf, 0x1f, 0x10, 6, 0x10, 7, 0x10, 8, 0x10, 0x1f, 0x11, 7, 0x11, 0x1f, 0x12, 0x1f],
    [0x13, 6, 0x13, 0x1f, 0x14, 6, 0x14, 0x1f, 0x1b, 6, 0x1b, 7, 0x1b, 8, 0x1b, 0x1f],
    [0x1b, 0x23, 0x1b, 0x24, 0x1c, 7, 0x1c, 0x1f, 0x1c, 0x23, 0x1c, 0x24, 0x1d, 1, 0x1d, 6],
    [0x1d, 7, 0x1d, 8, 0x1d, 0x1e, 0x1d, 0x1f, 0x1d, 0x23, 0x1d, 0x24, 0x1e, 6, 0x1e, 7],
    [0x1e, 8, 0x1e, 0x1f, 0x1e, 0x23, 0x1e, 0x24, 0x1f, 6, 0x1f, 7, 0x1f, 8, 0x1f, 0x1f],
    [0x1f, 0x23, 0x1f, 0x24, 0x20, 6, 0x20, 7, 0x20, 8, 0x20, 0x1f, 0x20, 0x23, 0x20, 0x24],
    [0x21, 6, 0x21, 0x1f, 0x21, 0x23, 0x21, 0x24, 0x24, 6, 0x24, 7, 0x24, 8, 0x24, 0x1f],
    [0x24, 0x23, 0x24, 0x24, 0xa, 0x4a, 0xb, 0x4a, 0x23, 0x4a, 0x20, 0, 0x4c, 6, 0x51, 6],
    [0x51, 6, 0xff, 0, 0x1f, 0x26, 6, 0, 0xb, 0, 0xc, 0, 0x1f, 0, 0x20, 0],
    [0x23, 0, 0x24, 2, 0xb, 2, 0xc, 2, 0x1f, 2, 0x20, 2, 0x23, 2, 0x24, 4],
    [0xb, 4, 0xc, 4, 0x1f]]"

definition unicode_decomp_data_24 :: "u8 list" where
  "unicode_decomp_data_24 = concat [
    [0x26, 6, 4, 0x20, 4, 0x23, 4, 0x24, 5, 0xb, 5, 0xc, 5, 0x1f, 5, 0x20],
    [5, 0x23, 5, 0x24, 0x1b, 0x23, 0x1b, 0x24, 0x1c, 0x23, 0x1c, 0x24, 0x1d, 1, 0x1d, 0x1e],
    [0x1d, 0x1f, 0x1d, 0x23, 0x1d, 0x24, 0x1e, 0x1f, 0x1e, 0x23, 0x1e, 0x24, 0x1f, 1, 0x1f, 0x1f],
    [0x20, 0xb, 0x20, 0xc, 0x20, 0x1f, 0x20, 0x20, 0x20, 0x23, 0x20, 0x24, 0x23, 0x4a, 0x24, 0xb],
    [0x24, 0xc, 0x24, 0x1f, 0x24, 0x20, 0x24, 0x23, 0x24, 0x24, 0, 6, 0, 7, 0, 8],
    [0, 0x1f, 0, 0x21, 2, 6, 2, 7, 2, 8, 2, 0x1f, 2, 0x21, 4, 6],
    [4, 7, 4, 8, 4, 0x1f, 4, 0x21, 5, 0x1f, 6, 7, 6, 0x1f, 7, 6],
    [7, 0x1f, 8, 6, 8, 0x1f, 0xd, 6, 0xd, 7, 0xd, 8, 0xd, 0x1f, 0xf, 7],
    [0xf, 8, 0xf, 0x1f, 0x10, 6, 0x10, 7, 0x10, 8, 0x10, 0x1f, 0x11, 7, 0x12, 0x1f],
    [0x13, 6, 0x13, 0x1f, 0x14, 6, 0x14, 0x1f, 0x1b, 6, 0x1b, 7, 0x1b, 8, 0x1b, 0x1f],
    [0x1c, 7, 0x1c, 0x1f, 0x1d, 6, 0x1d, 7, 0x1d, 8, 0x1d, 0x1e, 0x1d, 0x1f, 0x1e, 6],
    [0x1e, 7, 0x1e, 8, 0x1e, 0x1f, 0x1e, 0x21, 0x1f, 6, 0x1f, 7, 0x1f, 8, 0x1f, 0x1f],
    [0x20, 6, 0x20, 7, 0x20, 8, 0x20, 0x1f, 0x20, 0x21, 0x21, 6, 0x21, 0x1f, 0x21, 0x4a],
    [0x24, 6, 0x24, 7, 0x24, 8, 0x24, 0x1f, 0x24, 0x21, 0, 0x1f, 0, 0x21, 2, 0x1f],
    [2, 0x21, 4, 0x1f, 4, 0x21, 5, 0x1f, 5, 0x21, 0xd, 0x1f, 0xd, 0x21, 0xe, 0x1f],
    [0xe, 0x21, 0x1d, 0x1e, 0x1d, 0x1f, 0x1e, 0x1f, 0x20, 0x1f, 0x20, 0x21, 0x24, 0x1f, 0x24, 0x21]]"

definition unicode_decomp_data_25 :: "u8 list" where
  "unicode_decomp_data_25 = concat [
    [0x40, 6, 0x4e, 6, 0x51, 6, 0x27, 6, 0x10, 0x22, 0x10, 0x23, 0x12, 0x22, 0x12, 0x23],
    [0x13, 0x22, 0x13, 0x23, 0xc, 0x22, 0xc, 0x23, 0xd, 0x22, 0xd, 0x23, 6, 0x22, 6, 0x23],
    [5, 0x22, 5, 0x23, 7, 0x22, 7, 0x23, 0xe, 0x22, 0xe, 0x23, 0xf, 0x22, 0xf, 0x23],
    [0xd, 5, 0xd, 6, 0xd, 7, 0xd, 0x1e, 0xd, 0xa, 0xc, 0xa, 0xe, 0xa, 0xf, 0xa],
    [0x10, 0x22, 0x10, 0x23, 0x12, 0x22, 0x12, 0x23, 0x13, 0x22, 0x13, 0x23, 0xc, 0x22, 0xc, 0x23],
    [0xd, 0x22, 0xd, 0x23, 6, 0x22, 6, 0x23, 5, 0x22, 5, 0x23, 7, 0x22, 7, 0x23],
    [0xe, 0x22, 0xe, 0x23, 0xf, 0x22, 0xf, 0x23, 0xd, 5, 0xd, 6, 0xd, 7, 0xd, 0x1e],
    [0xd, 0xa, 0xc, 0xa, 0xe, 0xa, 0xf, 0xa, 0xd, 5, 0xd, 6, 0xd, 7, 0xd, 0x1e],
    [0xc, 0x20, 0xd, 0x20, 0x10, 0x1e, 0xc, 5, 0xc, 6, 0xc, 7, 0xd, 5, 0xd, 6],
    [0xd, 7, 0x10, 0x1e, 0x11, 0x1e, 0, 0x24, 0, 0x24, 0x2a, 6, 0, 2, 0x1b, 0],
    [3, 2, 0, 3, 2, 0, 3, 0x1b, 0, 4, 0x1b, 0, 0x1b, 2, 0, 0x1b],
    [3, 0, 0x1b, 4, 2, 0x1b, 3, 2, 0x1b, 3, 3, 0x1b, 0x20, 3, 0x1b, 0x1f],
    [9, 3, 2, 9, 2, 3, 9, 2, 0x1f, 9, 0x1b, 3, 9, 0x1b, 3, 9],
    [0x1b, 2, 9, 0x1b, 0x1b, 9, 0x1b, 0x1b, 0xb, 3, 3, 0xb, 3, 3, 0xb, 0x1b],
    [0x1b, 0xa, 3, 0x1b, 0xa, 3, 0x1b, 0xa, 2, 0x20, 0xa, 0x1b, 4, 0xa, 0x1b, 4],
    [0xa, 0x1b, 0x1b, 0xa, 0x1b, 0x1b, 0xc, 3, 0x1f, 0xc, 4, 0x1b, 0xc, 4, 0x1b, 0xd],
    [0x1b, 3, 0xd, 0x1b, 3, 0xd, 0x1b, 0x1b, 0xd, 0x1b, 0x20, 0xf, 2, 0x1b, 0xf, 0x1b],
    [0x1b, 0xf, 0x1b, 0x1b, 0xf, 0x1b, 0x1f, 0x10, 0x1b, 0x1b, 0x10, 0x1b, 0x20, 0x10, 0x1b, 0x1f],
    [0x17, 4, 0x1b, 0x17, 4, 0x1b, 0x18, 0x1b, 3, 0x18, 0x1b, 0x1b, 0x1a, 3, 0x1b, 0x1a],
    [3, 0x20, 0x1a, 3, 0x1f, 0x1a, 2, 2, 0x1a, 2, 2, 0x1a, 4, 0x1b, 0x1a, 4],
    [0x1b, 0x1a, 0x1b, 3, 0x1a, 0x1b, 3, 0x1b, 3, 2, 0x1b, 3, 0x1b, 0x1b, 3, 0x20],
    [0x1b, 2, 3, 0x1b, 2, 0x1b, 0x1b, 4, 2, 0x1b, 4, 0x1b]]"

definition unicode_decomp_data_26 :: "u8 list" where
  "unicode_decomp_data_26 = concat [
    [0x28, 6, 0x1d, 4, 6, 0x1f, 0x1d, 4, 0x1f, 0x1d, 0x1d, 0x1e, 5, 0x1d, 0x1e, 5],
    [0x21, 0x1e, 4, 0x1d, 0x1e, 4, 0x1d, 0x1e, 4, 0x21, 0x1e, 0x1d, 0x22, 0x1e, 0x1d, 0x21],
    [0x22, 0x1d, 0x1d, 0x22, 0x1d, 0x1d, 0, 6, 0x22, 2, 4, 0x22, 2, 4, 0x21, 2],
    [6, 0x22, 2, 6, 0x21, 2, 0x1d, 0x22, 2, 0x1d, 0x21, 4, 0x1d, 0x22, 4, 5],
    [0x21, 4, 0x1d, 0x21, 0xb, 6, 0x21, 0xd, 5, 0x22, 0xc, 5, 0x22, 0xe, 5, 0x22],
    [0x1c, 4, 0x22, 0x1c, 0x1d, 0x22, 0x22, 5, 0x22, 0x22, 4, 0x22, 0x22, 0x1d, 0x22, 0x1d],
    [0x1d, 0x22, 0x1a, 0x1d, 0x22, 0x1e, 5, 0x22, 0x1a, 0x1d, 5, 0x1c, 5, 0x1d, 0x11, 0x1d],
    [0x22, 0x1b, 0x1d, 0x22, 0x1e, 4, 5, 0x1d, 6, 0x22, 0x1c, 4, 0x1d, 0x1b, 0x1d, 0x1d],
    [0x1c, 4, 0x1d, 0x1e, 4, 5, 4, 5, 0x22, 5, 4, 0x22, 0x1d, 4, 0x22, 0x19],
    [0x1d, 0x22, 0, 5, 0x22, 0x1b, 0x1d, 0x1d, 0x11, 4, 0x1d, 0xd, 0x1d, 0x1d, 0xb, 6],
    [0x22, 0x1e, 4, 0x22, 0x35, 6, 0, 0xf, 0x9d, 0xd, 0xf, 0x9d, 0x27, 6, 0, 0x1d],
    [0x1d, 0x20, 0, 0x1c, 1, 0xa, 0x1e, 6, 0x1e, 8, 0xe, 0x1d, 0x12, 0x1e, 0xa, 0xc],
    [0x21, 0x1d, 0x12, 0x1d, 0x23, 0x20, 0x21, 0xc, 0x1d, 0x1e, 0x35, 6, 0, 0xf, 0x14, 0x27],
    [6, 0xe, 0x1d, 0x22, 0xff, 0, 0x1d, 0x1d, 0x20, 0xff, 0x12, 0x1d, 0x23, 0x20, 0xff, 0x21],
    [0xc, 0x1d, 0x1e, 0x27, 6, 5, 0x1d, 0xff, 5, 0x1d, 0, 0x1d, 0x20, 0x27, 6, 0xa],
    [0xa5, 0, 0x1d, 0x2c, 0, 1, 0x30, 2, 0x30, 0x3a, 0, 0x3b, 0, 0x21, 0, 0x3f],
    [0, 0x16, 0x30, 0x17, 0x30, 0x26, 0x20]]"

definition unicode_decomp_data_27 :: "u8 list" where
  "unicode_decomp_data_27 = concat [
    [0x13, 0x20, 0x12, 1, 0, 0x5f, 0x5f, 0x28, 0x29, 0x7b, 0x7d, 8, 0x30, 0xc, 0xd, 8],
    [9, 2, 3, 0, 1, 4, 5, 6, 7, 0x5b, 0, 0x5d, 0, 0x3e, 0x20, 0x3e],
    [0x20, 0x3e, 0x20, 0x3e, 0x20, 0x5f, 0, 0x5f, 0, 0x5f, 0, 0x2c, 0, 1, 0x30, 0x2e],
    [0, 0, 0, 0x3b, 0, 0x3a, 0, 0x3f, 0, 0x21, 0, 0x14, 0x20, 0x28, 0, 0x29],
    [0, 0x7b, 0, 0x7d, 0, 0x14, 0x30, 0x15, 0x30, 0x23, 0x26, 0x2a, 0x2b, 0x2d, 0x3c, 0x3e],
    [0x3d, 0, 0x5c, 0x24, 0x25, 0x40, 0x40, 6, 0xff, 0xb, 0, 0xb, 0xff, 0xc, 0x20, 0],
    [0x4d, 6, 0x40, 6, 0xff, 0xe, 0, 0xe, 0xff, 0xf, 0, 0xf, 0xff, 0x10, 0, 0x10],
    [0xff, 0x11, 0, 0x11, 0xff, 0x12, 0, 0x12, 0x21, 6, 0, 1, 1, 2, 2, 3],
    [3, 4, 4, 5, 5, 5, 5, 6, 6, 7, 7, 7, 7, 8, 8, 9],
    [9, 9, 9, 0xa, 0xa, 0xa, 0xa, 0xb, 0xb, 0xb, 0xb, 0xc, 0xc, 0xc, 0xc, 0xd],
    [0xd, 0xd, 0xd, 0xe, 0xe, 0xf, 0xf, 0x10, 0x10, 0x11, 0x11, 0x12, 0x12, 0x12, 0x12, 0x13],
    [0x13, 0x13, 0x13, 0x14, 0x14, 0x14, 0x14, 0x15, 0x15, 0x15, 0x15, 0x16, 0x16, 0x16, 0x16, 0x17],
    [0x17, 0x17, 0x17, 0x18, 0x18, 0x18, 0x18, 0x19, 0x19, 0x19, 0x19, 0x20, 0x20, 0x20, 0x20, 0x21],
    [0x21, 0x21, 0x21, 0x22, 0x22, 0x22, 0x22, 0x23, 0x23, 0x23, 0x23, 0x24, 0x24, 0x24, 0x24, 0x25],
    [0x25, 0x25, 0x25, 0x26, 0x26, 0x26, 0x26, 0x27, 0x27, 0x28, 0x28, 0x29, 0x29, 0x29, 0x29, 0x22],
    [6, 0x22, 0, 0x22, 0, 0x22, 1, 0x22, 1, 0x22, 3, 0x22, 3, 0x22, 5, 0x22],
    [5]]"

definition unicode_decomp_data_28 :: "u8 list" where
  "unicode_decomp_data_28 = concat [
    [0x21, 0, 0x85, 0x29, 1, 0x30, 1, 0xb, 0xc, 0, 0xfa, 0xf1, 0xa0, 0xa2, 0xa4, 0xa6],
    [0xa8, 0xe2, 0xe4, 0xe6, 0xc2, 0xfb, 0xa1, 0xa3, 0xa5, 0xa7, 0xa9, 0xaa, 0xac, 0xae, 0xb0, 0xb2],
    [0xb4, 0xb6, 0xb8, 0xba, 0xbc, 0xbe, 0xc0, 0xc3, 0xc5, 0xc7, 0xc9, 0xca, 0xcb, 0xcc, 0xcd, 0xce],
    [0xd1, 0xd4, 0xd7, 0xda, 0xdd, 0xde, 0xdf, 0xe0, 0xe1, 0xe3, 0xe5, 0xe7, 0xe8, 0xe9, 0xea, 0xeb],
    [0xec, 0xee, 0xf2, 0x98, 0x99, 0x31, 0x31, 0x4f, 0x31, 0x55, 0x31, 0x5b, 0x31, 0x61, 0x31, 0xa2],
    [0, 0xa3, 0, 0xac, 0, 0xaf, 0, 0xa6, 0, 0xa5, 0, 0xa9, 0x20, 0, 0, 2],
    [0x25, 0x90, 0x21, 0x91, 0x21, 0x92, 0x21, 0x93, 0x21, 0xa0, 0x25, 0xcb, 0x25, 0xd0, 2, 0xd1],
    [2, 0xe6, 0, 0x99, 2, 0x53, 2, 0, 0, 0xa3, 2, 0x66, 0xab, 0xa5, 2, 0xa4],
    [2, 0x56, 2, 0x57, 2, 0x91, 0x1d, 0x58, 2, 0x5e, 2, 0xa9, 2, 0x64, 2, 0x62],
    [2, 0x60, 2, 0x9b, 2, 0x27, 1, 0x9c, 2, 0x67, 2, 0x84, 2, 0xaa, 2, 0xab],
    [2, 0x6c, 2, 4, 0xdf, 0x8e, 0xa7, 0x6e, 2, 5, 0xdf, 0x8e, 2, 6, 0xdf, 0xf8],
    [0, 0x76, 2, 0x77, 2, 0x71, 0, 0x7a, 2, 8, 0xdf, 0x7d, 2, 0x7e, 2, 0x80],
    [2, 0xa8, 2, 0xa6, 2, 0x67, 0xab, 0xa7, 2, 0x88, 2, 0x71, 0x2c, 0, 0, 0x8f],
    [2, 0xa1, 2, 0xa2, 2, 0x98, 2, 0xc0, 1, 0xc1, 1, 0xc2, 1, 0xa, 0xdf, 0x1e],
    [0xdf, 0x41, 4, 0x40, 0, 0, 0, 0, 0x14, 0x99, 0x10, 0xba, 0x10, 0, 0, 0],
    [0, 0x9b, 0x10, 0xba, 0x10, 5, 5, 0xa5, 0x10, 0xba, 0x10, 5]]"

definition unicode_decomp_data_29 :: "u8 list" where
  "unicode_decomp_data_29 = concat [
    [0x31, 0x11, 0x27, 0x11, 0x32, 0x11, 0x27, 0x11, 0x55, 0x47, 0x13, 0x3e, 0x13, 0x47, 0x13, 0x57],
    [0x13, 0x55, 0xb9, 0x14, 0xba, 0x14, 0xb9, 0x14, 0xb0, 0x14, 0, 0, 0, 0, 0xb9, 0x14],
    [0xbd, 0x14, 0x55, 0x50, 0xb8, 0x15, 0xaf, 0x15, 0xb9, 0x15, 0xaf, 0x15, 0x55, 0x35, 0x19, 0x30],
    [0x19, 5, 0x57, 0xd1, 0x65, 0xd1, 0x58, 0xd1, 0x65, 0xd1, 0x5f, 0xd1, 0x6e, 0xd1, 0x5f, 0xd1],
    [0x6f, 0xd1, 0x5f, 0xd1, 0x70, 0xd1, 0x5f, 0xd1, 0x71, 0xd1, 0x5f, 0xd1, 0x72, 0xd1, 0x55, 0x55],
    [0x55, 5, 0xb9, 0xd1, 0x65, 0xd1, 0xba, 0xd1, 0x65, 0xd1, 0xbb, 0xd1, 0x6e, 0xd1, 0xbc, 0xd1],
    [0x6e, 0xd1, 0xbb, 0xd1, 0x6f, 0xd1, 0xbc, 0xd1, 0x6f, 0xd1, 0x55, 0x55, 0x55, 0x41, 0, 0x61],
    [0, 0x41, 0, 0x61, 0, 0x69, 0, 0x41, 0, 0x61, 0, 0x41, 0, 0x43, 0x44, 0],
    [0, 0x47, 0, 0, 0x4a, 0x4b, 0, 0, 0x4e, 0x4f, 0x50, 0x51, 0, 0x53, 0x54, 0x55],
    [0x56, 0x57, 0x58, 0x59, 0x5a, 0x61, 0x62, 0x63, 0x64, 0, 0x66, 0x68, 0, 0x70, 0, 0x41],
    [0, 0x61, 0, 0x41, 0x42, 0, 0x44, 0x45, 0x46, 0x47, 0x4a, 0, 0x53, 0, 0x61, 0],
    [0x41, 0x42, 0, 0x44, 0x45, 0x46, 0x47, 0, 0x49, 0x4a, 0x4b, 0x4c, 0x4d, 0, 0x4f, 0x53],
    [0, 0x61, 0, 0x41, 0, 0x61, 0, 0x41, 0, 0x61, 0, 0x41, 0, 0x61, 0, 0x41],
    [0, 0x61, 0, 0x41, 0, 0x61, 0]]"

definition unicode_decomp_data_30 :: "u8 list" where
  "unicode_decomp_data_30 = concat [
    [0x41, 0, 0x61, 0, 0x31, 1, 0x37, 2, 0x91, 3, 0xa3, 3, 0xb1, 3, 0xd1, 3],
    [0x24, 0, 0x1f, 4, 0x20, 5, 0x91, 3, 0xa3, 3, 0xb1, 3, 0xd1, 3, 0x24, 0],
    [0x1f, 4, 0x20, 5, 0x91, 3, 0xa3, 3, 0xb1, 3, 0xd1, 3, 0x24, 0, 0x1f, 4],
    [0x20, 5, 0x91, 3, 0xa3, 3, 0xb1, 3, 0xd1, 3, 0x24, 0, 0x1f, 4, 0x20, 5],
    [0x91, 3, 0xa3, 3, 0xb1, 3]]"

definition unicode_decomp_data_31 :: "u8 list" where
  "unicode_decomp_data_31 = concat [
    [0xd1, 3, 0x24, 0, 0x1f, 4, 0x20, 5, 0xb, 0xc, 0x30, 0, 0x30, 0, 0x30, 0],
    [0x30, 0, 0x30, 0, 0x27, 6, 0, 1, 5, 8, 0x2a, 6, 0x1e, 8, 3, 0xd],
    [0x20, 0x19, 0x1a, 0x1b, 0x1c, 9, 0xf, 0x17, 0xb, 0x18, 7, 0xa, 0, 1, 4, 6],
    [0xc, 0xe, 0x10, 0x44, 0x90, 0x77, 0x45, 0x28, 6, 0x2c, 6, 0, 0, 0x47, 6, 0x33],
    [6, 0x17, 0x10, 0x11, 0x12, 0x13, 0, 6, 0xe, 2, 0xf, 0x34, 6, 0x2a, 6, 0x2b],
    [6, 0x2e, 6, 0, 0, 0x36, 6, 0, 0, 0x3a, 6, 0x2d, 6, 0, 0, 0x4a],
    [6, 0, 0, 0x44, 6, 0, 0, 0x46, 6, 0x33, 6, 0x39, 6, 0, 0, 0x35],
    [6, 0x42, 6, 0, 0, 0x34, 6, 0, 0, 0, 0, 0x2e, 6, 0, 0, 0x36],
    [6, 0, 0, 0x3a, 6, 0, 0, 0xba, 6, 0, 0, 0x6f, 6, 0, 0, 0x28],
    [6, 0x2c, 6, 0, 0, 0x47, 6, 0, 0, 0, 0, 0x2d, 6, 0x37, 6, 0x4a],
    [6, 0x43, 6, 0, 0, 0x45, 6, 0x46, 6, 0x33, 6, 0x39, 6, 0x41, 6, 0x35],
    [6, 0x42, 6, 0, 0, 0x34, 6, 0x2a, 6, 0x2b, 6, 0x2e, 6, 0, 0, 0x36],
    [6, 0x38, 6, 0x3a, 6, 0x6e, 6, 0, 0, 0xa1, 6, 0x27, 6, 0, 1, 5],
    [8, 0x20, 0x21, 0xb, 6, 0x10, 0x23, 0x2a, 6, 0x1a, 0x1b, 0x1c, 9, 0xf, 0x17, 0xb],
    [0x18, 7, 0xa, 0, 1, 4, 6, 0xc, 0xe, 0x10, 0x28, 6, 0x2c, 6, 0x2f, 6],
    [0, 0, 0x48, 6, 0x32, 6, 0x2d, 6, 0x37, 6, 0x4a, 6]]"

definition unicode_decomp_data_32 :: "u8 list" where
  "unicode_decomp_data_32 = concat [
    [0x2a, 6, 0x1a, 0x1b, 0x1c, 9, 0xf, 0x17, 0xb, 0x18, 7, 0xa, 0, 1, 4, 6],
    [0xc, 0xe, 0x10, 0x30, 0x2e, 0x30, 0, 0x2c, 0, 0x28, 0, 0x41, 0, 0x29, 0, 0x14],
    [0x30, 0x53, 0, 0x15, 0x30, 0x43, 0x52, 0x43, 0x44, 0x57, 0x5a, 0x41, 0, 0x48, 0x56, 0x4d],
    [0x56, 0x53, 0x44, 0x53, 0x53, 0x50, 0x50, 0x56, 0x57, 0x43, 0x4d, 0x43, 0x4d, 0x44, 0x4d, 0x52],
    [0x44, 0x4a, 0x4b, 0x30, 0x30, 0, 0x68, 0x68, 0x4b, 0x62, 0x57, 0x5b, 0xcc, 0x53, 0xc7, 0x30],
    [0x8c, 0x4e, 0x1a, 0x59, 0xe3, 0x89, 0x29, 0x59, 0xa4, 0x4e, 0x20, 0x66, 0x21, 0x71, 0x99, 0x65],
    [0x4d, 0x52, 0x8c, 0x5f, 0x8d, 0x51, 0xb0, 0x65, 0x1d, 0x52, 0x42, 0x7d, 0x1f, 0x75, 0xa9, 0x8c],
    [0xf0, 0x58, 0x39, 0x54, 0x14, 0x6f, 0x95, 0x62, 0x55, 0x63, 0, 0x4e, 9, 0x4e, 0x4a, 0x90],
    [0xe6, 0x5d, 0x2d, 0x4e, 0xf3, 0x53, 7, 0x63, 0x70, 0x8d, 0x53, 0x62, 0x81, 0x79, 0x7a, 0x7a],
    [8, 0x54, 0x80, 0x6e, 9, 0x67, 8, 0x67, 0x33, 0x75, 0x72, 0x52, 0xb6, 0x55, 0x4d, 0x91],
    [0x14, 0x30, 0x15, 0x30, 0x2c, 0x67, 9, 0x4e, 0x8c, 0x4e, 0x89, 0x5b, 0xb9, 0x70, 0x53, 0x62],
    [0xd7, 0x76, 0xdd, 0x52, 0x57, 0x65, 0x97, 0x5f, 0xef, 0x53, 0x30, 0, 0x38, 0x4e, 5, 0],
    [9, 0x22, 1, 0x60, 0x4f, 0xae, 0x4f, 0xbb, 0x4f, 2, 0x50, 0x7a, 0x50, 0x99, 0x50, 0xe7],
    [0x50, 0xcf, 0x50, 0x9e, 0x34, 0x3a, 6, 0x4d, 0x51, 0x54, 0x51, 0x64, 0x51, 0x77, 0x51, 0x1c],
    [5, 0xb9, 0x34, 0x67, 0x51, 0x8d, 0x51, 0x4b, 5, 0x97, 0x51, 0xa4, 0x51, 0xcc, 0x4e, 0xac],
    [0x51, 0xb5, 0x51, 0xdf, 0x91, 0xf5, 0x51, 3, 0x52, 0xdf, 0x34, 0x3b, 0x52, 0x46, 0x52, 0x72],
    [0x52, 0x77, 0x52, 0x15, 0x35, 2, 0, 0x20, 0x80, 0x80, 0, 8, 0, 0]]"

definition unicode_decomp_data_33 :: "u8 list" where
  "unicode_decomp_data_33 = concat [
    [0xc7, 0x52, 0, 2, 0x1d, 0x33, 0x3e, 0x3f, 0x50, 0x82, 0x8a, 0x93, 0xac, 0xb6, 0xb8, 0xb8],
    [0xb8, 0x2c, 0xa, 0x70, 0x70, 0xca, 0x53, 0xdf, 0x53, 0x63, 0xb, 0xeb, 0x53, 0xf1, 0x53, 6],
    [0x54, 0x9e, 0x54, 0x38, 0x54, 0x48, 0x54, 0x68, 0x54, 0xa2, 0x54, 0xf6, 0x54, 0x10, 0x55, 0x53],
    [0x55, 0x63, 0x55, 0x84, 0x55, 0x84, 0x55, 0x99, 0x55, 0xab, 0x55, 0xb3, 0x55, 0xc2, 0x55, 0x16],
    [0x57, 6, 0x56, 0x17, 0x57, 0x51, 0x56, 0x74, 0x56, 7, 0x52, 0xee, 0x58, 0xce, 0x57, 0xf4],
    [0x57, 0xd, 0x58, 0x8b, 0x57, 0x32, 0x58, 0x31, 0x58, 0xac, 0x58, 0xe4, 0x14, 0xf2, 0x58, 0xf7],
    [0x58, 6, 0x59, 0x1a, 0x59, 0x22, 0x59, 0x62, 0x59, 0xa8, 0x16, 0xea, 0x16, 0xec, 0x59, 0x1b],
    [0x5a, 0x27, 0x5a, 0xd8, 0x59, 0x66, 0x5a, 0xee, 0x36, 0xfc, 0x36, 8, 0x5b, 0x3e, 0x5b, 0x3e],
    [0x5b, 0xc8, 0x19, 0xc3, 0x5b, 0xd8, 0x5b, 0xe7, 0x5b, 0xf3, 0x5b, 0x18, 0x1b, 0xff, 0x5b, 6],
    [0x5c, 0x53, 0x5f, 0x22, 0x5c, 0x81, 0x37, 0x60, 0x5c, 0x6e, 0x5c, 0xc0, 0x5c, 0x8d, 0x5c, 0xe4],
    [0x1d, 0x43, 0x5d, 0xe6, 0x1d, 0x6e, 0x5d, 0x6b, 0x5d, 0x7c, 0x5d, 0xe1, 0x5d, 0xe2, 0x5d, 0x2f],
    [0x38, 0xfd, 0x5d, 0x28, 0x5e, 0x3d, 0x5e, 0x69, 0x5e, 0x62, 0x38, 0x83, 0x21, 0x7c, 0x38, 0xb0],
    [0x5e, 0xb3, 0x5e, 0xb6, 0x5e, 0xca, 0x5e, 0x92, 0xa3, 0xfe, 0x5e, 0x31, 0x23, 0x31, 0x23, 1],
    [0x82, 0x22, 0x5f, 0x22, 0x5f, 0xc7, 0x38, 0xb8, 0x32, 0xda, 0x61, 0x62, 0x5f, 0x6b, 0x5f, 0xe3],
    [0x38, 0x9a, 0x5f, 0xcd, 0x5f, 0xd7, 0x5f, 0xf9, 0x5f, 0x81, 0x60, 0x3a, 0x39, 0x1c, 0x39, 0x94],
    [0x60, 0xd4, 0x26, 0xc7, 0x60, 2, 2, 0, 0, 0, 0, 0, 0, 0, 8, 0],
    [0xa, 0, 0, 2, 8, 0, 0x80, 8, 0, 0, 8, 0x80, 0x28, 0x80, 2, 0],
    [0, 2]]"

definition unicode_decomp_data_34 :: "u8 list" where
  "unicode_decomp_data_34 = concat [
    [0x48, 0x61, 0, 4, 6, 4, 0x32, 0x46, 0x6a, 0x5c, 0x67, 0x96, 0xaa, 0xae, 0xc8, 0xd3],
    [0x5d, 0x62, 0, 0x54, 0x77, 0xf3, 0xc, 0x2b, 0x3d, 0x63, 0xfc, 0x62, 0x68, 0x63, 0x83, 0x63],
    [0xe4, 0x63, 0xf1, 0x2b, 0x22, 0x64, 0xc5, 0x63, 0xa9, 0x63, 0x2e, 0x3a, 0x69, 0x64, 0x7e, 0x64],
    [0x9d, 0x64, 0x77, 0x64, 0x6c, 0x3a, 0x4f, 0x65, 0x6c, 0x65, 0xa, 0x30, 0xe3, 0x65, 0xf8, 0x66],
    [0x49, 0x66, 0x19, 0x3b, 0x91, 0x66, 8, 0x3b, 0xe4, 0x3a, 0x92, 0x51, 0x95, 0x51, 0, 0x67],
    [0x9c, 0x66, 0xad, 0x80, 0xd9, 0x43, 0x17, 0x67, 0x1b, 0x67, 0x21, 0x67, 0x5e, 0x67, 0x53, 0x67],
    [0xc3, 0x33, 0x49, 0x3b, 0xfa, 0x67, 0x85, 0x67, 0x52, 0x68, 0x85, 0x68, 0x6d, 0x34, 0x8e, 0x68],
    [0x1f, 0x68, 0x14, 0x69, 0x9d, 0x3b, 0x42, 0x69, 0xa3, 0x69, 0xea, 0x69, 0xa8, 0x6a, 0xa3, 0x36],
    [0xdb, 0x6a, 0x18, 0x3c, 0x21, 0x6b, 0xa7, 0x38, 0x54, 0x6b, 0x4e, 0x3c, 0x72, 0x6b, 0x9f, 0x6b],
    [0xba, 0x6b, 0xbb, 0x6b, 0x8d, 0x3a, 0xb, 0x1d, 0xfa, 0x3a, 0x4e, 0x6c, 0xbc, 0x3c, 0xbf, 0x6c],
    [0xcd, 0x6c, 0x67, 0x6c, 0x16, 0x6d, 0x3e, 0x6d, 0x77, 0x6d, 0x41, 0x6d, 0x69, 0x6d, 0x78, 0x6d],
    [0x85, 0x6d, 0x1e, 0x3d, 0x34, 0x6d, 0x2f, 0x6e, 0x6e, 0x6e, 0x33, 0x3d, 0xcb, 0x6e, 0xc7, 0x6e],
    [0xd1, 0x3e, 0xf9, 0x6d, 0x6e, 0x6f, 0x5e, 0x3f, 0x8e, 0x3f, 0xc6, 0x6f, 0x39, 0x70, 0x1e, 0x70],
    [0x1b, 0x70, 0x96, 0x3d, 0x4a, 0x70, 0x7d, 0x70, 0x77, 0x70, 0xad, 0x70, 0x25, 5, 0x45, 0x71],
    [0x63, 0x42, 0x9c, 0x71, 0xab, 0x43, 0x28, 0x72, 0x35, 0x72, 0x50, 0x72, 8, 0x46, 0x80, 0x72],
    [0x95, 0x72, 0x35, 0x47, 2, 0x20, 0, 0, 0x20, 0, 0, 0, 0, 8, 0x80, 0],
    [0, 2, 2, 0x80, 0x8a, 0, 0, 0x20, 0, 8, 0xa, 0, 0x80, 0x88, 0x80, 0x20]]"

definition unicode_decomp_data_35 :: "u8 list" where
  "unicode_decomp_data_35 = concat [
    [0x14, 0x48, 0x7a, 0x73, 0x8b, 0x73, 0xac, 0x3e, 0xa5, 0x73, 0xb8, 0x3e, 0xb8, 0x3e, 0x47, 0x74],
    [0x5c, 0x74, 0x71, 0x74, 0x85, 0x74, 0xca, 0x74, 0x1b, 0x3f, 0x24, 0x75, 0x36, 0x4c, 0x3e, 0x75],
    [0x92, 0x4c, 0x70, 0x75, 0x9f, 0x21, 0x10, 0x76, 0xa1, 0x4f, 0xb8, 0x4f, 0x44, 0x50, 0xfc, 0x3f],
    [8, 0x40, 0xf4, 0x76, 0xf3, 0x50, 0xf2, 0x50, 0x19, 0x51, 0x33, 0x51, 0x1e, 0x77, 0x1f, 0x77],
    [0x1f, 0x77, 0x4a, 0x77, 0x39, 0x40, 0x8b, 0x77, 0x46, 0x40, 0x96, 0x40, 0x1d, 0x54, 0x4e, 0x78],
    [0x8c, 0x78, 0xcc, 0x78, 0xe3, 0x40, 0x26, 0x56, 0x56, 0x79, 0x9a, 0x56, 0xc5, 0x56, 0x8f, 0x79],
    [0xeb, 0x79, 0x2f, 0x41, 0x40, 0x7a, 0x4a, 0x7a, 0x4f, 0x7a, 0x7c, 0x59, 0xa7, 0x5a, 0xa7, 0x5a],
    [0xee, 0x7a, 2, 0x42, 0xab, 0x5b, 0xc6, 0x7b, 0xc9, 0x7b, 0x27, 0x42, 0x80, 0x5c, 0xd2, 0x7c],
    [0xa0, 0x42, 0xe8, 0x7c, 0xe3, 0x7c, 0, 0x7d, 0x86, 0x5f, 0x63, 0x7d, 1, 0x43, 0xc7, 0x7d],
    [2, 0x7e, 0x45, 0x7e, 0x34, 0x43, 0x28, 0x62, 0x47, 0x62, 0x59, 0x43, 0xd9, 0x62, 0x7a, 0x7f],
    [0x3e, 0x63, 0x95, 0x7f, 0xfa, 0x7f, 5, 0x80, 0xda, 0x64, 0x23, 0x65, 0x60, 0x80, 0xa8, 0x65],
    [0x70, 0x80, 0x5f, 0x33, 0xd5, 0x43, 0xb2, 0x80, 3, 0x81, 0xb, 0x44, 0x3e, 0x81, 0xb5, 0x5a],
    [0xa7, 0x67, 0xb5, 0x67, 0x93, 0x33, 0x9c, 0x33, 1, 0x82, 4, 0x82, 0x9e, 0x8f, 0x6b, 0x44],
    [0x91, 0x82, 0x8b, 0x82, 0x9d, 0x82, 0xb3, 0x52, 0xb1, 0x82, 0xb3, 0x82, 0xbd, 0x82, 0xe6, 0x82],
    [0x3c, 0x6b, 0xe5, 0x82, 0x1d, 0x83, 0x63, 0x83, 0xad, 0x83, 0x23, 0x83, 0xbd, 0x83, 0xe7, 0x83],
    [0x57, 0x84, 0x53, 0x83, 0xca, 0x83, 0xcc, 0x83, 0xdc, 0x83, 0x36, 0x6c, 0x6b, 0x6d, 2, 0],
    [0, 0x20, 0x22, 0x2a, 0xa0, 0xa, 0, 0x20, 0x80, 0x28, 0, 0xa8, 0x20, 0x20, 0, 2],
    [0x80, 0x22, 2, 0x8a, 8, 0, 0xaa, 0, 0, 0, 2, 0, 0, 0x28]]"

definition unicode_decomp_data_36 :: "u8 list" where
  "unicode_decomp_data_36 = concat [
    [0xd5, 0x6c, 0x2b, 0x45, 0xf1, 0x84, 0xf3, 0x84, 0x16, 0x85, 0xca, 0x73, 0x64, 0x85, 0x2c, 0x6f],
    [0x5d, 0x45, 0x61, 0x45, 0xb1, 0x6f, 0xd2, 0x70, 0x6b, 0x45, 0x50, 0x86, 0x5c, 0x86, 0x67, 0x86],
    [0x69, 0x86, 0xa9, 0x86, 0x88, 0x86, 0xe, 0x87, 0xe2, 0x86, 0x79, 0x87, 0x28, 0x87, 0x6b, 0x87],
    [0x86, 0x87, 0xd7, 0x45, 0xe1, 0x87, 1, 0x88, 0xf9, 0x45, 0x60, 0x88, 0x63, 0x88, 0x67, 0x76],
    [0xd7, 0x88, 0xde, 0x88, 0x35, 0x46, 0xfa, 0x88, 0xbb, 0x34, 0xae, 0x78, 0x66, 0x79, 0xbe, 0x46],
    [0xc7, 0x46, 0xa0, 0x8a, 0xed, 0x8a, 0x8a, 0x8b, 0x55, 0x8c, 0xa8, 0x7c, 0xab, 0x8c, 0xc1, 0x8c],
    [0x1b, 0x8d, 0x77, 0x8d, 0x2f, 0x7f, 4, 8, 0xcb, 0x8d, 0xbc, 0x8d, 0xf0, 0x8d, 0xde, 8],
    [0xd4, 0x8e, 0x38, 0x8f, 0xd2, 0x85, 0xed, 0x85, 0x94, 0x90, 0xf1, 0x90, 0x11, 0x91, 0x2e, 0x87],
    [0x1b, 0x91, 0x38, 0x92, 0xd7, 0x92, 0xd8, 0x92, 0x7c, 0x92, 0xf9, 0x93, 0x15, 0x94, 0xfa, 0x8b],
    [0x8b, 0x95, 0x95, 0x49, 0xb7, 0x95, 0x77, 0x8d, 0xe6, 0x49, 0xc3, 0x96, 0xb2, 0x5d, 0x23, 0x97],
    [0x45, 0x91, 0x1a, 0x92, 0x6e, 0x4a, 0x76, 0x4a, 0xe0, 0x97, 0xa, 0x94, 0xb2, 0x4a, 0x96, 0x94],
    [0xb, 0x98, 0xb, 0x98, 0x29, 0x98, 0xb6, 0x95, 0xe2, 0x98, 0x33, 0x4b, 0x29, 0x99, 0xa7, 0x99],
    [0xc2, 0x99, 0xfe, 0x99, 0xce, 0x4b, 0x30, 0x9b, 0x12, 0x9b, 0x40, 0x9c, 0xfd, 0x9c, 0xce, 0x4c],
    [0xed, 0x4c, 0x67, 0x9d, 0xce, 0xa0, 0xf8, 0x4c, 5, 0xa1, 0xe, 0xa2, 0x91, 0xa2, 0xbb, 0x9e],
    [0x56, 0x4d, 0xf9, 0x9e, 0xfe, 0x9e, 5, 0x9f, 0xf, 0x9f, 0x16, 0x9f, 0x3b, 0x9f, 0, 0xa6],
    [2, 0x88, 0xa0, 0, 0, 0, 0, 0x80, 0, 0x28, 0, 8, 0xa0, 0x80, 0xa0, 0x80],
    [0, 0x80, 0x80, 0, 0xa, 0x88, 0x80, 0, 0x80, 0, 0x20, 0x2a, 0, 0x80]]"

definition unicode_decomp_data :: "u8 list" where
  "unicode_decomp_data = concat [
    unicode_decomp_data_0, unicode_decomp_data_1, unicode_decomp_data_2, unicode_decomp_data_3,
    unicode_decomp_data_4, unicode_decomp_data_5, unicode_decomp_data_6, unicode_decomp_data_7,
    unicode_decomp_data_8, unicode_decomp_data_9, unicode_decomp_data_10, unicode_decomp_data_11,
    unicode_decomp_data_12, unicode_decomp_data_13, unicode_decomp_data_14, unicode_decomp_data_15,
    unicode_decomp_data_16, unicode_decomp_data_17, unicode_decomp_data_18, unicode_decomp_data_19,
    unicode_decomp_data_20, unicode_decomp_data_21, unicode_decomp_data_22, unicode_decomp_data_23,
    unicode_decomp_data_24, unicode_decomp_data_25, unicode_decomp_data_26, unicode_decomp_data_27,
    unicode_decomp_data_28, unicode_decomp_data_29, unicode_decomp_data_30, unicode_decomp_data_31,
    unicode_decomp_data_32, unicode_decomp_data_33, unicode_decomp_data_34, unicode_decomp_data_35,
    unicode_decomp_data_36]"

definition unicode_comp_table_0 :: "u16 list" where
  "unicode_comp_table_0 = concat [
    [0x4a01, 0x49c0, 0x4a02, 0x280, 0x281, 0x282, 0x283, 0x2c0, 0x2c2, 0xa00, 0x284, 0x2442, 0x285, 0x7c0, 0x980],
    [0x982, 0x2440, 0x2280, 0x2c4, 0x2282, 0x2284, 0x2286, 0x2c6, 0x2c8, 0x2ca, 0x2cc, 0x287, 0x228a, 0x2ce, 0x228c],
    [0x2290, 0x2292, 0x228e, 0x288, 0x289, 0x28a, 0x2482, 0x300, 0x302, 0x304, 0x28b, 0x2480, 0x308, 0x984, 0x986],
    [0x2458, 0xa02, 0x306, 0x2298, 0x229a, 0x229e, 0x900, 0x30a, 0x22a0, 0x30c, 0x30e, 0x840, 0x310, 0x312, 0x22a2],
    [0x22a6, 0x9c0, 0x22a4, 0x22a8, 0x22aa, 0x28c, 0x28d, 0x28e, 0x340, 0x342, 0x344, 0x380, 0x28f, 0x248e, 0x7c2],
    [0x988, 0x98a, 0x2490, 0x346, 0x22ac, 0x400, 0x22b0, 0x842, 0x22b2, 0x402, 0x22b4, 0x440, 0x444, 0x22b6, 0x442]]"

definition unicode_comp_table_1 :: "u16 list" where
  "unicode_comp_table_1 = concat [
    [0x22c2, 0x22c0, 0x22c4, 0x22c6, 0x22c8, 0x940, 0x4c0, 0x291, 0x22ca, 0x4c4, 0x22cc, 0x4c2, 0x22d0, 0x22ce, 0x292],
    [0x293, 0x294, 0x295, 0x540, 0x542, 0xa08, 0x296, 0x2494, 0x544, 0x7c4, 0x98c, 0x98e, 0x6c0, 0x2492, 0x844],
    [0x2308, 0x230a, 0x580, 0x230c, 0x584, 0x990, 0x992, 0x230e, 0x582, 0x2312, 0x586, 0x588, 0x2314, 0x58c, 0x2316],
    [0x998, 0x58a, 0x231e, 0x590, 0x2320, 0x99a, 0x58e, 0x2324, 0x2322, 0x299, 0x29a, 0x29b, 0x5c0, 0x5c2, 0x5c4],
    [0x29c, 0x24ac, 0x5c6, 0x5c8, 0x7c6, 0x994, 0x996, 0x700, 0x24aa, 0x2326, 0x5ca, 0x232a, 0x2328, 0x2340, 0x2342],
    [0x2344, 0x2346, 0x5cc, 0x234a, 0x2348, 0x234c, 0x234e, 0x2350, 0x24b8, 0x29d, 0x5ce, 0x24be, 0xa0c, 0x2352, 0x600]]"

definition unicode_comp_table_2 :: "u16 list" where
  "unicode_comp_table_2 = concat [
    [0x24bc, 0x24ba, 0x640, 0x2354, 0x642, 0x644, 0x2356, 0x2358, 0x2a0, 0x2a1, 0x2a2, 0x2a3, 0x2c1, 0x2c3, 0xa01],
    [0x2a4, 0x2443, 0x2a5, 0x7c1, 0x981, 0x983, 0x2441, 0x2281, 0x2c5, 0x2283, 0x2285, 0x2287, 0x2c7, 0x2c9, 0x2cb],
    [0x2cd, 0x2a7, 0x228b, 0x2cf, 0x228d, 0x2291, 0x2293, 0x228f, 0x2a8, 0x2a9, 0x2aa, 0x2483, 0x301, 0x303, 0x305],
    [0x2ab, 0x2481, 0x309, 0x985, 0x987, 0x2459, 0xa03, 0x307, 0x2299, 0x229b, 0x229f, 0x901, 0x30b, 0x22a1, 0x30d],
    [0x30f, 0x841, 0x311, 0x313, 0x22a3, 0x22a7, 0x9c1, 0x22a5, 0x22a9, 0x22ab, 0x2380, 0x2ac, 0x2ad, 0x2ae, 0x341],
    [0x343, 0x345, 0x2af, 0x248f, 0x7c3, 0x989, 0x98b, 0x2491, 0x347, 0x22ad, 0x401, 0x884, 0x22b1, 0x843, 0x22b3]]"

definition unicode_comp_table_3 :: "u16 list" where
  "unicode_comp_table_3 = concat [
    [0x403, 0x22b5, 0x441, 0x445, 0x22b7, 0x443, 0x22c3, 0x22c1, 0x22c5, 0x22c7, 0x22c9, 0x941, 0x4c1, 0x2b1, 0x22cb],
    [0x4c5, 0x22cd, 0x4c3, 0x22d1, 0x22cf, 0x2b2, 0x2b3, 0x2b4, 0x2b5, 0x541, 0x543, 0xa09, 0x2b6, 0x2495, 0x545],
    [0x7c5, 0x98d, 0x98f, 0x6c1, 0x2493, 0x845, 0x2309, 0x230b, 0x581, 0x230d, 0x585, 0x991, 0x993, 0x230f, 0x583],
    [0x2313, 0x587, 0x589, 0x2315, 0x58d, 0x2317, 0x999, 0x58b, 0x231f, 0x2381, 0x591, 0x2321, 0x99b, 0x58f, 0x2325],
    [0x2323, 0x2b9, 0x2ba, 0x2bb, 0x5c1, 0x5c3, 0x5c5, 0x2bc, 0x24ad, 0x5c7, 0x5c9, 0x7c7, 0x995, 0x997, 0x701],
    [0x24ab, 0x2327, 0x5cb, 0x232b, 0x2329, 0x2341, 0x2343, 0x2345, 0x2347, 0x5cd, 0x234b, 0x2349, 0x2382, 0x234d, 0x234f]]"

definition unicode_comp_table_4 :: "u16 list" where
  "unicode_comp_table_4 = concat [
    [0x2351, 0x24b9, 0x2bd, 0x5cf, 0x24bf, 0xa0d, 0x2353, 0x2bf, 0x24bd, 0x2383, 0x24bb, 0x641, 0x2355, 0x643, 0x645],
    [0x2357, 0x2359, 0x3101, 0xc80, 0x2e00, 0x2446, 0x2444, 0x244a, 0x2448, 0x800, 0x942, 0x944, 0x804, 0x2288, 0x2486],
    [0x2484, 0x248a, 0x2488, 0x22ae, 0x2498, 0x2496, 0x249c, 0x249a, 0x2300, 0xa06, 0x2302, 0xa04, 0x946, 0x7ce, 0x7ca],
    [0x7c8, 0x7cc, 0x2447, 0x2445, 0x244b, 0x2449, 0x801, 0x943, 0x945, 0x805, 0x2289, 0x2487, 0x2485, 0x248b, 0x2489],
    [0x22af, 0x2499, 0x2497, 0x249d, 0x249b, 0x2301, 0xa07, 0x2303, 0xa05, 0x947, 0x7cf, 0x7cb, 0x7c9, 0x7cd, 0x2450],
    [0x244e, 0x2454, 0x2452, 0x2451, 0x244f, 0x2455, 0x2453, 0x2294, 0x2296, 0x2295, 0x2297, 0x2304, 0x2306, 0x2305, 0x2307]]"

definition unicode_comp_table_5 :: "u16 list" where
  "unicode_comp_table_5 = concat [
    [0x2318, 0x2319, 0x231a, 0x231b, 0x232c, 0x232d, 0x232e, 0x232f, 0x2400, 0x24a2, 0x24a0, 0x24a6, 0x24a4, 0x24a8, 0x24a3],
    [0x24a1, 0x24a7, 0x24a5, 0x24a9, 0x24b0, 0x24ae, 0x24b4, 0x24b2, 0x24b6, 0x24b1, 0x24af, 0x24b5, 0x24b3, 0x24b7, 0x882],
    [0x880, 0x881, 0x802, 0x803, 0x229c, 0x229d, 0xa0a, 0xa0b, 0x883, 0xb40, 0x2c8a, 0xc81, 0x2c89, 0x2c88, 0x2540],
    [0x2541, 0x2d00, 0x2e07, 0xd00, 0x2640, 0x2641, 0x2e80, 0xd01, 0x26c8, 0x26c9, 0x2f00, 0x2f84, 0xd02, 0x2f83, 0x2f82],
    [0xd40, 0x26d8, 0x26d9, 0x3186, 0xd04, 0x2740, 0x2741, 0x3100, 0x3086, 0xd06, 0x3085, 0x3084, 0xd41, 0x2840, 0x3200],
    [0xd07, 0x284f, 0x2850, 0x3280, 0x2c84, 0x2e03, 0x2857, 0xd42, 0x2c81, 0x2c80, 0x24c0, 0x24c1, 0x2c86, 0x2c83, 0x28c0]]"

definition unicode_comp_table_6 :: "u16 list" where
  "unicode_comp_table_6 = concat [
    [0xd43, 0x25c0, 0x25c1, 0x2940, 0xd44, 0x26c0, 0x26c1, 0x2e05, 0x2e02, 0x29c0, 0xd45, 0x2f05, 0x2f04, 0xd80, 0x26d0],
    [0x26d1, 0x2f80, 0x2a40, 0xd82, 0x26e0, 0x26e1, 0x3080, 0x3081, 0x2ac0, 0xd83, 0x3004, 0x3003, 0xd81, 0x27c0, 0x27c1],
    [0x3082, 0x2b40, 0xd84, 0x2847, 0x2848, 0x3184, 0x3181, 0x2f06, 0xd08, 0x2f81, 0x3005, 0xd46, 0x3083, 0x3182, 0xe00],
    [0xe01, 0xf40, 0x1180, 0x1182, 0xf03, 0xf00, 0x11c0, 0xf01, 0x1140, 0x1202, 0x1204, 0xf81, 0x1240, 0xfc0, 0x1242],
    [0xf80, 0x1244, 0x1284, 0xf82, 0x1286, 0x1288, 0x128a, 0x12c0, 0x1282, 0x1181, 0x1183, 0x1043, 0x1040, 0x11c1, 0x1041],
    [0x1141, 0x1203, 0x1205, 0x10c1, 0x1241, 0x1000, 0x1243, 0x10c0, 0x1245, 0x1285, 0x10c2, 0x1287, 0x1289, 0x128b, 0x12c1]]"

definition unicode_comp_table_7 :: "u16 list" where
  "unicode_comp_table_7 = concat [
    [0x1283, 0x1080, 0x1100, 0x1101, 0x1200, 0x1201, 0x1280, 0x1281, 0x1340, 0x1341, 0x1343, 0x1342, 0x1344, 0x13c2, 0x1400],
    [0x13c0, 0x1440, 0x1480, 0x14c0, 0x1540, 0x1541, 0x1740, 0x1700, 0x1741, 0x17c0, 0x1800, 0x1802, 0x1801, 0x1840, 0x1880],
    [0x1900, 0x18c0, 0x18c1, 0x1901, 0x1940, 0x1942, 0x1941, 0x1980, 0x19c0, 0x19c2, 0x19c1, 0x1c80, 0x1cc0, 0x1dc0, 0x1f80],
    [0x2000, 0x2002, 0x2004, 0x2006, 0x2008, 0x2040, 0x2080, 0x2082, 0x20c0, 0x20c1, 0x2100, 0x22b8, 0x22b9, 0x2310, 0x2311],
    [0x231c, 0x231d, 0x244c, 0x2456, 0x244d, 0x2457, 0x248c, 0x248d, 0x249e, 0x249f, 0x2500, 0x2502, 0x2504, 0x2bc0, 0x2501],
    [0x2503, 0x2505, 0x2bc1, 0x2bc2, 0x2bc3, 0x2bc4, 0x2bc5, 0x2bc6, 0x2bc7, 0x2580, 0x2582, 0x2584, 0x2bc8, 0x2581, 0x2583]]"

definition unicode_comp_table_8 :: "u16 list" where
  "unicode_comp_table_8 = concat [
    [0x2585, 0x2bc9, 0x2bca, 0x2bcb, 0x2bcc, 0x2bcd, 0x2bce, 0x2bcf, 0x2600, 0x2602, 0x2601, 0x2603, 0x2680, 0x2682, 0x2681],
    [0x2683, 0x26c2, 0x26c4, 0x26c6, 0x2c00, 0x26c3, 0x26c5, 0x26c7, 0x2c01, 0x2c02, 0x2c03, 0x2c04, 0x2c05, 0x2c06, 0x2c07],
    [0x26ca, 0x26cc, 0x26ce, 0x2c08, 0x26cb, 0x26cd, 0x26cf, 0x2c09, 0x2c0a, 0x2c0b, 0x2c0c, 0x2c0d, 0x2c0e, 0x2c0f, 0x26d2],
    [0x26d4, 0x26d6, 0x26d3, 0x26d5, 0x26d7, 0x26da, 0x26dc, 0x26de, 0x26db, 0x26dd, 0x26df, 0x2700, 0x2702, 0x2701, 0x2703],
    [0x2780, 0x2782, 0x2781, 0x2783, 0x2800, 0x2802, 0x2804, 0x2801, 0x2803, 0x2805, 0x2842, 0x2844, 0x2846, 0x2849, 0x284b],
    [0x284d, 0x2c40, 0x284a, 0x284c, 0x284e, 0x2c41, 0x2c42, 0x2c43, 0x2c44, 0x2c45, 0x2c46, 0x2c47, 0x2851, 0x2853, 0x2855]]"

definition unicode_comp_table_9 :: "u16 list" where
  "unicode_comp_table_9 = concat [
    [0x2c48, 0x2852, 0x2854, 0x2856, 0x2c49, 0x2c4a, 0x2c4b, 0x2c4c, 0x2c4d, 0x2c4e, 0x2c4f, 0x2c82, 0x2e01, 0x3180, 0x2c87],
    [0x2f01, 0x2f02, 0x2f03, 0x2e06, 0x3185, 0x3000, 0x3001, 0x3002, 0x4640, 0x4641, 0x4680, 0x46c0, 0x46c2, 0x46c1, 0x4700],
    [0x4740, 0x4780, 0x47c0, 0x47c2, 0x4900, 0x4940, 0x4980, 0x4982, 0x4a00, 0x49c2, 0x4a03, 0x4a04, 0x4a40, 0x4a41, 0x4a80],
    [0x4a81, 0x4ac0, 0x4ac1, 0x4bc0, 0x4bc1, 0x4b00, 0x4b01, 0x4b40, 0x4b41, 0x4bc2, 0x4bc3, 0x4b80, 0x4b81, 0x4b82, 0x4b83],
    [0x4c00, 0x4c01, 0x4c02, 0x4c03, 0x5600, 0x5440, 0x5442, 0x5444, 0x5446, 0x5448, 0x544a, 0x544c, 0x544e, 0x5450, 0x5452],
    [0x5454, 0x5456, 0x5480, 0x5482, 0x5484, 0x54c0, 0x54c1, 0x5500, 0x5501, 0x5540, 0x5541, 0x5580, 0x5581, 0x55c0, 0x55c1]]"

definition unicode_comp_table_10 :: "u16 list" where
  "unicode_comp_table_10 = concat [
    [0x5680, 0x58c0, 0x5700, 0x5702, 0x5704, 0x5706, 0x5708, 0x570a, 0x570c, 0x570e, 0x5710, 0x5712, 0x5714, 0x5716, 0x5740],
    [0x5742, 0x5744, 0x5780, 0x5781, 0x57c0, 0x57c1, 0x5800, 0x5801, 0x5840, 0x5841, 0x5880, 0x5881, 0x5900, 0x5901, 0x5902],
    [0x5903, 0x5940, 0x8f40, 0x8f42, 0x8f80, 0x8fc0, 0x8fc1, 0x9000, 0x9001, 0x9041, 0x9040, 0x9043, 0x9080, 0x9081, 0x90c0]]"

definition unicode_comp_table :: "u16 list" where
  "unicode_comp_table = concat [
    unicode_comp_table_0, unicode_comp_table_1, unicode_comp_table_2, unicode_comp_table_3,
    unicode_comp_table_4, unicode_comp_table_5, unicode_comp_table_6, unicode_comp_table_7,
    unicode_comp_table_8, unicode_comp_table_9, unicode_comp_table_10]"

end
