(* ===== verification/UnicodeDecomp.thy ===== *)
theory UnicodeDecomp
  imports UnicodeDecompTable RunSearch
begin

text \<open>
  Decomposition of characters (\<^verbatim>\<open>unicode_decomp_entry\<close>, \<^verbatim>\<open>unicode_decomp_char\<close> of \<^verbatim>\<open>libunicode.c\<close>).
  Code points are integers with the wrap-around of \<^verbatim>\<open>uint32_t\<close> written out (\<open>u32i\<close>); the tables are
  read through \<open>rd\<close>, which fails outside them.
\<close>

definition u32i :: "int \<Rightarrow> int" where
  "u32i x = x mod 2 ^ 32"

definition rd8 :: "u8 list \<Rightarrow> int \<Rightarrow> int option" where
  "rd8 m p = (if p < 0 then None else map_option uint (rd m (nat p)))"

section \<open>Decomposition types\<close>

definition DECOMP_TYPE_C1 :: int where "DECOMP_TYPE_C1 = 0"
definition DECOMP_TYPE_L1 :: int where "DECOMP_TYPE_L1 = 1"
definition DECOMP_TYPE_L7 :: int where "DECOMP_TYPE_L7 = 7"
definition DECOMP_TYPE_LL1 :: int where "DECOMP_TYPE_LL1 = 8"
definition DECOMP_TYPE_LL2 :: int where "DECOMP_TYPE_LL2 = 9"
definition DECOMP_TYPE_S1 :: int where "DECOMP_TYPE_S1 = 10"
definition DECOMP_TYPE_S5 :: int where "DECOMP_TYPE_S5 = 14"
definition DECOMP_TYPE_I1 :: int where "DECOMP_TYPE_I1 = 15"
definition DECOMP_TYPE_I2_0 :: int where "DECOMP_TYPE_I2_0 = 16"
definition DECOMP_TYPE_I4_2 :: int where "DECOMP_TYPE_I4_2 = 21"
definition DECOMP_TYPE_B1 :: int where "DECOMP_TYPE_B1 = 22"
definition DECOMP_TYPE_B8 :: int where "DECOMP_TYPE_B8 = 29"
definition DECOMP_TYPE_B18 :: int where "DECOMP_TYPE_B18 = 30"
definition DECOMP_TYPE_LS2 :: int where "DECOMP_TYPE_LS2 = 31"
definition DECOMP_TYPE_PAT3 :: int where "DECOMP_TYPE_PAT3 = 32"
definition DECOMP_TYPE_S2_UL :: int where "DECOMP_TYPE_S2_UL = 33"
definition DECOMP_TYPE_LS2_UL :: int where "DECOMP_TYPE_LS2_UL = 34"

lemmas decomp_type_defs = DECOMP_TYPE_C1_def DECOMP_TYPE_L1_def DECOMP_TYPE_L7_def DECOMP_TYPE_LL1_def
  DECOMP_TYPE_LL2_def DECOMP_TYPE_S1_def DECOMP_TYPE_S5_def DECOMP_TYPE_I1_def DECOMP_TYPE_I2_0_def
  DECOMP_TYPE_I4_2_def DECOMP_TYPE_B1_def DECOMP_TYPE_B8_def DECOMP_TYPE_B18_def DECOMP_TYPE_LS2_def
  DECOMP_TYPE_PAT3_def DECOMP_TYPE_S2_UL_def DECOMP_TYPE_LS2_UL_def

section \<open>One entry of the table\<close>

definition unicode_get_short_code :: "int \<Rightarrow> int option" where
  "unicode_get_short_code c =
     (if c < 0x80 then Some c
      else if c < 0x80 + 0x50 then Some (c - 0x80 + 0x300)
      else rd [0x2044, 0x2215] (nat (c - 0x80 - 0x50)))"

definition unicode_get_lower_simple :: "int \<Rightarrow> int" where
  "unicode_get_lower_simple c =
     (if c < 0x100 \<or> (c \<ge> 0x410 \<and> c \<le> 0x42f) then u32i (c + 0x20) else u32i (c + 1))"

definition unicode_get16 :: "u8 list \<Rightarrow> int \<Rightarrow> int option" where
  "unicode_get16 m p = do { a \<leftarrow> rd8 m p; b \<leftarrow> rd8 m (p + 1); Some (a + b * 256) }"

text \<open>The loops that store code points.  \<open>ws\<close> are the values stored in \<^verbatim>\<open>res\<close> so far, so that
  \<open>length ws\<close> is the loop counter; the result is the value returned and what was stored.\<close>

fun store_until_0 :: "(int \<Rightarrow> int option) \<Rightarrow> int \<Rightarrow> nat \<Rightarrow> int \<Rightarrow> int list \<Rightarrow> (int \<times> int list) option" where
  "store_until_0 f l 0 i ws = Some (l, ws)"
| "store_until_0 f l (Suc k) i ws =
     do { v \<leftarrow> f i;
          if v = 0 then Some (0, ws @ [v]) else store_until_0 f l k (i + 1) (ws @ [v]) }"

fun store_before_0 :: "(int \<Rightarrow> int option) \<Rightarrow> int \<Rightarrow> nat \<Rightarrow> int \<Rightarrow> int list \<Rightarrow> (int \<times> int list) option" where
  "store_before_0 f l 0 i ws = Some (l, ws)"
| "store_before_0 f l (Suc k) i ws =
     do { v \<leftarrow> f i;
          if v = 0 then Some (0, ws) else store_before_0 f l k (i + 1) (ws @ [v]) }"

fun store_all :: "(int \<Rightarrow> int option) \<Rightarrow> int \<Rightarrow> nat \<Rightarrow> int \<Rightarrow> int list \<Rightarrow> (int \<times> int list) option" where
  "store_all f l 0 i ws = Some (l, ws)"
| "store_all f l (Suc k) i ws = do { v \<leftarrow> f i; store_all f l k (i + 1) (ws @ [v]) }"

text \<open>The \<^verbatim>\<open>switch\<close> on the type, \<open>d\<close> being the position in the data.  \<open>kc\<close> is \<^verbatim>\<open>c - code\<close>.\<close>

definition decomp_switch :: "u8 list \<Rightarrow> int \<Rightarrow> int \<Rightarrow> int \<Rightarrow> int \<Rightarrow> (int \<times> int list) option" where
  "decomp_switch m d kc len ty =
     (if DECOMP_TYPE_L1 \<le> ty \<and> ty \<le> DECOMP_TYPE_L7 then
        let l = ty - DECOMP_TYPE_L1 + 1;
            d = d + u32i (kc * l * 2)
        in store_until_0 (\<lambda>i. unicode_get16 m (d + 2 * i)) l (nat l) 0 []
      else if DECOMP_TYPE_LL1 \<le> ty \<and> ty \<le> DECOMP_TYPE_LL2 then
        let l = ty - DECOMP_TYPE_LL1 + 1;
            k = u32i (kc * l);
            p = u32i (len * l * 2)
        in store_before_0 (\<lambda>i. do { lo \<leftarrow> unicode_get16 m (d + u32i (2 * u32i (k + i)));
                                   b \<leftarrow> rd8 m (d + u32i (p + u32i (k + i) div 4));
                                   Some (lo + (b div 2 ^ nat ((u32i (k + i) mod 4) * 2)) mod 4 * 2 ^ 16) }) l (nat l) 0 []
      else if DECOMP_TYPE_S1 \<le> ty \<and> ty \<le> DECOMP_TYPE_S5 then
        let l = ty - DECOMP_TYPE_S1 + 1;
            d = d + u32i (kc * l)
        in store_until_0 (\<lambda>i. do { b \<leftarrow> rd8 m (d + i); unicode_get_short_code b }) l (nat l) 0 []
      else if DECOMP_TYPE_I1 \<le> ty \<and> ty \<le> DECOMP_TYPE_I4_2 then
        let l = (if ty = DECOMP_TYPE_I1 then 1 else 2 + (ty - DECOMP_TYPE_I2_0) div 2);
            p = (if ty = DECOMP_TYPE_I1 then 0 else (ty - DECOMP_TYPE_I2_0) mod 2 + of_bool (l > 2))
        in store_all (\<lambda>i. do { c1 \<leftarrow> unicode_get16 m (d + 2 * i);
                              Some (if i = p then u32i (c1 + kc) else c1) }) l (nat l) 0 []
      else if DECOMP_TYPE_B1 \<le> ty \<and> ty \<le> DECOMP_TYPE_B18 then
        let l = (if ty = DECOMP_TYPE_B18 then 18 else ty - DECOMP_TYPE_B1 + 1)
        in do { c_min \<leftarrow> unicode_get16 m d;
                let d = d + u32i (2 + kc * l);
                store_all (\<lambda>i. do { c1 \<leftarrow> rd8 m (d + i);
                                   Some (if c1 = 0xff then 0x20 else c1 + c_min) }) l (nat l) 0 [] }
      else if ty = DECOMP_TYPE_LS2 then
        let d = d + u32i (kc * 3)
        in do { c0 \<leftarrow> unicode_get16 m d;
                if c0 = 0 then Some (0, [c0])
                else do { b \<leftarrow> rd8 m (d + 2); c1 \<leftarrow> unicode_get_short_code b; Some (2, [c0, c1]) } }
      else if ty = DECOMP_TYPE_PAT3 then
        do { c0 \<leftarrow> unicode_get16 m d;
             c2 \<leftarrow> unicode_get16 m (d + 2);
             let d = d + u32i (4 + kc * 2);
             c1 \<leftarrow> unicode_get16 m d;
             Some (3, [c0, c1, c2]) }
      else if ty = DECOMP_TYPE_S2_UL \<or> ty = DECOMP_TYPE_LS2_UL then
        do { (c, d) \<leftarrow>
               (if ty = DECOMP_TYPE_S2_UL then
                  let d = d + (kc - kc mod 2)
                  in do { b \<leftarrow> rd8 m d; c \<leftarrow> unicode_get_short_code b; Some (c, d + 1) }
                else
                  let d = d + u32i (kc div 2 * 3)
                  in do { c \<leftarrow> unicode_get16 m d; Some (c, d + 2) });
             let c = (if kc mod 2 = 1 then unicode_get_lower_simple c else c);
             b \<leftarrow> rd8 m d;
             c1 \<leftarrow> unicode_get_short_code b;
             Some (2, [c, c1]) }
      else Some (0, []))"

definition unicode_decomp_entry :: "int \<Rightarrow> nat \<Rightarrow> int \<Rightarrow> int \<Rightarrow> int \<Rightarrow> (int \<times> int list) option" where
  "unicode_decomp_entry c idx code len ty =
     do { t \<leftarrow> rd unicode_decomp_table2 idx;
          if ty = DECOMP_TYPE_C1 then Some (1, [uint t])
          else decomp_switch unicode_decomp_data (uint t) (u32i (c - code)) len ty }"

section \<open>Searching the table\<close>

definition decomp_code :: "u32 \<Rightarrow> int" where
  "decomp_code v = uint v div 2 ^ (32 - 18)"

definition decomp_len :: "u32 \<Rightarrow> int" where
  "decomp_len v = uint v div 2 ^ (32 - 18 - 7) mod 2 ^ 7"

definition decomp_type :: "u32 \<Rightarrow> int" where
  "decomp_type v = uint v div 2 ^ (32 - 18 - 7 - 6) mod 2 ^ 6"

definition decomp_compat :: "u32 \<Rightarrow> int" where
  "decomp_compat v = uint v mod 2"

text \<open>The binary search; \<open>code + len\<close> cannot wrap around.\<close>

function decomp_find :: "u32 list \<Rightarrow> int \<Rightarrow> int \<Rightarrow> int \<Rightarrow> nat option option" where
  "decomp_find tab c idx_min idx_max =
     (if idx_min \<le> idx_max then
        do { let idx = (idx_max + idx_min) div 2;
             v \<leftarrow> (if idx < 0 then None else rd tab (nat idx));
             let code = decomp_code v;
             let len = decomp_len v;
             if c < code then decomp_find tab c idx_min (idx - 1)
             else if c \<ge> code + len then decomp_find tab c (idx + 1) idx_max
             else Some (Some (nat idx)) }
      else Some None)"
  by pat_completeness auto
termination
  by (relation "measure (\<lambda>(tab, c, idx_min, idx_max). nat (idx_max - idx_min + 1))") auto

declare decomp_find.simps [simp del]

text \<open>\<^verbatim>\<open>res\<close> has room for \<^verbatim>\<open>UNICODE_DECOMP_LEN_MAX\<close> code points.\<close>

definition UNICODE_DECOMP_LEN_MAX :: nat where
  "UNICODE_DECOMP_LEN_MAX = 18"

definition unicode_decomp_char :: "int \<Rightarrow> bool \<Rightarrow> (int \<times> int list) option" where
  "unicode_decomp_char c is_compat1 =
     do { r \<leftarrow> decomp_find unicode_decomp_table1 c 0 (int (length unicode_decomp_table1) - 1);
          case r of
            None \<Rightarrow> Some (0, [])
          | Some idx \<Rightarrow>
              do { v \<leftarrow> rd unicode_decomp_table1 idx;
                   if of_bool is_compat1 < decomp_compat v then Some (0, [])
                   else do { (n, ws) \<leftarrow> unicode_decomp_entry c idx (decomp_code v) (decomp_len v) (decomp_type v);
                             c_assert (length ws \<le> UNICODE_DECOMP_LEN_MAX);
                             Some (n, ws) } } }"

interpretation decomp_runs: run_search decomp_code decomp_len decomp_find
proof
  show "decomp_code v \<le> decomp_code v + decomp_len v" for v by (simp add: decomp_len_def)
qed (subst decomp_find.simps, rule refl)

section \<open>Reading a part of the data\<close>

definition part_of :: "u8 list \<Rightarrow> int \<Rightarrow> u8 list \<Rightarrow> bool" where
  "part_of m off m' \<longleftrightarrow> (\<forall>p x. rd8 m p = Some x \<longrightarrow> rd8 m' (off + p) = Some x)"

lemma part_ofI: "m' = pre @ m @ post \<Longrightarrow> int (length pre) = off \<Longrightarrow> part_of m off m'"
  by (auto simp: part_of_def rd8_def rd_def nth_append nat_add_distrib split: if_splits)

lemma part_of_trans: "part_of m a m' \<Longrightarrow> part_of m' b m'' \<Longrightarrow> part_of m (b + a) m''"
  by (simp add: part_of_def add.assoc)

lemma part_of_drop: "0 \<le> n \<Longrightarrow> part_of (drop (nat n) m) n m"
  by (auto simp: part_of_def rd8_def rd_def nat_add_distrib split: if_splits)

lemma part_of_take: "part_of (take n m) 0 m"
  by (auto simp: part_of_def rd8_def rd_def split: if_splits)

lemma rd8_part: "part_of m off m' \<Longrightarrow> rd8 m p = Some x \<Longrightarrow> rd8 m' (off + p) = Some x"
  by (simp add: part_of_def)

lemma get16_part: "part_of m off m' \<Longrightarrow> unicode_get16 m p = Some x \<Longrightarrow> unicode_get16 m' (off + p) = Some x"
  by (auto simp: unicode_get16_def bind_eq_Some_conv add.assoc dest: rd8_part)

lemma store_until_0_mono:
  "(\<And>i x. f i = Some x \<Longrightarrow> g i = Some x) \<Longrightarrow> store_until_0 f l k i ws = Some r \<Longrightarrow> store_until_0 g l k i ws = Some r"
  by (induction k arbitrary: i ws) (auto simp: bind_eq_Some_conv split: if_splits)

lemma store_before_0_mono:
  "(\<And>i x. f i = Some x \<Longrightarrow> g i = Some x) \<Longrightarrow> store_before_0 f l k i ws = Some r \<Longrightarrow> store_before_0 g l k i ws = Some r"
  by (induction k arbitrary: i ws) (auto simp: bind_eq_Some_conv split: if_splits)

lemma store_all_mono:
  "(\<And>i x. f i = Some x \<Longrightarrow> g i = Some x) \<Longrightarrow> store_all f l k i ws = Some r \<Longrightarrow> store_all g l k i ws = Some r"
  by (induction k arbitrary: i ws) (auto simp: bind_eq_Some_conv)

lemma bind_mono: "a \<bind> f = Some r \<Longrightarrow> (\<And>x. a = Some x \<Longrightarrow> b = Some x) \<Longrightarrow> (\<And>x. f x = Some r \<Longrightarrow> g x = Some r) \<Longrightarrow> b \<bind> g = Some r"
  by (cases a) auto

lemma decomp_switch_part:
  assumes part: "part_of m off m'" and eq: "decomp_switch m d kc len ty = Some r"
  shows "decomp_switch m' (off + d) kc len ty = Some r"
proof -
  note part_rules = get16_part [OF part] rd8_part [OF part]
  note split = decomp_switch_def Let_def if_True if_False add.assoc
  note mono = store_until_0_mono store_before_0_mono store_all_mono
  consider (L) "DECOMP_TYPE_L1 \<le> ty \<and> ty \<le> DECOMP_TYPE_L7"
    | (LL) "\<not> (DECOMP_TYPE_L1 \<le> ty \<and> ty \<le> DECOMP_TYPE_L7)" "DECOMP_TYPE_LL1 \<le> ty \<and> ty \<le> DECOMP_TYPE_LL2"
    | (S) "\<not> (DECOMP_TYPE_L1 \<le> ty \<and> ty \<le> DECOMP_TYPE_L7)" "\<not> (DECOMP_TYPE_LL1 \<le> ty \<and> ty \<le> DECOMP_TYPE_LL2)"
        "DECOMP_TYPE_S1 \<le> ty \<and> ty \<le> DECOMP_TYPE_S5"
    | (I) "\<not> (DECOMP_TYPE_L1 \<le> ty \<and> ty \<le> DECOMP_TYPE_L7)" "\<not> (DECOMP_TYPE_LL1 \<le> ty \<and> ty \<le> DECOMP_TYPE_LL2)"
        "\<not> (DECOMP_TYPE_S1 \<le> ty \<and> ty \<le> DECOMP_TYPE_S5)" "DECOMP_TYPE_I1 \<le> ty \<and> ty \<le> DECOMP_TYPE_I4_2"
    | (B) "\<not> (DECOMP_TYPE_L1 \<le> ty \<and> ty \<le> DECOMP_TYPE_L7)" "\<not> (DECOMP_TYPE_LL1 \<le> ty \<and> ty \<le> DECOMP_TYPE_LL2)"
        "\<not> (DECOMP_TYPE_S1 \<le> ty \<and> ty \<le> DECOMP_TYPE_S5)" "\<not> (DECOMP_TYPE_I1 \<le> ty \<and> ty \<le> DECOMP_TYPE_I4_2)"
        "DECOMP_TYPE_B1 \<le> ty \<and> ty \<le> DECOMP_TYPE_B18"
    | (rest) "\<not> (DECOMP_TYPE_L1 \<le> ty \<and> ty \<le> DECOMP_TYPE_L7)" "\<not> (DECOMP_TYPE_LL1 \<le> ty \<and> ty \<le> DECOMP_TYPE_LL2)"
        "\<not> (DECOMP_TYPE_S1 \<le> ty \<and> ty \<le> DECOMP_TYPE_S5)" "\<not> (DECOMP_TYPE_I1 \<le> ty \<and> ty \<le> DECOMP_TYPE_I4_2)"
        "\<not> (DECOMP_TYPE_B1 \<le> ty \<and> ty \<le> DECOMP_TYPE_B18)" by argo
  then show ?thesis
  proof cases
    case L
    show ?thesis using eq unfolding split if_P [OF L]
      by - (erule store_until_0_mono [rotated], rule part_rules, assumption)
  next
    case LL
    show ?thesis using eq unfolding split if_not_P [OF LL(1)] if_P [OF LL(2)]
      by - (erule store_before_0_mono [rotated], erule bind_mono, rule part_rules, assumption,
          erule bind_mono, rule part_rules, assumption, assumption)
  next
    case S
    show ?thesis using eq unfolding split if_not_P [OF S(1)] if_not_P [OF S(2)] if_P [OF S(3)]
      by - (erule store_until_0_mono [rotated], erule bind_mono, rule part_rules, assumption, assumption)
  next
    case I
    show ?thesis using eq unfolding split if_not_P [OF I(1)] if_not_P [OF I(2)] if_not_P [OF I(3)] if_P [OF I(4)]
      by - (erule store_all_mono [rotated], erule bind_mono, rule part_rules, assumption, assumption)
  next
    case B
    show ?thesis using eq unfolding split if_not_P [OF B(1)] if_not_P [OF B(2)] if_not_P [OF B(3)] if_not_P [OF B(4)] if_P [OF B(5)]
      by - (erule bind_mono, rule part_rules, assumption, erule store_all_mono [rotated],
          erule bind_mono, rule part_rules, assumption, assumption)
  next
    case rest
    show ?thesis using eq unfolding split if_not_P [OF rest(1)] if_not_P [OF rest(2)] if_not_P [OF rest(3)] if_not_P [OF rest(4)] if_not_P [OF rest(5)]
      by (cases "kc mod 2 = 1") (auto simp: bind_eq_Some_conv dest!: part_rules split: if_splits)
  qed
qed

end
