(* ===== verification/UnicodeDecompCheck.thy ===== *)
theory UnicodeDecompCheck
  imports UnicodeDecomp
begin

text \<open>
  What the decomposition tables contain, established by evaluating \<^verbatim>\<open>unicode_decomp_entry\<close> on every
  character of every run: no access outside the data, at most 18 code points, and every code point
  of a decomposition either has a smaller rank or lies in a gap of the table, which makes repeated
  decomposition end.  The evaluation proceeds by blocks of the tables.
\<close>

section \<open>Rank and gaps\<close>

text \<open>Nearly all decompositions lead to smaller code points or to characters without
  decomposition; the exceptions get a larger rank.\<close>

definition decomp_rank :: "int \<Rightarrow> int" where
  "decomp_rank c =
     (if c < 0x1e0 then c
      else if c = 0x1e0 then 0x305
      else if c = 0x1e1 then 0x305
      else if c = 0x390 then 0x3cb
      else if c = 0x3b0 then 0x3cc
      else if c = 0xf77 then 0xfb3
      else if c = 0xf79 then 0xfb4
      else if c = 0x1fdd then 0x1fff
      else if c = 0x1fde then 0x1fff
      else if c = 0x1fdf then 0x1fff
      else if c = 0x2000 then 0x2003
      else if c = 0x2001 then 0x2004
      else if c = 0xfb2c then 0xfb4a
      else if c = 0xfb2d then 0xfb4a
      else c)"


definition decomp_gaps :: "(int \<times> int) list" where
  "decomp_gaps =
    [(0x234, 0x2b0), (0x2b9, 0x2d8), (0x2e5, 0x340), (0x391, 0x3aa), (0x3b1, 0x3ca), (0x40f, 0x419),
     (0x41a, 0x439), (0x627, 0x675), (0x6c3, 0x6d3), (0x6d4, 0x929), (0x935, 0x958), (0x9cd, 0x9dc),
     (0xa37, 0xa59), (0xb4d, 0xb5c), (0xbcd, 0xc48), (0xc49, 0xcc0), (0xccc, 0xd4a), (0xd4d, 0xdda),
     (0xddf, 0xe33), (0xe34, 0xeb3), (0xeb4, 0xedc), (0xf7a, 0xf81), (0xfad, 0xfb9), (0x1027, 0x10fc),
     (0x1100, 0x1200), (0x1b13, 0x1b3b), (0x203f, 0x2047), (0x21d0, 0x2204), (0x220d, 0x2224), (0x2add, 0x2c7c),
     (0x3001, 0x3036), (0x3095, 0x309b), (0x3400, 0xa69c), (0xac00, 0xd7a4), (0x110ac, 0x1112e), (0x11130, 0x1134b),
     (0x1134d, 0x114bb), (0x1d165, 0x1d1bb), (0x1d800, 0x1ee00), (0x1fbfa, 0x2f800)]"

fun in_spans :: "int \<Rightarrow> (int \<times> int) list \<Rightarrow> bool" where
  "in_spans x [] = False"
| "in_spans x ((a, b) # ss) = (if x < a then in_spans x ss else if x < b then True else in_spans x ss)"

definition decomp_below :: "int \<Rightarrow> int \<Rightarrow> bool" where
  "decomp_below x c \<longleftrightarrow> 0 \<le> x \<and> (if decomp_rank x < decomp_rank c then True else in_spans x decomp_gaps)"

section \<open>Checking a block\<close>

text \<open>The number of bytes a run of \<open>len\<close> characters of type \<open>ty\<close> refers to.\<close>

definition decomp_extent :: "int \<Rightarrow> int \<Rightarrow> int" where
  "decomp_extent len ty =
     (if ty \<le> 7 then len * ty * 2
      else if ty \<le> 9 then len * (ty - 7) * 2 + (len * (ty - 7) + 3) div 4
      else if ty \<le> 14 then len * (ty - 9)
      else if ty \<le> 21 then 2 * (if ty = 15 then 1 else 2 + (ty - 16) div 2)
      else if ty \<le> 30 then 2 + len * (if ty = 30 then 18 else ty - 21)
      else if ty = 31 then len * 3
      else if ty = 32 then 4 + len * 2
      else if ty = 33 then len
      else len div 2 * 3)"

text \<open>The result for character \<open>code + k\<close> of a run: \<open>hs\<close> are the characters that the composition
  table names, which must be canonical pairs.\<close>

definition decomp_result_ok :: "u32 \<Rightarrow> (int \<times> int) list \<Rightarrow> int \<Rightarrow> (int \<times> int list) option \<Rightarrow> bool" where
  "decomp_result_ok v hs k res =
     (case res of
        None \<Rightarrow> False
      | Some (n, ws) \<Rightarrow>
          (if n = 0 then length ws \<le> 18 \<and> \<not> in_spans k hs
           else n = int (length ws) \<and> n \<le> 18 \<and> list_all (\<lambda>x. decomp_below x (decomp_code v + k)) ws \<and>
             (if in_spans k hs
              then n = 2 \<and> decomp_compat v = 0 \<and> (if decomp_code v + k = 0x344 then ws = [0x308, 0x301] else True) else True)))"

definition decomp_run_ok :: "u32 \<Rightarrow> (int \<times> int) list \<Rightarrow> (int \<Rightarrow> (int \<times> int list) option) \<Rightarrow> bool" where
  "decomp_run_ok v hs f \<longleftrightarrow>
     list_all (\<lambda>(a, b). 0 \<le> a \<and> b \<le> decomp_len v) hs \<and>
     list_all (\<lambda>k. decomp_result_ok v hs k (f k)) [0..decomp_len v - 1]"

fun decomp_walk :: "u32 list \<Rightarrow> u16 list \<Rightarrow> (int \<times> int) list list \<Rightarrow> u8 list \<Rightarrow> int \<Rightarrow> bool" where
  "decomp_walk (v # vs) (t # ts) (hs # hss) ds pos \<longleftrightarrow>
     (if decomp_type v = 0
      then decomp_run_ok v hs (\<lambda>k. Some (1, [uint t])) \<and> decomp_walk vs ts hss ds pos
      else if uint t < pos then False
      else (let ds = drop (nat (uint t - pos)) ds;
                sl = take (nat (decomp_extent (decomp_len v) (decomp_type v))) ds
            in decomp_run_ok v hs (\<lambda>k. decomp_switch sl 0 k (decomp_len v) (decomp_type v)) \<and>
               decomp_walk vs ts hss ds (uint t)))"
| "decomp_walk [] [] [] ds pos \<longleftrightarrow> True"
| "decomp_walk _ _ _ ds pos \<longleftrightarrow> False"

definition decomp_block :: "u32 list \<Rightarrow> u16 list \<Rightarrow> (int \<times> int) list list \<Rightarrow> u8 list \<Rightarrow> int \<Rightarrow> int \<Rightarrow> int \<Rightarrow> bool" where
  "decomp_block vs ts hss ds pos sz n \<longleftrightarrow>
     decomp_walk vs ts hss ds pos \<and> int (length ds) = sz \<and> int (length vs) = n"

definition pair_spans_0 :: "(int \<times> int) list list" where
  "pair_spans_0 = concat [
    [[], [], [], [], [], [], [], []],
    [[], [], [(0, 6), (7, 16), (17, 23), (25, 30), (32, 38), (39, 48), (49, 55), (57, 62), (63, 64)], [(0, 16)], [(0, 20)], [(0, 8)], [(0, 1)], []],
    [[(0, 4)], [(0, 6)], [], [(0, 6)], [], [(0, 6)], [(0, 18)], [(0, 16)]]]"

definition pair_spans_1 :: "(int \<times> int) list list" where
  "pair_spans_1 = concat [
    [[(0, 1)], [(0, 6)], [], [(0, 2)], [(0, 2)], [], [], [(0, 16)]],
    [[(0, 6)], [(0, 6)], [(0, 5)], [], [(0, 2)], [(0, 8)], [(0, 28)], [(0, 2)]],
    [[(0, 14)], [], [], [], [], [(0, 1)], [], []],
    [[], [], [(0, 2)], [], [(0, 3), (4, 5), (6, 9)], [(0, 7)]]]"

definition pair_spans_2 :: "(int \<times> int) list list" where
  "pair_spans_2 = concat [
    [[(0, 5)], [], [(0, 2)], [], [], [], [(0, 2), (3, 4)], [(0, 1)]],
    [[(0, 3)], [(0, 1)], [(0, 1)], [(0, 2), (3, 4)], [(0, 1)], [(0, 3)], [(0, 2)], [(0, 2)]],
    [[(0, 4)], [(0, 2)], [(0, 6)], [(0, 6)], [(0, 12)], [(0, 2)], [], [(0, 5)]],
    [[], [(0, 1), (2, 3)], [(0, 1)], [(0, 1)], [(0, 1)], [(0, 1)], [], [(0, 2)]],
    [[], [], [], []]]"

definition pair_spans_3 :: "(int \<times> int) list list" where
  "pair_spans_3 = concat [
    [[], [], [(0, 1)], [(0, 2)], [], [(0, 1)], [(0, 3)], [(0, 1)]],
    [[(0, 1)], [(0, 2)], [(0, 2)], [(0, 3)], [(0, 1)], [(0, 3)], [], []],
    [[], [], [], [], [], [], [], []],
    [[(0, 1)], [(0, 1)], [], [], [], [(0, 1)], [], []],
    [[], [], [], []]]"

definition pair_spans_4 :: "(int \<times> int) list list" where
  "pair_spans_4 = concat [
    [[(0, 1)], [], [(0, 1), (2, 3), (4, 5), (6, 7), (8, 9)], [(0, 1)], [(0, 1), (2, 3)], [(0, 2)], [(0, 1)], []],
    [[], [], [], [], [(0, 58)]]]"

definition pair_spans_5 :: "(int \<times> int) list list" where
  "pair_spans_5 = concat [
    [[(0, 18)], [(0, 48)], [(0, 26)], [(0, 4)], [], [(0, 1)], [(0, 26)], [(0, 64)]]]"

definition pair_spans_6 :: "(int \<times> int) list list" where
  "pair_spans_6 = concat [
    [[(0, 2)], [(0, 6)], [(0, 2)], [(0, 6)], [(0, 2)], [(0, 4)], [(0, 2)], [(0, 4)]],
    [[(0, 34)], [(0, 4)], [(0, 2)], [(0, 4)], [(0, 2)], [(0, 6)], [(0, 1), (2, 3), (4, 5), (6, 24)], []],
    [[(0, 1)]]]"

definition pair_spans_7 :: "(int \<times> int) list list" where
  "pair_spans_7 = concat [
    [[], [(0, 1)], [], [(0, 1)], [], [(0, 1)], [], [(0, 1)]],
    [[], [(0, 1)], [], [(0, 16)], [(0, 16)], [(0, 16)], [(0, 5), (6, 11)], []],
    [[(0, 1)], [], [], [], [(0, 4), (5, 8)], [], [(0, 1)], []],
    [[(0, 7)], [], [(0, 5)], [], [(0, 6)], [], [(0, 7)], []],
    [[(0, 2)], [], [(0, 3), (4, 7)], []]]"

definition pair_spans_8 :: "(int \<times> int) list list" where
  "pair_spans_8 = concat [
    [[(0, 1)], [], [(0, 1)], [], [], [], [], []],
    [[], [], [], [], [], [], [], []],
    [[], [], [], [], [], [], [], []],
    [[], [], [], [], [], [], [], []],
    [[], [], [], []]]"

definition pair_spans_9 :: "(int \<times> int) list list" where
  "pair_spans_9 = concat [
    [[], [], [], [], [], [], [], []],
    [[], [], [], [], [], [], [], []],
    [[], [], [], [], [], [], [], []],
    [[], [], [], [], [], [], [], []],
    [[], [], [], []]]"

definition pair_spans_10 :: "(int \<times> int) list list" where
  "pair_spans_10 = concat [
    [[], [], [], [], [], [], [], []],
    [[], [(0, 2)], [(0, 1)], [(0, 3)], [(0, 1)], [(0, 1)], [(0, 1)], [(0, 1), (2, 3)]],
    [[], [], [], [], [(0, 1)], [(0, 1)], [(0, 1), (2, 3)], [(0, 1), (2, 3)]],
    [[(0, 5)], [(0, 2)], [(0, 2)], [(0, 2)], [(0, 2)], [(0, 2)], [(0, 4)], [(0, 4)]],
    [[(0, 4)], [], [], []]]"

definition pair_spans_11 :: "(int \<times> int) list list" where
  "pair_spans_11 = concat [
    [[], [], [], [], [], [], [], []],
    [[], [], [], [], [], [], [], []],
    [[], [], [], [], [], [], [], []]]"

definition pair_spans_12 :: "(int \<times> int) list list" where
  "pair_spans_12 = concat [
    [[], [], [], [], [], [(0, 1), (2, 3), (4, 5), (6, 7), (8, 9), (10, 11), (12, 13), (14, 15), (16, 17), (18, 19), (20, 21), (22, 23)], [(0, 1), (2, 3), (4, 5)]]]"

definition pair_spans_13 :: "(int \<times> int) list list" where
  "pair_spans_13 = concat [
    [[(0, 2)], [(0, 2)], [(0, 2)], [(0, 2)], [(0, 2)], [(0, 1)], [], [(0, 1)]],
    [[], [(0, 1), (2, 3), (4, 5), (6, 7), (8, 9), (10, 11), (12, 13), (14, 15), (16, 17), (18, 19), (20, 21), (22, 23)], [(0, 1), (2, 3), (4, 5)], [(0, 2)], [(0, 2)], [(0, 2)], [(0, 2)], [(0, 2)]],
    [[(0, 1)], [(0, 4)], [(0, 1)], [], [], [], [], []]]"

definition pair_spans_14 :: "(int \<times> int) list list" where
  "pair_spans_14 = concat [
    [[], [], [], [], [], [], [], []],
    [[], [], [], [], [], [], [], []],
    [[]]]"

definition pair_spans_15 :: "(int \<times> int) list list" where
  "pair_spans_15 = concat [
    [[], [], [], [], [], [], [], []],
    [[], [], [], [], [], [], [], []],
    [[], [], [], [], []]]"

definition pair_spans_16 :: "(int \<times> int) list list" where
  "pair_spans_16 = concat [
    [[], [], [], [], [], [], [], []],
    [[], [], [], [], [], [], [], []],
    [[], [], [], [], [], [], [], []],
    [[], [], [], [], [], [], [], []],
    [[], [], []]]"

definition pair_spans_17 :: "(int \<times> int) list list" where
  "pair_spans_17 = concat [
    [[], [], [], [], [], [], [], []],
    [[], [], [], [], [], [], [], []],
    [[], [], [], [], [], [], [], []],
    [[], [], [], [], [], [], [], []],
    [[], [], []]]"

definition pair_spans_18 :: "(int \<times> int) list list" where
  "pair_spans_18 = concat [
    [[], [], [], [], [], [], [], []],
    [[], [], [], [], [], [], [], []],
    [[], [], [], [], [], [], [], []],
    [[], [], [], [], []]]"

definition pair_spans_19 :: "(int \<times> int) list list" where
  "pair_spans_19 = concat [
    [[], [], [], [], [], [], [], []],
    [[], [], []]]"

definition pair_spans_20 :: "(int \<times> int) list list" where
  "pair_spans_20 = concat [
    [[]]]"

definition pair_spans_21 :: "(int \<times> int) list list" where
  "pair_spans_21 = concat [
    [[], [], []]]"

definition pair_spans_22 :: "(int \<times> int) list list" where
  "pair_spans_22 = concat [
    [[], [], [], [], [], [], [], []],
    [[], [], [], [], [], [], [], []],
    [[], []]]"

definition pair_spans_23 :: "(int \<times> int) list list" where
  "pair_spans_23 = concat [
    [[], [], [], [], [], []]]"

definition pair_spans_24 :: "(int \<times> int) list list" where
  "pair_spans_24 = concat [
    [[]]]"

definition pair_spans_25 :: "(int \<times> int) list list" where
  "pair_spans_25 = concat [
    [[], [], []]]"

definition pair_spans_26 :: "(int \<times> int) list list" where
  "pair_spans_26 = concat [
    [[], [], [], [], [], [], [], []]]"

definition pair_spans_27 :: "(int \<times> int) list list" where
  "pair_spans_27 = concat [
    [[], [], [], [], [], [], [], []],
    [[], []]]"

definition pair_spans_28 :: "(int \<times> int) list list" where
  "pair_spans_28 = concat [
    [[], [], [], [], [], [], [], []],
    [[], [], [], [], [(0, 1), (2, 3)], [(0, 1)]]]"

definition pair_spans_29 :: "(int \<times> int) list list" where
  "pair_spans_29 = concat [
    [[(0, 2)], [(0, 2)], [(0, 2), (3, 4)], [(0, 2)], [(0, 1)], [], [], []],
    [[], [], [], [], [], [], [], []],
    [[], [], [], [], [], [], [], []],
    [[], [], [], [], [], [], [], []],
    [[], [], [], []]]"

definition pair_spans_30 :: "(int \<times> int) list list" where
  "pair_spans_30 = concat [
    [[], [], [], [], [], [], [], []],
    [[], [], [], [], [], [], [], []],
    [[], [], [], [], [], [], [], []],
    [[], [], [], [], [], [], [], []],
    [[], [], [], []]]"

definition pair_spans_31 :: "(int \<times> int) list list" where
  "pair_spans_31 = concat [
    [[], [], [], [], [], [], [], []],
    [[], [], [], [], [], [], [], []],
    [[], []]]"

definition pair_spans_32 :: "(int \<times> int) list list" where
  "pair_spans_32 = concat [
    [[], [], [], [], [], [], [], []],
    [[], [], [], [], [], [], [], []],
    [[], [], [], [], []]]"

definition pair_spans_33 :: "(int \<times> int) list list" where
  "pair_spans_33 = concat [
    [[], []]]"

definition pair_spans_34 :: "(int \<times> int) list list" where
  "pair_spans_34 = concat [
    [[], [], []]]"

definition pair_spans_35 :: "(int \<times> int) list list" where
  "pair_spans_35 = concat [
    [[]]]"

definition pair_spans_36 :: "(int \<times> int) list list" where
  "pair_spans_36 = concat [
    [[]]]"

lemma decomp_block_0:
  "decomp_block unicode_decomp_table1_0 unicode_decomp_table2_0 pair_spans_0 unicode_decomp_data_0 0 264 24"
  by code_simp

lemma decomp_block_1:
  "decomp_block unicode_decomp_table1_1 unicode_decomp_table2_1 pair_spans_1 unicode_decomp_data_1 264 260 30"
  by code_simp

lemma decomp_block_2:
  "decomp_block unicode_decomp_table1_2 unicode_decomp_table2_2 pair_spans_2 unicode_decomp_data_2 524 241 36"
  by code_simp

lemma decomp_block_3:
  "decomp_block unicode_decomp_table1_3 unicode_decomp_table2_3 pair_spans_3 unicode_decomp_data_3 765 164 36"
  by code_simp

lemma decomp_block_4:
  "decomp_block unicode_decomp_table1_4 unicode_decomp_table2_4 pair_spans_4 unicode_decomp_data_4 929 335 13"
  by code_simp

lemma decomp_block_5:
  "decomp_block unicode_decomp_table1_5 unicode_decomp_table2_5 pair_spans_5 unicode_decomp_data_5 1264 266 8"
  by code_simp

lemma decomp_block_6:
  "decomp_block unicode_decomp_table1_6 unicode_decomp_table2_6 pair_spans_6 unicode_decomp_data_6 1530 252 17"
  by code_simp

lemma decomp_block_7:
  "decomp_block unicode_decomp_table1_7 unicode_decomp_table2_7 pair_spans_7 unicode_decomp_data_7 1782 194 36"
  by code_simp

lemma decomp_block_8:
  "decomp_block unicode_decomp_table1_8 unicode_decomp_table2_8 pair_spans_8 unicode_decomp_data_8 1976 141 36"
  by code_simp

lemma decomp_block_9:
  "decomp_block unicode_decomp_table1_9 unicode_decomp_table2_9 pair_spans_9 unicode_decomp_data_9 2117 130 36"
  by code_simp

lemma decomp_block_10:
  "decomp_block unicode_decomp_table1_10 unicode_decomp_table2_10 pair_spans_10 unicode_decomp_data_10 2247 161 36"
  by code_simp

lemma decomp_block_11:
  "decomp_block unicode_decomp_table1_11 unicode_decomp_table2_11 pair_spans_11 unicode_decomp_data_11 2408 301 24"
  by code_simp

lemma decomp_block_12:
  "decomp_block unicode_decomp_table1_12 unicode_decomp_table2_12 pair_spans_12 unicode_decomp_data_12 2709 268 7"
  by code_simp

lemma decomp_block_13:
  "decomp_block unicode_decomp_table1_13 unicode_decomp_table2_13 pair_spans_13 unicode_decomp_data_13 2977 255 24"
  by code_simp

lemma decomp_block_14:
  "decomp_block unicode_decomp_table1_14 unicode_decomp_table2_14 pair_spans_14 unicode_decomp_data_14 3232 253 17"
  by code_simp

lemma decomp_block_15:
  "decomp_block unicode_decomp_table1_15 unicode_decomp_table2_15 pair_spans_15 unicode_decomp_data_15 3485 255 21"
  by code_simp

lemma decomp_block_16:
  "decomp_block unicode_decomp_table1_16 unicode_decomp_table2_16 pair_spans_16 unicode_decomp_data_16 3740 258 35"
  by code_simp

lemma decomp_block_17:
  "decomp_block unicode_decomp_table1_17 unicode_decomp_table2_17 pair_spans_17 unicode_decomp_data_17 3998 259 35"
  by code_simp

lemma decomp_block_18:
  "decomp_block unicode_decomp_table1_18 unicode_decomp_table2_18 pair_spans_18 unicode_decomp_data_18 4257 251 29"
  by code_simp

lemma decomp_block_19:
  "decomp_block unicode_decomp_table1_19 unicode_decomp_table2_19 pair_spans_19 unicode_decomp_data_19 4508 370 11"
  by code_simp

lemma decomp_block_20:
  "decomp_block unicode_decomp_table1_20 unicode_decomp_table2_20 pair_spans_20 unicode_decomp_data_20 4878 254 1"
  by code_simp

lemma decomp_block_21:
  "decomp_block unicode_decomp_table1_21 unicode_decomp_table2_21 pair_spans_21 unicode_decomp_data_21 5132 327 3"
  by code_simp

lemma decomp_block_22:
  "decomp_block unicode_decomp_table1_22 unicode_decomp_table2_22 pair_spans_22 unicode_decomp_data_22 5459 271 18"
  by code_simp

lemma decomp_block_23:
  "decomp_block unicode_decomp_table1_23 unicode_decomp_table2_23 pair_spans_23 unicode_decomp_data_23 5730 277 6"
  by code_simp

lemma decomp_block_24:
  "decomp_block unicode_decomp_table1_24 unicode_decomp_table2_24 pair_spans_24 unicode_decomp_data_24 6007 256 1"
  by code_simp

lemma decomp_block_25:
  "decomp_block unicode_decomp_table1_25 unicode_decomp_table2_25 pair_spans_25 unicode_decomp_data_25 6263 348 3"
  by code_simp

lemma decomp_block_26:
  "decomp_block unicode_decomp_table1_26 unicode_decomp_table2_26 pair_spans_26 unicode_decomp_data_26 6611 263 8"
  by code_simp

lemma decomp_block_27:
  "decomp_block unicode_decomp_table1_27 unicode_decomp_table2_27 pair_spans_27 unicode_decomp_data_27 6874 257 10"
  by code_simp

lemma decomp_block_28:
  "decomp_block unicode_decomp_table1_28 unicode_decomp_table2_28 pair_spans_28 unicode_decomp_data_28 7131 252 14"
  by code_simp

lemma decomp_block_29:
  "decomp_block unicode_decomp_table1_29 unicode_decomp_table2_29 pair_spans_29 unicode_decomp_data_29 7383 215 36"
  by code_simp

lemma decomp_block_30:
  "decomp_block unicode_decomp_table1_30 unicode_decomp_table2_30 pair_spans_30 unicode_decomp_data_30 7598 70 36"
  by code_simp

lemma decomp_block_31:
  "decomp_block unicode_decomp_table1_31 unicode_decomp_table2_31 pair_spans_31 unicode_decomp_data_31 7668 252 18"
  by code_simp

lemma decomp_block_32:
  "decomp_block unicode_decomp_table1_32 unicode_decomp_table2_32 pair_spans_32 unicode_decomp_data_32 7920 270 21"
  by code_simp

lemma decomp_block_33:
  "decomp_block unicode_decomp_table1_33 unicode_decomp_table2_33 pair_spans_33 unicode_decomp_data_33 8190 274 2"
  by code_simp

lemma decomp_block_34:
  "decomp_block unicode_decomp_table1_34 unicode_decomp_table2_34 pair_spans_34 unicode_decomp_data_34 8464 272 3"
  by code_simp

lemma decomp_block_35:
  "decomp_block unicode_decomp_table1_35 unicode_decomp_table2_35 pair_spans_35 unicode_decomp_data_35 8736 286 1"
  by code_simp

lemma decomp_block_36:
  "decomp_block unicode_decomp_table1_36 unicode_decomp_table2_36 pair_spans_36 unicode_decomp_data_36 9022 270 1"
  by code_simp

section \<open>The whole table\<close>

type_synonym decomp_part = "u32 list \<times> u16 list \<times> (int \<times> int) list list \<times> u8 list"

definition decomp_parts :: "decomp_part list" where
  "decomp_parts = [
    (unicode_decomp_table1_0, unicode_decomp_table2_0, pair_spans_0, unicode_decomp_data_0),
    (unicode_decomp_table1_1, unicode_decomp_table2_1, pair_spans_1, unicode_decomp_data_1),
    (unicode_decomp_table1_2, unicode_decomp_table2_2, pair_spans_2, unicode_decomp_data_2),
    (unicode_decomp_table1_3, unicode_decomp_table2_3, pair_spans_3, unicode_decomp_data_3),
    (unicode_decomp_table1_4, unicode_decomp_table2_4, pair_spans_4, unicode_decomp_data_4),
    (unicode_decomp_table1_5, unicode_decomp_table2_5, pair_spans_5, unicode_decomp_data_5),
    (unicode_decomp_table1_6, unicode_decomp_table2_6, pair_spans_6, unicode_decomp_data_6),
    (unicode_decomp_table1_7, unicode_decomp_table2_7, pair_spans_7, unicode_decomp_data_7),
    (unicode_decomp_table1_8, unicode_decomp_table2_8, pair_spans_8, unicode_decomp_data_8),
    (unicode_decomp_table1_9, unicode_decomp_table2_9, pair_spans_9, unicode_decomp_data_9),
    (unicode_decomp_table1_10, unicode_decomp_table2_10, pair_spans_10, unicode_decomp_data_10),
    (unicode_decomp_table1_11, unicode_decomp_table2_11, pair_spans_11, unicode_decomp_data_11),
    (unicode_decomp_table1_12, unicode_decomp_table2_12, pair_spans_12, unicode_decomp_data_12),
    (unicode_decomp_table1_13, unicode_decomp_table2_13, pair_spans_13, unicode_decomp_data_13),
    (unicode_decomp_table1_14, unicode_decomp_table2_14, pair_spans_14, unicode_decomp_data_14),
    (unicode_decomp_table1_15, unicode_decomp_table2_15, pair_spans_15, unicode_decomp_data_15),
    (unicode_decomp_table1_16, unicode_decomp_table2_16, pair_spans_16, unicode_decomp_data_16),
    (unicode_decomp_table1_17, unicode_decomp_table2_17, pair_spans_17, unicode_decomp_data_17),
    (unicode_decomp_table1_18, unicode_decomp_table2_18, pair_spans_18, unicode_decomp_data_18),
    (unicode_decomp_table1_19, unicode_decomp_table2_19, pair_spans_19, unicode_decomp_data_19),
    (unicode_decomp_table1_20, unicode_decomp_table2_20, pair_spans_20, unicode_decomp_data_20),
    (unicode_decomp_table1_21, unicode_decomp_table2_21, pair_spans_21, unicode_decomp_data_21),
    (unicode_decomp_table1_22, unicode_decomp_table2_22, pair_spans_22, unicode_decomp_data_22),
    (unicode_decomp_table1_23, unicode_decomp_table2_23, pair_spans_23, unicode_decomp_data_23),
    (unicode_decomp_table1_24, unicode_decomp_table2_24, pair_spans_24, unicode_decomp_data_24),
    (unicode_decomp_table1_25, unicode_decomp_table2_25, pair_spans_25, unicode_decomp_data_25),
    (unicode_decomp_table1_26, unicode_decomp_table2_26, pair_spans_26, unicode_decomp_data_26),
    (unicode_decomp_table1_27, unicode_decomp_table2_27, pair_spans_27, unicode_decomp_data_27),
    (unicode_decomp_table1_28, unicode_decomp_table2_28, pair_spans_28, unicode_decomp_data_28),
    (unicode_decomp_table1_29, unicode_decomp_table2_29, pair_spans_29, unicode_decomp_data_29),
    (unicode_decomp_table1_30, unicode_decomp_table2_30, pair_spans_30, unicode_decomp_data_30),
    (unicode_decomp_table1_31, unicode_decomp_table2_31, pair_spans_31, unicode_decomp_data_31),
    (unicode_decomp_table1_32, unicode_decomp_table2_32, pair_spans_32, unicode_decomp_data_32),
    (unicode_decomp_table1_33, unicode_decomp_table2_33, pair_spans_33, unicode_decomp_data_33),
    (unicode_decomp_table1_34, unicode_decomp_table2_34, pair_spans_34, unicode_decomp_data_34),
    (unicode_decomp_table1_35, unicode_decomp_table2_35, pair_spans_35, unicode_decomp_data_35),
    (unicode_decomp_table1_36, unicode_decomp_table2_36, pair_spans_36, unicode_decomp_data_36)]"

definition pair_spans :: "(int \<times> int) list list" where
  "pair_spans = concat (map (fst \<circ> snd \<circ> snd) decomp_parts)"

fun parts_ok :: "int \<Rightarrow> decomp_part list \<Rightarrow> bool" where
  "parts_ok pos [] = True"
| "parts_ok pos ((vs, ts, hss, ds) # ps) = (decomp_walk vs ts hss ds pos \<and> parts_ok (pos + int (length ds)) ps)"

definition decomp_value :: "u8 list \<Rightarrow> u32 \<Rightarrow> u16 \<Rightarrow> int \<Rightarrow> (int \<times> int list) option" where
  "decomp_value m v t k =
     (if decomp_type v = 0 then Some (1, [uint t]) else decomp_switch m (uint t) k (decomp_len v) (decomp_type v))"

definition decomp_good :: "u8 list \<Rightarrow> u32 list \<Rightarrow> u16 list \<Rightarrow> (int \<times> int) list list \<Rightarrow> bool" where
  "decomp_good m vs ts hss \<longleftrightarrow> length ts = length vs \<and> length hss = length vs \<and>
     (\<forall>i < length vs. decomp_run_ok (vs ! i) (hss ! i) (decomp_value m (vs ! i) (ts ! i)))"

lemma decomp_good_append:
  "decomp_good m vs ts hss \<Longrightarrow> decomp_good m vs' ts' hss' \<Longrightarrow> decomp_good m (vs @ vs') (ts @ ts') (hss @ hss')"
  by (simp add: decomp_good_def nth_append)

lemma decomp_run_ok_mono:
  assumes "decomp_run_ok v hs f" and "\<And>k r. f k = Some r \<Longrightarrow> g k = Some r"
  shows "decomp_run_ok v hs g"
proof -
  have "decomp_result_ok v hs k (g k)" if "decomp_result_ok v hs k (f k)" for k
    using that assms(2) [of k] by (cases "f k") (auto simp: decomp_result_ok_def)
  then show ?thesis using assms(1) by (auto simp: decomp_run_ok_def list_all_iff)
qed

lemma decomp_walk_good:
  "decomp_walk vs ts hss ds pos \<Longrightarrow> part_of ds pos m \<Longrightarrow> decomp_good m vs ts hss"
proof (induction vs ts hss ds pos rule: decomp_walk.induct)
  case (1 v vs t ts hs hss ds pos)
  have cons: "decomp_good m (v # vs) (t # ts) (hs # hss)"
    if "decomp_good m vs ts hss" "decomp_run_ok v hs (decomp_value m v t)"
  proof -
    have "decomp_good m [v] [t] [hs]" using that(2) by (simp add: decomp_good_def)
    from decomp_good_append [OF this that(1)] show ?thesis by simp
  qed
  show ?case
  proof (cases "decomp_type v = 0")
    case True
    then have "decomp_value m v t = (\<lambda>k. Some (1, [uint t]))" by (simp add: decomp_value_def fun_eq_iff)
    then show ?thesis using 1 True by (intro cons) simp_all
  next
    case False
    define ds' where "ds' = drop (nat (uint t - pos)) ds"
    define sl where "sl = take (nat (decomp_extent (decomp_len v) (decomp_type v))) ds'"
    have le: "pos \<le> uint t" and run: "decomp_run_ok v hs (\<lambda>k. decomp_switch sl 0 k (decomp_len v) (decomp_type v))"
      and rest: "decomp_walk vs ts hss ds' (uint t)"
      using "1.prems"(1) False by (simp_all add: Let_def ds'_def sl_def split: if_splits)
    have p': "part_of ds' (uint t) m"
      using part_of_trans [OF part_of_drop "1.prems"(2), of "uint t - pos"] le by (simp add: ds'_def)
    have "part_of sl (uint t) m" using part_of_trans [OF part_of_take p'] by (simp add: sl_def)
    from decomp_switch_part [OF this, where d = 0] run False
    have "decomp_run_ok v hs (decomp_value m v t)"
      by (auto elim!: decomp_run_ok_mono simp: decomp_value_def)
    then show ?thesis using "1.IH"(2) [OF False _ ds'_def sl_def rest p'] le by (intro cons) simp_all
  qed
qed (auto simp: decomp_good_def)

lemma parts_good:
  assumes "parts_ok pos ps" and "m = pre @ concat (map (snd \<circ> snd \<circ> snd) ps)" and "int (length pre) = pos"
  shows "decomp_good m (concat (map fst ps)) (concat (map (fst \<circ> snd) ps))
     (concat (map (fst \<circ> snd \<circ> snd) ps))"
  using assms
proof (induction pos ps arbitrary: pre rule: parts_ok.induct)
  case (2 pos vs ts hss ds ps)
  have "part_of ds pos m"
    using "2.prems"(2,3) by (intro part_ofI [of m pre ds]) simp_all
  then have "decomp_good m vs ts hss" using "2.prems"(1) by (intro decomp_walk_good [of vs ts hss ds pos]) simp_all
  moreover have "decomp_good m (concat (map fst ps)) (concat (map (fst \<circ> snd) ps))
     (concat (map (fst \<circ> snd \<circ> snd) ps))"
    using "2.prems" by (intro "2.IH" [of "pre @ ds"]) simp_all
  ultimately show ?case using decomp_good_append [of m vs ts hss] by (simp add: comp_def)
qed (simp add: decomp_good_def)

lemmas decomp_blocks = decomp_block_0 decomp_block_1 decomp_block_2 decomp_block_3 decomp_block_4 decomp_block_5 decomp_block_6 decomp_block_7
  decomp_block_8 decomp_block_9 decomp_block_10 decomp_block_11 decomp_block_12 decomp_block_13 decomp_block_14 decomp_block_15
  decomp_block_16 decomp_block_17 decomp_block_18 decomp_block_19 decomp_block_20 decomp_block_21 decomp_block_22 decomp_block_23
  decomp_block_24 decomp_block_25 decomp_block_26 decomp_block_27 decomp_block_28 decomp_block_29 decomp_block_30 decomp_block_31
  decomp_block_32 decomp_block_33 decomp_block_34 decomp_block_35 decomp_block_36

lemma decomp_tables_good:
  "decomp_good unicode_decomp_data unicode_decomp_table1 unicode_decomp_table2 pair_spans"
proof -
  have "parts_ok 0 decomp_parts"
    using decomp_blocks unfolding decomp_block_def decomp_parts_def by (simp only: parts_ok.simps) simp
  from parts_good [OF this, of unicode_decomp_data "[]"] show ?thesis
    unfolding pair_spans_def
    by (simp add: decomp_parts_def unicode_decomp_data_def unicode_decomp_table1_def unicode_decomp_table2_def)
qed

lemma decomp_table1_sorted: "spans_sorted decomp_code decomp_len unicode_decomp_table1"
  by code_simp

text \<open>No run of the table meets a gap.\<close>

fun gaps_free :: "u32 list \<Rightarrow> (int \<times> int) list \<Rightarrow> bool" where
  "gaps_free vs [] = True"
| "gaps_free (v # w # vs) ((a, b) # gs) =
     (if decomp_code v + decomp_len v \<le> a
      then if b \<le> decomp_code w then gaps_free (v # w # vs) gs else gaps_free (w # vs) ((a, b) # gs)
      else False)"
| "gaps_free _ _ = False"

lemma gaps_free_check: "gaps_free unicode_decomp_table1 decomp_gaps"
  by code_simp

lemma spans_sorted_le:
  assumes "spans_sorted decomp_code decomp_len (v # vs)" and "w \<in> set (v # vs)"
  shows "decomp_code v \<le> decomp_code w"
proof -
  obtain j where j: "j < length (v # vs)" "w = (v # vs) ! j" using assms(2) unfolding in_set_conv_nth by blast
  show ?thesis
  proof (cases j)
    case (Suc i)
    then have "decomp_code v + decomp_len v \<le> decomp_code w"
      using decomp_runs.spans_sorted_nth [OF assms(1), of 0 j] j by simp
    then show ?thesis using decomp_runs.span_fits [of v] by simp
  qed (use j in simp)
qed

lemma gaps_free_spec:
  "gaps_free vs gs \<Longrightarrow> spans_sorted decomp_code decomp_len vs \<Longrightarrow> (a, b) \<in> set gs \<Longrightarrow>
     decomp_code (hd vs) + decomp_len (hd vs) \<le> a \<and>
     (\<forall>w \<in> set vs. decomp_code w + decomp_len w \<le> a \<or> b \<le> decomp_code w)"
proof (induction vs gs arbitrary: a b rule: gaps_free.induct)
  case (2 v w vs a' b' gs)
  have v: "decomp_code v + decomp_len v \<le> a'" using "2.prems"(1) by (simp split: if_splits)
  show ?case
  proof (cases "b' \<le> decomp_code w")
    case True
    have "b' \<le> decomp_code u" if "u \<in> set (w # vs)" for u
      using spans_sorted_le [of w vs u] "2.prems"(2) that True by simp
    then show ?thesis using "2.IH"(1) [OF v True] "2.prems" v True by auto
  next
    case False
    have IH: "decomp_code w + decomp_len w \<le> a \<and> (\<forall>u \<in> set (w # vs). decomp_code u + decomp_len u \<le> a \<or> b \<le> decomp_code u)"
      using "2.IH"(2) [OF v False] "2.prems" v False by simp
    moreover have "decomp_code v + decomp_len v \<le> decomp_code w" using "2.prems"(2) by simp
    ultimately show ?thesis using decomp_runs.span_fits [of w] by auto
  qed
qed auto

lemma in_spans_iff: "in_spans x ss \<longleftrightarrow> (\<exists>(a, b) \<in> set ss. a \<le> x \<and> x < b)"
  by (induction x ss rule: in_spans.induct) auto

lemma gap_not_in_run:
  assumes "in_spans x decomp_gaps" and "v \<in> set unicode_decomp_table1"
  shows "\<not> in_span decomp_code decomp_len v x"
  using assms gaps_free_spec [OF gaps_free_check decomp_table1_sorted]
  by (fastforce simp: in_spans_iff in_span_def)

section \<open>Decomposition of any character\<close>

lemma decomp_char_cases:
  obtains (none) "\<forall>v \<in> set unicode_decomp_table1. \<not> in_span decomp_code decomp_len v c" "\<And>compat1. unicode_decomp_char c compat1 = Some (0, [])"
  | (run) i v hs n ws where "i < length unicode_decomp_table1" "v = unicode_decomp_table1 ! i" "hs = pair_spans ! i"
      "in_span decomp_code decomp_len v c"
      "unicode_decomp_entry c i (decomp_code v) (decomp_len v) (decomp_type v) = Some (n, ws)"
      "decomp_result_ok v hs (c - decomp_code v) (Some (n, ws))" "length ws \<le> 18"
      "\<And>compat1. unicode_decomp_char c compat1 = Some (if of_bool compat1 < decomp_compat v then (0, []) else (n, ws))"
proof -
  obtain r where r: "decomp_find unicode_decomp_table1 c 0 (int (length unicode_decomp_table1) - 1) = Some r"
    "case r of None \<Rightarrow> \<forall>v \<in> set unicode_decomp_table1. \<not> in_span decomp_code decomp_len v c
       | Some i \<Rightarrow> i < length unicode_decomp_table1 \<and> in_span decomp_code decomp_len (unicode_decomp_table1 ! i) c"
    using decomp_runs.table_find [OF decomp_table1_sorted, of c] by blast
  show thesis
  proof (cases r)
    case None
    then show ?thesis using r by (intro none) (simp_all add: unicode_decomp_char_def)
  next
    case (Some i)
    define v where "v = unicode_decomp_table1 ! i"
    define t where "t = unicode_decomp_table2 ! i"
    define k where "k = c - decomp_code v"
    have i: "i < length unicode_decomp_table1" and s: "in_span decomp_code decomp_len v c"
      using r Some by (simp_all add: v_def)
    have k: "0 \<le> k" "k < decomp_len v" using s by (simp_all add: k_def in_span_def)
    have len: "length unicode_decomp_table2 = length unicode_decomp_table1" and
      good: "decomp_run_ok v (pair_spans ! i) (decomp_value unicode_decomp_data v t)"
      using decomp_tables_good i by (simp_all add: decomp_good_def v_def t_def)
    have "k \<in> set [0..decomp_len v - 1]" using k by simp
    then have ok: "decomp_result_ok v (pair_spans ! i) k (decomp_value unicode_decomp_data v t k)"
      using good by (simp only: decomp_run_ok_def list_all_iff)
    have ku: "u32i (c - decomp_code v) = k"
      using k by (simp add: u32i_def k_def decomp_len_def)
    have ent: "unicode_decomp_entry c i (decomp_code v) (decomp_len v) (decomp_type v) = decomp_value unicode_decomp_data v t k"
      using i len by (simp add: unicode_decomp_entry_def rd_Some ku decomp_value_def t_def DECOMP_TYPE_C1_def)
    obtain n ws where nw: "decomp_value unicode_decomp_data v t k = Some (n, ws)"
      using ok by (auto simp: decomp_result_ok_def split: option.splits)
    have l: "length ws \<le> 18" using ok nw by (auto simp: decomp_result_ok_def split: if_splits)
    show ?thesis
      by (rule run [OF i v_def refl s])
        (use ent nw ok l r(1) Some i in \<open>auto simp: unicode_decomp_char_def rd_Some v_def [symmetric] k_def UNICODE_DECOMP_LEN_MAX_def\<close>)
  qed
qed

lemma unicode_decomp_char_defined:
  "\<exists>n ws. unicode_decomp_char c compat1 = Some (n, ws) \<and> length ws \<le> 18 \<and>
     (n \<noteq> 0 \<longrightarrow> n = int (length ws) \<and> (\<forall>x \<in> set ws. decomp_below x c))"
proof (cases c rule: decomp_char_cases)
  case none
  then show ?thesis by simp
next
  case (run i v hs n ws)
  then show ?thesis by (auto simp: decomp_result_ok_def list_all_iff split: if_splits)
qed

lemma decomp_gap: "in_spans x decomp_gaps \<Longrightarrow> unicode_decomp_char x compat1 = Some (0, [])"
proof (cases x rule: decomp_char_cases)
  case (run i v hs n ws)
  assume "in_spans x decomp_gaps"
  then have "\<not> in_span decomp_code decomp_len v x" using run(1,2) by (intro gap_not_in_run) simp_all
  then show ?thesis using run(4) by contradiction
qed simp

end
