(* ===== verification/FullDecomp.thy ===== *)
theory FullDecomp
  imports UnicodeDecompCheck DynBuf "HOL-Library.Multiset"
begin

text \<open>
  Repeated decomposition of a string into a dynamic buffer (\<^verbatim>\<open>to_nfd_rec\<close> of \<^verbatim>\<open>libunicode.c\<close>).  The
  recursion ends because the tables decompose every character into characters of smaller height.
\<close>

section \<open>Height\<close>

definition decomp_height :: "int \<Rightarrow> nat" where
  "decomp_height c = (if in_spans c decomp_gaps then 0 else Suc (nat (decomp_rank c)))"

lemma decomp_rank_ge: "c \<le> decomp_rank c"
  by (simp add: decomp_rank_def)

lemma decomp_rank_le: "decomp_rank c \<le> max c 0x10000"
  by (simp add: decomp_rank_def)

lemma decomp_char_result:
  assumes "unicode_decomp_char c ic = Some (n, ws)" and "n \<noteq> 0" and "x \<in> set ws"
  shows "n = int (length ws)" and "decomp_below x c" and "\<not> in_spans c decomp_gaps"
  using unicode_decomp_char_defined [of c ic] decomp_gap [of c ic] assms by auto

lemma decomp_height_less:
  assumes "unicode_decomp_char c ic = Some (n, ws)" and "n \<noteq> 0" and "x \<in> set ws"
  shows "decomp_height x < decomp_height c"
proof -
  note r = decomp_char_result [OF assms]
  show ?thesis
  proof (cases "in_spans x decomp_gaps")
    case True
    then show ?thesis using r(3) by (simp add: decomp_height_def)
  next
    case False
    then have "0 \<le> x" "decomp_rank x < decomp_rank c" using r(2) by (auto simp: decomp_below_def split: if_splits)
    moreover have "0 \<le> decomp_rank x" using decomp_rank_ge [of x] \<open>0 \<le> x\<close> by linarith
    ultimately show ?thesis using False r(3) by (simp add: decomp_height_def)
  qed
qed

lemma in_take: "x \<in> set (take n xs) \<Longrightarrow> x \<in> set xs"
  by (rule in_set_takeD)

section \<open>Operations\<close>

definition hangul_syllable :: "int \<Rightarrow> bool" where
  "hangul_syllable c \<longleftrightarrow> c \<ge> 0xac00 \<and> c < 0xd7a4"

text \<open>The return codes of \<^verbatim>\<open>dbuf_put_u32\<close> are ignored.\<close>

definition put_code :: "'h dynbuf \<Rightarrow> int \<Rightarrow> 'h \<Rightarrow> ('h dynbuf \<times> 'h) option" where
  "put_code dbuf c h = do { (r, dbuf, h) \<leftarrow> dbuf_put_u32 dbuf (word_of_int c) h; Some (dbuf, h) }"

function to_nfd_rec :: "'h dynbuf \<Rightarrow> int list \<Rightarrow> bool \<Rightarrow> 'h \<Rightarrow> ('h dynbuf \<times> 'h) option" where
  "to_nfd_rec dbuf [] is_compat h = Some (dbuf, h)"
| "to_nfd_rec dbuf (c # src) is_compat h =
     do { (dbuf, h) \<leftarrow>
            (if hangul_syllable c then
               do { let c = c - 0xac00;
                    (dbuf, h) \<leftarrow> put_code dbuf (0x1100 + c div 588) h;
                    (dbuf, h) \<leftarrow> put_code dbuf (0x1161 + (c mod 588) div 28) h;
                    let v = c mod 28;
                    if v \<noteq> 0 then put_code dbuf (0x11a7 + v) h else Some (dbuf, h) }
             else
               do { (l, res) \<leftarrow> unicode_decomp_char c is_compat;
                    if l \<noteq> 0 then to_nfd_rec dbuf (take (nat l) res) is_compat h
                    else put_code dbuf c h });
          to_nfd_rec dbuf src is_compat h }"
  by pat_completeness auto
termination
proof (relation "inv_image (mult (measure decomp_height)) (\<lambda>(dbuf, src, is_compat, h). mset src)", goal_cases)
  case 1
  show ?case by (rule wf_inv_image, rule wf_mult) simp
next
  case (2 dbuf c src is_compat h z l res)
  have "\<forall>x \<in># mset (take (nat l) res). (x, c) \<in> measure decomp_height"
    using 2 by (auto dest: in_take decomp_height_less)
  then show ?case using one_step_implies_mult [of "mset (c # src)" "mset (take (nat l) res)" "measure decomp_height" "{#}"] by simp
next
  case (3 dbuf c src is_compat h)
  show ?case using one_step_implies_mult [of "{#c#}" "{#}" "measure decomp_height" "mset src"] by simp
qed

section \<open>Full decomposition\<close>

definition hangul_decomp :: "int \<Rightarrow> int list" where
  "hangul_decomp c =
     (let s = c - 0xac00
      in [0x1100 + s div 588, 0x1161 + (s mod 588) div 28] @ (if s mod 28 \<noteq> 0 then [0x11a7 + s mod 28] else []))"

function full_decomp :: "bool \<Rightarrow> int \<Rightarrow> int list" where
  "full_decomp ic c =
     (if hangul_syllable c then hangul_decomp c
      else case unicode_decomp_char c ic of
             None \<Rightarrow> [c]
           | Some (l, ws) \<Rightarrow> if l \<noteq> 0 then concat (map (full_decomp ic) (take (nat l) ws)) else [c])"
  by pat_completeness auto
termination
  by (relation "measure (\<lambda>(ic, c). decomp_height c)") (auto dest: in_take decomp_height_less)

declare full_decomp.simps [simp del]

definition full_decomps :: "bool \<Rightarrow> int list \<Rightarrow> int list" where
  "full_decomps ic src = concat (map (full_decomp ic) src)"

lemma full_decomps_simps [simp]:
  "full_decomps ic [] = []" "full_decomps ic (c # src) = full_decomp ic c @ full_decomps ic src"
  "full_decomps ic (xs @ ys) = full_decomps ic xs @ full_decomps ic ys"
  by (simp_all add: full_decomps_def)

context append_buffer
begin

lemma put_all_append: "put_all d (xs @ ys) h = do { (d, h) \<leftarrow> put_all d xs h; put_all d ys h }"
  by (induction xs arbitrary: d h) (auto simp: split_def intro!: Option.bind_cong)

end

definition code_bytes :: "int \<Rightarrow> u8 list" where
  "code_bytes c = le_bytes 4 (word_of_int c :: u32)"

lemma put_code_all: "put_code d c h = dbuf_append.put_all d [code_bytes c] h"
  by (simp add: put_code_def dbuf_put_u32_def code_bytes_def split_def)

text \<open>\<^verbatim>\<open>to_nfd_rec\<close> writes the full decompositions one after the other.\<close>

lemma hangul_puts:
  "do { (d, h) \<leftarrow> put_code d a h; (d, h) \<leftarrow> put_code d b h; if v \<noteq> 0 then put_code d (x + v) h else Some (d, h) } =
   dbuf_append.put_all d (map code_bytes ([a, b] @ (if (v :: int) \<noteq> 0 then [x + v] else []))) h"
  by (simp add: put_code_def dbuf_put_u32_def code_bytes_def split_def bind_assoc)

lemma to_nfd_rec_puts: "to_nfd_rec d src ic h = dbuf_append.put_all d (map code_bytes (full_decomps ic src)) h"
proof (induction d src ic h rule: to_nfd_rec.induct)
  case (2 d c src ic h)
  obtain l ws where dec: "unicode_decomp_char c ic = Some (l, ws)" using unicode_decomp_char_defined by blast
  have first: "(if hangul_syllable c then
               do { let c = c - 0xac00;
                    (dbuf, h) \<leftarrow> put_code d (0x1100 + c div 588) h;
                    (dbuf, h) \<leftarrow> put_code dbuf (0x1161 + (c mod 588) div 28) h;
                    let v = c mod 28;
                    if v \<noteq> 0 then put_code dbuf (0x11a7 + v) h else Some (dbuf, h) }
             else
               do { (l, res) \<leftarrow> unicode_decomp_char c ic;
                    if l \<noteq> 0 then to_nfd_rec d (take (nat l) res) ic h
                    else put_code d c h }) = dbuf_append.put_all d (map code_bytes (full_decomp ic c)) h"
  proof (cases "hangul_syllable c")
    case True
    then show ?thesis unfolding full_decomp.simps [of ic c] hangul_decomp_def Let_def hangul_puts by simp
  next
    case False
    then show ?thesis
      using dec "2.IH"(1) [OF False dec refl] by (simp add: full_decomp.simps [of ic c] put_code_all full_decomps_def)
  qed
  show ?case
    unfolding to_nfd_rec.simps first full_decomps_simps map_append dbuf_append.put_all_append
    by (rule Option.bind_cong [OF refl]) (use "2.IH"(2) first in \<open>auto\<close>)
qed simp

section \<open>The result is fully decomposed\<close>

definition decomposed :: "bool \<Rightarrow> int \<Rightarrow> bool" where
  "decomposed ic x \<longleftrightarrow> \<not> hangul_syllable x \<and> (\<exists>ws. unicode_decomp_char x ic = Some (0, ws))"

lemma full_decomp_id: "decomposed ic x \<Longrightarrow> full_decomp ic x = [x]"
  by (auto simp: decomposed_def full_decomp.simps [of ic x])

lemma full_decomps_id: "\<forall>x \<in> set xs. decomposed ic x \<Longrightarrow> full_decomps ic xs = xs"
  by (induction xs) (simp_all add: full_decomp_id)

lemma jamo_decomposed: "0x1100 \<le> x \<Longrightarrow> x < 0x1200 \<Longrightarrow> decomposed ic x"
proof -
  assume x: "0x1100 \<le> x" "x < 0x1200"
  have "(0x1100, 0x1200) \<in> set decomp_gaps" by (simp add: decomp_gaps_def)
  then have "in_spans x decomp_gaps" using x unfolding in_spans_iff by blast
  then show ?thesis using decomp_gap [of x ic] x by (simp add: decomposed_def hangul_syllable_def)
qed

lemma hangul_parts:
  assumes "hangul_syllable c"
  shows "0 \<le> (c - 0xac00) div 588" "(c - 0xac00) div 588 < 19" "0 \<le> ((c - 0xac00) mod 588) div 28"
    "((c - 0xac00) mod 588) div 28 < 21" "0 \<le> (c - 0xac00) mod 28" "(c - 0xac00) mod 28 < 28"
  using assms by (auto simp: hangul_syllable_def)

lemma hangul_decomp_range:
  assumes "hangul_syllable c" and "x \<in> set (hangul_decomp c)"
  shows "0x1100 \<le> x \<and> x < 0x1200"
proof -
  define l v t where "l = (c - 0xac00) div 588" and "v = ((c - 0xac00) mod 588) div 28" and "t = (c - 0xac00) mod 28"
  have "0 \<le> l \<and> l < 19 \<and> 0 \<le> v \<and> v < 21 \<and> 0 \<le> t \<and> t < 28"
    using hangul_parts [OF assms(1)] by (simp only: l_def v_def t_def)
  moreover have "x \<in> set ([0x1100 + l, 0x1161 + v] @ (if t \<noteq> 0 then [0x11a7 + t] else []))"
    using assms(2) by (simp only: hangul_decomp_def Let_def l_def v_def t_def)
  ultimately show ?thesis by (auto split: if_splits)
qed

lemma full_decomp_cases:
  obtains (hangul) "hangul_syllable c" "full_decomp ic c = hangul_decomp c"
  | (id) "decomposed ic c" "full_decomp ic c = [c]"
  | (rec) l ws where "\<not> hangul_syllable c" "unicode_decomp_char c ic = Some (l, ws)" "l = int (length ws)" "l \<noteq> 0"
      "\<forall>x \<in> set ws. decomp_below x c" "full_decomp ic c = full_decomps ic ws"
proof (cases "hangul_syllable c")
  case True
  then show thesis by (intro hangul) (simp_all add: full_decomp.simps [of ic c])
next
  case False
  obtain l ws where d: "unicode_decomp_char c ic = Some (l, ws)" "l \<noteq> 0 \<longrightarrow> l = int (length ws) \<and> (\<forall>x \<in> set ws. decomp_below x c)"
    using unicode_decomp_char_defined [of c ic] by blast
  show thesis
  proof (cases "l = 0")
    case True
    then have "decomposed ic c" using False d by (auto simp: decomposed_def)
    then show ?thesis by (rule id) (rule full_decomp_id [OF \<open>decomposed ic c\<close>])
  next
    case l: False
    then have eq: "l = int (length ws)" "\<forall>x \<in> set ws. decomp_below x c" using d by auto
    show ?thesis
      by (rule rec [OF False d(1) eq(1) l eq(2)])
        (use False d(1) eq(1) l in \<open>simp add: full_decomp.simps [of ic c] full_decomps_def\<close>)
  qed
qed

lemma full_decomp_decomposed: "x \<in> set (full_decomp ic c) \<Longrightarrow> decomposed ic x"
proof (induction "decomp_height c" arbitrary: c x rule: less_induct)
  case less
  show ?case
  proof (cases rule: full_decomp_cases [of c ic, case_names hangul id rec])
    case hangul
    then show ?thesis using less.prems hangul_decomp_range jamo_decomposed by auto
  next
    case id
    then show ?thesis using less.prems by simp
  next
    case (rec l ws)
    obtain w where w: "w \<in> set ws" "x \<in> set (full_decomp ic w)" using less.prems rec(6) by (auto simp: full_decomps_def)
    then show ?thesis using less.hyps [OF decomp_height_less [OF rec(2,4) w(1)]] by simp
  qed
qed

lemma full_decomp_nonempty: "full_decomp ic c \<noteq> []"
proof (induction "decomp_height c" arbitrary: c rule: less_induct)
  case less
  show ?case
  proof (cases rule: full_decomp_cases [of c ic, case_names hangul id rec])
    case (rec l ws)
    obtain w where "w \<in> set ws" using rec(3,4) by (cases ws) auto
    then show ?thesis using less.hyps [OF decomp_height_less [OF rec(2,4)], of w] rec(6) by (auto simp: full_decomps_def)
  qed (simp_all add: hangul_decomp_def Let_def)
qed

text \<open>A character without a compatibility decomposition has no canonical one.\<close>

lemma decomposed_compat: "decomposed True x \<Longrightarrow> decomposed False x"
proof (cases x rule: decomp_char_cases)
  case (run i v hs n ws)
  assume "decomposed True x"
  moreover have "\<not> of_bool True < decomp_compat v" by (simp add: decomp_compat_def not_less)
  ultimately have "n = 0" using run(8) [of True] by (auto simp: decomposed_def)
  then show ?thesis using run(8) [of False] \<open>decomposed True x\<close> by (auto simp: decomposed_def)
qed (auto simp: decomposed_def)

text \<open>Code points stay code points.\<close>

lemma decomp_gaps_bound: "list_all (\<lambda>(a, b). b \<le> 0x30000) decomp_gaps"
  by code_simp

lemma in_gaps_bound: "in_spans x decomp_gaps \<Longrightarrow> x < 0x30000"
  using decomp_gaps_bound by (fastforce simp: in_spans_iff list_all_iff)

lemma decomp_below_range: "decomp_below x c \<Longrightarrow> c < 2 ^ 32 \<Longrightarrow> 0 \<le> x \<and> x < 2 ^ 32"
  using decomp_rank_ge [of x] decomp_rank_le [of c] in_gaps_bound [of x] by (auto simp: decomp_below_def split: if_splits)

lemma full_decomp_range: "0 \<le> c \<Longrightarrow> c < 2 ^ 32 \<Longrightarrow> x \<in> set (full_decomp ic c) \<Longrightarrow> 0 \<le> x \<and> x < 2 ^ 32"
proof (induction "decomp_height c" arbitrary: c x rule: less_induct)
  case less
  show ?case
  proof (cases rule: full_decomp_cases [of c ic, case_names hangul id rec])
    case hangul
    then show ?thesis using less.prems hangul_decomp_range [of c x] by simp
  next
    case id
    then show ?thesis using less.prems by simp
  next
    case (rec l ws)
    obtain w where w: "w \<in> set ws" "x \<in> set (full_decomp ic w)" using less.prems rec(6) by (auto simp: full_decomps_def)
    have "0 \<le> w \<and> w < 2 ^ 32" using decomp_below_range rec(5) w(1) less.prems(2) by blast
    then show ?thesis using less.hyps [OF decomp_height_less [OF rec(2,4) w(1)]] w(2) by simp
  qed
qed

end
