(* ===== verification/UnicodeCompose.thy ===== *)
theory UnicodeCompose
  imports FullDecomp
begin

text \<open>
  Composition of pairs of characters (\<^verbatim>\<open>unicode_compose_pair\<close> and \<^verbatim>\<open>compose_pair\<close> of \<^verbatim>\<open>libunicode.c\<close>).
  The composition table names entries of the decomposition table; that every entry it names is a
  canonical decomposition into two characters is established by evaluation.
\<close>

section \<open>Operations\<close>

text \<open>Conversion of an unsigned difference to \<^verbatim>\<open>int\<close>.\<close>

definition s32i :: "int \<Rightarrow> int" where
  "s32i x = (x + 2 ^ 31) mod 2 ^ 32 - 2 ^ 31"

text \<open>\<open>pair\<close> has two elements; reading one that was not stored is undefined.\<close>

function compose_find :: "u16 list \<Rightarrow> int \<Rightarrow> int \<Rightarrow> int \<Rightarrow> int \<Rightarrow> int option" where
  "compose_find tab c0 c1 idx_min idx_max =
     (if idx_min \<le> idx_max \<and> 0 \<le> idx_min then
        do { let idx = (idx_max + idx_min) div 2;
             t \<leftarrow> rd tab (nat idx);
             let idx1 = uint t;
             let d_idx = idx1 div 64;
             let d_offset = idx1 mod 64;
             v \<leftarrow> rd unicode_decomp_table1 (nat d_idx);
             let ch = u32i (decomp_code v + d_offset);
             (n, pair) \<leftarrow> unicode_decomp_entry ch (nat d_idx) (decomp_code v) (decomp_len v) (decomp_type v);
             c_assert (length pair \<le> 2);
             p0 \<leftarrow> rd pair 0;
             d \<leftarrow> (let d = s32i (c0 - p0) in
                  if d = 0 then do { p1 \<leftarrow> rd pair 1; Some (s32i (c1 - p1)) } else Some d);
             if d < 0 then compose_find tab c0 c1 idx_min (idx - 1)
             else if d > 0 then compose_find tab c0 c1 (idx + 1) idx_max
             else Some ch }
      else Some 0)"
  by pat_completeness auto
termination
  by (relation "measure (\<lambda>(tab, c0, c1, idx_min, idx_max). nat (idx_max - idx_min + 1))") auto

declare compose_find.simps [simp del]

definition unicode_compose_pair :: "int \<Rightarrow> int \<Rightarrow> int option" where
  "unicode_compose_pair c0 c1 = compose_find unicode_comp_table c0 c1 0 (int (length unicode_comp_table) - 1)"

definition compose_pair :: "int \<Rightarrow> int \<Rightarrow> int option" where
  "compose_pair c0 c1 =
     (if c0 \<ge> 0x1100 \<and> c0 < 0x1100 + 19 \<and> c1 \<ge> 0x1161 \<and> c1 < 0x1161 + 21 then
        Some (0xac00 + (c0 - 0x1100) * 588 + (c1 - 0x1161) * 28)
      else if c0 \<ge> 0xac00 \<and> c0 < 0xac00 + 11172 \<and> (c0 - 0xac00) mod 28 = 0 \<and> c1 \<ge> 0x11a7 \<and> c1 < 0x11a7 + 28 then
        Some (c0 + c1 - 0x11a7)
      else unicode_compose_pair c0 c1)"

section \<open>The composition table\<close>

text \<open>The entries of the composition table that stand for pairs, as intervals.\<close>

fun pair_ivs :: "int \<Rightarrow> (int \<times> int) list list \<Rightarrow> (int \<times> int) list" where
  "pair_ivs i [] = []"
| "pair_ivs i (hs # hss) = map (\<lambda>(a, b). (64 * i + a, 64 * i + min b 64)) hs @ pair_ivs (i + 1) hss"

lemma pair_ivs_append: "pair_ivs i (xs @ ys) = pair_ivs i xs @ pair_ivs (i + int (length xs)) ys"
  by (induction xs arbitrary: i) (simp_all add: add.assoc)

lemma in_pair_ivs:
  assumes "in_spans x (pair_ivs i hss)" and "\<forall>hs \<in> set hss. \<forall>(a, b) \<in> set hs. 0 \<le> a"
  shows "0 \<le> x div 64 - i \<and> nat (x div 64 - i) < length hss \<and> in_spans (x mod 64) (hss ! nat (x div 64 - i))"
  using assms
proof (induction i hss rule: pair_ivs.induct)
  case (2 i hs hss)
  show ?case
  proof (cases "in_spans x (map (\<lambda>(a, b). (64 * i + a, 64 * i + min b 64)) hs)")
    case True
    then obtain a b where ab: "(a, b) \<in> set hs" "64 * i + a \<le> x" "x < 64 * i + min b 64" by (auto simp: in_spans_iff)
    then have "0 \<le> a" using "2.prems"(2) by auto
    then have "x div 64 = i" "x mod 64 = x - 64 * i" using ab by (auto simp: div_pos_neg_trivial intro!: int_div_pos_eq [of x 64 i "x - 64 * i"] int_mod_pos_eq [of x 64 i "x - 64 * i"])
    then show ?thesis using ab by (auto simp: in_spans_iff intro!: bexI [of _ "(a, b)"])
  next
    case False
    then have "in_spans x (pair_ivs (i + 1) hss)" using "2.prems"(1) by (auto simp: in_spans_iff)
    from "2.IH" [OF this] "2.prems"(2) have IH: "0 \<le> x div 64 - (i + 1)" "nat (x div 64 - (i + 1)) < length hss"
        "in_spans (x mod 64) (hss ! nat (x div 64 - (i + 1)))" by auto
    have "nat (x div 64 - i) = Suc (nat (x div 64 - (i + 1)))" using IH(1) by simp
    then show ?thesis using IH by simp
  qed
qed simp

definition pair_ivs_0 :: "(int \<times> int) list" where
  "pair_ivs_0 = [(640, 646), (647, 656), (657, 663), (665, 670), (672, 678), (679, 688), (689, 695), (697, 702), (703, 704), (704, 720),
    (768, 788), (832, 840), (896, 897), (1024, 1028), (1088, 1094), (1216, 1222), (1344, 1350), (1408, 1426), (1472, 1488)]"

definition pair_ivs_1 :: "(int \<times> int) list" where
  "pair_ivs_1 = [(1536, 1537), (1600, 1606), (1728, 1730), (1792, 1794), (1984, 2000), (2048, 2054), (2112, 2118), (2176, 2181), (2304, 2306), (2368, 2376),
    (2432, 2460), (2496, 2498), (2560, 2574), (2880, 2881), (3200, 3202), (3328, 3331), (3332, 3333), (3334, 3337), (3392, 3399)]"

definition pair_ivs_2 :: "(int \<times> int) list" where
  "pair_ivs_2 = [(3456, 3461), (3584, 3586), (3840, 3842), (3843, 3844), (3904, 3905), (3968, 3971), (4032, 4033), (4096, 4097), (4160, 4162), (4163, 4164),
    (4224, 4225), (4288, 4291), (4352, 4354), (4416, 4418), (4480, 4484), (4544, 4546), (4608, 4614), (4672, 4678), (4736, 4748), (4800, 4802),
    (4928, 4933), (5056, 5057), (5058, 5059), (5120, 5121), (5184, 5185), (5248, 5249), (5312, 5313), (5440, 5442)]"

definition pair_ivs_3 :: "(int \<times> int) list" where
  "pair_ivs_3 = [(5888, 5889), (5952, 5954), (6080, 6081), (6144, 6147), (6208, 6209), (6272, 6273), (6336, 6338), (6400, 6402), (6464, 6467), (6528, 6529),
    (6592, 6595), (7296, 7297), (7360, 7361), (7616, 7617)]"

definition pair_ivs_4 :: "(int \<times> int) list" where
  "pair_ivs_4 = [(8064, 8065), (8192, 8193), (8194, 8195), (8196, 8197), (8198, 8199), (8200, 8201), (8256, 8257), (8320, 8321), (8322, 8323), (8384, 8386),
    (8448, 8449), (8832, 8890)]"

definition pair_ivs_5 :: "(int \<times> int) list" where
  "pair_ivs_5 = [(8896, 8914), (8960, 9008), (9024, 9050), (9088, 9092), (9216, 9217), (9280, 9306), (9344, 9408)]"

definition pair_ivs_6 :: "(int \<times> int) list" where
  "pair_ivs_6 = [(9408, 9410), (9472, 9478), (9536, 9538), (9600, 9606), (9664, 9666), (9728, 9732), (9792, 9794), (9856, 9860), (9920, 9954), (9984, 9988),
    (10048, 10050), (10112, 10116), (10176, 10178), (10240, 10246), (10304, 10305), (10306, 10307), (10308, 10309), (10310, 10328), (10432, 10433)]"

definition pair_ivs_7 :: "(int \<times> int) list" where
  "pair_ivs_7 = [(10560, 10561), (10688, 10689), (10816, 10817), (10944, 10945), (11072, 11073), (11200, 11216), (11264, 11280), (11328, 11344), (11392, 11397), (11398, 11403),
    (11520, 11521), (11776, 11780), (11781, 11784), (11904, 11905), (12032, 12039), (12160, 12165), (12288, 12294), (12416, 12423), (12544, 12546), (12672, 12675),
    (12676, 12679)]"

definition pair_ivs_8 :: "(int \<times> int) list" where
  "pair_ivs_8 = [(12800, 12801), (12928, 12929)]"

definition pair_ivs_9 :: "(int \<times> int) list" where
  "pair_ivs_9 = []"

definition pair_ivs_10 :: "(int \<times> int) list" where
  "pair_ivs_10 = [(17984, 17986), (18048, 18049), (18112, 18115), (18176, 18177), (18240, 18241), (18304, 18305), (18368, 18369), (18370, 18371), (18688, 18689), (18752, 18753),
    (18816, 18817), (18818, 18819), (18880, 18881), (18882, 18883), (18944, 18949), (19008, 19010), (19072, 19074), (19136, 19138), (19200, 19202), (19264, 19266),
    (19328, 19332), (19392, 19396), (19456, 19460)]"

definition pair_ivs_11 :: "(int \<times> int) list" where
  "pair_ivs_11 = []"

definition pair_ivs_12 :: "(int \<times> int) list" where
  "pair_ivs_12 = [(21568, 21569), (21570, 21571), (21572, 21573), (21574, 21575), (21576, 21577), (21578, 21579), (21580, 21581), (21582, 21583), (21584, 21585), (21586, 21587),
    (21588, 21589), (21590, 21591), (21632, 21633), (21634, 21635), (21636, 21637)]"

definition pair_ivs_13 :: "(int \<times> int) list" where
  "pair_ivs_13 = [(21696, 21698), (21760, 21762), (21824, 21826), (21888, 21890), (21952, 21954), (22016, 22017), (22144, 22145), (22272, 22273), (22274, 22275), (22276, 22277),
    (22278, 22279), (22280, 22281), (22282, 22283), (22284, 22285), (22286, 22287), (22288, 22289), (22290, 22291), (22292, 22293), (22294, 22295), (22336, 22337),
    (22338, 22339), (22340, 22341), (22400, 22402), (22464, 22466), (22528, 22530), (22592, 22594), (22656, 22658), (22720, 22721), (22784, 22788), (22848, 22849)]"

definition pair_ivs_14 :: "(int \<times> int) list" where
  "pair_ivs_14 = []"

definition pair_ivs_15 :: "(int \<times> int) list" where
  "pair_ivs_15 = []"

definition pair_ivs_16 :: "(int \<times> int) list" where
  "pair_ivs_16 = []"

definition pair_ivs_17 :: "(int \<times> int) list" where
  "pair_ivs_17 = []"

definition pair_ivs_18 :: "(int \<times> int) list" where
  "pair_ivs_18 = []"

definition pair_ivs_19 :: "(int \<times> int) list" where
  "pair_ivs_19 = []"

definition pair_ivs_20 :: "(int \<times> int) list" where
  "pair_ivs_20 = []"

definition pair_ivs_21 :: "(int \<times> int) list" where
  "pair_ivs_21 = []"

definition pair_ivs_22 :: "(int \<times> int) list" where
  "pair_ivs_22 = []"

definition pair_ivs_23 :: "(int \<times> int) list" where
  "pair_ivs_23 = []"

definition pair_ivs_24 :: "(int \<times> int) list" where
  "pair_ivs_24 = []"

definition pair_ivs_25 :: "(int \<times> int) list" where
  "pair_ivs_25 = []"

definition pair_ivs_26 :: "(int \<times> int) list" where
  "pair_ivs_26 = []"

definition pair_ivs_27 :: "(int \<times> int) list" where
  "pair_ivs_27 = []"

definition pair_ivs_28 :: "(int \<times> int) list" where
  "pair_ivs_28 = [(36672, 36673), (36674, 36675), (36736, 36737)]"

definition pair_ivs_29 :: "(int \<times> int) list" where
  "pair_ivs_29 = [(36800, 36802), (36864, 36866), (36928, 36930), (36931, 36932), (36992, 36994), (37056, 37057)]"

definition pair_ivs_30 :: "(int \<times> int) list" where
  "pair_ivs_30 = []"

definition pair_ivs_31 :: "(int \<times> int) list" where
  "pair_ivs_31 = []"

definition pair_ivs_32 :: "(int \<times> int) list" where
  "pair_ivs_32 = []"

definition pair_ivs_33 :: "(int \<times> int) list" where
  "pair_ivs_33 = []"

definition pair_ivs_34 :: "(int \<times> int) list" where
  "pair_ivs_34 = []"

definition pair_ivs_35 :: "(int \<times> int) list" where
  "pair_ivs_35 = []"

definition pair_ivs_36 :: "(int \<times> int) list" where
  "pair_ivs_36 = []"

lemma pair_ivs_blocks:
  "pair_ivs 0 pair_spans_0 = pair_ivs_0"
  "pair_ivs 24 pair_spans_1 = pair_ivs_1"
  "pair_ivs 54 pair_spans_2 = pair_ivs_2"
  "pair_ivs 90 pair_spans_3 = pair_ivs_3"
  "pair_ivs 126 pair_spans_4 = pair_ivs_4"
  "pair_ivs 139 pair_spans_5 = pair_ivs_5"
  "pair_ivs 147 pair_spans_6 = pair_ivs_6"
  "pair_ivs 164 pair_spans_7 = pair_ivs_7"
  "pair_ivs 200 pair_spans_8 = pair_ivs_8"
  "pair_ivs 236 pair_spans_9 = pair_ivs_9"
  "pair_ivs 272 pair_spans_10 = pair_ivs_10"
  "pair_ivs 308 pair_spans_11 = pair_ivs_11"
  "pair_ivs 332 pair_spans_12 = pair_ivs_12"
  "pair_ivs 339 pair_spans_13 = pair_ivs_13"
  "pair_ivs 363 pair_spans_14 = pair_ivs_14"
  "pair_ivs 380 pair_spans_15 = pair_ivs_15"
  "pair_ivs 401 pair_spans_16 = pair_ivs_16"
  "pair_ivs 436 pair_spans_17 = pair_ivs_17"
  "pair_ivs 471 pair_spans_18 = pair_ivs_18"
  "pair_ivs 500 pair_spans_19 = pair_ivs_19"
  "pair_ivs 511 pair_spans_20 = pair_ivs_20"
  "pair_ivs 512 pair_spans_21 = pair_ivs_21"
  "pair_ivs 515 pair_spans_22 = pair_ivs_22"
  "pair_ivs 533 pair_spans_23 = pair_ivs_23"
  "pair_ivs 539 pair_spans_24 = pair_ivs_24"
  "pair_ivs 540 pair_spans_25 = pair_ivs_25"
  "pair_ivs 543 pair_spans_26 = pair_ivs_26"
  "pair_ivs 551 pair_spans_27 = pair_ivs_27"
  "pair_ivs 561 pair_spans_28 = pair_ivs_28"
  "pair_ivs 575 pair_spans_29 = pair_ivs_29"
  "pair_ivs 611 pair_spans_30 = pair_ivs_30"
  "pair_ivs 647 pair_spans_31 = pair_ivs_31"
  "pair_ivs 665 pair_spans_32 = pair_ivs_32"
  "pair_ivs 686 pair_spans_33 = pair_ivs_33"
  "pair_ivs 688 pair_spans_34 = pair_ivs_34"
  "pair_ivs 691 pair_spans_35 = pair_ivs_35"
  "pair_ivs 692 pair_spans_36 = pair_ivs_36"
  by code_simp+

text \<open>Membership through a tree of comparisons.\<close>

definition pair_entry :: "int \<Rightarrow> bool" where
  "pair_entry x =
    (if x < 30144
     then if x < 15104
       then if x < 8064
         then if x < 3456
           then if x < 1536
             then in_spans x pair_ivs_0
             else in_spans x pair_ivs_1
           else if x < 5760
             then in_spans x pair_ivs_2
             else in_spans x pair_ivs_3
         else if x < 9408
           then if x < 8896
             then in_spans x pair_ivs_4
             else in_spans x pair_ivs_5
           else if x < 10496
             then in_spans x pair_ivs_6
             else if x < 12800
               then in_spans x pair_ivs_7
               else in_spans x pair_ivs_8
       else if x < 21696
         then if x < 19712
           then if x < 17408
             then in_spans x pair_ivs_9
             else in_spans x pair_ivs_10
           else if x < 21248
             then in_spans x pair_ivs_11
             else in_spans x pair_ivs_12
         else if x < 24320
           then if x < 23232
             then in_spans x pair_ivs_13
             else in_spans x pair_ivs_14
           else if x < 25664
             then in_spans x pair_ivs_15
             else if x < 27904
               then in_spans x pair_ivs_16
               else in_spans x pair_ivs_17
     else if x < 35264
       then if x < 32960
         then if x < 32704
           then if x < 32000
             then in_spans x pair_ivs_18
             else in_spans x pair_ivs_19
           else if x < 32768
             then in_spans x pair_ivs_20
             else in_spans x pair_ivs_21
         else if x < 34496
           then if x < 34112
             then in_spans x pair_ivs_22
             else in_spans x pair_ivs_23
           else if x < 34560
             then in_spans x pair_ivs_24
             else if x < 34752
               then in_spans x pair_ivs_25
               else in_spans x pair_ivs_26
       else if x < 42560
         then if x < 36800
           then if x < 35904
             then in_spans x pair_ivs_27
             else in_spans x pair_ivs_28
           else if x < 39104
             then in_spans x pair_ivs_29
             else if x < 41408
               then in_spans x pair_ivs_30
               else in_spans x pair_ivs_31
         else if x < 44032
           then if x < 43904
             then in_spans x pair_ivs_32
             else in_spans x pair_ivs_33
           else if x < 44224
             then in_spans x pair_ivs_34
             else if x < 44288
               then in_spans x pair_ivs_35
               else in_spans x pair_ivs_36)"

definition pair_ivs_parts :: "(int \<times> int) list list" where
  "pair_ivs_parts = [pair_ivs_0, pair_ivs_1, pair_ivs_2, pair_ivs_3, pair_ivs_4, pair_ivs_5,
    pair_ivs_6, pair_ivs_7, pair_ivs_8, pair_ivs_9, pair_ivs_10, pair_ivs_11,
    pair_ivs_12, pair_ivs_13, pair_ivs_14, pair_ivs_15, pair_ivs_16, pair_ivs_17,
    pair_ivs_18, pair_ivs_19, pair_ivs_20, pair_ivs_21, pair_ivs_22, pair_ivs_23,
    pair_ivs_24, pair_ivs_25, pair_ivs_26, pair_ivs_27, pair_ivs_28, pair_ivs_29,
    pair_ivs_30, pair_ivs_31, pair_ivs_32, pair_ivs_33, pair_ivs_34, pair_ivs_35,
    pair_ivs_36]"

lemma pair_entry_parts: "pair_entry x \<Longrightarrow> \<exists>p \<in> set pair_ivs_parts. in_spans x p"
  unfolding pair_entry_def pair_ivs_parts_def by (simp split: if_splits)

lemma pair_spans_length:
  "length pair_spans_0 = 24"
  "length pair_spans_1 = 30"
  "length pair_spans_2 = 36"
  "length pair_spans_3 = 36"
  "length pair_spans_4 = 13"
  "length pair_spans_5 = 8"
  "length pair_spans_6 = 17"
  "length pair_spans_7 = 36"
  "length pair_spans_8 = 36"
  "length pair_spans_9 = 36"
  "length pair_spans_10 = 36"
  "length pair_spans_11 = 24"
  "length pair_spans_12 = 7"
  "length pair_spans_13 = 24"
  "length pair_spans_14 = 17"
  "length pair_spans_15 = 21"
  "length pair_spans_16 = 35"
  "length pair_spans_17 = 35"
  "length pair_spans_18 = 29"
  "length pair_spans_19 = 11"
  "length pair_spans_20 = 1"
  "length pair_spans_21 = 3"
  "length pair_spans_22 = 18"
  "length pair_spans_23 = 6"
  "length pair_spans_24 = 1"
  "length pair_spans_25 = 3"
  "length pair_spans_26 = 8"
  "length pair_spans_27 = 10"
  "length pair_spans_28 = 14"
  "length pair_spans_29 = 36"
  "length pair_spans_30 = 36"
  "length pair_spans_31 = 18"
  "length pair_spans_32 = 21"
  "length pair_spans_33 = 2"
  "length pair_spans_34 = 3"
  "length pair_spans_35 = 1"
  "length pair_spans_36 = 1"
  by code_simp+

lemma pair_ivs_spans: "pair_ivs 0 pair_spans = concat pair_ivs_parts"
  unfolding pair_spans_def decomp_parts_def pair_ivs_parts_def
  by (simp add: pair_ivs_append pair_ivs_blocks pair_spans_length)

lemma comp_table_blocks:
  "list_all (\<lambda>e. pair_entry (uint e)) unicode_comp_table_0"
  "list_all (\<lambda>e. pair_entry (uint e)) unicode_comp_table_1"
  "list_all (\<lambda>e. pair_entry (uint e)) unicode_comp_table_2"
  "list_all (\<lambda>e. pair_entry (uint e)) unicode_comp_table_3"
  "list_all (\<lambda>e. pair_entry (uint e)) unicode_comp_table_4"
  "list_all (\<lambda>e. pair_entry (uint e)) unicode_comp_table_5"
  "list_all (\<lambda>e. pair_entry (uint e)) unicode_comp_table_6"
  "list_all (\<lambda>e. pair_entry (uint e)) unicode_comp_table_7"
  "list_all (\<lambda>e. pair_entry (uint e)) unicode_comp_table_8"
  "list_all (\<lambda>e. pair_entry (uint e)) unicode_comp_table_9"
  "list_all (\<lambda>e. pair_entry (uint e)) unicode_comp_table_10"
  by code_simp+

lemma comp_table_entries: "e \<in> set unicode_comp_table \<Longrightarrow> pair_entry (uint e)"
  using comp_table_blocks unfolding unicode_comp_table_def by (auto simp: list_all_iff)

lemma pair_spans_nonneg: "hs \<in> set pair_spans \<Longrightarrow> (a, b) \<in> set hs \<Longrightarrow> 0 \<le> a \<and> b \<le> 127"
proof -
  assume "hs \<in> set pair_spans" "(a, b) \<in> set hs"
  then obtain i where i: "i < length unicode_decomp_table1" "hs = pair_spans ! i"
    using decomp_tables_good by (auto simp: decomp_good_def in_set_conv_nth)
  then have "0 \<le> a \<and> b \<le> decomp_len (unicode_decomp_table1 ! i)"
    using decomp_tables_good \<open>(a, b) \<in> set hs\<close> by (auto simp: decomp_good_def decomp_run_ok_def list_all_iff)
  moreover have "decomp_len (unicode_decomp_table1 ! i) < 128" by (simp add: decomp_len_def)
  ultimately show ?thesis by simp
qed

lemma decomp_table1_unique:
  assumes "i < length unicode_decomp_table1" and "j < length unicode_decomp_table1"
    and "in_span decomp_code decomp_len (unicode_decomp_table1 ! i) c" and "in_span decomp_code decomp_len (unicode_decomp_table1 ! j) c"
  shows "i = j"
  using decomp_runs.spans_sorted_nth [OF decomp_table1_sorted, of i j]
    decomp_runs.spans_sorted_nth [OF decomp_table1_sorted, of j i] assms
  by (cases i j rule: linorder_cases) (auto simp: in_span_def)

text \<open>What a composition \<open>r\<close> of \<open>a\<close> and \<open>b\<close> is: a character named by the table with that canonical decomposition.
  U+0344 is the only one that is no starter, and its first part is none either.\<close>

definition pair_char :: "int \<Rightarrow> bool" where
  "pair_char r \<longleftrightarrow> (\<exists>i < length unicode_decomp_table1. in_spans (r - decomp_code (unicode_decomp_table1 ! i)) (pair_spans ! i))"

definition composes :: "int \<Rightarrow> int \<Rightarrow> int \<Rightarrow> bool" where
  "composes a b r \<longleftrightarrow> unicode_decomp_char r False = Some (2, [a, b]) \<and> pair_char r \<and> (r = 0x344 \<longrightarrow> a = 0x308) \<and> 0 \<le> r \<and> r < 2 ^ 32"

text \<open>An entry of the composition table names a canonical decomposition into two code points.\<close>

lemma comp_entry:
  assumes e: "e \<in> set unicode_comp_table" and i: "i = nat (uint e div 64)" and v: "v = unicode_decomp_table1 ! i"
    and ch: "ch = decomp_code v + uint e mod 64"
  obtains a b where "i < length unicode_decomp_table1" "u32i ch = ch"
    "unicode_decomp_entry ch i (decomp_code v) (decomp_len v) (decomp_type v) = Some (2, [a, b])"
    "composes a b ch" "0 \<le> a" "a < 2 ^ 32" "0 \<le> b" "b < 2 ^ 32"
proof -
  obtain p where "p \<in> set pair_ivs_parts" "in_spans (uint e) p" using pair_entry_parts [OF comp_table_entries [OF e]] by blast
  then have "in_spans (uint e) (pair_ivs 0 pair_spans)" unfolding pair_ivs_spans by (fastforce simp: in_spans_iff)
  from in_pair_ivs [OF this] have s: "i < length pair_spans" "in_spans (uint e mod 64) (pair_spans ! i)"
    using pair_spans_nonneg by (auto simp: i)
  have good: "length unicode_decomp_table2 = length unicode_decomp_table1" "length pair_spans = length unicode_decomp_table1"
      "decomp_run_ok v (pair_spans ! i) (decomp_value unicode_decomp_data v (unicode_decomp_table2 ! i))"
    using decomp_tables_good s(1) by (auto simp: decomp_good_def v)
  have il: "i < length unicode_decomp_table1" using s(1) good(2) by simp
  have k: "0 \<le> uint e mod 64" "uint e mod 64 < decomp_len v"
    using s(2) good(3) by (auto simp: in_spans_iff decomp_run_ok_def list_all_iff)
  have span: "in_span decomp_code decomp_len v ch" using k by (simp add: in_span_def ch)
  have "decomp_code v < 2 ^ 18" "0 \<le> decomp_code v" "decomp_len v < 2 ^ 7"
    using uint_lt2p [of v] by (simp_all add: decomp_code_def decomp_len_def pos_imp_zdiv_nonneg_iff)
  then have u: "u32i ch = ch" "ch < 2 ^ 32" "0 \<le> ch" using k by (simp_all add: u32i_def ch)
  have pc: "pair_char ch" unfolding pair_char_def using il s(2) by (intro exI [of _ i]) (simp add: ch v)
  show thesis
  proof (cases ch rule: decomp_char_cases)
    case none
    then show ?thesis using span il v by auto
  next
    case (run j w hs n ws)
    have "j = i" using decomp_table1_unique [OF run(1) il] run(2,4) span v by blast
    then have eq: "w = v" "hs = pair_spans ! i" using run v by simp_all
    have "n = 2 \<and> length ws = 2 \<and> decomp_compat v = 0 \<and> (\<forall>x \<in> set ws. decomp_below x ch) \<and> (ch = 0x344 \<longrightarrow> ws = [0x308, 0x301])"
      using run(6) s(2) unfolding eq by (auto simp: decomp_result_ok_def ch list_all_iff split: if_splits)
    moreover from this obtain a b where "ws = [a, b]" by (auto simp: length_Suc_conv numeral_2_eq_2)
    ultimately show ?thesis
      using run(5) run(8) [of False] decomp_below_range [of a ch] decomp_below_range [of b ch] u
      unfolding eq \<open>j = i\<close> by (intro that [of a b, OF il u(1)]) (simp_all add: composes_def pc)
  qed
qed

lemma s32i_zero: "0 \<le> a \<Longrightarrow> a < 2 ^ 32 \<Longrightarrow> 0 \<le> b \<Longrightarrow> b < 2 ^ 32 \<Longrightarrow> s32i (a - b) = 0 \<longleftrightarrow> a = b"
proof -
  assume r: "0 \<le> a" "a < 2 ^ 32" "0 \<le> b" "b < 2 ^ 32"
  have "s32i (a - b) = 0 \<longleftrightarrow> (a - b + 2 ^ 31) mod 2 ^ 32 = 2 ^ 31 mod 2 ^ 32" by (simp add: s32i_def)
  also have "\<dots> \<longleftrightarrow> 2 ^ 32 dvd a - b" unfolding mod_eq_dvd_iff by simp
  also have "\<dots> \<longleftrightarrow> a = b"
  proof
    assume "2 ^ 32 dvd a - b"
    then show "a = b" using r dvd_imp_le_int [of "a - b" "2 ^ 32"] by (cases "a = b") auto
  qed simp
  finally show ?thesis .
qed

section \<open>Soundness\<close>

lemma compose_find_sound:
  assumes "set tab \<subseteq> set unicode_comp_table" and "0 \<le> c0" "c0 < 2 ^ 32" "0 \<le> c1" "c1 < 2 ^ 32" and "idx_max < int (length tab)"
  shows "\<exists>r. compose_find tab c0 c1 idx_min idx_max = Some r \<and> (r = 0 \<or> composes c0 c1 r)"
  using assms
proof (induction "nat (idx_max - idx_min + 1)" arbitrary: idx_min idx_max rule: less_induct)
  case less
  show ?case
  proof (cases "idx_min \<le> idx_max \<and> 0 \<le> idx_min")
    case False
    then show ?thesis by (subst compose_find.simps) auto
  next
    case True
    define idx where "idx = (idx_max + idx_min) div 2"
    have idx: "idx_min \<le> idx" "idx \<le> idx_max" "nat idx < length tab" using True less.prems(6) by (auto simp: idx_def)
    define e where "e = tab ! nat idx"
    have e: "rd tab (nat idx) = Some e" "e \<in> set unicode_comp_table" using idx less.prems(1) by (auto simp: e_def rd_Some)
    define i where "i = nat (uint e div 64)"
    define v where "v = unicode_decomp_table1 ! i"
    define ch where "ch = decomp_code v + uint e mod 64"
    obtain a b where ab: "i < length unicode_decomp_table1" "u32i ch = ch"
        "unicode_decomp_entry ch i (decomp_code v) (decomp_len v) (decomp_type v) = Some (2, [a, b])"
        "composes a b ch" "0 \<le> a" "a < 2 ^ 32" "0 \<le> b" "b < 2 ^ 32"
      by (rule comp_entry [OF e(2) i_def v_def ch_def])
    have rv: "rd unicode_decomp_table1 i = Some v" using ab(1) by (simp add: rd_Some v_def)
    have rd01: "rd [a, b] 0 = Some a" "rd [a, b] 1 = Some b" "rd [a, b] (Suc 0) = Some b" by (simp_all add: rd_def)
    define d where "d = (if s32i (c0 - a) = 0 then s32i (c1 - b) else s32i (c0 - a))"
    have eq: "compose_find tab c0 c1 idx_min idx_max =
        (if d < 0 then compose_find tab c0 c1 idx_min (idx - 1) else if d > 0 then compose_find tab c0 c1 (idx + 1) idx_max else Some ch)"
      using True e(1) rv ab(3)
      by (subst compose_find.simps) (simp add: Let_def idx_def [symmetric] i_def [symmetric] ch_def [symmetric] ab(2) d_def rd01)
    have IH: "\<exists>r. compose_find tab c0 c1 idx_min (idx - 1) = Some r \<and> (r = 0 \<or> composes c0 c1 r)"
      "\<exists>r. compose_find tab c0 c1 (idx + 1) idx_max = Some r \<and> (r = 0 \<or> composes c0 c1 r)"
      using idx True less.prems by (auto intro!: less.hyps)
    show ?thesis
    proof (cases "d = 0")
      case True
      then have "c0 = a" "c1 = b"
        using s32i_zero less.prems(2-5) ab(5-8) by (auto simp: d_def split: if_splits)
      then show ?thesis unfolding eq using True ab(4) by simp
    next
      case False
      then show ?thesis unfolding eq using IH by (cases "d < 0") simp_all
    qed
  qed
qed

lemma unicode_compose_pair_sound:
  assumes "0 \<le> c0" "c0 < 2 ^ 32" "0 \<le> c1" "c1 < 2 ^ 32"
  shows "\<exists>r. unicode_compose_pair c0 c1 = Some r \<and> (r = 0 \<or> composes c0 c1 r)"
  unfolding unicode_compose_pair_def using assms by (intro compose_find_sound) simp_all

end
