(* ===== verification/ComposedStarters.thy ===== *)
theory ComposedStarters
  imports CanonOrder UnicodeCompose
begin

text \<open>
  Composed characters are starters: the combining class of every result of \<^verbatim>\<open>compose_pair\<close> is 0.
  The characters the composition table names and the Hangul syllables are compared with the items
  of \<^verbatim>\<open>unicode_cc_table\<close> in one walk over both, block by block.
\<close>

section \<open>Class zero on a list of intervals\<close>

text \<open>The intervals that start before the end \<open>e\<close> of an item, \<open>z\<close> telling whether its class is zero;
  what remains behind the item is returned.\<close>

fun spans_pass :: "bool \<Rightarrow> int \<Rightarrow> (int \<times> int) list \<Rightarrow> (int \<times> int) list option" where
  "spans_pass z e [] = Some []"
| "spans_pass z e ((a, b) # ss) =
     (if e \<le> a then Some ((a, b) # ss)
      else if \<not> z then None
      else if b \<le> e then spans_pass z e ss
      else Some ((e, b) # ss))"

lemma cc_item_k: "cc_item s bs = Some (n, k, s') \<Longrightarrow> 0 < k \<and> 0 < n \<and> bs \<noteq> []"
proof -
  assume "cc_item s bs = Some (n, k, s')"
  then obtain b8 bs1 l j x where "bs = b8 # bs1" "cc_item_len bs 1 (uint b8 mod 64) = Some (l, j)" "0 \<le> l" "n = l + 1"
    "if uint b8 div 64 > 1 then k = j \<and> k \<le> length bs
     else k = j + 1 \<and> rd bs j = Some x \<and> (uint b8 div 64 = 1 \<longrightarrow> uint x + l \<le> 255)"
    by (rule cc_item_cases)
  moreover have "1 \<le> j" using calculation(2) by (rule cc_item_len_pos)
  ultimately show ?thesis by (auto split: if_splits)
qed

function zero_walk :: "u8 list \<Rightarrow> int \<Rightarrow> (int \<times> int) list \<Rightarrow> int option" where
  "zero_walk bs code ss =
     (if bs = [] then if ss = [] then Some code else None
      else case cc_item () bs of
             None \<Rightarrow> None
           | Some (n, k, _) \<Rightarrow>
               (case spans_pass (uint (hd bs) div 64 = 2) (code + n) ss of
                  None \<Rightarrow> None
                | Some ss' \<Rightarrow> zero_walk (drop k bs) (code + n) ss'))"
  by pat_completeness auto
termination
  by (relation "measure (\<lambda>(bs, code, ss). length bs)") (auto dest!: cc_item_k)

declare zero_walk.simps [simp del]

lemma zero_walk_cases:
  assumes "zero_walk bs code ss = Some tot"
  obtains (end_of) "bs = []" "ss = []" "tot = code"
  | (item) n k ss' where "bs \<noteq> []" "cc_item () bs = Some (n, k, ())" "spans_pass (uint (hd bs) div 64 = 2) (code + n) ss = Some ss'"
      "zero_walk (drop k bs) (code + n) ss' = Some tot"
  using assms by (subst (asm) zero_walk.simps) (auto split: if_splits option.splits)

lemma zero_walk_le: "zero_walk bs code ss = Some tot \<Longrightarrow> code \<le> tot"
proof (induction bs code ss rule: zero_walk.induct)
  case (1 bs code ss)
  from "1.prems" show ?case
  proof (cases rule: zero_walk_cases)
    case (item n k ss')
    then have "code + n \<le> tot" using "1.IH" [OF item(1,2) refl refl item(3,4)] by simp
    then show ?thesis using cc_item_k [OF item(2)] by simp
  qed simp
qed

lemma spans_pass_append:
  "spans_pass z e ss = Some rs \<Longrightarrow> \<forall>(a, b) \<in> set ss'. e \<le> a \<Longrightarrow> spans_pass z e (ss @ ss') = Some (rs @ ss')"
proof (induction z e ss rule: spans_pass.induct)
  case (1 z e)
  then show ?case by (cases ss') auto
qed (auto split: if_splits)

lemma zero_walk_append:
  "zero_walk bs code ss = Some c1 \<Longrightarrow> zero_walk bs' c1 ss' = Some tot \<Longrightarrow> \<forall>(a, b) \<in> set ss'. c1 \<le> a \<Longrightarrow>
     zero_walk (bs @ bs') code (ss @ ss') = Some tot"
proof (induction bs code ss rule: zero_walk.induct)
  case (1 bs code ss)
  from "1.prems"(1) show ?case
  proof (cases rule: zero_walk_cases)
    case end_of
    then show ?thesis using "1.prems"(2) by simp
  next
    case (item n k rs)
    have k: "k \<le> length bs" "cc_item () (bs @ bs') = Some (n, k, ())"
      using stable_cc_item item(2) unfolding stable_item_def by blast+
    have "code + n \<le> c1" using zero_walk_le [OF item(4)] .
    then have "\<forall>(a, b) \<in> set ss'. code + n \<le> a" using "1.prems"(3) by fastforce
    then have p: "spans_pass (uint (hd bs) div 64 = 2) (code + n) (ss @ ss') = Some (rs @ ss')"
      by (rule spans_pass_append [OF item(3)])
    have "zero_walk (drop k bs @ bs') (code + n) (rs @ ss') = Some tot"
      using "1.IH" [OF item(1,2) refl refl item(3,4) "1.prems"(2,3)] .
    then show ?thesis using item(1) k p by (subst zero_walk.simps) simp
  qed
qed

text \<open>The scan of the table finds class zero on every interval.\<close>

fun covered :: "int \<Rightarrow> (int \<times> int) list \<Rightarrow> bool" where
  "covered c [] = False"
| "covered c ((a, b) # ss) = (if c < a then False else if c < b then True else covered c ss)"

lemma covered_in_spans: "sorted (map fst ss) \<Longrightarrow> in_spans c ss \<Longrightarrow> covered c ss"
  by (induction c ss rule: covered.induct) (force simp: in_spans_iff split: if_splits)+

lemma spans_pass_mem:
  "spans_pass z e ss = Some rs \<Longrightarrow> covered c ss \<Longrightarrow> (c < e \<longrightarrow> z) \<and> (e \<le> c \<longrightarrow> covered c rs)"
  by (induction z e ss rule: spans_pass.induct) (auto split: if_splits)

lemma zero_walk_scan:
  assumes "zero_walk (drop p tab) code ss = Some tot" and "0 \<le> code" and "tot < 2 ^ 31" and "covered c ss" and "code \<le> c"
  shows "unicode_get_cc_loop c tab p code = Some 0"
  using assms
proof (induction "length tab - p" arbitrary: p code ss rule: less_induct)
  case less
  from less.prems(1) show ?case
  proof (cases rule: zero_walk_cases)
    case end_of
    then show ?thesis using less.prems(4) by simp
  next
    case (item n k rs)
    note k = cc_item_k [OF item(2)]
    have le: "code + n \<le> tot" using zero_walk_le [OF item(4)] .
    note m = spans_pass_mem [OF item(3) less.prems(4)]
    show ?thesis
    proof (cases "code + n \<le> c")
      case True
      have "length tab - (p + k) < length tab - p" using item(1) k by (auto intro: diff_less_mono2)
      from less.hyps [OF this, of "code + n" rs] have "unicode_get_cc_loop c tab (p + k) (code + n) = Some 0"
        using item(4) m True less.prems k by (simp add: add.commute)
      then show ?thesis using cc_loop_item(1) [OF item(2) less.prems(2) _ True] le less.prems(3) by simp
    next
      case False
      then have "uint (hd (drop p tab)) div 64 = 2" using m by simp
      then show ?thesis
        using cc_loop_item(3) [OF item(2) less.prems(2), of c] False le less.prems(3) by simp
    qed
  qed
qed

section \<open>The composed characters\<close>

fun code_spans :: "u32 list \<Rightarrow> (int \<times> int) list list \<Rightarrow> (int \<times> int) list" where
  "code_spans (v # vs) (hs # hss) = map (\<lambda>(a, b). (decomp_code v + a, decomp_code v + b)) hs @ code_spans vs hss"
| "code_spans _ _ = []"

lemma code_spans_append:
  "length vs = length hss \<Longrightarrow> code_spans (vs @ vs') (hss @ hss') = code_spans vs hss @ code_spans vs' hss'"
  by (induction vs hss rule: list_induct2) auto

lemma in_code_spans:
  "length vs = length hss \<Longrightarrow> i < length vs \<Longrightarrow> in_spans k (hss ! i) \<Longrightarrow> in_spans (decomp_code (vs ! i) + k) (code_spans vs hss)"
proof (induction vs hss arbitrary: i rule: list_induct2)
  case (Cons v vs hs hss)
  show ?case
  proof (cases i)
    case 0
    then obtain a b where "(a, b) \<in> set hs" "a \<le> k" "k < b" using Cons.prems by (auto simp: in_spans_iff)
    then have "(decomp_code v + a, decomp_code v + b) \<in> set (code_spans (v # vs) (hs # hss))" by force
    then show ?thesis
      unfolding in_spans_iff 0 nth_Cons_0 by (rule rev_bexI) (use \<open>a \<le> k\<close> \<open>k < b\<close> in simp)
  next
    case (Suc j)
    then show ?thesis using Cons.IH [of j] Cons.prems by (auto simp: in_spans_iff)
  qed
qed simp

definition zero_spans_0 :: "(int \<times> int) list" where
  "zero_spans_0 = [(192, 198), (199, 208), (209, 215), (217, 222), (224, 230), (231, 240), (241, 247), (249, 254),
      (255, 256), (256, 272), (274, 294), (296, 304), (304, 305), (308, 312), (313, 319), (323, 329),
      (332, 338), (340, 358), (360, 376), (376, 377), (377, 383), (416, 418), (431, 433), (461, 477),
      (478, 484), (486, 492), (492, 497), (500, 502), (504, 512), (512, 540), (542, 544), (550, 564),
      (901, 903), (904, 907), (908, 909), (910, 913), (938, 945), (970, 975), (979, 981), (1024, 1026),
      (1027, 1028), (1031, 1032), (1036, 1039), (1049, 1050), (1081, 1082), (1104, 1106), (1107, 1108), (1111, 1112),
      (1116, 1119), (1142, 1144), (1217, 1219), (1232, 1236), (1238, 1240), (1242, 1248), (1250, 1256), (1258, 1270),
      (1272, 1274)]"

definition zero_spans_1 :: "(int \<times> int) list" where
  "zero_spans_1 = [(1570, 1575), (1728, 1729), (1730, 1731), (1747, 1748)]"

definition zero_spans_2 :: "(int \<times> int) list" where
  "zero_spans_2 = []"

definition zero_spans_3 :: "(int \<times> int) list" where
  "zero_spans_3 = [(2345, 2346), (2353, 2354), (2356, 2357), (2507, 2509)]"

definition zero_spans_4 :: "(int \<times> int) list" where
  "zero_spans_4 = [(2888, 2889), (2891, 2893), (2964, 2965), (3018, 3021), (3144, 3145), (3264, 3265), (3271, 3273), (3274, 3276),
      (3402, 3405), (3546, 3547), (3548, 3551)]"

definition zero_spans_5 :: "(int \<times> int) list" where
  "zero_spans_5 = [(3955, 3956), (3957, 3958), (3969, 3970), (4134, 4135)]"

definition zero_spans_6 :: "(int \<times> int) list" where
  "zero_spans_6 = [(6918, 6919), (6920, 6921), (6922, 6923), (6924, 6925), (6926, 6927), (6930, 6931), (6971, 6972), (6973, 6974),
      (6976, 6978), (6979, 6980)]"

definition zero_spans_7 :: "(int \<times> int) list" where
  "zero_spans_7 = [(7680, 7738), (7738, 7756), (7756, 7804), (7804, 7830), (7830, 7834), (7835, 7836), (7840, 7866), (7866, 7930),
      (7936, 7938), (7938, 7944), (7944, 7946), (7946, 7952), (7952, 7954), (7954, 7958), (7960, 7962), (7962, 7966),
      (7968, 8002), (8002, 8006), (8008, 8010), (8010, 8014), (8016, 8018), (8018, 8024), (8025, 8026), (8027, 8028),
      (8029, 8030), (8031, 8049), (8050, 8051), (8052, 8053), (8054, 8055), (8056, 8057), (8058, 8059), (8060, 8061),
      (8064, 8080), (8080, 8096), (8096, 8112), (8112, 8117), (8118, 8123), (8124, 8125), (8129, 8133), (8134, 8137),
      (8138, 8139), (8140, 8147), (8150, 8155), (8157, 8163), (8164, 8171), (8172, 8174), (8178, 8181), (8182, 8185),
      (8186, 8187), (8188, 8189)]"

definition zero_spans_8 :: "(int \<times> int) list" where
  "zero_spans_8 = [(8602, 8604), (8622, 8623), (8653, 8656), (8708, 8709), (8713, 8714), (8716, 8717), (8740, 8741), (8742, 8743),
      (8769, 8770), (8772, 8773), (8775, 8776), (8777, 8778), (8800, 8801), (8802, 8803), (8813, 8818), (8820, 8822),
      (8824, 8826), (8832, 8834), (8836, 8838), (8840, 8842), (8876, 8880), (8928, 8932), (8938, 8942), (12364, 12365),
      (12366, 12367), (12368, 12369), (12370, 12371), (12372, 12373), (12374, 12375), (12376, 12377), (12378, 12379), (12380, 12381),
      (12382, 12383), (12384, 12385), (12386, 12387), (12389, 12390), (12391, 12392), (12393, 12394), (12400, 12402), (12403, 12405),
      (12406, 12408), (12409, 12411), (12412, 12414), (12436, 12437), (12446, 12447), (12460, 12461), (12462, 12463), (12464, 12465),
      (12466, 12467), (12468, 12469), (12470, 12471), (12472, 12473), (12474, 12475), (12476, 12477), (12478, 12479), (12480, 12481),
      (12482, 12483), (12485, 12486), (12487, 12488), (12489, 12490), (12496, 12498), (12499, 12501), (12502, 12504), (12505, 12507),
      (12508, 12510), (12532, 12533), (12535, 12539), (12542, 12543)]"

definition zero_spans_9 :: "(int \<times> int) list" where
  "zero_spans_9 = [(44032, 55204)]"

definition zero_spans_10 :: "(int \<times> int) list" where
  "zero_spans_10 = [(69786, 69787), (69788, 69789), (69803, 69804), (69934, 69936)]"

definition zero_spans_11 :: "(int \<times> int) list" where
  "zero_spans_11 = [(70475, 70477), (70843, 70845), (70846, 70847), (71098, 71100)]"

definition zero_spans_12 :: "(int \<times> int) list" where
  "zero_spans_12 = [(71992, 71993)]"

definition zero_spans_13 :: "(int \<times> int) list" where
  "zero_spans_13 = []"

lemma zero_blocks:
  "zero_walk unicode_cc_table_0 0 zero_spans_0 = Some 1430"
  "zero_walk unicode_cc_table_1 1430 zero_spans_1 = Some 1765"
  "zero_walk unicode_cc_table_2 1765 zero_spans_2 = Some 2201"
  "zero_walk unicode_cc_table_3 2201 zero_spans_3 = Some 2766"
  "zero_walk unicode_cc_table_4 2766 zero_spans_4 = Some 3893"
  "zero_walk unicode_cc_table_5 3893 zero_spans_5 = Some 6457"
  "zero_walk unicode_cc_table_6 6457 zero_spans_6 = Some 7224"
  "zero_walk unicode_cc_table_7 7224 zero_spans_7 = Some 8411"
  "zero_walk unicode_cc_table_8 8411 zero_spans_8 = Some 43205"
  "zero_walk unicode_cc_table_9 43205 zero_spans_9 = Some 68111"
  "zero_walk unicode_cc_table_10 68111 zero_spans_10 = Some 70003"
  "zero_walk unicode_cc_table_11 70003 zero_spans_11 = Some 71352"
  "zero_walk unicode_cc_table_12 71352 zero_spans_12 = Some 113823"
  "zero_walk unicode_cc_table_13 113823 zero_spans_13 = Some 125259"
  by code_simp+

definition zero_spans :: "(int \<times> int) list" where
  "zero_spans = concat [zero_spans_0, zero_spans_1, zero_spans_2, zero_spans_3, zero_spans_4, zero_spans_5,
    zero_spans_6, zero_spans_7, zero_spans_8, zero_spans_9, zero_spans_10, zero_spans_11,
    zero_spans_12, zero_spans_13]"

text \<open>The blocks put together from the end.\<close>

lemma zero_starts:
  "list_all (\<lambda>(a, b). 0 \<le> a) zero_spans_0"
  "list_all (\<lambda>(a, b). 1430 \<le> a) zero_spans_1"
  "list_all (\<lambda>(a, b). 1765 \<le> a) zero_spans_2"
  "list_all (\<lambda>(a, b). 2201 \<le> a) zero_spans_3"
  "list_all (\<lambda>(a, b). 2766 \<le> a) zero_spans_4"
  "list_all (\<lambda>(a, b). 3893 \<le> a) zero_spans_5"
  "list_all (\<lambda>(a, b). 6457 \<le> a) zero_spans_6"
  "list_all (\<lambda>(a, b). 7224 \<le> a) zero_spans_7"
  "list_all (\<lambda>(a, b). 8411 \<le> a) zero_spans_8"
  "list_all (\<lambda>(a, b). 43205 \<le> a) zero_spans_9"
  "list_all (\<lambda>(a, b). 68111 \<le> a) zero_spans_10"
  "list_all (\<lambda>(a, b). 70003 \<le> a) zero_spans_11"
  "list_all (\<lambda>(a, b). 71352 \<le> a) zero_spans_12"
  "list_all (\<lambda>(a, b). 113823 \<le> a) zero_spans_13"
  by code_simp+

fun zero_walks :: "(u8 list \<times> (int \<times> int) list) list \<Rightarrow> int \<Rightarrow> int option" where
  "zero_walks [] code = Some code"
| "zero_walks ((bs, ss) # bls) code =
     do { code' \<leftarrow> zero_walk bs code ss;
          c_assert (\<forall>b \<in> set bls. list_all (\<lambda>(a, e). code' \<le> a) (snd b));
          zero_walks bls code' }"

lemma zero_walks_concat:
  "zero_walks bls code = Some tot \<Longrightarrow> zero_walk (concat (map fst bls)) code (concat (map snd bls)) = Some tot"
proof (induction bls code rule: zero_walks.induct)
  case (1 code)
  then show ?case by (subst zero_walk.simps) simp
next
  case (2 bs ss bls code)
  obtain code' where w: "zero_walk bs code ss = Some code'" and le: "\<forall>b \<in> set bls. list_all (\<lambda>(a, e). code' \<le> a) (snd b)"
      and r: "zero_walks bls code' = Some tot"
    using "2.prems" by (auto simp: bind_eq_Some_conv)
  have "\<forall>(a, b) \<in> set (concat (map snd bls)). code' \<le> a" using le by (auto simp: list_all_iff)
  from zero_walk_append [OF w "2.IH" [OF w _ r] this] show ?case using le by simp
qed

lemma zero_starts_le: "list_all (\<lambda>(a, b). y \<le> a) ss \<Longrightarrow> x \<le> y \<Longrightarrow> list_all (\<lambda>(a, b). x \<le> (a :: int)) ss"
  by (auto simp: list_all_iff)

lemma zero_table_walk: "zero_walk unicode_cc_table 0 zero_spans = Some 125259"
proof -
  have "zero_walks [
    (unicode_cc_table_0, zero_spans_0),
    (unicode_cc_table_1, zero_spans_1),
    (unicode_cc_table_2, zero_spans_2),
    (unicode_cc_table_3, zero_spans_3),
    (unicode_cc_table_4, zero_spans_4),
    (unicode_cc_table_5, zero_spans_5),
    (unicode_cc_table_6, zero_spans_6),
    (unicode_cc_table_7, zero_spans_7),
    (unicode_cc_table_8, zero_spans_8),
    (unicode_cc_table_9, zero_spans_9),
    (unicode_cc_table_10, zero_spans_10),
    (unicode_cc_table_11, zero_spans_11),
    (unicode_cc_table_12, zero_spans_12),
    (unicode_cc_table_13, zero_spans_13)] 0 = Some 125259"
    by (simp add: zero_blocks zero_starts [THEN zero_starts_le])
  from zero_walks_concat [OF this] show ?thesis
    by (simp only: unicode_cc_table_def zero_spans_def list.map fst_conv snd_conv)
qed

lemma code_spans_blocks:
  "code_spans unicode_decomp_table1_0 pair_spans_0 = [(192, 198), (199, 208), (209, 215), (217, 222), (224, 230), (231, 240), (241, 247), (249, 254),
      (255, 256), (256, 272), (274, 294), (296, 304), (304, 305), (308, 312), (313, 319), (323, 329),
      (332, 338), (340, 358), (360, 376)]"
  "code_spans unicode_decomp_table1_1 pair_spans_1 = [(376, 377), (377, 383), (416, 418), (431, 433), (461, 477), (478, 484), (486, 492), (492, 497),
      (500, 502), (504, 512), (512, 540), (542, 544), (550, 564), (836, 837), (901, 903), (904, 907),
      (908, 909), (910, 913), (938, 945)]"
  "code_spans unicode_decomp_table1_2 pair_spans_2 = [(970, 975), (979, 981), (1024, 1026), (1027, 1028), (1031, 1032), (1036, 1039), (1049, 1050), (1081, 1082),
      (1104, 1106), (1107, 1108), (1111, 1112), (1116, 1119), (1142, 1144), (1217, 1219), (1232, 1236), (1238, 1240),
      (1242, 1248), (1250, 1256), (1258, 1270), (1272, 1274), (1570, 1575), (1728, 1729), (1730, 1731), (1747, 1748),
      (2345, 2346), (2353, 2354), (2356, 2357), (2507, 2509)]"
  "code_spans unicode_decomp_table1_3 pair_spans_3 = [(2888, 2889), (2891, 2893), (2964, 2965), (3018, 3021), (3144, 3145), (3264, 3265), (3271, 3273), (3274, 3276),
      (3402, 3405), (3546, 3547), (3548, 3551), (3955, 3956), (3957, 3958), (3969, 3970)]"
  "code_spans unicode_decomp_table1_4 pair_spans_4 = [(4134, 4135), (6918, 6919), (6920, 6921), (6922, 6923), (6924, 6925), (6926, 6927), (6930, 6931), (6971, 6972),
      (6973, 6974), (6976, 6978), (6979, 6980), (7680, 7738)]"
  "code_spans unicode_decomp_table1_5 pair_spans_5 = [(7738, 7756), (7756, 7804), (7804, 7830), (7830, 7834), (7835, 7836), (7840, 7866), (7866, 7930)]"
  "code_spans unicode_decomp_table1_6 pair_spans_6 = [(7936, 7938), (7938, 7944), (7944, 7946), (7946, 7952), (7952, 7954), (7954, 7958), (7960, 7962), (7962, 7966),
      (7968, 8002), (8002, 8006), (8008, 8010), (8010, 8014), (8016, 8018), (8018, 8024), (8025, 8026), (8027, 8028),
      (8029, 8030), (8031, 8049), (8050, 8051)]"
  "code_spans unicode_decomp_table1_7 pair_spans_7 = [(8052, 8053), (8054, 8055), (8056, 8057), (8058, 8059), (8060, 8061), (8064, 8080), (8080, 8096), (8096, 8112),
      (8112, 8117), (8118, 8123), (8124, 8125), (8129, 8133), (8134, 8137), (8138, 8139), (8140, 8147), (8150, 8155),
      (8157, 8163), (8164, 8171), (8172, 8174), (8178, 8181), (8182, 8185)]"
  "code_spans unicode_decomp_table1_8 pair_spans_8 = [(8186, 8187), (8188, 8189)]"
  "code_spans unicode_decomp_table1_9 pair_spans_9 = []"
  "code_spans unicode_decomp_table1_10 pair_spans_10 = [(8602, 8604), (8622, 8623), (8653, 8656), (8708, 8709), (8713, 8714), (8716, 8717), (8740, 8741), (8742, 8743),
      (8769, 8770), (8772, 8773), (8775, 8776), (8777, 8778), (8800, 8801), (8802, 8803), (8813, 8818), (8820, 8822),
      (8824, 8826), (8832, 8834), (8836, 8838), (8840, 8842), (8876, 8880), (8928, 8932), (8938, 8942)]"
  "code_spans unicode_decomp_table1_11 pair_spans_11 = []"
  "code_spans unicode_decomp_table1_12 pair_spans_12 = [(12364, 12365), (12366, 12367), (12368, 12369), (12370, 12371), (12372, 12373), (12374, 12375), (12376, 12377), (12378, 12379),
      (12380, 12381), (12382, 12383), (12384, 12385), (12386, 12387), (12389, 12390), (12391, 12392), (12393, 12394)]"
  "code_spans unicode_decomp_table1_13 pair_spans_13 = [(12400, 12402), (12403, 12405), (12406, 12408), (12409, 12411), (12412, 12414), (12436, 12437), (12446, 12447), (12460, 12461),
      (12462, 12463), (12464, 12465), (12466, 12467), (12468, 12469), (12470, 12471), (12472, 12473), (12474, 12475), (12476, 12477),
      (12478, 12479), (12480, 12481), (12482, 12483), (12485, 12486), (12487, 12488), (12489, 12490), (12496, 12498), (12499, 12501),
      (12502, 12504), (12505, 12507), (12508, 12510), (12532, 12533), (12535, 12539), (12542, 12543)]"
  "code_spans unicode_decomp_table1_14 pair_spans_14 = []"
  "code_spans unicode_decomp_table1_15 pair_spans_15 = []"
  "code_spans unicode_decomp_table1_16 pair_spans_16 = []"
  "code_spans unicode_decomp_table1_17 pair_spans_17 = []"
  "code_spans unicode_decomp_table1_18 pair_spans_18 = []"
  "code_spans unicode_decomp_table1_19 pair_spans_19 = []"
  "code_spans unicode_decomp_table1_20 pair_spans_20 = []"
  "code_spans unicode_decomp_table1_21 pair_spans_21 = []"
  "code_spans unicode_decomp_table1_22 pair_spans_22 = []"
  "code_spans unicode_decomp_table1_23 pair_spans_23 = []"
  "code_spans unicode_decomp_table1_24 pair_spans_24 = []"
  "code_spans unicode_decomp_table1_25 pair_spans_25 = []"
  "code_spans unicode_decomp_table1_26 pair_spans_26 = []"
  "code_spans unicode_decomp_table1_27 pair_spans_27 = []"
  "code_spans unicode_decomp_table1_28 pair_spans_28 = [(69786, 69787), (69788, 69789), (69803, 69804)]"
  "code_spans unicode_decomp_table1_29 pair_spans_29 = [(69934, 69936), (70475, 70477), (70843, 70845), (70846, 70847), (71098, 71100), (71992, 71993)]"
  "code_spans unicode_decomp_table1_30 pair_spans_30 = []"
  "code_spans unicode_decomp_table1_31 pair_spans_31 = []"
  "code_spans unicode_decomp_table1_32 pair_spans_32 = []"
  "code_spans unicode_decomp_table1_33 pair_spans_33 = []"
  "code_spans unicode_decomp_table1_34 pair_spans_34 = []"
  "code_spans unicode_decomp_table1_35 pair_spans_35 = []"
  "code_spans unicode_decomp_table1_36 pair_spans_36 = []"
  by code_simp+

lemma table1_lengths:
  "length unicode_decomp_table1_0 = 24"
  "length unicode_decomp_table1_1 = 30"
  "length unicode_decomp_table1_2 = 36"
  "length unicode_decomp_table1_3 = 36"
  "length unicode_decomp_table1_4 = 13"
  "length unicode_decomp_table1_5 = 8"
  "length unicode_decomp_table1_6 = 17"
  "length unicode_decomp_table1_7 = 36"
  "length unicode_decomp_table1_8 = 36"
  "length unicode_decomp_table1_9 = 36"
  "length unicode_decomp_table1_10 = 36"
  "length unicode_decomp_table1_11 = 24"
  "length unicode_decomp_table1_12 = 7"
  "length unicode_decomp_table1_13 = 24"
  "length unicode_decomp_table1_14 = 17"
  "length unicode_decomp_table1_15 = 21"
  "length unicode_decomp_table1_16 = 35"
  "length unicode_decomp_table1_17 = 35"
  "length unicode_decomp_table1_18 = 29"
  "length unicode_decomp_table1_19 = 11"
  "length unicode_decomp_table1_20 = 1"
  "length unicode_decomp_table1_21 = 3"
  "length unicode_decomp_table1_22 = 18"
  "length unicode_decomp_table1_23 = 6"
  "length unicode_decomp_table1_24 = 1"
  "length unicode_decomp_table1_25 = 3"
  "length unicode_decomp_table1_26 = 8"
  "length unicode_decomp_table1_27 = 10"
  "length unicode_decomp_table1_28 = 14"
  "length unicode_decomp_table1_29 = 36"
  "length unicode_decomp_table1_30 = 36"
  "length unicode_decomp_table1_31 = 18"
  "length unicode_decomp_table1_32 = 21"
  "length unicode_decomp_table1_33 = 2"
  "length unicode_decomp_table1_34 = 3"
  "length unicode_decomp_table1_35 = 1"
  "length unicode_decomp_table1_36 = 1"
  by code_simp+

lemma code_spans_zero: "set (code_spans unicode_decomp_table1 pair_spans) \<subseteq> insert (836, 837) (set zero_spans)"
proof -
  have "code_spans unicode_decomp_table1 pair_spans = takeWhile (\<lambda>e. fst e < 836) zero_spans_0 @ (836, 837) # dropWhile (\<lambda>e. fst e < 836) zero_spans_0 @ concat [zero_spans_1, zero_spans_2, zero_spans_3, zero_spans_4, zero_spans_5,
      zero_spans_6, zero_spans_7, zero_spans_8, zero_spans_10, zero_spans_11,
      zero_spans_12, zero_spans_13]"
    unfolding pair_spans_def decomp_parts_def unicode_decomp_table1_def
    by (simp add: code_spans_append code_spans_blocks table1_lengths pair_spans_length)
      (simp add: zero_spans_0_def zero_spans_1_def zero_spans_2_def zero_spans_3_def zero_spans_4_def zero_spans_5_def zero_spans_6_def zero_spans_7_def zero_spans_8_def zero_spans_10_def zero_spans_11_def zero_spans_12_def zero_spans_13_def)
  then show ?thesis unfolding zero_spans_def by (auto dest: set_takeWhileD set_dropWhileD)
qed

lemma zero_spans_sorted: "sorted (map fst zero_spans)"
  by code_simp

lemma zero_spans_bound: "list_all (\<lambda>(a, b). b \<le> 0x20000) zero_spans"
  by code_simp

lemma zero_span_class:
  assumes "in_spans c zero_spans" and "0 \<le> c"
  shows "ccc c = 0"
proof -
  have len: "length unicode_cc_index = 3 * (length unicode_cc_index div 3)" "2 \<le> length unicode_cc_index div 3"
    by (simp_all add: cc_index)
  have z: "unicode_get_cc_loop c unicode_cc_table 0 0 = Some 0"
    using zero_walk_scan [of 0 unicode_cc_table 0 zero_spans _ c] zero_table_walk covered_in_spans [OF zero_spans_sorted assms(1)] assms(2) by simp
  have c: "c < 2 ^ 32" using assms(1) zero_spans_bound by (fastforce simp: in_spans_iff list_all_iff)
  have u: "uint (word_of_int c :: u32) = c" using assms(2) c by (simp add: uint_word_of_int_eq take_bit_int_eq_self)
  have "unicode_get_cc c = Some 0"
  proof (cases rule: get_index_pos_cases [OF len, where c = "word_of_int c", case_names start beyond here])
    case start
    then show ?thesis using z by (simp add: unicode_get_cc_def)
  next
    case beyond
    then show ?thesis by (simp add: unicode_get_cc_def)
  next
    case (here pos code)
    then have "unicode_get_cc_loop c unicode_cc_table pos (uint code) = Some 0"
      using cc_scan.indexed_scan [OF len here(1)] z unfolding u by simp
    then show ?thesis using here(1) by (simp add: unicode_get_cc_def)
  qed
  then show ?thesis by (simp add: ccc_def)
qed

lemma hangul_class: "hangul_syllable c \<Longrightarrow> ccc c = 0"
proof -
  assume c: "hangul_syllable c"
  have "(44032, 55204) \<in> set zero_spans" by (simp add: zero_spans_def zero_spans_9_def)
  then have "in_spans c zero_spans" using c unfolding in_spans_iff hangul_syllable_def by fastforce
  then show ?thesis using c by (intro zero_span_class) (simp_all add: hangul_syllable_def)
qed

lemma dialytika_class: "unicode_get_cc 0x308 = Some 230"
  by code_simp

lemma composed_class:
  assumes "composes a b r" and "ccc a = 0"
  shows "ccc r = 0"
proof -
  obtain i where i: "i < length unicode_decomp_table1" "in_spans (r - decomp_code (unicode_decomp_table1 ! i)) (pair_spans ! i)"
    using assms(1) by (auto simp: composes_def pair_char_def)
  have "length unicode_decomp_table1 = length pair_spans" using decomp_tables_good by (simp add: decomp_good_def)
  from in_code_spans [OF this i] have "in_spans r (code_spans unicode_decomp_table1 pair_spans)" by simp
  then have "in_spans r zero_spans \<or> r = 836" using code_spans_zero by (fastforce simp: in_spans_iff)
  moreover have "r \<noteq> 836" using assms dialytika_class by (auto simp: composes_def ccc_def)
  ultimately show ?thesis using assms(1) by (auto simp: composes_def intro: zero_span_class)
qed

section \<open>Soundness of composition\<close>

lemma hangul_not_in_table: "hangul_syllable r \<Longrightarrow> \<not> composes a b r"
proof
  assume r: "hangul_syllable r" "composes a b r"
  have "(0xac00, 0xd7a4) \<in> set decomp_gaps" by (simp add: decomp_gaps_def)
  then have "in_spans r decomp_gaps" using r(1) unfolding in_spans_iff hangul_syllable_def by blast
  then show False using decomp_gap [of r False] r(2) by (simp add: composes_def)
qed

lemma full_decomp_composed: "composes a b r \<Longrightarrow> full_decomp False r = full_decomp False a @ full_decomp False b"
  using hangul_not_in_table [of r a b] by (auto simp: composes_def full_decomp.simps [of False r])

text \<open>A composition stands for the two characters: its full decomposition is that of the first followed
  by that of the second.  U+11A7 must be excluded: \<^verbatim>\<open>compose_pair\<close> takes it for an empty final consonant.\<close>

lemma hangul_lv:
  assumes "0 \<le> l" "l < 19" "0 \<le> v" "v < 21"
  shows "hangul_syllable (0xac00 + l * 588 + v * 28)" and "hangul_decomp (0xac00 + l * 588 + v * 28) = [0x1100 + l, 0x1161 + v]"
proof -
  define s where "s = l * 588 + v * 28"
  have d: "s div 588 = l" "s mod 588 = v * 28"
    using assms int_div_pos_eq [of s 588 l "v * 28"] int_mod_pos_eq [of s 588 l "v * 28"] by (simp_all add: s_def)
  have m: "s mod 28 = 0" by (simp add: s_def mod_add_eq [symmetric] mod_mult_eq [symmetric])
  have sub: "0xac00 + l * 588 + v * 28 - 0xac00 = s" by (simp add: s_def)
  show "hangul_decomp (0xac00 + l * 588 + v * 28) = [0x1100 + l, 0x1161 + v]"
    unfolding hangul_decomp_def Let_def sub d m by simp
  have "0 \<le> s" "s \<le> 18 * 588 + 20 * 28" using assms by (simp_all add: s_def)
  then show "hangul_syllable (0xac00 + l * 588 + v * 28)" by (simp add: hangul_syllable_def s_def)
qed

lemma hangul_lvt:
  assumes "hangul_syllable s" and "(s - 0xac00) mod 28 = 0" and "0 < t" "t < 28"
  shows "hangul_syllable (s + t)" and "hangul_decomp (s + t) = hangul_decomp s @ [0x11a7 + t]"
proof -
  define x where "x = s - 0xac00"
  have x: "0 \<le> x" "x < 11172" "x mod 28 = 0" using assms(1,2) by (simp_all add: x_def hangul_syllable_def)
  then obtain k where k: "x = 28 * k" by (auto elim: dvdE simp: mod_eq_0_iff_dvd)
  define q m where "q = k div 21" and "m = k mod 21"
  have "k = 21 * q + m" and m: "0 \<le> m" "m < 21" by (simp_all add: q_def m_def)
  then have split: "x = 588 * q + 28 * m" "x + t = 588 * q + (28 * m + t)" using k by simp_all
  have parts: "x div 588 = q" "x mod 588 = 28 * m" "(x + t) div 588 = q" "(x + t) mod 588 = 28 * m + t" "(28 * m + t) div 28 = m" "(28 * m) div 28 = m"
    using int_div_pos_eq [OF split(1)] int_mod_pos_eq [OF split(1)] int_div_pos_eq [OF split(2)] int_mod_pos_eq [OF split(2)]
      int_div_pos_eq [of "28 * m + t" 28 m t] m assms(3,4) by simp_all
  have t: "(x + t) mod 28 = t" using int_mod_pos_eq [of "x + t" 28 k t] k assms(3,4) by simp
  have sub: "s + t - 0xac00 = x + t" "s - 0xac00 = x" by (simp_all add: x_def)
  show "hangul_decomp (s + t) = hangul_decomp s @ [0x11a7 + t]"
    unfolding hangul_decomp_def Let_def sub parts t x(3) using assms(3) by simp
  have "k < 399" using x k by simp
  then show "hangul_syllable (s + t)" using k x(1) assms(3,4) by (simp add: hangul_syllable_def x_def)
qed

lemma compose_pair_sound:
  assumes "code_point c0" and "code_point c1" and "c1 \<noteq> 0x11a7"
  obtains r where "compose_pair c0 c1 = Some r"
    "r \<noteq> 0 \<Longrightarrow> full_decomp False r = full_decomp False c0 @ full_decomp False c1"
    "r \<noteq> 0 \<Longrightarrow> ccc c0 = 0 \<Longrightarrow> ccc r = 0" "r \<noteq> 0 \<Longrightarrow> code_point r"
proof -
  have hangul: "code_point r \<and> full_decomp False r = hangul_decomp r \<and> ccc r = 0" if "hangul_syllable r" for r
    using that hangul_class by (simp add: full_decomp.simps [of False r] code_point_def) (simp add: hangul_syllable_def)
  have jamo: "full_decomp False x = [x]" if "0x1100 \<le> x" "x < 0x1200" for x
    using full_decomp_id [OF jamo_decomposed [OF that]] .
  consider (lv) "c0 \<ge> 0x1100 \<and> c0 < 0x1100 + 19 \<and> c1 \<ge> 0x1161 \<and> c1 < 0x1161 + 21"
    | (lvt) "\<not> (c0 \<ge> 0x1100 \<and> c0 < 0x1100 + 19 \<and> c1 \<ge> 0x1161 \<and> c1 < 0x1161 + 21)"
        "c0 \<ge> 0xac00 \<and> c0 < 0xac00 + 11172 \<and> (c0 - 0xac00) mod 28 = 0 \<and> c1 \<ge> 0x11a7 \<and> c1 < 0x11a7 + 28"
    | (table) "\<not> (c0 \<ge> 0x1100 \<and> c0 < 0x1100 + 19 \<and> c1 \<ge> 0x1161 \<and> c1 < 0x1161 + 21)"
        "\<not> (c0 \<ge> 0xac00 \<and> c0 < 0xac00 + 11172 \<and> (c0 - 0xac00) mod 28 = 0 \<and> c1 \<ge> 0x11a7 \<and> c1 < 0x11a7 + 28)"
    by argo
  then show thesis
  proof cases
    case lv
    define r where "r = 0xac00 + (c0 - 0x1100) * 588 + (c1 - 0x1161) * 28"
    have c: "compose_pair c0 c1 = Some r" unfolding compose_pair_def if_P [OF lv] r_def ..
    have "hangul_syllable r" "hangul_decomp r = [c0, c1]"
      using hangul_lv [of "c0 - 0x1100" "c1 - 0x1161"] lv by (simp_all add: r_def)
    then show ?thesis using that [OF c] lv hangul [of r] jamo [of c0] jamo [of c1] by simp
  next
    case lvt
    define r where "r = c0 + (c1 - 0x11a7)"
    have c: "compose_pair c0 c1 = Some r" unfolding compose_pair_def if_not_P [OF lvt(1)] if_P [OF lvt(2)] r_def by simp
    have h0: "hangul_syllable c0" using lvt by (simp add: hangul_syllable_def)
    have "hangul_syllable r" "hangul_decomp r = hangul_decomp c0 @ [c1]"
      using hangul_lvt [OF h0, of "c1 - 0x11a7"] lvt assms(3) by (simp_all add: r_def)
    then show ?thesis using that [OF c] lvt hangul [of r] hangul [OF h0] jamo [of c1] by simp
  next
    case table
    obtain r where r: "unicode_compose_pair c0 c1 = Some r" "r = 0 \<or> composes c0 c1 r"
      using unicode_compose_pair_sound [of c0 c1] assms by (auto simp: code_point_def)
    have "compose_pair c0 c1 = Some r" unfolding compose_pair_def if_not_P [OF table(1)] if_not_P [OF table(2)] by (rule r(1))
    moreover have "code_point r" if "composes c0 c1 r" using that by (simp add: composes_def code_point_def)
    ultimately show ?thesis using that r(2) full_decomp_composed [of c0 c1 r] composed_class [of c0 c1 r] by blast
  qed
qed

end
