(* ===== verification/UnicodeNormalize.thy ===== *)
theory UnicodeNormalize
  imports ComposedStarters
begin

text \<open>
  Normalization of a string (\<^verbatim>\<open>unicode_normalize\<close> of \<^verbatim>\<open>libunicode.c\<close>): decomposition into a dynamic
  buffer, canonical ordering, and composition in place.
\<close>

section \<open>Operations\<close>

definition UNICODE_NFC :: nat where "UNICODE_NFC = 0"
definition UNICODE_NFD :: nat where "UNICODE_NFD = 1"
definition UNICODE_NFKC :: nat where "UNICODE_NFKC = 2"
definition UNICODE_NFKD :: nat where "UNICODE_NFKD = 3"

text \<open>The buffer of bytes read as an array of \<^verbatim>\<open>int\<close>.\<close>

fun buf_ints :: "u8 list \<Rightarrow> int list" where
  "buf_ints (a # b # c # d # bs) = uint (le_word [a, b, c, d] :: u32) # buf_ints bs"
| "buf_ints _ = []"

text \<open>The search for the starter: \<open>Some None\<close> is the jump to \<^verbatim>\<open>next\<close>.\<close>

function find_starter :: "int list \<Rightarrow> int \<Rightarrow> int \<Rightarrow> int option option" where
  "find_starter buf last_cc starter_pos =
     (if starter_pos \<ge> 0 then
        do { x \<leftarrow> rd buf (nat starter_pos);
             cc \<leftarrow> unicode_get_cc x;
             if cc = 0 then Some (Some starter_pos)
             else if cc \<ge> last_cc then Some None
             else find_starter buf 256 (starter_pos - 1) }
      else Some (Some starter_pos))"
  by pat_completeness auto
termination
  by (relation "measure (\<lambda>(buf, last_cc, starter_pos). nat (starter_pos + 1))") auto

text \<open>The composition of the character at a starter with the character \<open>x\<close>; \<open>None\<close> is the branch
  \<^verbatim>\<open>next\<close>.\<close>

definition try_compose :: "int list \<Rightarrow> int option \<Rightarrow> int \<Rightarrow> (nat \<times> int) option option" where
  "try_compose buf r x =
     (case r of
        None \<Rightarrow> Some None
      | Some starter_pos \<Rightarrow>
          if starter_pos \<ge> 0 then
            do { s \<leftarrow> rd buf (nat starter_pos);
                 p \<leftarrow> compose_pair s x;
                 Some (if p \<noteq> 0 then Some (nat starter_pos, p) else None) }
          else Some None)"

function compose_loop :: "int list \<Rightarrow> nat \<Rightarrow> nat \<Rightarrow> nat \<Rightarrow> (int list \<times> nat) option" where
  "compose_loop buf buf_len i out_len =
     (if i < buf_len then
        do { x \<leftarrow> rd buf i;
             last_cc \<leftarrow> unicode_get_cc x;
             r \<leftarrow> find_starter buf last_cc (int out_len - 1);
             c \<leftarrow> try_compose buf r x;
             case c of
               Some (starter_pos, p) \<Rightarrow>
                 do { buf \<leftarrow> wr buf starter_pos p; compose_loop buf buf_len (i + 1) out_len }
             | None \<Rightarrow>
                 do { buf \<leftarrow> wr buf out_len x; compose_loop buf buf_len (i + 1) (out_len + 1) } }
      else Some (buf, out_len))"
  by pat_completeness auto
termination
  by (relation "measure (\<lambda>(buf, buf_len, i, out_len). buf_len - i)") auto

declare find_starter.simps [simp del] compose_loop.simps [simp del]

text \<open>The result is the value returned, the array behind \<^verbatim>\<open>*pdst\<close> (\<open>None\<close> for \<^verbatim>\<open>NULL\<close>) and the allocator
  state.  A buffer of \<open>2\<^sup>3\<^sup>1\<close> characters does not fit the \<^verbatim>\<open>int\<close> that counts it.\<close>

definition unicode_normalize :: "int list \<Rightarrow> nat \<Rightarrow> 'h realloc_func \<Rightarrow> 'h \<Rightarrow> (int \<times> int list option \<times> 'h) option" where
  "unicode_normalize src n_type realloc_func h =
     (let is_compat = (n_type div 2 \<noteq> 0);
          (r, dbuf, h) = dbuf_realloc (dbuf_init2 (Some realloc_func) realloc_func) (szmul 4 (length src)) h
      in if r \<noteq> 0 then Some (-1, None, h)
         else if n_type = UNICODE_NFC \<and> list_all (\<lambda>c. c < 0x100) src then
           do { b \<leftarrow> wr_block (db_buf dbuf) 0 (concat (map code_bytes src));
                Some (int (length src), Some (buf_ints b), h) }
         else
           do { (dbuf, h) \<leftarrow> to_nfd_rec dbuf src is_compat h;
                if dbuf_error dbuf then Some (-1, None, h)
                else
                  do { let buf_len = db_size dbuf div 4;
                       c_assert (buf_len < 2 ^ 31);
                       buf \<leftarrow> sort_cc (buf_ints (db_content dbuf)) buf_len;
                       if buf_len \<le> 1 \<or> n_type mod 2 \<noteq> 0 then Some (int buf_len, Some buf, h)
                       else do { (buf, out_len) \<leftarrow> compose_loop buf buf_len 1 1;
                                 Some (int out_len, Some buf, h) } } })"

section \<open>The buffer as an array\<close>

lemma length_code_bytes [simp]: "length (code_bytes c) = 4"
  by (simp add: code_bytes_def)

lemma buf_ints_code: "code_point c \<Longrightarrow> buf_ints (code_bytes c @ bs) = c # buf_ints bs"
proof -
  assume c: "code_point c"
  obtain a1 a2 a3 a4 where a: "code_bytes c = [a1, a2, a3, a4]"
    using length_code_bytes [of c] by (auto simp del: length_code_bytes simp: length_Suc_conv eval_nat_numeral)
  have "(le_word (code_bytes c) :: u32) = word_of_int c" unfolding code_bytes_def by (rule le_word_le_bytes) simp
  then show ?thesis using c unfolding a by (simp add: code_point_def uint_word_of_int_eq take_bit_int_eq_self)
qed

lemma buf_ints_codes: "\<forall>c \<in> set cs. code_point c \<Longrightarrow> buf_ints (concat (map code_bytes cs) @ bs) = cs @ buf_ints bs"
  by (induction cs) (simp_all add: buf_ints_code)

lemma length_codes [simp]: "length (concat (map code_bytes cs)) = 4 * length cs"
  by (induction cs) simp_all

section \<open>Composition keeps canonical equivalence\<close>

text \<open>The canonical decomposition of a string: canonical order of the full decompositions.\<close>

definition canon_decomp :: "bool \<Rightarrow> int list \<Rightarrow> int list" where
  "canon_decomp ic src = canon_order ccc (full_decomps ic src)"

definition cc_sorted :: "int list \<Rightarrow> bool" where
  "cc_sorted = successively (\<lambda>a b. ccc b = 0 \<or> ccc a \<le> ccc b)"

lemma successively_sorted_key:
  "sorted (map ccc xs) \<Longrightarrow> cc_sorted xs"
  unfolding cc_sorted_def by (induction xs rule: induct_list012) auto

lemma cc_sorted_append_starter:
  "cc_sorted xs \<Longrightarrow> cc_sorted (s # ys) \<Longrightarrow> ccc s = 0 \<Longrightarrow> cc_sorted (xs @ s # ys)"
  unfolding cc_sorted_def by (auto simp: successively_append_iff)

lemma canon_order_sorted: "\<forall>y \<in> set xs. code_point y \<Longrightarrow> cc_sorted (canon_order ccc xs)"
proof (induction "length xs" arbitrary: xs rule: less_induct)
  case less
  show ?case
  proof (cases "\<forall>y \<in> set xs. ccc y \<noteq> 0")
    case True
    then show ?thesis by (simp add: canon_order_run successively_sorted_key)
  next
    case False
    then obtain u s v where x: "xs = u @ s # v" "ccc s = 0" "\<forall>y \<in> set u. ccc y \<noteq> 0"
      using split_list_first_prop [of xs "\<lambda>y. ccc y = 0"] by auto
    have v: "cc_sorted (canon_order ccc v)" using less.hyps [of v] less.prems x(1) by simp
    have ge: "0 \<le> ccc y" if "y \<in> set (canon_order ccc v)" for y using that less.prems x(1) ccc_range by simp
    have "cc_sorted (s # canon_order ccc v)"
      using v x(2) ge unfolding cc_sorted_def by (cases "canon_order ccc v") auto
    from cc_sorted_append_starter [OF successively_sorted_key this x(2), of "sort_key ccc u"] show ?thesis
      unfolding x(1) canon_order_starter [of u ccc, OF x(3,2)] by simp
  qed
qed

text \<open>A character moves forward over characters of other non-zero classes.\<close>

lemma canon_order_move:
  assumes "ccc x \<noteq> 0" and "\<forall>m \<in> set ms. ccc m \<noteq> 0 \<and> ccc m \<noteq> ccc x"
  shows "canon_order ccc (u @ ms @ x # v) = canon_order ccc (u @ x # ms @ v)"
  using assms(2)
proof (induction ms arbitrary: u)
  case (Cons m ms)
  have "canon_order ccc (u @ (m # ms) @ x # v) = canon_order ccc ((u @ [m]) @ x # ms @ v)"
    using Cons.IH [of "u @ [m]"] Cons.prems by simp
  also have "\<dots> = canon_order ccc (u @ x # m # ms @ v)"
    using canon_order_swap [of ccc m x u "ms @ v"] assms(1) Cons.prems by simp
  finally show ?case by simp
qed simp

lemma cc_sorted_le_last:
  "cc_sorted (ms @ [m]) \<Longrightarrow> \<forall>y \<in> set (ms @ [m]). ccc y \<noteq> 0 \<Longrightarrow> y \<in> set ms \<Longrightarrow> ccc y \<le> ccc m"
proof (induction ms arbitrary: m rule: rev_induct)
  case (snoc m' ms)
  have "cc_sorted (ms @ [m'])" "ccc m' \<le> ccc m"
    using snoc.prems by (auto simp: cc_sorted_def successively_append_iff)
  then show ?case using snoc.IH [of m'] snoc.prems by fastforce
qed simp

text \<open>The search finds the last starter, unless the character is blocked.\<close>

lemma find_starter_spec:
  assumes "\<forall>y \<in> set pre. code_point y"
  shows "\<exists>r. find_starter (pre @ post) last_cc (int (length pre) - 1) = Some r \<and>
     (case r of None \<Rightarrow> True
      | Some k \<Rightarrow> k = -1 \<or> (\<exists>a s ms. pre = a @ s # ms \<and> k = int (length a) \<and> ccc s = 0 \<and> (\<forall>m \<in> set ms. ccc m \<noteq> 0) \<and>
          (ms \<noteq> [] \<longrightarrow> ccc (last ms) < last_cc)))"
  using assms
proof (induction pre arbitrary: post last_cc rule: rev_induct)
  case Nil
  then show ?case by (subst find_starter.simps) simp
next
  case (snoc x pre)
  have rd: "rd ((pre @ [x]) @ post) (length pre) = Some x" by (simp add: rd_def nth_append)
  have x: "unicode_get_cc x = Some (ccc x)" using snoc.prems unicode_get_cc_ccc by simp
  have eq: "find_starter ((pre @ [x]) @ post) last_cc (int (length (pre @ [x])) - 1) =
      (if ccc x = 0 then Some (Some (int (length pre))) else if ccc x \<ge> last_cc then Some None
       else find_starter (pre @ x # post) 256 (int (length pre) - 1))"
    using rd x by (subst find_starter.simps) simp
  show ?case
  proof (cases "ccc x = 0")
    case True
    have "\<exists>a s ms. pre @ [x] = a @ s # ms \<and> int (length pre) = int (length a) \<and> ccc s = 0 \<and> (\<forall>m \<in> set ms. ccc m \<noteq> 0) \<and>
        (ms \<noteq> [] \<longrightarrow> ccc (last ms) < last_cc)"
      by (rule exI [of _ pre], rule exI [of _ x], rule exI [of _ "[]"]) (simp add: True)
    then show ?thesis unfolding eq if_P [OF True] by (intro exI [of _ "Some (int (length pre))"]) (simp only: option.case simp_thms)
  next
    case False
    show ?thesis
    proof (cases "ccc x \<ge> last_cc")
      case True
      then show ?thesis unfolding eq using False by simp
    next
      case lt: False
      obtain r where r: "find_starter (pre @ x # post) 256 (int (length pre) - 1) = Some r"
        "case r of None \<Rightarrow> True
          | Some k \<Rightarrow> k = -1 \<or> (\<exists>a s ms. pre = a @ s # ms \<and> k = int (length a) \<and> ccc s = 0 \<and> (\<forall>m \<in> set ms. ccc m \<noteq> 0) \<and>
              (ms \<noteq> [] \<longrightarrow> ccc (last ms) < 256))"
        using snoc.IH [of "x # post" 256] snoc.prems by auto
      have "case r of None \<Rightarrow> True
          | Some k \<Rightarrow> k = -1 \<or> (\<exists>a s ms. pre @ [x] = a @ s # ms \<and> k = int (length a) \<and> ccc s = 0 \<and> (\<forall>m \<in> set ms. ccc m \<noteq> 0) \<and>
              (ms \<noteq> [] \<longrightarrow> ccc (last ms) < last_cc))"
      proof (cases r)
        case (Some k)
        show ?thesis
        proof (cases "k = -1")
          case ne: False
          then obtain a s ms where "pre = a @ s # ms" "k = int (length a)" "ccc s = 0" "\<forall>m \<in> set ms. ccc m \<noteq> 0"
            using r(2) Some by auto
          then have "pre @ [x] = a @ s # (ms @ [x]) \<and> k = int (length a) \<and> ccc s = 0 \<and> (\<forall>m \<in> set (ms @ [x]). ccc m \<noteq> 0) \<and>
              (ms @ [x] \<noteq> [] \<longrightarrow> ccc (last (ms @ [x])) < last_cc)" using False lt by simp
          then show ?thesis unfolding Some option.case by blast
        qed (simp add: Some)
      qed simp
      then show ?thesis unfolding eq using False lt r(1) by simp
    qed
  qed
qed

text \<open>The state of the composition: the output so far, the rest of the input, and the string \<open>B\<close> it all stands for.\<close>

definition compose_inv :: "int list \<Rightarrow> int list \<Rightarrow> int list \<Rightarrow> bool" where
  "compose_inv B out rest \<longleftrightarrow>
     canon_decomp False (out @ rest) = canon_order ccc B \<and> cc_sorted (out @ rest) \<and>
     (\<forall>y \<in> set (out @ rest). code_point y \<and> (ccc y \<noteq> 0 \<longrightarrow> decomposed False y)) \<and>
     (\<forall>y \<in> set rest. decomposed False y \<and> y \<noteq> 0x11a7)"

lemma compose_inv_step:
  assumes inv: "compose_inv B (a @ s # ms) (x # rest)" and s: "ccc s = 0" and ms: "\<forall>m \<in> set ms. ccc m \<noteq> 0"
    and blk: "ms \<noteq> [] \<longrightarrow> ccc (last ms) < ccc x"
    and p: "full_decomp False p = full_decomp False s @ full_decomp False x" "ccc p = 0" "code_point p"
  shows "compose_inv B (a @ p # ms) rest"
proof -
  have all: "\<forall>y \<in> set (a @ s # ms @ x # rest). code_point y \<and> (ccc y \<noteq> 0 \<longrightarrow> decomposed False y)"
    and sorted: "cc_sorted (a @ s # ms @ x # rest)" and x: "decomposed False x"
    and canon: "canon_decomp False (a @ s # ms @ x # rest) = canon_order ccc B"
    and rest: "\<forall>y \<in> set rest. decomposed False y \<and> y \<noteq> 0x11a7"
    using inv by (simp_all add: compose_inv_def)
  have ge: "0 \<le> ccc y" if "y \<in> set (ms @ x # rest)" for y using all that ccc_range by auto
  have id: "full_decomp False x = [x]" "full_decomps False ms = ms"
    using x all ms by (simp_all add: full_decomp_id full_decomps_id)
  have t: "cc_sorted (ms @ x # rest)"
    using sorted unfolding cc_sorted_def successively_append_iff [of _ a] by (cases "ms @ x # rest") auto
  have lt: "ccc m < ccc x" if "m \<in> set ms" for m
  proof -
    obtain ms' l where l: "ms = ms' @ [l]" using \<open>m \<in> set ms\<close> by (cases ms rule: rev_cases) auto
    have "cc_sorted (ms' @ [l])" using t unfolding cc_sorted_def l successively_append_iff [of _ "ms' @ [l]"] by simp
    then have "ccc m \<le> ccc l" using cc_sorted_le_last [of ms' l m] ms \<open>m \<in> set ms\<close> l by auto
    then show ?thesis using blk l by simp
  qed
  have move: "canon_order ccc (u @ ms @ x # v) = canon_order ccc (u @ x # ms @ v)" for u v
  proof (cases "ms = []")
    case False
    then obtain m where "m \<in> set ms" by (cases ms) auto
    then have "ccc x \<noteq> 0" using lt [of m] ge [of m] by simp
    then show ?thesis using canon_order_move [of x ms u v] ms lt by fastforce
  qed simp
  have "canon_decomp False (a @ p # ms @ rest) = canon_order ccc ((full_decomps False a @ full_decomp False s) @ x # ms @ full_decomps False rest)"
    by (simp add: canon_decomp_def p(1) id)
  also have "\<dots> = canon_order ccc ((full_decomps False a @ full_decomp False s) @ ms @ x # full_decomps False rest)"
    by (rule move [symmetric])
  also have "\<dots> = canon_order ccc B" using canon by (simp add: canon_decomp_def id)
  finally have 1: "canon_decomp False (a @ p # ms @ rest) = canon_order ccc B" .
  have a: "cc_sorted a" using sorted by (simp add: cc_sorted_def successively_append_iff)
  have r: "cc_sorted rest" "cc_sorted (x # rest)"
    using t unfolding cc_sorted_def successively_append_iff by (cases rest; simp)+
  have "cc_sorted (ms @ rest)"
  proof (cases "ms = [] \<or> rest = []")
    case True
    then show ?thesis using t r by (auto simp: cc_sorted_def successively_append_iff)
  next
    case False
    then obtain y ys where y: "rest = y # ys" by (cases rest) auto
    have "ccc y = 0 \<or> ccc x \<le> ccc y" using r(2) by (simp add: cc_sorted_def y)
    moreover have "ccc (last ms) < ccc x" using blk False by simp
    ultimately show ?thesis using t False by (auto simp: cc_sorted_def successively_append_iff y)
  qed
  moreover have "0 \<le> ccc (hd (ms @ rest))" if "ms @ rest \<noteq> []" using ge [of "hd (ms @ rest)"] that by (cases ms; cases rest) auto
  ultimately have "cc_sorted (p # ms @ rest)" using p(2) by (cases "ms @ rest") (simp_all add: cc_sorted_def)
  then have 2: "cc_sorted (a @ p # ms @ rest)" by (intro cc_sorted_append_starter a p(2))
  show ?thesis unfolding compose_inv_def using 1 2 all rest p(2,3) by simp
qed

lemma compose_loop_spec:
  assumes "compose_inv B out rest" and "length out \<le> i"
    and "buf = out @ gap @ rest" and "i = length (out @ gap)" and "n = length buf"
  shows "\<exists>out' gap'. compose_loop buf n i (length out) = Some (out' @ gap', length out') \<and> compose_inv B out' []"
  using assms
proof (induction rest arbitrary: buf out gap i)
  case Nil
  then show ?case by (subst compose_loop.simps) auto
next
  case (Cons x rest)
  have x: "code_point x" "x \<noteq> 0x11a7" and out: "\<forall>y \<in> set out. code_point y"
    using Cons.prems(1) by (auto simp: compose_inv_def)
  have rd: "rd buf i = Some x" by (simp add: Cons.prems(3,4) rd_def nth_append)
  have i: "i < n" by (simp add: Cons.prems(3-5))
  obtain r where r: "find_starter buf (ccc x) (int (length out) - 1) = Some r"
     "case r of None \<Rightarrow> True
      | Some k \<Rightarrow> k = -1 \<or> (\<exists>a s ms. out = a @ s # ms \<and> k = int (length a) \<and> ccc s = 0 \<and> (\<forall>m \<in> set ms. ccc m \<noteq> 0) \<and>
          (ms \<noteq> [] \<longrightarrow> ccc (last ms) < ccc x))"
    using find_starter_spec [OF out, of "gap @ x # rest" "ccc x"] Cons.prems(3) by auto
  have eq: "compose_loop buf n i (length out) =
      do { c \<leftarrow> try_compose buf r x;
           case c of
             Some (starter_pos, p) \<Rightarrow> do { buf \<leftarrow> wr buf starter_pos p; compose_loop buf n (i + 1) (length out) }
           | None \<Rightarrow> do { buf \<leftarrow> wr buf (length out) x; compose_loop buf n (i + 1) (length out + 1) } }"
    using i rd r(1) unicode_get_cc_ccc [OF x(1)] by (subst compose_loop.simps) simp
  have keep: "\<exists>out' gap'. do { buf \<leftarrow> wr buf (length out) x; compose_loop buf n (i + 1) (length out + 1) } = Some (out' @ gap', length out') \<and> compose_inv B out' []"
  proof -
    obtain gap' where g: "wr buf (length out) x = Some ((out @ [x]) @ gap' @ rest)" "length gap' = length gap"
    proof (cases gap)
      case Nil
      then show ?thesis using that [of "[]"] Cons.prems(3) by (simp add: wr_def)
    next
      case (Cons g gs)
      then show ?thesis using that [of "gs @ [x]"] \<open>buf = out @ gap @ x # rest\<close> by (simp add: wr_def)
    qed
    have "compose_inv B (out @ [x]) rest" using Cons.prems(1) by (simp add: compose_inv_def)
    from Cons.IH [OF this _ refl, where gap = gap' and i = "i + 1"] show ?thesis using g Cons.prems by (simp add: add.commute)
  qed
  show ?case
  proof (cases "\<exists>a s ms. r = Some (int (length a)) \<and> out = a @ s # ms \<and> ccc s = 0 \<and> (\<forall>m \<in> set ms. ccc m \<noteq> 0) \<and> (ms \<noteq> [] \<longrightarrow> ccc (last ms) < ccc x)")
    case False
    then have "r = None \<or> r = Some (-1)" using r(2) by (cases r) auto
    then have "try_compose buf r x = Some None" by (auto simp: try_compose_def)
    then show ?thesis unfolding eq using keep by simp
  next
    case True
    then obtain a s ms where a: "r = Some (int (length a))" "out = a @ s # ms" "ccc s = 0" "\<forall>m \<in> set ms. ccc m \<noteq> 0"
        "ms \<noteq> [] \<longrightarrow> ccc (last ms) < ccc x" by blast
    have s: "code_point s" "rd buf (length a) = Some s" using out by (simp_all add: a(2) Cons.prems(3) rd_def nth_append)
    obtain p where p: "compose_pair s x = Some p"
        "p \<noteq> 0 \<Longrightarrow> full_decomp False p = full_decomp False s @ full_decomp False x"
        "p \<noteq> 0 \<Longrightarrow> ccc s = 0 \<Longrightarrow> ccc p = 0" "p \<noteq> 0 \<Longrightarrow> code_point p"
      using compose_pair_sound [OF s(1) x] by blast
    show ?thesis
    proof (cases "p = 0")
      case True
      then have "try_compose buf r x = Some None" using p(1) s(2) by (simp add: try_compose_def a(1))
      then show ?thesis unfolding eq using keep by simp
    next
      case False
      then have t: "try_compose buf r x = Some (Some (length a, p))" using p(1) s(2) by (simp add: try_compose_def a(1))
      have w: "wr buf (length a) p = Some ((a @ p # ms) @ (gap @ [x]) @ rest)" by (simp add: wr_def a(2) Cons.prems(3))
      have "compose_inv B (a @ p # ms) rest"
        using compose_inv_step [of B a s ms x rest p] Cons.prems(1) a p False by simp
      from Cons.IH [OF this _ refl, where gap = "gap @ [x]" and i = "i + 1"] show ?thesis
        unfolding eq using t w Cons.prems a(2) by simp
    qed
  qed
qed

section \<open>The whole function\<close>

lemma sort_key_idem: "sort_key f (sort_key f xs) = sort_key f xs"
  by (rule properties_for_sort_key) (simp_all add: sort_key_stable)

lemma canon_order_idem: "canon_order ccc (canon_order ccc xs) = canon_order ccc xs"
proof (induction "length xs" arbitrary: xs rule: less_induct)
  case less
  show ?case
  proof (cases "\<forall>y \<in> set xs. ccc y \<noteq> 0")
    case True
    then show ?thesis by (simp add: canon_order_run sort_key_idem)
  next
    case False
    then obtain u s v where x: "xs = u @ s # v" "ccc s = 0" "\<forall>y \<in> set u. ccc y \<noteq> 0"
      using split_list_first_prop [of xs "\<lambda>y. ccc y = 0"] by auto
    have c: "canon_order ccc xs = sort_key ccc u @ s # canon_order ccc v"
      unfolding x(1) by (rule canon_order_starter [OF x(3,2)])
    have "\<forall>y \<in> set (sort_key ccc u). ccc y \<noteq> 0" using x(3) by simp
    from canon_order_starter [OF this x(2)] show ?thesis
      unfolding c using less.hyps [of v] by (simp add: x(1) sort_key_idem)
  qed
qed

text \<open>An allocator that refuses no block of up to 64 GB (a request for 0 bytes frees).\<close>

definition grants :: "'h realloc_func \<Rightarrow> bool" where
  "grants R \<longleftrightarrow> (\<forall>h p n. 0 < n \<longrightarrow> n \<le> 2 ^ 36 \<longrightarrow> fst (R h p n) \<noteq> 0)"

lemma dbuf_realloc_grants:
  assumes "grants (db_realloc s)" and "\<not> db_error s" and "n \<le> 2 ^ 34" and "db_allocated_size s \<le> 2 ^ 35"
  obtains s' h' where "dbuf_realloc s n h = (0, s', h')" "db_allocated_size s' \<le> 2 ^ 35" "\<not> db_error s'" "db_realloc s' = db_realloc s"
proof (cases "n > db_allocated_size s")
  case True
  define size where "size = szmul (db_allocated_size s) 3 div 2"
  have "szmul (db_allocated_size s) 3 = db_allocated_size s * 3"
    using True assms(3) by (simp add: szmul_def size_t_max_def)
  then have le: "(if size > n then size else n) \<le> 2 ^ 35" using True assms(3) by (auto simp: size_def)
  obtain q h' where q: "db_realloc s h (db_ptr s) (if size > n then size else n) = (q, h')" by (cases "db_realloc s h (db_ptr s) (if size > n then size else n)")
  have "(if size > n then size else n) \<le> 2 ^ 36" by (rule order_trans [OF le]) simp
  moreover have "0 < (if size > n then size else n)" using True by auto
  ultimately have "fst (db_realloc s h (db_ptr s) (if size > n then size else n)) \<noteq> 0" using assms(1) unfolding grants_def by blast
  then have "q \<noteq> 0" using q by simp
  then show ?thesis
    using True assms(2) q le
    by (intro that [of "s\<lparr>db_ptr := q, db_buf := resize (db_buf s) (if size > n then size else n) (of_nat q),
          db_allocated_size := if size > n then size else n\<rparr>" h'])
      (simp_all add: dbuf_realloc_def size_def [symmetric] Let_def)
next
  case False
  then show ?thesis using assms by (intro that [of s h]) (simp_all add: dbuf_realloc_def)
qed

lemma put_all_grants:
  assumes "grants (db_realloc d)" and "\<not> db_error d" and "dbuf_wf d" and "db_allocated_size d \<le> 2 ^ 35"
    and "db_size d + 4 * length cs \<le> 2 ^ 34" and "dbuf_append.put_all d (map code_bytes cs) h = Some (d', h')"
  shows "\<not> db_error d'"
  using assms
proof (induction cs arbitrary: d h)
  case (Cons c cs)
  have sz: "szadd (db_size d) 4 = db_size d + 4" using Cons.prems(5) by (simp add: szadd_def size_t_max_def)
  obtain s1 h1 where g: "dbuf_grow d 4 h = (0, s1, h1)" "db_allocated_size s1 \<le> 2 ^ 35"
  proof (cases "db_size d + 4 > db_allocated_size d")
    case True
    have "db_size d + 4 \<le> 2 ^ 34" using Cons.prems(5) by simp
    from dbuf_realloc_grants [OF Cons.prems(1,2) this Cons.prems(4), of h] show ?thesis
      using that True by (auto simp: dbuf_grow_def sz)
  next
    case False
    then show ?thesis using that Cons.prems(4) by (simp add: dbuf_grow_def sz)
  qed
  have len: "length (code_bytes c) \<le> obj_max" by (simp add: obj_max_def)
  from Cons.prems(3) len show ?case
  proof (cases rule: dbuf_put_cases [where h = h])
    case (ok d1 h1')
    have "db_size d1 = db_size d + 4"
    proof -
      have "length (db_content d1) = length (db_content d) + 4" by (simp add: ok(3))
      then show ?thesis using ok(2) Cons.prems(3) by (simp add: db_content_def dbuf_wf_def)
    qed
    moreover have "db_allocated_size d1 \<le> 2 ^ 35"
      using ok(1) g by (auto simp: dbuf_put_def bind_eq_Some_conv)
    moreover have "dbuf_append.put_all d1 (map code_bytes cs) h1' = Some (d', h')" using Cons.prems(6) ok(1) by simp
    ultimately show ?thesis using Cons.IH [of d1 h1'] Cons.prems ok by simp
  next
    case (fail d1 h1')
    then show ?thesis using g by (auto simp: dbuf_put_def bind_eq_Some_conv)
  qed
qed simp

text \<open>With an allocator that keeps a record the flag at the end says whether one of the requests
  was refused.\<close>

lemma put_all_records:
  "dbuf_wf d \<Longrightarrow> records (db_realloc d) seen \<Longrightarrow> db_error d = seen h \<Longrightarrow>
     dbuf_append.put_all d (map code_bytes cs) h = Some (d', h') \<Longrightarrow> db_error d' = seen h'"
proof (induction cs arbitrary: d h)
  case (Cons c cs)
  have len: "length (code_bytes c) \<le> obj_max" by (simp add: obj_max_def)
  obtain r d1 h1 where p: "dbuf_put d (code_bytes c) h = Some (r, d1, h1)"
    and rest: "dbuf_append.put_all d1 (map code_bytes cs) h1 = Some (d', h')"
    using Cons.prems(4) by (auto simp: bind_eq_Some_conv)
  have "dbuf_wf d1 \<and> db_realloc d1 = db_realloc d"
    by (rule dbuf_put_cases [OF Cons.prems(1) len, of h]) (use p in auto)
  then show ?case
    using Cons.IH [OF _ _ _ rest] dbuf_put_records [OF Cons.prems(2) p Cons.prems(3)] Cons.prems(2) by simp
qed simp

lemma full_decomps_props:
  assumes "\<forall>c \<in> set src. code_point c" and "y \<in> set (full_decomps ic src)"
  shows "code_point y" and "decomposed ic y" and "decomposed False y"
proof -
  obtain c where c: "c \<in> set src" "y \<in> set (full_decomp ic c)" using assms(2) by (auto simp: full_decomps_def)
  then show "code_point y" using assms(1) full_decomp_range [of c y ic] by (auto simp: code_point_def)
  show "decomposed ic y" using full_decomp_decomposed c(2) .
  then show "decomposed False y" using decomposed_compat by (cases ic) auto
qed

lemma unicode_normalize_cases:
  assumes R: "allocator R" and src: "\<forall>c \<in> set src. code_point c" "length src < 2 ^ 31"
    and D: "D = full_decomps (n_type div 2 \<noteq> 0) src" "length D < 2 ^ 31"
  obtains (fail) h' where "unicode_normalize src n_type R h = Some (-1, None, h')" "\<not> grants R"
      "\<forall>seen. records R seen \<longrightarrow> \<not> seen h \<longrightarrow> seen h'"
  | (latin1) buf h' where "n_type = UNICODE_NFC" "unicode_normalize src n_type R h = Some (int (length src), Some (src @ buf), h')"
      "\<forall>seen. records R seen \<longrightarrow> \<not> seen h \<longrightarrow> \<not> seen h'"
  | (decomp) h' where "length D \<le> 1 \<or> n_type mod 2 \<noteq> 0" "unicode_normalize src n_type R h = Some (int (length D), Some (canon_order ccc D), h')"
      "\<forall>seen. records R seen \<longrightarrow> \<not> seen h \<longrightarrow> \<not> seen h'"
  | (compose) h' where "n_type mod 2 = 0" "2 \<le> length D" "\<forall>seen. records R seen \<longrightarrow> \<not> seen h \<longrightarrow> \<not> seen h'"
      "unicode_normalize src n_type R h =
         do { (buf, out_len) \<leftarrow> compose_loop (canon_order ccc D) (length D) 1 1; Some (int out_len, Some buf, h') }"
proof -
  define d0 where "d0 = dbuf_init2 (Some R) R"
  have d0: "dbuf_wf d0" "db_size d0 = 0" "\<not> db_error d0" "db_realloc d0 = R" "db_allocated_size d0 = 0" "db_content d0 = []"
    using R by (simp_all add: d0_def dbuf_wf_def dbuf_init2_def db_content_def)
  have sz: "szmul 4 (length src) = 4 * length src" using src(2) by (simp add: szmul_def size_t_max_def)
  obtain r d1 h1 where r: "dbuf_realloc d0 (4 * length src) h = (r, d1, h1)" by (metis prod_cases3)
  note k = dbuf_realloc_keeps [OF d0(1) r] and c1 = dbuf_realloc_content [OF d0(1) r]
  have grant1: "r = 0 \<and> db_allocated_size d1 \<le> 2 ^ 35 \<and> \<not> db_error d1" if "grants R"
    using dbuf_realloc_grants [of d0 "4 * length src" h] that d0 src(2) r by (auto simp: d0_def)
  have rec1: "db_error d1 = seen h1" if "records R seen" "\<not> seen h" for seen
    using dbuf_realloc_records [OF _ r, of seen] that d0(3,4) by simp
  show thesis
  proof (cases "r = 0")
    case False
    then show ?thesis
      using grant1 rec1 k(7) by (intro fail [of h1]) (auto simp: unicode_normalize_def sz r [unfolded d0_def] d0_def Let_def)
  next
    case r0: True
    show ?thesis
    proof (cases "n_type = UNICODE_NFC \<and> list_all (\<lambda>c. c < 0x100) src")
      case True
      have "4 * length src \<le> length (db_buf d1)" using k(1,6) r0 by (simp add: dbuf_wf_def)
      then obtain b where b: "wr_block (db_buf d1) 0 (concat (map code_bytes src)) = Some (concat (map code_bytes src) @ b)"
        by (simp add: wr_block_def)
      show ?thesis
        proof (rule latin1)
          show "\<forall>seen. records R seen \<longrightarrow> \<not> seen h \<longrightarrow> \<not> seen h1"
            using rec1 k(6) [OF r0] d0(3) by auto
        qed (use True b buf_ints_codes [OF src(1), of b] in
          \<open>simp_all add: unicode_normalize_def sz r [unfolded d0_def] r0 Let_def\<close>)
    next
      case nl: False
      obtain d2 h2 where p: "dbuf_append.put_all d1 (map code_bytes D) h1 = Some (d2, h2)" "dbuf_wf d2"
        using dbuf_append.put_all_safe [OF k(1), of "map code_bytes D" h1] by (auto simp: obj_max_def)
      have nfd: "to_nfd_rec d1 src (n_type div 2 \<noteq> 0) h1 = Some (d2, h2)" using p(1) by (simp add: to_nfd_rec_puts D(1))
      have eq: "unicode_normalize src n_type R h =
          (if dbuf_error d2 then Some (-1, None, h2)
           else do { let buf_len = db_size d2 div 4;
                     c_assert (buf_len < 2 ^ 31);
                     buf \<leftarrow> sort_cc (buf_ints (db_content d2)) buf_len;
                     if buf_len \<le> 1 \<or> n_type mod 2 \<noteq> 0 then Some (int buf_len, Some buf, h2)
                     else do { (buf, out_len) \<leftarrow> compose_loop buf buf_len 1 1; Some (int out_len, Some buf, h2) } })"
        unfolding unicode_normalize_def sz Let_def r [unfolded d0_def] case_prod_conv
        using r0 nfd if_not_P [OF nl] by (simp only: Let_def bind.bind_lunit case_prod_conv not_False_eq_True simp_thms if_False if_not_P [OF nl])
      have rec2: "db_error d2 = seen h2" if "records R seen" "\<not> seen h" for seen
        using put_all_records [OF k(1) _ _ p(1), of seen] that rec1 [OF that] k(3) d0(4) by simp
      show ?thesis
      proof (cases "db_error d2")
        case True
        have "\<not> grants R"
        proof
          assume g: "grants R"
          have "grants (db_realloc d1)" using g k(3) d0(4) by simp
          from put_all_grants [OF this _ k(1) _ _ p(1)] show False
            using True grant1 [OF g] k(2) d0(2) D(2) by simp
        qed
        then show ?thesis using True rec2 by (intro fail [of h2]) (auto simp: eq dbuf_error_def)
      next
        case False
        have content: "db_content d2 = concat (map code_bytes D)"
          using dbuf_append.put_all_content [OF k(1) _ p(1) False] c1 d0(6) by (simp add: obj_max_def)
        moreover have "db_size d2 = 4 * length D"
        proof -
          have "length (db_content d2) = db_size d2" using p(2) by (simp add: db_content_def dbuf_wf_def)
          then show ?thesis using content length_codes [of D] by simp
        qed
        moreover have cp: "\<forall>y \<in> set D. code_point y" using full_decomps_props(1) [OF src(1)] D(1) by blast
        ultimately have res: "unicode_normalize src n_type R h =
            (if length D \<le> 1 \<or> n_type mod 2 \<noteq> 0 then Some (int (length D), Some (canon_order ccc D), h2)
             else do { (buf, out_len) \<leftarrow> compose_loop (canon_order ccc D) (length D) 1 1; Some (int out_len, Some buf, h2) })"
          using False D(2) buf_ints_codes [OF cp, of "[]"] sort_cc_canonical [OF cp] by (simp add: eq dbuf_error_def Let_def)
        show ?thesis
        proof (cases "length D \<le> 1 \<or> n_type mod 2 \<noteq> 0")
          case True
          then show ?thesis using res rec2 \<open>\<not> db_error d2\<close> by (intro decomp [of h2]) auto
        next
          case False
          then show ?thesis using res rec2 \<open>\<not> db_error d2\<close> by (intro compose [of h2]) auto
        qed
      qed
    qed
  qed
qed

lemma compose_canonical:
  assumes src: "\<forall>c \<in> set src. code_point c" and D: "D = full_decomps ic src" "2 \<le> length D" "0x11a7 \<notin> set D"
  shows "\<exists>out gap. compose_loop (canon_order ccc D) (length D) 1 1 = Some (out @ gap, length out) \<and> canon_decomp False out = canon_order ccc D"
proof -
  obtain b bs where b: "canon_order ccc D = b # bs" using D(2) by (cases "canon_order ccc D") (auto dest: arg_cong [where f = length])
  have props: "\<forall>y \<in> set (b # bs). code_point y \<and> decomposed False y \<and> y \<noteq> 0x11a7"
    using full_decomps_props [OF src, of _ ic] D(1,3) unfolding b [symmetric] set_canon_order by blast
  have cp: "\<forall>y \<in> set D. code_point y" using full_decomps_props(1) [OF src] D(1) by blast
  have "canon_decomp False (b # bs) = canon_order ccc D"
    using canon_order_idem [of D] full_decomps_id [of "b # bs" False] props b by (simp add: canon_decomp_def)
  then have "compose_inv D [b] bs"
    using props canon_order_sorted [OF cp] unfolding compose_inv_def b by simp
  from compose_loop_spec [OF this, of 1 "b # bs" "[]" "length (b # bs)"] obtain out gap
    where o: "compose_loop (b # bs) (length (b # bs)) 1 1 = Some (out @ gap, length out)" "compose_inv D out []" by auto
  moreover have "length D = length (b # bs)" using arg_cong [OF b, of length] by simp
  ultimately show ?thesis unfolding b compose_inv_def by (intro exI [of _ out] exI [of _ gap]) (simp add: b)
qed

lemma canon_decomp_result:
  assumes "\<forall>c \<in> set src. code_point c"
  shows "canon_decomp False (canon_order ccc (full_decomps ic src)) = canon_order ccc (full_decomps ic src)"
proof -
  have "full_decomps False (canon_order ccc (full_decomps ic src)) = canon_order ccc (full_decomps ic src)"
    using full_decomps_props(3) [OF assms] by (intro full_decomps_id) auto
  then show ?thesis by (simp add: canon_decomp_def canon_order_idem)
qed

end
