(* ===== verification/RegexpText.thy ===== *)
theory RegexpText
  imports UnicodeCase
begin

text \<open>
  The subject text of the regular expression interpreter of \<^verbatim>\<open>libregexp.c\<close>: the macros that
  read and move over characters (\<^verbatim>\<open>GET_CHAR\<close>, \<^verbatim>\<open>PEEK_CHAR\<close>, \<^verbatim>\<open>PEEK_PREV_CHAR\<close>,
  \<^verbatim>\<open>GET_PREV_CHAR\<close>, \<^verbatim>\<open>PREV_CHAR\<close>), the character classes of the assertions and
  \<^verbatim>\<open>lre_canonicalize\<close>.  The text is the array of its code units; a pointer into it is an
  index, so the pointer arithmetic of the 8-bit and of the 16-bit representation coincide.
  \<open>cbuf_type\<close> is 0 for 8-bit characters, 1 for 16-bit ones and 2 for UTF-16.
\<close>

section \<open>Characters\<close>

definition is_line_terminator :: "u32 \<Rightarrow> bool" where
  "is_line_terminator c \<longleftrightarrow> c = 10 \<or> c = 13 \<or> c = 0x2028 \<or> c = 0x2029"

definition is_word_char :: "u32 \<Rightarrow> bool" where
  "is_word_char c \<longleftrightarrow>
     48 \<le> c \<and> c \<le> 57 \<or> 97 \<le> c \<and> c \<le> 122 \<or> 65 \<le> c \<and> c \<le> 90 \<or> c = 95"

definition lre_canonicalize :: "u32 \<Rightarrow> bool \<Rightarrow> u32 option" where
  "lre_canonicalize c is_utf16 =
     (if is_utf16 then
        (if c < 128 then Some (if 65 \<le> c \<and> c \<le> 90 then c - 65 + 97 else c)
         else do { res \<leftarrow> lre_case_conv c 2; rd res 0 })
      else
        (if c < 128 then Some (if 97 \<le> c \<and> c \<le> 122 then c - 97 + 65 else c)
         else do { res \<leftarrow> lre_case_conv c 0;
                   r0 \<leftarrow> rd res 0;
                   Some (if length res = 1 \<and> 128 \<le> r0 then r0 else c) }))"

section \<open>Moving over the text\<close>

abbreviation hi_surrogate :: "u32 \<Rightarrow> bool" where
  "hi_surrogate c \<equiv> 0xd800 \<le> c \<and> c < 0xdc00"

abbreviation lo_surrogate :: "u32 \<Rightarrow> bool" where
  "lo_surrogate c \<equiv> 0xdc00 \<le> c \<and> c < 0xe000"

definition surrogate_pair :: "u32 \<Rightarrow> u32 \<Rightarrow> u32" where
  "surrogate_pair c c1 = (push_bit 10 (c AND 0x3ff) OR (c1 AND 0x3ff)) + 0x10000"

definition rd_unit :: "u16 list \<Rightarrow> nat \<Rightarrow> u32 option" where
  "rd_unit cbuf i = map_option ucast (rd cbuf i)"

text \<open>\<^verbatim>\<open>cptr - 1\<close>: a pointer before the text is undefined.\<close>

definition ptr_dec :: "nat \<Rightarrow> nat option" where
  "ptr_dec p = (if p = 0 then None else Some (p - 1))"

definition get_char :: "nat \<Rightarrow> u16 list \<Rightarrow> nat \<Rightarrow> nat \<Rightarrow> (u32 \<times> nat) option" where
  "get_char cbuf_type cbuf cptr cbuf_end =
     do { c \<leftarrow> rd_unit cbuf cptr;
          let cptr = cptr + 1;
          if cbuf_type \<noteq> 0 \<and> hi_surrogate c \<and> cbuf_type = 2 \<and> cptr < cbuf_end then
            do { c1 \<leftarrow> rd_unit cbuf cptr;
                 Some (if lo_surrogate c1 then (surrogate_pair c c1, cptr + 1) else (c, cptr)) }
          else Some (c, cptr) }"

definition peek_char :: "nat \<Rightarrow> u16 list \<Rightarrow> nat \<Rightarrow> nat \<Rightarrow> u32 option" where
  "peek_char cbuf_type cbuf cptr cbuf_end =
     do { c \<leftarrow> rd_unit cbuf cptr;
          if cbuf_type \<noteq> 0 \<and> hi_surrogate c \<and> cbuf_type = 2 \<and> cptr + 1 < cbuf_end then
            do { c1 \<leftarrow> rd_unit cbuf (cptr + 1);
                 Some (if lo_surrogate c1 then surrogate_pair c c1 else c) }
          else Some c }"

definition peek_prev_char :: "nat \<Rightarrow> u16 list \<Rightarrow> nat \<Rightarrow> nat \<Rightarrow> u32 option" where
  "peek_prev_char cbuf_type cbuf cptr cbuf_start =
     do { p1 \<leftarrow> ptr_dec cptr;
          c \<leftarrow> rd_unit cbuf p1;
          if cbuf_type \<noteq> 0 \<and> lo_surrogate c \<and> cbuf_type = 2 \<and> cbuf_start + 2 \<le> cptr then
            do { p2 \<leftarrow> ptr_dec p1;
                 c1 \<leftarrow> rd_unit cbuf p2;
                 Some (if hi_surrogate c1 then surrogate_pair c1 c else c) }
          else Some c }"

definition get_prev_char :: "nat \<Rightarrow> u16 list \<Rightarrow> nat \<Rightarrow> nat \<Rightarrow> (u32 \<times> nat) option" where
  "get_prev_char cbuf_type cbuf cptr cbuf_start =
     do { cptr \<leftarrow> ptr_dec cptr;
          c \<leftarrow> rd_unit cbuf cptr;
          if cbuf_type \<noteq> 0 \<and> lo_surrogate c \<and> cbuf_type = 2 \<and> cbuf_start < cptr then
            do { p2 \<leftarrow> ptr_dec cptr;
                 c1 \<leftarrow> rd_unit cbuf p2;
                 Some (if hi_surrogate c1 then (surrogate_pair c1 c, p2) else (c, cptr)) }
          else Some (c, cptr) }"

definition prev_char :: "nat \<Rightarrow> u16 list \<Rightarrow> nat \<Rightarrow> nat \<Rightarrow> nat option" where
  "prev_char cbuf_type cbuf cptr cbuf_start =
     do { cptr \<leftarrow> ptr_dec cptr;
          if cbuf_type = 2 then
            do { c \<leftarrow> rd_unit cbuf cptr;
                 if lo_surrogate c \<and> cbuf_start < cptr then
                   do { p2 \<leftarrow> ptr_dec cptr;
                        c1 \<leftarrow> rd_unit cbuf p2;
                        Some (if hi_surrogate c1 then p2 else cptr) }
                 else Some cptr }
          else Some cptr }"

text \<open>The loop \<^verbatim>\<open>for(i = 0; i < char_count; i++) PREV_CHAR(cptr, s->cbuf)\<close>.\<close>

primrec prev_chars :: "nat \<Rightarrow> u16 list \<Rightarrow> nat \<Rightarrow> nat \<Rightarrow> nat option" where
  "prev_chars cbuf_type cbuf 0 cptr = Some cptr"
| "prev_chars cbuf_type cbuf (Suc n) cptr =
     do { p \<leftarrow> prev_char cbuf_type cbuf cptr 0; prev_chars cbuf_type cbuf n p }"

section \<open>Facts\<close>

lemma lre_canonicalize_defined: "\<exists>r. lre_canonicalize c u = Some r"
proof -
  have "\<exists>res x. lre_case_conv c t = Some res \<and> rd res 0 = Some x" for t
    using lre_case_conv_defined [of c t] by (auto simp: rd_def Suc_le_eq)
  then show ?thesis
    unfolding lre_canonicalize_def by (metis (no_types, lifting) bind.bind_lunit)
qed

lemma rd_unit_Some: "i < length cbuf \<Longrightarrow> rd_unit cbuf i = Some (ucast (cbuf ! i))"
  by (simp add: rd_unit_def rd_Some)

lemma rd_unit_0: "Suc i < length cbuf \<Longrightarrow> rd_unit cbuf 0 = Some (ucast (cbuf ! 0))"
  by (rule rd_unit_Some) linarith

lemma rd_unit_None: "\<not> i < length cbuf \<Longrightarrow> rd_unit cbuf i = None"
  by (simp add: rd_unit_def rd_def)

lemma ptr_dec_Suc [simp]: "ptr_dec (Suc p) = Some p"
  by (simp add: ptr_dec_def)

text \<open>A pointer strictly between the two halves of a surrogate pair.\<close>

definition mid_pair :: "nat \<Rightarrow> u16 list \<Rightarrow> nat \<Rightarrow> bool" where
  "mid_pair cbuf_type cbuf p \<longleftrightarrow>
     cbuf_type = 2 \<and> 0 < p \<and> p < length cbuf \<and>
     hi_surrogate (ucast (cbuf ! (p - 1))) \<and> lo_surrogate (ucast (cbuf ! p))"

lemma get_char_ok:
  assumes "cptr < e" and "e \<le> length cbuf"
  shows "\<exists>c p. get_char t cbuf cptr e = Some (c, p) \<and> cptr < p \<and> p \<le> e"
  using assms by (auto simp: get_char_def rd_unit_Some Let_def)

lemma get_char_advances: "get_char t cbuf cptr e = Some (c, p) \<Longrightarrow> cptr < p"
  by (auto simp: get_char_def Let_def bind_eq_Some_conv split: if_splits)

lemma peek_char_ok: "cptr < length cbuf \<Longrightarrow> \<exists>c. peek_char t cbuf cptr (length cbuf) = Some c"
  by (auto simp: peek_char_def rd_unit_Some)

lemma peek_prev_char_ok:
  "0 < cptr \<Longrightarrow> cptr \<le> length cbuf \<Longrightarrow> \<exists>c. peek_prev_char t cbuf cptr 0 = Some c"
  by (auto simp: peek_prev_char_def rd_unit_Some ptr_dec_def)

lemma get_prev_char_ok:
  assumes "s < cptr" and "cptr \<le> length cbuf"
  shows "\<exists>c p. get_prev_char t cbuf cptr s = Some (c, p) \<and> s \<le> p \<and> p < cptr"
  using assms by (auto simp: get_prev_char_def rd_unit_Some ptr_dec_def)

lemma get_prev_char_retreats: "get_prev_char t cbuf cptr s = Some (c, p) \<Longrightarrow> p < cptr"
  by (auto simp: get_prev_char_def ptr_dec_def bind_eq_Some_conv split: if_splits)

lemma prev_char_ok:
  assumes "0 < cptr" and "cptr \<le> length cbuf"
  shows "\<exists>p. prev_char t cbuf cptr 0 = Some p \<and> p < cptr"
  using assms by (auto simp: prev_char_def rd_unit_Some ptr_dec_def)

lemma prev_char_retreats: "prev_char t cbuf cptr 0 = Some p \<Longrightarrow> p < cptr"
  by (auto simp: prev_char_def ptr_dec_def bind_eq_Some_conv split: if_splits)

lemma prev_chars_le: "prev_chars t cbuf n cptr = Some p \<Longrightarrow> p \<le> cptr"
  by (induction n arbitrary: cptr)
    (force simp: bind_eq_Some_conv dest: prev_char_retreats)+

lemma prev_chars_add:
  "prev_chars t cbuf (m + n) p = do { q \<leftarrow> prev_chars t cbuf m p; prev_chars t cbuf n q }"
  by (induction m arbitrary: p) (auto simp: bind_eq_Some_conv split: bind_splits)

lemma mid_pair_0 [simp]: "\<not> mid_pair t cbuf 0"
  by (simp add: mid_pair_def)

lemma get_char_aligned:
  assumes "get_char t cbuf cptr (length cbuf) = Some (c, p)"
  shows "\<not> mid_pair t cbuf p"
  using assms
  by (cases "cptr < length cbuf")
    (auto simp: get_char_def rd_unit_Some rd_unit_None Let_def mid_pair_def split: if_splits)

text \<open>\<^verbatim>\<open>PREV_CHAR\<close> undoes \<^verbatim>\<open>GET_CHAR\<close>, except that from the middle of a pair it lands on the
  start of the pair.\<close>

lemma prev_get_char:
  assumes "get_char t cbuf cptr (length cbuf) = Some (c, p)"
  shows "prev_char t cbuf p 0 = Some (if mid_pair t cbuf cptr then cptr - 1 else cptr)"
proof -
  have "cptr < length cbuf"
    using assms rd_unit_None [of cptr cbuf] by (cases "cptr < length cbuf") (auto simp: get_char_def)
  then have "rd_unit cbuf cptr = Some (ucast (cbuf ! cptr))"
    and "rd_unit cbuf (cptr - 1) = Some (ucast (cbuf ! (cptr - 1)))"
    by (simp_all add: rd_unit_Some)
  with assms \<open>cptr < length cbuf\<close> show ?thesis
    by (auto simp: get_char_def prev_char_def rd_unit_Some rd_unit_0 ptr_dec_def Let_def mid_pair_def
        split: if_splits)
qed

lemma prev_char_aligned:
  assumes "prev_char t cbuf cptr 0 = Some p" and "cptr \<le> length cbuf"
  shows "\<not> mid_pair t cbuf p"
  using assms
  by (cases "cptr = 0")
    (auto simp: prev_char_def rd_unit_Some ptr_dec_def mid_pair_def split: if_splits)

lemma get_prev_char_aligned:
  assumes "get_prev_char t cbuf cptr 0 = Some (c, p)" and "cptr \<le> length cbuf"
  shows "\<not> mid_pair t cbuf p"
  using assms
  by (cases "cptr = 0")
    (auto simp: get_prev_char_def rd_unit_Some ptr_dec_def mid_pair_def split: if_splits)

end
