(* ===== verification/RegexpExec.thy ===== *)
theory RegexpExec
  imports RegexpText DynBuf
begin

text \<open>
  The regular expression interpreter of \<^verbatim>\<open>libregexp.c\<close>: \<^verbatim>\<open>push_state\<close>,
  \<^verbatim>\<open>lre_exec_backtrack\<close> and \<^verbatim>\<open>lre_exec\<close>.  The constant part of \<^verbatim>\<open>REExecContext\<close> is the
  record \<open>re_ctx\<close>; the variables of \<^verbatim>\<open>lre_exec_backtrack\<close> with the capture and stack arrays
  they point to are \<open>re_cfg\<close>; the array of saved states (\<^verbatim>\<open>state_stack\<close>, last state first) with the
  object behind \<^verbatim>\<open>opaque\<close> is \<open>re_stk\<close>.  \<open>re_step\<close> executes one opcode: what it asks of the
  state stack is a constructor of \<open>re_ctl\<close>, carried out by \<open>re_dispatch\<close> and \<open>re_after_quant\<close>.
  \<open>re_exec\<close> is the loop of the function, \<open>re_quant\<close> the loop of
  \<^verbatim>\<open>REOP_simple_greedy_quant\<close> that calls it recursively.  A loop may run forever on some
  bytecode, so both take fuel: \<open>Timeout\<close> is a run cut off, \<open>Fault\<close> undefined behaviour.
\<close>

section \<open>Opcodes\<close>

datatype reop =
    REOP_invalid | REOP_char | REOP_char32 | REOP_dot | REOP_any | REOP_line_start | REOP_line_end
  | REOP_goto | REOP_split_goto_first | REOP_split_next_first | REOP_match | REOP_save_start
  | REOP_save_end | REOP_save_reset | REOP_loop | REOP_push_i32 | REOP_drop | REOP_word_boundary
  | REOP_not_word_boundary | REOP_back_reference | REOP_backward_back_reference | REOP_range
  | REOP_range32 | REOP_lookahead | REOP_negative_lookahead | REOP_push_char_pos
  | REOP_bne_char_pos | REOP_prev | REOP_simple_greedy_quant

text \<open>The numbers of the opcodes, in the order of the \<^verbatim>\<open>DEF\<close> lines.\<close>

definition reops :: "reop list" where
  "reops =
     [REOP_invalid, REOP_char, REOP_char32, REOP_dot, REOP_any, REOP_line_start, REOP_line_end,
      REOP_goto, REOP_split_goto_first, REOP_split_next_first, REOP_match, REOP_save_start,
      REOP_save_end, REOP_save_reset, REOP_loop, REOP_push_i32, REOP_drop, REOP_word_boundary,
      REOP_not_word_boundary, REOP_back_reference, REOP_backward_back_reference, REOP_range,
      REOP_range32, REOP_lookahead, REOP_negative_lookahead, REOP_push_char_pos,
      REOP_bne_char_pos, REOP_prev, REOP_simple_greedy_quant]"

definition reop_of :: "u8 \<Rightarrow> reop option" where
  "reop_of b = rd reops (unat b)"

fun reopcode_size :: "reop \<Rightarrow> nat" where
  "reopcode_size REOP_invalid = 1"
| "reopcode_size REOP_char = 3"
| "reopcode_size REOP_char32 = 5"
| "reopcode_size REOP_dot = 1"
| "reopcode_size REOP_any = 1"
| "reopcode_size REOP_line_start = 1"
| "reopcode_size REOP_line_end = 1"
| "reopcode_size REOP_goto = 5"
| "reopcode_size REOP_split_goto_first = 5"
| "reopcode_size REOP_split_next_first = 5"
| "reopcode_size REOP_match = 1"
| "reopcode_size REOP_save_start = 2"
| "reopcode_size REOP_save_end = 2"
| "reopcode_size REOP_save_reset = 3"
| "reopcode_size REOP_loop = 5"
| "reopcode_size REOP_push_i32 = 5"
| "reopcode_size REOP_drop = 1"
| "reopcode_size REOP_word_boundary = 1"
| "reopcode_size REOP_not_word_boundary = 1"
| "reopcode_size REOP_back_reference = 2"
| "reopcode_size REOP_backward_back_reference = 2"
| "reopcode_size REOP_range = 3"
| "reopcode_size REOP_range32 = 3"
| "reopcode_size REOP_lookahead = 5"
| "reopcode_size REOP_negative_lookahead = 5"
| "reopcode_size REOP_push_char_pos = 1"
| "reopcode_size REOP_bne_char_pos = 5"
| "reopcode_size REOP_prev = 1"
| "reopcode_size REOP_simple_greedy_quant = 17"

section \<open>State\<close>

record re_ctx =
  rc_bc :: "u8 list"
  rc_cbuf :: "u16 list"
  rc_addr :: nat
  rc_cbuf_type :: nat
  rc_capture_count :: nat
  rc_stack_size_max :: nat
  rc_multi_line :: bool
  rc_ignore_case :: bool
  rc_is_utf16 :: bool
  rc_state_size :: nat

text \<open>\<open>rc_addr\<close> is the address of the text; \<^verbatim>\<open>cbuf_end\<close> is its end.\<close>

abbreviation cbuf_end :: "re_ctx \<Rightarrow> nat" where
  "cbuf_end x \<equiv> length (rc_cbuf x)"

record re_cfg =
  re_pc :: nat
  re_cptr :: nat
  re_capture :: "nat option list"
  re_stack :: "u64 list"
  re_stack_len :: nat

datatype re_exec_state_type =
    RE_EXEC_STATE_SPLIT | RE_EXEC_STATE_LOOKAHEAD | RE_EXEC_STATE_NEGATIVE_LOOKAHEAD
  | RE_EXEC_STATE_GREEDY_QUANT

record re_state =
  rs_type :: re_exec_state_type
  rs_count :: nat
  rs_stack_len :: nat
  rs_cptr :: nat
  rs_pc :: nat
  rs_capture :: "nat option list"
  rs_stack :: "u64 list"

record 'h re_stk =
  st_states :: "re_state list"
  st_size :: nat
  st_ptr :: nat
  st_bytes :: nat
  st_heap :: 'h

datatype re_ctl =
    Go re_cfg
  | Matched re_cfg
  | No_match
  | Push re_exec_state_type nat re_cfg
  | Quant nat nat nat re_cfg

section \<open>One opcode\<close>

text \<open>\<^verbatim>\<open>pc + (int)val\<close>\<close>

definition re_jump :: "nat \<Rightarrow> u32 \<Rightarrow> nat option" where
  "re_jump pc val = (let t = int pc + sint val in if t < 0 then None else Some (nat t))"

definition re_get_char :: "re_ctx \<Rightarrow> nat \<Rightarrow> nat \<Rightarrow> (u32 \<times> nat) option" where
  "re_get_char x cptr e = get_char (rc_cbuf_type x) (rc_cbuf x) cptr e"

definition re_canon :: "re_ctx \<Rightarrow> u32 \<Rightarrow> u32 option" where
  "re_canon x c = (if rc_ignore_case x then lre_canonicalize c (rc_is_utf16 x) else Some c)"

definition re_test_char :: "re_ctx \<Rightarrow> u32 \<Rightarrow> re_cfg \<Rightarrow> re_ctl option" where
  "re_test_char x val s =
     (if cbuf_end x \<le> re_cptr s then Some No_match
      else do { (c, p) \<leftarrow> re_get_char x (re_cptr s) (cbuf_end x);
                c \<leftarrow> re_canon x c;
                Some (if val \<noteq> c then No_match else Go (s\<lparr>re_cptr := p\<rparr>)) })"

definition re_any :: "re_ctx \<Rightarrow> (u32 \<Rightarrow> bool) \<Rightarrow> re_cfg \<Rightarrow> re_ctl option" where
  "re_any x ok s =
     (if re_cptr s = cbuf_end x then Some No_match
      else do { (c, p) \<leftarrow> re_get_char x (re_cptr s) (cbuf_end x);
                Some (if ok c then Go (s\<lparr>re_cptr := p\<rparr>) else No_match) })"

definition re_line_start :: "re_ctx \<Rightarrow> re_cfg \<Rightarrow> re_ctl option" where
  "re_line_start x s =
     (if re_cptr s = 0 then Some (Go s)
      else if \<not> rc_multi_line x then Some No_match
      else do { c \<leftarrow> peek_prev_char (rc_cbuf_type x) (rc_cbuf x) (re_cptr s) 0;
                Some (if is_line_terminator c then Go s else No_match) })"

definition re_line_end :: "re_ctx \<Rightarrow> re_cfg \<Rightarrow> re_ctl option" where
  "re_line_end x s =
     (if re_cptr s = cbuf_end x then Some (Go s)
      else if \<not> rc_multi_line x then Some No_match
      else do { c \<leftarrow> peek_char (rc_cbuf_type x) (rc_cbuf x) (re_cptr s) (cbuf_end x);
                Some (if is_line_terminator c then Go s else No_match) })"

text \<open>\<open>neg\<close> is \<^verbatim>\<open>REOP_not_word_boundary - opcode\<close> negated: the test
  \<^verbatim>\<open>v1 ^ v2 ^ (REOP_not_word_boundary - opcode)\<close> is its exclusive or with 1 for
  \<^verbatim>\<open>REOP_word_boundary\<close> and 0 for \<^verbatim>\<open>REOP_not_word_boundary\<close>.\<close>

definition re_word_boundary :: "re_ctx \<Rightarrow> bool \<Rightarrow> re_cfg \<Rightarrow> re_ctl option" where
  "re_word_boundary x neg s =
     do { v1 \<leftarrow> (if re_cptr s = 0 then Some False
                 else do { c \<leftarrow> peek_prev_char (rc_cbuf_type x) (rc_cbuf x) (re_cptr s) 0;
                           Some (is_word_char c) });
          v2 \<leftarrow> (if cbuf_end x \<le> re_cptr s then Some False
                 else do { c \<leftarrow> peek_char (rc_cbuf_type x) (rc_cbuf x) (re_cptr s) (cbuf_end x);
                           Some (is_word_char c) });
          Some (if (v1 \<noteq> v2) \<noteq> (\<not> neg) then No_match else Go s) }"

text \<open>The loops over a captured substring: \<open>Some None\<close> is \<^verbatim>\<open>goto no_match\<close>, otherwise the
  text pointer after the reference.\<close>

function back_ref_loop :: "re_ctx \<Rightarrow> nat \<Rightarrow> nat \<Rightarrow> nat \<Rightarrow> nat option option" where
  "back_ref_loop x cptr1 cptr1_end cptr =
     (if cptr1 < cptr1_end then
        if cbuf_end x \<le> cptr then Some None
        else do { r1 \<leftarrow> re_get_char x cptr1 cptr1_end;
                  r2 \<leftarrow> re_get_char x cptr (cbuf_end x);
                  c1 \<leftarrow> re_canon x (fst r1);
                  c2 \<leftarrow> re_canon x (fst r2);
                  if c1 \<noteq> c2 then Some None else back_ref_loop x (snd r1) cptr1_end (snd r2) }
      else Some (Some cptr))"
  by pat_completeness auto
termination
  by (relation "measure (\<lambda>(x, cptr1, cptr1_end, cptr). cptr1_end - cptr1)")
    (auto simp: re_get_char_def dest!: get_char_advances)

function backward_back_ref_loop :: "re_ctx \<Rightarrow> nat \<Rightarrow> nat \<Rightarrow> nat \<Rightarrow> nat option option" where
  "backward_back_ref_loop x cptr1 cptr1_start cptr =
     (if cptr1_start < cptr1 then
        if cptr = 0 then Some None
        else do { r1 \<leftarrow> get_prev_char (rc_cbuf_type x) (rc_cbuf x) cptr1 cptr1_start;
                  r2 \<leftarrow> get_prev_char (rc_cbuf_type x) (rc_cbuf x) cptr 0;
                  c1 \<leftarrow> re_canon x (fst r1);
                  c2 \<leftarrow> re_canon x (fst r2);
                  if c1 \<noteq> c2 then Some None
                  else backward_back_ref_loop x (snd r1) cptr1_start (snd r2) }
      else Some (Some cptr))"
  by pat_completeness auto
termination
  by (relation "measure (\<lambda>(x, cptr1, cptr1_start, cptr). cptr1)")
    (auto dest!: get_prev_char_retreats)

declare back_ref_loop.simps [simp del] backward_back_ref_loop.simps [simp del]

definition re_back_reference :: "re_ctx \<Rightarrow> bool \<Rightarrow> nat \<Rightarrow> re_cfg \<Rightarrow> re_ctl option" where
  "re_back_reference x backward val s =
     (if rc_capture_count x \<le> val then Some No_match
      else do { cptr1_start \<leftarrow> rd (re_capture s) (2 * val);
                cptr1_end \<leftarrow> rd (re_capture s) (2 * val + 1);
                case (cptr1_start, cptr1_end) of
                  (Some b, Some e) \<Rightarrow>
                    do { r \<leftarrow> (if backward then backward_back_ref_loop x e b (re_cptr s)
                               else back_ref_loop x b e (re_cptr s));
                         Some (case r of None \<Rightarrow> No_match | Some p \<Rightarrow> Go (s\<lparr>re_cptr := p\<rparr>)) }
                | _ \<Rightarrow> Some (Go s) })"

text \<open>The binary search of \<^verbatim>\<open>REOP_range\<close> and \<^verbatim>\<open>REOP_range32\<close>; \<open>entry idx\<close> reads the bounds of a
  range.  At \<^verbatim>\<open>idx = 0\<close> the code's \<^verbatim>\<open>idx - 1\<close> wraps around, and the next probe is far outside the
  bytecode.\<close>

function re_range_loop ::
  "(nat \<Rightarrow> (u32 \<times> u32) option) \<Rightarrow> u32 \<Rightarrow> nat \<Rightarrow> nat \<Rightarrow> bool option" where
  "re_range_loop entry c idx_min idx_max =
     (if idx_min \<le> idx_max then
        do { let idx = (idx_min + idx_max) div 2;
             (low, high) \<leftarrow> entry idx;
             if c < low then
               (if idx = 0 then None else re_range_loop entry c idx_min (idx - 1))
             else if c > high then re_range_loop entry c (idx + 1) idx_max
             else Some True }
      else Some False)"
  by pat_completeness auto
termination
  by (relation "measure (\<lambda>(entry, c, idx_min, idx_max). idx_max + 1 - idx_min)") auto

declare re_range_loop.simps [simp del]

definition range16_entry :: "u8 list \<Rightarrow> nat \<Rightarrow> nat \<Rightarrow> (u32 \<times> u32) option" where
  "range16_entry bc pc idx =
     do { low \<leftarrow> get_u16 bc (pc + idx * 4); high \<leftarrow> get_u16 bc (pc + idx * 4 + 2); Some (low, high) }"

definition range32_entry :: "u8 list \<Rightarrow> nat \<Rightarrow> nat \<Rightarrow> (u32 \<times> u32) option" where
  "range32_entry bc pc idx =
     do { low \<leftarrow> get_u32 bc (pc + idx * 8); high \<leftarrow> get_u32 bc (pc + idx * 8 + 4); Some (low, high) }"

definition range16_test :: "u8 list \<Rightarrow> nat \<Rightarrow> nat \<Rightarrow> u32 \<Rightarrow> bool option" where
  "range16_test bc pc n c =
     do { low \<leftarrow> get_u16 bc pc;
          if c < low then Some False
          else do { idx_max \<leftarrow> ptr_dec n;
                    high \<leftarrow> get_u16 bc (pc + idx_max * 4 + 2);
                    if 0xffff \<le> c \<and> high = 0xffff then Some True
                    else if high < c then Some False
                    else re_range_loop (range16_entry bc pc) c 0 idx_max } }"

definition range32_test :: "u8 list \<Rightarrow> nat \<Rightarrow> nat \<Rightarrow> u32 \<Rightarrow> bool option" where
  "range32_test bc pc n c =
     do { low \<leftarrow> get_u32 bc pc;
          if c < low then Some False
          else do { idx_max \<leftarrow> ptr_dec n;
                    high \<leftarrow> get_u32 bc (pc + idx_max * 8 + 4);
                    if high < c then Some False
                    else re_range_loop (range32_entry bc pc) c 0 idx_max } }"

definition re_range ::
  "re_ctx \<Rightarrow> (u8 list \<Rightarrow> nat \<Rightarrow> nat \<Rightarrow> u32 \<Rightarrow> bool option) \<Rightarrow> nat \<Rightarrow> re_cfg \<Rightarrow> re_ctl option" where
  "re_range x test entry_size s =
     do { n \<leftarrow> get_u16 (rc_bc x) (re_pc s);
          let n = unat n;
          let pc = re_pc s + 2;
          if cbuf_end x \<le> re_cptr s then Some No_match
          else do { (c, p) \<leftarrow> re_get_char x (re_cptr s) (cbuf_end x);
                    c \<leftarrow> re_canon x c;
                    b \<leftarrow> test (rc_bc x) pc n c;
                    Some (if b then Go (s\<lparr>re_cptr := p, re_pc := pc + entry_size * n\<rparr>)
                          else No_match) } }"

text \<open>The loop \<^verbatim>\<open>while (val <= val2)\<close> of \<^verbatim>\<open>REOP_save_reset\<close>.\<close>

function save_reset_loop :: "nat \<Rightarrow> nat \<Rightarrow> nat option list \<Rightarrow> nat option list option" where
  "save_reset_loop val val2 capture =
     (if val \<le> val2 then
        do { capture \<leftarrow> wr capture (2 * val) None;
             capture \<leftarrow> wr capture (2 * val + 1) None;
             save_reset_loop (val + 1) val2 capture }
      else Some capture)"
  by pat_completeness auto
termination
  by (relation "measure (\<lambda>(val, val2, capture). val2 + 1 - val)") auto

declare save_reset_loop.simps [simp del]

text \<open>\<^verbatim>\<open>stack[stack_len++] = val\<close>; reading below the bottom of the stack is outside the array.\<close>

definition re_push :: "u64 \<Rightarrow> re_cfg \<Rightarrow> re_cfg option" where
  "re_push v s =
     do { st \<leftarrow> wr (re_stack s) (re_stack_len s) v;
          Some (s\<lparr>re_stack := st, re_stack_len := re_stack_len s + 1\<rparr>) }"

definition cptr_word :: "re_ctx \<Rightarrow> nat \<Rightarrow> u64" where
  "cptr_word x p = of_nat (rc_addr x + (if rc_cbuf_type x = 0 then p else 2 * p))"

fun re_op :: "re_ctx \<Rightarrow> reop \<Rightarrow> re_cfg \<Rightarrow> re_ctl option" where
  "re_op x REOP_match s = Some (Matched s)"
| "re_op x REOP_char32 s =
     do { val \<leftarrow> get_u32 (rc_bc x) (re_pc s); re_test_char x val (s\<lparr>re_pc := re_pc s + 4\<rparr>) }"
| "re_op x REOP_char s =
     do { val \<leftarrow> get_u16 (rc_bc x) (re_pc s); re_test_char x val (s\<lparr>re_pc := re_pc s + 2\<rparr>) }"
| "re_op x REOP_split_goto_first s =
     do { val \<leftarrow> get_u32 (rc_bc x) (re_pc s);
          pc \<leftarrow> re_jump (re_pc s + 4) val;
          Some (Push RE_EXEC_STATE_SPLIT (re_pc s + 4) (s\<lparr>re_pc := pc\<rparr>)) }"
| "re_op x REOP_split_next_first s =
     do { val \<leftarrow> get_u32 (rc_bc x) (re_pc s);
          pc1 \<leftarrow> re_jump (re_pc s + 4) val;
          Some (Push RE_EXEC_STATE_SPLIT pc1 (s\<lparr>re_pc := re_pc s + 4\<rparr>)) }"
| "re_op x REOP_lookahead s =
     do { val \<leftarrow> get_u32 (rc_bc x) (re_pc s);
          pc1 \<leftarrow> re_jump (re_pc s + 4) val;
          Some (Push RE_EXEC_STATE_LOOKAHEAD pc1 (s\<lparr>re_pc := re_pc s + 4\<rparr>)) }"
| "re_op x REOP_negative_lookahead s =
     do { val \<leftarrow> get_u32 (rc_bc x) (re_pc s);
          pc1 \<leftarrow> re_jump (re_pc s + 4) val;
          Some (Push RE_EXEC_STATE_NEGATIVE_LOOKAHEAD pc1 (s\<lparr>re_pc := re_pc s + 4\<rparr>)) }"
| "re_op x REOP_goto s =
     do { val \<leftarrow> get_u32 (rc_bc x) (re_pc s);
          pc \<leftarrow> re_jump (re_pc s + 4) val;
          Some (Go (s\<lparr>re_pc := pc\<rparr>)) }"
| "re_op x REOP_line_start s = re_line_start x s"
| "re_op x REOP_line_end s = re_line_end x s"
| "re_op x REOP_dot s = re_any x (\<lambda>c. \<not> is_line_terminator c) s"
| "re_op x REOP_any s = re_any x (\<lambda>c. True) s"
| "re_op x REOP_save_start s =
     do { b \<leftarrow> rd (rc_bc x) (re_pc s);
          c_assert (unat b < rc_capture_count x);
          cap \<leftarrow> wr (re_capture s) (2 * unat b) (Some (re_cptr s));
          Some (Go (s\<lparr>re_pc := re_pc s + 1, re_capture := cap\<rparr>)) }"
| "re_op x REOP_save_end s =
     do { b \<leftarrow> rd (rc_bc x) (re_pc s);
          c_assert (unat b < rc_capture_count x);
          cap \<leftarrow> wr (re_capture s) (2 * unat b + 1) (Some (re_cptr s));
          Some (Go (s\<lparr>re_pc := re_pc s + 1, re_capture := cap\<rparr>)) }"
| "re_op x REOP_save_reset s =
     do { b \<leftarrow> rd (rc_bc x) (re_pc s);
          b2 \<leftarrow> rd (rc_bc x) (re_pc s + 1);
          c_assert (unat b2 < rc_capture_count x);
          cap \<leftarrow> save_reset_loop (unat b) (unat b2) (re_capture s);
          Some (Go (s\<lparr>re_pc := re_pc s + 2, re_capture := cap\<rparr>)) }"
| "re_op x REOP_push_i32 s =
     do { val \<leftarrow> get_u32 (rc_bc x) (re_pc s);
          s \<leftarrow> re_push (ucast val) (s\<lparr>re_pc := re_pc s + 4\<rparr>);
          Some (Go s) }"
| "re_op x REOP_drop s =
     do { n \<leftarrow> ptr_dec (re_stack_len s); Some (Go (s\<lparr>re_stack_len := n\<rparr>)) }"
| "re_op x REOP_loop s =
     do { val \<leftarrow> get_u32 (rc_bc x) (re_pc s);
          i \<leftarrow> ptr_dec (re_stack_len s);
          v \<leftarrow> rd (re_stack s) i;
          st \<leftarrow> wr (re_stack s) i (v - 1);
          pc \<leftarrow> (if v - 1 \<noteq> 0 then re_jump (re_pc s + 4) val else Some (re_pc s + 4));
          Some (Go (s\<lparr>re_pc := pc, re_stack := st\<rparr>)) }"
| "re_op x REOP_push_char_pos s =
     do { s \<leftarrow> re_push (cptr_word x (re_cptr s)) s; Some (Go s) }"
| "re_op x REOP_bne_char_pos s =
     do { val \<leftarrow> get_u32 (rc_bc x) (re_pc s);
          i \<leftarrow> ptr_dec (re_stack_len s);
          v \<leftarrow> rd (re_stack s) i;
          pc \<leftarrow> (if v \<noteq> cptr_word x (re_cptr s) then re_jump (re_pc s + 4) val
                 else Some (re_pc s + 4));
          Some (Go (s\<lparr>re_pc := pc, re_stack_len := i\<rparr>)) }"
| "re_op x REOP_word_boundary s = re_word_boundary x False s"
| "re_op x REOP_not_word_boundary s = re_word_boundary x True s"
| "re_op x REOP_back_reference s =
     do { b \<leftarrow> rd (rc_bc x) (re_pc s);
          re_back_reference x False (unat b) (s\<lparr>re_pc := re_pc s + 1\<rparr>) }"
| "re_op x REOP_backward_back_reference s =
     do { b \<leftarrow> rd (rc_bc x) (re_pc s);
          re_back_reference x True (unat b) (s\<lparr>re_pc := re_pc s + 1\<rparr>) }"
| "re_op x REOP_range s = re_range x range16_test 4 s"
| "re_op x REOP_range32 s = re_range x range32_test 8 s"
| "re_op x REOP_prev s =
     (if re_cptr s = 0 then Some No_match
      else do { p \<leftarrow> prev_char (rc_cbuf_type x) (rc_cbuf x) (re_cptr s) 0;
                Some (Go (s\<lparr>re_cptr := p\<rparr>)) })"
| "re_op x REOP_simple_greedy_quant s =
     do { next_pos \<leftarrow> get_u32 (rc_bc x) (re_pc s);
          quant_min \<leftarrow> get_u32 (rc_bc x) (re_pc s + 4);
          quant_max \<leftarrow> get_u32 (rc_bc x) (re_pc s + 8);
          let pc1 = re_pc s + 16;
          pc \<leftarrow> re_jump pc1 next_pos;
          Some (Quant (unat quant_min) (unat quant_max) pc1 (s\<lparr>re_pc := pc\<rparr>)) }"
| "re_op x REOP_invalid s = None"

definition re_step :: "re_ctx \<Rightarrow> re_cfg \<Rightarrow> re_ctl option" where
  "re_step x s =
     do { b \<leftarrow> rd (rc_bc x) (re_pc s);
          op \<leftarrow> reop_of b;
          re_op x op (s\<lparr>re_pc := re_pc s + 1\<rparr>) }"

section \<open>The stack of saved states\<close>

text \<open>\<^verbatim>\<open>lre_realloc\<close> is provided by the user of the library.  The state is written at byte
  \<^verbatim>\<open>state_stack_len * state_size\<close> of the block; \<^verbatim>\<open>stack_len\<close> is stored in 8 bits.\<close>

definition push_state ::
  "re_ctx \<Rightarrow> 'h realloc_func \<Rightarrow> re_cfg \<Rightarrow> nat \<Rightarrow> re_exec_state_type \<Rightarrow> nat \<Rightarrow> 'h re_stk \<Rightarrow>
     (int \<times> 'h re_stk) option" where
  "push_state x lre_realloc s pc type count k =
     do { let (r :: int, k) =
            (if st_size k < length (st_states k) + 1 then
               let new_size = szmul (st_size k) 3 div 2;
                   new_size = (if new_size < 8 then 8 else new_size);
                   bytes = szmul new_size (rc_state_size x);
                   (new_stack, h) = lre_realloc (st_heap k) (st_ptr k) bytes
               in if new_stack = 0 then (-1, k\<lparr>st_heap := h\<rparr>)
                  else (0, k\<lparr>st_size := new_size, st_ptr := new_stack, st_bytes := bytes,
                             st_heap := h\<rparr>)
             else (0, k));
          if r < 0 then Some (-1, k)
          else do { c_assert ((length (st_states k) + 1) * rc_state_size x \<le> st_bytes k);
                    cap \<leftarrow> rd_block (re_capture s) 0 (2 * rc_capture_count x);
                    st \<leftarrow> rd_block (re_stack s) 0 (re_stack_len s);
                    Some (0, k\<lparr>st_states :=
                      \<lparr>rs_type = type, rs_count = count, rs_stack_len = re_stack_len s mod 256,
                       rs_cptr = re_cptr s, rs_pc = pc, rs_capture = cap, rs_stack = st\<rparr>
                      # st_states k\<rparr>) } }"

text \<open>\<open>pop_state1\<close> and \<open>pop_state\<close>: back to a saved state, without and with its captures.\<close>

definition pop_state1 :: "re_state \<Rightarrow> re_cfg \<Rightarrow> re_cfg option" where
  "pop_state1 rs s =
     do { d \<leftarrow> rd_block (rs_stack rs) 0 (rs_stack_len rs);
          st \<leftarrow> wr_block (re_stack s) 0 d;
          Some (s\<lparr>re_pc := rs_pc rs, re_cptr := rs_cptr rs, re_stack_len := rs_stack_len rs,
                  re_stack := st\<rparr>) }"

definition restore_capture :: "re_state \<Rightarrow> re_cfg \<Rightarrow> re_cfg option" where
  "restore_capture rs s =
     do { cap \<leftarrow> wr_block (re_capture s) 0 (rs_capture rs); Some (s\<lparr>re_capture := cap\<rparr>) }"

definition pop_state :: "re_state \<Rightarrow> re_cfg \<Rightarrow> re_cfg option" where
  "pop_state rs s = do { s \<leftarrow> restore_capture rs s; pop_state1 rs s }"

text \<open>The branch for \<^verbatim>\<open>RE_EXEC_STATE_GREEDY_QUANT\<close>: give one match of the atom back.\<close>

definition quant_back ::
  "re_ctx \<Rightarrow> re_state \<Rightarrow> re_state list \<Rightarrow> re_cfg \<Rightarrow> (re_cfg \<times> re_state list) option" where
  "quant_back x rs K s =
     do { s \<leftarrow> restore_capture rs s;
          s \<leftarrow> pop_state1 rs s;
          char_count \<leftarrow> get_u32 (rc_bc x) (rs_pc rs + 12);
          p \<leftarrow> prev_chars (rc_cbuf_type x) (rc_cbuf x) (unat char_count) (rs_cptr rs);
          next_pos \<leftarrow> get_u32 (rc_bc x) (rs_pc rs);
          pc \<leftarrow> re_jump (rs_pc rs + 16) next_pos;
          let rs = rs\<lparr>rs_cptr := p, rs_count := rs_count rs - 1\<rparr>;
          Some (s\<lparr>re_pc := pc, re_cptr := p\<rparr>, if rs_count rs = 0 then K else rs # K) }"

text \<open>The loop at the label \<^verbatim>\<open>recurse\<close>, over the saved states: \<open>Inl ret\<close> is \<^verbatim>\<open>return ret\<close>, \<open>Inr\<close> a
  state from which the execution goes on.\<close>

fun re_recurse ::
  "re_ctx \<Rightarrow> bool \<Rightarrow> re_cfg \<Rightarrow> re_state list \<Rightarrow> (bool \<times> re_cfg + re_cfg \<times> re_state list) option"
where
  "re_recurse x ret s [] = Some (Inl (ret, s))"
| "re_recurse x ret s (rs # K) =
     (case rs_type rs of
        RE_EXEC_STATE_SPLIT \<Rightarrow>
          if \<not> ret then do { s \<leftarrow> pop_state rs s; Some (Inr (s, K)) } else re_recurse x ret s K
      | RE_EXEC_STATE_GREEDY_QUANT \<Rightarrow>
          if \<not> ret then do { r \<leftarrow> quant_back x rs K s; Some (Inr r) } else re_recurse x ret s K
      | RE_EXEC_STATE_LOOKAHEAD \<Rightarrow>
          if ret then do { s \<leftarrow> pop_state1 rs s; Some (Inr (s, K)) } else re_recurse x False s K
      | RE_EXEC_STATE_NEGATIVE_LOOKAHEAD \<Rightarrow>
          if \<not> ret then do { s \<leftarrow> pop_state rs s; Some (Inr (s, K)) } else re_recurse x False s K)"

section \<open>The interpreter\<close>

text \<open>The values returned: -1, 0, and a match, which is the value 1 or, under \<^verbatim>\<open>no_recurse\<close>,
  the text pointer of the final configuration.\<close>

datatype re_ret = Re_error | Re_no_match | Re_match

datatype 'a outcome = Timeout | Fault | Done 'a

datatype 'h re_next = Stop re_ret re_cfg "'h re_stk" | Cont re_cfg "'h re_stk" | Crash

text \<open>The labels \<^verbatim>\<open>no_match\<close> (\<open>ret = False\<close>) and \<^verbatim>\<open>REOP_match\<close> (\<open>ret = True\<close>).\<close>

definition re_end :: "re_ctx \<Rightarrow> bool \<Rightarrow> bool \<Rightarrow> re_cfg \<Rightarrow> 'h re_stk \<Rightarrow> 'h re_next" where
  "re_end x no_recurse ret s k =
     (if no_recurse then Stop (if ret then Re_match else Re_no_match) s k
      else case re_recurse x ret s (st_states k) of
             None \<Rightarrow> Crash
           | Some (Inl (r, s)) \<Rightarrow> Stop (if r then Re_match else Re_no_match) s (k\<lparr>st_states := []\<rparr>)
           | Some (Inr (s, K)) \<Rightarrow> Cont s (k\<lparr>st_states := K\<rparr>))"

definition re_push_state ::
  "re_ctx \<Rightarrow> 'h realloc_func \<Rightarrow> nat \<Rightarrow> re_exec_state_type \<Rightarrow> nat \<Rightarrow> re_cfg \<Rightarrow> 'h re_stk \<Rightarrow>
     'h re_next" where
  "re_push_state x lre_realloc pc type count s k =
     (case push_state x lre_realloc s pc type count k of
        None \<Rightarrow> Crash
      | Some (r, k) \<Rightarrow> if r < 0 then Stop Re_error s k else Cont s k)"

fun re_dispatch ::
  "re_ctx \<Rightarrow> 'h realloc_func \<Rightarrow> bool \<Rightarrow> re_ctl \<Rightarrow> re_cfg \<Rightarrow> 'h re_stk \<Rightarrow> 'h re_next" where
  "re_dispatch x lre_realloc no_recurse (Go s') s k = Cont s' k"
| "re_dispatch x lre_realloc no_recurse (Matched s') s k = re_end x no_recurse True s' k"
| "re_dispatch x lre_realloc no_recurse No_match s k = re_end x no_recurse False s k"
| "re_dispatch x lre_realloc no_recurse (Push type pc s') s k =
     re_push_state x lre_realloc pc type 0 s' k"
| "re_dispatch x lre_realloc no_recurse (Quant quant_min quant_max pc1 s') s k = Crash"

text \<open>After the loop of \<^verbatim>\<open>REOP_simple_greedy_quant\<close>, with \<open>q\<close> matches of the atom.\<close>

definition re_after_quant ::
  "re_ctx \<Rightarrow> 'h realloc_func \<Rightarrow> bool \<Rightarrow> nat \<Rightarrow> nat \<Rightarrow> nat \<Rightarrow> re_cfg \<Rightarrow> 'h re_stk \<Rightarrow> 'h re_next" where
  "re_after_quant x lre_realloc no_recurse quant_min pc1 q s k =
     (if q < quant_min then re_end x no_recurse False s k
      else if q > quant_min then
        re_push_state x lre_realloc (pc1 - 16) RE_EXEC_STATE_GREEDY_QUANT (q - quant_min) s k
      else Cont s k)"

fun re_exec ::
  "re_ctx \<Rightarrow> 'h realloc_func \<Rightarrow> nat \<Rightarrow> bool \<Rightarrow> re_cfg \<Rightarrow> 'h re_stk \<Rightarrow>
     (re_ret \<times> re_cfg \<times> 'h re_stk) outcome"
and re_quant ::
  "re_ctx \<Rightarrow> 'h realloc_func \<Rightarrow> nat \<Rightarrow> nat \<Rightarrow> nat \<Rightarrow> nat \<Rightarrow> re_cfg \<Rightarrow> 'h re_stk \<Rightarrow>
     (nat option \<times> re_cfg \<times> 'h re_stk) outcome" where
  "re_exec x lre_realloc 0 no_recurse s k = Timeout"
| "re_exec x lre_realloc (Suc n) no_recurse s k =
     (case re_step x s of
        None \<Rightarrow> Fault
      | Some (Quant quant_min quant_max pc1 s') \<Rightarrow>
          (case re_quant x lre_realloc n pc1 quant_max 0 s' k of
             Timeout \<Rightarrow> Timeout
           | Fault \<Rightarrow> Fault
           | Done (None, s'', k') \<Rightarrow> Done (Re_error, s'', k')
           | Done (Some q, s'', k') \<Rightarrow>
               (case re_after_quant x lre_realloc no_recurse quant_min pc1 q s'' k' of
                  Crash \<Rightarrow> Fault
                | Stop r s''' k'' \<Rightarrow> Done (r, s''', k'')
                | Cont s''' k'' \<Rightarrow> re_exec x lre_realloc n no_recurse s''' k''))
      | Some ctl \<Rightarrow>
          (case re_dispatch x lre_realloc no_recurse ctl s k of
             Crash \<Rightarrow> Fault
           | Stop r s' k' \<Rightarrow> Done (r, s', k')
           | Cont s' k' \<Rightarrow> re_exec x lre_realloc n no_recurse s' k'))"
| "re_quant x lre_realloc 0 pc1 quant_max q s k = Timeout"
| "re_quant x lre_realloc (Suc n) pc1 quant_max q s k =
     (case re_exec x lre_realloc n True (s\<lparr>re_pc := pc1\<rparr>) k of
        Timeout \<Rightarrow> Timeout
      | Fault \<Rightarrow> Fault
      | Done (res, d, k') \<Rightarrow>
          let s' = s\<lparr>re_capture := re_capture d, re_stack := re_stack d\<rparr> in
          (case res of
             Re_error \<Rightarrow> Done (None, s', k')
           | Re_no_match \<Rightarrow> Done (Some q, s', k')
           | Re_match \<Rightarrow>
               (let s'' = s'\<lparr>re_cptr := re_cptr d\<rparr> in
                if quant_max \<le> q + 1 \<and> quant_max \<noteq> 2 ^ 31 - 1 then Done (Some (q + 1), s'', k')
                else re_quant x lre_realloc n pc1 quant_max (q + 1) s'' k')))"

declare re_exec.simps [simp del] re_quant.simps [simp del]

section \<open>Entry point\<close>

definition LRE_FLAG_IGNORECASE :: u8 where "LRE_FLAG_IGNORECASE = 2"
definition LRE_FLAG_MULTILINE :: u8 where "LRE_FLAG_MULTILINE = 4"
definition LRE_FLAG_UTF16 :: u8 where "LRE_FLAG_UTF16 = 16"
definition LRE_FLAG_NAMED_GROUPS :: u8 where "LRE_FLAG_NAMED_GROUPS = 128"

definition RE_HEADER_LEN :: nat where "RE_HEADER_LEN = 7"

text \<open>\<^verbatim>\<open>sizeof(REExecState)\<close> on the 64-bit targets.\<close>

definition sizeof_re_exec_state :: nat where "sizeof_re_exec_state = 32"

definition re_context :: "u8 list \<Rightarrow> u16 list \<Rightarrow> nat \<Rightarrow> nat \<Rightarrow> re_ctx option" where
  "re_context bc_buf cbuf cbuf_addr cbuf_type =
     do { re_flags \<leftarrow> rd bc_buf 0;
          n_capture \<leftarrow> rd bc_buf 1;
          n_stack \<leftarrow> rd bc_buf 2;
          let is_utf16 = (re_flags AND LRE_FLAG_UTF16 \<noteq> 0);
          Some \<lparr>rc_bc = bc_buf, rc_cbuf = cbuf, rc_addr = cbuf_addr,
                rc_cbuf_type = (if cbuf_type = 1 \<and> is_utf16 then 2 else cbuf_type),
                rc_capture_count = unat n_capture, rc_stack_size_max = unat n_stack,
                rc_multi_line = (re_flags AND LRE_FLAG_MULTILINE \<noteq> 0),
                rc_ignore_case = (re_flags AND LRE_FLAG_IGNORECASE \<noteq> 0),
                rc_is_utf16 = is_utf16,
                rc_state_size = sizeof_re_exec_state + unat n_capture * 8 * 2 + unat n_stack * 8\<rparr> }"

text \<open>The capture array starts out all \<^verbatim>\<open>NULL\<close>; the cells of the stack are those \<^verbatim>\<open>alloca\<close> returns,
  with an unspecified content \<open>junk\<close>.\<close>

definition re_start :: "re_ctx \<Rightarrow> nat \<Rightarrow> u64 \<Rightarrow> re_cfg" where
  "re_start x cindex junk =
     \<lparr>re_pc = RE_HEADER_LEN, re_cptr = cindex,
      re_capture = replicate (rc_capture_count x * 2) None,
      re_stack = replicate (rc_stack_size_max x) junk, re_stack_len = 0\<rparr>"

text \<open>The text has \<open>clen\<close> units of \<^verbatim>\<open>1 << cbuf_type\<close> bytes, with \<^verbatim>\<open>cbuf_type\<close> 0 or 1.  The byte
  offsets of its end and of the start, \<^verbatim>\<open>clen << cbuf_type\<close> and \<^verbatim>\<open>cindex << cbuf_type\<close>, are
  computed in \<^verbatim>\<open>int\<close>.\<close>

definition text_range :: "nat \<Rightarrow> nat \<Rightarrow> nat \<Rightarrow> unit option" where
  "text_range clen cindex cbuf_type =
     do { c_assert (cbuf_type \<le> 1);
          _ \<leftarrow> c_int (clen * 2 ^ cbuf_type);
          _ \<leftarrow> c_int (cindex * 2 ^ cbuf_type);
          Some () }"

definition lre_exec ::
  "nat \<Rightarrow> 'h realloc_func \<Rightarrow> u8 list \<Rightarrow> u16 list \<Rightarrow> nat \<Rightarrow> nat \<Rightarrow> nat \<Rightarrow> u64 \<Rightarrow> 'h \<Rightarrow>
     (int \<times> nat option list \<times> 'h) outcome" where
  "lre_exec fuel lre_realloc bc_buf cbuf cbuf_addr cindex cbuf_type junk h =
     (case do { text_range (length cbuf) cindex cbuf_type;
                re_context bc_buf cbuf cbuf_addr cbuf_type } of
        None \<Rightarrow> Fault
      | Some x \<Rightarrow>
          (case re_exec x lre_realloc fuel False (re_start x cindex junk)
                  \<lparr>st_states = [], st_size = 0, st_ptr = 0, st_bytes = 0, st_heap = h\<rparr> of
             Timeout \<Rightarrow> Timeout
           | Fault \<Rightarrow> Fault
           | Done (ret, s, k) \<Rightarrow>
               Done (case ret of Re_error \<Rightarrow> -1 | Re_no_match \<Rightarrow> 0 | Re_match \<Rightarrow> 1,
                     re_capture s, snd (lre_realloc (st_heap k) (st_ptr k) 0))))"

definition lre_get_capture_count :: "u8 list \<Rightarrow> nat option" where
  "lre_get_capture_count bc_buf = map_option unat (rd bc_buf 1)"

definition lre_get_flags :: "u8 list \<Rightarrow> u8 option" where
  "lre_get_flags bc_buf = rd bc_buf 0"

text \<open>\<open>Some None\<close> is the null pointer, otherwise the offset of the names in the buffer.\<close>

definition lre_get_groupnames :: "u8 list \<Rightarrow> nat option option" where
  "lre_get_groupnames bc_buf =
     do { flags \<leftarrow> lre_get_flags bc_buf;
          if flags AND LRE_FLAG_NAMED_GROUPS = 0 then Some None
          else do { re_bytecode_len \<leftarrow> get_u32 bc_buf 3;
                    Some (Some (7 + unat re_bytecode_len)) } }"

end
