(* ===== verification/RegexpVerify.thy ===== *)
theory RegexpVerify
  imports RegexpExec
begin

text \<open>
  A verifier for the bytecode of the regular expression interpreter and the proof that verified
  bytecode runs without undefined behaviour: every access to the bytecode, the text, the
  captures, the value stack and the saved states is in bounds, no \<^verbatim>\<open>assert\<close> fails and
  \<^verbatim>\<open>abort()\<close> is not reached.  The certificate is the list of the stack depths at the instruction
  boundaries, what \<^verbatim>\<open>compute_stack_size\<close> counts at compile time.
\<close>

section \<open>Simple atoms\<close>

text \<open>\<open>re_simple_len bc pc op\<close> is the length of an instruction that a simple quantifier may
  repeat, with the number of characters it consumes; \<open>pc\<close> points behind the opcode.\<close>

definition re_simple_len :: "u8 list \<Rightarrow> nat \<Rightarrow> reop \<Rightarrow> (nat \<times> nat) option" where
  "re_simple_len bc pc op =
     (case op of
        REOP_char \<Rightarrow> Some (3, 1) | REOP_char32 \<Rightarrow> Some (5, 1)
      | REOP_dot \<Rightarrow> Some (1, 1) | REOP_any \<Rightarrow> Some (1, 1)
      | REOP_range \<Rightarrow> do { n \<leftarrow> get_u16 bc pc; if n = 0 then None else Some (3 + 4 * unat n, 1) }
      | REOP_range32 \<Rightarrow> do { n \<leftarrow> get_u16 bc pc; if n = 0 then None else Some (3 + 8 * unat n, 1) }
      | REOP_line_start \<Rightarrow> Some (1, 0) | REOP_line_end \<Rightarrow> Some (1, 0)
      | REOP_word_boundary \<Rightarrow> Some (1, 0) | REOP_not_word_boundary \<Rightarrow> Some (1, 0)
      | _ \<Rightarrow> None)"

lemma re_simple_len_pos: "re_simple_len bc pc op = Some (l, n) \<Longrightarrow> 0 < l"
  by (auto simp: re_simple_len_def bind_eq_Some_conv split: reop.splits if_splits)

text \<open>The number of characters the code from \<open>pc\<close> up to \<open>e\<close> consumes.\<close>

function re_atom_chars :: "u8 list \<Rightarrow> nat \<Rightarrow> nat \<Rightarrow> nat option" where
  "re_atom_chars bc pc e =
     (if pc < e then
        do { b \<leftarrow> rd bc pc;
             op \<leftarrow> reop_of b;
             r \<leftarrow> re_simple_len bc (pc + 1) op;
             n \<leftarrow> re_atom_chars bc (pc + fst r) e;
             Some (snd r + n) }
      else if pc = e then Some 0 else None)"
  by pat_completeness auto
termination
  by (relation "measure (\<lambda>(bc, pc, e). e - pc)") (auto dest: re_simple_len_pos)

declare re_atom_chars.simps [simp del]

section \<open>The verifier\<close>

definition depth_at :: "nat option list \<Rightarrow> nat \<Rightarrow> nat \<Rightarrow> bool" where
  "depth_at d pc k \<longleftrightarrow> pc < length d \<and> d ! pc = Some k"

definition jump_ok :: "u8 list \<Rightarrow> nat option list \<Rightarrow> nat \<Rightarrow> nat \<Rightarrow> bool" where
  "jump_ok bc d pc k =
     (case do { val \<leftarrow> get_u32 bc pc; re_jump (pc + 4) val } of
        None \<Rightarrow> False | Some t \<Rightarrow> depth_at d t k)"

definition range_ok :: "u8 list \<Rightarrow> nat option list \<Rightarrow> nat \<Rightarrow> nat \<Rightarrow> nat \<Rightarrow> bool" where
  "range_ok bc d pc entry_size k =
     (case get_u16 bc pc of
        None \<Rightarrow> False | Some n \<Rightarrow> n \<noteq> 0 \<and> depth_at d (pc + 2 + entry_size * unat n) k)"

definition quant_ok :: "u8 list \<Rightarrow> nat option list \<Rightarrow> nat \<Rightarrow> nat \<Rightarrow> bool" where
  "quant_ok bc d pc k =
     (case do { next_pos \<leftarrow> get_u32 bc pc; char_count \<leftarrow> get_u32 bc (pc + 12);
                t \<leftarrow> re_jump (pc + 16) next_pos; Some (char_count, t) } of
        None \<Rightarrow> False
      | Some (char_count, t) \<Rightarrow>
          pc + 16 < t \<and> depth_at d t k \<and> rd bc (t - 1) = Some 10 \<and>
          re_atom_chars bc (pc + 16) (t - 1) = Some (unat char_count))"

fun re_op_ok ::
  "nat \<Rightarrow> nat \<Rightarrow> u8 list \<Rightarrow> nat option list \<Rightarrow> nat \<Rightarrow> nat \<Rightarrow> reop \<Rightarrow> bool" where
  "re_op_ok cc ssm bc d pc k REOP_invalid = False"
| "re_op_ok cc ssm bc d pc k REOP_match = True"
| "re_op_ok cc ssm bc d pc k REOP_char = depth_at d (pc + 2) k"
| "re_op_ok cc ssm bc d pc k REOP_char32 = depth_at d (pc + 4) k"
| "re_op_ok cc ssm bc d pc k REOP_dot = depth_at d pc k"
| "re_op_ok cc ssm bc d pc k REOP_any = depth_at d pc k"
| "re_op_ok cc ssm bc d pc k REOP_line_start = depth_at d pc k"
| "re_op_ok cc ssm bc d pc k REOP_line_end = depth_at d pc k"
| "re_op_ok cc ssm bc d pc k REOP_word_boundary = depth_at d pc k"
| "re_op_ok cc ssm bc d pc k REOP_not_word_boundary = depth_at d pc k"
| "re_op_ok cc ssm bc d pc k REOP_prev = depth_at d pc k"
| "re_op_ok cc ssm bc d pc k REOP_goto = jump_ok bc d pc k"
| "re_op_ok cc ssm bc d pc k REOP_split_goto_first = (jump_ok bc d pc k \<and> depth_at d (pc + 4) k)"
| "re_op_ok cc ssm bc d pc k REOP_split_next_first = (jump_ok bc d pc k \<and> depth_at d (pc + 4) k)"
| "re_op_ok cc ssm bc d pc k REOP_lookahead = (jump_ok bc d pc k \<and> depth_at d (pc + 4) k)"
| "re_op_ok cc ssm bc d pc k REOP_negative_lookahead =
     (jump_ok bc d pc k \<and> depth_at d (pc + 4) k)"
| "re_op_ok cc ssm bc d pc k REOP_save_start = (unat (bc ! pc) < cc \<and> depth_at d (pc + 1) k)"
| "re_op_ok cc ssm bc d pc k REOP_save_end = (unat (bc ! pc) < cc \<and> depth_at d (pc + 1) k)"
| "re_op_ok cc ssm bc d pc k REOP_save_reset = (unat (bc ! (pc + 1)) < cc \<and> depth_at d (pc + 2) k)"
| "re_op_ok cc ssm bc d pc k REOP_loop = (0 < k \<and> jump_ok bc d pc k \<and> depth_at d (pc + 4) k)"
| "re_op_ok cc ssm bc d pc k REOP_push_i32 = (k < ssm \<and> depth_at d (pc + 4) (k + 1))"
| "re_op_ok cc ssm bc d pc k REOP_drop = (0 < k \<and> depth_at d pc (k - 1))"
| "re_op_ok cc ssm bc d pc k REOP_push_char_pos = (k < ssm \<and> depth_at d pc (k + 1))"
| "re_op_ok cc ssm bc d pc k REOP_bne_char_pos =
     (0 < k \<and> jump_ok bc d pc (k - 1) \<and> depth_at d (pc + 4) (k - 1))"
| "re_op_ok cc ssm bc d pc k REOP_back_reference = depth_at d (pc + 1) k"
| "re_op_ok cc ssm bc d pc k REOP_backward_back_reference = depth_at d (pc + 1) k"
| "re_op_ok cc ssm bc d pc k REOP_range = range_ok bc d pc 4 k"
| "re_op_ok cc ssm bc d pc k REOP_range32 = range_ok bc d pc 8 k"
| "re_op_ok cc ssm bc d pc k REOP_simple_greedy_quant = quant_ok bc d pc k"

definition re_instr_ok ::
  "nat \<Rightarrow> nat \<Rightarrow> u8 list \<Rightarrow> nat option list \<Rightarrow> nat \<Rightarrow> nat \<Rightarrow> bool" where
  "re_instr_ok cc ssm bc d pc k =
     (case reop_of (bc ! pc) of None \<Rightarrow> False | Some op \<Rightarrow> re_op_ok cc ssm bc d (pc + 1) k op)"

definition re_code_ok :: "nat \<Rightarrow> nat \<Rightarrow> u8 list \<Rightarrow> nat option list \<Rightarrow> bool" where
  "re_code_ok cc ssm bc d \<longleftrightarrow>
     length d = length bc \<and> depth_at d RE_HEADER_LEN 0 \<and>
     list_all (\<lambda>pc. case d ! pc of None \<Rightarrow> True | Some k \<Rightarrow> re_instr_ok cc ssm bc d pc k)
       [0..<length bc]"

text \<open>The whole buffer, with the capture count and the stack size of its header.\<close>

definition re_verify :: "u8 list \<Rightarrow> nat option list \<Rightarrow> bool" where
  "re_verify bc_buf d \<longleftrightarrow>
     RE_HEADER_LEN < length bc_buf \<and> re_code_ok (unat (bc_buf ! 1)) (unat (bc_buf ! 2)) bc_buf d"

section \<open>Invariants\<close>

text \<open>With \<open>al\<close> the text pointer is also never between the halves of a surrogate pair.\<close>

definition pos_ok :: "re_ctx \<Rightarrow> bool \<Rightarrow> nat \<Rightarrow> bool" where
  "pos_ok x al p \<longleftrightarrow> p \<le> cbuf_end x \<and> (al \<longrightarrow> \<not> mid_pair (rc_cbuf_type x) (rc_cbuf x) p)"

definition capture_ok :: "re_ctx \<Rightarrow> nat option list \<Rightarrow> bool" where
  "capture_ok x cap \<longleftrightarrow>
     length cap = 2 * rc_capture_count x \<and> list_all (\<lambda>c. \<forall>p. c = Some p \<longrightarrow> p \<le> cbuf_end x) cap"

definition data_ok :: "re_ctx \<Rightarrow> bool \<Rightarrow> re_cfg \<Rightarrow> bool" where
  "data_ok x al s \<longleftrightarrow>
     pos_ok x al (re_cptr s) \<and> capture_ok x (re_capture s) \<and>
     length (re_stack s) = rc_stack_size_max x \<and> re_stack_len s \<le> rc_stack_size_max x"

definition re_wt :: "re_ctx \<Rightarrow> nat option list \<Rightarrow> bool \<Rightarrow> re_cfg \<Rightarrow> bool" where
  "re_wt x d al s \<longleftrightarrow> data_ok x al s \<and> depth_at d (re_pc s) (re_stack_len s)"

definition ctx_ok :: "re_ctx \<Rightarrow> nat option list \<Rightarrow> bool" where
  "ctx_ok x d \<longleftrightarrow>
     re_code_ok (rc_capture_count x) (rc_stack_size_max x) (rc_bc x) d \<and>
     rc_capture_count x < 256 \<and> rc_stack_size_max x < 256 \<and>
     rc_state_size x = sizeof_re_exec_state + rc_capture_count x * 8 * 2 + rc_stack_size_max x * 8"

text \<open>\<open>char_step\<close>: the results of an instruction that reads one character and goes to \<open>pc\<close>;
  \<open>test_step\<close>: of one that only tests the text.\<close>

definition char_step :: "re_ctx \<Rightarrow> nat \<Rightarrow> re_cfg \<Rightarrow> re_ctl \<Rightarrow> bool" where
  "char_step x pc s ctl \<longleftrightarrow>
     ctl = No_match \<or>
     (\<exists>c p. re_get_char x (re_cptr s) (cbuf_end x) = Some (c, p) \<and>
        ctl = Go (s\<lparr>re_pc := pc, re_cptr := p\<rparr>))"

definition test_step :: "nat \<Rightarrow> re_cfg \<Rightarrow> re_ctl \<Rightarrow> bool" where
  "test_step pc s ctl \<longleftrightarrow> ctl = No_match \<or> ctl = Go (s\<lparr>re_pc := pc\<rparr>)"

section \<open>Characters\<close>

lemma re_canon_ok: "\<exists>r. re_canon x c = Some r"
  using lre_canonicalize_defined by (simp add: re_canon_def)

lemma re_get_char_ok:
  assumes "cptr < e" and "e \<le> cbuf_end x"
  shows "\<exists>c p. re_get_char x cptr e = Some (c, p) \<and> cptr < p \<and> p \<le> e"
  using get_char_ok [OF assms] by (simp add: re_get_char_def)

lemma pos_ok_get_char:
  assumes "re_get_char x cptr (cbuf_end x) = Some (c, p)" and "cptr \<le> cbuf_end x"
  shows "pos_ok x al p"
proof -
  have "cptr < cbuf_end x"
    using assms by (cases "cptr = cbuf_end x") (auto simp: re_get_char_def get_char_def rd_unit_None)
  then show ?thesis
    using assms get_char_ok [of cptr "cbuf_end x" "rc_cbuf x" "rc_cbuf_type x"]
      get_char_aligned [of "rc_cbuf_type x" "rc_cbuf x" cptr c p]
    by (auto simp: re_get_char_def pos_ok_def)
qed

lemma re_test_char_step:
  assumes "pos_ok x al (re_cptr s)"
  shows "\<exists>ctl. re_test_char x val s = Some ctl \<and> char_step x (re_pc s) s ctl"
proof (cases "cbuf_end x \<le> re_cptr s")
  case False
  then obtain c p where "re_get_char x (re_cptr s) (cbuf_end x) = Some (c, p)"
    using re_get_char_ok [of "re_cptr s" "cbuf_end x" x] by auto
  with False re_canon_ok [of x c] show ?thesis
    by (auto simp: re_test_char_def char_step_def)
qed (simp add: re_test_char_def char_step_def)

lemma re_any_step:
  assumes "pos_ok x al (re_cptr s)"
  shows "\<exists>ctl. re_any x ok s = Some ctl \<and> char_step x (re_pc s) s ctl"
proof (cases "re_cptr s = cbuf_end x")
  case False
  then obtain c p where "re_get_char x (re_cptr s) (cbuf_end x) = Some (c, p)"
    using assms re_get_char_ok [of "re_cptr s" "cbuf_end x" x] by (auto simp: pos_ok_def)
  with False show ?thesis
    by (auto simp: re_any_def char_step_def)
qed (simp add: re_any_def char_step_def)

lemma re_line_start_step:
  "pos_ok x al (re_cptr s) \<Longrightarrow>
     \<exists>ctl. re_line_start x s = Some ctl \<and> test_step (re_pc s) s ctl"
  using peek_prev_char_ok [of "re_cptr s" "rc_cbuf x" "rc_cbuf_type x"]
  by (auto simp: re_line_start_def test_step_def pos_ok_def)

lemma re_line_end_step:
  "pos_ok x al (re_cptr s) \<Longrightarrow> \<exists>ctl. re_line_end x s = Some ctl \<and> test_step (re_pc s) s ctl"
  using peek_char_ok [of "re_cptr s" "rc_cbuf x" "rc_cbuf_type x"]
  by (auto simp: re_line_end_def test_step_def pos_ok_def)

lemma re_word_boundary_step:
  assumes "pos_ok x al (re_cptr s)"
  shows "\<exists>ctl. re_word_boundary x neg s = Some ctl \<and> test_step (re_pc s) s ctl"
proof -
  let ?p = "re_cptr s"
  obtain v1 where v1: "(if ?p = 0 then Some False
       else do { c \<leftarrow> peek_prev_char (rc_cbuf_type x) (rc_cbuf x) ?p 0; Some (is_word_char c) })
      = Some v1"
    using assms peek_prev_char_ok [of ?p "rc_cbuf x" "rc_cbuf_type x"]
    by (cases "?p = 0") (auto simp: pos_ok_def)
  obtain v2 where v2: "(if cbuf_end x \<le> ?p then Some False
       else do { c \<leftarrow> peek_char (rc_cbuf_type x) (rc_cbuf x) ?p (cbuf_end x); Some (is_word_char c) })
      = Some v2"
    using assms peek_char_ok [of ?p "rc_cbuf x" "rc_cbuf_type x"]
    by (cases "cbuf_end x \<le> ?p") auto
  show ?thesis
    unfolding re_word_boundary_def v1 v2 by (simp add: test_step_def)
qed

section \<open>Character ranges\<close>

lemma get_u16_ok: "p + 2 \<le> length bc \<Longrightarrow> \<exists>v. get_u16 bc p = Some v"
  by (simp add: get_u16_def rd_block_def)

lemma get_u32_ok: "p + 4 \<le> length bc \<Longrightarrow> \<exists>v. get_u32 bc p = Some v"
  by (simp add: get_u32_def rd_block_def)

text \<open>The search stays inside the table: the first bound is not above \<open>c\<close>, so \<open>idx - 1\<close> does not
  wrap.\<close>

lemma re_range_loop_ok:
  assumes "\<And>i. i < n \<Longrightarrow> \<exists>e. entry i = Some e"
    and "\<And>e. entry 0 = Some e \<Longrightarrow> fst e \<le> c" and "idx_max < n"
  shows "\<exists>b. re_range_loop entry c idx_min idx_max = Some b"
  using assms(3)
proof (induction "idx_max + 1 - idx_min" arbitrary: idx_min idx_max rule: less_induct)
  case less
  let ?i = "(idx_min + idx_max) div 2"
  show ?case
  proof (cases "idx_min \<le> idx_max")
    case True
    then have i: "idx_min \<le> ?i" "?i \<le> idx_max" by auto
    then obtain low high where e: "entry ?i = Some (low, high)"
      using assms(1) less.prems by (metis le_less_trans surj_pair)
    then have "?i \<noteq> 0" if "c < low"
      using assms(2) that by (metis fst_conv leD)
    then have "c < low \<Longrightarrow> \<exists>b. re_range_loop entry c idx_min (?i - 1) = Some b"
      using less.hyps [of "?i - 1" idx_min] less.prems i by auto
    moreover have "\<exists>b. re_range_loop entry c (?i + 1) idx_max = Some b"
      using less.hyps [of idx_max "?i + 1"] less.prems i by auto
    ultimately show ?thesis
      using True e \<open>c < low \<Longrightarrow> ?i \<noteq> 0\<close>
      by (auto simp: re_range_loop.simps [of entry c idx_min idx_max] Let_def)
  qed (auto simp: re_range_loop.simps)
qed

lemma range16_test_ok:
  assumes "0 < n" and "pc + 4 * n \<le> length bc"
  shows "\<exists>b. range16_test bc pc n c = Some b"
proof -
  have e: "\<exists>e. range16_entry bc pc i = Some e" if "i < n" for i
    using that assms get_u16_ok [of "pc + i * 4" bc] get_u16_ok [of "pc + i * 4 + 2" bc]
    by (auto simp: range16_entry_def)
  obtain low where low: "get_u16 bc pc = Some low"
    using assms get_u16_ok [of pc bc] by auto
  have "pc + (n - 1) * 4 + 2 + 2 \<le> length bc"
    using assms by (cases n) auto
  then obtain high where high: "get_u16 bc (pc + (n - 1) * 4 + 2) = Some high"
    using get_u16_ok by blast
  have "\<exists>b. re_range_loop (range16_entry bc pc) c 0 (n - 1) = Some b" if "low \<le> c"
    by (rule re_range_loop_ok [where n = n])
      (use e low that assms in \<open>auto simp: range16_entry_def bind_eq_Some_conv\<close>)
  then show ?thesis
    using low high assms by (auto simp: range16_test_def ptr_dec_def not_less)
qed

lemma range32_test_ok:
  assumes "0 < n" and "pc + 8 * n \<le> length bc"
  shows "\<exists>b. range32_test bc pc n c = Some b"
proof -
  have e: "\<exists>e. range32_entry bc pc i = Some e" if "i < n" for i
    using that assms get_u32_ok [of "pc + i * 8" bc] get_u32_ok [of "pc + i * 8 + 4" bc]
    by (auto simp: range32_entry_def)
  obtain low where low: "get_u32 bc pc = Some low"
    using assms get_u32_ok [of pc bc] by auto
  have "pc + (n - 1) * 8 + 4 + 4 \<le> length bc"
    using assms by (cases n) auto
  then obtain high where high: "get_u32 bc (pc + (n - 1) * 8 + 4) = Some high"
    using get_u32_ok by blast
  have "\<exists>b. re_range_loop (range32_entry bc pc) c 0 (n - 1) = Some b" if "low \<le> c"
    by (rule re_range_loop_ok [where n = n])
      (use e low that assms in \<open>auto simp: range32_entry_def bind_eq_Some_conv\<close>)
  then show ?thesis
    using low high assms by (auto simp: range32_test_def ptr_dec_def not_less)
qed

lemma re_range_step:
  assumes "pos_ok x al (re_cptr s)" and "get_u16 (rc_bc x) (re_pc s) = Some n"
    and "\<And>c. \<exists>b. test (rc_bc x) (re_pc s + 2) (unat n) c = Some b"
  shows "\<exists>ctl. re_range x test entry_size s = Some ctl \<and>
           char_step x (re_pc s + 2 + entry_size * unat n) s ctl"
proof (cases "cbuf_end x \<le> re_cptr s")
  case False
  then obtain c p where g: "re_get_char x (re_cptr s) (cbuf_end x) = Some (c, p)"
    using re_get_char_ok [of "re_cptr s" "cbuf_end x" x] by auto
  obtain c' where c': "re_canon x c = Some c'" using re_canon_ok by blast
  obtain b where "test (rc_bc x) (re_pc s + 2) (unat n) c' = Some b" using assms(3) by blast
  with False g c' show ?thesis
    by (simp add: re_range_def assms(2) char_step_def)
qed (simp add: re_range_def assms(2) char_step_def)

end
