(* ===== verification/RegexpSafe.thy ===== *)
theory RegexpSafe
  imports RegexpVerify
begin

text \<open>
  Verified bytecode is safe: every opcode keeps the invariants of \<open>RegexpVerify\<close>
  (\<open>re_step_ok\<close>), saving and restoring a state does too, a simple atom moves over exactly
  its number of characters, and so the interpreter never faults (\<open>re_exec_safe\<close>).
\<close>

section \<open>One opcode\<close>

definition step_ok :: "re_ctx \<Rightarrow> nat option list \<Rightarrow> bool \<Rightarrow> re_ctl \<Rightarrow> bool" where
  "step_ok x d al ctl =
     (case ctl of
        Go s \<Rightarrow> re_wt x d al s
      | Matched s \<Rightarrow> data_ok x al s
      | No_match \<Rightarrow> True
      | Push type pc s \<Rightarrow>
          re_wt x d al s \<and> depth_at d pc (re_stack_len s) \<and> type \<noteq> RE_EXEC_STATE_GREEDY_QUANT
      | Quant quant_min quant_max pc1 s \<Rightarrow>
          re_wt x d al s \<and> 16 \<le> pc1 \<and> quant_ok (rc_bc x) d (pc1 - 16) (re_stack_len s) \<and>
          get_u32 (rc_bc x) (pc1 - 16) \<bind> re_jump pc1 = Some (re_pc s))"

lemma char_step_ok:
  assumes "char_step x pc s ctl" and "data_ok x al s" and "depth_at d pc (re_stack_len s)"
  shows "step_ok x d al ctl"
  using assms pos_ok_get_char [of x "re_cptr s"]
  by (auto simp: char_step_def step_ok_def re_wt_def data_ok_def pos_ok_def)

lemma test_step_ok:
  assumes "test_step pc s ctl" and "data_ok x al s" and "depth_at d pc (re_stack_len s)"
  shows "step_ok x d al ctl"
  using assms by (auto simp: test_step_def step_ok_def re_wt_def data_ok_def)

lemma back_ref_loop_ok:
  assumes "cptr1_end \<le> cbuf_end x" and "pos_ok x al cptr"
  shows "\<exists>r. back_ref_loop x cptr1 cptr1_end cptr = Some r \<and>
           (\<forall>p. r = Some p \<longrightarrow> pos_ok x al p)"
  using assms
proof (induction x cptr1 cptr1_end cptr rule: back_ref_loop.induct)
  case (1 x cptr1 cptr1_end cptr)
  show ?case
  proof (cases "cptr1 < cptr1_end \<and> cptr < cbuf_end x")
    case True
    then obtain r1 r2 where r: "re_get_char x cptr1 cptr1_end = Some r1"
      "re_get_char x cptr (cbuf_end x) = Some r2"
      using re_get_char_ok [of cptr1 cptr1_end x] re_get_char_ok [of cptr "cbuf_end x" x] "1.prems"
      by auto
    obtain c1 c2 where c: "re_canon x (fst r1) = Some c1" "re_canon x (fst r2) = Some c2"
      using re_canon_ok by blast
    have "pos_ok x al (snd r2)"
      using r(2) True pos_ok_get_char [of x cptr "fst r2" "snd r2" al] by simp
    then show ?thesis
      using True r c "1.IH" [of r1 r2 c1 c2] "1.prems"
      by (auto simp: back_ref_loop.simps [of x cptr1])
  next
    case False
    then show ?thesis using "1.prems" by (auto simp: back_ref_loop.simps [of x cptr1])
  qed
qed

lemma backward_back_ref_loop_ok:
  assumes "cptr1 \<le> cbuf_end x" and "pos_ok x al cptr"
  shows "\<exists>r. backward_back_ref_loop x cptr1 cptr1_start cptr = Some r \<and>
           (\<forall>p. r = Some p \<longrightarrow> pos_ok x al p)"
  using assms
proof (induction x cptr1 cptr1_start cptr rule: backward_back_ref_loop.induct)
  case (1 x cptr1 cptr1_start cptr)
  show ?case
  proof (cases "cptr1_start < cptr1 \<and> 0 < cptr")
    case True
    have p: "cptr \<le> cbuf_end x" using "1.prems" by (simp add: pos_ok_def)
    obtain r1 where r1: "get_prev_char (rc_cbuf_type x) (rc_cbuf x) cptr1 cptr1_start = Some r1"
      "snd r1 < cptr1"
      using get_prev_char_ok [of cptr1_start cptr1 "rc_cbuf x"] True "1.prems" by fastforce
    obtain r2 where r2: "get_prev_char (rc_cbuf_type x) (rc_cbuf x) cptr 0 = Some r2"
      "snd r2 < cptr"
      using get_prev_char_ok [of 0 cptr "rc_cbuf x"] True p by fastforce
    obtain c1 c2 where c: "re_canon x (fst r1) = Some c1" "re_canon x (fst r2) = Some c2"
      using re_canon_ok by blast
    have "pos_ok x al (snd r2)"
      using r2 p get_prev_char_aligned [of "rc_cbuf_type x" "rc_cbuf x" cptr "fst r2" "snd r2"]
      by (simp add: pos_ok_def)
    then show ?thesis
      using True r1 r2 c "1.IH" [of r1 r2 c1 c2] "1.prems"
      by (auto simp: backward_back_ref_loop.simps [of x cptr1])
  next
    case False
    then show ?thesis using "1.prems" by (auto simp: backward_back_ref_loop.simps [of x cptr1])
  qed
qed

lemma re_back_reference_ok:
  assumes "data_ok x al s" and "depth_at d (re_pc s) (re_stack_len s)"
  shows "\<exists>ctl. re_back_reference x backward val s = Some ctl \<and> step_ok x d al ctl"
proof (cases "val < rc_capture_count x")
  case True
  let ?cap = "re_capture s"
  have cap: "length ?cap = 2 * rc_capture_count x" "\<And>i q. i < length ?cap \<Longrightarrow> ?cap ! i = Some q \<Longrightarrow> q \<le> cbuf_end x"
    using assms(1) by (auto simp: data_ok_def capture_ok_def list_all_length)
  show ?thesis
  proof (cases "\<exists>b e. ?cap ! (2 * val) = Some b \<and> ?cap ! (2 * val + 1) = Some e")
    case some: True
    then obtain b e where be: "?cap ! (2 * val) = Some b" "?cap ! (2 * val + 1) = Some e" by blast
    have e: "e \<le> cbuf_end x" using cap(1) cap(2) [of "2 * val + 1" e] True be by auto
    have p: "pos_ok x al (re_cptr s)" using assms(1) by (simp add: data_ok_def)
    obtain r where "(if backward then backward_back_ref_loop x e b (re_cptr s)
                    else back_ref_loop x b e (re_cptr s)) = Some r"
      and "\<forall>q. r = Some q \<longrightarrow> pos_ok x al q"
      using back_ref_loop_ok [OF e p, of b] backward_back_ref_loop_ok [OF e p, of b]
      by (cases backward) auto
    then show ?thesis
      using True assms be cap(1)
      by (cases r) (auto simp: re_back_reference_def rd_Some step_ok_def re_wt_def data_ok_def)
  next
    case False
    then show ?thesis
      using True assms cap(1)
      by (cases "?cap ! (2 * val)"; cases "?cap ! (2 * val + 1)")
        (auto simp: re_back_reference_def rd_Some step_ok_def re_wt_def)
  qed
qed (simp add: re_back_reference_def step_ok_def)

lemma capture_ok_update:
  assumes "capture_ok x cap" and "\<forall>q. c = Some q \<longrightarrow> q \<le> cbuf_end x"
  shows "capture_ok x (cap[i := c])"
  using assms
  by (cases "i < length cap") (auto simp: capture_ok_def list_all_length nth_list_update)

lemma save_reset_loop_ok:
  assumes "capture_ok x cap" and "val2 < rc_capture_count x"
  shows "\<exists>cap'. save_reset_loop val val2 cap = Some cap' \<and> capture_ok x cap'"
  using assms
proof (induction val val2 cap rule: save_reset_loop.induct)
  case (1 val val2 cap)
  show ?case
  proof (cases "val \<le> val2")
    case True
    let ?c1 = "cap[2 * val := None]"
    let ?c2 = "?c1[2 * val + 1 := None]"
    have "capture_ok x ?c2" using "1.prems" by (simp add: capture_ok_update)
    moreover have "wr cap (2 * val) None = Some ?c1" "wr ?c1 (2 * val + 1) None = Some ?c2"
      using "1.prems" True by (auto simp: wr_def capture_ok_def)
    ultimately show ?thesis
      using "1.IH" [of ?c1 ?c2] "1.prems" True by (simp add: save_reset_loop.simps [of val])
  next
    case False
    then show ?thesis using "1.prems" by (simp add: save_reset_loop.simps [of val])
  qed
qed

lemma jump_okE:
  assumes "jump_ok bc d pc k"
  obtains v t where "get_u32 bc pc = Some v" and "re_jump (pc + 4) v = Some t"
    and "depth_at d t k"
  using assms by (auto simp: jump_ok_def bind_eq_Some_conv split: option.splits)

lemma depth_at_bound: "depth_at d pc k \<Longrightarrow> pc < length d"
  by (simp add: depth_at_def)

lemma quant_okE:
  assumes "quant_ok bc d pc k"
  obtains v cc t where "get_u32 bc pc = Some v" and "get_u32 bc (pc + 12) = Some cc"
    and "re_jump (pc + 16) v = Some t" and "pc + 16 < t" and "depth_at d t k"
    and "rd bc (t - 1) = Some 10" and "re_atom_chars bc (pc + 16) (t - 1) = Some (unat cc)"
  using assms by (auto simp: quant_ok_def bind_eq_Some_conv split: option.splits prod.splits)

text \<open>The operations on the value stack and the captures.\<close>

lemma re_push_ok:
  assumes "data_ok x al s" and "re_stack_len s < rc_stack_size_max x"
    and "depth_at d (re_pc s) (re_stack_len s + 1)"
  shows "\<exists>s'. re_push v s = Some s' \<and> re_wt x d al s'"
  using assms by (auto simp: re_push_def wr_def data_ok_def re_wt_def)

lemma data_ok_moves:
  "data_ok x al s \<Longrightarrow> data_ok x al (s\<lparr>re_pc := pc\<rparr>)"
  "data_ok x al s \<Longrightarrow> n \<le> re_stack_len s \<Longrightarrow> data_ok x al (s\<lparr>re_stack_len := n\<rparr>)"
  "data_ok x al s \<Longrightarrow> data_ok x al (s\<lparr>re_stack := (re_stack s)[i := v]\<rparr>)"
  "data_ok x al s \<Longrightarrow> capture_ok x cap \<Longrightarrow> data_ok x al (s\<lparr>re_capture := cap\<rparr>)"
  "data_ok x al s \<Longrightarrow> pos_ok x al p \<Longrightarrow> data_ok x al (s\<lparr>re_cptr := p\<rparr>)"
  by (auto simp: data_ok_def)

lemma data_ok_save:
  assumes "data_ok x al s" and "i < 2 * rc_capture_count x"
  shows "\<exists>cap. wr (re_capture s) i (Some (re_cptr s)) = Some cap \<and> capture_ok x cap"
  using assms
  by (auto simp: wr_def data_ok_def pos_ok_def intro!: capture_ok_update)
    (auto simp: capture_ok_def)

lemma re_op_ok_step:
  assumes data: "data_ok x al s" and len: "length d = length (rc_bc x)"
    and ok: "re_op_ok (rc_capture_count x) (rc_stack_size_max x) (rc_bc x) d (re_pc s)
               (re_stack_len s) op"
  shows "\<exists>ctl. re_op x op s = Some ctl \<and> step_ok x d al ctl"
proof -
  let ?bc = "rc_bc x" and ?pc = "re_pc s" and ?k = "re_stack_len s"
  have pos: "pos_ok x al (re_cptr s)" using data by (simp add: data_ok_def)
  have moves: "data_ok x al (s\<lparr>re_pc := pc\<rparr>)" for pc using data by (rule data_ok_moves)
  have stack: "length (re_stack s) = rc_stack_size_max x" "?k \<le> rc_stack_size_max x"
    using data by (auto simp: data_ok_def)
  note char1 = char_step_ok [where al = al and d = d] and test1 = test_step_ok [where al = al and d = d]
  show ?thesis
  proof (cases op)
    case REOP_char
    then obtain v where v: "get_u16 ?bc ?pc = Some v"
      using ok len get_u16_ok [of ?pc ?bc] by (auto dest!: depth_at_bound)
    show ?thesis
      using REOP_char ok v re_test_char_step [of x al "s\<lparr>re_pc := ?pc + 2\<rparr>" v] pos
        char1 [OF _ moves [of "?pc + 2"]] by auto
  next
    case REOP_char32
    then obtain v where v: "get_u32 ?bc ?pc = Some v"
      using ok len get_u32_ok [of ?pc ?bc] by (auto dest!: depth_at_bound)
    show ?thesis
      using REOP_char32 ok v re_test_char_step [of x al "s\<lparr>re_pc := ?pc + 4\<rparr>" v] pos
        char1 [OF _ moves [of "?pc + 4"]] by auto
  next
    case REOP_dot
    then show ?thesis
      using ok re_any_step [OF pos, of "\<lambda>c. \<not> is_line_terminator c"] char1 [OF _ data] by auto
  next
    case REOP_any
    then show ?thesis
      using ok re_any_step [OF pos, of "\<lambda>c. True"] char1 [OF _ data] by auto
  next
    case REOP_line_start
    then show ?thesis using ok re_line_start_step [OF pos] test1 [OF _ data] by auto
  next
    case REOP_line_end
    then show ?thesis using ok re_line_end_step [OF pos] test1 [OF _ data] by auto
  next
    case REOP_word_boundary
    then show ?thesis using ok re_word_boundary_step [OF pos, of False] test1 [OF _ data] by auto
  next
    case REOP_not_word_boundary
    then show ?thesis using ok re_word_boundary_step [OF pos, of True] test1 [OF _ data] by auto
  next
    case REOP_goto
    then show ?thesis
      using ok moves by (auto simp: step_ok_def re_wt_def elim!: jump_okE)
  next
    case REOP_split_goto_first
    then show ?thesis
      using ok moves by (auto simp: step_ok_def re_wt_def elim!: jump_okE)
  next
    case REOP_split_next_first
    then show ?thesis
      using ok moves by (auto simp: step_ok_def re_wt_def elim!: jump_okE)
  next
    case REOP_lookahead
    then show ?thesis
      using ok moves by (auto simp: step_ok_def re_wt_def elim!: jump_okE)
  next
    case REOP_negative_lookahead
    then show ?thesis
      using ok moves by (auto simp: step_ok_def re_wt_def elim!: jump_okE)
  next
    case REOP_save_start
    then have "rd ?bc ?pc = Some (?bc ! ?pc)"
      using ok len by (auto simp: rd_def dest!: depth_at_bound)
    with REOP_save_start ok data_ok_save [OF data, of "2 * unat (?bc ! ?pc)"] data show ?thesis
      by (auto simp: step_ok_def re_wt_def data_ok_def)
  next
    case REOP_save_end
    then have "rd ?bc ?pc = Some (?bc ! ?pc)"
      using ok len by (auto simp: rd_def dest!: depth_at_bound)
    with REOP_save_end ok data_ok_save [OF data, of "2 * unat (?bc ! ?pc) + 1"] data show ?thesis
      by (auto simp: step_ok_def re_wt_def data_ok_def)
  next
    case REOP_save_reset
    then have "rd ?bc ?pc = Some (?bc ! ?pc)" "rd ?bc (?pc + 1) = Some (?bc ! (?pc + 1))"
      using ok len by (auto simp: rd_def dest!: depth_at_bound)
    moreover obtain cap where "save_reset_loop (unat (?bc ! ?pc)) (unat (?bc ! (?pc + 1)))
        (re_capture s) = Some cap" "capture_ok x cap"
      using save_reset_loop_ok [of x "re_capture s" "unat (?bc ! (?pc + 1))"] data ok REOP_save_reset
      by (auto simp: data_ok_def)
    ultimately show ?thesis
      using REOP_save_reset ok data by (auto simp: step_ok_def re_wt_def data_ok_def)
  next
    case REOP_loop
    then obtain v t where v: "get_u32 ?bc ?pc = Some v" "re_jump (?pc + 4) v = Some t" "depth_at d t ?k"
      using ok by (auto elim: jump_okE)
    have k: "0 < ?k" "depth_at d (?pc + 4) ?k" using ok REOP_loop by auto
    have "rd (re_stack s) (?k - 1) = Some (re_stack s ! (?k - 1))"
      and "\<And>u. wr (re_stack s) (?k - 1) u = Some ((re_stack s)[?k - 1 := u])"
      using k(1) stack by (auto simp: rd_def wr_def)
    with REOP_loop v k data show ?thesis
      by (auto simp: ptr_dec_def step_ok_def re_wt_def data_ok_def)
  next
    case REOP_push_i32
    then obtain v where "get_u32 ?bc ?pc = Some v"
      using ok len get_u32_ok [of ?pc ?bc] by (auto dest!: depth_at_bound)
    with REOP_push_i32 ok re_push_ok [OF moves [of "?pc + 4"], of d "ucast v"] show ?thesis
      by (auto simp: step_ok_def)
  next
    case REOP_drop
    then show ?thesis
      using ok data by (auto simp: ptr_dec_def step_ok_def re_wt_def data_ok_def)
  next
    case REOP_push_char_pos
    then show ?thesis
      using ok re_push_ok [OF data, of d "cptr_word x (re_cptr s)"] by (auto simp: step_ok_def)
  next
    case REOP_bne_char_pos
    then obtain v t where v: "get_u32 ?bc ?pc = Some v" "re_jump (?pc + 4) v = Some t"
      "depth_at d t (?k - 1)"
      using ok by (auto elim: jump_okE)
    have k: "0 < ?k" "depth_at d (?pc + 4) (?k - 1)" using ok REOP_bne_char_pos by auto
    have "rd (re_stack s) (?k - 1) = Some (re_stack s ! (?k - 1))"
      using k(1) stack by (auto simp: rd_def)
    with REOP_bne_char_pos v k data show ?thesis
      by (auto simp: ptr_dec_def step_ok_def re_wt_def data_ok_def)
  next
    case REOP_back_reference
    then have "rd ?bc ?pc = Some (?bc ! ?pc)"
      using ok len by (auto simp: rd_def dest!: depth_at_bound)
    with REOP_back_reference ok re_back_reference_ok [OF moves [of "?pc + 1"], of d] show ?thesis
      by auto
  next
    case REOP_backward_back_reference
    then have "rd ?bc ?pc = Some (?bc ! ?pc)"
      using ok len by (auto simp: rd_def dest!: depth_at_bound)
    with REOP_backward_back_reference ok re_back_reference_ok [OF moves [of "?pc + 1"], of d]
    show ?thesis by auto
  next
    case REOP_range
    then obtain n where n: "get_u16 ?bc ?pc = Some n" "n \<noteq> 0" "depth_at d (?pc + 2 + 4 * unat n) ?k"
      using ok by (auto simp: range_ok_def split: option.splits)
    have "0 < unat n" using n(2) by (simp add: unat_gt_0)
    then have t: "\<And>c. \<exists>b. range16_test ?bc (?pc + 2) (unat n) c = Some b"
      using range16_test_ok n(3) len by (auto dest!: depth_at_bound)
    show ?thesis
      using re_range_step [OF pos n(1), where test = range16_test and entry_size = 4, OF t]
        REOP_range n(3) char1 [OF _ data] by auto
  next
    case REOP_range32
    then obtain n where n: "get_u16 ?bc ?pc = Some n" "n \<noteq> 0" "depth_at d (?pc + 2 + 8 * unat n) ?k"
      using ok by (auto simp: range_ok_def split: option.splits)
    have "0 < unat n" using n(2) by (simp add: unat_gt_0)
    then have t: "\<And>c. \<exists>b. range32_test ?bc (?pc + 2) (unat n) c = Some b"
      using range32_test_ok n(3) len by (auto dest!: depth_at_bound)
    show ?thesis
      using re_range_step [OF pos n(1), where test = range32_test and entry_size = 8, OF t]
        REOP_range32 n(3) char1 [OF _ data] by auto
  next
    case REOP_prev
    then show ?thesis
      using ok data prev_char_ok [of "re_cptr s" "rc_cbuf x" "rc_cbuf_type x"]
        prev_char_aligned [of "rc_cbuf_type x" "rc_cbuf x" "re_cptr s"]
      by (auto simp: step_ok_def re_wt_def data_ok_def pos_ok_def)
  next
    case REOP_simple_greedy_quant
    then have q: "quant_ok ?bc d ?pc ?k" using ok by simp
    then obtain v cc t where t: "get_u32 ?bc ?pc = Some v" "re_jump (?pc + 16) v = Some t"
      "?pc + 16 < t" "depth_at d t ?k"
      by (rule quant_okE)
    obtain v1 v2 where "get_u32 ?bc (?pc + 4) = Some v1" "get_u32 ?bc (?pc + 8) = Some v2"
      using t len get_u32_ok [of "?pc + 4" ?bc] get_u32_ok [of "?pc + 8" ?bc]
      by (auto dest!: depth_at_bound)
    with REOP_simple_greedy_quant q t moves show ?thesis
      by (simp add: step_ok_def re_wt_def)
  next
    case REOP_match
    then show ?thesis using data by (simp add: step_ok_def)
  next
    case REOP_invalid
    then show ?thesis using ok by simp
  qed
qed

lemma re_step_ok:
  assumes "ctx_ok x d" and "re_wt x d al s"
  shows "\<exists>ctl. re_step x s = Some ctl \<and> step_ok x d al ctl"
proof -
  let ?bc = "rc_bc x"
  have s: "data_ok x al s" "re_pc s < length d" "d ! re_pc s = Some (re_stack_len s)"
    using assms(2) by (auto simp: re_wt_def depth_at_def)
  have len: "length d = length ?bc"
    using assms(1) by (simp add: ctx_ok_def re_code_ok_def)
  obtain op where op: "reop_of (?bc ! re_pc s) = Some op"
    "re_op_ok (rc_capture_count x) (rc_stack_size_max x) ?bc d (re_pc s + 1) (re_stack_len s) op"
    using assms(1) s len
    by (force simp: ctx_ok_def re_code_ok_def re_instr_ok_def list_all_iff split: option.splits)
  show ?thesis
    using re_op_ok_step [of x al "s\<lparr>re_pc := re_pc s + 1\<rparr>" d op] s len op
    by (simp add: re_step_def rd_Some data_ok_moves)
qed

section \<open>Saving and restoring\<close>

definition rs_ok :: "re_ctx \<Rightarrow> nat option list \<Rightarrow> bool \<Rightarrow> re_state \<Rightarrow> bool" where
  "rs_ok x d al rs \<longleftrightarrow>
     pos_ok x al (rs_cptr rs) \<and> capture_ok x (rs_capture rs) \<and>
     rs_stack_len rs \<le> rc_stack_size_max x \<and> length (rs_stack rs) = rs_stack_len rs \<and>
     (if rs_type rs = RE_EXEC_STATE_GREEDY_QUANT
      then 0 < rs_count rs \<and> quant_ok (rc_bc x) d (rs_pc rs) (rs_stack_len rs) \<and>
        (\<exists>cc q. get_u32 (rc_bc x) (rs_pc rs + 12) = Some cc \<and>
           prev_chars (rc_cbuf_type x) (rc_cbuf x) (rs_count rs * unat cc) (rs_cptr rs) = Some q)
      else depth_at d (rs_pc rs) (rs_stack_len rs))"

text \<open>The block of the state stack holds \<open>st_size\<close> states.\<close>

definition mem_ok :: "re_ctx \<Rightarrow> 'h re_stk \<Rightarrow> bool" where
  "mem_ok x k \<longleftrightarrow>
     length (st_states k) \<le> st_size k \<and> st_bytes k = st_size k * rc_state_size x \<and>
     st_bytes k \<le> obj_max"

definition stk_ok :: "re_ctx \<Rightarrow> nat option list \<Rightarrow> bool \<Rightarrow> 'h re_stk \<Rightarrow> bool" where
  "stk_ok x d al k \<longleftrightarrow> mem_ok x k \<and> list_all (rs_ok x d al) (st_states k)"

text \<open>The request for a larger block does not wrap around.\<close>

lemma state_stack_growth:
  assumes "ctx_ok x d" and "mem_ok x k"
  shows "szmul (max 8 (szmul (st_size k) 3 div 2)) (rc_state_size x) =
           max 8 (st_size k * 3 div 2) * rc_state_size x"
    and "szmul (st_size k) 3 div 2 = st_size k * 3 div 2"
proof -
  let ?n = "st_size k" and ?z = "rc_state_size x"
  have z: "32 \<le> ?z" "?z \<le> 6200"
    using assms(1) by (auto simp: ctx_ok_def sizeof_re_exec_state_def)
  have n: "?n * ?z \<le> 2 ^ 63 - 1"
    using assms(2) by (simp add: mem_ok_def obj_max_def)
  then have "?n * 32 \<le> 2 ^ 63 - 1"
    using z(1) by (meson le_trans mult_le_mono2)
  then show s: "szmul ?n 3 div 2 = ?n * 3 div 2" by (simp add: szmul_def)
  have "?n * 3 div 2 * ?z \<le> ?n * 3 * ?z div 2"
    by (simp add: div_mult_self_is_m div_le_mono less_eq_div_iff_mult_less_eq)
  also have "\<dots> < 2 ^ 64" using n by simp
  finally have "?n * 3 div 2 * ?z < 2 ^ 64" .
  then have "max 8 (?n * 3 div 2) * ?z < 2 ^ 64"
    using z(2) by (auto simp: max_def)
  then show "szmul (max 8 (szmul ?n 3 div 2)) ?z = max 8 (?n * 3 div 2) * ?z"
    by (simp only: s) (simp add: szmul_def)
qed

text \<open>The state \<^verbatim>\<open>push_state\<close> saves.\<close>

definition saved_state :: "re_cfg \<Rightarrow> nat \<Rightarrow> re_exec_state_type \<Rightarrow> nat \<Rightarrow> re_state" where
  "saved_state s pc type count =
     \<lparr>rs_type = type, rs_count = count, rs_stack_len = re_stack_len s, rs_cptr = re_cptr s,
      rs_pc = pc, rs_capture = re_capture s, rs_stack = take (re_stack_len s) (re_stack s)\<rparr>"

text \<open>\<open>h'\<close> is the allocator's state right after a request for memory that it refused.\<close>

definition refused :: "'h realloc_func \<Rightarrow> 'h \<Rightarrow> bool" where
  "refused R h' \<longleftrightarrow> (\<exists>h p n. n \<noteq> 0 \<and> R h p n = (0, h'))"

lemma refused_seen: "records R seen \<Longrightarrow> refused R h' \<Longrightarrow> seen h'"
  by (auto simp: refused_def dest: recordsD)

lemma push_state_cases:
  assumes "ctx_ok x d" and "data_ok x al s" and "mem_ok x k" and "allocator R"
  shows "\<exists>r k'. push_state x R s pc type count k = Some (r, k') \<and> mem_ok x k' \<and>
           (r = -1 \<and> refused R (st_heap k') \<or>
            r = 0 \<and> st_states k' = saved_state s pc type count # st_states k)"
proof -
  let ?z = "rc_state_size x"
  let ?b = "max 8 (st_size k * 3 div 2) * ?z"
  have cap: "rd_block (re_capture s) 0 (2 * rc_capture_count x) = Some (re_capture s)"
    using assms(2) by (simp add: rd_block_def data_ok_def capture_ok_def)
  have st: "rd_block (re_stack s) 0 (re_stack_len s) = Some (take (re_stack_len s) (re_stack s))"
    "re_stack_len s mod 256 = re_stack_len s"
    using assms(1,2) by (auto simp: rd_block_def data_ok_def ctx_ok_def)
  have k: "length (st_states k) \<le> st_size k" "st_bytes k = st_size k * ?z" "st_bytes k \<le> obj_max"
    using assms(3) by (auto simp: mem_ok_def)
  note growth = state_stack_growth [OF assms(1,3)]
  have new: "(if szmul (st_size k) 3 div 2 < 8 then 8 else szmul (st_size k) 3 div 2) =
      max 8 (st_size k * 3 div 2)"
    by (simp add: growth(2) max_def)
  have bytes: "szmul (max 8 (st_size k * 3 div 2)) ?z = ?b"
    using growth by simp
  obtain q h where q: "R (st_heap k) (st_ptr k) ?b = (q, h)" by fastforce
  have b0: "?b \<noteq> 0"
    using assms(1) by (simp add: ctx_ok_def sizeof_re_exec_state_def)
  show ?thesis
  proof (cases "st_size k < length (st_states k) + 1")
    case False
    then have "(length (st_states k) + 1) * ?z \<le> st_bytes k"
      unfolding k(2) by (intro mult_le_mono1) simp
    with False k cap st show ?thesis
      by (simp add: push_state_def Let_def mem_ok_def saved_state_def)
  next
    case True
    then have full: "length (st_states k) = st_size k" using k by simp
    show ?thesis
    proof (cases "q = 0")
      case q0: True
      then have "refused R h"
        using q b0 unfolding refused_def by blast
      with True q q0 show ?thesis
        using assms(3) by (simp add: push_state_def new bytes mem_ok_def Let_def)
    next
      case False
      then have b: "?b \<le> obj_max"
        using allocator.alloc_bound [OF assms(4) q] by simp
      have "(length (st_states k) + 1) * ?z \<le> ?b"
        unfolding full by (rule mult_le_mono1) auto
      then show ?thesis
        using True False q b cap st full
        by (simp add: push_state_def new bytes mem_ok_def saved_state_def Let_def)
    qed
  qed
qed

text \<open>\<open>back_at rs s\<close>: the configuration \<open>s\<close> is the one saved in \<open>rs\<close>, but for the captures.\<close>

definition back_at :: "re_state \<Rightarrow> re_cfg \<Rightarrow> bool" where
  "back_at rs s \<longleftrightarrow>
     re_pc s = rs_pc rs \<and> re_cptr s = rs_cptr rs \<and> re_stack_len s = rs_stack_len rs \<and>
     take (re_stack_len s) (re_stack s) = rs_stack rs"

lemma pop_state1_cases:
  assumes "rs_ok x d al rs" and "data_ok x al s"
  shows "\<exists>s'. pop_state1 rs s = Some s' \<and> data_ok x al s' \<and> back_at rs s' \<and>
           re_capture s' = re_capture s"
  using assms
  by (simp add: rs_ok_def data_ok_def pop_state1_def rd_block_def wr_block_def back_at_def)

lemma restore_capture_cases:
  assumes "rs_ok x d al rs" and "data_ok x al s"
  shows "restore_capture rs s = Some (s\<lparr>re_capture := rs_capture rs\<rparr>)"
    and "data_ok x al (s\<lparr>re_capture := rs_capture rs\<rparr>)"
  using assms
  by (simp_all add: rs_ok_def data_ok_def restore_capture_def wr_block_def capture_ok_def)

lemma pop_state_cases:
  assumes "rs_ok x d al rs" and "data_ok x al s"
  shows "\<exists>s'. pop_state rs s = Some s' \<and> data_ok x al s' \<and> back_at rs s' \<and>
           re_capture s' = rs_capture rs"
  using pop_state1_cases [OF assms(1) restore_capture_cases(2) [OF assms]]
  by (simp add: pop_state_def restore_capture_cases(1) [OF assms])

lemma prev_chars_pos_ok:
  "prev_chars (rc_cbuf_type x) (rc_cbuf x) n p = Some q \<Longrightarrow> pos_ok x al p \<Longrightarrow> pos_ok x al q"
proof (induction n arbitrary: p)
  case (Suc n)
  then obtain p' where p': "prev_char (rc_cbuf_type x) (rc_cbuf x) p 0 = Some p'"
    "prev_chars (rc_cbuf_type x) (rc_cbuf x) n p' = Some q"
    by (auto simp: bind_eq_Some_conv)
  have "pos_ok x al p'"
    using Suc.prems(2) prev_char_retreats [OF p'(1)] prev_char_aligned [OF p'(1)]
    by (auto simp: pos_ok_def)
  with Suc.IH p'(2) show ?case by blast
qed simp

text \<open>Giving one match of the atom back; \<open>t\<close> is the code after the quantifier.\<close>

lemma quant_back_cases:
  assumes ok: "rs_ok x d al rs" and s: "data_ok x al s"
    and type: "rs_type rs = RE_EXEC_STATE_GREEDY_QUANT"
  shows "\<exists>cc v t p s'. get_u32 (rc_bc x) (rs_pc rs + 12) = Some cc \<and>
     get_u32 (rc_bc x) (rs_pc rs) = Some v \<and> re_jump (rs_pc rs + 16) v = Some t \<and>
     prev_chars (rc_cbuf_type x) (rc_cbuf x) (unat cc) (rs_cptr rs) = Some p \<and>
     depth_at d t (rs_stack_len rs) \<and> data_ok x al s' \<and>
     re_capture s' = rs_capture rs \<and> back_at (rs\<lparr>rs_pc := t, rs_cptr := p\<rparr>) s' \<and>
     rs_ok x d al (rs\<lparr>rs_cptr := p, rs_count := rs_count rs - 1\<rparr>) = (rs_count rs \<noteq> 1) \<and>
     quant_back x rs K s = Some (s', if rs_count rs = 1 then K
       else rs\<lparr>rs_cptr := p, rs_count := rs_count rs - 1\<rparr> # K)"
proof -
  have q: "quant_ok (rc_bc x) d (rs_pc rs) (rs_stack_len rs)" and n: "0 < rs_count rs"
    using ok type by (auto simp: rs_ok_def)
  from q obtain v cc t where v: "get_u32 (rc_bc x) (rs_pc rs) = Some v"
    "get_u32 (rc_bc x) (rs_pc rs + 12) = Some cc" "re_jump (rs_pc rs + 16) v = Some t"
    "depth_at d t (rs_stack_len rs)"
    by (rule quant_okE)
  obtain m where m: "rs_count rs = Suc m" using n by (cases "rs_count rs") auto
  let ?prev = "prev_chars (rc_cbuf_type x) (rc_cbuf x)"
  obtain q where "?prev (unat cc + m * unat cc) (rs_cptr rs) = Some q"
    using ok type v(2) m by (auto simp: rs_ok_def)
  then obtain p where p: "?prev (unat cc) (rs_cptr rs) = Some p" "?prev (m * unat cc) p = Some q"
    by (auto simp: prev_chars_add bind_eq_Some_conv)
  have pos: "pos_ok x al p"
    using prev_chars_pos_ok [OF p(1)] ok by (simp add: rs_ok_def)
  obtain s' where s': "pop_state1 rs (s\<lparr>re_capture := rs_capture rs\<rparr>) = Some s'" "data_ok x al s'"
    "back_at rs s'" "re_capture s' = rs_capture rs"
    using pop_state1_cases [OF ok restore_capture_cases(2) [OF ok s]] by auto
  have "data_ok x al (s'\<lparr>re_pc := t, re_cptr := p\<rparr>)"
    using s'(2) pos by (simp add: data_ok_def)
  moreover have "back_at (rs\<lparr>rs_pc := t, rs_cptr := p\<rparr>) (s'\<lparr>re_pc := t, re_cptr := p\<rparr>)"
    using s'(3) by (auto simp: back_at_def)
  moreover have "rs_ok x d al (rs\<lparr>rs_cptr := p, rs_count := m\<rparr>) = (m \<noteq> 0)"
    using ok type v(2) p(2) pos q by (auto simp: rs_ok_def)
  ultimately show ?thesis
    using v p(1) s'(1,4) m
    by (simp add: quant_back_def restore_capture_cases(1) [OF ok s] Let_def)
qed

lemma back_at_wt:
  assumes "back_at rs s" and "data_ok x al s" and "depth_at d (rs_pc rs) (rs_stack_len rs)"
  shows "re_wt x d al s"
  using assms by (simp add: re_wt_def back_at_def)

definition resume_ok :: "re_ctx \<Rightarrow> nat option list \<Rightarrow> bool \<Rightarrow> nat \<Rightarrow> bool \<times> re_cfg + re_cfg \<times> re_state list \<Rightarrow> bool" where
  "resume_ok x d al n r =
     (case r of
        Inl (ret, s) \<Rightarrow> data_ok x al s
      | Inr (s, K) \<Rightarrow> re_wt x d al s \<and> list_all (rs_ok x d al) K \<and> length K \<le> n)"

lemma re_recurse_ok:
  assumes "list_all (rs_ok x d al) K" and "data_ok x al s"
  shows "\<exists>r. re_recurse x ret s K = Some r \<and> resume_ok x d al (length K) r"
  using assms
proof (induction x ret s K rule: re_recurse.induct)
  case (1 x ret s)
  then show ?case by (simp add: resume_ok_def)
next
  case (2 x ret s rs K)
  have rs: "rs_ok x d al rs" and K: "list_all (rs_ok x d al) K"
    using "2.prems" by auto
  have grow: "resume_ok x d al (length K) r \<Longrightarrow> resume_ok x d al (length (rs # K)) r" for r
    by (auto simp: resume_ok_def split: sum.splits)
  have depth: "rs_type rs \<noteq> RE_EXEC_STATE_GREEDY_QUANT \<Longrightarrow> depth_at d (rs_pc rs) (rs_stack_len rs)"
    using rs by (simp add: rs_ok_def)
  have pop: "\<exists>r. do { s \<leftarrow> pop_state rs s; Some (Inr (s, K)) } = Some r \<and>
      resume_ok x d al (length (rs # K)) r" if "rs_type rs \<noteq> RE_EXEC_STATE_GREEDY_QUANT"
    using pop_state_cases [OF rs "2.prems"(2)] back_at_wt depth [OF that] K
    by (auto simp: resume_ok_def)
  show ?case
  proof (cases "rs_type rs")
    case RE_EXEC_STATE_SPLIT
    then show ?thesis
      using pop "2.IH"(1) [OF RE_EXEC_STATE_SPLIT _ K "2.prems"(2)] grow by (cases ret) auto
  next
    case RE_EXEC_STATE_LOOKAHEAD
    then show ?thesis
      using pop_state1_cases [OF rs "2.prems"(2)] back_at_wt depth K
        "2.IH"(2) [OF RE_EXEC_STATE_LOOKAHEAD _ K "2.prems"(2)] grow
      by (cases ret) (auto simp: resume_ok_def)
  next
    case RE_EXEC_STATE_NEGATIVE_LOOKAHEAD
    then show ?thesis
      using pop "2.IH"(3) [OF RE_EXEC_STATE_NEGATIVE_LOOKAHEAD _ K "2.prems"(2)] grow
      by (cases ret) auto
  next
    case RE_EXEC_STATE_GREEDY_QUANT
    show ?thesis
    proof (cases ret)
      case True
      then show ?thesis
        using "2.IH"(4) [OF RE_EXEC_STATE_GREEDY_QUANT _ K "2.prems"(2)] grow
          RE_EXEC_STATE_GREEDY_QUANT by auto
    next
      case False
      obtain t p s' where q: "depth_at d t (rs_stack_len rs)" "data_ok x al s'"
        "back_at (rs\<lparr>rs_pc := t, rs_cptr := p\<rparr>) s'"
        "rs_ok x d al (rs\<lparr>rs_cptr := p, rs_count := rs_count rs - 1\<rparr>) = (rs_count rs \<noteq> 1)"
        "quant_back x rs K s = Some (s', if rs_count rs = 1 then K
           else rs\<lparr>rs_cptr := p, rs_count := rs_count rs - 1\<rparr> # K)"
        using quant_back_cases [OF rs "2.prems"(2) RE_EXEC_STATE_GREEDY_QUANT] by blast
      have "re_wt x d al s'" using back_at_wt [OF q(3,2), of d] q(1) by simp
      then show ?thesis
        using False RE_EXEC_STATE_GREEDY_QUANT q(4,5) K by (auto simp: resume_ok_def)
    qed
  qed
qed

section \<open>Simple atoms\<close>

text \<open>\<open>n\<close> characters forward.\<close>

primrec get_chars :: "re_ctx \<Rightarrow> nat \<Rightarrow> nat \<Rightarrow> nat option" where
  "get_chars x 0 p = Some p"
| "get_chars x (Suc n) p = do { r \<leftarrow> re_get_char x p (cbuf_end x); get_chars x n (snd r) }"

lemma get_chars_add: "get_chars x (m + n) p = do { q \<leftarrow> get_chars x m p; get_chars x n q }"
  by (induction m arbitrary: p) (auto split: bind_splits)

lemma get_chars_mono: "get_chars x n p = Some q \<Longrightarrow> p \<le> q \<and> (0 < n \<longrightarrow> p < q)"
  by (induction n arbitrary: p)
    (fastforce simp: bind_eq_Some_conv re_get_char_def dest: get_char_advances)+

lemma get_chars_aligned:
  assumes "get_chars x n p = Some q" and "p \<le> cbuf_end x"
  shows "q \<le> cbuf_end x \<and>
    (mid_pair (rc_cbuf_type x) (rc_cbuf x) q \<longrightarrow> n = 0 \<and> mid_pair (rc_cbuf_type x) (rc_cbuf x) p)"
  using assms
proof (induction n arbitrary: p)
  case (Suc n)
  then obtain c p' where p': "re_get_char x p (cbuf_end x) = Some (c, p')" "get_chars x n p' = Some q"
    by (auto simp: bind_eq_Some_conv)
  have "pos_ok x True p'" using pos_ok_get_char [OF p'(1)] Suc.prems by simp
  with Suc.IH [OF p'(2)] show ?case by (auto simp: pos_ok_def)
qed simp

lemma get_chars_pos_ok:
  "get_chars x n p = Some q \<Longrightarrow> pos_ok x al p \<Longrightarrow> pos_ok x al q"
  using get_chars_aligned by (auto simp: pos_ok_def)

text \<open>Stepping back as often as forward is defined, and returns to the start unless the start
  was in the middle of a surrogate pair.\<close>

lemma prev_get_chars:
  assumes "get_chars x n p = Some q" and "p \<le> cbuf_end x"
  shows "\<exists>r. prev_chars (rc_cbuf_type x) (rc_cbuf x) n q = Some r \<and>
           (\<not> mid_pair (rc_cbuf_type x) (rc_cbuf x) p \<longrightarrow> r = p)"
  using assms
proof (induction n arbitrary: q)
  case (Suc n)
  have "get_chars x (n + 1) p = Some q" using Suc.prems by simp
  then obtain q' c where q': "get_chars x n p = Some q'"
    "get_char (rc_cbuf_type x) (rc_cbuf x) q' (cbuf_end x) = Some (c, q)"
    unfolding get_chars_add by (auto simp: bind_eq_Some_conv re_get_char_def)
  have mid: "mid_pair (rc_cbuf_type x) (rc_cbuf x) q' \<Longrightarrow> n = 0"
    using get_chars_aligned [OF q'(1)] Suc.prems by simp
  then show ?case
    using prev_get_char [OF q'(2)] Suc.IH [OF q'(1)] Suc.prems q'(1) by (cases n) auto
qed simp

text \<open>Straight-line code: only tests and characters, up to a match or a failure.\<close>

inductive straight_eval :: "re_ctx \<Rightarrow> re_cfg \<Rightarrow> re_cfg option \<Rightarrow> bool" for x where
  straight_go: "re_step x s = Some (Go s') \<Longrightarrow> straight_eval x s' r \<Longrightarrow> straight_eval x s r"
| straight_match: "re_step x s = Some (Matched s') \<Longrightarrow> straight_eval x s (Some s')"
| straight_no_match: "re_step x s = Some No_match \<Longrightarrow> straight_eval x s None"

text \<open>An instruction of a simple atom.\<close>

lemma simple_step:
  assumes data: "data_ok x al s" and op: "rd (rc_bc x) (re_pc s) \<bind> reop_of = Some op"
    and l: "re_simple_len (rc_bc x) (re_pc s + 1) op = Some (l, n)"
    and len: "re_pc s + l \<le> length (rc_bc x)"
  shows "\<exists>ctl. re_step x s = Some ctl \<and>
     (n = 1 \<and> char_step x (re_pc s + l) s ctl \<or> n = 0 \<and> test_step (re_pc s + l) s ctl)"
proof -
  let ?s = "s\<lparr>re_pc := re_pc s + 1\<rparr>"
  have step: "re_step x s = re_op x op ?s"
    using op by (auto simp: re_step_def bind_eq_Some_conv)
  have pos: "pos_ok x al (re_cptr s)" "pos_ok x al (re_cptr ?s)" using data by (simp_all add: data_ok_def)
  have drop: "char_step x pc (s\<lparr>re_pc := pc'\<rparr>) ctl = char_step x pc s ctl"
    "test_step pc (s\<lparr>re_pc := pc'\<rparr>) ctl = test_step pc s ctl" for pc pc' ctl
    by (auto simp: char_step_def test_step_def)
  show ?thesis
  proof (cases op)
    case REOP_char
    then obtain v where "get_u16 (rc_bc x) (re_pc s + 1) = Some v"
      using l len get_u16_ok [of "re_pc s + 1" "rc_bc x"] by (auto simp: re_simple_len_def)
    with REOP_char l step show ?thesis
      using re_test_char_step [of x al "?s\<lparr>re_pc := re_pc s + 3\<rparr>" v] pos drop(1)
      by (auto simp: re_simple_len_def numeral_eq_Suc)
  next
    case REOP_char32
    then obtain v where "get_u32 (rc_bc x) (re_pc s + 1) = Some v"
      using l len get_u32_ok [of "re_pc s + 1" "rc_bc x"] by (auto simp: re_simple_len_def)
    with REOP_char32 l step show ?thesis
      using re_test_char_step [of x al "?s\<lparr>re_pc := re_pc s + 5\<rparr>" v] pos drop(1)
      by (auto simp: re_simple_len_def numeral_eq_Suc)
  next
    case REOP_dot
    then show ?thesis
      using l step re_any_step [OF pos(2), of "\<lambda>c. \<not> is_line_terminator c"] drop(1)
      by (auto simp: re_simple_len_def)
  next
    case REOP_any
    then show ?thesis
      using l step re_any_step [OF pos(2), of "\<lambda>c. True"] drop(1) by (auto simp: re_simple_len_def)
  next
    case REOP_line_start
    then show ?thesis
      using l step re_line_start_step [OF pos(2)] drop(2) by (auto simp: re_simple_len_def)
  next
    case REOP_line_end
    then show ?thesis
      using l step re_line_end_step [OF pos(2)] drop(2) by (auto simp: re_simple_len_def)
  next
    case REOP_word_boundary
    then show ?thesis
      using l step re_word_boundary_step [OF pos(2), of False] drop(2)
      by (auto simp: re_simple_len_def)
  next
    case REOP_not_word_boundary
    then show ?thesis
      using l step re_word_boundary_step [OF pos(2), of True] drop(2)
      by (auto simp: re_simple_len_def)
  next
    case REOP_range
    then obtain v where v: "get_u16 (rc_bc x) (re_pc ?s) = Some v" "v \<noteq> 0" "l = 3 + 4 * unat v" "n = 1"
      using l by (auto simp: re_simple_len_def bind_eq_Some_conv split: if_splits)
    have "0 < unat v" using v(2) by (simp add: unat_gt_0)
    then have t: "\<And>c. \<exists>b. range16_test (rc_bc x) (re_pc ?s + 2) (unat v) c = Some b"
      using range16_test_ok len v(3) by auto
    show ?thesis
      using re_range_step [OF pos(2) v(1), where test = range16_test and entry_size = 4, OF t]
        step REOP_range v drop(1) by (auto simp: numeral_eq_Suc)
  next
    case REOP_range32
    then obtain v where v: "get_u16 (rc_bc x) (re_pc ?s) = Some v" "v \<noteq> 0" "l = 3 + 8 * unat v" "n = 1"
      using l by (auto simp: re_simple_len_def bind_eq_Some_conv split: if_splits)
    have "0 < unat v" using v(2) by (simp add: unat_gt_0)
    then have t: "\<And>c. \<exists>b. range32_test (rc_bc x) (re_pc ?s + 2) (unat v) c = Some b"
      using range32_test_ok len v(3) by auto
    show ?thesis
      using re_range_step [OF pos(2) v(1), where test = range32_test and entry_size = 8, OF t]
        step REOP_range32 v drop(1) by (auto simp: numeral_eq_Suc)
  qed (use l in \<open>auto simp: re_simple_len_def\<close>)
qed

text \<open>The atom of a simple quantifier ends, changes nothing but the text pointer, and moves it over
  \<open>n\<close> characters when it matches.\<close>

definition atom_result :: "re_ctx \<Rightarrow> nat \<Rightarrow> re_cfg \<Rightarrow> re_ret \<Rightarrow> re_cfg \<Rightarrow> bool" where
  "atom_result x n s res s' \<longleftrightarrow>
     re_capture s' = re_capture s \<and> re_stack s' = re_stack s \<and>
     (res = Re_no_match \<and> straight_eval x s None \<or>
      res = Re_match \<and> straight_eval x s (Some s') \<and>
      get_chars x n (re_cptr s) = Some (re_cptr s'))"

lemma re_exec_ctl:
  assumes "re_step x s = Some ctl"
  shows "\<And>s'. ctl = Go s' \<Longrightarrow> re_exec x R (Suc f) nr s k = re_exec x R f nr s' k"
    and "\<And>s'. ctl = Matched s' \<Longrightarrow> re_exec x R (Suc f) True s k = Done (Re_match, s', k)"
    and "ctl = No_match \<Longrightarrow> re_exec x R (Suc f) True s k = Done (Re_no_match, s, k)"
  using assms by (simp_all add: re_exec.simps re_end_def)

definition ends_at :: "re_ctx \<Rightarrow> 'h realloc_func \<Rightarrow> re_cfg \<Rightarrow> 'h re_stk \<Rightarrow> nat \<Rightarrow> re_ret \<Rightarrow> re_cfg \<Rightarrow> bool" where
  "ends_at x R s k N res s' \<longleftrightarrow>
     (\<forall>f. re_exec x R f True s k = (if f < N then Timeout else Done (res, s', k)))"

lemma ends_at_go:
  assumes "re_step x s = Some (Go s')" and "ends_at x R s' k N res t"
  shows "ends_at x R s k (Suc N) res t"
  unfolding ends_at_def
proof
  fix f
  show "re_exec x R f True s k = (if f < Suc N then Timeout else Done (res, t, k))"
    using assms re_exec_ctl(1) [OF assms(1) refl, of R _ True k]
    by (cases f) (auto simp: ends_at_def re_exec.simps(1))
qed

lemma ends_at_stop:
  assumes "re_step x s = Some ctl"
  shows "ctl = No_match \<Longrightarrow> ends_at x R s k 1 Re_no_match s"
    and "ctl = Matched s' \<Longrightarrow> ends_at x R s k 1 Re_match s'"
proof -
  have "ends_at x R s k 1 res t" if "\<And>f. re_exec x R (Suc f) True s k = Done (res, t, k)" for res t
    using that by (auto simp: ends_at_def re_exec.simps(1) gr0_conv_Suc)
  note stop = this
  show "ends_at x R s k 1 Re_no_match s" if "ctl = No_match"
    by (rule stop) (rule re_exec_ctl(3) [OF assms that])
  show "ends_at x R s k 1 Re_match s'" if "ctl = Matched s'"
    by (rule stop) (rule re_exec_ctl(2) [OF assms that])
qed

lemma atom_run:
  assumes "re_atom_chars (rc_bc x) pc e = Some n" and "rd (rc_bc x) e = Some 10"
    and "data_ok x al s" and "re_pc s = pc"
  shows "\<exists>N res s'. ends_at x R s k N res s' \<and> atom_result x n s res s'"
  using assms
proof (induction "rc_bc x" pc e arbitrary: s n rule: re_atom_chars.induct)
  case (1 pc e)
  show ?case
  proof (cases "pc < e")
    case False
    then have "pc = e" "n = 0"
      using "1.prems"(1) by (auto simp: re_atom_chars.simps [of _ pc] split: if_splits)
    then have "re_step x s = Some (Matched (s\<lparr>re_pc := pc + 1\<rparr>))"
      using "1.prems" by (simp add: re_step_def reop_of_def reops_def rd_def)
    then show ?thesis
      using ends_at_stop(2) [OF _ refl] straight_match \<open>n = 0\<close>
      by (fastforce simp: atom_result_def)
  next
    case True
    then obtain b op l m n' where op: "rd (rc_bc x) pc = Some b" "reop_of b = Some op"
      "re_simple_len (rc_bc x) (pc + 1) op = Some (l, m)"
      "re_atom_chars (rc_bc x) (pc + l) e = Some n'" and n: "n = m + n'"
      using "1.prems"(1)
      by (auto simp: re_atom_chars.simps [of _ pc] bind_eq_Some_conv split: if_splits)
    have "pc + l \<le> e"
      using op(4) by (auto simp: re_atom_chars.simps [of _ "pc + l"] split: if_splits)
    moreover have "e < length (rc_bc x)" using "1.prems"(2) by (auto simp: rd_def split: if_splits)
    ultimately obtain ctl where ctl: "re_step x s = Some ctl"
      "m = 1 \<and> char_step x (pc + l) s ctl \<or> m = 0 \<and> test_step (pc + l) s ctl"
      using simple_step [OF "1.prems"(3), of op l m] op "1.prems"(4) by auto
    show ?thesis
    proof (cases "ctl = No_match")
      case True
      then show ?thesis
        using ends_at_stop(1) [OF ctl(1)] straight_no_match ctl(1)
        by (fastforce simp: atom_result_def)
    next
      case False
      then obtain p where p: "ctl = Go (s\<lparr>re_pc := pc + l, re_cptr := p\<rparr>)"
        "get_chars x m (re_cptr s) = Some p"
        using ctl(2) by (auto simp: char_step_def test_step_def)
      let ?s = "s\<lparr>re_pc := pc + l, re_cptr := p\<rparr>"
      have "data_ok x al ?s"
        using get_chars_pos_ok [OF p(2)] "1.prems"(3) by (simp add: data_ok_def)
      then obtain N res s' where ih: "ends_at x R ?s k N res s'" "atom_result x n' ?s res s'"
        using "1.hyps" [OF True op(1,2,3), of n' ?s] op(4) "1.prems"(2) by auto
      have "atom_result x n s res s'"
        using ih(2) p ctl(1) straight_go [of x s ?s]
        by (auto simp: atom_result_def n get_chars_add)
      then show ?thesis using ends_at_go [OF _ ih(1)] ctl(1) p(1) by blast
    qed
  qed
qed

section \<open>The interpreter\<close>

text \<open>The loop of \<^verbatim>\<open>REOP_simple_greedy_quant\<close> ends with the text pointer a whole number of
  atoms further; \<open>ps\<close> are the positions on the way.\<close>

lemma re_quant_cases:
  assumes "re_atom_chars (rc_bc x) pc1 e = Some n" and "rd (rc_bc x) e = Some 10"
    and "data_ok x al s" and "re_quant x R f pc1 quant_max q s k = out"
  shows "out = Timeout \<or>
    (\<exists>i p. out = Done (Some (q + i), s\<lparr>re_cptr := p\<rparr>, k) \<and>
       get_chars x (i * n) (re_cptr s) = Some p)"
  using assms(3,4)
proof (induction f arbitrary: q s)
  case 0
  then show ?case by (simp add: re_quant.simps)
next
  case (Suc f)
  let ?s = "s\<lparr>re_pc := pc1\<rparr>"
  obtain N res s' where atom: "ends_at x R ?s k N res s'" "atom_result x n ?s res s'"
    using atom_run [OF assms(1,2) data_ok_moves(1) [OF Suc.prems(1)], of pc1 R k] by auto
  show ?case
  proof (cases "f < N")
    case True
    then show ?thesis using Suc.prems(2) atom(1) by (simp add: re_quant.simps ends_at_def)
  next
    case False
    then have run: "re_exec x R f True ?s k = Done (res, s', k)"
      using atom(1) by (simp add: ends_at_def)
    have same: "s\<lparr>re_capture := re_capture s', re_stack := re_stack s'\<rparr> = s"
      "s\<lparr>re_capture := re_capture s', re_stack := re_stack s', re_cptr := c\<rparr> = s\<lparr>re_cptr := c\<rparr>" for c
      using atom(2) by (simp_all add: atom_result_def)
    show ?thesis
    proof (cases "res = Re_match")
      case False
      then have "res = Re_no_match" using atom(2) by (simp add: atom_result_def)
      then have "out = Done (Some q, s, k)"
        using Suc.prems(2) run same by (simp add: re_quant.simps)
      then show ?thesis by (intro disjI2 exI [of _ 0] exI [of _ "re_cptr s"]) simp
    next
      case True
      let ?t = "s\<lparr>re_cptr := re_cptr s'\<rparr>"
      have p: "get_chars x n (re_cptr s) = Some (re_cptr s')"
        using atom(2) True by (simp add: atom_result_def)
      then have t: "data_ok x al ?t"
        using get_chars_pos_ok Suc.prems(1) by (auto simp: data_ok_def)
      have out: "out = (if quant_max \<le> q + 1 \<and> quant_max \<noteq> 2 ^ 31 - 1
          then Done (Some (q + 1), ?t, k) else re_quant x R f pc1 quant_max (q + 1) ?t k)"
        using Suc.prems(2) run same True by (simp add: re_quant.simps Let_def cong: if_cong)
      show ?thesis
      proof (cases "quant_max \<le> q + 1 \<and> quant_max \<noteq> 2 ^ 31 - 1")
        case True
        with out p show ?thesis by (intro disjI2 exI [of _ 1] exI [of _ "re_cptr s'"]) simp
      next
        case False
        have "re_quant x R f pc1 quant_max (q + 1) ?t k = out"
          using out unfolding if_not_P [OF False] by (rule sym)
        from Suc.IH [OF t this] show ?thesis
        proof
          assume "\<exists>i p. out = Done (Some (q + 1 + i), ?t\<lparr>re_cptr := p\<rparr>, k) \<and>
            get_chars x (i * n) (re_cptr ?t) = Some p"
          then obtain i r where r: "out = Done (Some (q + Suc i), s\<lparr>re_cptr := r\<rparr>, k)"
            "get_chars x (i * n) (re_cptr s') = Some r" by auto
          have "get_chars x (Suc i * n) (re_cptr s) = Some r"
            using p r(2) by (simp add: get_chars_add)
          with r(1) show ?thesis by blast
        qed simp
      qed
    qed
  qed
qed

text \<open>What holds after the bookkeeping of an opcode.\<close>

fun next_ok :: "re_ctx \<Rightarrow> nat option list \<Rightarrow> bool \<Rightarrow> 'h realloc_func \<Rightarrow> 'h re_next \<Rightarrow> bool" where
  "next_ok x d al R (Cont s k) = (re_wt x d al s \<and> stk_ok x d al k)"
| "next_ok x d al R (Stop r s k) = (data_ok x al s \<and> (r = Re_error \<longrightarrow> refused R (st_heap k)))"
| "next_ok x d al R Crash = False"

lemma saved_state_ok:
  assumes "re_wt x d al s" and "depth_at d pc (re_stack_len s)"
    and "type \<noteq> RE_EXEC_STATE_GREEDY_QUANT"
  shows "rs_ok x d al (saved_state s pc type n)"
  using assms by (simp add: rs_ok_def saved_state_def re_wt_def data_ok_def)

text \<open>After \<open>q\<close> matches of an atom of \<open>cc\<close> characters.\<close>

lemma saved_quant_ok:
  assumes "re_wt x d al s" and "quant_ok (rc_bc x) d pc (re_stack_len s)"
    and "get_u32 (rc_bc x) (pc + 12) = Some cc" and "get_chars x (q * unat cc) p = Some (re_cptr s)"
    and "p \<le> cbuf_end x" and "m < q"
  shows "rs_ok x d al (saved_state s pc RE_EXEC_STATE_GREEDY_QUANT (q - m))"
proof -
  have "q * unat cc = (q - m) * unat cc + m * unat cc"
    using assms(6) by (simp flip: distrib_right)
  then obtain r where
    "prev_chars (rc_cbuf_type x) (rc_cbuf x) ((q - m) * unat cc) (re_cptr s) = Some r"
    using prev_get_chars [OF assms(4,5)] by (auto simp: prev_chars_add bind_eq_Some_conv)
  then show ?thesis
    using assms by (auto simp: rs_ok_def saved_state_def re_wt_def data_ok_def)
qed

lemma re_push_state_ok:
  assumes "ctx_ok x d" and "allocator R" and "re_wt x d al s" and "stk_ok x d al k"
    and "rs_ok x d al (saved_state s pc type n)"
  shows "next_ok x d al R (re_push_state x R pc type n s k)"
  using push_state_cases [OF assms(1) _ _ assms(2), of al s k pc type n] assms(3-5)
  by (auto simp: re_push_state_def re_wt_def stk_ok_def)

lemma re_end_ok:
  assumes "data_ok x al s" and "stk_ok x d al k"
  shows "next_ok x d al R (re_end x False ret s k)"
proof -
  obtain r where "re_recurse x ret s (st_states k) = Some r"
    "resume_ok x d al (length (st_states k)) r"
    using re_recurse_ok [of x d al "st_states k" s ret] assms by (auto simp: stk_ok_def)
  then show ?thesis
    using assms(2)
    by (auto simp: re_end_def resume_ok_def stk_ok_def mem_ok_def split: sum.splits prod.splits)
qed

lemma re_dispatch_ok:
  assumes "ctx_ok x d" and "allocator R" and "data_ok x al s" and "stk_ok x d al k"
    and "step_ok x d al ctl" and "\<nexists>a b c t. ctl = Quant a b c t"
  shows "next_ok x d al R (re_dispatch x R False ctl s k)"
  using assms re_end_ok [of x al _ d k R] re_push_state_ok [OF assms(1,2) _ assms(4)] saved_state_ok
  by (cases ctl) (auto simp: step_ok_def)

lemma re_after_quant_ok:
  assumes "ctx_ok x d" and "allocator R" and "re_wt x d al s" and "stk_ok x d al k"
    and "quant_ok (rc_bc x) d (pc1 - 16) (re_stack_len s)"
    and "get_u32 (rc_bc x) (pc1 - 16 + 12) = Some cc"
    and "get_chars x (q * unat cc) p = Some (re_cptr s)" and "p \<le> cbuf_end x"
  shows "next_ok x d al R (re_after_quant x R False quant_min pc1 q s k)"
proof -
  have "data_ok x al s" using assms(3) by (simp add: re_wt_def)
  with assms re_end_ok [of x al s d k R False] saved_quant_ok [OF assms(3,5,6,7,8)]
    re_push_state_ok [OF assms(1-4)]
  show ?thesis by (auto simp: re_after_quant_def)
qed

text \<open>The loop of the quantifier, started at a configuration the verifier accepts.\<close>

lemma quant_step_ok:
  assumes "step_ok x d al (Quant quant_min quant_max pc1 s)"
    and "re_quant x R f pc1 quant_max 0 s k = out"
  shows "out = Timeout \<or>
    (\<exists>q cc p. out = Done (Some q, s\<lparr>re_cptr := p\<rparr>, k) \<and> re_wt x d al (s\<lparr>re_cptr := p\<rparr>) \<and>
       get_u32 (rc_bc x) (pc1 - 16 + 12) = Some cc \<and>
       get_chars x (q * unat cc) (re_cptr s) = Some p)"
proof -
  have s: "re_wt x d al s" "data_ok x al s" "16 \<le> pc1"
    "quant_ok (rc_bc x) d (pc1 - 16) (re_stack_len s)"
    using assms(1) by (auto simp: step_ok_def re_wt_def)
  from s(4) obtain cc t where t: "get_u32 (rc_bc x) (pc1 - 16 + 12) = Some cc"
    "rd (rc_bc x) (t - 1) = Some 10" "re_atom_chars (rc_bc x) (pc1 - 16 + 16) (t - 1) = Some (unat cc)"
    by (rule quant_okE)
  have atom: "re_atom_chars (rc_bc x) pc1 (t - 1) = Some (unat cc)" using t(3) s(3) by simp
  have "re_wt x d al (s\<lparr>re_cptr := p\<rparr>)" if "get_chars x n (re_cptr s) = Some p" for n p
    using s(1) get_chars_pos_ok [OF that] by (auto simp: re_wt_def data_ok_def)
  then show ?thesis
    using re_quant_cases [OF atom t(2) s(2) assms(2)] t(1) by fastforce
qed

lemma re_exec_safe:
  assumes "ctx_ok x d" and "allocator R" and "re_wt x d al s" and "stk_ok x d al k"
  shows "case re_exec x R f False s k of
           Timeout \<Rightarrow> True | Fault \<Rightarrow> False
         | Done (r, s', k') \<Rightarrow> data_ok x al s' \<and> (r = Re_error \<longrightarrow> refused R (st_heap k'))"
  using assms(3,4)
proof (induction f arbitrary: s k)
  case 0
  then show ?case by (simp add: re_exec.simps)
next
  case (Suc f)
  obtain ctl where ctl: "re_step x s = Some ctl" "step_ok x d al ctl"
    using re_step_ok [OF assms(1) Suc.prems(1)] by blast
  have data: "data_ok x al s" using Suc.prems by (simp add: re_wt_def)
  have cont: "case (case nxt of Crash \<Rightarrow> Fault | Stop r s' k' \<Rightarrow> Done (r, s', k')
                     | Cont s' k' \<Rightarrow> re_exec x R f False s' k') of
           Timeout \<Rightarrow> True | Fault \<Rightarrow> False
         | Done (r, s', k') \<Rightarrow> data_ok x al s' \<and> (r = Re_error \<longrightarrow> refused R (st_heap k'))"
    if "next_ok x d al R nxt" for nxt
    using that Suc.IH by (cases nxt) auto
  show ?case
  proof (cases "\<exists>a b c t. ctl = Quant a b c t")
    case False
    then have "re_exec x R (Suc f) False s k =
        (case re_dispatch x R False ctl s k of Crash \<Rightarrow> Fault | Stop r s' k' \<Rightarrow> Done (r, s', k')
         | Cont s' k' \<Rightarrow> re_exec x R f False s' k')"
      using ctl(1) by (cases ctl) (auto simp: re_exec.simps)
    then show ?thesis
      using cont [OF re_dispatch_ok [OF assms(1,2) data Suc.prems(2) ctl(2)]] False by simp
  next
    case True
    then obtain quant_min quant_max pc1 t where q: "ctl = Quant quant_min quant_max pc1 t" by blast
    note sq = ctl(2) [unfolded q]
    from quant_step_ok [OF sq refl, of R f k] show ?thesis
    proof
      assume "re_quant x R f pc1 quant_max 0 t k = Timeout"
      then show ?thesis using ctl(1) q by (simp add: re_exec.simps)
    next
      assume "\<exists>n cc p. re_quant x R f pc1 quant_max 0 t k = Done (Some n, t\<lparr>re_cptr := p\<rparr>, k) \<and>
        re_wt x d al (t\<lparr>re_cptr := p\<rparr>) \<and> get_u32 (rc_bc x) (pc1 - 16 + 12) = Some cc \<and>
        get_chars x (n * unat cc) (re_cptr t) = Some p"
      then obtain n cc p where n: "re_quant x R f pc1 quant_max 0 t k = Done (Some n, t\<lparr>re_cptr := p\<rparr>, k)"
        "re_wt x d al (t\<lparr>re_cptr := p\<rparr>)" "get_u32 (rc_bc x) (pc1 - 16 + 12) = Some cc"
        "get_chars x (n * unat cc) (re_cptr t) = Some p" by blast
      have "next_ok x d al R (re_after_quant x R False quant_min pc1 n (t\<lparr>re_cptr := p\<rparr>) k)"
        by (rule re_after_quant_ok [OF assms(1,2) n(2) Suc.prems(2) _ n(3), where p = "re_cptr t"])
          (use sq n(4) in \<open>auto simp: step_ok_def re_wt_def data_ok_def pos_ok_def\<close>)
      from cont [OF this] show ?thesis
        using ctl(1) q n(1) by (simp add: re_exec.simps)
    qed
  qed
qed

section \<open>Only a refused request is an error\<close>

text \<open>The other direction: a run that does not end with an error has not been refused anything.\<close>

definition quiet :: "('h \<Rightarrow> bool) \<Rightarrow> 'h \<Rightarrow> 'h re_next \<Rightarrow> bool" where
  "quiet seen h nxt \<longleftrightarrow>
     (case nxt of
        Cont s k \<Rightarrow> seen (st_heap k) = seen h
      | Stop r s k \<Rightarrow> r \<noteq> Re_error \<longrightarrow> seen (st_heap k) = seen h
      | Crash \<Rightarrow> True)"

lemma re_push_state_quiet:
  assumes "records R seen"
  shows "quiet seen (st_heap k) (re_push_state x R pc type n s k)"
  using assms
  by (auto simp: quiet_def re_push_state_def push_state_def Let_def bind_eq_Some_conv
      split: option.split prod.splits if_splits dest: recordsD)

lemma re_end_quiet: "quiet seen (st_heap k) (re_end x b ret s k)"
  by (auto simp: quiet_def re_end_def split: option.split sum.split prod.split)

lemma re_dispatch_quiet: "records R seen \<Longrightarrow> quiet seen (st_heap k) (re_dispatch x R b ctl s k)"
  by (cases ctl) (auto simp: re_end_quiet re_push_state_quiet, auto simp: quiet_def)

lemma re_after_quant_quiet: "records R seen \<Longrightarrow> quiet seen (st_heap k) (re_after_quant x R b m pc1 q s k)"
  by (auto simp: re_after_quant_def re_end_quiet re_push_state_quiet) (simp add: quiet_def)

lemma re_exec_quiet:
  assumes "records R seen"
  shows "re_exec x R f b s k = Done (r, s', k') \<Longrightarrow> r \<noteq> Re_error \<Longrightarrow> seen (st_heap k') = seen (st_heap k)"
    and "re_quant x R f pc1 m q s k = Done (Some n, t, k2) \<Longrightarrow> seen (st_heap k2) = seen (st_heap k)"
proof (induction f arbitrary: b s k r s' k' pc1 m q n t k2)
  case (Suc f)
  {
    case 1
    have run: "seen (st_heap k') = seen (st_heap k1)"
      if "quiet seen (st_heap k1) nxt"
        "(case nxt of Crash \<Rightarrow> Fault | Stop r s k \<Rightarrow> Done (r, s, k)
          | Cont s k \<Rightarrow> re_exec x R f b s k) = Done (r, s', k')" for k1 nxt
      using that Suc.IH(1) "1"(2) by (cases nxt) (auto simp: quiet_def)
    obtain ctl where ctl: "re_step x s = Some ctl"
      using "1"(1) by (cases "re_step x s") (auto simp: re_exec.simps)
    show ?case
    proof (cases "\<exists>a b c t. ctl = Quant a b c t")
      case False
      then have "(case re_dispatch x R b ctl s k of Crash \<Rightarrow> Fault | Stop r s k \<Rightarrow> Done (r, s, k)
          | Cont s k \<Rightarrow> re_exec x R f b s k) = Done (r, s', k')"
        using "1"(1) ctl by (cases ctl) (auto simp: re_exec.simps)
      with re_dispatch_quiet [OF assms] show ?thesis by (rule run)
    next
      case True
      then obtain a m pc1 t where q: "ctl = Quant a m pc1 t" by blast
      then obtain n s2 k2 where n: "re_quant x R f pc1 m 0 t k = Done (Some n, s2, k2)"
        "(case re_after_quant x R b a pc1 n s2 k2 of Crash \<Rightarrow> Fault | Stop r s k \<Rightarrow> Done (r, s, k)
          | Cont s k \<Rightarrow> re_exec x R f b s k) = Done (r, s', k')"
        using "1" ctl by (auto simp: re_exec.simps split: outcome.splits option.splits)
      show ?thesis
        using run [OF re_after_quant_quiet [OF assms] n(2)] Suc.IH(2) [OF n(1)] by simp
    qed
  next
    case 2
    then obtain res d k1 where d: "re_exec x R f True (s\<lparr>re_pc := pc1\<rparr>) k = Done (res, d, k1)" "res \<noteq> Re_error"
      by (auto simp: re_quant.simps Let_def split: outcome.splits re_ret.splits)
    show ?case
      using "2" d Suc.IH(1) [OF d] Suc.IH(2)
      by (auto simp: re_quant.simps Let_def split: re_ret.splits if_splits)
  }
qed (simp_all add: re_exec.simps re_quant.simps)

section \<open>Entry point\<close>

text \<open>The text and the start of a call: 8 or 16 bit units, the start in the text, and a length in
  bytes that fits an \<^verbatim>\<open>int\<close>.\<close>

definition text_ok :: "u16 list \<Rightarrow> nat \<Rightarrow> nat \<Rightarrow> bool" where
  "text_ok cbuf cindex cbuf_type \<longleftrightarrow>
     cindex \<le> length cbuf \<and> cbuf_type \<le> 1 \<and> length cbuf * 2 ^ cbuf_type < 2 ^ 31"

lemma re_context_ok:
  assumes "re_verify bc_buf d"
  shows "\<exists>x. re_context bc_buf cbuf addr t = Some x \<and> ctx_ok x d \<and> rc_cbuf x = cbuf \<and>
           rc_capture_count x = unat (bc_buf ! 1)"
proof -
  have "7 < length bc_buf" using assms by (simp add: re_verify_def RE_HEADER_LEN_def)
  then have "rd bc_buf 0 = Some (bc_buf ! 0)" "rd bc_buf 1 = Some (bc_buf ! 1)"
    "rd bc_buf 2 = Some (bc_buf ! 2)"
    by (auto simp: rd_def)
  moreover have "unat (b :: u8) < 256" for b
    using unsigned_less [where w = b] by simp
  ultimately show ?thesis
    using assms by (simp add: re_context_def Let_def ctx_ok_def re_verify_def)
qed

lemma re_start_wt:
  assumes "ctx_ok x d" and "pos_ok x al cindex"
  shows "re_wt x d al (re_start x cindex junk)"
  using assms
  by (simp add: re_wt_def re_start_def data_ok_def ctx_ok_def re_code_ok_def capture_ok_def
      list_all_iff)

lemma stk_ok_init: "stk_ok x d al \<lparr>st_states = [], st_size = 0, st_ptr = 0, st_bytes = 0, st_heap = h\<rparr>"
  by (simp add: stk_ok_def mem_ok_def)

end
