(* ===== verification/RegexpMatch.thy ===== *)
theory RegexpMatch
  imports RegexpSafe
begin

text \<open>
  Reference semantics of the bytecode: \<open>re_eval x s r\<close> is the backtracking evaluation written
  down recursively, without the stack of saved states: a split tries its first branch and then
  the second one, a lookahead evaluates its body and goes on from where it started, a simple
  greedy quantifier tries the ends of its matches from the longest to the shortest.  The result
  is the configuration of the match, or \<open>None\<close>.  The interpreter computes it
  (\<open>eval_run\<close>), and the evaluation exists when every cycle of the bytecode
  consumes a character (\<open>eval_total\<close>).
\<close>

section \<open>The evaluation\<close>

inductive atom_reps :: "re_ctx \<Rightarrow> nat \<Rightarrow> nat \<Rightarrow> nat \<Rightarrow> re_cfg \<Rightarrow> nat list \<Rightarrow> bool" for x pc1 quant_max where
  reps_stop: "straight_eval x (s\<lparr>re_pc := pc1\<rparr>) None \<Longrightarrow> atom_reps x pc1 quant_max q s []"
| reps_full: "straight_eval x (s\<lparr>re_pc := pc1\<rparr>) (Some t) \<Longrightarrow>
    quant_max \<le> q + 1 \<and> quant_max \<noteq> 2 ^ 31 - 1 \<Longrightarrow> atom_reps x pc1 quant_max q s [re_cptr t]"
| reps_more: "straight_eval x (s\<lparr>re_pc := pc1\<rparr>) (Some t) \<Longrightarrow>
    \<not> (quant_max \<le> q + 1 \<and> quant_max \<noteq> 2 ^ 31 - 1) \<Longrightarrow>
    atom_reps x pc1 quant_max (q + 1) (s\<lparr>re_cptr := re_cptr t\<rparr>) ps \<Longrightarrow>
    atom_reps x pc1 quant_max q s (re_cptr t # ps)"

inductive re_eval :: "re_ctx \<Rightarrow> re_cfg \<Rightarrow> re_cfg option \<Rightarrow> bool"
  and re_try :: "re_ctx \<Rightarrow> re_cfg \<Rightarrow> nat list \<Rightarrow> re_cfg option \<Rightarrow> bool" for x where
  eval_go: "re_step x s = Some (Go s') \<Longrightarrow> re_eval x s' r \<Longrightarrow> re_eval x s r"
| eval_match: "re_step x s = Some (Matched s') \<Longrightarrow> re_eval x s (Some s')"
| eval_no_match: "re_step x s = Some No_match \<Longrightarrow> re_eval x s None"
| eval_split_first: "re_step x s = Some (Push RE_EXEC_STATE_SPLIT pc s') \<Longrightarrow>
    re_eval x s' (Some t) \<Longrightarrow> re_eval x s (Some t)"
| eval_split_second: "re_step x s = Some (Push RE_EXEC_STATE_SPLIT pc s') \<Longrightarrow>
    re_eval x s' None \<Longrightarrow> re_eval x (s'\<lparr>re_pc := pc\<rparr>) r \<Longrightarrow> re_eval x s r"
| eval_look: "re_step x s = Some (Push RE_EXEC_STATE_LOOKAHEAD pc s') \<Longrightarrow>
    re_eval x s' (Some t) \<Longrightarrow> re_eval x (s'\<lparr>re_pc := pc, re_capture := re_capture t\<rparr>) r \<Longrightarrow>
    re_eval x s r"
| eval_look_fails: "re_step x s = Some (Push RE_EXEC_STATE_LOOKAHEAD pc s') \<Longrightarrow>
    re_eval x s' None \<Longrightarrow> re_eval x s None"
| eval_negative: "re_step x s = Some (Push RE_EXEC_STATE_NEGATIVE_LOOKAHEAD pc s') \<Longrightarrow>
    re_eval x s' None \<Longrightarrow> re_eval x (s'\<lparr>re_pc := pc\<rparr>) r \<Longrightarrow> re_eval x s r"
| eval_negative_fails: "re_step x s = Some (Push RE_EXEC_STATE_NEGATIVE_LOOKAHEAD pc s') \<Longrightarrow>
    re_eval x s' (Some t) \<Longrightarrow> re_eval x s None"
| eval_quant: "re_step x s = Some (Quant quant_min quant_max pc1 s') \<Longrightarrow>
    atom_reps x pc1 quant_max 0 s' ps \<Longrightarrow>
    re_try x s' (rev (drop quant_min (re_cptr s' # ps))) r \<Longrightarrow> re_eval x s r"
| try_none: "re_try x s [] None"
| try_first: "re_eval x (s\<lparr>re_cptr := p\<rparr>) (Some t) \<Longrightarrow> re_try x s (p # ps) (Some t)"
| try_next: "re_eval x (s\<lparr>re_cptr := p\<rparr>) None \<Longrightarrow> re_try x s ps r \<Longrightarrow> re_try x s (p # ps) r"

section \<open>Dead stack cells\<close>

text \<open>Restoring a state copies back only the live cells of the value stack; configurations that
  agree on those behave alike.\<close>

definition same_cfg :: "re_cfg \<Rightarrow> re_cfg \<Rightarrow> bool" where
  "same_cfg s t \<longleftrightarrow>
     re_pc t = re_pc s \<and> re_cptr t = re_cptr s \<and> re_capture t = re_capture s \<and>
     re_stack_len t = re_stack_len s \<and> length (re_stack t) = length (re_stack s) \<and>
     take (re_stack_len s) (re_stack t) = take (re_stack_len s) (re_stack s)"

definition same_ctl :: "re_ctl \<Rightarrow> re_ctl \<Rightarrow> bool" where
  "same_ctl a b =
     (case a of
        Go s \<Rightarrow> (\<exists>t. b = Go t \<and> same_cfg s t)
      | Matched s \<Rightarrow> (\<exists>t. b = Matched t \<and> same_cfg s t)
      | No_match \<Rightarrow> b = No_match
      | Push type pc s \<Rightarrow> (\<exists>t. b = Push type pc t \<and> same_cfg s t)
      | Quant quant_min quant_max pc1 s \<Rightarrow>
          (\<exists>t. b = Quant quant_min quant_max pc1 t \<and> same_cfg s t))"

lemma same_ctl_simps [simp]:
  "same_ctl (Go s) b = (\<exists>t. b = Go t \<and> same_cfg s t)"
  "same_ctl (Matched s) b = (\<exists>t. b = Matched t \<and> same_cfg s t)"
  "same_ctl No_match b = (b = No_match)"
  "same_ctl (Push type pc s) b = (\<exists>t. b = Push type pc t \<and> same_cfg s t)"
  "same_ctl (Quant m n pc s) b = (\<exists>t. b = Quant m n pc t \<and> same_cfg s t)"
  by (simp_all add: same_ctl_def)

lemma same_cfg_refl: "same_cfg s s"
  by (simp add: same_cfg_def)

lemma same_cfg_updates:
  assumes "same_cfg s t"
  shows "same_cfg (s\<lparr>re_pc := pc\<rparr>) (t\<lparr>re_pc := pc\<rparr>)"
    and "same_cfg (s\<lparr>re_cptr := p\<rparr>) (t\<lparr>re_cptr := p\<rparr>)"
    and "same_cfg (s\<lparr>re_capture := c\<rparr>) (t\<lparr>re_capture := c\<rparr>)"
    and "n \<le> re_stack_len s \<Longrightarrow> same_cfg (s\<lparr>re_stack_len := n\<rparr>) (t\<lparr>re_stack_len := n\<rparr>)"
proof -
  have eq: "take (re_stack_len s) (re_stack t) = take (re_stack_len s) (re_stack s)"
    "re_pc t = re_pc s" "re_cptr t = re_cptr s" "re_capture t = re_capture s"
    "re_stack_len t = re_stack_len s" "length (re_stack t) = length (re_stack s)"
    using assms unfolding same_cfg_def by blast+
  show "same_cfg (s\<lparr>re_pc := pc\<rparr>) (t\<lparr>re_pc := pc\<rparr>)"
    and "same_cfg (s\<lparr>re_cptr := p\<rparr>) (t\<lparr>re_cptr := p\<rparr>)"
    and "same_cfg (s\<lparr>re_capture := c\<rparr>) (t\<lparr>re_capture := c\<rparr>)"
    by (simp_all add: same_cfg_def eq)
  have "take n (re_stack t) = take n (re_stack s)" if "n \<le> re_stack_len s"
    using arg_cong [OF eq(1), of "take n"] that by (simp add: min_absorb1)
  then show "n \<le> re_stack_len s \<Longrightarrow> same_cfg (s\<lparr>re_stack_len := n\<rparr>) (t\<lparr>re_stack_len := n\<rparr>)"
    by (simp add: same_cfg_def eq)
qed

lemma same_cfg_stack:
  assumes "same_cfg s t" and "i < re_stack_len s"
  shows "re_stack t ! i = re_stack s ! i"
proof -
  have "take (re_stack_len s) (re_stack t) = take (re_stack_len s) (re_stack s)"
    using assms(1) unfolding same_cfg_def by blast
  from arg_cong [OF this, of "\<lambda>l. l ! i"] assms(2) show ?thesis by simp
qed

lemma same_cfg_push:
  assumes "same_cfg s t"
  shows "rel_option same_cfg (re_push v s) (re_push v t)"
  using assms
  by (auto simp: same_cfg_def re_push_def wr_def take_Suc_conv_app_nth)

definition same_step :: "re_ctl option \<Rightarrow> re_ctl option \<Rightarrow> bool" where
  "same_step = rel_option same_ctl"

lemma same_step_simps [simp]:
  "same_step None None"
  "same_step (Some a) (Some b) = same_ctl a b"
  by (simp_all add: same_step_def)

lemma same_stepE:
  assumes "same_step a b" and "a = Some c"
  obtains c' where "b = Some c'" and "same_ctl c c'"
  using assms by (cases b) (auto simp: same_step_def)

lemma same_step_bind:
  "(\<And>v. f = Some v \<Longrightarrow> same_step (g v) (h v)) \<Longrightarrow> same_step (f \<bind> g) (f \<bind> h)"
  by (cases f) auto

lemma same_step_tests:
  assumes "same_cfg s t"
  shows "same_step (re_test_char x v s) (re_test_char x v t)"
    and "same_step (re_any x ok s) (re_any x ok t)"
    and "same_step (re_line_start x s) (re_line_start x t)"
    and "same_step (re_line_end x s) (re_line_end x t)"
    and "same_step (re_word_boundary x neg s) (re_word_boundary x neg t)"
    and "same_step (re_range x test n s) (re_range x test n t)"
    and "same_step (re_back_reference x backward val s) (re_back_reference x backward val t)"
proof -
  have eq: "re_cptr t = re_cptr s" "re_pc t = re_pc s" "re_capture t = re_capture s"
    using assms by (auto simp: same_cfg_def)
  note upd = same_cfg_updates [OF assms] same_cfg_updates(1) [OF same_cfg_updates(2) [OF assms]]
  show "same_step (re_test_char x v s) (re_test_char x v t)"
    using upd by (auto simp: re_test_char_def eq intro!: same_step_bind split: prod.splits)
  show "same_step (re_any x ok s) (re_any x ok t)"
    using upd by (auto simp: re_any_def eq intro!: same_step_bind split: prod.splits)
  show "same_step (re_line_start x s) (re_line_start x t)"
    using assms by (auto simp: re_line_start_def eq intro!: same_step_bind)
  show "same_step (re_line_end x s) (re_line_end x t)"
    using assms by (auto simp: re_line_end_def eq intro!: same_step_bind)
  show "same_step (re_word_boundary x neg s) (re_word_boundary x neg t)"
    using assms unfolding re_word_boundary_def eq by (intro same_step_bind) auto
  show "same_step (re_range x test n s) (re_range x test n t)"
    using upd by (auto simp: re_range_def eq Let_def intro!: same_step_bind split: prod.splits)
  show "same_step (re_back_reference x backward val s) (re_back_reference x backward val t)"
    unfolding re_back_reference_def eq
    using upd assms by (auto intro!: same_step_bind split: option.splits prod.splits)
qed

lemma same_step_op:
  assumes "same_cfg s t" and "re_stack_len s \<le> length (re_stack s)"
  shows "same_step (re_op x op s) (re_op x op t)"
proof -
  have eq: "re_cptr t = re_cptr s" "re_pc t = re_pc s" "re_capture t = re_capture s"
    "re_stack_len t = re_stack_len s" "length (re_stack t) = length (re_stack s)"
    using assms by (auto simp: same_cfg_def)
  note upd = same_cfg_updates [OF assms(1)]
  note test = same_step_tests [OF assms(1)] same_step_tests [OF upd(1)]
  have push: "same_step (re_push v s' \<bind> (\<lambda>s. Some (Go s))) (re_push v t' \<bind> (\<lambda>s. Some (Go s)))"
    if "same_cfg s' t'" for v s' t'
    using same_cfg_push [OF that, of v] by (cases "re_push v s'"; cases "re_push v t'") auto
  have top: "rd (re_stack t) i = rd (re_stack s) i" if "ptr_dec (re_stack_len s) = Some i" for i
    using that assms same_cfg_stack [OF assms(1), of i]
    by (auto simp: rd_def eq ptr_dec_def split: if_splits)
  have store: "wr (re_stack s) i v = Some st \<Longrightarrow> wr (re_stack t) i v = Some ((re_stack t)[i := v]) \<and>
      st = (re_stack s)[i := v]" for i v st
    by (auto simp: wr_def eq split: if_splits)
  have upd_stack: "same_cfg (s\<lparr>re_pc := pc, re_stack := (re_stack s)[i := v]\<rparr>)
      (t\<lparr>re_pc := pc, re_stack := (re_stack t)[i := v]\<rparr>)" for pc i v
    using assms(1) by (simp add: same_cfg_def take_update_swap)
  show ?thesis
  proof (cases op)
    case REOP_loop
    show ?thesis
      unfolding REOP_loop re_op.simps eq
    proof (intro same_step_bind, goal_cases)
      case (1 v i)
      show ?case
        unfolding top [OF 1(2)]
        using upd_stack by (auto simp: wr_def eq intro!: same_step_bind)
    qed
  next
    case REOP_bne_char_pos
    show ?thesis
      unfolding REOP_bne_char_pos re_op.simps eq
    proof (intro same_step_bind, goal_cases)
      case (1 v i)
      have "same_cfg (s\<lparr>re_pc := pc, re_stack_len := i\<rparr>) (t\<lparr>re_pc := pc, re_stack_len := i\<rparr>)" for pc
        using same_cfg_updates(4) [OF upd(1)] 1(2) by (auto simp: ptr_dec_def split: if_splits)
      then show ?case
        unfolding top [OF 1(2)] by (auto simp: cptr_word_def eq intro!: same_step_bind)
    qed
  next
    case REOP_drop
    then show ?thesis
      using upd(4) by (auto simp: eq ptr_dec_def)
  qed (use upd assms test push same_cfg_updates(1,3) [OF upd(1)] in
      \<open>auto simp: eq Let_def intro!: same_step_bind\<close>)
qed

lemma same_step:
  assumes "same_cfg s t" and "re_stack_len s \<le> length (re_stack s)"
  shows "same_step (re_step x s) (re_step x t)"
proof -
  have "re_pc t = re_pc s" using assms(1) by (simp add: same_cfg_def)
  then show ?thesis
    unfolding re_step_def
    using same_step_op [OF same_cfg_updates(1) [OF assms(1)]] assms(2)
    by (auto intro!: same_step_bind)
qed

end
