(* ===== verification/RegexpRun.thy ===== *)
theory RegexpRun
  imports RegexpMatch
begin

text \<open>
  The interpreter implements the reference semantics of \<open>RegexpMatch\<close>: from a verified
  configuration whose evaluation is \<open>r\<close> it runs, whatever states are saved below, to the label
  \<^verbatim>\<open>recurse\<close> with the result \<open>r\<close> and the same saved states, unless the allocator refuses to
  enlarge the state stack (\<open>eval_run\<close>).
\<close>

section \<open>Fuel\<close>

lemma more_fuel_step:
  "(re_exec x R f nr s k \<noteq> Timeout \<longrightarrow> re_exec x R (Suc f) nr s k = re_exec x R f nr s k) \<and>
   (re_quant x R f pc1 m q s k \<noteq> Timeout \<longrightarrow> re_quant x R (Suc f) pc1 m q s k = re_quant x R f pc1 m q s k)"
proof (induction f arbitrary: nr s k pc1 m q)
  case 0
  show ?case by (simp add: re_exec.simps(1) re_quant.simps(1))
next
  case (Suc f)
  note e = Suc.IH [THEN conjunct1] and q = Suc.IH [THEN conjunct2]
  have "re_exec x R (Suc (Suc f)) nr s k = re_exec x R (Suc f) nr s k"
    if "re_exec x R (Suc f) nr s k \<noteq> Timeout"
    using that unfolding re_exec.simps(2) [of x R "Suc f" nr s k] re_exec.simps(2) [of x R f nr s k]
    by (auto split: option.splits re_ctl.splits outcome.splits prod.splits re_next.splits
        simp: e q)
  moreover have "re_quant x R (Suc (Suc f)) pc1 m q s k = re_quant x R (Suc f) pc1 m q s k"
    if "re_quant x R (Suc f) pc1 m q s k \<noteq> Timeout" for q
    using that
    unfolding re_quant.simps(2) [of x R "Suc f" pc1 m q s k] re_quant.simps(2) [of x R f pc1 m q s k]
    by (auto split: outcome.splits prod.splits re_ret.splits simp: e q Let_def)
  ultimately show ?case by blast
qed

lemma more_fuel:
  assumes "re_exec x R f nr s k = Done out" and "f \<le> f'"
  shows "re_exec x R f' nr s k = Done out"
proof -
  have "re_exec x R (Suc g) nr s k = Done out" if "re_exec x R g nr s k = Done out" for g
    using that more_fuel_step by (metis outcome.distinct(3))
  with assms(2,1) show ?thesis by (induction rule: dec_induct) blast+
qed

section \<open>Atoms\<close>

lemma straight_eval_unique:
  assumes "straight_eval x s r" and "straight_eval x s r'"
  shows "r' = r"
  using assms
proof (induction arbitrary: r')
  case (straight_go s s' r)
  from straight_go.prems straight_go.hyps(1) have "straight_eval x s' r'" by cases auto
  then show ?case by (rule straight_go.IH)
next
  case (straight_match s s')
  from straight_match.prems straight_match.hyps show ?case by cases auto
next
  case (straight_no_match s)
  from straight_no_match.prems straight_no_match.hyps show ?case by cases auto
qed

definition stack_wf :: "re_cfg \<Rightarrow> bool" where
  "stack_wf s \<longleftrightarrow> re_stack_len s \<le> length (re_stack s)"

lemma re_back_reference_stack:
  "re_back_reference x b v s = Some (Go s') \<Longrightarrow>
     re_stack s' = re_stack s \<and> re_stack_len s' = re_stack_len s"
proof -
  assume r: "re_back_reference x b v s = Some (Go s')"
  show ?thesis
  proof (cases "rc_capture_count x \<le> v")
    case True
    then show ?thesis using r by (simp add: re_back_reference_def)
  next
    case False
    then obtain y z where "rd (re_capture s) (2 * v) = Some y" "rd (re_capture s) (2 * v + 1) = Some z"
      using r by (auto simp: re_back_reference_def bind_eq_Some_conv)
    with r False show ?thesis
      by (cases y; cases z)
        (auto simp: re_back_reference_def bind_eq_Some_conv split: option.splits if_splits)
  qed
qed

lemma re_step_stack_wf:
  assumes "re_step x s = Some (Go s')" and "stack_wf s"
  shows "stack_wf s'"
proof -
  obtain b op where "re_op x op (s\<lparr>re_pc := re_pc s + 1\<rparr>) = Some (Go s')"
    using assms(1) by (auto simp: re_step_def bind_eq_Some_conv)
  then show ?thesis
    using assms(2)
    by (cases op)
      (auto simp: bind_eq_Some_conv Let_def re_test_char_def re_any_def re_line_start_def
        re_line_end_def re_word_boundary_def re_range_def re_push_def wr_def ptr_dec_def stack_wf_def
        dest: re_back_reference_stack split: if_splits)
qed

lemma re_step_push_wf:
  assumes "re_step x s = Some (Push type pc s')" and "stack_wf s"
  shows "stack_wf s'"
proof -
  obtain b op where "re_op x op (s\<lparr>re_pc := re_pc s + 1\<rparr>) = Some (Push type pc s')"
    using assms(1) by (auto simp: re_step_def bind_eq_Some_conv)
  then show ?thesis
    using assms(2)
    by (cases op)
      (auto simp: bind_eq_Some_conv Let_def re_test_char_def re_any_def re_line_start_def
        re_line_end_def re_word_boundary_def re_range_def re_back_reference_def stack_wf_def
        split: if_splits option.splits)
qed

lemma re_step_quant_wf:
  assumes "re_step x s = Some (Quant quant_min quant_max pc1 s')" and "stack_wf s"
  shows "stack_wf s'"
proof -
  obtain b op where "re_op x op (s\<lparr>re_pc := re_pc s + 1\<rparr>) = Some (Quant quant_min quant_max pc1 s')"
    using assms(1) by (auto simp: re_step_def bind_eq_Some_conv)
  then show ?thesis
    using assms(2)
    by (cases op)
      (auto simp: bind_eq_Some_conv Let_def re_test_char_def re_any_def re_line_start_def
        re_line_end_def re_word_boundary_def re_range_def re_back_reference_def stack_wf_def
        split: if_splits option.splits)
qed

lemma straight_eval_same:
  assumes "straight_eval x s r" and "same_cfg s t" and "stack_wf s"
  shows "\<exists>r'. straight_eval x t r' \<and> rel_option same_cfg r r'"
  using assms
proof (induction arbitrary: t)
  case (straight_go s s' r)
  have "same_step (re_step x s) (re_step x t)"
    using same_step straight_go.prems by (simp add: stack_wf_def)
  then obtain t' where t': "re_step x t = Some (Go t')" "same_cfg s' t'"
    by (rule same_stepE [OF _ straight_go.hyps(1)]) auto
  with straight_go.IH re_step_stack_wf [OF straight_go.hyps(1)] straight_go.prems(2)
  show ?case using straight_eval.straight_go by blast
next
  case (straight_match s s')
  have "same_step (re_step x s) (re_step x t)"
    using same_step straight_match.prems by (simp add: stack_wf_def)
  then obtain t' where "re_step x t = Some (Matched t')" "same_cfg s' t'"
    by (rule same_stepE [OF _ straight_match.hyps]) auto
  then show ?case using straight_eval.straight_match by fastforce
next
  case (straight_no_match s)
  have "same_step (re_step x s) (re_step x t)"
    using same_step straight_no_match.prems by (simp add: stack_wf_def)
  then have "re_step x t = Some No_match"
    by (rule same_stepE [OF _ straight_no_match.hyps]) auto
  then show ?case using straight_eval.straight_no_match by fastforce
qed

lemma atom_reps_same:
  assumes "atom_reps x pc1 m q s ps" and "same_cfg s t" and "stack_wf s"
  shows "atom_reps x pc1 m q t ps"
  using assms
proof (induction arbitrary: t)
  case (reps_stop s q)
  have "\<exists>r'. straight_eval x (t\<lparr>re_pc := pc1\<rparr>) r' \<and> rel_option same_cfg None r'"
    using straight_eval_same [OF reps_stop.hyps same_cfg_updates(1) [OF reps_stop.prems(1)]]
      reps_stop.prems(2) by (simp add: stack_wf_def)
  then show ?case by (auto intro: atom_reps.reps_stop)
next
  case (reps_full s u q)
  obtain u' where "straight_eval x (t\<lparr>re_pc := pc1\<rparr>) (Some u')" "same_cfg u u'"
    using straight_eval_same [OF reps_full.hyps(1) same_cfg_updates(1) [OF reps_full.prems(1)]]
      reps_full.prems(2) by (auto simp: stack_wf_def elim: option.rel_cases)
  moreover from this(2) have "re_cptr u' = re_cptr u" by (simp add: same_cfg_def)
  ultimately show ?case using atom_reps.reps_full reps_full.hyps(2) by metis
next
  case (reps_more s u q ps)
  obtain u' where u': "straight_eval x (t\<lparr>re_pc := pc1\<rparr>) (Some u')" "same_cfg u u'"
    using straight_eval_same [OF reps_more.hyps(1) same_cfg_updates(1) [OF reps_more.prems(1)]]
      reps_more.prems(2) by (auto simp: stack_wf_def elim: option.rel_cases)
  from this(2) have c: "re_cptr u' = re_cptr u" by (simp add: same_cfg_def)
  have "atom_reps x pc1 m (q + 1) (t\<lparr>re_cptr := re_cptr u'\<rparr>) ps"
    using reps_more.IH [of "t\<lparr>re_cptr := re_cptr u\<rparr>"] same_cfg_updates(2) [OF reps_more.prems(1)]
      reps_more.prems(2) by (simp add: c stack_wf_def)
  from atom_reps.reps_more [OF u'(1) reps_more.hyps(2) this] show ?case by (simp add: c)
qed

lemma all_ge_Suc: "(\<And>f. N \<le> f \<Longrightarrow> P (Suc f)) \<Longrightarrow> \<forall>f\<ge>Suc N. P f"
  by (metis Suc_le_D Suc_le_mono)

text \<open>The loop of the quantifier visits the positions of \<open>atom_reps\<close>.\<close>

abbreviation steps_fwd :: "re_ctx \<Rightarrow> nat \<Rightarrow> nat list \<Rightarrow> bool" where
  "steps_fwd x n \<equiv> successively (\<lambda>a b. get_chars x n a = Some b)"

lemma re_quant_reps:
  assumes "re_atom_chars (rc_bc x) pc1 e = Some n" and "rd (rc_bc x) e = Some 10"
    and "atom_reps x pc1 m q s ps" and "data_ok x al s"
  shows "steps_fwd x n (re_cptr s # ps) \<and>
    (\<exists>N. \<forall>f\<ge>N. re_quant x R f pc1 m q s k =
       Done (Some (q + length ps), s\<lparr>re_cptr := last (re_cptr s # ps)\<rparr>, k))"
  using assms(3,4)
proof (induction)
  case (reps_stop s q)
  obtain N res s' where a: "ends_at x R (s\<lparr>re_pc := pc1\<rparr>) k N res s'"
    "atom_result x n (s\<lparr>re_pc := pc1\<rparr>) res s'"
    using atom_run [OF assms(1,2) data_ok_moves(1) [OF reps_stop.prems], of pc1 R k] by auto
  have "res = Re_no_match"
    using a(2) straight_eval_unique [OF reps_stop.hyps] by (auto simp: atom_result_def)
  then have "re_quant x R (Suc f) pc1 m q s k = Done (Some q, s, k)" if "N \<le> f" for f
    using a that by (simp add: re_quant.simps ends_at_def atom_result_def)
  then have "\<forall>f\<ge>Suc N. re_quant x R f pc1 m q s k = Done (Some q, s, k)"
    by (rule all_ge_Suc)
  then show ?case by auto
next
  case (reps_full s t q)
  obtain N res s' where a: "ends_at x R (s\<lparr>re_pc := pc1\<rparr>) k N res s'"
    "atom_result x n (s\<lparr>re_pc := pc1\<rparr>) res s'"
    using atom_run [OF assms(1,2) data_ok_moves(1) [OF reps_full.prems], of pc1 R k] by auto
  have res: "res = Re_match" "s' = t"
    using a(2) straight_eval_unique [OF reps_full.hyps(1)] by (auto simp: atom_result_def)
  then have "re_quant x R (Suc f) pc1 m q s k = Done (Some (q + 1), s\<lparr>re_cptr := re_cptr t\<rparr>, k)"
    if "N \<le> f" for f
    using a that reps_full.hyps(2) by (simp add: re_quant.simps ends_at_def atom_result_def)
  then have "\<forall>f\<ge>Suc N. re_quant x R f pc1 m q s k = Done (Some (q + 1), s\<lparr>re_cptr := re_cptr t\<rparr>, k)"
    by (rule all_ge_Suc)
  then show ?case using a(2) res by (auto simp: atom_result_def)
next
  case (reps_more s t q ps)
  obtain N res s' where a: "ends_at x R (s\<lparr>re_pc := pc1\<rparr>) k N res s'"
    "atom_result x n (s\<lparr>re_pc := pc1\<rparr>) res s'"
    using atom_run [OF assms(1,2) data_ok_moves(1) [OF reps_more.prems], of pc1 R k] by auto
  have res: "res = Re_match" "s' = t"
    using a(2) straight_eval_unique [OF reps_more.hyps(1)] by (auto simp: atom_result_def)
  let ?t = "s\<lparr>re_cptr := re_cptr t\<rparr>"
  have g: "get_chars x n (re_cptr s) = Some (re_cptr t)" using a(2) res by (simp add: atom_result_def)
  have "data_ok x al ?t" using reps_more.prems get_chars_pos_ok [OF g] by (simp add: data_ok_def)
  from reps_more.IH [OF this] obtain M where ih: "steps_fwd x n (re_cptr t # ps)"
    "\<forall>f\<ge>M. re_quant x R f pc1 m (q + 1) ?t k =
       Done (Some (q + 1 + length ps), ?t\<lparr>re_cptr := last (re_cptr t # ps)\<rparr>, k)"
    by auto
  have same: "s\<lparr>re_capture := re_capture t, re_stack := re_stack t, re_cptr := c\<rparr> = s\<lparr>re_cptr := c\<rparr>" for c
    using a(2) res by (simp add: atom_result_def)
  have "re_quant x R (Suc f) pc1 m q s k = re_quant x R f pc1 m (q + 1) ?t k" if "N \<le> f" for f
    using a(1) that res reps_more.hyps(2) same
    by (auto simp: re_quant.simps(2) ends_at_def Let_def)
  then have "\<forall>f\<ge>Suc (N + M). re_quant x R f pc1 m q s k =
      Done (Some (q + length (re_cptr t # ps)), s\<lparr>re_cptr := last (re_cptr t # ps)\<rparr>, k)"
    using ih(2) by (intro all_ge_Suc) simp
  then show ?case using ih(1) g by (intro conjI exI [of _ "Suc (N + M)"]) auto
qed

section \<open>Running on\<close>

definition run_next ::
  "re_ctx \<Rightarrow> 'h realloc_func \<Rightarrow> nat \<Rightarrow> 'h re_next \<Rightarrow> (re_ret \<times> re_cfg \<times> 'h re_stk) outcome" where
  "run_next x R f nxt =
     (case nxt of Crash \<Rightarrow> Fault | Stop r s k \<Rightarrow> Done (r, s, k) | Cont s k \<Rightarrow> re_exec x R f False s k)"

text \<open>The run ends with a result that satisfies \<open>Q\<close>, or the allocator refused a request.\<close>

definition finishes ::
  "re_ctx \<Rightarrow> 'h realloc_func \<Rightarrow> (re_ret \<Rightarrow> re_cfg \<Rightarrow> bool) \<Rightarrow> 'h re_next \<Rightarrow> bool" where
  "finishes x R Q nxt \<longleftrightarrow>
     (\<exists>f r t k. run_next x R f nxt = Done (r, t, k) \<and>
        (r \<noteq> Re_error \<and> Q r t \<or> r = Re_error \<and> refused R (st_heap k)))"

lemma finishes_dispatch:
  assumes "re_step x s = Some ctl" and "\<nexists>a b c t. ctl = Quant a b c t"
    and "finishes x R Q (re_dispatch x R False ctl s k)"
  shows "finishes x R Q (Cont s k)"
proof -
  have "run_next x R (Suc f) (Cont s k) = run_next x R f (re_dispatch x R False ctl s k)" for f
    using assms(1,2) by (cases ctl) (auto simp: run_next_def re_exec.simps(2))
  with assms(3) show ?thesis by (metis finishes_def)
qed

lemma finishes_quant:
  assumes "re_step x s = Some (Quant quant_min quant_max pc1 s')"
    and "\<forall>f\<ge>N. re_quant x R f pc1 quant_max 0 s' k = Done (Some q, s'', k)"
    and "finishes x R Q (re_after_quant x R False quant_min pc1 q s'' k)"
  shows "finishes x R Q (Cont s k)"
proof -
  let ?nxt = "re_after_quant x R False quant_min pc1 q s'' k"
  obtain f r t k' where f: "run_next x R f ?nxt = Done (r, t, k')"
    "r \<noteq> Re_error \<and> Q r t \<or> r = Re_error \<and> refused R (st_heap k')"
    using assms(3) by (auto simp: finishes_def)
  have "run_next x R (f + N) ?nxt = Done (r, t, k')"
  proof (cases ?nxt)
    case (Cont a b)
    then have "re_exec x R f False a b = Done (r, t, k')" using f(1) by (simp add: run_next_def)
    from more_fuel [OF this, of "f + N"] Cont show ?thesis by (simp add: run_next_def)
  qed (use f(1) in \<open>auto simp: run_next_def\<close>)
  moreover have "re_quant x R (f + N) pc1 quant_max 0 s' k = Done (Some q, s'', k)"
    using assms(2) by simp
  then have "run_next x R (Suc (f + N)) (Cont s k) = run_next x R (f + N) ?nxt"
    by (simp add: run_next_def re_exec.simps(2) assms(1))
  ultimately have "run_next x R (Suc (f + N)) (Cont s k) = Done (r, t, k')" by simp
  with f(2) show ?thesis unfolding finishes_def by blast
qed

lemma finishes_push:
  assumes "ctx_ok x d" and "data_ok x al s" and "mem_ok x k" and "allocator R"
    and "\<And>k'. mem_ok x k' \<Longrightarrow> st_states k' = saved_state s pc type n # st_states k \<Longrightarrow>
           finishes x R Q (Cont s k')"
  shows "finishes x R Q (re_push_state x R pc type n s k)"
proof -
  obtain r k' where p: "push_state x R s pc type n k = Some (r, k')" "mem_ok x k'"
    and c: "r = -1 \<and> refused R (st_heap k') \<or>
       r = 0 \<and> st_states k' = saved_state s pc type n # st_states k"
    using push_state_cases [OF assms(1-4)] by blast
  from c show ?thesis
  proof
    assume "r = -1 \<and> refused R (st_heap k')"
    then show ?thesis
      using p(1) by (auto simp: finishes_def re_push_state_def run_next_def)
  next
    assume "r = 0 \<and> st_states k' = saved_state s pc type n # st_states k"
    then show ?thesis using assms(5) [OF p(2)] p(1) by (simp add: re_push_state_def)
  qed
qed

text \<open>\<open>continues x R K r Q\<close>: from the label \<^verbatim>\<open>recurse\<close> with the result \<open>r\<close> and the saved states
  \<open>K\<close> the run ends as \<open>Q\<close> says.\<close>

definition continues ::
  "re_ctx \<Rightarrow> 'h realloc_func \<Rightarrow> (re_ret \<Rightarrow> re_cfg \<Rightarrow> bool) \<Rightarrow> re_state list \<Rightarrow> re_cfg option \<Rightarrow> bool" where
  "continues x R Q K r \<longleftrightarrow>
     (\<forall>t (k :: 'h re_stk). st_states k = K \<longrightarrow> mem_ok x k \<longrightarrow> data_ok x True t \<longrightarrow>
        (\<forall>u. r = Some u \<longrightarrow> re_capture t = re_capture u) \<longrightarrow>
        finishes x R Q (re_end x False (r \<noteq> None) t k))"

lemma continuesD:
  assumes "continues x R Q (st_states k) r" and "mem_ok x k" and "data_ok x True t"
    and "\<And>u. r = Some u \<Longrightarrow> re_capture t = re_capture u"
  shows "finishes x R Q (re_end x False (r \<noteq> None) t k)"
  using assms by (auto simp: continues_def)

lemma mem_ok_states: "mem_ok x k \<Longrightarrow> length K \<le> length (st_states k) \<Longrightarrow> mem_ok x (k\<lparr>st_states := K\<rparr>)"
  by (simp add: mem_ok_def)

lemma re_end_drop:
  assumes "st_states k = rs # K"
  shows "rs_type rs = RE_EXEC_STATE_SPLIT \<or> rs_type rs = RE_EXEC_STATE_GREEDY_QUANT \<Longrightarrow>
      re_end x False True t k = re_end x False True t (k\<lparr>st_states := K\<rparr>)"
    and "rs_type rs = RE_EXEC_STATE_LOOKAHEAD \<Longrightarrow>
      re_end x False False t k = re_end x False False t (k\<lparr>st_states := K\<rparr>)"
    and "rs_type rs = RE_EXEC_STATE_NEGATIVE_LOOKAHEAD \<Longrightarrow>
      re_end x False True t k = re_end x False False t (k\<lparr>st_states := K\<rparr>)"
  using assms by (auto simp: re_end_def split: option.split sum.split prod.split)

text \<open>Back to the state saved from \<open>s\<close>.\<close>

lemma same_cfg_trans: "same_cfg s t \<Longrightarrow> same_cfg t u \<Longrightarrow> same_cfg s u"
  by (simp add: same_cfg_def)

lemma back_at_saved:
  assumes "back_at (saved_state s pc type n) t" and "data_ok x al s" and "data_ok x al t"
  shows "same_cfg (s\<lparr>re_pc := pc, re_capture := re_capture t\<rparr>) t"
  using assms by (auto simp: back_at_def saved_state_def same_cfg_def data_ok_def)

lemma pop_saved:
  assumes "rs_ok x d al (saved_state s pc type n)" and "data_ok x al s" and "data_ok x al t"
  shows "\<exists>s'. pop_state (saved_state s pc type n) t = Some s' \<and> data_ok x al s' \<and>
           same_cfg (s\<lparr>re_pc := pc\<rparr>) s'"
    and "\<exists>s'. pop_state1 (saved_state s pc type n) t = Some s' \<and> data_ok x al s' \<and>
           same_cfg (s\<lparr>re_pc := pc, re_capture := re_capture t\<rparr>) s'"
proof -
  obtain s' where s': "pop_state (saved_state s pc type n) t = Some s'" "data_ok x al s'"
    "back_at (saved_state s pc type n) s'" "re_capture s' = re_capture s"
    using pop_state_cases [OF assms(1,3)] by (auto simp: saved_state_def)
  from back_at_saved [OF s'(3) assms(2) s'(2)] s'
  show "\<exists>s'. pop_state (saved_state s pc type n) t = Some s' \<and> data_ok x al s' \<and>
      same_cfg (s\<lparr>re_pc := pc\<rparr>) s'" by auto
  obtain u where u: "pop_state1 (saved_state s pc type n) t = Some u" "data_ok x al u"
    "back_at (saved_state s pc type n) u" "re_capture u = re_capture t"
    using pop_state1_cases [OF assms(1,3)] by blast
  from back_at_saved [OF u(3) assms(2) u(2)] u
  show "\<exists>s'. pop_state1 (saved_state s pc type n) t = Some s' \<and> data_ok x al s' \<and>
      same_cfg (s\<lparr>re_pc := pc, re_capture := re_capture t\<rparr>) s'" by auto
qed

lemma same_cfg_wt:
  assumes "same_cfg s t" and "data_ok x al t" and "depth_at d (re_pc s) (re_stack_len s)"
  shows "re_wt x d al t"
  using assms by (simp add: re_wt_def same_cfg_def)

text \<open>How the saved state on top turns a result into the result below it.\<close>

lemma continues_drop:
  fixes R :: "'h realloc_func"
  assumes "continues x R Q K r'"
  shows "rs_type rs = RE_EXEC_STATE_SPLIT \<or> rs_type rs = RE_EXEC_STATE_GREEDY_QUANT \<Longrightarrow>
      r' = Some u \<Longrightarrow> continues x R Q (rs # K) (Some u)"
    and "rs_type rs = RE_EXEC_STATE_LOOKAHEAD \<Longrightarrow> r' = None \<Longrightarrow> continues x R Q (rs # K) None"
    and "rs_type rs = RE_EXEC_STATE_NEGATIVE_LOOKAHEAD \<Longrightarrow> r' = None \<Longrightarrow>
      continues x R Q (rs # K) (Some u)"
proof -
  have below: "finishes x R Q (re_end x False (r' \<noteq> None) t (k\<lparr>st_states := K\<rparr>))"
    if "st_states k = rs # K" "mem_ok x k" "data_ok x True t"
      "\<And>v. r' = Some v \<Longrightarrow> re_capture t = re_capture v" for t and k :: "'h re_stk"
    using continuesD [of x R Q "k\<lparr>st_states := K\<rparr>" r' t] assms that mem_ok_states [of x k K] by simp
  have step: "continues x R Q (rs # K) r"
    if "\<And>t (k :: 'h re_stk). st_states k = rs # K \<Longrightarrow>
        re_end x False (r \<noteq> None) t k = re_end x False (r' \<noteq> None) t (k\<lparr>st_states := K\<rparr>)"
      and "r' \<noteq> None \<Longrightarrow> r' = r" for r
    unfolding continues_def using below that by auto
  show "continues x R Q (rs # K) (Some u)"
    if "rs_type rs = RE_EXEC_STATE_SPLIT \<or> rs_type rs = RE_EXEC_STATE_GREEDY_QUANT" "r' = Some u"
    by (rule step) (auto simp: that(2) intro: re_end_drop(1) [OF _ that(1)])
  show "continues x R Q (rs # K) None" if "rs_type rs = RE_EXEC_STATE_LOOKAHEAD" "r' = None"
    by (rule step) (auto simp: that(2) intro: re_end_drop(2) [OF _ that(1)])
  show "continues x R Q (rs # K) (Some u)"
    if "rs_type rs = RE_EXEC_STATE_NEGATIVE_LOOKAHEAD" "r' = None"
    by (rule step) (auto simp: that(2) intro: re_end_drop(3) [OF _ that(1)])
qed

lemma continues_pop:
  fixes R :: "'h realloc_func"
  assumes "rs_ok x d True (saved_state s pc type n)" and "data_ok x True s"
  shows "type = RE_EXEC_STATE_SPLIT \<or> type = RE_EXEC_STATE_NEGATIVE_LOOKAHEAD \<Longrightarrow>
      (\<And>t k. same_cfg (s\<lparr>re_pc := pc\<rparr>) t \<Longrightarrow> data_ok x True t \<Longrightarrow> mem_ok x k \<Longrightarrow>
         st_states k = K \<Longrightarrow> finishes x R Q (Cont t k)) \<Longrightarrow>
      continues x R Q (saved_state s pc type n # K) None"
    and "type = RE_EXEC_STATE_LOOKAHEAD \<Longrightarrow>
      (\<And>t k. same_cfg (s\<lparr>re_pc := pc, re_capture := re_capture u\<rparr>) t \<Longrightarrow> data_ok x True t \<Longrightarrow>
         mem_ok x k \<Longrightarrow> st_states k = K \<Longrightarrow> finishes x R Q (Cont t k)) \<Longrightarrow>
      continues x R Q (saved_state s pc type n # K) (Some u)"
proof -
  let ?rs = "saved_state s pc type n"
  show "continues x R Q (?rs # K) None"
    if type: "type = RE_EXEC_STATE_SPLIT \<or> type = RE_EXEC_STATE_NEGATIVE_LOOKAHEAD"
      and go: "\<And>t k. same_cfg (s\<lparr>re_pc := pc\<rparr>) t \<Longrightarrow> data_ok x True t \<Longrightarrow> mem_ok x k \<Longrightarrow>
         st_states k = K \<Longrightarrow> finishes x R Q (Cont t k)"
    unfolding continues_def
  proof (intro allI impI)
    fix t and k :: "'h re_stk"
    assume k: "st_states k = ?rs # K" "mem_ok x k" and t: "data_ok x True t"
    obtain s' where s': "pop_state ?rs t = Some s'" "data_ok x True s'" "same_cfg (s\<lparr>re_pc := pc\<rparr>) s'"
      using pop_saved(1) [OF assms t] by blast
    have "re_end x False (None \<noteq> None) t k = Cont s' (k\<lparr>st_states := K\<rparr>)"
      using type s'(1) k(1) by (auto simp: re_end_def saved_state_def)
    then show "finishes x R Q (re_end x False (None \<noteq> None) t k)"
      using go [OF s'(3,2) mem_ok_states [OF k(2)]] k(1) by simp
  qed
  show "continues x R Q (?rs # K) (Some u)"
    if type: "type = RE_EXEC_STATE_LOOKAHEAD"
      and go: "\<And>t k. same_cfg (s\<lparr>re_pc := pc, re_capture := re_capture u\<rparr>) t \<Longrightarrow> data_ok x True t \<Longrightarrow>
         mem_ok x k \<Longrightarrow> st_states k = K \<Longrightarrow> finishes x R Q (Cont t k)"
    unfolding continues_def
  proof (intro allI impI)
    fix t and k :: "'h re_stk"
    assume k: "st_states k = ?rs # K" "mem_ok x k" and t: "data_ok x True t"
      and "\<forall>v. Some u = Some v \<longrightarrow> re_capture t = re_capture v"
    then have cap: "re_capture t = re_capture u" by simp
    obtain s' where s': "pop_state1 ?rs t = Some s'" "data_ok x True s'"
      "same_cfg (s\<lparr>re_pc := pc, re_capture := re_capture t\<rparr>) s'"
      using pop_saved(2) [OF assms t] by blast
    have "re_end x False (Some u \<noteq> None) t k = Cont s' (k\<lparr>st_states := K\<rparr>)"
      using type s'(1) k(1) by (auto simp: re_end_def saved_state_def)
    then show "finishes x R Q (re_end x False (Some u \<noteq> None) t k)"
      using go [OF _ s'(2) mem_ok_states [OF k(2)]] s'(3) k(1) cap by simp
  qed
qed

section \<open>The candidates of a simple quantifier\<close>

abbreviation steps_back :: "re_ctx \<Rightarrow> nat \<Rightarrow> nat list \<Rightarrow> bool" where
  "steps_back x n \<equiv>
     successively (\<lambda>a b. prev_chars (rc_cbuf_type x) (rc_cbuf x) n a = Some b)"

lemma steps_fwd_back:
  assumes "steps_fwd x n (p # ps)" and "pos_ok x True p"
  shows "steps_back x n (rev (p # ps))"
  using assms
proof (induction ps arbitrary: p)
  case (Cons q ps)
  then have g: "get_chars x n p = Some q" and "steps_fwd x n (q # ps)" by auto
  with Cons.IH get_chars_pos_ok [OF g] Cons.prems(2) have "steps_back x n (rev (q # ps))" by blast
  moreover have "prev_chars (rc_cbuf_type x) (rc_cbuf x) n q = Some p"
    using prev_get_chars [OF g] Cons.prems(2) by (auto simp: pos_ok_def)
  ultimately show ?case by (auto simp: successively_append_iff)
qed simp

lemma steps_fwd_total:
  "steps_fwd x n (p # ps) \<Longrightarrow> get_chars x (length ps * n) p = Some (last (p # ps))"
  by (induction ps arbitrary: p) (auto simp: get_chars_add)

lemma candidates:
  assumes "m \<le> length ps"
  shows "\<exists>cs. rev (drop m (p # ps)) = last (p # ps) # cs \<and> length cs = length ps - m"
proof -
  have "drop m (p # ps) \<noteq> []" using assms by simp
  then have "rev (drop m (p # ps)) = last (p # ps) # tl (rev (drop m (p # ps)))"
    using assms by (metis hd_Cons_tl hd_rev last_drop length_Cons le_imp_less_Suc rev_is_Nil_conv)
  then show ?thesis
    using assms by (intro exI [of _ "tl (rev (drop m (p # ps)))"]) simp
qed

lemma steps_back_take: "steps_back x n ps \<Longrightarrow> steps_back x n (take m ps)"
  using successively_append_iff [of _ "take m ps" "drop m ps"] by (auto simp del: successively_rev)

text \<open>The saved states while the candidate before \<open>cs\<close> is tried.\<close>

definition quant_states :: "re_cfg \<Rightarrow> nat \<Rightarrow> nat \<Rightarrow> nat list \<Rightarrow> re_state list \<Rightarrow> re_state list" where
  "quant_states s pc p cs K =
     (if cs = [] then K
      else saved_state (s\<lparr>re_cptr := p\<rparr>) pc RE_EXEC_STATE_GREEDY_QUANT (length cs) # K)"

lemma saved_state_same: "same_cfg s t \<Longrightarrow> saved_state t pc type n = saved_state s pc type n"
  by (simp add: saved_state_def same_cfg_def)

text \<open>\<open>quant_at x d pc s cc\<close>: the quantifier at \<open>pc\<close> repeats an atom of \<open>cc\<close> characters and
  goes on at the code of \<open>s\<close>.\<close>

definition quant_at :: "re_ctx \<Rightarrow> nat option list \<Rightarrow> nat \<Rightarrow> re_cfg \<Rightarrow> u32 \<Rightarrow> bool" where
  "quant_at x d pc s cc \<longleftrightarrow>
     depth_at d (re_pc s) (re_stack_len s) \<and> get_u32 (rc_bc x) (pc + 12) = Some cc \<and>
     get_u32 (rc_bc x) pc \<bind> re_jump (pc + 16) = Some (re_pc s)"

lemma next_candidate:
  assumes rs: "rs_ok x d True (saved_state (s\<lparr>re_cptr := p\<rparr>) pc RE_EXEC_STATE_GREEDY_QUANT (Suc (length cs)))"
    and q: "quant_at x d pc s cc" and prev: "prev_chars (rc_cbuf_type x) (rc_cbuf x) (unat cc) p = Some p'"
    and k: "st_states k = quant_states s pc p (p' # cs) K" and t: "data_ok x True t"
    and s: "length (re_stack s) = rc_stack_size_max x"
  shows "\<exists>u. re_end x False False t k = Cont u (k\<lparr>st_states := quant_states s pc p' cs K\<rparr>) \<and>
           data_ok x True u \<and> same_cfg (s\<lparr>re_cptr := p'\<rparr>) u \<and>
           (cs \<noteq> [] \<longrightarrow> rs_ok x d True (hd (quant_states s pc p' cs K)))"
proof -
  let ?rs = "saved_state (s\<lparr>re_cptr := p\<rparr>) pc RE_EXEC_STATE_GREEDY_QUANT (Suc (length cs))"
  let ?rs' = "?rs\<lparr>rs_cptr := p', rs_count := length cs\<rparr>"
  have rs': "?rs' = saved_state (s\<lparr>re_cptr := p'\<rparr>) pc RE_EXEC_STATE_GREEDY_QUANT (length cs)"
    by (simp add: saved_state_def)
  have fields: "rs_pc ?rs = pc" "rs_cptr ?rs = p" "rs_count ?rs = Suc (length cs)"
    "rs_type ?rs = RE_EXEC_STATE_GREEDY_QUANT" "rs_capture ?rs = re_capture s"
    by (simp_all add: saved_state_def)
  obtain u where u: "data_ok x True u" "re_capture u = re_capture s"
    "back_at (?rs\<lparr>rs_pc := re_pc s, rs_cptr := p'\<rparr>) u"
    "rs_ok x d True ?rs' = (cs \<noteq> [])"
    "quant_back x ?rs K t = Some (u, if cs = [] then K else ?rs' # K)"
  proof -
    obtain cc' v t' p'' u where u: "get_u32 (rc_bc x) (pc + 12) = Some cc'"
      "get_u32 (rc_bc x) pc = Some v" "re_jump (pc + 16) v = Some t'"
      "prev_chars (rc_cbuf_type x) (rc_cbuf x) (unat cc') p = Some p''"
      "data_ok x True u" "re_capture u = re_capture s" "back_at (?rs\<lparr>rs_pc := t', rs_cptr := p''\<rparr>) u"
      "rs_ok x d True (?rs\<lparr>rs_cptr := p'', rs_count := Suc (length cs) - 1\<rparr>) = (Suc (length cs) \<noteq> 1)"
      "quant_back x ?rs K t = Some (u, if Suc (length cs) = 1 then K
         else ?rs\<lparr>rs_cptr := p'', rs_count := Suc (length cs) - 1\<rparr> # K)"
      using quant_back_cases [OF rs t fields(4), of K] unfolding fields by blast
    have "t' = re_pc s" "p'' = p'"
      using u(1-4) q prev by (auto simp: quant_at_def)
    with u(5-) show thesis by (intro that [of u]) auto
  qed
  have "same_cfg (s\<lparr>re_cptr := p'\<rparr>) u"
    using u(1-3) s by (auto simp: back_at_def same_cfg_def saved_state_def data_ok_def)
  moreover have "re_end x False False t k = Cont u (k\<lparr>st_states := quant_states s pc p' cs K\<rparr>)"
    using k u(5) fields(4) by (simp add: re_end_def quant_states_def rs')
  ultimately show ?thesis
    using u(1,4) by (auto simp: quant_states_def rs')
qed

section \<open>The interpreter computes the evaluation\<close>

definition runs_as :: "re_ctx \<Rightarrow> nat option list \<Rightarrow> 'h realloc_func \<Rightarrow> re_cfg \<Rightarrow> re_cfg option \<Rightarrow> bool" where
  "runs_as x d R s r \<longleftrightarrow>
     (\<forall>t k Q. same_cfg s t \<longrightarrow> re_wt x d True t \<longrightarrow> stk_ok x d True k \<longrightarrow>
        continues x R Q (st_states k) r \<longrightarrow> finishes x R Q (Cont t k))"

definition tries_as ::
  "re_ctx \<Rightarrow> nat option list \<Rightarrow> 'h realloc_func \<Rightarrow> re_cfg \<Rightarrow> nat list \<Rightarrow> re_cfg option \<Rightarrow> bool" where
  "tries_as x d R s ps r \<longleftrightarrow>
     (ps = [] \<longrightarrow> r = None) \<and>
     (\<forall>p cs t k Q pc cc K. ps = p # cs \<longrightarrow> same_cfg (s\<lparr>re_cptr := p\<rparr>) t \<longrightarrow> re_wt x d True t \<longrightarrow>
        stk_ok x d True k \<longrightarrow> quant_at x d pc s cc \<longrightarrow> steps_back x (unat cc) ps \<longrightarrow>
        st_states k = quant_states s pc p cs K \<longrightarrow> continues x R Q K r \<longrightarrow> finishes x R Q (Cont t k))"

lemma runs_asD:
  "runs_as x d R s r \<Longrightarrow> same_cfg s t \<Longrightarrow> re_wt x d True t \<Longrightarrow> stk_ok x d True k \<Longrightarrow>
     continues x R Q (st_states k) r \<Longrightarrow> finishes x R Q (Cont t k)"
  by (auto simp: runs_as_def)

lemma tries_asD:
  "tries_as x d R s (p # cs) r \<Longrightarrow> same_cfg (s\<lparr>re_cptr := p\<rparr>) t \<Longrightarrow> re_wt x d True t \<Longrightarrow>
     stk_ok x d True k \<Longrightarrow> quant_at x d pc s cc \<Longrightarrow> steps_back x (unat cc) (p # cs) \<Longrightarrow>
     st_states k = quant_states s pc p cs K \<Longrightarrow> continues x R Q K r \<Longrightarrow> finishes x R Q (Cont t k)"
  by (auto simp: tries_as_def)

text \<open>A configuration like \<open>s\<close> makes the same step.\<close>

lemma step_like:
  assumes "ctx_ok x d" and "same_cfg s t" and "re_wt x d True t" and "re_step x s = Some ctl"
  obtains ctl' where "re_step x t = Some ctl'" and "same_ctl ctl ctl'" and "step_ok x d True ctl'"
proof -
  have "re_stack_len s \<le> length (re_stack s)"
    using assms(2,3) by (simp add: same_cfg_def re_wt_def data_ok_def)
  then obtain ctl' where "re_step x t = Some ctl'" "same_ctl ctl ctl'"
    using same_stepE [OF same_step [OF assms(2)] assms(4)] by blast
  with re_step_ok [OF assms(1,3)] that show thesis by auto
qed

lemma run_go:
  fixes R :: "'h realloc_func"
  assumes "ctx_ok x d" and "re_step x s = Some (Go s')" and "runs_as x d R s' r"
  shows "runs_as x d R s r"
  unfolding runs_as_def
proof (intro allI impI)
  fix t Q and k :: "'h re_stk"
  assume t: "same_cfg s t" "re_wt x d True t" and k: "stk_ok x d True k" "continues x R Q (st_states k) r"
  obtain t' where t': "re_step x t = Some (Go t')" "same_cfg s' t'" "re_wt x d True t'"
    by (rule step_like [OF assms(1) t assms(2)]) (auto simp: step_ok_def)
  show "finishes x R Q (Cont t k)"
    by (rule finishes_dispatch [OF t'(1)]) (use runs_asD [OF assms(3) t'(2,3) k] in auto)
qed

lemma run_match:
  fixes R :: "'h realloc_func"
  assumes "ctx_ok x d" and "re_step x s = Some (Matched s')"
  shows "runs_as x d R s (Some s')"
  unfolding runs_as_def
proof (intro allI impI)
  fix t Q and k :: "'h re_stk"
  assume t: "same_cfg s t" "re_wt x d True t" and k: "stk_ok x d True k" "continues x R Q (st_states k) (Some s')"
  obtain t' where t': "re_step x t = Some (Matched t')" "same_cfg s' t'" "data_ok x True t'"
    by (rule step_like [OF assms(1) t assms(2)]) (auto simp: step_ok_def)
  have "finishes x R Q (re_end x False (Some s' \<noteq> None) t' k)"
    by (rule continuesD [OF k(2)]) (use k(1) t' in \<open>auto simp: stk_ok_def same_cfg_def\<close>)
  then show "finishes x R Q (Cont t k)"
    by (intro finishes_dispatch [OF t'(1)]) auto
qed

lemma run_no_match:
  fixes R :: "'h realloc_func"
  assumes "ctx_ok x d" and "re_step x s = Some No_match"
  shows "runs_as x d R s None"
  unfolding runs_as_def
proof (intro allI impI)
  fix t Q and k :: "'h re_stk"
  assume t: "same_cfg s t" "re_wt x d True t" and k: "stk_ok x d True k" "continues x R Q (st_states k) None"
  have t': "re_step x t = Some No_match"
    by (rule step_like [OF assms(1) t assms(2)]) auto
  have "finishes x R Q (re_end x False (None \<noteq> (None :: re_cfg option)) t k)"
    by (rule continuesD [OF k(2)]) (use k(1) t in \<open>auto simp: stk_ok_def re_wt_def\<close>)
  then show "finishes x R Q (Cont t k)"
    by (intro finishes_dispatch [OF t']) auto
qed

text \<open>Opcodes that save a state: the run of \<open>s'\<close> on top of it, then \<open>after\<close>.\<close>

lemma run_push:
  fixes R :: "'h realloc_func"
  assumes ctx: "ctx_ok x d" and R: "allocator R"
    and step: "re_step x s = Some (Push type pc s')" and run: "runs_as x d R s' r"
    and after: "\<And>t' K Q. same_cfg s' t' \<Longrightarrow> data_ok x True t' \<Longrightarrow> depth_at d pc (re_stack_len t') \<Longrightarrow>
      rs_ok x d True (saved_state t' pc type 0) \<Longrightarrow> list_all (rs_ok x d True) K \<Longrightarrow>
      continues x R Q K r' \<Longrightarrow> continues x R Q (saved_state t' pc type 0 # K) r"
  shows "runs_as x d R s r'"
  unfolding runs_as_def
proof (intro allI impI)
  fix t Q and k :: "'h re_stk"
  assume t: "same_cfg s t" "re_wt x d True t" and k: "stk_ok x d True k" "continues x R Q (st_states k) r'"
  obtain t' where t': "re_step x t = Some (Push type pc t')" "same_cfg s' t'" "re_wt x d True t'"
    "depth_at d pc (re_stack_len t')" "type \<noteq> RE_EXEC_STATE_GREEDY_QUANT"
    by (rule step_like [OF ctx t step]) (auto simp: step_ok_def)
  have data: "data_ok x True t'" using t'(3) by (simp add: re_wt_def)
  have rs: "rs_ok x d True (saved_state t' pc type 0)" using saved_state_ok t'(3-5) by blast
  have K: "list_all (rs_ok x d True) (st_states k)" "mem_ok x k" using k(1) by (auto simp: stk_ok_def)
  have "finishes x R Q (Cont t' k')"
    if "mem_ok x k'" "st_states k' = saved_state t' pc type 0 # st_states k" for k'
  proof (rule runs_asD [OF run t'(2,3)])
    show "stk_ok x d True k'" using that K rs by (simp add: stk_ok_def)
    show "continues x R Q (st_states k') r"
      using after [OF t'(2) data t'(4) rs K(1) k(2)] that(2) by simp
  qed
  then have "finishes x R Q (re_push_state x R pc type 0 t' k)"
    by (rule finishes_push [OF ctx data K(2) R])
  then show "finishes x R Q (Cont t k)"
    by (intro finishes_dispatch [OF t'(1)]) auto
qed

text \<open>Resuming after the saved state was popped.\<close>

lemma resume_saved:
  assumes "runs_as x d R u r'" and "same_cfg s' t'" and "depth_at d (re_pc u) (re_stack_len t')"
    and "list_all (rs_ok x d True) K" and "continues x R Q K r'"
    and "same_cfg (t'\<lparr>re_pc := re_pc u, re_capture := re_capture u\<rparr>) t"
    and "u = s'\<lparr>re_pc := re_pc u, re_capture := re_capture u\<rparr>"
    and "data_ok x True t" and "mem_ok x k" and "st_states k = K"
  shows "finishes x R Q (Cont t k)"
proof (rule runs_asD [OF assms(1)])
  have "same_cfg u (t'\<lparr>re_pc := re_pc u, re_capture := re_capture u\<rparr>)"
    by (subst assms(7)) (intro same_cfg_updates assms(2))
  then show "same_cfg u t" using assms(6) by (rule same_cfg_trans)
  have "re_stack_len t = re_stack_len t'" "re_pc t = re_pc u"
    using assms(6) by (auto simp: same_cfg_def)
  then show "re_wt x d True t" using assms(3,8) by (simp add: re_wt_def)
qed (use assms in \<open>auto simp: stk_ok_def\<close>)

lemma saved_type [simp]: "rs_type (saved_state s pc type n) = type"
  by (simp add: saved_state_def)

text \<open>Both alternatives of a state that is resumed with the captures it was saved with.\<close>

lemma after_pop:
  fixes R :: "'h realloc_func"
  assumes "runs_as x d R (s'\<lparr>re_pc := pc\<rparr>) r'" and "same_cfg s' t'" and "data_ok x True t'"
    and "depth_at d pc (re_stack_len t')" and "rs_ok x d True (saved_state t' pc type 0)"
    and "list_all (rs_ok x d True) K" and "continues x R Q K r'"
    and "type = RE_EXEC_STATE_SPLIT \<or> type = RE_EXEC_STATE_NEGATIVE_LOOKAHEAD"
  shows "continues x R Q (saved_state t' pc type 0 # K) None"
proof (rule continues_pop(1) [OF assms(5,3,8)])
  fix t and k :: "'h re_stk"
  assume t: "same_cfg (t'\<lparr>re_pc := pc\<rparr>) t" "data_ok x True t" "mem_ok x k" "st_states k = K"
  have "re_capture s' = re_capture t'" using assms(2) by (simp add: same_cfg_def)
  with t show "finishes x R Q (Cont t k)"
    by (intro resume_saved [OF assms(1,2) _ assms(6,7)]) (use assms(4) in auto)
qed

lemma after_look:
  fixes R :: "'h realloc_func"
  assumes "runs_as x d R (s'\<lparr>re_pc := pc, re_capture := re_capture u\<rparr>) r'" and "same_cfg s' t'"
    and "data_ok x True t'" and "depth_at d pc (re_stack_len t')"
    and "rs_ok x d True (saved_state t' pc RE_EXEC_STATE_LOOKAHEAD 0)"
    and "list_all (rs_ok x d True) K" and "continues x R Q K r'"
  shows "continues x R Q (saved_state t' pc RE_EXEC_STATE_LOOKAHEAD 0 # K) (Some u)"
proof (rule continues_pop(2) [OF assms(5,3) refl])
  fix t and k :: "'h re_stk"
  assume "same_cfg (t'\<lparr>re_pc := pc, re_capture := re_capture u\<rparr>) t" "data_ok x True t" "mem_ok x k"
    "st_states k = K"
  then show "finishes x R Q (Cont t k)"
    by (intro resume_saved [OF assms(1,2) _ assms(6,7)]) (use assms(4) in auto)
qed

lemma quant_states_type: "rs_type (hd (quant_states s pc p (c # cs) K)) = RE_EXEC_STATE_GREEDY_QUANT"
  by (simp add: quant_states_def)

lemma run_try_first:
  fixes R :: "'h realloc_func"
  assumes "runs_as x d R (s\<lparr>re_cptr := p\<rparr>) (Some u)"
  shows "tries_as x d R s (p # ps) (Some u)"
  unfolding tries_as_def
proof (intro conjI allI impI)
  fix p' cs t Q pc cc K and k :: "'h re_stk"
  assume cs: "p # ps = p' # cs" and t: "same_cfg (s\<lparr>re_cptr := p'\<rparr>) t" "re_wt x d True t"
    and k: "stk_ok x d True k" "st_states k = quant_states s pc p' cs K" and c: "continues x R Q K (Some u)"
  have "continues x R Q (st_states k) (Some u)"
    using c continues_drop(1) [OF c] by (simp add: k(2) quant_states_def)
  then show "finishes x R Q (Cont t k)"
    using runs_asD [OF assms _ t(2) k(1)] t(1) cs by simp
qed simp

lemma run_try_next:
  fixes R :: "'h realloc_func"
  assumes first: "runs_as x d R (s\<lparr>re_cptr := p\<rparr>) None" and rest: "tries_as x d R s ps r"
  shows "tries_as x d R s (p # ps) r"
  unfolding tries_as_def
proof (intro conjI allI impI)
  fix p' cs t Q pc cc K and k :: "'h re_stk"
  assume cs: "p # ps = p' # cs" and t: "same_cfg (s\<lparr>re_cptr := p'\<rparr>) t" "re_wt x d True t"
    and k: "stk_ok x d True k" "st_states k = quant_states s pc p' cs K"
    and q: "quant_at x d pc s cc" and steps: "steps_back x (unat cc) (p # ps)" and c: "continues x R Q K r"
  have stack: "length (re_stack s) = rc_stack_size_max x" "re_stack_len t = re_stack_len s"
    using t by (auto simp: same_cfg_def re_wt_def data_ok_def)
  have "continues x R Q (st_states k) None"
    unfolding continues_def
  proof (intro allI impI)
    fix t' and k' :: "'h re_stk"
    assume k': "st_states k' = st_states k" "mem_ok x k'" and t': "data_ok x True t'"
    show "finishes x R Q (re_end x False (None \<noteq> (None :: re_cfg option)) t' k')"
    proof (cases ps)
      case Nil
      then show ?thesis
        using continuesD [of x R Q k' r t'] rest c k k' t' cs
        by (simp add: tries_as_def quant_states_def)
    next
      case (Cons q' qs)
      let ?rs = "saved_state (s\<lparr>re_cptr := p\<rparr>) pc RE_EXEC_STATE_GREEDY_QUANT (Suc (length qs))"
      have "list_all (rs_ok x d True) (?rs # K)"
        using k cs Cons by (auto simp: stk_ok_def quant_states_def)
      moreover have "prev_chars (rc_cbuf_type x) (rc_cbuf x) (unat cc) p = Some q'"
        using steps Cons by simp
      ultimately obtain v where v: "re_end x False False t' k' =
          Cont v (k'\<lparr>st_states := quant_states s pc q' qs K\<rparr>)"
        "data_ok x True v" "same_cfg (s\<lparr>re_cptr := q'\<rparr>) v"
        "qs \<noteq> [] \<Longrightarrow> rs_ok x d True (hd (quant_states s pc q' qs K))"
        using next_candidate [of x d p s pc qs cc q' k' K t'] q k k' t' cs Cons stack by auto
      have "stk_ok x d True (k'\<lparr>st_states := quant_states s pc q' qs K\<rparr>)"
        using v(4) \<open>list_all (rs_ok x d True) (?rs # K)\<close> k'(2) k(2) cs Cons k'(1)
        by (auto simp: stk_ok_def quant_states_def mem_ok_def)
      moreover have "re_wt x d True v"
        using q v(2,3) by (simp add: quant_at_def re_wt_def same_cfg_def)
      ultimately show ?thesis
        using tries_asD [OF rest [unfolded Cons] v(3) _ _ q _ _ c] v(1) steps Cons by simp
    qed
  qed
  then show "finishes x R Q (Cont t k)"
    using runs_asD [OF first _ t(2) k(1)] t(1) cs by simp
qed simp

text \<open>After the loop: \<open>t\<close> is at the end of the last of the matches \<open>ps\<close> of the atom.\<close>

lemma after_quant:
  fixes R :: "'h realloc_func"
  assumes ctx: "ctx_ok x d" and R: "allocator R"
    and tries: "tries_as x d R s (rev (drop quant_min (p # ps))) r"
    and t: "same_cfg (s\<lparr>re_cptr := last (p # ps)\<rparr>) t" "re_wt x d True t"
    and k: "stk_ok x d True k" "continues x R Q (st_states k) r"
    and at: "quant_at x d (pc1 - 16) s cc" and q: "quant_ok (rc_bc x) d (pc1 - 16) (re_stack_len t)"
    and steps: "steps_fwd x (unat cc) (p # ps)" and p: "pos_ok x True p"
  shows "finishes x R Q (re_after_quant x R False quant_min pc1 (length ps) t k)"
proof (cases "length ps < quant_min")
  case True
  then have "r = None" using tries by (simp add: tries_as_def)
  then show ?thesis
    using True continuesD [OF k(2), of t] k(1) t(2)
    by (simp add: re_after_quant_def stk_ok_def re_wt_def)
next
  case False
  then obtain cs where cs: "rev (drop quant_min (p # ps)) = last (p # ps) # cs"
    "length cs = length ps - quant_min"
    using candidates [of quant_min ps] by (auto simp: not_less)
  have "steps_back x (unat cc) (rev (drop quant_min (p # ps)))"
    using steps_back_take [OF steps_fwd_back [OF steps p], of "Suc (length ps) - quant_min"]
    by (simp add: rev_drop)
  then have go: "finishes x R Q (Cont t k')"
    if "stk_ok x d True k'" "st_states k' = quant_states s (pc1 - 16) (last (p # ps)) cs (st_states k)"
    for k'
    unfolding cs(1) using tries_asD [OF tries [unfolded cs(1)] t that(1) at _ that(2) k(2)] by blast
  show ?thesis
  proof (cases "cs = []")
    case True
    then show ?thesis
      using go [of k] k(1) cs(2) False by (simp add: re_after_quant_def quant_states_def)
  next
    case nonempty: False
    then have less: "quant_min < length ps" using cs(2) by (cases cs) auto
    let ?rs = "saved_state t (pc1 - 16) RE_EXEC_STATE_GREEDY_QUANT (length ps - quant_min)"
    have "get_chars x (length ps * unat cc) p = Some (re_cptr t)"
      using steps_fwd_total [OF steps] t(1) by (simp add: same_cfg_def)
    then have rs: "rs_ok x d True ?rs"
      using saved_quant_ok [OF t(2) q _ _ _ less] at p by (auto simp: quant_at_def pos_ok_def)
    have saved: "?rs # st_states k = quant_states s (pc1 - 16) (last (p # ps)) cs (st_states k)"
      using nonempty cs(2) saved_state_same [OF t(1)] by (simp add: quant_states_def)
    have "finishes x R Q
        (re_push_state x R (pc1 - 16) RE_EXEC_STATE_GREEDY_QUANT (length ps - quant_min) t k)"
    proof (rule finishes_push [OF ctx _ _ R])
      fix k' :: "'h re_stk"
      assume k': "mem_ok x k'" "st_states k' = ?rs # st_states k"
      then have "stk_ok x d True k'" using rs k(1) by (simp add: stk_ok_def)
      then show "finishes x R Q (Cont t k')" using go k'(2) unfolding saved by blast
    qed (use t(2) k(1) in \<open>auto simp: re_wt_def stk_ok_def\<close>)
    then show ?thesis using less by (auto simp: re_after_quant_def)
  qed
qed

lemma run_quant:
  fixes R :: "'h realloc_func"
  assumes ctx: "ctx_ok x d" and R: "allocator R"
    and step: "re_step x s = Some (Quant quant_min quant_max pc1 s')"
    and reps: "atom_reps x pc1 quant_max 0 s' ps"
    and tries: "tries_as x d R s' (rev (drop quant_min (re_cptr s' # ps))) r"
    and stack: "stack_wf s'"
  shows "runs_as x d R s r"
  unfolding runs_as_def
proof (intro allI impI)
  fix t Q and k :: "'h re_stk"
  assume t: "same_cfg s t" "re_wt x d True t" and k: "stk_ok x d True k" "continues x R Q (st_states k) r"
  obtain t' where t': "re_step x t = Some (Quant quant_min quant_max pc1 t')" "same_cfg s' t'"
    "step_ok x d True (Quant quant_min quant_max pc1 t')"
    by (rule step_like [OF ctx t step]) auto
  have wt: "re_wt x d True t'" "data_ok x True t'" "16 \<le> pc1"
    and q: "quant_ok (rc_bc x) d (pc1 - 16) (re_stack_len t')"
    and tgt: "get_u32 (rc_bc x) (pc1 - 16) \<bind> re_jump pc1 = Some (re_pc t')"
    using t'(3) by (auto simp: step_ok_def re_wt_def)
  obtain e cc where e: "rd (rc_bc x) e = Some 10" "get_u32 (rc_bc x) (pc1 - 16 + 12) = Some cc"
    "re_atom_chars (rc_bc x) pc1 e = Some (unat cc)"
    using quant_okE [OF q] wt(3) by (metis le_add_diff_inverse2)
  have same: "re_cptr s' = re_cptr t'" "re_pc s' = re_pc t'" "re_stack_len s' = re_stack_len t'"
    using t'(2) by (auto simp: same_cfg_def)
  let ?t = "t'\<lparr>re_cptr := last (re_cptr t' # ps)\<rparr>"
  from re_quant_reps [OF e(3,1) atom_reps_same [OF reps t'(2) stack] wt(2), of R k]
  obtain N where steps: "steps_fwd x (unat cc) (re_cptr t' # ps)"
    and loop: "\<forall>f\<ge>N. re_quant x R f pc1 quant_max 0 t' k = Done (Some (length ps), ?t, k)"
    by auto
  have pos: "pos_ok x True (re_cptr t')" using wt(2) by (simp add: data_ok_def)
  have at: "quant_at x d (pc1 - 16) s' cc"
    using wt(1,3) e(2) tgt by (simp add: quant_at_def same re_wt_def)
  have "re_wt x d True ?t"
    using wt(1) get_chars_pos_ok [OF steps_fwd_total [OF steps] pos] by (simp add: re_wt_def data_ok_def)
  then have "finishes x R Q (re_after_quant x R False quant_min pc1 (length ps) ?t k)"
    using after_quant [OF ctx R tries [unfolded same(1)] same_cfg_updates(2) [OF t'(2)] _ k at _ steps pos] q
    by simp
  then show "finishes x R Q (Cont t k)" by (rule finishes_quant [OF t'(1) loop])
qed

theorem eval_run:
  assumes ctx: "ctx_ok x d" and R: "allocator R"
  shows "re_eval x s r \<Longrightarrow> stack_wf s \<Longrightarrow> runs_as x d R s r"
    and "re_try x s ps r \<Longrightarrow> stack_wf s \<Longrightarrow> tries_as x d R s ps r"
proof (induction rule: re_eval_re_try.inducts)
  case (eval_go s s' r)
  then show ?case using run_go [OF ctx] re_step_stack_wf by blast
next
  case (eval_match s s')
  then show ?case using run_match [OF ctx] by blast
next
  case (eval_no_match s)
  then show ?case using run_no_match [OF ctx] by blast
next
  case (eval_split_first s pc s' t)
  then show ?case
    by (intro run_push [OF ctx R eval_split_first(1), of "Some t"] continues_drop(1))
      (auto dest: re_step_push_wf)
next
  case (eval_split_second s pc s' r)
  then have h: "runs_as x d R s' None" "runs_as x d R (s'\<lparr>re_pc := pc\<rparr>) r"
    using re_step_push_wf [OF eval_split_second(1)] by (auto simp: stack_wf_def)
  show ?case
    by (rule run_push [OF ctx R eval_split_second(1) h(1)]) (rule after_pop [OF h(2)]; auto)
next
  case (eval_look s pc s' t r)
  then have h: "runs_as x d R s' (Some t)" "runs_as x d R (s'\<lparr>re_pc := pc, re_capture := re_capture t\<rparr>) r"
    using re_step_push_wf [OF eval_look(1)] by (auto simp: stack_wf_def)
  show ?case
    by (rule run_push [OF ctx R eval_look(1) h(1)]) (rule after_look [OF h(2)]; auto)
next
  case (eval_look_fails s pc s')
  then show ?case
    by (intro run_push [OF ctx R eval_look_fails(1), of None] continues_drop(2))
      (auto dest: re_step_push_wf)
next
  case (eval_negative s pc s' r)
  then have h: "runs_as x d R s' None" "runs_as x d R (s'\<lparr>re_pc := pc\<rparr>) r"
    using re_step_push_wf [OF eval_negative(1)] by (auto simp: stack_wf_def)
  show ?case
    by (rule run_push [OF ctx R eval_negative(1) h(1)]) (rule after_pop [OF h(2)]; auto)
next
  case (eval_negative_fails s pc s' t)
  then show ?case
    by (intro run_push [OF ctx R eval_negative_fails(1), of "Some t"] continues_drop(3))
      (auto dest: re_step_push_wf)
next
  case (eval_quant s quant_min quant_max pc1 s' ps r)
  then have "stack_wf s'" using re_step_quant_wf by blast
  with eval_quant show ?case using run_quant [OF ctx R] by blast
next
  case (try_none s)
  then show ?case by (simp add: tries_as_def)
next
  case (try_first s p t ps)
  then show ?case by (intro run_try_first) (simp add: stack_wf_def)
next
  case (try_next s p ps r)
  then show ?case by (intro run_try_next) (simp_all add: stack_wf_def)
qed

end
