(* ===== verification/RegexpTotal.thy ===== *)
theory RegexpTotal
  imports RegexpRun
begin

text \<open>
  Termination of the backtracking evaluation.  The certificate is a rank for every instruction:
  an instruction that does not consume a character goes to instructions of a smaller rank,
  so every cycle of the bytecode consumes one (as in the loops of the compiler whose body always
  advances, and the search loop in front of a non-sticky expression).  Code that moves backwards
  (\<^verbatim>\<open>REOP_prev\<close>, used by lookbehind assertions) has no rank.
\<close>

section \<open>Ranks\<close>

definition jump_below :: "u8 list \<Rightarrow> nat list \<Rightarrow> nat \<Rightarrow> nat \<Rightarrow> bool" where
  "jump_below bc rk pc n =
     (case do { val \<leftarrow> get_u32 bc pc; re_jump (pc + 4) val } of
        None \<Rightarrow> False | Some t \<Rightarrow> rk ! t < n)"

definition quant_below :: "u8 list \<Rightarrow> nat list \<Rightarrow> nat \<Rightarrow> nat \<Rightarrow> bool" where
  "quant_below bc rk pc n =
     (case do { next_pos \<leftarrow> get_u32 bc pc; char_count \<leftarrow> get_u32 bc (pc + 12);
                t \<leftarrow> re_jump (pc + 16) next_pos; Some (char_count, t) } of
        None \<Rightarrow> False | Some (char_count, t) \<Rightarrow> char_count \<noteq> 0 \<and> rk ! t < n)"

definition re_op_ranked :: "u8 list \<Rightarrow> nat list \<Rightarrow> nat \<Rightarrow> nat \<Rightarrow> reop \<Rightarrow> bool" where
  "re_op_ranked bc rk pc n op =
     (case op of
        REOP_match \<Rightarrow> True | REOP_char \<Rightarrow> True | REOP_char32 \<Rightarrow> True | REOP_dot \<Rightarrow> True
      | REOP_any \<Rightarrow> True | REOP_range \<Rightarrow> True | REOP_range32 \<Rightarrow> True
      | REOP_line_start \<Rightarrow> rk ! pc < n | REOP_line_end \<Rightarrow> rk ! pc < n
      | REOP_word_boundary \<Rightarrow> rk ! pc < n | REOP_not_word_boundary \<Rightarrow> rk ! pc < n
      | REOP_drop \<Rightarrow> rk ! pc < n | REOP_push_char_pos \<Rightarrow> rk ! pc < n
      | REOP_save_start \<Rightarrow> rk ! (pc + 1) < n | REOP_save_end \<Rightarrow> rk ! (pc + 1) < n
      | REOP_back_reference \<Rightarrow> rk ! (pc + 1) < n | REOP_save_reset \<Rightarrow> rk ! (pc + 2) < n
      | REOP_push_i32 \<Rightarrow> rk ! (pc + 4) < n | REOP_goto \<Rightarrow> jump_below bc rk pc n
      | REOP_split_goto_first \<Rightarrow> jump_below bc rk pc n \<and> rk ! (pc + 4) < n
      | REOP_split_next_first \<Rightarrow> jump_below bc rk pc n \<and> rk ! (pc + 4) < n
      | REOP_lookahead \<Rightarrow> jump_below bc rk pc n \<and> rk ! (pc + 4) < n
      | REOP_negative_lookahead \<Rightarrow> jump_below bc rk pc n \<and> rk ! (pc + 4) < n
      | REOP_loop \<Rightarrow> jump_below bc rk pc n \<and> rk ! (pc + 4) < n
      | REOP_bne_char_pos \<Rightarrow> jump_below bc rk pc n \<and> rk ! (pc + 4) < n
      | REOP_simple_greedy_quant \<Rightarrow> quant_below bc rk pc n
      | _ \<Rightarrow> False)"

definition re_ranked :: "u8 list \<Rightarrow> nat option list \<Rightarrow> nat list \<Rightarrow> bool" where
  "re_ranked bc d rk \<longleftrightarrow>
     list_all (\<lambda>pc. d ! pc = None \<or>
       (case reop_of (bc ! pc) of None \<Rightarrow> False
        | Some op \<Rightarrow> re_op_ranked bc rk (pc + 1) (rk ! pc) op)) [0..<length bc]"

section \<open>Every step consumes a character or lowers the rank\<close>

definition lowers :: "nat list \<Rightarrow> nat \<Rightarrow> re_cfg \<Rightarrow> re_cfg \<Rightarrow> bool" where
  "lowers rk n s t \<longleftrightarrow>
     re_cptr s < re_cptr t \<or> re_cptr s \<le> re_cptr t \<and> rk ! re_pc t < n"

definition ctl_lowers :: "u8 list \<Rightarrow> nat list \<Rightarrow> nat \<Rightarrow> re_cfg \<Rightarrow> re_ctl \<Rightarrow> bool" where
  "ctl_lowers bc rk n s ctl =
     (case ctl of
        Go t \<Rightarrow> lowers rk n s t
      | Push type pc t \<Rightarrow> re_cptr t = re_cptr s \<and> rk ! re_pc t < n \<and> rk ! pc < n
      | Quant quant_min quant_max pc1 t \<Rightarrow>
          re_cptr t = re_cptr s \<and> rk ! re_pc t < n \<and> get_u32 bc (pc1 - 16 + 12) \<noteq> Some 0
      | _ \<Rightarrow> True)"

lemma re_get_char_gt: "re_get_char x p e = Some (c, q) \<Longrightarrow> p < q"
  by (auto simp: re_get_char_def dest: get_char_advances)

lemma back_ref_loop_ge:
  "back_ref_loop x p1 e p = Some (Some q) \<Longrightarrow> p \<le> q"
proof (induction x p1 e p rule: back_ref_loop.induct)
  case (1 x p1 e p)
  then show ?case
    by (auto simp: back_ref_loop.simps [of x p1] bind_eq_Some_conv split: if_splits
        dest!: re_get_char_gt) fastforce
qed

lemma re_back_reference_ge:
  assumes "re_back_reference x False v s = Some (Go t)"
  shows "re_cptr s \<le> re_cptr t \<and> re_pc t = re_pc s"
proof (cases "rc_capture_count x \<le> v")
  case True
  then show ?thesis using assms by (simp add: re_back_reference_def)
next
  case False
  then obtain y z where "rd (re_capture s) (2 * v) = Some y" "rd (re_capture s) (2 * v + 1) = Some z"
    using assms by (auto simp: re_back_reference_def bind_eq_Some_conv)
  with assms False show ?thesis
    by (cases y; cases z)
      (auto simp: re_back_reference_def bind_eq_Some_conv back_ref_loop_ge split: option.splits)
qed

lemma re_push_fields:
  "re_push v s = Some t \<Longrightarrow> re_cptr t = re_cptr s \<and> re_pc t = re_pc s"
  by (auto simp: re_push_def bind_eq_Some_conv)

lemma re_op_lowers:
  assumes "re_op_ranked (rc_bc x) rk (re_pc s) n op" and "re_op x op s = Some ctl"
  shows "ctl_lowers (rc_bc x) rk n s ctl"
proof (cases op)
  case REOP_back_reference
  obtain b :: u8 where b: "re_back_reference x False (unat b) (s\<lparr>re_pc := re_pc s + 1\<rparr>) = Some ctl"
    using assms(2) unfolding REOP_back_reference re_op.simps bind_eq_Some_conv by blast
  have "\<nexists>a b c. ctl = Push a b c" "\<nexists>a b c e. ctl = Quant a b c e"
    using b by (auto simp: re_back_reference_def bind_eq_Some_conv split: if_splits option.splits)
  with b re_back_reference_ge [of x "unat b" "s\<lparr>re_pc := re_pc s + 1\<rparr>"] REOP_back_reference assms(1)
  show ?thesis
    by (cases ctl) (auto simp: ctl_lowers_def lowers_def re_op_ranked_def)
qed (use assms in \<open>auto simp: re_op_ranked_def ctl_lowers_def lowers_def bind_eq_Some_conv Let_def
    jump_below_def quant_below_def re_test_char_def re_any_def re_line_start_def re_line_end_def
    re_word_boundary_def re_range_def dest!: re_get_char_gt re_push_fields
    split: if_splits option.splits\<close>)

lemma re_step_lowers:
  assumes "re_ranked (rc_bc x) d rk" and "ctx_ok x d" and "re_wt x d al s" and "re_step x s = Some ctl"
  shows "ctl_lowers (rc_bc x) rk (rk ! re_pc s) s ctl"
proof -
  have s: "re_pc s < length (rc_bc x)" "d ! re_pc s \<noteq> None"
    using assms(2,3) by (auto simp: re_wt_def depth_at_def ctx_ok_def re_code_ok_def)
  obtain op where op: "reop_of (rc_bc x ! re_pc s) = Some op"
    "re_op x op (s\<lparr>re_pc := re_pc s + 1\<rparr>) = Some ctl"
    using assms(4) s(1) by (auto simp: re_step_def rd_Some bind_eq_Some_conv)
  then have "re_op_ranked (rc_bc x) rk (re_pc s + 1) (rk ! re_pc s) op"
    using assms(1) s by (force simp: re_ranked_def list_all_iff)
  then have "ctl_lowers (rc_bc x) rk (rk ! re_pc s) (s\<lparr>re_pc := re_pc s + 1\<rparr>) ctl"
    using re_op_lowers [of x rk "s\<lparr>re_pc := re_pc s + 1\<rparr>"] op(2) by simp
  then show ?thesis by (cases ctl) (auto simp: ctl_lowers_def lowers_def)
qed

section \<open>The evaluation exists\<close>

lemma atom_reps_exist:
  assumes "re_atom_chars (rc_bc x) pc1 e = Some n" and "rd (rc_bc x) e = Some 10" and "0 < n"
    and "data_ok x al s"
  shows "\<exists>ps. atom_reps x pc1 quant_max q s ps \<and> (\<forall>p\<in>set ps. re_cptr s \<le> p \<and> pos_ok x al p)"
  using assms(4)
proof (induction "cbuf_end x - re_cptr s" arbitrary: s q rule: less_induct)
  case less
  obtain res s' where atom: "atom_result x n (s\<lparr>re_pc := pc1\<rparr>) res s'"
    using atom_run [OF assms(1,2) data_ok_moves(1) [OF less.prems], of pc1
        "undefined :: unit realloc_func" undefined] by auto
  show ?case
  proof (cases "res = Re_match")
    case False
    then have "straight_eval x (s\<lparr>re_pc := pc1\<rparr>) None" using atom by (simp add: atom_result_def)
    then show ?thesis using reps_stop by fastforce
  next
    case True
    then have m: "straight_eval x (s\<lparr>re_pc := pc1\<rparr>) (Some s')"
      "get_chars x n (re_cptr s) = Some (re_cptr s')"
      using atom by (auto simp: atom_result_def)
    let ?t = "s\<lparr>re_cptr := re_cptr s'\<rparr>"
    have pos: "pos_ok x al (re_cptr s')"
      using get_chars_pos_ok [OF m(2)] less.prems by (simp add: data_ok_def)
    have gt: "re_cptr s < re_cptr s'" using get_chars_mono [OF m(2)] assms(3) by simp
    show ?thesis
    proof (cases "quant_max \<le> q + 1 \<and> quant_max \<noteq> 2 ^ 31 - 1")
      case True
      with reps_full [OF m(1)] pos gt show ?thesis by fastforce
    next
      case False
      have "cbuf_end x - re_cptr ?t < cbuf_end x - re_cptr s"
        using gt conjunct1 [OF pos [unfolded pos_ok_def]] by simp
      moreover have "data_ok x al ?t" using less.prems pos by (simp add: data_ok_def)
      ultimately obtain ps where "atom_reps x pc1 quant_max (q + 1) ?t ps"
        "\<forall>p\<in>set ps. re_cptr ?t \<le> p \<and> pos_ok x al p"
        using less.hyps by blast
      with reps_more [OF m(1) False] pos gt show ?thesis by fastforce
    qed
  qed
qed

definition evaluates :: "re_ctx \<Rightarrow> bool \<Rightarrow> re_cfg \<Rightarrow> bool" where
  "evaluates x al s \<longleftrightarrow> (\<exists>r. re_eval x s r \<and> (\<forall>t. r = Some t \<longrightarrow> data_ok x al t))"

lemma try_exists:
  assumes "\<And>p. p \<in> set ps \<Longrightarrow> evaluates x al (s\<lparr>re_cptr := p\<rparr>)"
  shows "\<exists>r. re_try x s ps r \<and> (\<forall>t. r = Some t \<longrightarrow> data_ok x al t)"
  using assms
proof (induction ps)
  case Nil
  then show ?case by (intro exI [of _ None]) (simp add: try_none)
next
  case (Cons p ps)
  from Cons.prems [of p] obtain r where
    r: "re_eval x (s\<lparr>re_cptr := p\<rparr>) r" "\<forall>t. r = Some t \<longrightarrow> data_ok x al t"
    by (auto simp: evaluates_def)
  show ?case
  proof (cases r)
    case None
    then show ?thesis using r Cons try_next [of x p s ps] by auto
  next
    case (Some t)
    then show ?thesis using r try_first by (intro exI [of _ "Some t"]) auto
  qed
qed

text \<open>A saved state: the second evaluation, should it be needed.\<close>

lemma push_evaluates:
  assumes step: "re_step x s = Some (Push type pc s')" and type: "type \<noteq> RE_EXEC_STATE_GREEDY_QUANT"
    and first: "evaluates x al s'"
    and second: "\<And>c. capture_ok x c \<Longrightarrow> evaluates x al (s'\<lparr>re_pc := pc, re_capture := c\<rparr>)"
    and data: "data_ok x al s'"
  shows "evaluates x al s"
proof -
  obtain r where r: "re_eval x s' r" "\<forall>t. r = Some t \<longrightarrow> data_ok x al t"
    using first by (auto simp: evaluates_def)
  have same: "evaluates x al (s'\<lparr>re_pc := pc\<rparr>)"
    using second [of "re_capture s'"] data by (simp add: data_ok_def)
  show ?thesis
  proof (cases type)
    case RE_EXEC_STATE_SPLIT
    show ?thesis
    proof (cases r)
      case None
      then show ?thesis
        using same r(1) eval_split_second [OF step [unfolded RE_EXEC_STATE_SPLIT]]
        by (auto simp: evaluates_def)
    next
      case (Some t)
      then show ?thesis
        using r eval_split_first [OF step [unfolded RE_EXEC_STATE_SPLIT]] by (auto simp: evaluates_def)
    qed
  next
    case RE_EXEC_STATE_LOOKAHEAD
    show ?thesis
    proof (cases r)
      case None
      then show ?thesis
        using r eval_look_fails [OF step [unfolded RE_EXEC_STATE_LOOKAHEAD]] by (auto simp: evaluates_def)
    next
      case (Some t)
      then have "capture_ok x (re_capture t)" using r(2) by (auto simp: data_ok_def)
      then show ?thesis
        using Some r(1) second [of "re_capture t"] eval_look [OF step [unfolded RE_EXEC_STATE_LOOKAHEAD]]
        by (auto simp: evaluates_def)
    qed
  next
    case RE_EXEC_STATE_NEGATIVE_LOOKAHEAD
    show ?thesis
    proof (cases r)
      case None
      then show ?thesis
        using same r(1) eval_negative [OF step [unfolded RE_EXEC_STATE_NEGATIVE_LOOKAHEAD]]
        by (auto simp: evaluates_def)
    next
      case (Some t)
      then show ?thesis
        using r(1) eval_negative_fails [OF step [unfolded RE_EXEC_STATE_NEGATIVE_LOOKAHEAD]]
        by (auto simp: evaluates_def)
    qed
  qed (use type in simp)
qed

theorem eval_total:
  assumes ranked: "re_ranked (rc_bc x) d rk" and ctx: "ctx_ok x d" and wt: "re_wt x d al s"
  shows "evaluates x al s"
  using wt
proof (induction s rule: wf_induct_rule
    [OF wf_measures [of "[\<lambda>s. cbuf_end x - re_cptr s, \<lambda>s. rk ! re_pc s]"]])
  case (1 s)
  have ih: "evaluates x al t" if "re_wt x d al t" "lowers rk (rk ! re_pc s) s t" for t
  proof -
    have "re_cptr t \<le> cbuf_end x" using that(1) by (simp add: re_wt_def data_ok_def pos_ok_def)
    then have "cbuf_end x - re_cptr t < cbuf_end x - re_cptr s \<or>
        cbuf_end x - re_cptr t \<le> cbuf_end x - re_cptr s \<and> rk ! re_pc t < rk ! re_pc s"
      using that(2) unfolding lowers_def by linarith
    then show ?thesis
      using "1.IH" [of t] that(1) le_less [of "cbuf_end x - re_cptr t" "cbuf_end x - re_cptr s"]
      by auto
  qed
  obtain ctl where ctl: "re_step x s = Some ctl" "step_ok x d al ctl"
    using re_step_ok [OF ctx "1.prems"] by blast
  note low = re_step_lowers [OF ranked ctx "1.prems" ctl(1)]
  show ?case
  proof (cases ctl)
    case (Go t)
    then show ?thesis
      using ih [of t] low ctl eval_go [of x s t]
      by (auto simp: ctl_lowers_def step_ok_def evaluates_def)
  next
    case (Matched t)
    then show ?thesis
      using ctl eval_match [of x s t] by (auto simp: step_ok_def evaluates_def)
  next
    case No_match
    then show ?thesis
      using ctl(1) eval_no_match [of x s] by (auto simp: evaluates_def)
  next
    case (Push type pc t)
    have t: "re_wt x d al t" "depth_at d pc (re_stack_len t)" "type \<noteq> RE_EXEC_STATE_GREEDY_QUANT"
      "lowers rk (rk ! re_pc s) s t" "re_cptr t = re_cptr s" "rk ! pc < rk ! re_pc s"
      using low ctl(2) Push by (auto simp: ctl_lowers_def step_ok_def lowers_def)
    show ?thesis
      by (rule push_evaluates [OF ctl(1) [unfolded Push] t(3) ih [OF t(1,4)] ih])
        (use t in \<open>auto simp: re_wt_def data_ok_def lowers_def\<close>)
  next
    case (Quant quant_min quant_max pc1 t)
    have t: "re_wt x d al t" "16 \<le> pc1" "quant_ok (rc_bc x) d (pc1 - 16) (re_stack_len t)"
      "re_cptr t = re_cptr s" "rk ! re_pc t < rk ! re_pc s" "get_u32 (rc_bc x) (pc1 - 16 + 12) \<noteq> Some 0"
      using low ctl(2) Quant by (auto simp: ctl_lowers_def step_ok_def)
    obtain e cc where e: "rd (rc_bc x) e = Some 10" "get_u32 (rc_bc x) (pc1 - 16 + 12) = Some cc"
      "re_atom_chars (rc_bc x) pc1 e = Some (unat cc)"
      using quant_okE [OF t(3)] t(2) by (metis le_add_diff_inverse2)
    have "0 < unat cc" using e(2) t(6) by (auto simp: unat_gt_0)
    then obtain ps where ps: "atom_reps x pc1 quant_max 0 t ps"
      "\<forall>p\<in>set ps. re_cptr t \<le> p \<and> pos_ok x al p"
      using atom_reps_exist [OF e(3,1), of al t quant_max 0] t(1) by (auto simp: re_wt_def)
    have "evaluates x al (t\<lparr>re_cptr := p\<rparr>)" if "p \<in> set (rev (drop quant_min (re_cptr t # ps)))" for p
    proof (rule ih)
      have p: "p = re_cptr t \<or> p \<in> set ps" using in_set_dropD [of p quant_min "re_cptr t # ps"] that by simp
      then have "pos_ok x al p" "re_cptr s \<le> p"
        using ps(2) t(1,4) by (auto simp: re_wt_def data_ok_def)
      then show "re_wt x d al (t\<lparr>re_cptr := p\<rparr>)" "lowers rk (rk ! re_pc s) s (t\<lparr>re_cptr := p\<rparr>)"
        using t(1,5) by (auto simp: re_wt_def data_ok_def lowers_def)
    qed
    then obtain r where "re_try x t (rev (drop quant_min (re_cptr t # ps))) r"
      "\<forall>u. r = Some u \<longrightarrow> data_ok x al u"
      using try_exists [where ps = "rev (drop quant_min (re_cptr t # ps))"] by blast
    then show ?thesis
      using eval_quant [OF ctl(1) [unfolded Quant] ps(1)] unfolding evaluates_def by blast
  qed
qed

end
