(* ===== verification/Spec2Isabelle.thy ===== *)
theory Spec2Isabelle
  imports CStrings JSMalloc Utf8 CharRange LinkedList JobQueue RqExchange TypedArraySort MpDecKernels CharSets UnicodeNormalize RegexpTotal
begin

text \<open>
  Verification of the C code of j2qjs: the QuickJS JavaScript engine with its support libraries
  (\<^verbatim>\<open>src/src_c++\<close>), embedded in Java through JNI.  The support libraries carry the
  self-contained algorithms of the program; they are modelled here function by function,
  together with the parts of the engine that stand directly on them.

  The theories and the code they model:

  \<^item> \<open>CPrelude\<close>: generic lemmas; memory reads and writes that fail (\<open>None\<close>) outside an array,
    \<open>returns\<close> (a computation ends without a fault and its result satisfies a property).
  \<^item> \<open>CStrings\<close>: \<^verbatim>\<open>cutils.c\<close>, \<^verbatim>\<open>cutils.h\<close>: \<^verbatim>\<open>pstrcpy\<close>, \<^verbatim>\<open>pstrcat\<close>, \<^verbatim>\<open>strstart\<close>, \<^verbatim>\<open>has_suffix\<close>, bit counts,
    unaligned loads and stores, byte swaps.
  \<^item> \<open>DynBuf\<close>: the growing byte buffers of \<^verbatim>\<open>cutils.c\<close> and \<^verbatim>\<open>dbuf_insert\<close> of \<^verbatim>\<open>libregexp.c\<close>, over an
    allocator given by the locale \<open>allocator\<close>; a failed allocation sets the sticky error flag.
  \<^item> \<open>JSMalloc\<close>: \<^verbatim>\<open>js_def_malloc\<close>, \<^verbatim>\<open>js_def_free\<close>, \<^verbatim>\<open>js_def_realloc\<close> of \<^verbatim>\<open>quickjs.c\<close>: the counters of the
    runtime describe exactly the live blocks; interprets \<open>allocator\<close>.
  \<^item> \<open>Utf8\<close>: the UTF-8 encoder and decoder of \<^verbatim>\<open>cutils.c\<close>; round trips, canonical forms, safety on
    zero-terminated input.
  \<^item> \<open>CharRange\<close>: the sets of code points of \<^verbatim>\<open>libunicode.c\<close> as sorted lists of interval borders;
    union, intersection, symmetric difference and complement are the operations on sets.
  \<^item> \<open>LinkedList\<close>: \<^verbatim>\<open>list.h\<close> on an explicit store of nodes; insertion, removal and the loop macros.
  \<^item> \<open>JobQueue\<close>: \<^verbatim>\<open>JS_EnqueueJob\<close>, \<^verbatim>\<open>JS_IsJobPending\<close>, \<^verbatim>\<open>JS_ExecutePendingJob\<close> of \<^verbatim>\<open>quickjs.c\<close> over
    \<open>JSMalloc\<close> and \<open>LinkedList\<close>; jobs run in the order of their insertion (locale \<open>work_queue\<close>).
  \<^item> \<open>RqSort\<close>, \<open>RqExchange\<close>: \<^verbatim>\<open>rqsort\<close> of \<^verbatim>\<open>cutils.c\<close> with its heap sort fallback and the exchange
    functions on bytes: termination, memory safety, permutation, sortedness; the exchange
    functions refine the exchange of elements.
  \<^item> \<open>TypedArraySort\<close>: the comparison functions of typed arrays of \<^verbatim>\<open>quickjs.c\<close> (locale
    \<open>sort_comparator\<close>).
  \<^item> \<open>UnicodeTable\<close>, \<open>RunSearch\<close>, \<open>UnicodeCase\<close>: the tables of \<^verbatim>\<open>libunicode-table.h\<close> and the functions of
    \<^verbatim>\<open>libunicode.c\<close> that read them: case conversion and the membership tests.  The binary search of
    sorted runs is the locale \<open>run_search\<close>, shared with the decomposition table.
  \<^item> \<open>RleIndex\<close>, \<open>CharSets\<close>: the run-length encoded sets and their block indexes.  The locale \<open>rle_scan\<close>
    shows, from one walk over a table, that starting at the block the index names changes nothing;
    the tables are walked in blocks by evaluation.
  \<^item> \<open>UnicodeDecompTable\<close>, \<open>UnicodeDecomp\<close>, \<open>UnicodeDecompCheck\<close>: decomposition of one character.  Every run
    of the table is checked by evaluation, block by block: each character of the run is decoded inside
    the data, and its decomposition is smaller in a rank that bounds repeated decomposition.
  \<^item> \<open>CombiningClass\<close>, \<open>CanonOrder\<close>, \<open>FullDecomp\<close>, \<open>UnicodeCompose\<close>, \<open>ComposedStarters\<close>, \<open>UnicodeNormalize\<close>: normalization
    of strings.  \<open>CombiningClass\<close> interprets \<open>rle_scan\<close> for \<^verbatim>\<open>unicode_get_cc\<close>; \<open>CanonOrder\<close> refines \<^verbatim>\<open>sort_cc\<close> to a
    stable sort of the runs of non-starters; \<open>FullDecomp\<close> proves that \<^verbatim>\<open>to_nfd_rec\<close> ends and writes the
    full decompositions through the append interface of \<open>DynBuf\<close>; \<open>UnicodeCompose\<close> and \<open>ComposedStarters\<close> show
    that a composition has the two characters as its decomposition and is a starter; \<open>UnicodeNormalize\<close> puts
    them together: an invariant of the composition loop keeps canonical equivalence.
  \<^item> \<open>MpArith\<close>, \<open>MpDiv\<close>, \<open>MpSqrt\<close>: the multi-precision integer kernels of \<^verbatim>\<open>libbf.c\<close> on an array of
    64-bit limbs, operands given as positions so that they may overlap as the callers let them:
    addition to multiplication (the loop shared with the decimal kernels is the locale
    \<open>limb_multiplier\<close>), division of \<open>n\<close> limbs by one with a precomputed inverse, Knuth division with
    its correction loop, square roots of one and two limbs.  The values of the results are exact.
  \<^item> \<open>MpDec\<close>, \<open>MpDecKernels\<close>: numbers in base \<open>10\<^sup>1\<^sup>9\<close>: division by the base and by constants through
    multiplication, the tables of powers of ten, and the same kernels on decimal limbs.
  Conventions.  A function that can fault returns an option, \<open>None\<close> being an access outside an
  array, a failed assertion or, for \<open>partial_function\<close>, a loop that does not end; theorems about
  what the code returns show \<open>Some\<close>.  Integers are words of their width, or naturals and integers
  with the wrap-around written out (\<open>szadd\<close>, \<open>szmul\<close>, \<open>szsub\<close> for \<^verbatim>\<open>size_t\<close>).  The allocator is an
  argument, a function on an arbitrary heap state that may refuse any request.

  Not modelled.  The JavaScript engine proper (parser, byte code compiler and interpreter,
  objects and garbage collector, built-in objects in \<^verbatim>\<open>quickjs.c\<close>), apart from the functions above:
  its functions call each other through the whole engine state.  \<^verbatim>\<open>quickjs-libc.c\<close> (operating
  system calls), the JNI wrapper and the Java sources (glue code).  Debug dumps
  (\<^verbatim>\<open>cr_dump\<close>, \<^verbatim>\<open>lre_dump_bytecode\<close>).
\<close>

section \<open>Concrete states for the witnesses\<close>

definition demo_heap :: c_heap where
  "demo_heap = \<lparr>hp_blocks = Map.empty, hp_total = 0, hp_calls = 0,
     hp_grant = (\<lambda>c p n. Some (if p = 0 then 16 * Suc c else p, n))\<rparr>"

definition demo_malloc :: js_malloc_state where
  "demo_malloc = \<lparr>malloc_count = 0, malloc_size = 0, malloc_limit = 1000000, malloc_heap = demo_heap\<rparr>"

lemma demo_malloc_wf: "js_malloc_wf demo_malloc"
  by (simp add: js_malloc_wf_def heap_wf_def demo_malloc_def demo_heap_def)

definition demo_dbuf :: "c_heap dynbuf" where
  "demo_dbuf = dbuf_init c_realloc"

lemma demo_dbuf_wf: "dbuf_wf demo_dbuf"
  using libc_alloc.allocator_axioms by (simp add: demo_dbuf_def dbuf_wf_def dbuf_init_def dbuf_init2_def)

definition demo_cr :: "(bool \<times> c_heap) char_range" where
  "demo_cr = cr_init (watch c_realloc)"

lemma demo_cr: "cr_wf demo_cr" "cr_valid demo_cr" "cr_len demo_cr = 0" "records (cr_realloc_func demo_cr) fst"
  using cr_wf_init cr_valid_init records_watch by (auto simp: demo_cr_def) (simp_all add: cr_init_def)

definition demo_store :: list_store where
  "demo_store = [1 \<mapsto> \<lparr>lh_prev = 3, lh_next = 2\<rparr>, 2 \<mapsto> \<lparr>lh_prev = 1, lh_next = 3\<rparr>, 3 \<mapsto> \<lparr>lh_prev = 2, lh_next = 1\<rparr>]"

lemma demo_list: "is_list demo_store 1 [2, 3]"
  by (simp add: demo_store_def is_list_def get_next_def get_prev_def)

definition demo_job :: job_entry where
  "demo_job = \<lparr>je_ctx = 5, je_func = 6, je_argv = []\<rparr>"

definition demo_rt :: js_runtime where
  "demo_rt = \<lparr>
     rt_malloc = \<lparr>malloc_count = 2, malloc_size = 32, malloc_limit = 1000000,
        malloc_heap = demo_heap\<lparr>hp_blocks := [1 \<mapsto> 8, 2 \<mapsto> 8], hp_total := 32\<rparr>\<rparr>,
     rt_links = [1 \<mapsto> \<lparr>lh_prev = 2, lh_next = 2\<rparr>, 2 \<mapsto> \<lparr>lh_prev = 1, lh_next = 1\<rparr>],
     rt_jobs = [2 \<mapsto> demo_job], rt_job_list = 1, rt_ref = (\<lambda>_. 1)\<rparr>"

text \<open>The call leaves a mark at the address of the function it was given.\<close>

definition demo_hooks :: js_hooks where
  "demo_hooks = \<lparr>
     hk_call = (\<lambda>f ctx argv rt. (\<lparr>jv_tag = 3, jv_ptr = 0\<rparr>, rt\<lparr>rt_ref := (rt_ref rt)(f := 42)\<rparr>)),
     hk_free_zero = (\<lambda>_ rt. rt), hk_throw_oom = (\<lambda>rt. rt)\<rparr>"

lemma demo_hooks_ok: "hooks_ok demo_hooks"
proof -
  have "keeps_queue (\<lambda>rt. rt\<lparr>rt_ref := r rt\<rparr>)" for r
    by (auto simp: keeps_queue_def intro: exI [of _ "[]"])
  then show ?thesis by (simp add: hooks_ok_def demo_hooks_def keeps_queue_id)
qed

lemma demo_rt_queue: "jobq demo_rt {} [demo_job]"
  unfolding jobq_def
  by (rule exI [of _ "[2]"]) (simp add: jobq_nodes_def demo_rt_def js_malloc_wf_def heap_wf_def demo_heap_def
      is_list_def get_next_def get_prev_def malloc_overhead_def obj_max_def)

lemma digits_ok_list: "digits_ok B m p n \<longleftrightarrow> list_all (\<lambda>i. unat (m ! (p + i)) < B) [0..<n]"
  by (auto simp: digits_ok_def list_all_iff)

text \<open>An allocator whose every block is at address 1.\<close>

definition demo_realloc :: "unit realloc_func" where
  "demo_realloc h p n = (if n \<le> 2 ^ 36 then 1 else 0, h)"

lemma demo_realloc_ok: "allocator demo_realloc" "grants demo_realloc"
  by (auto simp: demo_realloc_def allocator_def grants_def obj_max_def split: if_splits)

section \<open>Regular expressions\<close>

abbreviation re_no_states :: "'h \<Rightarrow> 'h re_stk" where
  "re_no_states h \<equiv> \<lparr>st_states = [], st_size = 0, st_ptr = 0, st_bytes = 0, st_heap = h\<rparr>"

lemma text_range_ok: "text_ok cbuf cindex t \<Longrightarrow> text_range (length cbuf) cindex t = Some ()"
proof -
  assume t: "text_ok cbuf cindex t"
  then have "cindex * 2 ^ t \<le> length cbuf * 2 ^ t" by (simp add: text_ok_def)
  also have "\<dots> < 2 ^ 31" using t by (simp add: text_ok_def)
  finally have "cindex * 2 ^ t < 2 ^ 31" .
  then show ?thesis using t by (simp add: text_ok_def text_range_def c_int_small)
qed

lemma lre_exec_Done:
  assumes "text_ok cbuf cindex t" and "re_context bc_buf cbuf addr t = Some x"
    and "re_exec x R fuel False (re_start x cindex junk) (re_no_states h) = Done (r, s, k)"
  shows "lre_exec fuel R bc_buf cbuf addr cindex t junk h =
     Done (case r of Re_error \<Rightarrow> -1 | Re_no_match \<Rightarrow> 0 | Re_match \<Rightarrow> 1, re_capture s,
       snd (R (st_heap k) (st_ptr k) 0))"
  using assms by (simp add: lre_exec_def text_range_ok)

text \<open>The final \<^verbatim>\<open>free\<close> asks for nothing.\<close>

lemma records_free: "records R seen \<Longrightarrow> seen (snd (R h p 0)) = seen h"
  using recordsD [of R seen h p 0] by (metis prod.exhaust_sel)

lemma continues_nil:
  "continues x R (\<lambda>ret t. ret = (if r = None then Re_no_match else Re_match) \<and>
     (\<forall>u. r = Some u \<longrightarrow> re_capture t = re_capture u)) [] r"
  by (auto simp: continues_def re_end_def finishes_def run_next_def)

lemma lre_exec_evaluated:
  assumes "allocator R" and "ctx_ok x d" and "re_context bc_buf cbuf addr cbuf_type = Some x"
    and "pos_ok x True cindex" and "re_eval x (re_start x cindex junk) r" and "text_ok cbuf cindex cbuf_type"
  shows "\<exists>N ret cap h'.
     (\<forall>fuel\<ge>N. lre_exec fuel R bc_buf cbuf addr cindex cbuf_type junk h = Done (ret, cap, h')) \<and>
     (\<forall>seen. records R seen \<longrightarrow> \<not> seen h \<longrightarrow>
       (case r of None \<Rightarrow> ret = 0 | Some s \<Rightarrow> ret = 1 \<and> cap = re_capture s) \<and> \<not> seen h' \<or> ret = -1 \<and> seen h')"
proof -
  have "stack_wf (re_start x cindex junk)" by (simp add: stack_wf_def re_start_def)
  from eval_run(1) [OF assms(2,1,5) this]
  have "finishes x R (\<lambda>ret t. ret = (if r = None then Re_no_match else Re_match) \<and>
     (\<forall>u. r = Some u \<longrightarrow> re_capture t = re_capture u)) (Cont (re_start x cindex junk) (re_no_states h))"
    by (rule runs_asD [OF _ same_cfg_refl re_start_wt [OF assms(2,4)] stk_ok_init])
      (simp add: continues_nil)
  then obtain f ret t k where f: "re_exec x R f False (re_start x cindex junk) (re_no_states h) = Done (ret, t, k)"
    "ret \<noteq> Re_error \<and> ret = (if r = None then Re_no_match else Re_match) \<and>
       (\<forall>u. r = Some u \<longrightarrow> re_capture t = re_capture u) \<or> ret = Re_error \<and> refused R (st_heap k)"
    unfolding finishes_def run_next_def by auto
  let ?ret = "(case ret of Re_error \<Rightarrow> -1 | Re_no_match \<Rightarrow> 0 | Re_match \<Rightarrow> 1) :: int"
  have "\<forall>fuel\<ge>f. lre_exec fuel R bc_buf cbuf addr cindex cbuf_type junk h =
      Done (?ret, re_capture t, snd (R (st_heap k) (st_ptr k) 0))"
    using lre_exec_Done [OF assms(6,3) more_fuel [OF f(1)]] by blast
  moreover have "(case r of None \<Rightarrow> ?ret = 0 | Some s \<Rightarrow> ?ret = 1 \<and> re_capture t = re_capture s) \<and>
      \<not> seen (snd (R (st_heap k) (st_ptr k) 0)) \<or> ?ret = -1 \<and> seen (snd (R (st_heap k) (st_ptr k) 0))"
    if s: "records R seen" "\<not> seen h" for seen
    using f(2) refused_seen [OF s(1)] re_exec_quiet(1) [OF s(1) f(1)] s(2)
    by (auto simp: records_free [OF s(1)] split: option.split)
  ultimately show ?thesis by blast
qed

lemma re_context_fields:
  assumes "re_verify bc_buf d" and "re_context bc_buf cbuf addr t = Some x"
  shows "ctx_ok x d" and "rc_cbuf x = cbuf" and "rc_bc x = bc_buf"
proof -
  show "ctx_ok x d" "rc_cbuf x = cbuf"
    using re_context_ok [OF assms(1), of cbuf addr t] assms(2) by auto
  show "rc_bc x = bc_buf"
    using assms(2) by (auto simp: re_context_def bind_eq_Some_conv Let_def)
qed

text \<open>The bytecode of \<^verbatim>\<open>/a*b/y\<close> with its certificates.\<close>

definition demo_re :: "u8 list" where
  "demo_re = [0, 1, 0, 29, 0, 0, 0, 11, 0, 28, 4, 0, 0, 0, 0, 0, 0, 0, 255, 255, 255, 127, 1, 0, 0, 0,
     1, 97, 0, 10, 1, 98, 0, 12, 0, 10]"

definition demo_depths :: "nat option list" where
  "demo_depths = map (\<lambda>pc. if pc \<in> {7, 9, 30, 33, 35} then Some 0 else None) [0..<36]"

definition demo_ranks :: "nat list" where
  "demo_ranks = map (\<lambda>pc. if pc = 7 then 2 else if pc = 9 \<or> pc = 33 then 1 else 0) [0..<36]"

lemma demo_verify: "re_verify demo_re demo_depths"
  by (simp add: re_verify_def re_code_ok_def demo_re_def demo_depths_def RE_HEADER_LEN_def depth_at_def
     re_instr_ok_def reop_of_def reops_def rd_def quant_ok_def get_u32_def rd_block_def re_jump_def
     upt_rec re_atom_chars.simps re_simple_len_def)

lemma demo_ranked: "re_ranked demo_re demo_depths demo_ranks"
  by (simp add: re_ranked_def re_op_ranked_def demo_re_def demo_depths_def demo_ranks_def
     reop_of_def reops_def rd_def quant_below_def get_u32_def rd_block_def re_jump_def
     upt_rec)

lemmas re_run_simps =
  re_step_def rd_def wr_def rd_block_def wr_block_def reop_of_def reops_def RE_HEADER_LEN_def
  get_u16_def get_u32_def le_word.simps re_jump_def re_test_char_def re_get_char_def get_char_def
  rd_unit_def re_canon_def re_line_end_def c_assert_def Let_def

definition demo_ctx :: re_ctx where
  "demo_ctx = the (re_context demo_re [97, 98] 4096 0)"

lemma demo_ctx: "re_context demo_re [97, 98] 4096 0 = Some demo_ctx"
  by (simp add: demo_ctx_def re_context_def rd_def demo_re_def)

lemma demo_ctx_simps:
  "rc_bc demo_ctx = demo_re" "rc_cbuf demo_ctx = [97, 98]" "rc_addr demo_ctx = 4096"
  "rc_cbuf_type demo_ctx = 0" "rc_capture_count demo_ctx = 1" "rc_stack_size_max demo_ctx = 0"
  "\<not> rc_multi_line demo_ctx" "\<not> rc_ignore_case demo_ctx" "\<not> rc_is_utf16 demo_ctx"
  by (simp_all add: demo_ctx_def re_context_def rd_def demo_re_def LRE_FLAG_UTF16_def
      LRE_FLAG_MULTILINE_def LRE_FLAG_IGNORECASE_def)

definition demo_cfg :: "nat \<Rightarrow> nat \<Rightarrow> nat option list \<Rightarrow> re_cfg" where
  "demo_cfg pc p cap = \<lparr>re_pc = pc, re_cptr = p, re_capture = cap, re_stack = [], re_stack_len = 0\<rparr>"

lemma demo_steps:
  "re_step demo_ctx (demo_cfg 7 0 [None, None]) = Some (Go (demo_cfg 9 0 [Some 0, None]))"
  "re_step demo_ctx (demo_cfg 9 0 [Some 0, None]) = Some (Quant 0 (2 ^ 31 - 1) 26 (demo_cfg 30 0 [Some 0, None]))"
  "re_step demo_ctx (demo_cfg 26 0 cap) = Some (Go (demo_cfg 29 1 cap))"
  "re_step demo_ctx (demo_cfg 29 1 cap) = Some (Matched (demo_cfg 30 1 cap))"
  "re_step demo_ctx (demo_cfg 26 1 cap) = Some No_match"
  "re_step demo_ctx (demo_cfg 30 1 cap) = Some (Go (demo_cfg 33 2 cap))"
  "re_step demo_ctx (demo_cfg 33 2 [Some 0, None]) = Some (Go (demo_cfg 35 2 [Some 0, Some 2]))"
  "re_step demo_ctx (demo_cfg 35 2 cap) = Some (Matched (demo_cfg 36 2 cap))"
  by (simp_all add: re_run_simps demo_ctx_simps demo_cfg_def demo_re_def)

lemma demo_cfg_update [simp]:
  "demo_cfg pc p cap\<lparr>re_pc := pc'\<rparr> = demo_cfg pc' p cap"
  "demo_cfg pc p cap\<lparr>re_cptr := p'\<rparr> = demo_cfg pc p' cap"
  "re_cptr (demo_cfg pc p cap) = p" "re_capture (demo_cfg pc p cap) = cap"
  by (simp_all add: demo_cfg_def)

lemma demo_eval: "re_eval demo_ctx (re_start demo_ctx 0 0) (Some (demo_cfg 36 2 [Some 0, Some 2]))"
proof -
  let ?s = "demo_cfg 30 0 [Some 0, None]"
  have one: "straight_eval demo_ctx (?s\<lparr>re_pc := 26\<rparr>) (Some (demo_cfg 30 1 [Some 0, None]))"
    unfolding demo_cfg_update by (rule straight_eval.intros demo_steps)+
  have "straight_eval demo_ctx (?s\<lparr>re_cptr := 1\<rparr>\<lparr>re_pc := 26\<rparr>) None"
    unfolding demo_cfg_update by (rule straight_eval.intros demo_steps)+
  then have "atom_reps demo_ctx 26 (2 ^ 31 - 1) 0 ?s [re_cptr (demo_cfg 30 1 [Some 0, None])]"
    by (intro reps_more [OF one] reps_stop) simp_all
  then have reps: "atom_reps demo_ctx 26 (2 ^ 31 - 1) 0 ?s [1]" by simp
  have "re_eval demo_ctx (demo_cfg 30 1 [Some 0, None]) (Some (demo_cfg 36 2 [Some 0, Some 2]))"
    by (rule eval_go eval_match demo_steps)+
  then have "re_try demo_ctx ?s (rev (drop 0 (re_cptr ?s # [1]))) (Some (demo_cfg 36 2 [Some 0, Some 2]))"
    by (simp add: try_first)
  then have "re_eval demo_ctx (demo_cfg 7 0 [None, None]) (Some (demo_cfg 36 2 [Some 0, Some 2]))"
    by (blast intro: eval_go eval_quant demo_steps reps)
  moreover have "re_start demo_ctx 0 0 = demo_cfg 7 0 [None, None]"
    by (simp add: re_start_def demo_cfg_def demo_ctx_simps RE_HEADER_LEN_def numeral_2_eq_2)
  ultimately show ?thesis by simp
qed

text \<open>\<^verbatim>\<open>/\udf06*(?!$)/uy\<close> executed from the middle of a surrogate pair: the capture ends before it
  starts.\<close>

definition swap_re :: "u8 list" where
  "swap_re = [48, 1, 0, 35, 0, 0, 0, 11, 0, 28, 4, 0, 0, 0, 0, 0, 0, 0, 255, 255, 255, 127, 1, 0, 0, 0,
     1, 6, 223, 10, 24, 2, 0, 0, 0, 6, 10, 12, 0, 10]"

lemma lre_exec_swapped_capture:
  "\<exists>fuel. lre_exec fuel demo_realloc swap_re [0xd834, 0xdf06] 4096 1 1 0 () = Done (1, [Some 1, Some 0], ())"
proof -
  have replicate_2: "replicate 2 None = [None :: nat option, None]" by (simp add: numeral_2_eq_2)
  show ?thesis
  by (rule exI [of _ "Suc (Suc (Suc (Suc (Suc (Suc (Suc (Suc (Suc (Suc (Suc (Suc 0)))))))))))"])
    (simp add: lre_exec_def text_range_def c_int_def re_context_def re_exec.simps re_quant.simps swap_re_def re_run_simps LRE_FLAG_UTF16_def
      LRE_FLAG_MULTILINE_def LRE_FLAG_IGNORECASE_def re_start_def push_state_def re_after_quant_def re_push_state_def re_end_def
      szmul_def sizeof_re_exec_state_def demo_realloc_def quant_back_def pop_state_def pop_state1_def restore_capture_def
      prev_char_def ptr_dec_def replicate_2)
qed

section \<open>Properties\<close>

text \<open>
  C1: The regular expression interpreter on bytecode accepted by the verifier \<open>re_verify\<close>: whatever the
  text (of a byte length that fits an \<^verbatim>\<open>int\<close>), the start and the allocator, a run never leaves an array
  and never fails an assertion, and every capture is a position of the text.  The result is -1 when
  the allocator refused one of the requests made during this call, and 0 or 1 when it refused none.
\<close>

theorem lre_exec_safe:
  assumes "allocator R" and "re_verify bc_buf d" and "text_ok cbuf cindex cbuf_type"
    and "records R seen" and "\<not> seen h"
  shows "case lre_exec fuel R bc_buf cbuf addr cindex cbuf_type junk h of
           Timeout \<Rightarrow> True
         | Fault \<Rightarrow> False
         | Done (ret, cap, h') \<Rightarrow>
             lre_get_capture_count bc_buf = Some (length cap div 2) \<and> even (length cap) \<and>
             list_all (\<lambda>c. \<forall>p. c = Some p \<longrightarrow> p \<le> length cbuf) cap \<and>
             ((ret = 0 \<or> ret = 1) \<and> \<not> seen h' \<or> ret = -1 \<and> seen h')"
proof -
  obtain x where x: "re_context bc_buf cbuf addr cbuf_type = Some x" "ctx_ok x d" "rc_cbuf x = cbuf"
    "rc_capture_count x = unat (bc_buf ! 1)"
    using re_context_ok [OF assms(2)] by blast
  have count: "lre_get_capture_count bc_buf = Some (rc_capture_count x)"
    using assms(2) x(4) by (simp add: lre_get_capture_count_def rd_def re_verify_def RE_HEADER_LEN_def)
  have "re_wt x d False (re_start x cindex junk)"
    by (rule re_start_wt [OF x(2)]) (use assms(3) in \<open>simp add: pos_ok_def x(3) text_ok_def\<close>)
  from re_exec_safe [OF x(2) assms(1) this stk_ok_init, of fuel h] show ?thesis
    using count x(1,3) text_range_ok [OF assms(3)] refused_seen [OF assms(4)] assms(5)
      re_exec_quiet(1) [OF assms(4), of x fuel False "re_start x cindex junk" "re_no_states h"]
    by (auto simp: lre_exec_def data_ok_def capture_ok_def records_free [OF assms(4)]
        split: outcome.splits re_ret.splits)
qed

theorem lre_exec_safe_witness:
  "case lre_exec 9 (watch demo_realloc) demo_re [97, 98] 4096 0 0 0 (False, ()) of
           Timeout \<Rightarrow> True
         | Fault \<Rightarrow> False
         | Done (ret, cap, h') \<Rightarrow>
             lre_get_capture_count demo_re = Some (length cap div 2) \<and> even (length cap) \<and>
             list_all (\<lambda>c. \<forall>p. c = Some p \<longrightarrow> p \<le> length [97 :: u16, 98]) cap \<and>
             ((ret = 0 \<or> ret = 1) \<and> \<not> fst h' \<or> ret = -1 \<and> fst h')"
  by (rule lre_exec_safe [OF allocator_watch [OF demo_realloc_ok(1)] demo_verify _ records_watch])
    (simp_all add: text_ok_def)

text \<open>
  C2: The interpreter refines the reference semantics \<open>re_eval\<close>, which knows no stack of saved states: with
  enough fuel it returns the result of the evaluation with its captures when none of the requests
  made during the call was refused, and -1 when one was.  The start must not be between the halves of
  a surrogate pair.
\<close>

theorem lre_exec_evaluates:
  assumes "allocator R" and "re_verify bc_buf d" and "text_ok cbuf cindex cbuf_type"
    and "re_context bc_buf cbuf addr cbuf_type = Some x"
    and "\<not> mid_pair (rc_cbuf_type x) cbuf cindex"
    and "re_eval x (re_start x cindex junk) r"
    and "records R seen" and "\<not> seen h"
  shows "\<exists>N ret cap h'.
     (\<forall>fuel\<ge>N. lre_exec fuel R bc_buf cbuf addr cindex cbuf_type junk h = Done (ret, cap, h')) \<and>
     ((case r of None \<Rightarrow> ret = 0 | Some s \<Rightarrow> ret = 1 \<and> cap = re_capture s) \<and> \<not> seen h' \<or>
      ret = -1 \<and> seen h')"
proof -
  have "pos_ok x True cindex"
    using assms(3,5) by (simp add: pos_ok_def text_ok_def re_context_fields(2) [OF assms(2,4)])
  from lre_exec_evaluated [OF assms(1) re_context_fields(1) [OF assms(2,4)] assms(4) this assms(6,3), of h]
  show ?thesis using assms(7,8) by blast
qed

theorem lre_exec_evaluates_witness:
  "\<exists>N ret cap h'.
     (\<forall>fuel\<ge>N. lre_exec fuel (watch demo_realloc) demo_re [97, 98] 4096 0 0 0 (False, ()) = Done (ret, cap, h')) \<and>
     (ret = 1 \<and> cap = [Some 0, Some 2] \<and> \<not> fst h' \<or> ret = -1 \<and> fst h')"
  using lre_exec_evaluates [OF allocator_watch [OF demo_realloc_ok(1)] demo_verify _ demo_ctx _ demo_eval
      records_watch, of "(False, ())"]
  by (simp add: demo_ctx_simps text_ok_def)

text \<open>
  C3: Termination: when the bytecode has ranks, \<^verbatim>\<open>lre_exec\<close> returns from every start that is not between
  the halves of a surrogate pair.  Ranks exist for forward code each of whose cycles consumes a
  character; code with \<^verbatim>\<open>REOP_prev\<close> or a backward back reference (lookbehind) has none, whether or
  not it has cycles.
\<close>

theorem lre_exec_terminates:
  assumes "allocator R" and "re_verify bc_buf d" and "re_ranked bc_buf d rk"
    and "text_ok cbuf cindex cbuf_type" and "re_context bc_buf cbuf addr cbuf_type = Some x"
    and "\<not> mid_pair (rc_cbuf_type x) cbuf cindex"
  shows "\<exists>N out. \<forall>fuel\<ge>N. lre_exec fuel R bc_buf cbuf addr cindex cbuf_type junk h = Done out"
proof -
  note x = re_context_fields [OF assms(2,5)]
  have pos: "pos_ok x True cindex" using assms(4,6) by (simp add: pos_ok_def text_ok_def x(2))
  have "re_ranked (rc_bc x) d rk" by (simp add: x(3) assms(3))
  from eval_total [OF this x(1) re_start_wt [OF x(1) pos]]
  obtain r where "re_eval x (re_start x cindex junk) r" by (auto simp: evaluates_def)
  from lre_exec_evaluated [OF assms(1) x(1) assms(5) pos this assms(4)] show ?thesis by blast
qed

theorem lre_exec_terminates_witness:
  "\<exists>N out. \<forall>fuel\<ge>N. lre_exec fuel demo_realloc demo_re [97, 98] 4096 0 0 0 () = Done out"
  by (rule lre_exec_terminates [OF demo_realloc_ok(1) demo_verify demo_ranked _ demo_ctx])
    (simp_all add: text_ok_def)

text \<open>
  C4: \<^verbatim>\<open>js_def_realloc\<close> on a null or live pointer always returns, and the counters of the runtime still
  describe exactly the live blocks.  Size 0 frees the block.  A request fails only when the bytes in
  use, less the old block, plus the request pass the memory limit or when the C library refuses
  it, and a failed request changes no block.  A granted request had passed that check, and replaces
  exactly the caller's block by one of at least the requested size, at the same address or at one
  that was not live.
\<close>

theorem realloc_accounting:
  assumes "js_malloc_wf s" and "p = 0 \<or> p \<in> dom (hp_blocks (malloc_heap s))"
  shows "\<exists>q s'. js_def_realloc s p n = Some (q, s') \<and> realloc_outcome s p n q s'"
  using assms by (rule js_def_realloc_outcome)

theorem realloc_accounting_witness:
  "\<exists>q s'. js_def_realloc demo_malloc 0 10 = Some (q, s') \<and> realloc_outcome demo_malloc 0 10 q s'"
  using realloc_accounting [OF demo_malloc_wf, of 0 10] by simp

text \<open>
  C5: \<^verbatim>\<open>rqsort\<close> always ends, never reads or writes outside the array, never overflows its stack of
  50 segments, and permutes the elements, whatever the comparison function answers: it may even
  answer differently when asked twice, as a function written in JavaScript may.
\<close>

theorem rqsort_permutes:
  "\<exists>m' s'. rqsort cmp (length m) m s = Some (m', s') \<and> mset m' = mset m"
  using rqsort_spec [of cmp m s "\<lambda>_ _. True"] by (auto simp: returns_def)

text \<open>
  C6: When the comparison function decides a total preorder \<open>le\<close>, the array \<^verbatim>\<open>rqsort\<close> leaves is
  sorted by \<open>le\<close>, through partitioning, insertion sort of small segments and the heap sort
  used below depth 50.
\<close>

theorem rqsort_sorts:
  assumes "cmp_ok cmp le"
  shows "\<exists>m' s'. rqsort cmp (length m) m s = Some (m', s') \<and> mset m' = mset m \<and> sorted_wrt le m'"
  using rqsort_spec [of cmp m s le] assms by (auto simp: returns_def)

theorem rqsort_sorts_witness:
  "\<exists>m' s'. rqsort js_TA_cmp_uint8 (length [9, 200, 7 :: u8]) [9, 200, 7] () = Some (m', s') \<and> mset m' = mset [9, 200, 7] \<and>
     sorted_wrt (\<lambda>x y. uint x \<le> uint y) m'"
  by (rule rqsort_sorts [OF ta_uint8.decides])

text \<open>
  C7: Whatever the address of the array and the size of its elements, the function
  \<^verbatim>\<open>exchange_func\<close> chooses for swapping two elements makes only aligned accesses inside them
  and exchanges exactly these two elements of the array.
\<close>

theorem exchange_refines_swap:
  assumes "\<forall>x \<in> set xs. length x = unat sz" and "sz \<noteq> 0" and "i < length xs" and "j < length xs"
  shows "exchange_func base sz (unat base) (i * unat sz) (j * unat sz) (unat sz) (concat xs)
       = map_option concat (swap_el i j xs)"
  using assms by (rule exchange_func_swap)

theorem exchange_refines_swap_witness:
  "exchange_func 4 2 4 0 2 2 (concat [[1, 2], [3, 4]]) = map_option concat (swap_el 0 1 [[1, 2], [3, 4]])"
  using exchange_refines_swap [of "[[1, 2], [3, 4]]" 2 0 1 4] by simp

text \<open>
  C8: Wherever the encoding of a code point below \<open>2\<^sup>3\<^sup>1\<close> stands in a buffer and whatever follows, the
  decoder returns this code point and the position after its last byte.
\<close>

theorem utf8_decodes_encoding:
  assumes "unat c < 2 ^ 31" and "int (length (unicode_to_utf8 c)) \<le> max_len"
  shows "unicode_from_utf8 (pre @ unicode_to_utf8 c @ post) (length pre) max_len =
     Some (uint c, length pre + length (unicode_to_utf8 c))"
  using assms by (rule utf8_roundtrip)

theorem utf8_decodes_encoding_witness:
  "unicode_from_utf8 ([65] @ unicode_to_utf8 0x20AC @ [0]) 1 6 = Some (0x20AC, 4)"
  using utf8_decodes_encoding [of "0x20AC" 6 "[65]" "[0]"] by (simp add: unicode_to_utf8_def)

text \<open>
  C9: The decoder accepts nothing but encodings: when it returns a code point, the bytes it consumed
  are exactly the canonical encoding of this code point, so overlong forms are rejected.
\<close>

theorem utf8_accepts_only_encodings:
  assumes "unicode_from_utf8 m p max_len = Some (v, p')" and "0 \<le> v"
  shows "\<exists>c. v = uint c \<and> unat c < 2 ^ 31 \<and> p' = p + length (unicode_to_utf8 c) \<and>
     take (length (unicode_to_utf8 c)) (drop p m) = unicode_to_utf8 c"
  using assms by (rule utf8_decode_inverse)

theorem utf8_accepts_only_encodings_witness:
  "\<exists>c. (65 :: int) = uint c \<and> unat c < 2 ^ 31 \<and> 1 = 0 + length (unicode_to_utf8 c) \<and>
     take (length (unicode_to_utf8 c)) (drop 0 [65, 66]) = unicode_to_utf8 c"
  by (rule utf8_accepts_only_encodings [of "[65, 66]" 0 6 65 1]) (simp_all add: unicode_from_utf8_def rd_def)

text \<open>
  C10: On a zero-terminated buffer the decoder never reads past the terminator and never moves the
  position beyond it, whatever \<^verbatim>\<open>max_len\<close> the caller passes.
\<close>

theorem utf8_nul_terminated_safe:
  assumes "p \<le> i" and "i < length m" and "m ! i = 0"
  shows "\<exists>v p'. unicode_from_utf8 m p max_len = Some (v, p') \<and> p' \<le> Suc i"
  using assms by (rule utf8_stops_at_nul)

theorem utf8_nul_terminated_safe_witness:
  "\<exists>v p'. unicode_from_utf8 [0xF0, 0x80, 0] 0 100 = Some (v, p') \<and> p' \<le> Suc 2"
  using utf8_nul_terminated_safe [of 0 2 "[0xF0, 0x80, 0]" 100] by simp

text \<open>
  C11: The shifts and masks of \<^verbatim>\<open>unicode_to_utf8\<close> compute the arithmetic definition of the format: a
  lead byte that marks the length and carries the leading digits, then the base 64 digits.
\<close>

theorem utf8_encoder_refines_spec:
  assumes "unat c < 2 ^ 31"
  shows "map unat (unicode_to_utf8 c) = utf8_spec (unat c)"
  using assms by (rule unicode_to_utf8_spec)

theorem utf8_encoder_refines_spec_witness: "map unat (unicode_to_utf8 0x1F600) = utf8_spec (unat (0x1F600 :: u32))"
  using utf8_encoder_refines_spec [of "0x1F600"] by simp

text \<open>
  C12: \<^verbatim>\<open>cr_op\<close> on two sorted point lists: when the allocator refuses none of the requests made during the
  call the result is 0 and a normalised range that contains exactly the code points of the union,
  intersection or symmetric difference; when it refuses one the result is -1.  The lists have
  together at most \<open>2\<^sup>2\<^sup>9\<close> points, so that the \<^verbatim>\<open>int\<close> arithmetic on lengths does not overflow.
\<close>

theorem cr_op_correct:
  assumes "cr_wf cr" and "cr_len cr = 0"
    and "sorted (take al a)" and "al \<le> length a" and "even al"
    and "sorted (take bl b)" and "bl \<le> length b" and "even bl" and "al + bl \<le> 2 ^ 29"
    and "records (cr_realloc_func cr) seen" and "\<not> seen h"
  shows "\<exists>r cr' h'. cr_op cr a al b bl op h = Some (r, cr', h') \<and> cr_wf cr' \<and>
     (r = 0 \<and> \<not> seen h' \<and> cr_valid cr' \<and>
        (\<forall>c. cr_mem cr' c = cr_op_bool op (in_points (take al a) c) (in_points (take bl b) c)) \<or>
      r = -1 \<and> seen h')"
  using cr_op_valid [OF assms(1-9), of op h] cr_op_records [OF assms(1,10,11), of a al b bl op] by fastforce

theorem cr_op_correct_witness:
  "\<exists>r cr' h'. cr_op demo_cr [1, 5] 2 [3, 9] 2 CR_OP_INTER (False, demo_heap) = Some (r, cr', h') \<and> cr_wf cr' \<and>
     (r = 0 \<and> \<not> fst h' \<and> cr_valid cr' \<and>
        (\<forall>c. cr_mem cr' c = cr_op_bool CR_OP_INTER (in_points (take 2 [1, 5]) c) (in_points (take 2 [3, 9]) c)) \<or>
      r = -1 \<and> fst h')"
  by (rule cr_op_correct [OF demo_cr(1,3) _ _ _ _ _ _ _ demo_cr(4)]) simp_all

text \<open>
  C13: \<^verbatim>\<open>cr_invert\<close> of a normalised range is a normalised range with exactly the other code points
  (below the largest 32-bit value) and the result 0, unless the request for memory made during the
  call was refused: then the result is -1.  The length is at most \<open>2\<^sup>2\<^sup>9 - 2\<close> points, so that the
  \<^verbatim>\<open>int\<close> arithmetic does not overflow.
\<close>

theorem cr_invert_correct:
  assumes "cr_valid cr" and "cr_len cr + 2 \<le> 2 ^ 29" and "records (cr_realloc_func cr) seen" and "\<not> seen h"
  shows "\<exists>r cr' h'. cr_invert cr h = Some (r, cr', h') \<and> cr_wf cr' \<and>
     (r = 0 \<and> \<not> seen h' \<and> cr_valid cr' \<and> (\<forall>c<0xffffffff. cr_mem cr' c = (\<not> cr_mem cr c)) \<or>
      r = -1 \<and> seen h')"
  using cr_invert_valid [OF assms(1,2), of h] cr_invert_records [OF assms(3,4)] by fastforce

theorem cr_invert_correct_witness:
  "\<exists>r cr' h'. cr_invert demo_cr (False, demo_heap) = Some (r, cr', h') \<and> cr_wf cr' \<and>
     (r = 0 \<and> \<not> fst h' \<and> cr_valid cr' \<and> (\<forall>c<0xffffffff. cr_mem cr' c = (\<not> cr_mem demo_cr c)) \<or>
      r = -1 \<and> fst h')"
  by (rule cr_invert_correct [OF demo_cr(2) _ demo_cr(4)]) (simp_all add: demo_cr(3))

text \<open>
  C14: \<^verbatim>\<open>cr_union_interval\<close> keeps a range normalised (sorted, disjoint, an even number of points) and
  adds exactly the code points from \<open>c1\<close> to \<open>c2\<close>, with the result 0, unless one of the requests for
  memory made during the call was refused: then the result is -1.  \<open>c2\<close> is below the largest
  32-bit value, and the length at most \<open>2\<^sup>2\<^sup>9 - 2\<close> points.
\<close>

theorem cr_union_interval_correct:
  assumes "cr_valid cr" and "c1 \<le> c2" and "c2 < 0xffffffff" and "cr_len cr + 2 \<le> 2 ^ 29"
    and "records (cr_realloc_func cr) seen" and "\<not> seen h"
  shows "\<exists>r cr' h'. cr_union_interval cr c1 c2 h = Some (r, cr', h') \<and> cr_wf cr' \<and>
     (r = 0 \<and> \<not> seen h' \<and> cr_valid cr' \<and>
        (\<forall>c. cr_mem cr' c = (cr_mem cr c \<or> (c1 \<le> c \<and> c \<le> c2))) \<or>
      r = -1 \<and> seen h')"
  using cr_union_interval_valid [OF assms(1-4), of h]
    cr_union1_records [OF assms(5,6), of "[c1, c2 + 1]" 2, folded cr_union_interval_def] by fastforce

theorem cr_union_interval_correct_witness:
  "\<exists>r cr' h'. cr_union_interval demo_cr 65 90 (False, demo_heap) = Some (r, cr', h') \<and> cr_wf cr' \<and>
     (r = 0 \<and> \<not> fst h' \<and> cr_valid cr' \<and>
        (\<forall>c. cr_mem cr' c = (cr_mem demo_cr c \<or> (65 \<le> c \<and> c \<le> 90))) \<or>
      r = -1 \<and> fst h')"
  by (rule cr_union_interval_correct [OF demo_cr(2) _ _ _ demo_cr(4)]) (simp_all add: demo_cr(3))



text \<open>
  C16: \<^verbatim>\<open>JS_EnqueueJob\<close> puts the new job behind all pending ones and returns 0, or returns -1 when
  memory is exhausted; in no case is a pending job lost or reordered.
\<close>

theorem enqueue_appends:
  assumes "jobq rt held js" and "hooks_ok hk" and "length argv < 2 ^ 31"
  shows "\<exists>ret rt'. js_enqueue_job hk ctx f argv rt = Some (ret, rt') \<and>
     (ret = 0 \<and> jobq rt' held (js @ [\<lparr>je_ctx = ctx, je_func = f, je_argv = argv\<rparr>]) \<or>
      ret = - 1 \<and> (\<exists>new. jobq rt' held (js @ new)))"
  using js_enqueue_job_jobq [OF assms, of ctx f] by blast

theorem enqueue_appends_witness:
  "\<exists>ret rt'. js_enqueue_job demo_hooks 7 8 [] demo_rt = Some (ret, rt') \<and>
     (ret = 0 \<and> jobq rt' {} ([demo_job] @ [\<lparr>je_ctx = 7, je_func = 8, je_argv = []\<rparr>]) \<or>
      ret = - 1 \<and> (\<exists>new. jobq rt' {} ([demo_job] @ new)))"
  by (rule enqueue_appends [OF demo_rt_queue demo_hooks_ok]) simp

text \<open>
  C17: \<^verbatim>\<open>list_for_each_safe\<close> visits all elements once and in order while the body unlinks those that
  satisfy \<open>P\<close>; afterwards the list links exactly the others, in the same order.
\<close>

theorem list_safe_removal:
  assumes "is_list h head xs"
  shows "\<exists>h'. list_for_each_safe (removes_at P f) head s h = Some (fold f xs s, h') \<and>
     is_list h' head (filter (Not \<circ> P) xs)"
  using assms by (rule list_for_each_safe_removes)

theorem list_safe_removal_witness:
  "\<exists>h'. list_for_each_safe (removes_at (\<lambda>x. x = 2) (\<lambda>x n. n + x)) 1 0 demo_store = Some (fold (\<lambda>x n. n + x) [2, 3] 0, h') \<and>
     is_list h' 1 (filter (Not \<circ> (\<lambda>x. x = 2)) [2, 3])"
  by (rule list_safe_removal [OF demo_list])

text \<open>
  C18: \<^verbatim>\<open>list_add\<close> links a new element in front of all others and \<^verbatim>\<open>list_add_tail\<close> behind them; no node
  outside the list, its head and the element is changed.
\<close>

theorem list_add_both_ends:
  assumes "is_list h head xs" and "h el \<noteq> None" and "el \<notin> set (head # xs)"
  shows "(\<exists>h'. list_add h el head = Some h' \<and> is_list h' head (el # xs) \<and>
       same_outside (set (head # el # xs)) h h') \<and>
     (\<exists>h'. list_add_tail h el head = Some h' \<and> is_list h' head (xs @ [el]) \<and>
       same_outside (set (head # el # xs)) h h')"
  using list_add_is_list [OF assms] list_add_tail_is_list [OF assms] by blast

theorem list_add_both_ends_witness:
  "(\<exists>h'. list_add (demo_store(4 \<mapsto> \<lparr>lh_prev = 0, lh_next = 0\<rparr>)) 4 1 = Some h' \<and> is_list h' 1 (4 # [2, 3]) \<and>
       same_outside (set (1 # 4 # [2, 3])) (demo_store(4 \<mapsto> \<lparr>lh_prev = 0, lh_next = 0\<rparr>)) h') \<and>
     (\<exists>h'. list_add_tail (demo_store(4 \<mapsto> \<lparr>lh_prev = 0, lh_next = 0\<rparr>)) 4 1 = Some h' \<and> is_list h' 1 ([2, 3] @ [4]) \<and>
       same_outside (set (1 # 4 # [2, 3])) (demo_store(4 \<mapsto> \<lparr>lh_prev = 0, lh_next = 0\<rparr>)) h')"
  by (rule list_add_both_ends) (simp_all add: demo_store_def is_list_def get_next_def get_prev_def)

text \<open>
  C19: For every 32-bit value and every conversion \<^verbatim>\<open>lre_case_conv\<close> stays inside the case conversion
  tables and stores at least one and at most three code points, the size of the callers' buffers.
\<close>

theorem case_conv_total:
  "\<exists>res. lre_case_conv c conv_type = Some res \<and> 1 \<le> length res \<and> length res \<le> 3"
  by (rule lre_case_conv_defined)

text \<open>
  C20: Sorting with \<^verbatim>\<open>js_TA_cmp_float64\<close> leaves the doubles in the order of the language: numbers
  increasing, \<open>-0\<close> before \<open>+0\<close>, NaNs last.
\<close>

theorem typed_array_float_order:
  "\<exists>m' s'. rqsort js_TA_cmp_float64 (length m) m s = Some (m', s') \<and> mset m' = mset m \<and>
     sorted_wrt (\<lambda>x y. dbl_rank x \<le> dbl_rank y) m'"
  using ta_float64.sorts [of m s] by (auto simp: returns_def)

text \<open>
  C21: \<^verbatim>\<open>dbuf_put\<close> on a well-formed buffer never writes outside it: it appends the bytes and returns 0,
  or returns -1, keeps the contents and sets the sticky error flag.
\<close>

theorem dbuf_put_appends:
  assumes "dbuf_wf s" and "length d \<le> obj_max"
  shows "\<exists>r s' h'. dbuf_put s d h = Some (r, s', h') \<and> dbuf_wf s' \<and>
     (r = 0 \<and> db_content s' = db_content s @ d \<and> db_error s' = db_error s \<or>
      r = - 1 \<and> db_content s' = db_content s \<and> db_error s')"
  by (rule dbuf_put_cases [OF assms, of h]) auto

theorem dbuf_put_appends_witness:
  "\<exists>r s' h'. dbuf_put demo_dbuf [1, 2] demo_heap = Some (r, s', h') \<and> dbuf_wf s' \<and>
     (r = 0 \<and> db_content s' = db_content demo_dbuf @ [1, 2] \<and> db_error s' = db_error demo_dbuf \<or>
      r = - 1 \<and> db_content s' = db_content demo_dbuf \<and> db_error s')"
  by (rule dbuf_put_appends [OF demo_dbuf_wf]) (simp add: obj_max_def)

text \<open>
  C22: \<^verbatim>\<open>dbuf_insert\<close> opens a gap of \<open>n\<close> bytes at \<open>pos\<close> and keeps everything before and after it, or
  returns -1 with the contents unchanged and the error flag set.
\<close>

theorem dbuf_insert_opens_gap:
  assumes "dbuf_wf s" and "n \<le> obj_max" and "pos \<le> db_size s"
  shows "\<exists>r s' h'. dbuf_insert s pos n h = Some (r, s', h') \<and> dbuf_wf s' \<and>
     (r = 0 \<and> (\<exists>gap. length gap = n \<and> db_content s' = take pos (db_content s) @ gap @ drop pos (db_content s)) \<or>
      r = - 1 \<and> db_content s' = db_content s \<and> db_error s')"
  by (rule dbuf_insert_cases [OF assms, of h]) auto

theorem dbuf_insert_opens_gap_witness:
  "\<exists>r s' h'. dbuf_insert demo_dbuf 0 5 demo_heap = Some (r, s', h') \<and> dbuf_wf s' \<and>
     (r = 0 \<and> (\<exists>gap. length gap = 5 \<and> db_content s' = take 0 (db_content demo_dbuf) @ gap @ drop 0 (db_content demo_dbuf)) \<or>
      r = - 1 \<and> db_content s' = db_content demo_dbuf \<and> db_error s')"
  by (rule dbuf_insert_opens_gap [OF demo_dbuf_wf]) (simp_all add: obj_max_def)

text \<open>
  C23: \<^verbatim>\<open>pstrcat\<close> writes only into the first \<open>n\<close> bytes of the buffer and leaves there the terminated
  concatenation, truncated to \<open>n - 1\<close> characters.
\<close>

theorem pstrcat_bounded:
  assumes "0 \<notin> set a" and "0 \<notin> set s" and "length a < n" and "n \<le> length a + 1 + length rest"
  shows "pstrcat (a @ 0 # rest) 0 (int n) (pre @ s @ 0 # post) (length pre) =
     Some (take (n - 1) (a @ s) @ 0 # drop (length (take (n - 1 - length a) s)) rest)"
  using assms by (rule pstrcat_eq)

theorem pstrcat_bounded_witness:
  "pstrcat ([1] @ 0 # [0, 0]) 0 3 ([] @ [2, 3, 4] @ 0 # []) 0 = Some ([1, 2] @ 0 # [0])"
  using pstrcat_bounded [of "[1]" "[2, 3, 4]" 3 "[0, 0]" "[]" "[]"] by simp

text \<open>
  C24: Division of multi-limb numbers.  For a divisor whose top bit is set \<^verbatim>\<open>mp_divnorm\<close> returns, leaves
  in \<^verbatim>\<open>tabq\<close> the quotient and in \<^verbatim>\<open>taba\<close> the remainder, and does not change the divisor.  The sizes
  are those below the threshold from which the reciprocal based routine is called.
\<close>

theorem divnorm_divides:
  fixes m :: limbs
  assumes "nb \<le> na" "1 \<le> nb" "nb < 2 ^ 31" and "nb = 1 \<or> na - nb < 50 \<or> nb < 50"
    and "2 ^ 63 \<le> unat (m ! (tabb + (nb - 1)))"
    and "tabq + (na - nb + 1) \<le> length m" "taba + na \<le> length m" "tabb + nb \<le> length m"
    and "apart_mem tabq (na - nb + 1) taba na" "apart_mem tabq (na - nb + 1) tabb nb" "apart_mem taba na tabb nb"
  shows "\<exists>m'. mp_divnorm large m tabq taba na tabb nb = Some (0, m') \<and>
     lval m' tabq (na - nb + 1) = lval m taba na div lval m tabb nb \<and>
     lval m' taba nb = lval m taba na mod lval m tabb nb \<and> lval m' tabb nb = lval m tabb nb"
proof -
  have unique: "x = d * y + z \<Longrightarrow> z < y \<Longrightarrow> d = x div y \<and> z = x mod y" for x d y z :: nat
    by (metis div_mult_mod_eq div_mult_self3 div_less add.right_neutral add_left_cancel gr_implies_not0)
  show ?thesis
    using mp_divnorm_returns [OF assms, of large] unique by (fastforce simp: returns_def)
qed

theorem divnorm_divides_witness:
  "\<exists>m'. mp_divnorm (\<lambda>_ _ _ _ _ _. None) [5, 6, 7, 1, 2 ^ 63, 0, 0] 5 0 3 3 2 = Some (0, m') \<and>
     lval m' 5 (3 - 2 + 1) = lval [5, 6, 7, 1, 2 ^ 63, 0, 0] 0 3 div lval [5, 6, 7, 1, 2 ^ 63, 0, 0] 3 2 \<and>
     lval m' 0 2 = lval [5, 6, 7, 1, 2 ^ 63, 0, 0] 0 3 mod lval [5, 6, 7, 1, 2 ^ 63, 0, 0] 3 2 \<and>
     lval m' 3 2 = lval [5, 6, 7, 1, 2 ^ 63, 0, 0] 3 2"
  by (rule divnorm_divides) (simp_all add: apart_mem_def)

text \<open>
  C25: The loop \<^verbatim>\<open>for(;;)\<close> that corrects a trial quotient has no bound of its own.  When the remainder is
  negative, represented modulo a power of the base, and adding the divisor \<open>k + 1\<close> times makes it
  non-negative, the loop ends, after having decreased the quotient by exactly \<open>k + 1\<close>.
\<close>

theorem divnorm_correction_ends:
  assumes "a + Suc nb \<le> length m" and "tabb + nb \<le> length m" and "apart_mem a (Suc nb) tabb nb"
    and "limb_base ^ Suc nb \<le> lval m a (Suc nb) + Suc k * lval m tabb nb"
    and "lval m a (Suc nb) + k * lval m tabb nb < limb_base ^ Suc nb" and "k < unat q"
  shows "\<exists>q' m'. mp_divnorm_fix m a tabb nb q = Some (q', m') \<and> unat q' + Suc k = unat q \<and>
     m' ! (a + nb) = 0 \<and> lval m' a nb + limb_base ^ Suc nb = lval m a (Suc nb) + Suc k * lval m tabb nb"
  using mp_divnorm_fix_returns [OF assms] by (auto simp: returns_def)

theorem divnorm_correction_ends_witness:
  "\<exists>q' m'. mp_divnorm_fix [0xFFFFFFFFFFFFFFFD, 0xFFFFFFFFFFFFFFFF, 2] 0 2 1 9 = Some (q', m') \<and> unat q' + Suc 1 = unat (9 :: limb) \<and>
     m' ! (0 + 1) = 0 \<and> lval m' 0 1 + limb_base ^ Suc 1 = lval [0xFFFFFFFFFFFFFFFD, 0xFFFFFFFFFFFFFFFF, 2] 0 (Suc 1) + Suc 1 * lval [0xFFFFFFFFFFFFFFFD, 0xFFFFFFFFFFFFFFFF, 2] 2 1"
  by (rule divnorm_correction_ends) (simp_all add: apart_mem_def)

text \<open>
  C26: The division of a double limb by a normalised limb through its precomputed inverse, with its
  sign tricks on wrapped words, computes quotient and remainder.
\<close>

theorem udiv1norm_exact:
  assumes "2 ^ 63 \<le> unat d" and "unat a1 < unat d" and "udiv1norm a1 a0 d (udiv1norm_init d) = (q, r)"
  shows "unat q = (unat a1 * limb_base + unat a0) div unat d \<and> unat r = (unat a1 * limb_base + unat a0) mod unat d"
proof -
  have "unat q * unat d + unat r = unat a1 * limb_base + unat a0" "unat r < unat d"
    using udiv1norm_correct [OF assms] by auto
  then show ?thesis by (metis div_mult_self3 div_less add.right_neutral mod_mult_self3 mod_less gr_implies_not0)
qed

theorem udiv1norm_exact_witness:
  "\<exists>q r. udiv1norm 5 7 (2 ^ 63) (udiv1norm_init (2 ^ 63)) = (q, r) \<and>
     unat q = (unat (5 :: limb) * limb_base + unat (7 :: limb)) div unat (2 ^ 63 :: limb) \<and>
     unat r = (unat (5 :: limb) * limb_base + unat (7 :: limb)) mod unat (2 ^ 63 :: limb)"
proof -
  obtain q r where qr: "udiv1norm 5 7 (2 ^ 63) (udiv1norm_init (2 ^ 63)) = (q, r)" by (rule prod.exhaust)
  show ?thesis using udiv1norm_exact [OF _ _ qr] qr by simp
qed

text \<open>
  C27: Schoolbook multiplication: \<^verbatim>\<open>mp_mul_basecase\<close> writes the product of its operands and changes no
  other limb.
\<close>

theorem mul_basecase_product:
  assumes "result + (n1 + n2) \<le> length m" and "op1 + n1 \<le> length m" and "op2 + n2 \<le> length m" and "0 < n2"
    and "apart_mem result (n1 + n2) op1 n1" and "apart_mem result (n1 + n2) op2 n2"
  shows "\<exists>m'. mp_mul_basecase m result op1 n1 op2 n2 = Some m' \<and> only_changes m m' result (n1 + n2) \<and>
     lval m' result (n1 + n2) = lval m op1 n1 * lval m op2 n2"
  using mp_mul_basecase_returns [OF assms] by (auto simp: returns_def)

theorem mul_basecase_product_witness:
  "\<exists>m'. mp_mul_basecase [3, 4, 5, 0, 0, 0] 3 0 2 2 1 = Some m' \<and> only_changes [3, 4, 5, 0, 0, 0] m' 3 (2 + 1) \<and>
     lval m' 3 (2 + 1) = lval [3, 4, 5, 0, 0, 0] 0 2 * lval [3, 4, 5, 0, 0, 0] 2 1"
  by (rule mul_basecase_product) (simp_all add: apart_mem_def)

text \<open>
  C28: The same multiplication in base \<open>10\<^sup>1\<^sup>9\<close>, where every round divides a double limb by the base
  through multiplication: the product is exact and its limbs are below the base.
\<close>

theorem dec_mul_product:
  assumes "result + (n1 + n2) \<le> length m" and "op1 + n1 \<le> length m" and "op2 + n2 \<le> length m" and "0 < n2"
    and "apart_mem result (n1 + n2) op1 n1" and "apart_mem result (n1 + n2) op2 n2"
    and "digits_ok dec_base m op1 n1" and "digits_ok dec_base m op2 n2"
  shows "\<exists>m'. mp_mul_basecase_dec m result op1 n1 op2 n2 = Some m' \<and> only_changes m m' result (n1 + n2) \<and>
     digits_ok dec_base m' result (n1 + n2) \<and> dval m' result (n1 + n2) = dval m op1 n1 * dval m op2 n2"
  using mp_mul_basecase_dec_returns [OF assms] by (auto simp: returns_def)

theorem dec_mul_product_witness:
  "\<exists>m'. mp_mul_basecase_dec [3, 4, 5, 0, 0, 0] 3 0 2 2 1 = Some m' \<and> only_changes [3, 4, 5, 0, 0, 0] m' 3 (2 + 1) \<and>
     digits_ok dec_base m' 3 (2 + 1) \<and> dval m' 3 (2 + 1) = dval [3, 4, 5, 0, 0, 0] 0 2 * dval [3, 4, 5, 0, 0, 0] 2 1"
  by (rule dec_mul_product) (simp_all add: apart_mem_def digits_ok_list upt_rec)

text \<open>
  C29: \<^verbatim>\<open>mp_div1_dec\<close> divides a decimal number by any limb on every branch: the special case 2, the
  precomputed inverse with and without normalising shift, and the double limb division.
\<close>

theorem div1_dec_divides:
  assumes "b \<noteq> 0" and "unat r < unat b" and "tabr + n \<le> length m" and "taba + n \<le> length m"
    and "reads_down tabr taba n" and "digits_ok dec_base m taba n"
  shows "\<exists>r' m'. mp_div1_dec m tabr taba n b r = Some (r', m') \<and> only_changes m m' tabr n \<and> unat r' < unat b \<and>
     digits_ok dec_base m' tabr n \<and> dval m' tabr n * unat b + unat r' = dval m taba n + unat r * dec_base ^ n"
  using mp_div1_dec_returns [OF assms] by (auto simp: returns_def)

theorem div1_dec_divides_witness:
  "\<exists>r' m'. mp_div1_dec [3, 4, 5] 0 0 3 7 2 = Some (r', m') \<and> only_changes [3, 4, 5] m' 0 3 \<and> unat r' < unat (7 :: limb) \<and>
     digits_ok dec_base m' 0 3 \<and>
     dval m' 0 3 * unat (7 :: limb) + unat r' = dval [3, 4, 5] 0 3 + unat (2 :: limb) * dec_base ^ 3"
  by (rule div1_dec_divides) (simp_all add: reads_down_def digits_ok_list upt_rec)

text \<open>
  C30: \<^verbatim>\<open>mp_add_dec\<close>, \<^verbatim>\<open>mp_sub_dec\<close> and \<^verbatim>\<open>mp_sub_mul1_dec\<close> on limbs below \<open>10\<^sup>1\<^sup>9\<close>: sum and difference
  (with the carry or borrow passed in) and the difference to a multiple are exact, with the carry or
  borrow returned; the limbs of the result are below \<open>10\<^sup>1\<^sup>9\<close> again, and no other limb changes.
\<close>

theorem dec_add_sub_exact:
  assumes "r + n \<le> length m" and "a + n \<le> length m" and "b + n \<le> length m" and "reads_ok r a n" and "reads_ok r b n"
    and "digits_ok dec_base m r n" and "digits_ok dec_base m a n" and "digits_ok dec_base m b n"
    and "unat c \<le> 1" and "unat d < dec_base"
  shows "(\<exists>k m'. mp_add_dec m r a b n c = Some (k, m') \<and> only_changes m m' r n \<and> digits_ok dec_base m' r n \<and>
       unat k \<le> 1 \<and> dval m' r n + unat k * dec_base ^ n = dval m a n + dval m b n + unat c) \<and>
     (\<exists>k m'. mp_sub_dec m r a b n c = Some (k, m') \<and> only_changes m m' r n \<and> digits_ok dec_base m' r n \<and>
       unat k \<le> 1 \<and> dval m' r n + dval m b n + unat c = dval m a n + unat k * dec_base ^ n) \<and>
     (\<exists>k m'. mp_sub_mul1_dec m r a n d = Some (k, m') \<and> only_changes m m' r n \<and> digits_ok dec_base m' r n \<and>
       unat k < dec_base \<and> dval m' r n + dval m a n * unat d = dval m r n + unat k * dec_base ^ n)"
  using mp_add_dec_returns [OF assms(9,1-5,7,8)] mp_sub_dec_returns [OF assms(9,1-5,7,8)]
    mp_sub_mul1_dec_returns [OF assms(1,2,4,7,6,10)]
  by (auto simp: returns_def)

theorem dec_add_sub_exact_witness:
  "(\<exists>k m'. mp_add_dec [1, 2, 3] 0 1 2 1 1 = Some (k, m') \<and> dval m' 0 1 + unat k * dec_base ^ 1 = 6) \<and>
     (\<exists>k m'. mp_sub_dec [1, 2, 3] 0 1 2 1 1 = Some (k, m') \<and> dval m' 0 1 + 4 = 2 + unat k * dec_base ^ 1) \<and>
     (\<exists>k m'. mp_sub_mul1_dec [1, 2, 3] 0 1 1 9 = Some (k, m') \<and> dval m' 0 1 + 18 = 1 + unat k * dec_base ^ 1)"
  using dec_add_sub_exact [of 0 1 "[1, 2, 3]" 1 2 1 9]
  by (simp add: reads_ok_def digits_ok_def mp_val_sum) blast

text \<open>
  C31: \<^verbatim>\<open>mp_sub\<close> undoes \<^verbatim>\<open>mp_add\<close>: subtracting the second operand from the sum restores the value of the
  first, and the borrow is the carry of the addition.
\<close>

theorem add_sub_inverse:
  assumes "r + n \<le> length m" and "a + n \<le> length m" and "b + n \<le> length m" and "reads_ok r a n"
    and "apart_mem r n b n" and "n < 2 ^ 31"
  shows "\<exists>k m1 m2. mp_add m r a b n 0 = Some (k, m1) \<and> mp_sub m1 r r b n 0 = Some (k, m2) \<and> lval m2 r n = lval m a n"
proof -
  have rb: "reads_ok r b n" using assms(5) by (auto simp: reads_ok_def apart_mem_def)
  obtain k m1 where 1: "mp_add m r a b n 0 = Some (k, m1)" "only_changes m m1 r n" "unat k \<le> 1"
      "lval m1 r n + unat k * limb_base ^ n = lval m a n + lval m b n"
    using mp_add_returns [of 0, OF _ assms(1-4) rb] by (auto simp: returns_def)
  obtain k' m2 where 2: "mp_sub m1 r r b n 0 = Some (k', m2)" "unat k' \<le> 1"
      "lval m2 r n + lval m1 b n = lval m1 r n + unat k' * limb_base ^ n"
    using mp_sub_returns [of 0 r n m1 r b] 1(2) assms rb
    by (auto simp: returns_def only_changes_length reads_ok_def)
  have "lval m1 b n = lval m b n" by (rule mp_val_frame [OF 1(2) assms(5)])
  then have eq: "lval m2 r n + unat k * limb_base ^ n = lval m a n + unat k' * limb_base ^ n" using 1(4) 2(3) by simp
  have "unat k = unat k'" using eq 1(3) 2(2) mp_val_limb_bound [of m2 r n] mp_val_limb_bound [of m a n]
    by (cases "unat k = 0"; cases "unat k' = 0") (simp_all add: le_Suc_eq)
  then have "k = k'" "lval m2 r n = lval m a n" using eq by (simp_all add: word_unat_eq_iff)
  then show ?thesis using 1(1) 2(1) by blast
qed

theorem add_sub_inverse_witness:
  "\<exists>k m1 m2. mp_add [- 1, - 1, 9, 8] 0 0 2 2 0 = Some (k, m1) \<and> mp_sub m1 0 0 2 2 0 = Some (k, m2) \<and>
     lval m2 0 2 = lval [- 1, - 1, 9, 8] 0 2"
  by (rule add_sub_inverse) (simp_all add: reads_ok_def apart_mem_def)

text \<open>
  C32: \<^verbatim>\<open>bf_isqrt\<close>, from an 8-bit table and two Newton steps, returns for every 64-bit value the integer
  part of its square root.
\<close>

theorem isqrt_floor:
  "\<exists>s. bf_isqrt a = Some s \<and> unat s * unat s \<le> unat a \<and> unat a < (unat s + 1) * (unat s + 1)"
  by (rule bf_isqrt_correct)

text \<open>
  C33: \<^verbatim>\<open>mp_sqrtrem2\<close> leaves root and remainder of a normalised two-limb number, the remainder at most
  twice the root.
\<close>

theorem sqrtrem2_floor:
  assumes "taba + 2 \<le> length m" "tabs < length m" and "2 ^ 62 \<le> unat (m ! (taba + 1))"
  shows "\<exists>rh s r0. mp_sqrtrem2 m tabs taba = Some (rh, m[tabs := s, taba := r0]) \<and>
     is_sqrtrem (lval m taba 2) (unat s) (unat rh * limb_base + unat r0)"
  using assms by (rule mp_sqrtrem2_correct)

theorem sqrtrem2_floor_witness:
  "\<exists>rh s r0. mp_sqrtrem2 [0, 7, 2 ^ 63] 0 1 = Some (rh, [0, 7, 2 ^ 63][0 := s, 1 := r0]) \<and>
     is_sqrtrem (lval [0, 7, 2 ^ 63] 1 2) (unat s) (unat rh * limb_base + unat r0)"
  by (rule sqrtrem2_floor) simp_all

text \<open>
  C34: Division by an invariant divisor through one multiplication and two shifts is exact for all
  64-bit dividends, for every divisor \<^verbatim>\<open>fast_udiv_init\<close> can treat, up to \<open>2\<^sup>6\<^sup>3\<close>.
\<close>

theorem fast_udiv_exact:
  assumes "0 < unat d" and "unat d \<le> 2 ^ 63"
  shows "\<exists>s. fast_udiv_init d = Some s \<and> (\<forall>a. unat (fast_udiv a s) = unat a div unat d)"
  using assms by (rule fast_udiv_init_correct)

theorem fast_udiv_exact_witness:
  "\<exists>s. fast_udiv_init 1000 = Some s \<and> (\<forall>a. unat (fast_udiv a s) = unat a div unat (1000 :: limb))"
  by (rule fast_udiv_exact) simp_all

text \<open>
  C35: \<^verbatim>\<open>mp_shl_dec\<close> by \<open>s\<close> digits followed by \<^verbatim>\<open>mp_shr_dec\<close> by \<open>s\<close> digits, with the digits that left at the
  top handed back, restores the number; the precomputed table entries for the powers of ten
  are exact.
\<close>

theorem shr_shl_dec_inverse:
  assumes "1 \<le> s" and "s < 19" and "r + n \<le> length m" and "a + n \<le> length m" and "reads_ok r a n"
    and "digits_ok dec_base m a n" and "unat low < 10 ^ s"
  shows "\<exists>h m1 m2. mp_shl_dec m r a n s low = Some (h, m1) \<and> mp_shr_dec m1 r r n s h = Some (low, m2) \<and>
     dval m2 r n = dval m a n"
proof -
  obtain h m1 where 1: "mp_shl_dec m r a n s low = Some (h, m1)" "only_changes m m1 r n" "unat h < 10 ^ s"
      "digits_ok dec_base m1 r n" "dval m1 r n + unat h * dec_base ^ n = dval m a n * 10 ^ s + unat low"
    using mp_shl_dec_returns [OF assms] by (auto simp: returns_def)
  obtain l m2 where 2: "mp_shr_dec m1 r r n s h = Some (l, m2)" "unat l < 10 ^ s"
      "dval m2 r n * 10 ^ s + unat l = dval m1 r n + unat h * dec_base ^ n"
    using mp_shr_dec_returns [OF assms(1,2), of r n m1 r h] 1(2-4) assms(3)
    by (auto simp: returns_def only_changes_length reads_down_def)
  have eq: "dval m2 r n * 10 ^ s + unat l = dval m a n * 10 ^ s + unat low" using 1(5) 2(3) by simp
  have "dval m2 r n = dval m a n"
    using arg_cong [OF eq, of "\<lambda>x. x div 10 ^ s"] 2(2) assms(7) by simp
  moreover from this have "l = low" using eq by (simp add: word_unat_eq_iff)
  ultimately show ?thesis using 1(1) 2(1) by blast
qed

theorem shr_shl_dec_inverse_witness:
  "\<exists>h m1 m2. mp_shl_dec [123, 456] 0 0 2 3 7 = Some (h, m1) \<and> mp_shr_dec m1 0 0 2 3 h = Some (7, m2) \<and>
     dval m2 0 2 = dval [123, 456] 0 2"
  by (rule shr_shl_dec_inverse) (simp_all add: reads_ok_def digits_ok_list upt_rec)

text \<open>
  C36: The character tests decide the sets their tables stand for, for every 32-bit argument: a table is
  read as run lengths, alternately outside and inside the set, and starting a scan at the block
  the index gives never changes the result nor runs off the end of the table.
\<close>

theorem char_tests_decide_sets:
  "lre_is_case_ignorable c = Some (in_set_table unicode_prop_Case_Ignorable_table c) \<and>
   lre_is_id_start c = Some (in_set_table unicode_prop_ID_Start_table c) \<and>
   lre_is_id_continue c = Some (in_set_table unicode_prop_ID_Start_table c \<or> in_set_table unicode_prop_ID_Continue1_table c) \<and>
   lre_is_cased c = Some (list_ex (\<lambda>v. in_run v c) case_conv_table1 \<or> in_set_table unicode_prop_Cased1_table c)"
  by (simp add: lre_is_case_ignorable_def lre_is_id_start_def lre_is_id_continue_def in_table_sets lre_is_cased_set list_ex_iff)

text \<open>
  C37: Looking up the decomposition of any code point, canonical or compatible, stays inside the tables and
  inside the result array of 18 elements, through all the encodings of the entries; the length
  returned is zero or the number of code points stored.
\<close>

theorem decomp_char_bounded:
  "\<exists>n ws. unicode_decomp_char c is_compat1 = Some (n, ws) \<and> length ws \<le> UNICODE_DECOMP_LEN_MAX \<and> (n = 0 \<or> n = int (length ws))"
  using unicode_decomp_char_defined [of c is_compat1] by (auto simp: UNICODE_DECOMP_LEN_MAX_def)

text \<open>
  C38: Composition preserves canonical equivalence: decomposing the result of NFC or NFKC again and ordering it
  gives the canonical order of the full decomposition of the input.  The function returns, stays
  inside its buffer, and reports failure only when the allocator refuses a request made during the
  call, one of at most 64 GB.  The full decomposition of the input must not contain U+11A7, which
  the code composes away.
\<close>

theorem nfc_equivalent:
  assumes "allocator R" and "list_all code_point src" and "length src < 2 ^ 31"
    and "length (full_decomps (n_type = UNICODE_NFKC) src) < 2 ^ 31" and "0x11a7 \<notin> set (full_decomps (n_type = UNICODE_NFKC) src)"
    and "n_type = UNICODE_NFC \<or> n_type = UNICODE_NFKC"
  shows "(\<exists>out rest h'. unicode_normalize src n_type R h = Some (int (length out), Some (out @ rest), h') \<and>
       canon_decomp False out = canon_decomp (n_type = UNICODE_NFKC) src) \<or>
     (\<exists>h'. unicode_normalize src n_type R h = Some (-1, None, h') \<and>
       (\<forall>seen. records R seen \<longrightarrow> \<not> seen h \<longrightarrow> seen h')) \<and> \<not> grants R"
proof -
  define D where "D = full_decomps (n_type = UNICODE_NFKC) src"
  have ic: "(n_type div 2 \<noteq> 0) = (n_type = UNICODE_NFKC)" "n_type mod 2 = 0"
    using assms(6) by (auto simp: UNICODE_NFC_def UNICODE_NFKC_def)
  have src: "\<forall>c \<in> set src. code_point c" using assms(2) by (simp add: list_all_iff)
  have goal: "canon_decomp (n_type = UNICODE_NFKC) src = canon_order ccc D" by (simp add: canon_decomp_def D_def)
  show ?thesis
  proof (cases rule: unicode_normalize_cases [OF assms(1) src assms(3), of D n_type h, case_names D1 D2 fail latin1 decomp compose])
    case D1
    show ?case unfolding D_def ic(1) ..
  next
    case D2
    then show ?case using assms(4) by (simp add: D_def)
  next
    case (fail h')
    then show ?thesis by blast
  next
    case (latin1 buf h')
    then have "n_type \<noteq> UNICODE_NFKC" by (simp add: UNICODE_NFC_def UNICODE_NFKC_def)
    then show ?thesis using latin1 by (intro disjI1 exI [of _ src] exI [of _ buf] exI [of _ h']) simp
  next
    case (decomp h')
    have "canon_decomp False (canon_order ccc D) = canon_order ccc D"
      unfolding D_def by (rule canon_decomp_result [OF src])
    then show ?thesis unfolding goal using decomp
      by (intro disjI1 exI [of _ "canon_order ccc D"] exI [of _ "[]"] exI [of _ h']) simp
  next
    case (compose h')
    obtain out gap where "compose_loop (canon_order ccc D) (length D) 1 1 = Some (out @ gap, length out)" "canon_decomp False out = canon_order ccc D"
      using compose_canonical [OF src D_def compose(2)] assms(5) by (auto simp: D_def)
    then show ?thesis unfolding goal using compose(4)
      by (intro disjI1 exI [of _ out] exI [of _ gap] exI [of _ h']) simp
  qed
qed

theorem nfc_equivalent_witness:
  "\<exists>out rest h'. unicode_normalize [0x1112, 0x1161, 0x11ab] UNICODE_NFC demo_realloc () = Some (int (length out), Some (out @ rest), h') \<and>
     canon_decomp False out = canon_decomp (UNICODE_NFC = UNICODE_NFKC) [0x1112, 0x1161, 0x11ab]"
proof -
  have "full_decomps ic [0x1112, 0x1161, 0x11ab] = [0x1112, 0x1161, 0x11ab]" for ic
    by (simp add: full_decomp_id jamo_decomposed)
  then show ?thesis
    using nfc_equivalent [of demo_realloc "[0x1112, 0x1161, 0x11ab]" UNICODE_NFC "()"] demo_realloc_ok
    by (auto simp: code_point_def)
qed

text \<open>
  C39: NFD and NFKD: the result is the concatenation of the full decompositions of the characters, Hangul
  syllables included, in canonical order (every run of characters of non-zero combining class
  sorted stably by class), and none of its characters decomposes further.
\<close>

theorem nfd_canonical:
  assumes "allocator R" and "list_all code_point src" and "length src < 2 ^ 31"
    and "length (full_decomps (n_type = UNICODE_NFKD) src) < 2 ^ 31"
    and "n_type = UNICODE_NFD \<or> n_type = UNICODE_NFKD"
  shows "(\<exists>out h'. unicode_normalize src n_type R h = Some (int (length out), Some out, h') \<and>
       out = canon_order ccc (full_decomps (n_type = UNICODE_NFKD) src) \<and> list_all (decomposed (n_type = UNICODE_NFKD)) out) \<or>
     (\<exists>h'. unicode_normalize src n_type R h = Some (-1, None, h') \<and>
       (\<forall>seen. records R seen \<longrightarrow> \<not> seen h \<longrightarrow> seen h')) \<and> \<not> grants R"
proof -
  define D where "D = full_decomps (n_type = UNICODE_NFKD) src"
  have ic: "(n_type div 2 \<noteq> 0) = (n_type = UNICODE_NFKD)" "n_type mod 2 \<noteq> 0" "n_type \<noteq> UNICODE_NFC"
    using assms(5) by (auto simp: UNICODE_NFD_def UNICODE_NFKD_def UNICODE_NFC_def)
  have src: "\<forall>c \<in> set src. code_point c" using assms(2) by (simp add: list_all_iff)
  show ?thesis
  proof (cases rule: unicode_normalize_cases [OF assms(1) src assms(3), of D n_type h, case_names D1 D2 fail latin1 decomp compose])
    case D1
    show ?case unfolding D_def ic(1) ..
  next
    case D2
    then show ?case using assms(4) by (simp add: D_def)
  next
    case (decomp h')
    have "list_all (decomposed (n_type = UNICODE_NFKD)) (canon_order ccc D)"
      using full_decomps_props(2) [OF src] by (auto simp: list_all_iff D_def)
    then show ?thesis using decomp(2) by (intro disjI1 exI [of _ "canon_order ccc D"] exI [of _ h']) (simp add: D_def)
  qed (use ic in auto)
qed

theorem nfd_canonical_witness:
  "\<exists>out h'. unicode_normalize [0xac01, 0xd55c] UNICODE_NFD demo_realloc () = Some (int (length out), Some out, h') \<and>
     out = canon_order ccc (full_decomps (UNICODE_NFD = UNICODE_NFKD) [0xac01, 0xd55c]) \<and>
     list_all (decomposed (UNICODE_NFD = UNICODE_NFKD)) out"
proof -
  have "full_decomps ic [0xac01, 0xd55c] = [0x1100, 0x1161, 0x11a8, 0x1112, 0x1161, 0x11ab]" for ic
    by (simp add: full_decomp.simps hangul_syllable_def hangul_decomp_def Let_def)
  then show ?thesis
    using nfd_canonical [of demo_realloc "[0xac01, 0xd55c]" UNICODE_NFD "()"] demo_realloc_ok
    by (auto simp: code_point_def)
qed

text \<open>
  C40: \<^verbatim>\<open>compose_pair\<close> is total and inverse to decomposition: a non-zero result decomposes into the two
  characters, and composing onto a starter gives a starter.  Every pair of Hangul letters composes:
  a leading consonant and a vowel, and an LV syllable and a final consonant.  The exception is
  U+11A7 after an LV syllable, which the code accepts as an empty final consonant: the result is the
  syllable alone.
\<close>

theorem compose_pair_inverse:
  assumes "code_point c0" and "code_point c1"
  shows "\<exists>r. compose_pair c0 c1 = Some r \<and>
     (if c1 = 0x11a7 \<and> hangul_syllable c0 \<and> (c0 - 0xac00) mod 28 = 0 then r = c0
      else (r = 0 \<or> full_decomp False r = full_decomp False c0 @ full_decomp False c1 \<and> (ccc c0 \<noteq> 0 \<or> ccc r = 0)) \<and>
        (0x1100 \<le> c0 \<and> c0 < 0x1113 \<and> 0x1161 \<le> c1 \<and> c1 < 0x1176 \<longrightarrow> r \<noteq> 0) \<and>
        (hangul_syllable c0 \<and> (c0 - 0xac00) mod 28 = 0 \<and> 0x11a8 \<le> c1 \<and> c1 < 0x11c3 \<longrightarrow> r \<noteq> 0))"
proof (cases "c1 = 0x11a7 \<and> hangul_syllable c0 \<and> (c0 - 0xac00) mod 28 = 0")
  case True
  then have "compose_pair c0 c1 = Some c0" by (auto simp: compose_pair_def hangul_syllable_def)
  then show ?thesis using True by simp
next
  case False
  obtain r where r: "compose_pair c0 c1 = Some r"
    "r = 0 \<or> full_decomp False r = full_decomp False c0 @ full_decomp False c1 \<and> (ccc c0 \<noteq> 0 \<or> ccc r = 0)"
  proof (cases "c1 = 0x11a7")
    case no: False
    show ?thesis using compose_pair_sound [OF assms no] that by metis
  next
    case True
    then have "compose_pair c0 c1 = unicode_compose_pair c0 c1"
      using False by (auto simp: compose_pair_def hangul_syllable_def)
    moreover obtain r where "unicode_compose_pair c0 c1 = Some r" "r = 0 \<or> composes c0 c1 r"
      using unicode_compose_pair_sound [of c0 c1] assms by (auto simp: code_point_def)
    ultimately show ?thesis
      using that [of r] full_decomp_composed [of c0 c1 r] composed_class [of c0 c1 r] by auto
  qed
  have "0x1100 \<le> c0 \<and> c0 < 0x1113 \<and> 0x1161 \<le> c1 \<and> c1 < 0x1176 \<longrightarrow> r \<noteq> 0"
    "hangul_syllable c0 \<and> (c0 - 0xac00) mod 28 = 0 \<and> 0x11a8 \<le> c1 \<and> c1 < 0x11c3 \<longrightarrow> r \<noteq> 0"
    using r(1) by (auto simp: compose_pair_def hangul_syllable_def split: if_splits)
  with r show ?thesis by (simp only: if_not_P [OF False]) blast
qed

theorem compose_pair_inverse_witness:
  "(\<exists>r. compose_pair 0x1112 0x1161 = Some r \<and> r \<noteq> 0 \<and>
      full_decomp False r = full_decomp False 0x1112 @ full_decomp False 0x1161) \<and>
   compose_pair 0xac00 0x11a7 = Some 0xac00"
  using compose_pair_inverse [of "0x1112" "0x1161"] compose_pair_inverse [of "0xac00" "0x11a7"]
  by (auto simp: code_point_def hangul_syllable_def)

text \<open>The function \<^verbatim>\<open>rqsort\<close> chooses with \<^verbatim>\<open>exchange_func(base, size | 128)\<close> exchanges two disjoint
  spans of \<open>k\<close> elements, again with aligned accesses only.\<close>

theorem exchange_refines_swap_block:
  assumes "\<forall>x \<in> set xs. length x = unat sz" and "sz \<noteq> 0" and "i + k \<le> j" and "j + k \<le> length xs"
  shows "exchange_func base (sz OR 128) (unat base) (i * unat sz) (j * unat sz) (k * unat sz) (concat xs)
       = map_option concat (swap_block i j k xs)"
  using assms by (rule exchange_func_swap_block)

theorem exchange_refines_swap_block_witness:
  "exchange_func 8 (1 OR 128) 8 0 2 2 (concat [[1], [2], [3], [4]])
     = map_option concat (swap_block 0 2 2 [[1], [2], [3], [4]])"
  using exchange_refines_swap_block [of "[[1], [2], [3], [4]]" 1 0 2 2 8] by simp

text \<open>A text of valid code points is determined by the concatenation of the encodings: no two texts
  have the same bytes.\<close>

theorem utf8_text_decodable:
  assumes "\<forall>c \<in> set cs. unat c < 2 ^ 31" and "\<forall>c \<in> set cs'. unat c < 2 ^ 31"
    and "concat (map unicode_to_utf8 cs) = concat (map unicode_to_utf8 cs')"
  shows "cs = cs'"
  using assms by (rule utf8.enc_text_unique)

theorem utf8_text_decodable_witness: "[65, 0x20AC] = map (\<lambda>x. x :: u32) [65, 0x20AC]"
  by (rule utf8_text_decodable) simp_all

text \<open>The binary search over \<^verbatim>\<open>case_conv_table1\<close> finds a run exactly when some run of the table
  contains the character: the table is sorted and its runs are disjoint.\<close>

theorem case_conv_search_complete:
  "\<exists>r. case_conv_find case_conv_table1 c 0 (int (length case_conv_table1) - 1) = Some r \<and>
     (case r of None \<Rightarrow> \<forall>v \<in> set case_conv_table1. \<not> in_run v c
              | Some i \<Rightarrow> i < 370 \<and> in_run (case_conv_table1 ! i) c)"
  by (rule case_conv_table_find)

theorem case_conv_search_complete_witness:
  "\<exists>r. case_conv_find case_conv_table1 0x3B1 0 (int (length case_conv_table1) - 1) = Some r \<and>
     (case r of None \<Rightarrow> \<forall>v \<in> set case_conv_table1. \<not> in_run v 0x3B1
              | Some i \<Rightarrow> i < 370 \<and> in_run (case_conv_table1 ! i) 0x3B1)"
  by (rule case_conv_search_complete)

end
